(* ===== verification/Prelude.thy ===== *)
theory Prelude
  imports
    Main
    "HOL-Library.List_Lexorder"
    "HOL-Library.Char_ord"
    "HOL-Library.Product_Lexorder"
    "HOL-Library.AList"
    "HOL-Library.Word"
begin

text \<open>
  What every theory of the development shares: the result type that carries a Go
  function's \<^verbatim>\<open>(value, error)\<close> pair, Go maps as association lists with distinct keys,
  the sort-and-compact idiom of canonical forms, instants and durations, and
  positional digits, which addresses and numbers are printed and read with.

  Conventions. A Go string is a \<^typ>\<open>string\<close>, one \<^typ>\<open>char\<close> per byte, so the order of
  \<open>HOL-Library.List_Lexorder\<close> on \<^typ>\<open>char\<close> is Go's bytewise string order and
  \<^verbatim>\<open>sort.Strings\<close> is \<^const>\<open>sort\<close>. A nil slice and an empty slice are both \<open>[]\<close>.
  A pointer that may be nil is an option.
\<close>

unbundle bit_operations_syntax

named_theorems canon_simps \<open>facts about canonical forms\<close>
named_theorems gomap_simps \<open>facts about Go maps as association lists\<close>

section \<open>Results\<close>

type_synonym ('e, 'a) result = "'e + 'a"

definition bind_result :: "('e, 'a) result \<Rightarrow> ('a \<Rightarrow> ('e, 'b) result) \<Rightarrow> ('e, 'b) result" where
  "bind_result m f = (case m of Inl e \<Rightarrow> Inl e | Inr x \<Rightarrow> f x)"

lemma bind_result_simps [simp]:
  "bind_result (Inl e) f = Inl e"
  "bind_result (Inr x) f = f x"
  by (simp_all add: bind_result_def)

lemma bind_result_eq_Inr [simp]:
  "bind_result m f = Inr y \<longleftrightarrow> (\<exists>x. m = Inr x \<and> f x = Inr y)"
  by (cases m) auto

lemma bind_result_eq_Inl:
  "bind_result m f = Inl e \<longleftrightarrow> m = Inl e \<or> (\<exists>x. m = Inr x \<and> f x = Inl e)"
  by (cases m) auto

section \<open>Sorting and compacting\<close>

text \<open>\<^verbatim>\<open>sort.Strings\<close> followed by \<^verbatim>\<open>slices.Compact\<close>: the sorted list without its repeats.\<close>

definition sort_compact :: "'a::linorder list \<Rightarrow> 'a list" where
  "sort_compact xs = remdups_adj (sort xs)"

lemma sort_compact_Nil [simp]: "sort_compact [] = []"
  by (simp add: sort_compact_def)

lemma set_sort_compact [simp]: "set (sort_compact xs) = set xs"
  by (simp add: sort_compact_def)

lemma sorted_sort_compact [simp]: "sorted (sort_compact xs)"
  by (simp add: sort_compact_def sorted_remdups_adj)

lemma distinct_remdups_adj_sorted: "sorted xs \<Longrightarrow> distinct (remdups_adj xs)"
  by (induction xs rule: remdups_adj.induct) auto

lemma distinct_sort_compact [simp]: "distinct (sort_compact xs)"
  by (simp add: sort_compact_def distinct_remdups_adj_sorted)

lemma sort_compact_eqI:
  "set xs = set ys \<Longrightarrow> sort_compact xs = sort_compact ys"
  by (rule sorted_distinct_set_unique) simp_all

lemma sort_compact_id:
  "sorted xs \<Longrightarrow> distinct xs \<Longrightarrow> sort_compact xs = xs"
  by (rule sorted_distinct_set_unique) simp_all

lemma sort_compact_idem [simp]: "sort_compact (sort_compact xs) = sort_compact xs"
  by (simp add: sort_compact_id)

lemma sort_compact_eq_iff [simp]:
  "sort_compact xs = sort_compact ys \<longleftrightarrow> set xs = set ys"
  using sort_compact_eqI set_sort_compact by metis

lemma sorted_filter_same: "sorted xs \<Longrightarrow> sorted (filter P xs)"
  by (rule sorted_wrt_filter)

section \<open>Go maps\<close>

text \<open>
  A Go map is an association list with distinct keys: \<^verbatim>\<open>m[k] = v\<close> is \<^const>\<open>AList.update\<close>,
  \<^verbatim>\<open>delete(m, k)\<close> is \<^const>\<open>AList.delete\<close>, a lookup is \<^const>\<open>map_of\<close>. The list order is
  one possible iteration order; where the source iterates a map it then sorts what it
  collected, and the lemmas below say the sorted result depends on the map alone.
\<close>

type_synonym ('k, 'v) gomap = "('k \<times> 'v) list"

definition gomap_ok :: "('k, 'v) gomap \<Rightarrow> bool" where
  "gomap_ok m = distinct (map fst m)"

lemma gomap_ok_Nil [simp, gomap_simps]: "gomap_ok []"
  by (simp add: gomap_ok_def)

lemma gomap_ok_update [simp, gomap_simps]: "gomap_ok m \<Longrightarrow> gomap_ok (AList.update k v m)"
  unfolding gomap_ok_def by (rule distinct_update)

lemma gomap_ok_delete [simp, gomap_simps]: "gomap_ok m \<Longrightarrow> gomap_ok (AList.delete k m)"
  unfolding gomap_ok_def by (rule distinct_delete)

lemma map_of_update [simp, gomap_simps]: "map_of (AList.update k v m) = (map_of m)(k \<mapsto> v)"
  by (rule update_conv')

lemma map_of_delete [simp, gomap_simps]: "map_of (AList.delete k m) = (map_of m)(k := None)"
  by (rule delete_conv')

lemma gomap_in_iff: "gomap_ok m \<Longrightarrow> (k, v) \<in> set m \<longleftrightarrow> map_of m k = Some v"
  by (simp add: gomap_ok_def)

lemma dom_map_of_fst: "dom (map_of m) = fst ` set m"
  by (rule dom_map_of_conv_image_fst)

lemma gomap_length_card: "gomap_ok m \<Longrightarrow> length m = card (dom (map_of m))"
  unfolding gomap_ok_def dom_map_of_fst
  by (metis distinct_card length_map list.set_map)

text \<open>The sorted keys of a map, as code collects them before iterating.\<close>

definition sorted_keys :: "('k::linorder, 'v) gomap \<Rightarrow> 'k list" where
  "sorted_keys m = sort (map fst m)"

lemma set_sorted_keys [simp]: "set (sorted_keys m) = dom (map_of m)"
  by (simp add: sorted_keys_def dom_map_of_fst)

lemma sorted_keys_sorted [simp]: "sorted (sorted_keys m)"
  by (simp add: sorted_keys_def)

lemma sorted_keys_distinct [simp]: "gomap_ok m \<Longrightarrow> distinct (sorted_keys m)"
  by (simp add: sorted_keys_def gomap_ok_def)

lemma sorted_keys_unique:
  "gomap_ok m \<Longrightarrow> gomap_ok m' \<Longrightarrow> dom (map_of m) = dom (map_of m') \<Longrightarrow>
   sorted_keys m = sorted_keys m'"
  by (rule sorted_distinct_set_unique) simp_all

text \<open>Indexing a list by a key: later elements replace earlier ones with the same key.\<close>

definition index_by :: "('a \<Rightarrow> 'k) \<Rightarrow> ('a \<Rightarrow> 'v) \<Rightarrow> 'a list \<Rightarrow> ('k, 'v) gomap" where
  "index_by key val xs = fold (\<lambda>x m. AList.update (key x) (val x) m) xs []"

lemma index_by_Nil [simp]: "index_by key val [] = []"
  by (simp add: index_by_def)

lemma index_by_snoc:
  "index_by key val (xs @ [x]) = AList.update (key x) (val x) (index_by key val xs)"
  by (simp add: index_by_def)

lemma gomap_ok_index_by [simp]: "gomap_ok (index_by key val xs)"
  by (induction xs rule: rev_induct) (simp_all add: index_by_snoc)

lemma map_of_index_by:
  "map_of (index_by key val xs) = map_of (rev (map (\<lambda>x. (key x, val x)) xs))"
  by (induction xs rule: rev_induct) (simp_all add: index_by_snoc)

lemma dom_index_by [simp]: "dom (map_of (index_by key val xs)) = key ` set xs"
  by (simp add: map_of_index_by dom_map_of_fst image_image)

lemma index_by_SomeD:
  "map_of (index_by key val xs) k = Some v \<Longrightarrow> \<exists>x\<in>set xs. key x = k \<and> val x = v"
  by (drule map_of_SomeD [of "rev (map (\<lambda>x. (key x, val x)) xs)", folded map_of_index_by]) auto

lemma index_by_Some_distinct:
  "distinct (map key xs) \<Longrightarrow> x \<in> set xs \<Longrightarrow> map_of (index_by key val xs) (key x) = Some (val x)"
  unfolding map_of_index_by by (rule map_of_is_SomeI) (auto simp: rev_map [symmetric] comp_def)

end
