(* ===== verification/GoText.thy ===== *)
theory GoText
  imports Prelude
begin

text \<open>
  The parts of Go's \<^verbatim>\<open>strings\<close> and \<^verbatim>\<open>strconv\<close> the program uses: \<open>split_on\<close> and \<open>join\<close>
  (\<^verbatim>\<open>strings.Split\<close>, \<^verbatim>\<open>strings.Join\<close>), \<open>cut\<close> (\<^verbatim>\<open>strings.Cut\<close>), \<open>trim_space\<close>
  (\<^verbatim>\<open>strings.TrimSpace\<close>, Unicode spaces in their UTF-8 bytes), and decimal and hexadecimal
  numerals with their readers. The lemmas are the round trips the address printer, the port
  specifications and the rule identifiers rest on.
\<close>

section \<open>Digits\<close>

primrec to_digits :: "nat \<Rightarrow> nat \<Rightarrow> nat \<Rightarrow> nat list" where
  "to_digits b 0 n = []"
| "to_digits b (Suc k) n = to_digits b k (n div b) @ [n mod b]"

definition of_digits :: "nat \<Rightarrow> nat list \<Rightarrow> nat" where
  "of_digits b ds = foldl (\<lambda>a d. a * b + d) 0 ds"

lemma of_digits_Nil [simp]: "of_digits b [] = 0"
  by (simp add: of_digits_def)

lemma of_digits_snoc [simp]: "of_digits b (ds @ [d]) = of_digits b ds * b + d"
  by (simp add: of_digits_def)

lemma length_to_digits [simp]: "length (to_digits b k n) = k"
  by (induction k arbitrary: n) simp_all

lemma to_digits_bound: "0 < b \<Longrightarrow> d \<in> set (to_digits b k n) \<Longrightarrow> d < b"
  by (induction k arbitrary: n) auto

lemma of_to_digits: "of_digits b (to_digits b k n) = n mod b ^ k"
proof (induction k arbitrary: n)
  case (Suc k)
  have "n mod (b * b ^ k) = b * (n div b mod b ^ k) + n mod b"
    by (rule mod_mult2_eq)
  then show ?case by (simp add: Suc mult.commute)
qed simp

lemma to_of_digits:
  "\<forall>d\<in>set ds. d < b \<Longrightarrow> length ds = k \<Longrightarrow> to_digits b k (of_digits b ds) = ds"
proof (induction ds arbitrary: k rule: rev_induct)
  case (snoc d ds)
  then obtain k' where "k = Suc k'" by (cases k) auto
  with snoc show ?case by simp
qed simp

lemma of_digits_bound: "\<forall>d\<in>set ds. d < b \<Longrightarrow> of_digits b ds < b ^ length ds"
proof (induction ds rule: rev_induct)
  case (snoc d ds)
  then have "of_digits b ds + 1 \<le> b ^ length ds" and "d < b" by auto
  then have "(of_digits b ds + 1) * b \<le> b ^ length ds * b" by (rule_tac mult_le_mono1)
  with \<open>d < b\<close> show ?case by (simp add: mult.commute)
qed simp

section \<open>Numerals\<close>

definition digit_char :: "nat \<Rightarrow> char" where
  "digit_char d = (if d < 10 then char_of (48 + d) else char_of (87 + d))"

definition is_dec :: "char \<Rightarrow> bool" where
  "is_dec c = (48 \<le> (of_char c :: nat) \<and> (of_char c :: nat) \<le> 57)"

definition is_hex :: "char \<Rightarrow> bool" where
  "is_hex c = (is_dec c \<or> (97 \<le> (of_char c :: nat) \<and> (of_char c :: nat) \<le> 102)
                 \<or> (65 \<le> (of_char c :: nat) \<and> (of_char c :: nat) \<le> 70))"

definition char_digit :: "char \<Rightarrow> nat" where
  "char_digit c = (let n = of_char c in
     if n \<le> 57 then n - 48 else if n \<le> 70 then n - 55 else n - 87)"

definition digits_value :: "nat \<Rightarrow> string \<Rightarrow> nat" where
  "digits_value b s = of_digits b (map char_digit s)"

lemma digit_char_of_char: "d < 16 \<Longrightarrow> (of_char (digit_char d) :: nat) = (if d < 10 then 48 + d else 87 + d)"
  by (simp add: digit_char_def)

lemma is_dec_digit_char [simp]: "d < 10 \<Longrightarrow> is_dec (digit_char d)"
  by (simp add: is_dec_def digit_char_of_char)

lemma is_hex_digit_char [simp]: "d < 16 \<Longrightarrow> is_hex (digit_char d)"
  by (auto simp: is_hex_def is_dec_def digit_char_of_char)

lemma char_digit_digit_char [simp]: "d < 16 \<Longrightarrow> char_digit (digit_char d) = d"
  by (simp add: char_digit_def digit_char_of_char Let_def)

lemma digit_char_eq_0 [simp]: "d < 16 \<Longrightarrow> digit_char d = CHR ''0'' \<longleftrightarrow> d = 0"
proof
  assume "d < 16" and "digit_char d = CHR ''0''"
  then have "d = char_digit CHR ''0''" by (metis char_digit_digit_char)
  then show "d = 0" by (simp add: char_digit_def)
next
  show "d = 0 \<Longrightarrow> digit_char d = CHR ''0''" by (simp add: digit_char_def) code_simp
qed

text \<open>\<^verbatim>\<open>strconv.FormatUint(n, base)\<close> for the bases 10 and 16.\<close>

function show_base :: "nat \<Rightarrow> nat \<Rightarrow> string" where
  "show_base b n = (if n < b \<or> b < 2 then [digit_char n]
                    else show_base b (n div b) @ [digit_char (n mod b)])"
  by pat_completeness auto
termination
  by (relation "measure snd") auto

declare show_base.simps [simp del]

abbreviation show_dec :: "nat \<Rightarrow> string" where "show_dec \<equiv> show_base 10"
abbreviation show_hex :: "nat \<Rightarrow> string" where "show_hex \<equiv> show_base 16"

lemma show_base_not_Nil [simp]: "show_base b n \<noteq> []"
  by (subst show_base.simps) simp

lemma show_base_digits:
  "2 \<le> b \<Longrightarrow> b \<le> 16 \<Longrightarrow> \<exists>ds. show_base b n = map digit_char ds \<and> (\<forall>d\<in>set ds. d < b) \<and>
     of_digits b ds = n \<and> ds \<noteq> [] \<and> (hd ds = 0 \<longrightarrow> ds = [0])"
proof (induction b n rule: show_base.induct)
  case (1 b n)
  show ?case
  proof (cases "n < b")
    case True
    with 1 show ?thesis
      by (intro exI [of _ "[n]"]) (simp add: show_base.simps [of b n] of_digits_def)
  next
    case False
    with 1 obtain ds where ds: "show_base b (n div b) = map digit_char ds" "\<forall>d\<in>set ds. d < b"
      "of_digits b ds = n div b" "ds \<noteq> []" "hd ds = 0 \<longrightarrow> ds = [0]"
      by (metis not_less)
    have "n div b \<noteq> 0" using False 1 by (simp add: div_eq_0_iff)
    with ds have "hd ds \<noteq> 0" by (auto simp: of_digits_def)
    with ds False 1 show ?thesis
      by (intro exI [of _ "ds @ [n mod b]"]) (auto simp: show_base.simps [of b n])
  qed
qed

lemma digits_value_show_base [simp]:
  assumes "2 \<le> b" "b \<le> 16"
  shows "digits_value b (show_base b n) = n"
proof -
  from show_base_digits [OF assms, of n] obtain ds where
    "show_base b n = map digit_char ds" "\<forall>d\<in>set ds. d < b" "of_digits b ds = n" by blast
  moreover from this assms have "\<forall>d\<in>set ds. d < 16" by auto
  then have "map char_digit (map digit_char ds) = ds" by (simp add: map_idI)
  ultimately show ?thesis by (simp add: digits_value_def)
qed

lemma show_base_inj [simp]: "2 \<le> b \<Longrightarrow> b \<le> 16 \<Longrightarrow> show_base b m = show_base b n \<longleftrightarrow> m = n"
  by (metis digits_value_show_base)

lemma show_dec_is_dec: "c \<in> set (show_dec n) \<Longrightarrow> is_dec c"
  using show_base_digits [of 10 n] by auto

text \<open>\<^verbatim>\<open>strconv.FormatInt(n, 10)\<close>.\<close>

definition show_int :: "int \<Rightarrow> string" where
  "show_int n = (if n < 0 then CHR ''-'' # show_dec (nat (- n)) else show_dec (nat n))"

lemma show_hex_is_hex: "c \<in> set (show_hex n) \<Longrightarrow> is_hex c"
  using show_base_digits [of 16 n] by auto

lemma show_dec_no_leading_zero:
  "1 < length (show_dec n) \<Longrightarrow> hd (show_dec n) \<noteq> CHR ''0''"
proof
  assume len: "1 < length (show_dec n)" and z: "hd (show_dec n) = CHR ''0''"
  from show_base_digits [of 10 n] obtain ds where
    ds: "show_dec n = map digit_char ds" "\<forall>d\<in>set ds. d < 10" "ds \<noteq> []" "hd ds = 0 \<longrightarrow> ds = [0]" by auto
  then have "hd ds < 10" using hd_in_set by blast
  with z ds have "hd ds = 0" by (simp add: hd_map)
  with ds len show False by simp
qed

lemma length_show_hex: "n < 16 ^ Suc k \<Longrightarrow> length (show_hex n) \<le> Suc k"
proof (induction k arbitrary: n)
  case 0
  then show ?case by (simp add: show_base.simps)
next
  case (Suc k)
  show ?case
  proof (cases "n < 16")
    case True
    then show ?thesis by (simp add: show_base.simps)
  next
    case False
    from Suc.prems have "n div 16 < 16 ^ Suc k" by (simp add: less_mult_imp_div_less mult.commute)
    with Suc.IH have "length (show_hex (n div 16)) \<le> Suc k" by blast
    with False show ?thesis by (simp add: show_base.simps [of 16 n])
  qed
qed

text \<open>\<^verbatim>\<open>strconv.ParseUint(s, 10, bits)\<close>: digits only, in range.\<close>

definition parse_uint :: "nat \<Rightarrow> string \<Rightarrow> nat option" where
  "parse_uint bits s =
     (if s \<noteq> [] \<and> list_all is_dec s \<and> digits_value 10 s < 2 ^ bits then Some (digits_value 10 s) else None)"

lemma parse_uint_show_dec [simp]: "n < 2 ^ bits \<Longrightarrow> parse_uint bits (show_dec n) = Some n"
  by (auto simp: parse_uint_def list_all_iff dest: show_dec_is_dec)

section \<open>Splitting and joining\<close>

fun split_on :: "char \<Rightarrow> string \<Rightarrow> string list" where
  "split_on c [] = [[]]"
| "split_on c (x # xs) =
     (if x = c then [] # split_on c xs
      else (case split_on c xs of [] \<Rightarrow> [[x]] | y # ys \<Rightarrow> (x # y) # ys))"

fun join :: "string \<Rightarrow> string list \<Rightarrow> string" where
  "join sep [] = []"
| "join sep [x] = x"
| "join sep (x # y # ys) = x @ sep @ join sep (y # ys)"

lemma split_on_not_Nil [simp]: "split_on c s \<noteq> []"
  by (cases s) (auto split: list.splits)

lemma split_on_absent: "c \<notin> set s \<Longrightarrow> split_on c s = [s]"
  by (induction s) auto

lemma split_on_append: "c \<notin> set s \<Longrightarrow> split_on c (s @ c # t) = s # split_on c t"
  by (induction s) auto

lemma split_on_join: "xs \<noteq> [] \<Longrightarrow> \<forall>x\<in>set xs. c \<notin> set x \<Longrightarrow> split_on c (join [c] xs) = xs"
  by (induction "[c]" xs rule: join.induct) (auto simp: split_on_absent split_on_append)

lemma join_Cons: "xs \<noteq> [] \<Longrightarrow> join sep (x # xs) = x @ sep @ join sep xs"
  by (cases xs) auto

lemma set_join_subset: "set (join sep xs) \<subseteq> set sep \<union> \<Union> (set ` set xs)"
  by (induction sep xs rule: join.induct) auto

text \<open>\<^verbatim>\<open>strings.Cut\<close> around the first occurrence of a one-byte separator.\<close>

fun cut :: "char \<Rightarrow> string \<Rightarrow> string \<times> string \<times> bool" where
  "cut c [] = ([], [], False)"
| "cut c (x # xs) = (if x = c then ([], xs, True)
     else (let (a, b, ok) = cut c xs in (x # a, b, ok)))"

lemma cut_append [simp]: "c \<notin> set s \<Longrightarrow> cut c (s @ c # t) = (s, t, True)"
  by (induction s) auto

lemma cut_absent: "c \<notin> set s \<Longrightarrow> cut c s = (s, [], False)"
  by (induction s) auto

text \<open>Splitting at the last occurrence, \<^verbatim>\<open>strings.LastIndexByte\<close> with both sides.\<close>

definition cut_last :: "char \<Rightarrow> string \<Rightarrow> (string \<times> string) option" where
  "cut_last c s = (if c \<in> set s
     then Some (rev (tl (dropWhile (\<lambda>x. x \<noteq> c) (rev s))), rev (takeWhile (\<lambda>x. x \<noteq> c) (rev s)))
     else None)"

lemma takeWhile_until: "c \<notin> set t \<Longrightarrow> takeWhile (\<lambda>x. x \<noteq> c) (t @ c # u) = t"
  by (induction t) auto

lemma dropWhile_until: "c \<notin> set t \<Longrightarrow> dropWhile (\<lambda>x. x \<noteq> c) (t @ c # u) = c # u"
  by (induction t) auto

lemma cut_last_append [simp]: "c \<notin> set t \<Longrightarrow> cut_last c (s @ c # t) = Some (s, t)"
  by (simp add: cut_last_def takeWhile_until dropWhile_until)

lemma cut_last_None: "c \<notin> set s \<Longrightarrow> cut_last c s = None"
  by (simp add: cut_last_def)

section \<open>TrimSpace\<close>

text \<open>
  The white space code points of \<^verbatim>\<open>unicode.IsSpace\<close> in their UTF-8 encodings; a byte
  sequence that is not one of these decodes to something else and stops the trimming.
\<close>

definition space_seqs :: "string list" where
  "space_seqs = map (map char_of)
     ([[9], [10], [11], [12], [13], [32], [194, 133], [194, 160], [225, 154, 128],
       [226, 128, 128], [226, 128, 129], [226, 128, 130], [226, 128, 131], [226, 128, 132],
       [226, 128, 133], [226, 128, 134], [226, 128, 135], [226, 128, 136], [226, 128, 137],
       [226, 128, 138], [226, 128, 168], [226, 128, 169], [226, 128, 175], [226, 129, 159],
       [227, 128, 128]] :: nat list list)"

definition starts_with :: "string \<Rightarrow> string \<Rightarrow> bool" where
  "starts_with p s = (take (length p) s = p)"

function trim_seqs :: "string list \<Rightarrow> string \<Rightarrow> string" where
  "trim_seqs ps s = (case find (\<lambda>p. p \<noteq> [] \<and> starts_with p s) ps of
     None \<Rightarrow> s | Some p \<Rightarrow> trim_seqs ps (drop (length p) s))"
  by pat_completeness auto
termination
proof (relation "measure (length \<circ> snd)")
  fix ps s p
  assume "find (\<lambda>p. p \<noteq> [] \<and> starts_with p s) ps = Some p"
  then have "p \<noteq> []" and "take (length p) s = p"
    by (auto simp: find_Some_iff starts_with_def)
  then have "s \<noteq> []" by auto
  with \<open>p \<noteq> []\<close> show "((ps, drop (length p) s), ps, s) \<in> measure (length \<circ> snd)"
    by simp
qed simp

declare trim_seqs.simps [simp del]

definition trim_left :: "string \<Rightarrow> string" where
  "trim_left = trim_seqs space_seqs"

definition trim_right :: "string \<Rightarrow> string" where
  "trim_right s = rev (trim_seqs (map rev space_seqs) (rev s))"

definition trim_space :: "string \<Rightarrow> string" where
  "trim_space s = trim_right (trim_left s)"

lemma trim_seqs_no_prefix: "p \<in> set ps \<Longrightarrow> p \<noteq> [] \<Longrightarrow> \<not> starts_with p (trim_seqs ps s)"
proof (induction ps s rule: trim_seqs.induct)
  case (1 ps s)
  then show ?case
    by (subst trim_seqs.simps) (auto simp: find_None_iff split: option.splits)
qed

lemma trim_seqs_id: "\<forall>p\<in>set ps. p = [] \<or> \<not> starts_with p s \<Longrightarrow> trim_seqs ps s = s"
  by (subst trim_seqs.simps) (auto simp: find_None_iff find_Some_iff split: option.splits)

lemma trim_seqs_suffix: "\<exists>n. trim_seqs ps s = drop n s"
proof (induction ps s rule: trim_seqs.induct)
  case (1 ps s)
  show ?case
  proof (cases "find (\<lambda>p. p \<noteq> [] \<and> starts_with p s) ps")
    case None
    then show ?thesis by (subst trim_seqs.simps) (auto intro: exI [of _ 0])
  next
    case (Some p)
    with 1 show ?thesis by (subst trim_seqs.simps) (auto simp: drop_drop)
  qed
qed

lemma starts_with_take: "starts_with p (take n s) \<Longrightarrow> starts_with p s"
  unfolding starts_with_def by (metis append_take_drop_id length_take min.bounded_iff min_def nle_le take_all take_take)

lemma trim_space_idem [simp]: "trim_space (trim_space s) = trim_space s"
proof -
  let ?l = "trim_left s"
  obtain n where "trim_seqs (map rev space_seqs) (rev ?l) = drop n (rev ?l)"
    using trim_seqs_suffix by blast
  then have r: "trim_right ?l = take (length ?l - n) ?l"
    by (simp add: trim_right_def rev_drop)
  have "\<forall>p\<in>set space_seqs. p = [] \<or> \<not> starts_with p (trim_right ?l)"
    unfolding r using trim_seqs_no_prefix [of _ space_seqs s, folded trim_left_def] starts_with_take by blast
  then have left: "trim_left (trim_right ?l) = trim_right ?l"
    unfolding trim_left_def by (rule trim_seqs_id)
  have "\<forall>p\<in>set (map rev space_seqs). p = [] \<or>
      \<not> starts_with p (trim_seqs (map rev space_seqs) (rev ?l))"
    using trim_seqs_no_prefix by blast
  then have "trim_right (trim_right ?l) = trim_right ?l"
    by (simp add: trim_right_def trim_seqs_id)
  with left show ?thesis by (simp add: trim_space_def)
qed

text \<open>Text of printing, non-space ASCII characters is left alone.\<close>

definition printable :: "char \<Rightarrow> bool" where
  "printable c = (33 \<le> (of_char c :: nat) \<and> (of_char c :: nat) < 128)"

lemma space_seqs_ends:
  "\<forall>p\<in>set space_seqs. p \<noteq> [] \<and> \<not> printable (hd p) \<and> \<not> printable (last p)"
  by (simp add: space_seqs_def printable_def)

lemma starts_with_hd: "starts_with p s \<Longrightarrow> p \<noteq> [] \<Longrightarrow> s \<noteq> [] \<and> hd s = hd p"
  unfolding starts_with_def by (metis hd_take length_greater_0_conv take_Nil)

lemma trim_space_printable: "\<forall>c\<in>set s. printable c \<Longrightarrow> trim_space s = s"
proof -
  assume pr: "\<forall>c\<in>set s. printable c"
  have "\<forall>p\<in>set space_seqs. p = [] \<or> \<not> starts_with p s"
    using pr space_seqs_ends starts_with_hd hd_in_set by metis
  then have "trim_left s = s" unfolding trim_left_def by (rule trim_seqs_id)
  moreover have "\<forall>p\<in>set (map rev space_seqs). p = [] \<or> \<not> starts_with p (rev s)"
    using pr space_seqs_ends starts_with_hd
    by (auto simp: hd_rev) (metis hd_rev last_in_set rev_is_Nil_conv)
  then have "trim_right s = s" unfolding trim_right_def by (simp add: trim_seqs_id)
  ultimately show ?thesis by (simp add: trim_space_def)
qed

text \<open>\<^verbatim>\<open>strings.Fields\<close>, \<open>cur\<close> the reversed field being read.\<close>

function split_fields :: "string \<Rightarrow> string \<Rightarrow> string list" where
  "split_fields cur [] = (if cur = [] then [] else [rev cur])"
| "split_fields cur (c # cs) = (case find (\<lambda>p. p \<noteq> [] \<and> starts_with p (c # cs)) space_seqs of
     Some p \<Rightarrow> (if cur = [] then [] else [rev cur]) @ split_fields [] (drop (length p - 1) cs)
   | None \<Rightarrow> split_fields (c # cur) cs)"
  by pat_completeness auto
termination
  by (relation "measure (length \<circ> snd)") auto

definition str_fields :: "string \<Rightarrow> string list" where
  "str_fields s = split_fields [] s"

lemma is_hex_printable: "is_hex c \<Longrightarrow> printable c"
  by (auto simp: is_hex_def is_dec_def printable_def)

lemma is_dec_is_hex: "is_dec c \<Longrightarrow> is_hex c"
  by (simp add: is_hex_def)


section \<open>Case mapping\<close>

text \<open>
  \<^verbatim>\<open>strings.ToLower\<close> and \<^verbatim>\<open>strings.ToUpper\<close> as far as their results can be compared with
  ASCII text, which is all the program does with them: besides the ASCII letters, the dotted
  capital I (C4 B0) and the Kelvin sign (E2 84 AA) have an ASCII lower case, the dotless i
  (C4 B1) and the long s (C5 BF) an ASCII upper case; every other character has none, and
  is kept.
\<close>

definition byte :: "nat \<Rightarrow> char" where
  "byte n = char_of n"

definition ascii_lower :: "char \<Rightarrow> char" where
  "ascii_lower c = (if 65 \<le> (of_char c :: nat) \<and> (of_char c :: nat) \<le> 90 then char_of ((of_char c :: nat) + 32) else c)"

definition ascii_upper :: "char \<Rightarrow> char" where
  "ascii_upper c = (if 97 \<le> (of_char c :: nat) \<and> (of_char c :: nat) \<le> 122 then char_of ((of_char c :: nat) - 32) else c)"

fun to_lower :: "string \<Rightarrow> string" where
  "to_lower [] = []"
| "to_lower (c # s) =
     (if c = byte 196 \<and> starts_with [byte 176] s then CHR ''i'' # to_lower (drop 1 s)
      else if c = byte 226 \<and> starts_with [byte 132, byte 170] s then CHR ''k'' # to_lower (drop 2 s)
      else ascii_lower c # to_lower s)"

fun to_upper :: "string \<Rightarrow> string" where
  "to_upper [] = []"
| "to_upper (c # s) =
     (if c = byte 196 \<and> starts_with [byte 177] s then CHR ''I'' # to_upper (drop 1 s)
      else if c = byte 197 \<and> starts_with [byte 191] s then CHR ''S'' # to_upper (drop 1 s)
      else ascii_upper c # to_upper s)"

declare to_lower.simps(2) [simp del] to_upper.simps(2) [simp del]

lemma byte_not_ascii:
  "c \<noteq> byte 196 \<and> c \<noteq> byte 197 \<and> c \<noteq> byte 226" if "(of_char c :: nat) < 128"
  using that by (auto simp: byte_def)

lemma to_lower_ascii: "(of_char c :: nat) < 128 \<Longrightarrow> to_lower (c # s) = ascii_lower c # to_lower s"
  using byte_not_ascii [of c] by (simp add: to_lower.simps)

lemma to_upper_ascii: "(of_char c :: nat) < 128 \<Longrightarrow> to_upper (c # s) = ascii_upper c # to_upper s"
  using byte_not_ascii [of c] by (simp add: to_upper.simps)

lemmas case_eval = to_lower_ascii to_upper_ascii ascii_lower_def ascii_upper_def char_of_def bit_0

text \<open>\<^verbatim>\<open>strings.TrimPrefix\<close>\<close>

definition trim_prefix :: "string \<Rightarrow> string \<Rightarrow> string" where
  "trim_prefix p s = (if starts_with p s then drop (length p) s else s)"


section \<open>Runes\<close>

text \<open>
  The width of the first rune of a string as Go's \<^verbatim>\<open>range\<close> decodes UTF-8: a valid sequence
  is one rune, an invalid byte is one of width 1.
\<close>

definition byte_in :: "nat \<Rightarrow> nat \<Rightarrow> string \<Rightarrow> nat \<Rightarrow> bool" where
  "byte_in lo hi s i = (i < length s \<and> lo \<le> (of_char (s ! i) :: nat) \<and> (of_char (s ! i) :: nat) \<le> hi)"

definition rune_width :: "string \<Rightarrow> nat" where
  "rune_width s = (let cont = byte_in 128 191 s in
     if byte_in 194 223 s 0 \<and> cont 1 then 2
     else if (byte_in 224 224 s 0 \<and> byte_in 160 191 s 1 \<or> byte_in 225 236 s 0 \<and> cont 1
        \<or> byte_in 237 237 s 0 \<and> byte_in 128 159 s 1 \<or> byte_in 238 239 s 0 \<and> cont 1) \<and> cont 2 then 3
     else if (byte_in 240 240 s 0 \<and> byte_in 144 191 s 1 \<or> byte_in 241 243 s 0 \<and> cont 1
        \<or> byte_in 244 244 s 0 \<and> byte_in 128 143 s 1) \<and> cont 2 \<and> cont 3 then 4
     else 1)"

lemma rune_width_pos [simp]: "0 < rune_width s"
  by (simp add: rune_width_def Let_def)

lemma rune_width_ascii: "(of_char c :: nat) < 128 \<Longrightarrow> rune_width (c # s) = 1"
  by (simp add: rune_width_def Let_def byte_in_def)

text \<open>Replacing the runes that do not satisfy a predicate by one byte each.\<close>

function map_runes :: "(char \<Rightarrow> bool) \<Rightarrow> char \<Rightarrow> string \<Rightarrow> string" where
  "map_runes ok sub [] = []"
| "map_runes ok sub (c # s) = (if ok c then c # map_runes ok sub s
     else sub # map_runes ok sub (drop (rune_width (c # s)) (c # s)))"
  by pat_completeness auto
termination
  by (relation "measure (\<lambda>(ok, sub, s). length s)") auto

lemma map_runes_ascii:
  "\<forall>c\<in>set s. (of_char c :: nat) < 128 \<Longrightarrow> map_runes ok sub s = map (\<lambda>c. if ok c then c else sub) s"
  by (induction s) (simp_all add: rune_width_ascii)

section \<open>Formatting\<close>

definition nl :: string where "nl = [CHR 0x0A]"
definition tab :: string where "tab = [CHR 0x09]"
definition dq :: string where "dq = [CHR 0x22]"

text \<open>\<^verbatim>\<open>%0nx\<close>: hexadecimal, padded with zeros.\<close>

definition show_hex_pad :: "nat \<Rightarrow> nat \<Rightarrow> string" where
  "show_hex_pad n v = replicate (n - length (show_hex v)) CHR ''0'' @ show_hex v"

end
