(* ===== verification/Netip.thy ===== *)
theory Netip
  imports GoText
begin

text \<open>
  Go's \<^verbatim>\<open>net/netip\<close> as the program uses it: addresses of both families with IPv6 zones,
  prefixes, their textual forms (with the \<^verbatim>\<open>::\<close> compression and the IPv4-mapped form) and
  the parsers that accept them, masking, containment, unmapping and the address order. The
  main results are \<open>parse_addr_string\<close> and \<open>parse_prefix_string\<close>: what is printed reads
  back as itself, for every address and every valid prefix. The canonical form of a rendered
  policy rests on them.
\<close>

section \<open>Addresses\<close>

datatype addr = V4 "32 word" | V6 "128 word" string

fun is6 :: "addr \<Rightarrow> bool" where
  "is6 (V4 _) = False"
| "is6 (V6 _ _) = True"

fun bit_len :: "addr \<Rightarrow> nat" where
  "bit_len (V4 _) = 32"
| "bit_len (V6 _ _) = 128"

fun zone :: "addr \<Rightarrow> string" where
  "zone (V4 _) = []"
| "zone (V6 _ z) = z"

definition is_4in6 :: "128 word \<Rightarrow> bool" where
  "is_4in6 w = (unat w div 2 ^ 32 = 65535)"

text \<open>\<^verbatim>\<open>Addr.Unmap\<close>: an IPv4-mapped address becomes the IPv4 address; its zone goes.\<close>

fun unmap :: "addr \<Rightarrow> addr" where
  "unmap (V4 w) = V4 w"
| "unmap (V6 w z) = (if is_4in6 w then V4 (ucast w) else V6 w z)"

lemma unmap_idem [simp]: "unmap (unmap a) = unmap a"
  by (cases a) auto

text \<open>\<^verbatim>\<open>Addr.Compare\<close>: by length, then value, then zone.\<close>

fun addr_less :: "addr \<Rightarrow> addr \<Rightarrow> bool" where
  "addr_less (V4 a) (V4 b) = (a < b)"
| "addr_less (V4 a) (V6 b z) = True"
| "addr_less (V6 a z) (V4 b) = False"
| "addr_less (V6 a z) (V6 b z') = (a < b \<or> a = b \<and> z < z')"

instantiation addr :: linorder
begin

definition less_addr :: "addr \<Rightarrow> addr \<Rightarrow> bool" where
  "less_addr = addr_less"

definition less_eq_addr :: "addr \<Rightarrow> addr \<Rightarrow> bool" where
  "less_eq_addr a b = (a = b \<or> addr_less a b)"

instance
proof
  fix x y z :: addr
  show "(x < y) = (x \<le> y \<and> \<not> y \<le> x)"
    by (cases x; cases y) (auto simp: less_addr_def less_eq_addr_def)
  show "x \<le> x" by (simp add: less_eq_addr_def)
  show "x \<le> y \<Longrightarrow> y \<le> z \<Longrightarrow> x \<le> z"
    by (cases x; cases y; cases z) (auto simp: less_eq_addr_def)
  show "x \<le> y \<Longrightarrow> y \<le> x \<Longrightarrow> x = y"
    by (cases x; cases y) (auto simp: less_eq_addr_def)
  show "x \<le> y \<or> y \<le> x"
    by (cases x; cases y) (auto simp: less_eq_addr_def)
qed

end

section \<open>Octets and hextets\<close>

definition v4_octets :: "32 word \<Rightarrow> nat list" where
  "v4_octets w = to_digits 256 4 (unat w)"

definition v6_hextets :: "128 word \<Rightarrow> nat list" where
  "v6_hextets w = to_digits 65536 8 (unat w)"

lemma unat_digits_4: "of_digits 256 (v4_octets w) = unat w"
  using unsigned_less [of w, where ?'a = nat] by (simp add: v4_octets_def of_to_digits)

lemma unat_digits_8: "of_digits 65536 (v6_hextets w) = unat w"
  using unsigned_less [of w, where ?'a = nat] by (simp add: v6_hextets_def of_to_digits)

lemma length_v4_octets [simp]: "length (v4_octets w) = 4"
  by (simp add: v4_octets_def)

lemma length_v6_hextets [simp]: "length (v6_hextets w) = 8"
  by (simp add: v6_hextets_def)

lemma v4_octets_not_Nil [simp]: "v4_octets w \<noteq> []"
  using length_v4_octets [of w] by fastforce

lemma v4_octets_bound: "\<forall>d\<in>set (v4_octets w). d < 256"
  by (auto simp: v4_octets_def dest: to_digits_bound [rotated])

lemma v6_hextets_bound: "\<forall>d\<in>set (v6_hextets w). d < 65536"
  by (auto simp: v6_hextets_def dest: to_digits_bound [rotated])

section \<open>Printing\<close>

definition v4_string :: "32 word \<Rightarrow> string" where
  "v4_string w = join ''.'' (map show_dec (v4_octets w))"

text \<open>The longest run of two or more zero hextets, the first of equal ones; length 0 for none.\<close>

definition zeros_at :: "nat list \<Rightarrow> nat \<Rightarrow> nat" where
  "zeros_at hs i = length (takeWhile (\<lambda>h. h = 0) (drop i hs))"

definition best_run :: "nat list \<Rightarrow> nat \<times> nat" where
  "best_run hs = fold (\<lambda>i best. let l = zeros_at hs i in
      if 2 \<le> l \<and> snd best < l then (i, l) else best) [0..<8] (255, 0)"

definition hex_groups :: "nat list \<Rightarrow> string" where
  "hex_groups hs = join '':'' (map show_hex hs)"

definition v6_text :: "nat list \<Rightarrow> string" where
  "v6_text hs = (case best_run hs of (zs, l) \<Rightarrow>
     if l = 0 then hex_groups hs
     else hex_groups (take zs hs) @ ''::'' @ hex_groups (drop (zs + l) hs))"

fun addr_string :: "addr \<Rightarrow> string" where
  "addr_string (V4 w) = v4_string w"
| "addr_string (V6 w z) =
     (if is_4in6 w then ''::ffff:'' @ v4_string (ucast w) else v6_text (v6_hextets w))
     @ (if z = [] then [] else CHR ''%'' # z)"

section \<open>Parsing\<close>

definition v4_field_ok :: "string \<Rightarrow> bool" where
  "v4_field_ok f = (f \<noteq> [] \<and> list_all is_dec f \<and> (1 < length f \<longrightarrow> hd f \<noteq> CHR ''0'')
     \<and> digits_value 10 f \<le> 255)"

definition parse_v4 :: "string \<Rightarrow> 32 word option" where
  "parse_v4 s = (let fs = split_on CHR ''.'' s in
     if length fs = 4 \<and> list_all v4_field_ok fs
     then Some (of_nat (of_digits 256 (map (digits_value 10) fs))) else None)"

text \<open>
  The group loop of \<^verbatim>\<open>parseIPv6\<close>: the groups read so far, the position of the ellipsis if
  one was read, and the text left. It returns where the loop stops, \<open>None\<close> for a refusal.
\<close>

function v6_loop :: "string \<Rightarrow> nat list \<Rightarrow> nat option \<Rightarrow> (nat list \<times> nat option \<times> string) option" where
  "v6_loop s acc ell =
     (if 8 \<le> length acc then Some (acc, ell, s)
      else let ds = takeWhile is_hex s; rest = dropWhile is_hex s in
        if ds = [] \<or> 4 < length ds then None
        else if rest \<noteq> [] \<and> hd rest = CHR ''.'' then
          (if ell = None \<and> length acc \<noteq> 6 then None
           else if 8 < length acc + 2 then None
           else case parse_v4 s of None \<Rightarrow> None
             | Some w \<Rightarrow> Some (acc @ [unat w div 65536, unat w mod 65536], ell, []))
        else let acc' = acc @ [digits_value 16 ds] in
          (case rest of [] \<Rightarrow> Some (acc', ell, [])
           | c # t \<Rightarrow>
               if c \<noteq> CHR '':'' then None
               else if t = [] then None
               else if hd t = CHR '':'' then
                 (if ell \<noteq> None then None
                  else if tl t = [] then Some (acc', Some (length acc'), [])
                  else v6_loop (tl t) acc' (Some (length acc')))
               else v6_loop t acc' ell))"
  by pat_completeness auto
termination
  by (relation "measure (\<lambda>(s, acc, ell). 8 - length acc)") auto

declare v6_loop.simps [simp del]

definition v6_finish :: "nat list \<Rightarrow> nat option \<Rightarrow> string \<Rightarrow> nat list option" where
  "v6_finish acc ell s =
     (if s \<noteq> [] then None
      else if length acc < 8 then
        (case ell of None \<Rightarrow> None
         | Some e \<Rightarrow> Some (take e acc @ replicate (8 - length acc) 0 @ drop e acc))
      else if ell \<noteq> None then None else Some acc)"

definition parse_v6_groups :: "string \<Rightarrow> nat list option" where
  "parse_v6_groups s =
     (if starts_with ''::'' s then
        (if drop 2 s = [] then Some (replicate 8 0)
         else case v6_loop (drop 2 s) [] (Some 0) of None \<Rightarrow> None
           | Some (acc, ell, r) \<Rightarrow> v6_finish acc ell r)
      else case v6_loop s [] None of None \<Rightarrow> None
        | Some (acc, ell, r) \<Rightarrow> v6_finish acc ell r)"

definition parse_v6 :: "string \<Rightarrow> addr option" where
  "parse_v6 s = (case cut CHR ''%'' s of (t, z, has_zone) \<Rightarrow>
     if has_zone \<and> z = [] then None
     else map_option (\<lambda>hs. V6 (of_nat (of_digits 65536 hs)) z) (parse_v6_groups t))"

definition parse_addr :: "string \<Rightarrow> addr option" where
  "parse_addr s = (case find (\<lambda>c. c = CHR ''.'' \<or> c = CHR '':'' \<or> c = CHR ''%'') s of
     None \<Rightarrow> None
   | Some c \<Rightarrow> if c = CHR ''.'' then map_option V4 (parse_v4 s)
               else if c = CHR '':'' then parse_v6 s else None)"

section \<open>Printed IPv4 addresses read back\<close>

lemma show_dec_no_dot: "CHR ''.'' \<notin> set (show_dec n)"
  using show_dec_is_dec by (fastforce simp: is_dec_def)

lemma v4_field_ok_show: "n < 256 \<Longrightarrow> v4_field_ok (show_dec n)"
  using show_dec_no_leading_zero
  by (auto simp: v4_field_ok_def list_all_iff dest: show_dec_is_dec)

lemma parse_v4_string [simp]: "parse_v4 (v4_string w) = Some w"
proof -
  have "split_on CHR ''.'' (v4_string w) = map show_dec (v4_octets w)"
    unfolding v4_string_def by (rule split_on_join) (auto simp: show_dec_no_dot)
  moreover have "list_all v4_field_ok (map show_dec (v4_octets w))"
    using v4_octets_bound [of w] by (auto simp: list_all_iff v4_field_ok_show)
  moreover have "map (digits_value 10) (map show_dec (v4_octets w)) = v4_octets w"
    by (simp add: comp_def)
  ultimately show ?thesis
    by (simp add: parse_v4_def Let_def unat_digits_4)
qed

lemma v4_string_chars: "c \<in> set (v4_string w) \<Longrightarrow> is_dec c \<or> c = CHR ''.''"
  using set_join_subset [of "''.''" "map show_dec (v4_octets w)"]
  by (auto simp: v4_string_def dest: show_dec_is_dec)

lemma v4_string_split:
  obtains d rest where "v4_string w = show_dec d @ CHR ''.'' # rest" "d < 256"
proof -
  obtain a b cs where abc: "v4_octets w = a # b # cs"
    using length_v4_octets [of w] by (cases "v4_octets w"; cases "tl (v4_octets w)") auto
  with v4_octets_bound [of w] have "a < 256" by simp
  moreover from abc have "v4_string w = show_dec a @ CHR ''.'' # join ''.'' (map show_dec (b # cs))"
    by (simp add: v4_string_def)
  ultimately show thesis using that by blast
qed

section \<open>Printed IPv6 addresses read back\<close>

lemma not_hex_colon [simp]: "\<not> is_hex CHR '':''" "\<not> is_hex CHR ''.''" "\<not> is_hex CHR ''%''" "\<not> is_hex CHR ''/''"
  by (simp_all add: is_hex_def is_dec_def)

lemma takeWhile_hex:
  "\<forall>c\<in>set s. is_hex c \<Longrightarrow> \<not> is_hex x \<Longrightarrow> takeWhile is_hex (s @ x # t) = s"
  "\<forall>c\<in>set s. is_hex c \<Longrightarrow> \<not> is_hex x \<Longrightarrow> dropWhile is_hex (s @ x # t) = x # t"
  by (induction s) auto

lemma show_hex_facts:
  assumes "h < 65536"
  shows "\<forall>c\<in>set (show_hex h). is_hex c" "length (show_hex h) \<le> 4"
    "takeWhile is_hex (show_hex h) = show_hex h" "dropWhile is_hex (show_hex h) = []"
proof -
  show *: "\<forall>c\<in>set (show_hex h). is_hex c" using show_hex_is_hex by blast
  show "length (show_hex h) \<le> 4" using length_show_hex [of h 3] assms by simp
  show "takeWhile is_hex (show_hex h) = show_hex h" "dropWhile is_hex (show_hex h) = []"
    using * by simp_all
qed

lemma v6_loop_last:
  "h < 65536 \<Longrightarrow> length acc < 8 \<Longrightarrow> v6_loop (show_hex h) acc ell = Some (acc @ [h], ell, [])"
  by (subst v6_loop.simps) (simp add: show_hex_facts Let_def not_less)

lemma v6_loop_colon:
  "h < 65536 \<Longrightarrow> length acc < 8 \<Longrightarrow> t \<noteq> [] \<Longrightarrow> hd t \<noteq> CHR '':'' \<Longrightarrow>
   v6_loop (show_hex h @ CHR '':'' # t) acc ell = v6_loop t (acc @ [h]) ell"
  using show_hex_facts(2) [of h] by (subst v6_loop.simps) (simp add: show_hex_facts(1) takeWhile_hex Let_def)

lemma v6_loop_ellipsis:
  "h < 65536 \<Longrightarrow> length acc < 8 \<Longrightarrow>
   v6_loop (show_hex h @ CHR '':'' # CHR '':'' # t) acc None =
     (if t = [] then Some (acc @ [h], Some (Suc (length acc)), [])
      else v6_loop t (acc @ [h]) (Some (Suc (length acc))))"
  using show_hex_facts(2) [of h] by (subst v6_loop.simps) (simp add: show_hex_facts(1) takeWhile_hex Let_def)

lemma hex_groups_Cons:
  "hs \<noteq> [] \<Longrightarrow> hex_groups (h # hs) = show_hex h @ CHR '':'' # hex_groups hs"
  by (simp add: hex_groups_def join_Cons)

lemma hex_groups_simps [simp]: "hex_groups [] = []" "hex_groups [h] = show_hex h"
  by (simp_all add: hex_groups_def)

lemma hex_groups_hd: "hs \<noteq> [] \<Longrightarrow> hex_groups hs \<noteq> [] \<and> is_hex (hd (hex_groups hs))"
proof (cases hs)
  case (Cons h t)
  have "is_hex (hd (show_hex h))" using show_hex_is_hex hd_in_set show_base_not_Nil by metis
  with Cons show ?thesis by (cases t) (simp_all add: hex_groups_Cons)
qed simp

lemma v6_loop_groups:
  "hs \<noteq> [] \<Longrightarrow> \<forall>h\<in>set hs. h < 65536 \<Longrightarrow> length acc + length hs \<le> 8 \<Longrightarrow>
   v6_loop (hex_groups hs) acc ell = Some (acc @ hs, ell, [])"
proof (induction hs arbitrary: acc)
  case (Cons h hs)
  show ?case
  proof (cases "hs = []")
    case True
    with Cons.prems show ?thesis by (simp add: v6_loop_last)
  next
    case False
    then have "hex_groups hs \<noteq> []" "hd (hex_groups hs) \<noteq> CHR '':''"
      using hex_groups_hd not_hex_colon by metis+
    with False Cons show ?thesis by (simp add: hex_groups_Cons v6_loop_colon)
  qed
qed simp

lemma v6_loop_groups_ellipsis:
  "hs \<noteq> [] \<Longrightarrow> \<forall>h\<in>set hs \<union> set ts. h < 65536 \<Longrightarrow> length acc + length hs + length ts < 8 \<Longrightarrow>
   v6_loop (hex_groups hs @ ''::'' @ hex_groups ts) acc None =
     Some (acc @ hs @ ts, Some (length acc + length hs), [])"
proof (induction hs arbitrary: acc)
  case (Cons h hs)
  show ?case
  proof (cases "hs = []")
    case True
    with Cons.prems hex_groups_hd [of ts] show ?thesis
      by (cases "ts = []") (simp_all add: v6_loop_ellipsis v6_loop_groups)
  next
    case False
    let ?t = "hex_groups hs @ ''::'' @ hex_groups ts"
    from False have "?t \<noteq> []" "hd ?t \<noteq> CHR '':''"
      using hex_groups_hd [OF False] by (auto simp: hd_append)
    with False Cons show ?thesis by (simp add: hex_groups_Cons v6_loop_colon)
  qed
qed simp

lemma zeros_at_replicate:
  "take (zeros_at hs i) (drop i hs) = replicate (zeros_at hs i) 0"
proof -
  have "takeWhile (\<lambda>h. h = (0::nat)) xs = replicate (length (takeWhile (\<lambda>h. h = 0) xs)) 0" for xs
    by (induction xs) auto
  then show ?thesis unfolding zeros_at_def by (metis takeWhile_eq_take)
qed

lemma zeros_at_length: "i \<le> length hs \<Longrightarrow> i + zeros_at hs i \<le> length hs"
  using length_takeWhile_le [of "\<lambda>h. h = 0" "drop i hs"] by (simp add: zeros_at_def)

lemma best_run_cases:
  "best_run hs = (255, 0) \<or>
   (\<exists>i<8. best_run hs = (i, zeros_at hs i) \<and> 2 \<le> zeros_at hs i)"
proof -
  have "(b = (255, 0) \<or> (\<exists>i<8. b = (i, zeros_at hs i) \<and> 2 \<le> zeros_at hs i)) \<Longrightarrow>
    set xs \<subseteq> {0..<8} \<Longrightarrow>
    (let r = fold (\<lambda>i best. let l = zeros_at hs i in if 2 \<le> l \<and> snd best < l then (i, l) else best) xs b
     in r = (255, 0) \<or> (\<exists>i<8. r = (i, zeros_at hs i) \<and> 2 \<le> zeros_at hs i))" for xs b
    by (induction xs arbitrary: b) (auto simp: Let_def)
  from this [of "(255, 0)" "[0..<8]"] show ?thesis
    unfolding best_run_def Let_def by auto
qed

lemma starts_with_simps [simp]:
  "starts_with [] s" "starts_with (c # p) [] = False"
  "starts_with (c # p) (d # s) = (c = d \<and> starts_with p s)"
  by (auto simp: starts_with_def)

lemma parse_v6_groups_ellipsis:
  assumes "\<forall>h\<in>set hs \<union> set ts. h < 65536" and len: "length hs + length ts < 8"
  shows "parse_v6_groups (hex_groups hs @ ''::'' @ hex_groups ts) =
    Some (hs @ replicate (8 - (length hs + length ts)) 0 @ ts)"
proof (cases "hs = []")
  case True
  then show ?thesis
    using assms hex_groups_hd [of ts] v6_loop_groups [of ts "[]" "Some 0"]
    by (cases "ts = []") (simp_all add: parse_v6_groups_def v6_finish_def)
next
  case False
  let ?s = "hex_groups hs @ ''::'' @ hex_groups ts"
  have "\<not> starts_with ''::'' ?s"
    using hex_groups_hd [OF False] by (cases "hex_groups hs") auto
  with assms v6_loop_groups_ellipsis [OF False, of ts "[]"] show ?thesis
    by (simp add: parse_v6_groups_def v6_finish_def)
qed

lemma parse_v6_groups_plain:
  assumes "\<forall>h\<in>set hs. h < 65536" and "length hs = 8"
  shows "parse_v6_groups (hex_groups hs) = Some hs"
proof -
  from assms have ne: "hs \<noteq> []" by auto
  have "\<not> starts_with ''::'' (hex_groups hs)"
    using hex_groups_hd [OF ne] by (cases "hex_groups hs") auto
  with assms v6_loop_groups [OF ne, of "[]" None] show ?thesis
    by (simp add: parse_v6_groups_def v6_finish_def)
qed

lemma parse_v6_text:
  assumes bound: "\<forall>h\<in>set hs. h < 65536" and len: "length hs = 8"
  shows "parse_v6_groups (v6_text hs) = Some hs"
proof (cases "best_run hs = (255, 0)")
  case True
  with assms show ?thesis by (simp add: v6_text_def parse_v6_groups_plain)
next
  case False
  then obtain i where i: "i < 8" "best_run hs = (i, zeros_at hs i)" "2 \<le> zeros_at hs i"
    using best_run_cases by blast
  let ?l = "zeros_at hs i"
  from i len have fits: "i + ?l \<le> 8" using zeros_at_length [of i hs] by simp
  have "drop i hs = replicate ?l 0 @ drop (i + ?l) hs"
    by (metis zeros_at_replicate append_take_drop_id drop_drop add.commute)
  then have hs: "hs = take i hs @ replicate ?l 0 @ drop (i + ?l) hs"
    by (metis append_take_drop_id)
  have "\<forall>h\<in>set (take i hs) \<union> set (drop (i + ?l) hs). h < 65536"
    using bound by (auto dest: in_set_takeD in_set_dropD)
  moreover have "length (take i hs) + length (drop (i + ?l) hs) = 8 - ?l"
    using i len fits by simp
  moreover have "8 - (8 - ?l) = ?l" "8 - ?l < 8" using fits i by simp_all
  ultimately have "parse_v6_groups (hex_groups (take i hs) @ ''::'' @ hex_groups (drop (i + ?l) hs))
      = Some hs"
    using parse_v6_groups_ellipsis [of "take i hs" "drop (i + ?l) hs"] hs by metis
  with i show ?thesis by (simp add: v6_text_def)
qed


lemma find_first: "\<forall>c\<in>set s. \<not> P c \<Longrightarrow> P x \<Longrightarrow> find P (s @ x # t) = Some x"
  by (induction s) auto

lemma hex_groups_chars: "c \<in> set (hex_groups hs) \<Longrightarrow> is_hex c \<or> c = CHR '':''"
  using set_join_subset [of "'':''" "map show_hex hs"]
  by (auto simp: hex_groups_def dest: show_hex_is_hex)

lemma v6_text_chars: "c \<in> set (v6_text hs) \<Longrightarrow> is_hex c \<or> c = CHR '':''"
  by (auto simp: v6_text_def split: prod.splits if_splits dest: hex_groups_chars)

lemma hex_groups_first:
  assumes "2 \<le> length hs"
  obtains p t where "hex_groups hs = p @ CHR '':'' # t" "\<forall>c\<in>set p. is_hex c"
proof -
  from assms obtain a b cs where "hs = a # b # cs" by (cases hs; cases "tl hs") auto
  then have "hex_groups hs = show_hex a @ CHR '':'' # hex_groups (b # cs)"
    by (simp add: hex_groups_Cons)
  then show thesis using that show_hex_is_hex by blast
qed

lemma hex_groups_then:
  obtains p t where "hex_groups hs @ ''::'' @ u = p @ CHR '':'' # t" "\<forall>c\<in>set p. is_hex c"
proof (cases "2 \<le> length hs")
  case True
  then obtain p t where "hex_groups hs = p @ CHR '':'' # t" "\<forall>c\<in>set p. is_hex c"
    by (rule hex_groups_first)
  with that [of p "t @ ''::'' @ u"] show thesis by simp
next
  case False
  then consider "hs = []" | a where "hs = [a]" by (cases hs; cases "tl hs") auto
  then show thesis
  proof cases
    case 1
    with that [of "[]" "CHR '':'' # u"] show thesis by simp
  next
    case (2 a)
    with that [of "show_hex a" "CHR '':'' # u"] show_hex_is_hex show thesis by auto
  qed
qed

lemma v6_text_first:
  assumes "length hs = 8"
  obtains p t where "v6_text hs = p @ CHR '':'' # t" "\<forall>c\<in>set p. is_hex c"
proof -
  obtain zs l where "best_run hs = (zs, l)" by (cases "best_run hs")
  then show thesis
    using that assms hex_groups_first [of hs] hex_groups_then [of "take zs hs" "hex_groups (drop (zs + l) hs)"]
    by (cases "l = 0") (auto simp: v6_text_def)
qed

lemma parse_v6_mapped:
  "parse_v6_groups (''::ffff:'' @ v4_string v) =
     Some (replicate 5 0 @ [65535, unat v div 65536, unat v mod 65536])"
proof -
  obtain d rest where d: "v4_string v = show_dec d @ CHR ''.'' # rest" "d < 256"
    by (rule v4_string_split)
  have dec: "\<forall>c\<in>set (show_dec d). is_hex c" using show_dec_is_dec is_dec_is_hex by blast
  have len: "length (show_dec d) \<le> 3"
    using d(2) by (subst show_base.simps, subst show_base.simps, subst show_base.simps) auto
  have hd: "v4_string v \<noteq> []" "hd (v4_string v) \<noteq> CHR '':''"
    using d dec by (auto simp: hd_append) (metis hd_in_set not_hex_colon(1) show_base_not_Nil)
  have last: "v6_loop (v4_string v) [65535] (Some 0) =
      Some ([65535, unat v div 65536, unat v mod 65536], Some 0, [])"
  proof -
    have "takeWhile is_hex (v4_string v) = show_dec d" "dropWhile is_hex (v4_string v) = CHR ''.'' # rest"
      using d dec by (simp_all add: takeWhile_hex)
    with len show ?thesis by (subst v6_loop.simps) (simp add: Let_def)
  qed
  have "show_hex 65535 = ''ffff''"
    by (simp add: show_base.simps digit_char_def char_of_def bit_0)
  with v6_loop_colon [of 65535 "[]" "v4_string v" "Some 0"] hd
  have "v6_loop (''ffff:'' @ v4_string v) [] (Some 0) = v6_loop (v4_string v) [65535] (Some 0)"
    by simp
  with last show ?thesis by (simp add: parse_v6_groups_def v6_finish_def)
qed

lemma replicate_5: "replicate 5 x = [x, x, x, x, x]"
  by (simp add: numeral_eq_Suc)

lemma of_digits_mapped:
  assumes "is_4in6 w"
  shows "(of_nat (of_digits 65536 (replicate 5 0 @
    [65535, unat (ucast w :: 32 word) div 65536, unat (ucast w :: 32 word) mod 65536])) :: 128 word) = w"
proof -
  let ?n = "unat (ucast w :: 32 word)"
  have n: "?n = unat w mod 2 ^ 32"
    by (simp add: unsigned_ucast_eq take_bit_eq_mod)
  have "of_digits 65536 (replicate 5 0 @ [65535, ?n div 65536, ?n mod 65536])
      = 65535 * 2 ^ 32 + (?n div 65536 * 65536 + ?n mod 65536)"
    unfolding of_digits_def replicate_5 by simp
  also have "\<dots> = unat w div 2 ^ 32 * 2 ^ 32 + unat w mod 2 ^ 32"
    using assms unfolding is_4in6_def n by simp
  also have "\<dots> = unat w" by simp
  finally show ?thesis by simp
qed

lemma parse_v6_string:
  assumes t: "CHR ''%'' \<notin> set t" and hs: "parse_v6_groups t = Some hs"
    and w: "of_nat (of_digits 65536 hs) = w"
  shows "parse_v6 (t @ (if z = [] then [] else CHR ''%'' # z)) = Some (V6 w z)"
  using assms by (simp add: parse_v6_def cut_absent)

theorem parse_addr_string [simp]: "parse_addr (addr_string a) = Some a"
proof (cases a)
  case (V4 w)
  obtain d rest where d: "v4_string w = show_dec d @ CHR ''.'' # rest" "d < 256"
    by (rule v4_string_split)
  have "\<forall>c\<in>set (show_dec d). \<not> (c = CHR ''.'' \<or> c = CHR '':'' \<or> c = CHR ''%'')"
    using show_dec_is_dec by (fastforce simp: is_dec_def)
  then have "find (\<lambda>c. c = CHR ''.'' \<or> c = CHR '':'' \<or> c = CHR ''%'') (v4_string w) = Some CHR ''.''"
    unfolding d(1) by (rule find_first) simp
  with V4 show ?thesis by (simp add: parse_addr_def)
next
  case (V6 w z)
  let ?tail = "if z = [] then [] else CHR ''%'' # z"
  show ?thesis
  proof (cases "is_4in6 w")
    case True
    have "CHR ''%'' \<notin> set (''::ffff:'' @ v4_string (ucast w))"
      using v4_string_chars [of "CHR ''%''"] by (auto simp: is_dec_def)
    from parse_v6_string [OF this parse_v6_mapped of_digits_mapped [OF True], of z] True V6
    show ?thesis by (simp add: parse_addr_def)
  next
    case False
    let ?t = "v6_text (v6_hextets w)"
    obtain p u where pu: "?t = p @ CHR '':'' # u" "\<forall>c\<in>set p. is_hex c"
      by (rule v6_text_first [OF length_v6_hextets])
    have "\<forall>c\<in>set p. \<not> (c = CHR ''.'' \<or> c = CHR '':'' \<or> c = CHR ''%'')"
      using pu(2) not_hex_colon by metis
    then have "find (\<lambda>c. c = CHR ''.'' \<or> c = CHR '':'' \<or> c = CHR ''%'') (p @ CHR '':'' # u @ ?tail)
        = Some CHR '':''"
      by (rule find_first) simp
    then have first: "find (\<lambda>c. c = CHR ''.'' \<or> c = CHR '':'' \<or> c = CHR ''%'') (?t @ ?tail)
        = Some CHR '':''" by (simp only: pu append.simps append_assoc)
    have "CHR ''%'' \<notin> set ?t" using v6_text_chars [of "CHR ''%''"] by auto
    moreover have "parse_v6_groups ?t = Some (v6_hextets w)"
      by (rule parse_v6_text [OF v6_hextets_bound length_v6_hextets])
    ultimately have "parse_v6 (?t @ ?tail) = Some (V6 w z)"
      by (rule parse_v6_string) (simp add: unat_digits_8)
    with first False V6 show ?thesis by (simp add: parse_addr_def)
  qed
qed


section \<open>Prefixes\<close>

text \<open>
  A prefix is valid when its length fits the family and its address has no zone, which is
  what \<^verbatim>\<open>PrefixFrom\<close> and \<^verbatim>\<open>ParsePrefix\<close> give.
\<close>

datatype prefix = Prefix (prefix_addr: addr) (prefix_bits: nat)

definition prefix_valid :: "prefix \<Rightarrow> bool" where
  "prefix_valid p = (zone (prefix_addr p) = [] \<and> prefix_bits p \<le> bit_len (prefix_addr p))"

fun without_zone :: "addr \<Rightarrow> addr" where
  "without_zone (V4 w) = V4 w"
| "without_zone (V6 w z) = V6 w []"

definition prefix_from :: "addr \<Rightarrow> nat \<Rightarrow> prefix" where
  "prefix_from a n = Prefix (without_zone a) n"

definition parse_prefix :: "string \<Rightarrow> prefix option" where
  "parse_prefix s = (case cut_last CHR ''/'' s of None \<Rightarrow> None
   | Some (ip, bs) \<Rightarrow> (case parse_addr ip of None \<Rightarrow> None
     | Some a \<Rightarrow>
        if zone a \<noteq> [] then None
        else if 1 < length bs \<and> hd bs = CHR ''0'' then None
        else if bs = [] \<or> \<not> list_all is_dec bs then None
        else if bit_len a < digits_value 10 bs then None
        else Some (Prefix a (digits_value 10 bs))))"

definition prefix_string :: "prefix \<Rightarrow> string" where
  "prefix_string p = addr_string (prefix_addr p) @ CHR ''/'' # show_dec (prefix_bits p)"

fun mask_addr :: "addr \<Rightarrow> nat \<Rightarrow> addr" where
  "mask_addr (V4 w) n = V4 (w AND NOT (mask (32 - n)))"
| "mask_addr (V6 w z) n = V6 (w AND NOT (mask (128 - n))) []"

definition masked :: "prefix \<Rightarrow> prefix" where
  "masked p = Prefix (mask_addr (prefix_addr p) (prefix_bits p)) (prefix_bits p)"

fun prefix_contains :: "prefix \<Rightarrow> addr \<Rightarrow> bool" where
  "prefix_contains (Prefix (V4 w) n) (V4 v) = (drop_bit (32 - n) (w XOR v) = 0)"
| "prefix_contains (Prefix (V6 w _) n) (V6 v z) = (z = [] \<and> drop_bit (128 - n) (w XOR v) = 0)"
| "prefix_contains _ _ = False"

definition is_single_ip :: "prefix \<Rightarrow> bool" where
  "is_single_ip p = (prefix_bits p = bit_len (prefix_addr p))"

lemma parse_prefix_valid: "parse_prefix s = Some p \<Longrightarrow> prefix_valid p"
  by (auto simp: parse_prefix_def prefix_valid_def split: option.splits if_splits)

lemma bit_len_mask [simp]: "bit_len (mask_addr a n) = bit_len a"
  by (cases a) auto

lemma zone_mask [simp]: "zone (mask_addr a n) = []"
  by (cases a) auto

lemma masked_valid [simp]: "prefix_valid p \<Longrightarrow> prefix_valid (masked p)"
  by (simp add: prefix_valid_def masked_def)

lemma mask_addr_idem [simp]: "mask_addr (mask_addr a n) n = mask_addr a n"
  by (cases a) (simp_all add: and.assoc)

lemma masked_idem [simp]: "masked (masked p) = masked p"
  by (simp add: masked_def)

lemma prefix_from_valid [simp]: "n \<le> bit_len a \<Longrightarrow> prefix_valid (prefix_from a n)"
  by (cases a) (simp_all add: prefix_valid_def prefix_from_def)

lemma mask_addr_full: "zone a = [] \<Longrightarrow> mask_addr a (bit_len a) = a"
  by (cases a) (simp_all)

text \<open>Masking keeps what a prefix contains.\<close>

lemma drop_bit_and_not_mask:
  fixes w :: "'a::len word"
  shows "drop_bit n w AND drop_bit n (NOT (mask n)) = drop_bit n w"
  by (rule bit_word_eqI) (auto simp: bit_simps dest: bit_imp_le_length)

lemma masked_contains [simp]: "prefix_contains (masked p) a = prefix_contains p a"
  by (cases p; cases a; cases "prefix_addr p") (simp_all add: masked_def drop_bit_and_not_mask)

lemma not_dec_slash [simp]: "\<not> is_dec CHR ''/''"
  by (simp add: is_dec_def)

lemma addr_string_no_slash: "zone a = [] \<Longrightarrow> CHR ''/'' \<notin> set (addr_string a)"
  using v4_string_chars [of "CHR ''/''"] v6_text_chars [of "CHR ''/''"]
  by (cases a) auto

lemma is_dec_printable: "is_dec c \<Longrightarrow> printable c"
  by (simp add: is_dec_is_hex is_hex_printable)

lemma addr_string_printable: "zone a = [] \<Longrightarrow> c \<in> set (addr_string a) \<Longrightarrow> printable c"
  by (cases a)
     (auto dest!: v4_string_chars v6_text_chars split: if_splits
        simp: is_hex_printable is_dec_printable, simp_all add: printable_def)

theorem parse_prefix_string [simp]:
  assumes "prefix_valid p"
  shows "parse_prefix (prefix_string p) = Some p"
proof -
  let ?n = "prefix_bits p"
  have "CHR ''/'' \<notin> set (show_dec ?n)" using show_dec_is_dec not_dec_slash by blast
  then have "cut_last CHR ''/'' (prefix_string p) = Some (addr_string (prefix_addr p), show_dec ?n)"
    by (simp add: prefix_string_def)
  moreover have "list_all is_dec (show_dec ?n)" by (auto simp: list_all_iff dest: show_dec_is_dec)
  ultimately show ?thesis
    using assms show_dec_no_leading_zero [of ?n]
    by (simp add: parse_prefix_def prefix_valid_def)
qed

lemma prefix_string_printable: "prefix_valid p \<Longrightarrow> \<forall>c\<in>set (prefix_string p). printable c"
  by (auto simp: prefix_string_def prefix_valid_def addr_string_printable
      dest: show_dec_is_dec is_dec_printable) (simp_all add: printable_def)

lemma trim_prefix_string [simp]: "prefix_valid p \<Longrightarrow> trim_space (prefix_string p) = prefix_string p"
  by (simp add: trim_space_printable prefix_string_printable)

lemma prefix_string_inj:
  "prefix_valid p \<Longrightarrow> prefix_valid q \<Longrightarrow> prefix_string p = prefix_string q \<Longrightarrow> p = q"
  by (metis parse_prefix_string option.inject)

end
