(* ===== verification/Wire.thy ===== *)
theory Wire
  imports GoText
begin

text \<open>
  The wire contract between the control plane and the agent, the messages of
  \<^verbatim>\<open>proto/innerwall/v1\<close> as the generated Go code has them: enumerations with their
  numbers and names, and the messages of the policy stream as records. An enumeration of
  proto3 is open, so each has a constructor \<open>_OTHER n\<close> for a number that no name is
  declared for. A \<^verbatim>\<open>oneof\<close> is an option of a datatype, \<open>None\<close> when no variant is set.
\<close>

section \<open>Enumerations\<close>

datatype Protocol = PROTOCOL_UNSPECIFIED | PROTOCOL_TCP | PROTOCOL_UDP | PROTOCOL_ICMP | PROTOCOL_OTHER int

datatype EnforcementMode = ENFORCEMENT_MODE_UNSPECIFIED | ENFORCEMENT_MODE_VISIBILITY
  | ENFORCEMENT_MODE_SIMULATION | ENFORCEMENT_MODE_ENFORCED | ENFORCEMENT_MODE_OTHER int

datatype Direction = DIRECTION_UNSPECIFIED | DIRECTION_INBOUND | DIRECTION_OUTBOUND | DIRECTION_OTHER int

datatype AckStatus = ACK_STATUS_UNSPECIFIED | ACK_STATUS_APPLIED | ACK_STATUS_FAILED | ACK_STATUS_OTHER int

datatype PolicyDecision = POLICY_DECISION_UNSPECIFIED | POLICY_DECISION_OBSERVED | POLICY_DECISION_ALLOWED
  | POLICY_DECISION_WOULD_BLOCK | POLICY_DECISION_BLOCKED | POLICY_DECISION_OTHER int

fun Protocol_number :: "Protocol \<Rightarrow> int" where
  "Protocol_number PROTOCOL_UNSPECIFIED = 0"
| "Protocol_number PROTOCOL_TCP = 1"
| "Protocol_number PROTOCOL_UDP = 2"
| "Protocol_number PROTOCOL_ICMP = 3"
| "Protocol_number (PROTOCOL_OTHER n) = n"

fun Protocol_String :: "Protocol \<Rightarrow> string" where
  "Protocol_String PROTOCOL_UNSPECIFIED = ''PROTOCOL_UNSPECIFIED''"
| "Protocol_String PROTOCOL_TCP = ''PROTOCOL_TCP''"
| "Protocol_String PROTOCOL_UDP = ''PROTOCOL_UDP''"
| "Protocol_String PROTOCOL_ICMP = ''PROTOCOL_ICMP''"
| "Protocol_String (PROTOCOL_OTHER n) = show_int n"

definition Protocol_value :: "string \<Rightarrow> Protocol option" where
  "Protocol_value s = map_of
     [(''PROTOCOL_UNSPECIFIED'', PROTOCOL_UNSPECIFIED), (''PROTOCOL_TCP'', PROTOCOL_TCP),
      (''PROTOCOL_UDP'', PROTOCOL_UDP), (''PROTOCOL_ICMP'', PROTOCOL_ICMP)] s"

fun EnforcementMode_String :: "EnforcementMode \<Rightarrow> string" where
  "EnforcementMode_String ENFORCEMENT_MODE_UNSPECIFIED = ''ENFORCEMENT_MODE_UNSPECIFIED''"
| "EnforcementMode_String ENFORCEMENT_MODE_VISIBILITY = ''ENFORCEMENT_MODE_VISIBILITY''"
| "EnforcementMode_String ENFORCEMENT_MODE_SIMULATION = ''ENFORCEMENT_MODE_SIMULATION''"
| "EnforcementMode_String ENFORCEMENT_MODE_ENFORCED = ''ENFORCEMENT_MODE_ENFORCED''"
| "EnforcementMode_String (ENFORCEMENT_MODE_OTHER n) = show_int n"

section \<open>Port ranges\<close>

datatype PortRange = PortRange (port_start: "32 word") (port_end: "32 word")

text \<open>Ranges are ordered by their start, then their end.\<close>

instantiation PortRange :: linorder
begin

definition less_PortRange :: "PortRange \<Rightarrow> PortRange \<Rightarrow> bool" where
  "less_PortRange a b = (if port_start a \<noteq> port_start b then port_start a < port_start b
                         else port_end a < port_end b)"

definition less_eq_PortRange :: "PortRange \<Rightarrow> PortRange \<Rightarrow> bool" where
  "less_eq_PortRange a b = (a = b \<or> a < b)"

instance
  by standard
    (auto simp: less_PortRange_def less_eq_PortRange_def PortRange.expand split: if_splits)

end

section \<open>Policy messages\<close>

record ResolvedRule =
  rule_id :: string
  peer_cidrs :: "string list"
  protocol :: Protocol
  ports :: "PortRange list"

record WorkloadPolicy =
  version :: "64 word"
  mode :: EnforcementMode
  inbound_rules :: "ResolvedRule list"

record PeerChange =
  pc_rule_id :: string
  pc_peer_cidrs :: "string list"

datatype Change = UpsertRule ResolvedRule | RemoveRuleId string | AddPeers PeerChange
  | RemovePeers PeerChange | SetMode EnforcementMode

type_synonym DeltaChange = "Change option"

record PolicyDelta =
  from_version :: "64 word"
  to_version :: "64 word"
  changes :: "DeltaChange list"

datatype PolicyUpdate = Snapshot "WorkloadPolicy option" | Delta_Update PolicyDelta

record PolicyAck =
  ack_version :: "64 word"
  ack_status :: AckStatus
  ack_error_detail :: string

end
