(* ===== verification/Rendered.thy ===== *)
theory Rendered
  imports Netip Wire
begin

text \<open>
  The algebra of the rendered policy, \<^verbatim>\<open>internal/rendered\<close>: the canonical form of a
  workload policy, the delta between two versions and its application, the names of resolved
  rules. Control plane and agent share this code; the results are that canonical forms are
  unique (\<open>Canonical_idem\<close>, \<open>Canonical_order\<close>), that \<^verbatim>\<open>Diff\<close> is empty exactly on equal
  content, that \<^verbatim>\<open>Apply\<close> undoes \<^verbatim>\<open>Delta\<close>, and which inputs \<^verbatim>\<open>Apply\<close> refuses. A policy
  pointer is an option, \<open>None\<close> for nil.
\<close>

section \<open>Prefix text\<close>

definition HostRoute :: "addr \<Rightarrow> string" where
  "HostRoute a = (let a = unmap a in prefix_string (prefix_from a (bit_len a)))"

definition NormalizeCIDR :: "string \<Rightarrow> string" where
  "NormalizeCIDR s = (let s = trim_space s in
     case parse_prefix s of Some pfx \<Rightarrow> prefix_string (masked pfx)
     | None \<Rightarrow> (case parse_addr s of Some a \<Rightarrow> HostRoute a | None \<Rightarrow> s))"

definition canonicalCIDRs :: "string list \<Rightarrow> string list" where
  "canonicalCIDRs xs = sort_compact (map NormalizeCIDR xs)"

definition canonicalPorts :: "PortRange list \<Rightarrow> PortRange list" where
  "canonicalPorts xs = sort_compact xs"

lemma host_prefix_valid [simp]: "prefix_valid (prefix_from a (bit_len a))"
  by simp

lemma masked_host: "masked (prefix_from a (bit_len a)) = prefix_from a (bit_len a)"
  using mask_addr_full [of "without_zone a"] by (cases a) (simp_all add: masked_def prefix_from_def)

lemma NormalizeCIDR_prefix: "prefix_valid p \<Longrightarrow> NormalizeCIDR (prefix_string p) = prefix_string (masked p)"
  by (simp add: NormalizeCIDR_def)

lemma NormalizeCIDR_cases:
  obtains (prefix) p where "parse_prefix (trim_space s) = Some p" "NormalizeCIDR s = prefix_string (masked p)"
  | (host) a where "parse_prefix (trim_space s) = None" "parse_addr (trim_space s) = Some a"
      "NormalizeCIDR s = HostRoute a"
  | (other) "parse_prefix (trim_space s) = None" "parse_addr (trim_space s) = None"
      "NormalizeCIDR s = trim_space s"
  by (cases "parse_prefix (trim_space s)"; cases "parse_addr (trim_space s)")
     (auto simp: NormalizeCIDR_def)

lemma NormalizeCIDR_idem [simp]: "NormalizeCIDR (NormalizeCIDR s) = NormalizeCIDR s"
proof (cases s rule: NormalizeCIDR_cases)
  case (prefix p)
  then show ?thesis using parse_prefix_valid by (simp add: NormalizeCIDR_prefix)
next
  case (host a)
  then show ?thesis by (simp add: HostRoute_def Let_def NormalizeCIDR_prefix masked_host)
next
  case other
  then show ?thesis by (simp add: NormalizeCIDR_def)
qed

lemma map_NormalizeCIDR_canonical: "map NormalizeCIDR (canonicalCIDRs xs) = canonicalCIDRs xs"
  by (rule map_idI) (auto simp: canonicalCIDRs_def)

lemma canonicalCIDRs_idem [simp]: "canonicalCIDRs (canonicalCIDRs xs) = canonicalCIDRs xs"
  unfolding canonicalCIDRs_def [of "canonicalCIDRs xs"] map_NormalizeCIDR_canonical
  by (simp add: canonicalCIDRs_def)

lemma set_canonicalCIDRs: "set (canonicalCIDRs xs) = NormalizeCIDR ` set xs"
  by (simp add: canonicalCIDRs_def)

lemma canonicalCIDRs_id_iff:
  "canonicalCIDRs xs = xs \<longleftrightarrow> sorted xs \<and> distinct xs \<and> (\<forall>x\<in>set xs. NormalizeCIDR x = x)"
proof
  assume *: "canonicalCIDRs xs = xs"
  then have "set xs = NormalizeCIDR ` set xs" by (metis set_canonicalCIDRs)
  then have "\<forall>x\<in>set xs. NormalizeCIDR x = x" by (metis NormalizeCIDR_idem imageE)
  moreover have "sorted xs" "distinct xs"
    using * canonicalCIDRs_def distinct_sort_compact sorted_sort_compact by metis+
  ultimately show "sorted xs \<and> distinct xs \<and> (\<forall>x\<in>set xs. NormalizeCIDR x = x)" by blast
next
  assume "sorted xs \<and> distinct xs \<and> (\<forall>x\<in>set xs. NormalizeCIDR x = x)"
  then show "canonicalCIDRs xs = xs" by (simp add: canonicalCIDRs_def map_idI sort_compact_id)
qed

lemma canonicalPorts_idem [simp]: "canonicalPorts (canonicalPorts xs) = canonicalPorts xs"
  by (simp add: canonicalPorts_def)

section \<open>The canonical form\<close>

definition Empty :: WorkloadPolicy where
  "Empty = \<lparr>version = 0, mode = ENFORCEMENT_MODE_VISIBILITY, inbound_rules = []\<rparr>"

definition canonicalRule :: "ResolvedRule \<Rightarrow> ResolvedRule" where
  "canonicalRule r = \<lparr>rule_id = rule_id r, peer_cidrs = canonicalCIDRs (peer_cidrs r),
     protocol = protocol r, ports = canonicalPorts (ports r)\<rparr>"

text \<open>The rules of an index in the order of their ids.\<close>

definition rules_by_id :: "(string, ResolvedRule) gomap \<Rightarrow> ResolvedRule list" where
  "rules_by_id m = map (\<lambda>k. the (map_of m k)) (sorted_keys m)"

fun Canonical :: "WorkloadPolicy option \<Rightarrow> WorkloadPolicy" where
  "Canonical None = Empty"
| "Canonical (Some p) = \<lparr>version = version p, mode = mode p,
     inbound_rules = rules_by_id (index_by rule_id canonicalRule (inbound_rules p))\<rparr>"

definition indexRules :: "WorkloadPolicy \<Rightarrow> (string, ResolvedRule) gomap" where
  "indexRules p = index_by rule_id (\<lambda>r. r) (inbound_rules p)"

definition Equal :: "WorkloadPolicy option \<Rightarrow> WorkloadPolicy option \<Rightarrow> bool" where
  "Equal a b = (Canonical a\<lparr>version := 0\<rparr> = Canonical b\<lparr>version := 0\<rparr>)"

section \<open>Differences\<close>

definition portsEqual :: "PortRange list \<Rightarrow> PortRange list \<Rightarrow> bool" where
  "portsEqual a b = (length a = length b \<and>
     list_all (\<lambda>(x, y). port_start x = port_start y \<and> port_end x = port_end y) (zip a b))"

definition setDiff :: "string list \<Rightarrow> string list \<Rightarrow> string list \<times> string list" where
  "setDiff old cur = (filter (\<lambda>s. s \<notin> set old) cur, filter (\<lambda>s. s \<notin> set cur) old)"

text \<open>The changes \<^verbatim>\<open>Diff\<close> emits for one rule id.\<close>

definition diff_rule :: "ResolvedRule option \<Rightarrow> ResolvedRule option \<Rightarrow> string \<Rightarrow> DeltaChange list" where
  "diff_rule old cur k = (case (old, cur) of
     (None, Some c) \<Rightarrow> [Some (UpsertRule c)]
   | (Some _, None) \<Rightarrow> [Some (RemoveRuleId k)]
   | (None, None) \<Rightarrow> []
   | (Some r, Some c) \<Rightarrow>
       if protocol r \<noteq> protocol c \<or> \<not> portsEqual (ports r) (ports c) then [Some (UpsertRule c)]
       else (case setDiff (peer_cidrs r) (peer_cidrs c) of (added, removed) \<Rightarrow>
         (if added \<noteq> [] then [Some (AddPeers \<lparr>pc_rule_id = k, pc_peer_cidrs = added\<rparr>)] else []) @
         (if removed \<noteq> [] then [Some (RemovePeers \<lparr>pc_rule_id = k, pc_peer_cidrs = removed\<rparr>)] else [])))"

definition diff_ids :: "(string, ResolvedRule) gomap \<Rightarrow> (string, ResolvedRule) gomap \<Rightarrow> string list" where
  "diff_ids fromRules toRules = sort (map fst fromRules @
     filter (\<lambda>k. map_of fromRules k = None) (map fst toRules))"

definition Diff :: "WorkloadPolicy option \<Rightarrow> WorkloadPolicy option \<Rightarrow> DeltaChange list" where
  "Diff from to = (let from = Canonical from; to = Canonical to;
       fromRules = indexRules from; toRules = indexRules to in
     (if mode from \<noteq> mode to then [Some (SetMode (mode to))] else []) @
     concat (map (\<lambda>k. diff_rule (map_of fromRules k) (map_of toRules k) k) (diff_ids fromRules toRules)))"

fun GetVersion :: "WorkloadPolicy option \<Rightarrow> 64 word" where
  "GetVersion None = 0"
| "GetVersion (Some p) = version p"

definition Delta :: "WorkloadPolicy option \<Rightarrow> WorkloadPolicy option \<Rightarrow> PolicyDelta" where
  "Delta from to = \<lparr>from_version = GetVersion from, to_version = GetVersion to, changes = Diff from to\<rparr>"

section \<open>Application\<close>

datatype apply_error = ErrBaseMismatch "64 word" "64 word" | ErrUnknownRule nat string | ErrMalformedChange nat

type_synonym rule_state = "EnforcementMode \<times> (string, ResolvedRule) gomap"

fun apply_change :: "nat \<Rightarrow> DeltaChange \<Rightarrow> rule_state \<Rightarrow> (apply_error, rule_state) result" where
  "apply_change i (Some (UpsertRule r)) (m, rules) = Inr (m, AList.update (rule_id r) (canonicalRule r) rules)"
| "apply_change i (Some (RemoveRuleId k)) (m, rules) = Inr (m, AList.delete k rules)"
| "apply_change i (Some (AddPeers c)) (m, rules) =
     (case map_of rules (pc_rule_id c) of None \<Rightarrow> Inl (ErrUnknownRule i (pc_rule_id c))
      | Some r \<Rightarrow> Inr (m, AList.update (pc_rule_id c)
          (r\<lparr>peer_cidrs := canonicalCIDRs (peer_cidrs r @ pc_peer_cidrs c)\<rparr>) rules))"
| "apply_change i (Some (RemovePeers c)) (m, rules) =
     (case map_of rules (pc_rule_id c) of None \<Rightarrow> Inl (ErrUnknownRule i (pc_rule_id c))
      | Some r \<Rightarrow> Inr (m, AList.update (pc_rule_id c)
          (r\<lparr>peer_cidrs := filter (\<lambda>p. p \<notin> NormalizeCIDR ` set (pc_peer_cidrs c)) (peer_cidrs r)\<rparr>) rules))"
| "apply_change i (Some (SetMode m')) (m, rules) = Inr (m', rules)"
| "apply_change i None (m, rules) = Inl (ErrMalformedChange i)"

fun apply_changes :: "nat \<Rightarrow> DeltaChange list \<Rightarrow> rule_state \<Rightarrow> (apply_error, rule_state) result" where
  "apply_changes i [] st = Inr st"
| "apply_changes i (c # cs) st = bind_result (apply_change i c st) (apply_changes (Suc i) cs)"

definition Apply :: "WorkloadPolicy option \<Rightarrow> PolicyDelta \<Rightarrow> (apply_error, WorkloadPolicy) result" where
  "Apply base delta = (let out = Canonical base in
     if version out \<noteq> from_version delta
     then Inl (ErrBaseMismatch (version out) (from_version delta))
     else bind_result (apply_changes 0 (changes delta) (mode out, indexRules out))
       (\<lambda>(m, rules). Inr (Canonical (Some
          \<lparr>version = to_version delta, mode = m, inbound_rules = map snd rules\<rparr>))))"

section \<open>Canonical forms are unique\<close>

definition rule_canonical :: "ResolvedRule \<Rightarrow> bool" where
  "rule_canonical r = (canonicalRule r = r)"

definition is_canonical :: "WorkloadPolicy \<Rightarrow> bool" where
  "is_canonical p = (sorted (map rule_id (inbound_rules p)) \<and> distinct (map rule_id (inbound_rules p))
     \<and> (\<forall>r\<in>set (inbound_rules p). rule_canonical r))"

text \<open>An index whose keys are the ids of its rules, all canonical: what the code keeps.\<close>

definition index_ok :: "(string, ResolvedRule) gomap \<Rightarrow> bool" where
  "index_ok m = (gomap_ok m \<and> (\<forall>k r. map_of m k = Some r \<longrightarrow> rule_id r = k \<and> rule_canonical r))"

lemma rule_id_canonicalRule [simp]: "rule_id (canonicalRule r) = rule_id r"
  by (simp add: canonicalRule_def)

lemma canonicalRule_idem [simp]: "canonicalRule (canonicalRule r) = canonicalRule r"
  by (simp add: canonicalRule_def)

lemma rule_canonical_canonicalRule [simp]: "rule_canonical (canonicalRule r)"
  by (simp add: rule_canonical_def)

lemma rule_canonical_peers: "rule_canonical r \<Longrightarrow> canonicalCIDRs (peer_cidrs r) = peer_cidrs r"
  unfolding rule_canonical_def canonicalRule_def by (metis ResolvedRule.select_convs(2))

lemma rule_canonical_set_peers:
  "rule_canonical r \<Longrightarrow> canonicalCIDRs xs = xs \<Longrightarrow> rule_canonical (r\<lparr>peer_cidrs := xs\<rparr>)"
  by (cases r) (simp add: rule_canonical_def canonicalRule_def)

lemma index_ok_index_by [simp]: "index_ok (index_by rule_id canonicalRule rs)"
  by (auto simp: index_ok_def dest: index_by_SomeD)

lemma map_rule_id_rules_by_id:
  "index_ok m \<Longrightarrow> map rule_id (rules_by_id m) = sorted_keys m"
  unfolding rules_by_id_def map_map
  by (rule map_idI) (auto simp: index_ok_def)

lemma map_of_indexRules:
  assumes "distinct (map rule_id (inbound_rules p))"
  shows "map_of (indexRules p) k = Some r \<longleftrightarrow> r \<in> set (inbound_rules p) \<and> rule_id r = k"
  using index_by_SomeD [of rule_id "\<lambda>r. r" "inbound_rules p"] index_by_Some_distinct [OF assms, of r "\<lambda>r. r"]
  unfolding indexRules_def by auto

lemma map_of_rules_by_id:
  assumes ok: "index_ok m" and rs: "inbound_rules p = rules_by_id m"
  shows "map_of (indexRules p) = map_of m"
proof -
  have d: "distinct (map rule_id (inbound_rules p))"
    using ok by (simp add: rs map_rule_id_rules_by_id) (simp add: index_ok_def)
  have "map_of (indexRules p) k = Some r \<longleftrightarrow> map_of m k = Some r" for k r
    unfolding map_of_indexRules [OF d] unfolding rs rules_by_id_def
    using ok by (auto simp: index_ok_def image_iff) (metis domI option.sel)
  then show ?thesis by (metis ext option.exhaust)
qed

lemma is_canonical_rules_by_id:
  assumes "index_ok m" and "inbound_rules p = rules_by_id m"
  shows "is_canonical p"
  using assms map_rule_id_rules_by_id [OF assms(1)]
  by (auto simp: is_canonical_def index_ok_def rules_by_id_def)

lemma is_canonical_Canonical [simp]: "is_canonical (Canonical p)"
proof (cases p)
  case None
  then show ?thesis by (simp add: Empty_def is_canonical_def)
next
  case (Some q)
  then show ?thesis by (auto intro!: is_canonical_rules_by_id [where m = "index_by rule_id canonicalRule (inbound_rules q)"])
qed

lemma index_ok_indexRules [simp]: "is_canonical p \<Longrightarrow> index_ok (indexRules p)"
  by (auto simp: index_ok_def is_canonical_def map_of_indexRules) (simp add: indexRules_def)

lemma is_canonical_ext:
  assumes p: "is_canonical p" and q: "is_canonical q" and v: "version p = version q" "mode p = mode q"
    and eq: "map_of (indexRules p) = map_of (indexRules q)"
  shows "p = q"
proof -
  have sets: "set (inbound_rules p) = set (inbound_rules q)"
    using p q eq map_of_indexRules unfolding is_canonical_def by (metis subsetI subset_antisym)
  then have "map rule_id (inbound_rules p) = map rule_id (inbound_rules q)"
    using p q by (intro sorted_distinct_set_unique) (simp_all add: is_canonical_def)
  moreover have "inj_on rule_id (set (inbound_rules p) \<union> set (inbound_rules q))"
    using p sets by (simp add: is_canonical_def distinct_map)
  ultimately have "inbound_rules p = inbound_rules q" by (rule map_inj_on)
  with v show ?thesis by simp
qed

lemma map_of_Canonical:
  "map_of (indexRules (Canonical (Some p))) = (\<lambda>k. map_option canonicalRule (map_of (indexRules p) k))"
proof -
  have "map_of (indexRules (Canonical (Some p))) = map_of (index_by rule_id canonicalRule (inbound_rules p))"
    by (rule map_of_rules_by_id) simp_all
  also have "\<dots> = map_of (map (\<lambda>(k, r). (k, canonicalRule r)) (rev (map (\<lambda>r. (rule_id r, r)) (inbound_rules p))))"
    by (simp add: map_of_index_by rev_map comp_def)
  also have "\<dots> = (\<lambda>k. map_option canonicalRule (map_of (indexRules p) k))"
    by (simp add: map_of_map comp_def indexRules_def map_of_index_by)
  finally show ?thesis .
qed

lemma version_Canonical [simp]: "version (Canonical p) = GetVersion p"
  by (cases p) (simp_all add: Empty_def)

lemma mode_Canonical_Some [simp]: "mode (Canonical (Some p)) = mode p"
  by simp

declare Canonical.simps(2) [simp del]

lemma Canonical_id: "is_canonical p \<Longrightarrow> Canonical (Some p) = p"
proof (rule is_canonical_ext)
  assume "is_canonical p"
  then have "map_option canonicalRule (map_of (indexRules p) k) = map_of (indexRules p) k" for k
    using index_ok_indexRules [of p]
    by (cases "map_of (indexRules p) k") (auto simp: index_ok_def rule_canonical_def)
  then show "map_of (indexRules (Canonical (Some p))) = map_of (indexRules p)"
    unfolding map_of_Canonical by blast
qed simp_all

lemma Canonical_idem [simp]: "Canonical (Some (Canonical p)) = Canonical p"
  by (rule Canonical_id) simp

lemma is_canonical_iff: "is_canonical p \<longleftrightarrow> Canonical (Some p) = p"
  using Canonical_id is_canonical_Canonical by metis


section \<open>Diff and Apply\<close>

lemma portsEqual_iff [simp]: "portsEqual a b \<longleftrightarrow> a = b"
proof -
  have "list_all (\<lambda>(x, y). port_start x = port_start y \<and> port_end x = port_end y) (zip a b) \<longleftrightarrow> a = b"
    if "length a = length b"
    using that by (induction rule: list_induct2) (auto intro: PortRange.expand)
  then show ?thesis by (auto simp: portsEqual_def)
qed

lemma apply_changes_append:
  "apply_changes i (xs @ ys) st = bind_result (apply_changes i xs st) (apply_changes (i + length xs) ys)"
proof (induction xs arbitrary: i st)
  case (Cons c cs)
  then show ?case by (cases "apply_change i c st") simp_all
qed simp

lemma set_diff_ids: "set (diff_ids a b) = dom (map_of a) \<union> dom (map_of b)"
  by (auto simp: diff_ids_def dom_map_of_fst [symmetric] map_of_eq_None_iff)

lemma distinct_diff_ids: "gomap_ok a \<Longrightarrow> gomap_ok b \<Longrightarrow> distinct (diff_ids a b)"
  by (auto simp: diff_ids_def gomap_ok_def map_of_eq_None_iff)

text \<open>Removing what went and adding what came turns the old peers into the new ones.\<close>

lemma peers_move:
  assumes "canonicalCIDRs old = old" and "canonicalCIDRs cur = cur"
  shows "filter (\<lambda>p. p \<notin> NormalizeCIDR ` set (filter (\<lambda>s. s \<notin> set cur) old))
      (canonicalCIDRs (old @ filter (\<lambda>s. s \<notin> set old) cur)) = cur" (is "?l = cur")
proof (rule sorted_distinct_set_unique)
  have o: "\<forall>x\<in>set old. NormalizeCIDR x = x" and c: "\<forall>x\<in>set cur. NormalizeCIDR x = x"
    and "sorted cur" "distinct cur"
    using assms by (simp_all add: canonicalCIDRs_id_iff)
  then show "sorted cur" "distinct cur" by simp_all
  show "sorted ?l" "distinct ?l" by (simp_all add: canonicalCIDRs_def sorted_filter_same)
  have "NormalizeCIDR ` set (filter (\<lambda>s. s \<notin> set cur) old) = set old - set cur"
    using o by force
  moreover have "NormalizeCIDR ` set (old @ filter (\<lambda>s. s \<notin> set old) cur) = set old \<union> set cur"
    using o c by force
  ultimately show "set ?l = set cur" by (auto simp: set_canonicalCIDRs)
qed

lemma canonicalCIDRs_append_Nil: "canonicalCIDRs old = old \<Longrightarrow> canonicalCIDRs (old @ []) = old"
  by simp

lemma map_upd_triv_abs: "m k = Some v \<Longrightarrow> m(k \<mapsto> v) = m"
  by auto

text \<open>The changes for one id install exactly the new rule of that id.\<close>

lemma apply_diff_rule:
  assumes old: "index_ok f" and new: "index_ok t" and here: "map_of rules k = map_of f k"
    and ok: "gomap_ok rules"
  shows "\<exists>rules'. apply_changes i (diff_rule (map_of f k) (map_of t k) k) (m, rules) = Inr (m, rules')
    \<and> gomap_ok rules' \<and> map_of rules' = (map_of rules)(k := map_of t k)"
proof (cases "map_of f k")
  case None
  with new here ok show ?thesis
    by (cases "map_of t k") (auto simp: diff_rule_def index_ok_def rule_canonical_def)
next
  case (Some r)
  note f = this
  show ?thesis
  proof (cases "map_of t k")
    case None
    with f ok show ?thesis by (simp add: diff_rule_def)
  next
    case (Some c)
    from new Some have c: "rule_id c = k" "rule_canonical c" by (auto simp: index_ok_def)
    from old f have r: "rule_id r = k" "rule_canonical r" by (auto simp: index_ok_def)
    show ?thesis
    proof (cases "protocol r = protocol c \<and> ports r = ports c")
      case False
      with f Some c ok show ?thesis by (auto simp: diff_rule_def rule_canonical_def)
    next
      case True
      define add where "add = filter (\<lambda>s. s \<notin> set (peer_cidrs r)) (peer_cidrs c)"
      define rem where "rem = filter (\<lambda>s. s \<notin> set (peer_cidrs c)) (peer_cidrs r)"
      have d: "diff_rule (map_of f k) (map_of t k) k =
          (if add \<noteq> [] then [Some (AddPeers \<lparr>pc_rule_id = k, pc_peer_cidrs = add\<rparr>)] else []) @
          (if rem \<noteq> [] then [Some (RemovePeers \<lparr>pc_rule_id = k, pc_peer_cidrs = rem\<rparr>)] else [])"
        using f Some True by (simp add: diff_rule_def setDiff_def add_def rem_def)
      have move: "filter (\<lambda>p. p \<notin> NormalizeCIDR ` set rem) (canonicalCIDRs (peer_cidrs r @ add)) = peer_cidrs c"
        unfolding add_def rem_def using r c by (intro peers_move) (simp_all add: rule_canonical_peers)
      have same: "r\<lparr>peer_cidrs := peer_cidrs c\<rparr> = c" using True r c by simp
      have noadd: "canonicalCIDRs (peer_cidrs r) = peer_cidrs r" using r by (rule_tac rule_canonical_peers)
      show ?thesis
      proof (cases "rem = []")
        case norem: True
        show ?thesis
        proof (cases "add = []")
          case True
          with norem move noadd True same have "r = c"
            using \<open>protocol r = protocol c \<and> ports r = ports c\<close> r c by simp
          with norem True f Some here ok show ?thesis unfolding d by (simp add: map_upd_triv_abs)
        next
          case False
          from norem move same have "r\<lparr>peer_cidrs := canonicalCIDRs (peer_cidrs r @ add)\<rparr> = c" by simp
          with norem False f Some here ok show ?thesis unfolding d by simp
        qed
      next
        case False
        with f Some here ok move same noadd show ?thesis
          unfolding d by (cases "add = []") simp_all
      qed
    qed
  qed
qed

lemma apply_diff_ids:
  assumes "index_ok f" and "index_ok t"
  shows "gomap_ok rules \<Longrightarrow> distinct ks \<Longrightarrow> \<forall>k\<in>set ks. map_of rules k = map_of f k \<Longrightarrow>
    \<exists>rules'. apply_changes i (concat (map (\<lambda>k. diff_rule (map_of f k) (map_of t k) k) ks)) (m, rules)
      = Inr (m, rules') \<and> gomap_ok rules'
      \<and> map_of rules' = (\<lambda>k. if k \<in> set ks then map_of t k else map_of rules k)"
proof (induction ks arbitrary: i rules)
  case (Cons k ks)
  let ?d = "diff_rule (map_of f k) (map_of t k) k"
  obtain r1 where r1: "apply_changes i ?d (m, rules) = Inr (m, r1)" "gomap_ok r1"
    "map_of r1 = (map_of rules)(k := map_of t k)"
    using apply_diff_rule [OF assms] Cons.prems by (metis list.set_intros(1))
  with Cons.prems have "\<forall>j\<in>set ks. map_of r1 j = map_of f j" by auto
  with Cons.IH [of r1 "i + length ?d"] Cons.prems r1 show ?case
    by (auto simp: apply_changes_append fun_eq_iff)
qed simp

lemma gomap_rules_perm:
  assumes "gomap_ok rules" and ok: "\<And>k r. map_of rules k = Some r \<Longrightarrow> rule_id r = k"
  shows "map_of (indexRules \<lparr>version = v, mode = m, inbound_rules = map snd rules\<rparr>) = map_of rules"
proof -
  have ids: "map (\<lambda>(k, r). rule_id r) rules = map fst rules"
    using assms by (auto simp: gomap_ok_def)
  then have "map (\<lambda>r. (rule_id r, r)) (map snd rules) = rules"
    using assms by (auto simp: gomap_ok_def intro!: map_idI)
  then have "map_of (indexRules \<lparr>version = v, mode = m, inbound_rules = map snd rules\<rparr>) = map_of (rev rules)"
    by (simp add: indexRules_def map_of_index_by)
  also have "\<dots> = map_of rules"
    using assms(1) by (intro map_of_eqI) (auto simp: gomap_ok_def rev_map [symmetric] map_of_eq_Some_iff dom_map_of_fst)
  finally show ?thesis .
qed

theorem Apply_Delta_eq: "Apply from (Delta from to) = Inr (Canonical to)"
proof -
  let ?f = "indexRules (Canonical from)" and ?t = "indexRules (Canonical to)"
  let ?m = "mode (Canonical from)" and ?m' = "mode (Canonical to)"
  let ?ks = "diff_ids ?f ?t"
  let ?ch = "concat (map (\<lambda>k. diff_rule (map_of ?f k) (map_of ?t k) k) ?ks)"
  have ok: "index_ok ?f" "index_ok ?t" by simp_all
  then have g: "gomap_ok ?f" "gomap_ok ?t" by (simp_all add: index_ok_def)
  obtain rules' where r: "gomap_ok rules'"
    "map_of rules' = (\<lambda>k. if k \<in> set ?ks then map_of ?t k else map_of ?f k)"
    "apply_changes (if ?m \<noteq> ?m' then 1 else 0) ?ch (?m', ?f) = Inr (?m', rules')"
    using apply_diff_ids [OF ok g(1) distinct_diff_ids [OF g], of "if ?m \<noteq> ?m' then 1 else 0" ?m'] by auto
  have t: "map_of rules' = map_of ?t"
    unfolding r(2) by (rule ext) (auto simp: set_diff_ids domIff)
  have run: "apply_changes 0 (Diff from to) (?m, ?f) = Inr (?m', rules')"
    using r(3) by (auto simp: Diff_def Let_def apply_changes_append split: if_splits)
  define out where "out = \<lparr>version = GetVersion to, mode = ?m', inbound_rules = map snd rules'\<rparr>"
  have ids: "map_of (indexRules out) = map_of ?t"
    unfolding out_def t [symmetric] using ok(2) t by (intro gomap_rules_perm r(1)) (auto simp: index_ok_def)
  have "Canonical (Some out) = Canonical to"
  proof (rule is_canonical_ext)
    have "map_option canonicalRule (map_of ?t k) = map_of ?t k" for k
      using ok(2) by (cases "map_of ?t k") (auto simp: index_ok_def rule_canonical_def)
    then show "map_of (indexRules (Canonical (Some out))) = map_of ?t"
      unfolding map_of_Canonical ids by blast
  qed (simp_all add: out_def)
  with run show ?thesis by (simp add: Apply_def Delta_def out_def)
qed


text \<open>Equal content gives no changes, and only equal content does.\<close>

lemma Apply_Canonical: "Apply (Some (Canonical p)) d = Apply p d"
  by (simp add: Apply_def)

lemma diff_rule_same: "diff_rule x x k = []"
  by (cases x) (simp_all add: diff_rule_def setDiff_def)

lemma Diff_cong:
  "Canonical a = Canonical a' \<Longrightarrow> Canonical b = Canonical b' \<Longrightarrow> Diff a b = Diff a' b'"
  by (simp add: Diff_def)

lemma Canonical_version: "Canonical (Some (p\<lparr>version := v\<rparr>)) = Canonical (Some p)\<lparr>version := v\<rparr>"
  by (simp add: Canonical.simps)

lemma indexRules_version [simp]: "indexRules (p\<lparr>version := v\<rparr>) = indexRules p"
  by (simp add: indexRules_def)

lemma Equal_iff:
  "Equal a b \<longleftrightarrow> mode (Canonical a) = mode (Canonical b) \<and>
     map_of (indexRules (Canonical a)) = map_of (indexRules (Canonical b))"
proof
  assume "Equal a b"
  then have "mode (Canonical a\<lparr>version := 0\<rparr>) = mode (Canonical b\<lparr>version := 0\<rparr>)"
    "indexRules (Canonical a\<lparr>version := 0\<rparr>) = indexRules (Canonical b\<lparr>version := 0\<rparr>)"
    unfolding Equal_def by simp_all
  then show "mode (Canonical a) = mode (Canonical b) \<and>
     map_of (indexRules (Canonical a)) = map_of (indexRules (Canonical b))" by simp
next
  assume *: "mode (Canonical a) = mode (Canonical b) \<and>
     map_of (indexRules (Canonical a)) = map_of (indexRules (Canonical b))"
  have "is_canonical (Canonical p\<lparr>version := 0\<rparr>)" for p
    using is_canonical_Canonical [of p] by (simp add: is_canonical_def)
  with * show "Equal a b" unfolding Equal_def by (intro is_canonical_ext) simp_all
qed

lemma Diff_Nil_iff: "Diff a b = [] \<longleftrightarrow> Equal a b"
proof
  assume nil: "Diff a b = []"
  then have "mode (Canonical a) = mode (Canonical b)" by (simp add: Diff_def Let_def split: if_splits)
  moreover from Apply_Delta_eq [of a b] nil have
    "Canonical (Some \<lparr>version = GetVersion b, mode = mode (Canonical a),
       inbound_rules = map snd (indexRules (Canonical a))\<rparr>) = Canonical b"
    by (simp add: Apply_def Delta_def Let_def)
  then have "map_of (indexRules (Canonical b)) = (\<lambda>k. map_option canonicalRule
     (map_of (indexRules \<lparr>version = GetVersion b, mode = mode (Canonical a),
       inbound_rules = map snd (indexRules (Canonical a))\<rparr>) k))"
    using map_of_Canonical by metis
  moreover have ok: "index_ok (indexRules (Canonical a))" by simp
  ultimately show "Equal a b"
    using gomap_rules_perm [of "indexRules (Canonical a)" "GetVersion b" "mode (Canonical a)"]
    by (auto simp: Equal_iff index_ok_def rule_canonical_def fun_eq_iff map_option_case split: option.splits)
next
  assume "Equal a b"
  then show "Diff a b = []" by (auto simp: Equal_iff Diff_def Let_def diff_rule_same)
qed


section \<open>What Apply accepts\<close>

text \<open>
  The ids a change sequence leaves present, and whether each change finds the rule it names:
  the contract of the wire format, without the rules' content.
\<close>

fun ids_after :: "string set \<Rightarrow> DeltaChange \<Rightarrow> string set" where
  "ids_after K (Some (UpsertRule r)) = insert (rule_id r) K"
| "ids_after K (Some (RemoveRuleId k)) = K - {k}"
| "ids_after K _ = K"

fun change_ok :: "string set \<Rightarrow> DeltaChange \<Rightarrow> bool" where
  "change_ok K (Some (AddPeers c)) = (pc_rule_id c \<in> K)"
| "change_ok K (Some (RemovePeers c)) = (pc_rule_id c \<in> K)"
| "change_ok K None = False"
| "change_ok K _ = True"

fun changes_ok :: "string set \<Rightarrow> DeltaChange list \<Rightarrow> bool" where
  "changes_ok K [] = True"
| "changes_ok K (c # cs) = (change_ok K c \<and> changes_ok (ids_after K c) cs)"

lemma apply_change_ok:
  "change_ok (dom (map_of rules)) c \<longleftrightarrow> (\<exists>st. apply_change i c (m, rules) = Inr st)"
  by (cases "(i, c, m, rules)" rule: apply_change.cases) (auto split: option.splits)

lemma apply_change_ids:
  "apply_change i c (m, rules) = Inr (m', rules') \<Longrightarrow>
   dom (map_of rules') = ids_after (dom (map_of rules)) c"
  by (cases "(i, c, m, rules)" rule: apply_change.cases) (auto split: option.splits if_splits)

lemma apply_changes_ok:
  "changes_ok (dom (map_of rules)) cs \<longleftrightarrow> (\<exists>st. apply_changes i cs (m, rules) = Inr st)"
proof (induction cs arbitrary: i m rules)
  case (Cons c cs)
  show ?case
  proof (cases "apply_change i c (m, rules)")
    case (Inl e)
    then show ?thesis using apply_change_ok [of rules c i m] by simp
  next
    case (Inr st)
    obtain m' rules' where st: "st = (m', rules')" by (cases st)
    with Inr Cons.IH [of rules' "Suc i" m'] show ?thesis
      using apply_change_ok [of rules c i m] apply_change_ids [of i c m rules m' rules'] by simp
  qed
qed simp

lemma ids_of_Canonical:
  "dom (map_of (indexRules (Canonical p))) = (case p of None \<Rightarrow> {} | Some q \<Rightarrow> rule_id ` set (inbound_rules q))"
proof (cases p)
  case None
  then show ?thesis by (simp add: Empty_def indexRules_def)
next
  case (Some q)
  have "dom (\<lambda>k. map_option canonicalRule (map_of (indexRules q) k)) = dom (map_of (indexRules q))"
    by auto
  with Some show ?thesis by (simp add: map_of_Canonical) (simp add: indexRules_def)
qed

lemma Apply_succeeds_iff:
  "(\<exists>q. Apply p d = Inr q) \<longleftrightarrow> from_version d = GetVersion p \<and>
     changes_ok (case p of None \<Rightarrow> {} | Some q \<Rightarrow> rule_id ` set (inbound_rules q)) (changes d)"
  unfolding ids_of_Canonical [symmetric] apply_changes_ok [where i = 0 and m = "mode (Canonical p)"]
  by (auto simp: Apply_def Let_def split: prod.splits)

lemma Apply_result:
  assumes "Apply p d = Inr q"
  shows "is_canonical q" "version q = to_version d"
  using assms by (auto simp: Apply_def Let_def split: if_splits)

lemma apply_changes_error:
  "apply_changes i cs st = Inl e \<Longrightarrow>
   \<exists>j<length cs. (e = ErrMalformedChange (i + j) \<and> cs ! j = None) \<or>
     (\<exists>c. e = ErrUnknownRule (i + j) (pc_rule_id c) \<and> cs ! j \<in> {Some (AddPeers c), Some (RemovePeers c)})"
proof (induction cs arbitrary: i st)
  case (Cons c cs)
  show ?case
  proof (cases "apply_change i c st")
    case (Inl e')
    with Cons.prems show ?thesis
      by (cases "(i, c, st)" rule: apply_change.cases) (auto split: option.splits intro!: exI [of _ 0])
  next
    case (Inr st')
    with Cons.prems Cons.IH [of "Suc i" st'] obtain j where "j < length cs"
      "(e = ErrMalformedChange (Suc i + j) \<and> cs ! j = None) \<or>
       (\<exists>c. e = ErrUnknownRule (Suc i + j) (pc_rule_id c) \<and> cs ! j \<in> {Some (AddPeers c), Some (RemovePeers c)})"
      by auto
    then show ?thesis by (intro exI [of _ "Suc j"]) auto
  qed
qed simp

section \<open>What a policy permits\<close>

text \<open>
  The meaning of a resolved rule: a source inside one of the peers, the protocol, and for
  a rule with ports a destination port in one of the ranges. A bare address stands for its
  host route and text that is neither prefix nor address matches nothing.
\<close>

definition cidr_covers :: "string \<Rightarrow> addr \<Rightarrow> bool" where
  "cidr_covers s a = (case parse_prefix (trim_space s) of Some p \<Rightarrow> prefix_contains p a
     | None \<Rightarrow> (case parse_addr (trim_space s) of
         Some b \<Rightarrow> prefix_contains (prefix_from (unmap b) (bit_len (unmap b))) a | None \<Rightarrow> False))"

definition in_range :: "32 word \<Rightarrow> PortRange \<Rightarrow> bool" where
  "in_range n r = (port_start r \<le> n \<and> n \<le> port_end r)"

definition rule_permits :: "addr \<Rightarrow> Protocol \<Rightarrow> 32 word \<Rightarrow> ResolvedRule \<Rightarrow> bool" where
  "rule_permits a pr n r = (list_ex (\<lambda>s. cidr_covers s a) (peer_cidrs r) \<and> protocol r = pr \<and>
     (ports r = [] \<or> list_ex (in_range n) (ports r)))"

definition permits :: "WorkloadPolicy \<Rightarrow> addr \<Rightarrow> Protocol \<Rightarrow> 32 word \<Rightarrow> bool" where
  "permits p a pr n = list_ex (rule_permits a pr n) (inbound_rules p)"

lemma cidr_covers_prefix: "prefix_valid p \<Longrightarrow> cidr_covers (prefix_string p) a = prefix_contains p a"
  by (simp add: cidr_covers_def)

lemma cidr_covers_Normalize [simp]: "cidr_covers (NormalizeCIDR s) a = cidr_covers s a"
proof (cases s rule: NormalizeCIDR_cases)
  case (prefix p)
  then have "prefix_valid p" by (simp add: parse_prefix_valid)
  with prefix show ?thesis by (simp add: cidr_covers_prefix) (simp add: cidr_covers_def)
next
  case (host b)
  then show ?thesis by (simp add: HostRoute_def Let_def cidr_covers_prefix) (simp add: cidr_covers_def)
next
  case other
  then show ?thesis by (simp add: cidr_covers_def)
qed

lemma canonicalPorts_Nil_iff: "canonicalPorts xs = [] \<longleftrightarrow> xs = []"
  unfolding canonicalPorts_def by (metis set_empty set_sort_compact)

lemma rule_permits_canonical [simp]: "rule_permits a pr n (canonicalRule r) = rule_permits a pr n r"
  by (auto simp: rule_permits_def canonicalRule_def list_ex_iff set_canonicalCIDRs canonicalPorts_Nil_iff)
     (auto simp: canonicalPorts_def)

lemma set_Canonical_rules:
  assumes "distinct (map rule_id (inbound_rules p))"
  shows "set (inbound_rules (Canonical (Some p))) = canonicalRule ` set (inbound_rules p)"
proof -
  let ?c = "Canonical (Some p)"
  have d: "distinct (map rule_id (inbound_rules ?c))"
    using is_canonical_Canonical is_canonical_def by blast
  have "r \<in> set (inbound_rules ?c) \<longleftrightarrow> (\<exists>r'\<in>set (inbound_rules p). canonicalRule r' = r)" for r
    using map_of_indexRules [OF d, of "rule_id r" r] map_of_indexRules [OF assms, of "rule_id r"]
    by (auto simp: map_of_Canonical)
  then show ?thesis by (auto simp: image_iff)
qed

lemma permits_Canonical:
  assumes "distinct (map rule_id (inbound_rules p))"
  shows "permits (Canonical (Some p)) a pr n = permits p a pr n"
  by (simp add: permits_def list_ex_iff set_Canonical_rules [OF assms])

lemma Canonical_order:
  assumes "distinct (map rule_id (inbound_rules p))" and "set (inbound_rules q) = set (inbound_rules p)"
    and "distinct (map rule_id (inbound_rules q))" and "version q = version p" and "mode q = mode p"
  shows "Canonical (Some q) = Canonical (Some p)"
proof (rule is_canonical_ext)
  have "map_of (indexRules q) = map_of (indexRules p)"
    using assms map_of_indexRules by (metis ext option.exhaust)
  then show "map_of (indexRules (Canonical (Some q))) = map_of (indexRules (Canonical (Some p)))"
    by (simp add: map_of_Canonical)
qed (use assms in simp_all)


section \<open>Names of resolved rules\<close>

definition protoName :: "Protocol \<Rightarrow> string" where
  "protoName p = to_lower (trim_prefix ''PROTOCOL_'' (Protocol_String p))"

definition RuleID :: "string \<Rightarrow> Protocol \<Rightarrow> string" where
  "RuleID authoredID p = authoredID @ ''/'' @ protoName p"

datatype provenance_error = NotAuthoredSlashProtocol string | UnknownProtocol string string

definition Provenance :: "string \<Rightarrow> (provenance_error, string \<times> Protocol) result" where
  "Provenance ruleID = (case cut CHR ''/'' ruleID of (authoredID, suffix, ok) \<Rightarrow>
     if \<not> ok \<or> authoredID = [] then Inl (NotAuthoredSlashProtocol ruleID)
     else (case Protocol_value (''PROTOCOL_'' @ to_upper suffix) of
         None \<Rightarrow> Inl (UnknownProtocol ruleID suffix)
       | Some v \<Rightarrow> if Protocol_number v = 0 then Inl (UnknownProtocol ruleID suffix)
                   else Inr (authoredID, v)))"

definition portsString :: "PortRange list \<Rightarrow> string" where
  "portsString ps = (if ps = [] then ''any''
     else join '','' (map (\<lambda>p. if port_start p = port_end p then show_dec (unat (port_start p))
        else show_dec (unat (port_start p)) @ ''-'' @ show_dec (unat (port_end p))) ps))"

fun Describe :: "DeltaChange \<Rightarrow> string" where
  "Describe (Some (UpsertRule r)) = ''upsert rule '' @ rule_id r @ '' '' @ protoName (protocol r) @
     '' ports='' @ portsString (ports r) @ '' peers='' @ show_dec (length (peer_cidrs r))"
| "Describe (Some (RemoveRuleId k)) = ''remove rule '' @ k"
| "Describe (Some (AddPeers c)) = ''add peers '' @ pc_rule_id c @ '' +'' @ join '','' (pc_peer_cidrs c)"
| "Describe (Some (RemovePeers c)) = ''remove peers '' @ pc_rule_id c @ '' -'' @ join '','' (pc_peer_cidrs c)"
| "Describe (Some (SetMode m)) = ''set mode '' @ EnforcementMode_String m"
| "Describe None = ''malformed change''"

text \<open>The protocols a rule may carry.\<close>

fun named_protocol :: "Protocol \<Rightarrow> bool" where
  "named_protocol PROTOCOL_TCP = True"
| "named_protocol PROTOCOL_UDP = True"
| "named_protocol PROTOCOL_ICMP = True"
| "named_protocol _ = False"

lemma protoName_simps [simp]:
  "protoName PROTOCOL_TCP = ''tcp''" "protoName PROTOCOL_UDP = ''udp''" "protoName PROTOCOL_ICMP = ''icmp''"
  by (simp_all add: protoName_def trim_prefix_def starts_with_def case_eval)

lemma Provenance_RuleID_eq:
  "a \<noteq> [] \<Longrightarrow> CHR ''/'' \<notin> set a \<Longrightarrow> named_protocol p \<Longrightarrow> Provenance (RuleID a p) = Inr (a, p)"
  by (cases p) (simp_all add: Provenance_def RuleID_def Protocol_value_def case_eval)

lemma RuleID_inj:
  assumes "RuleID a p = RuleID b q" and "CHR ''/'' \<notin> set a" "CHR ''/'' \<notin> set b"
    and "named_protocol p" "named_protocol q"
  shows "a = b \<and> p = q"
proof -
  have "cut CHR ''/'' (RuleID a p) = (a, protoName p, True)" "cut CHR ''/'' (RuleID b q) = (b, protoName q, True)"
    using assms(2,3) by (simp_all add: RuleID_def)
  with assms(1) have "a = b" "protoName p = protoName q" by (metis prod.inject)+
  with assms(4,5) show ?thesis by (cases p; cases q) simp_all
qed

section \<open>The contract of the algebra\<close>

text \<open>
  What the two ends of the wire rely on: a delta is made for the version it starts from, and
  applying it gives the canonical target. From it, a sequence of versions can be sent as
  consecutive deltas, whatever representative of the base the receiver holds.
\<close>

locale delta_algebra =
  fixes canon :: "'p \<Rightarrow> 'p" and delta :: "'p \<Rightarrow> 'p \<Rightarrow> 'd" and app :: "'p \<Rightarrow> 'd \<Rightarrow> 'e + 'p"
  assumes canon_idem: "canon (canon p) = canon p"
    and delta_canon: "delta (canon p) (canon q) = delta p q"
    and app_canon: "app (canon p) d = app p d"
    and app_delta: "app p (delta p q) = Inr (canon q)"
begin

fun deltas :: "'p \<Rightarrow> 'p list \<Rightarrow> 'd list" where
  "deltas p [] = []"
| "deltas p (q # qs) = delta p q # deltas q qs"

fun app_all :: "'p \<Rightarrow> 'd list \<Rightarrow> 'e + 'p" where
  "app_all p [] = Inr p"
| "app_all p (d # ds) = (case app p d of Inl e \<Rightarrow> Inl e | Inr q \<Rightarrow> app_all q ds)"

lemma app_delta_from: "canon p = canon p' \<Longrightarrow> app p (delta p' q) = Inr (canon q)"
  by (metis app_canon app_delta)

lemma app_all_deltas:
  "canon p = canon p' \<Longrightarrow> qs \<noteq> [] \<Longrightarrow> app_all p (deltas p' qs) = Inr (canon (last qs))"
proof (induction qs arbitrary: p p')
  case (Cons q qs)
  show ?case
  proof (cases "qs = []")
    case True
    with Cons.prems show ?thesis by (simp add: app_delta_from)
  next
    case False
    with Cons show ?thesis by (simp add: app_delta_from canon_idem)
  qed
qed simp

end

lemma Delta_Canonical: "Delta (Some (Canonical p)) (Some (Canonical q)) = Delta p q"
  by (simp add: Delta_def Diff_def)

text \<open>The policy pointers of the code, with \<^verbatim>\<open>Canonical\<close>, \<^verbatim>\<open>Delta\<close> and \<^verbatim>\<open>Apply\<close>, meet it.\<close>

interpretation rendered: delta_algebra
  "\<lambda>p. Some (Canonical p)" Delta "\<lambda>p d. map_sum (\<lambda>e. e) Some (Apply p d)"
  by unfold_locales (simp_all add: Delta_Canonical Apply_Canonical Apply_Delta_eq)

section \<open>Properties\<close>

text \<open>\<^bold>\<open>C1\<close>: applying to a policy the delta computed from it gives the canonical form of the
  delta's target, for all policies, nil included: the agent that holds one version and
  receives the delta holds exactly what the control plane rendered.\<close>

theorem Apply_Delta: "Apply from (Delta from to) = Inr (Canonical to)"
  by (rule Apply_Delta_eq)

text \<open>A delta is applied exactly when it starts from the base's version and each change finds
  the rule it names among those present at that point, and the result is canonical and
  carries the delta's target version.\<close>

lemma Apply_accepts:
  "((\<exists>q. Apply p d = Inr q) \<longleftrightarrow> from_version d = GetVersion p \<and>
      changes_ok (case p of None \<Rightarrow> {} | Some q \<Rightarrow> rule_id ` set (inbound_rules q)) (changes d)) \<and>
   (Apply p d = Inr q \<longrightarrow> is_canonical q \<and> version q = to_version d)"
  using Apply_succeeds_iff Apply_result by blast

text \<open>A refused delta is reported as what it is: a version other than the base's is a base
  mismatch naming both versions, whatever the changes; otherwise the error names the
  index of a change with no variant or of a peer change, with the rule it names.\<close>

lemma Apply_refuses:
  assumes "Apply p d = Inl e"
  shows "if from_version d \<noteq> GetVersion p then e = ErrBaseMismatch (GetVersion p) (from_version d)
    else \<exists>j<length (changes d). (e = ErrMalformedChange j \<and> changes d ! j = None) \<or>
      (\<exists>c. e = ErrUnknownRule j (pc_rule_id c) \<and> changes d ! j \<in> {Some (AddPeers c), Some (RemovePeers c)})"
  using assms apply_changes_error [of 0 "changes d" "(mode (Canonical p), indexRules (Canonical p))" e]
  by (auto simp: Apply_def Let_def bind_result_eq_Inl split: if_splits)

definition web_rule :: "PortRange list \<Rightarrow> ResolvedRule" where
  "web_rule ps = \<lparr>rule_id = ''r/tcp'', peer_cidrs = [prefix_string (Prefix (V4 0) 0)], protocol = PROTOCOL_TCP, ports = ps\<rparr>"

definition web_policy :: "PortRange list \<Rightarrow> WorkloadPolicy" where
  "web_policy ps = \<lparr>version = 1, mode = ENFORCEMENT_MODE_ENFORCED, inbound_rules = [web_rule ps]\<rparr>"

lemma Canonical_web_policy: "Canonical (Some (web_policy ps)) = web_policy (canonicalPorts ps)"
  by (simp add: Canonical.simps web_policy_def web_rule_def rules_by_id_def sorted_keys_def index_by_def
      canonicalRule_def canonicalCIDRs_def NormalizeCIDR_prefix prefix_valid_def masked_def sort_compact_def)

text \<open>The converse fails: two policies that permit the same traffic can have different
  canonical forms, since a range inside another is kept. The comment of \<^verbatim>\<open>Canonical\<close> claims
  otherwise.\<close>

lemma same_traffic_different_Canonical:
  "\<exists>p q. (\<forall>a pr n. permits p a pr n = permits q a pr n) \<and>
     (\<exists>a pr n. permits p a pr n) \<and> \<not> Equal (Some p) (Some q)"
proof -
  let ?a = "PortRange 80 90" and ?b = "PortRange 80 85"
  have "n \<le> 85 \<Longrightarrow> n \<le> 90" for n :: "32 word"
    by (erule order_trans) simp
  then have "permits (web_policy [?a]) a pr n = permits (web_policy [?a, ?b]) a pr n" for a pr n
    by (auto simp: permits_def web_policy_def web_rule_def rule_permits_def in_range_def)
  moreover have "permits (web_policy [?a]) (V4 7) PROTOCOL_TCP 84"
    by (simp add: permits_def web_policy_def web_rule_def rule_permits_def in_range_def cidr_covers_prefix prefix_valid_def)
  moreover have "\<not> Equal (Some (web_policy [?a])) (Some (web_policy [?a, ?b]))"
    by (simp add: Equal_def Canonical_web_policy) (simp add: web_policy_def web_rule_def canonicalPorts_def)
  ultimately show ?thesis by blast
qed

end
