(* ===== verification/Marks.thy ===== *)
theory Marks
  imports Rendered "HOL-Library.Multiset"
begin

text \<open>
  The connection-mark allocation of the agent, \<^verbatim>\<open>internal/agent/enforce/nft/allocator.go\<close>: every
  resolved rule gets a stable value in a sixteen-bit region of the connection mark. The results:
  the two indexes stay inverse to each other, a known rule keeps its value, a value of an
  installed rule is never given away, values are reused only once all have been handed out, and
  allocation fails only when the incoming and the installed rules together exceed the region;
  a saved allocation loads back as itself.

  Values are at most \<open>MaxRules\<close>, so they are natural numbers here; the generation counter is
  one per apply and its wrap at 64 bits is out of reach.
\<close>

section \<open>The mark region\<close>

definition MarkShift :: nat where "MarkShift = 16"
definition MarkMask :: "32 word" where "MarkMask = 0xffff0000"
definition ForeignMask :: "32 word" where "ForeignMask = 0x0000ffff"
definition WouldBlockIndex :: nat where "WouldBlockIndex = 65535"
definition MaxRules :: nat where "MaxRules = WouldBlockIndex - 1"

definition RuleMark :: "nat \<Rightarrow> 32 word" where
  "RuleMark index = push_bit MarkShift (of_nat index)"

definition RuleIndex :: "32 word \<Rightarrow> nat" where
  "RuleIndex m = unat (drop_bit MarkShift (m AND MarkMask))"

definition WouldBlockMark :: "32 word" where
  "WouldBlockMark = push_bit MarkShift (of_nat WouldBlockIndex)"

text \<open>The write every rule makes, as the rendered ruleset spells it.\<close>

definition mark_write :: "32 word \<Rightarrow> nat \<Rightarrow> 32 word" where
  "mark_write m index = (m AND ForeignMask) OR RuleMark index"

lemma MarkMask_eq: "MarkMask = NOT (mask 16)" "ForeignMask = mask 16"
  by (simp_all add: MarkMask_def ForeignMask_def mask_eq_exp_minus_1)

lemma RuleIndex_mark_write:
  assumes "index < 65536"
  shows "RuleIndex (mark_write m index) = index"
proof -
  have "drop_bit 16 (((m AND mask 16) OR push_bit 16 (of_nat index)) AND NOT (mask 16)) = (of_nat index :: 32 word)"
  proof (rule bit_word_eqI)
    fix n assume "n < LENGTH(32)"
    show "bit (drop_bit 16 (((m AND mask 16) OR push_bit 16 (of_nat index)) AND NOT (mask 16))) n =
        bit (of_nat index :: 32 word) n"
    proof (cases "n < 16")
      case True
      then show ?thesis by (simp add: bit_simps)
    next
      case False
      have "take_bit 16 index = index" using assms by (simp add: take_bit_nat_eq_self)
      then have "\<not> bit index n" using False by (metis bit_take_bit_iff)
      with False show ?thesis by (simp add: bit_simps)
    qed
  qed
  moreover have "unat (of_nat index :: 32 word) = index"
    using assms by (simp add: unat_of_nat take_bit_nat_eq_self)
  ultimately show ?thesis
    by (simp add: RuleIndex_def mark_write_def RuleMark_def MarkShift_def MarkMask_eq)
qed

lemma mark_write_foreign: "mark_write m index AND ForeignMask = m AND ForeignMask"
  by (rule bit_word_eqI) (auto simp: mark_write_def RuleMark_def MarkShift_def MarkMask_eq bit_simps)

section \<open>The allocation\<close>

record slot =
  slot_mark :: nat
  slot_gen :: nat

record Allocator =
  al_limit :: nat
  al_next :: nat
  al_gen :: nat
  al_byID :: "(string, slot) gomap"
  al_byMark :: "(nat, string) gomap"

datatype alloc_error = ErrMarksExhausted nat

definition newAllocator :: "nat \<Rightarrow> Allocator" where
  "newAllocator limit = \<lparr>al_limit = limit, al_next = 1, al_gen = 0, al_byID = [], al_byMark = []\<rparr>"

definition NewAllocator :: Allocator where
  "NewAllocator = newAllocator MaxRules"

definition rule_ids :: "WorkloadPolicy option \<Rightarrow> string list" where
  "rule_ids p = (case p of None \<Rightarrow> [] | Some q \<Rightarrow> map rule_id (inbound_rules q))"

definition reusable :: "WorkloadPolicy option \<Rightarrow> Allocator \<Rightarrow> nat list" where
  "reusable installed a = map fst (sort_key (\<lambda>(m, g). (g, m))
     (map (\<lambda>(k, s). (slot_mark s, slot_gen s))
       (filter (\<lambda>(k, s). slot_gen s < al_gen a \<and> k \<notin> set (rule_ids installed)) (al_byID a))))"

text \<open>The first loop: known rules keep their value and move to this generation.\<close>

definition touch :: "string \<Rightarrow> Allocator \<times> (string, nat) gomap \<times> string list \<Rightarrow> Allocator \<times> (string, nat) gomap \<times> string list" where
  "touch k st = (case st of (a, out, fresh) \<Rightarrow> (case map_of (al_byID a) k of
     Some s \<Rightarrow> (a\<lparr>al_byID := AList.update k (s\<lparr>slot_gen := al_gen a\<rparr>) (al_byID a)\<rparr>, AList.update k (slot_mark s) out, fresh)
   | None \<Rightarrow> (a, out, fresh @ [k])))"

text \<open>The second loop, over the new rules; \<open>ru\<close> is the list of reusable values, computed once.\<close>

fun give :: "WorkloadPolicy option \<Rightarrow> nat \<Rightarrow> string list \<Rightarrow> nat list option \<Rightarrow> Allocator \<Rightarrow> (string, nat) gomap
    \<Rightarrow> (alloc_error, (string, nat) gomap \<times> Allocator) result" where
  "give installed n [] ru a out = Inr (out, a)"
| "give installed n (k # ks) ru a out =
     (if al_next a \<le> al_limit a then
        give installed n ks ru (a\<lparr>al_next := Suc (al_next a),
            al_byID := AList.update k \<lparr>slot_mark = al_next a, slot_gen = al_gen a\<rparr> (al_byID a),
            al_byMark := AList.update (al_next a) k (al_byMark a)\<rparr>) (AList.update k (al_next a) out)
      else (case (case ru of Some l \<Rightarrow> l | None \<Rightarrow> reusable installed a) of
          [] \<Rightarrow> Inl (ErrMarksExhausted n)
        | m # rest \<Rightarrow>
            give installed n ks (Some rest) (a\<lparr>
              al_byID := AList.update k \<lparr>slot_mark = m, slot_gen = al_gen a\<rparr>
                (AList.delete (case map_of (al_byMark a) m of Some old \<Rightarrow> old | None \<Rightarrow> []) (al_byID a)),
              al_byMark := AList.update m k (al_byMark a)\<rparr>) (AList.update k m out)))"

definition Allocate :: "WorkloadPolicy option \<Rightarrow> WorkloadPolicy option \<Rightarrow> Allocator \<Rightarrow> (alloc_error, (string, nat) gomap \<times> Allocator) result" where
  "Allocate nxt installed a = (case fold touch (rule_ids (Some (Canonical nxt))) (a\<lparr>al_gen := Suc (al_gen a)\<rparr>, [], []) of
     (a1, out, fresh) \<Rightarrow> give installed (length fresh) fresh None a1 out)"

definition Alloc_Rule :: "Allocator \<Rightarrow> nat \<Rightarrow> string option" where
  "Alloc_Rule a index = map_of (al_byMark a) index"

definition Alloc_Mark :: "Allocator \<Rightarrow> string \<Rightarrow> nat option" where
  "Alloc_Mark a k = map_option slot_mark (map_of (al_byID a) k)"

section \<open>The invariant\<close>

definition alloc_inv :: "Allocator \<Rightarrow> bool" where
  "alloc_inv a = (gomap_ok (al_byID a) \<and> gomap_ok (al_byMark a) \<and> 1 \<le> al_next a \<and> al_next a \<le> Suc (al_limit a) \<and>
     (\<forall>k s. map_of (al_byID a) k = Some s \<longrightarrow> map_of (al_byMark a) (slot_mark s) = Some k \<and>
        1 \<le> slot_mark s \<and> slot_mark s < al_next a \<and> slot_gen s \<le> al_gen a) \<and>
     (\<forall>m k. map_of (al_byMark a) m = Some k \<longrightarrow> Alloc_Mark a k = Some m))"

text \<open>Every value handed out is remembered.\<close>

definition alloc_full :: "Allocator \<Rightarrow> bool" where
  "alloc_full a = (dom (map_of (al_byMark a)) = {1..<al_next a})"

lemma alloc_inv_new [simp]: "alloc_inv (newAllocator l)" "alloc_full (newAllocator l)"
  by (simp_all add: alloc_inv_def alloc_full_def newAllocator_def)

lemma alloc_invD:
  assumes "alloc_inv a" and "map_of (al_byID a) k = Some s"
  shows "map_of (al_byMark a) (slot_mark s) = Some k" "1 \<le> slot_mark s" "slot_mark s < al_next a" "slot_gen s \<le> al_gen a"
  using assms by (auto simp: alloc_inv_def)

lemma alloc_inv_markD: "alloc_inv a \<Longrightarrow> map_of (al_byMark a) m = Some k \<Longrightarrow> \<exists>s. map_of (al_byID a) k = Some s \<and> slot_mark s = m"
  by (auto simp: alloc_inv_def Alloc_Mark_def)

lemma alloc_inv_gen: "alloc_inv a \<Longrightarrow> alloc_inv (a\<lparr>al_gen := Suc (al_gen a)\<rparr>)"
  by (fastforce simp: alloc_inv_def Alloc_Mark_def)

lemma alloc_inv_touch:
  assumes "alloc_inv a" and "map_of (al_byID a) k = Some s"
  shows "alloc_inv (a\<lparr>al_byID := AList.update k (s\<lparr>slot_gen := al_gen a\<rparr>) (al_byID a)\<rparr>)"
  using assms unfolding alloc_inv_def Alloc_Mark_def by (auto split: if_splits) fastforce

lemma fold_touch:
  assumes "alloc_inv a" and "distinct ks"
  shows "\<exists>a1 out. fold touch ks (a, [], []) = (a1, out, filter (\<lambda>k. map_of (al_byID a) k = None) ks) \<and> alloc_inv a1 \<and>
    al_next a1 = al_next a \<and> al_limit a1 = al_limit a \<and> al_gen a1 = al_gen a \<and> al_byMark a1 = al_byMark a \<and>
    (\<forall>k. map_of (al_byID a1) k = (if k \<in> set ks then map_option (\<lambda>s. s\<lparr>slot_gen := al_gen a\<rparr>) (map_of (al_byID a) k)
      else map_of (al_byID a) k)) \<and>
    (\<forall>k. map_of out k = (if k \<in> set ks then Alloc_Mark a k else None))"
  using assms(2)
proof (induction ks rule: rev_induct)
  case Nil
  then show ?case using assms(1) by simp
next
  case (snoc k ks)
  then obtain a1 out where IH: "fold touch ks (a, [], []) = (a1, out, filter (\<lambda>k. map_of (al_byID a) k = None) ks)"
    "alloc_inv a1" "al_next a1 = al_next a" "al_limit a1 = al_limit a" "al_gen a1 = al_gen a" "al_byMark a1 = al_byMark a"
    "\<forall>k. map_of (al_byID a1) k = (if k \<in> set ks then map_option (\<lambda>s. s\<lparr>slot_gen := al_gen a\<rparr>) (map_of (al_byID a) k)
      else map_of (al_byID a) k)"
    "\<forall>k. map_of out k = (if k \<in> set ks then Alloc_Mark a k else None)" by auto
  have k: "map_of (al_byID a1) k = map_of (al_byID a) k" using IH(7) snoc.prems by simp
  show ?case
  proof (cases "map_of (al_byID a) k")
    case None
    then have none: "Alloc_Mark a k = None" by (simp add: Alloc_Mark_def)
    from None k IH(1) have "fold touch (ks @ [k]) (a, [], []) = (a1, out, filter (\<lambda>k. map_of (al_byID a) k = None) (ks @ [k]))"
      by (simp add: touch_def)
    with IH(2-8) None none show ?thesis by (intro exI [of _ a1] exI [of _ out]) auto
  next
    case (Some s)
    let ?a2 = "a1\<lparr>al_byID := AList.update k (s\<lparr>slot_gen := al_gen a1\<rparr>) (al_byID a1)\<rparr>"
    from Some k IH(1) have "fold touch (ks @ [k]) (a, [], []) =
        (?a2, AList.update k (slot_mark s) out, filter (\<lambda>k. map_of (al_byID a) k = None) (ks @ [k]))"
      by (simp add: touch_def)
    moreover have "alloc_inv ?a2" using alloc_inv_touch [OF IH(2)] k Some by simp
    ultimately show ?thesis using IH(3-8) Some
      by (intro exI [of _ ?a2] exI [of _ "AList.update k (slot_mark s) out"]) (auto simp: Alloc_Mark_def)
  qed
qed


section \<open>Handing out values\<close>

definition take_next :: "string \<Rightarrow> Allocator \<Rightarrow> Allocator" where
  "take_next k a = a\<lparr>al_next := Suc (al_next a),
     al_byID := AList.update k \<lparr>slot_mark = al_next a, slot_gen = al_gen a\<rparr> (al_byID a),
     al_byMark := AList.update (al_next a) k (al_byMark a)\<rparr>"

definition take_old :: "nat \<Rightarrow> string \<Rightarrow> string \<Rightarrow> Allocator \<Rightarrow> Allocator" where
  "take_old m old k a = a\<lparr>al_byID := AList.update k \<lparr>slot_mark = m, slot_gen = al_gen a\<rparr> (AList.delete old (al_byID a)),
     al_byMark := AList.update m k (al_byMark a)\<rparr>"

lemma alloc_inv_take_next:
  assumes inv: "alloc_inv a" and fresh: "map_of (al_byID a) k = None" and room: "al_next a \<le> al_limit a"
  shows "alloc_inv (take_next k a)" and "alloc_full a \<Longrightarrow> alloc_full (take_next k a)"
proof -
  have marks: "\<And>m j. map_of (al_byMark a) m = Some j \<Longrightarrow> m < al_next a \<and> j \<noteq> k"
    using alloc_inv_markD [OF inv] alloc_invD [OF inv] fresh by fastforce
  show "alloc_inv (take_next k a)"
    unfolding alloc_inv_def
  proof (intro conjI allI impI)
    fix j s assume "map_of (al_byID (take_next k a)) j = Some s"
    then consider "j = k" "s = \<lparr>slot_mark = al_next a, slot_gen = al_gen a\<rparr>" | "j \<noteq> k" "map_of (al_byID a) j = Some s"
      by (auto simp: take_next_def split: if_splits)
    note c = this
    from c show "map_of (al_byMark (take_next k a)) (slot_mark s) = Some j"
      using alloc_invD [OF inv, of j s] by cases (auto simp: take_next_def)
    have "1 \<le> al_next a" using inv by (simp add: alloc_inv_def)
    with c have "1 \<le> slot_mark s \<and> slot_mark s < Suc (al_next a) \<and> slot_gen s \<le> al_gen a"
      using alloc_invD(2-4) [OF inv, of j s] by cases simp_all
    then show "1 \<le> slot_mark s" "slot_mark s < al_next (take_next k a)" "slot_gen s \<le> al_gen (take_next k a)"
      by (simp_all add: take_next_def)
  next
    fix m j assume "map_of (al_byMark (take_next k a)) m = Some j"
    then show "Alloc_Mark (take_next k a) j = Some m"
      using marks [of m j] alloc_inv_markD [OF inv, of m j]
      by (auto simp: take_next_def Alloc_Mark_def split: if_splits)
  qed (use inv room in \<open>simp_all add: alloc_inv_def take_next_def\<close>)
  show "alloc_full (take_next k a)" if "alloc_full a"
    using that inv by (auto simp: alloc_full_def take_next_def alloc_inv_def)
qed

lemma alloc_inv_take_old:
  assumes inv: "alloc_inv a" and fresh: "map_of (al_byID a) k = None" and old: "map_of (al_byMark a) m = Some old"
  shows "alloc_inv (take_old m old k a)" and "alloc_full a \<Longrightarrow> alloc_full (take_old m old k a)"
proof -
  obtain so where so: "map_of (al_byID a) old = Some so" "slot_mark so = m"
    using alloc_inv_markD [OF inv old] by blast
  have sep: "\<And>n j. map_of (al_byMark a) n = Some j \<Longrightarrow> j \<noteq> k \<and> (n \<noteq> m \<longrightarrow> j \<noteq> old)"
    using alloc_inv_markD [OF inv] fresh so by fastforce
  have sep': "\<And>j s. map_of (al_byID a) j = Some s \<Longrightarrow> j \<noteq> old \<Longrightarrow> slot_mark s \<noteq> m"
    using alloc_invD(1) [OF inv] old by fastforce
  show "alloc_inv (take_old m old k a)"
    unfolding alloc_inv_def
  proof (intro conjI allI impI)
    fix j s assume "map_of (al_byID (take_old m old k a)) j = Some s"
    then consider "j = k" "s = \<lparr>slot_mark = m, slot_gen = al_gen a\<rparr>" | "j \<noteq> k" "j \<noteq> old" "map_of (al_byID a) j = Some s"
      by (auto simp: take_old_def split: if_splits)
    note c = this
    from c show "map_of (al_byMark (take_old m old k a)) (slot_mark s) = Some j"
      using alloc_invD [OF inv, of j s] sep' [of j s] by cases (auto simp: take_old_def)
    from c have "1 \<le> slot_mark s \<and> slot_mark s < al_next a \<and> slot_gen s \<le> al_gen a"
      using alloc_invD(2-4) [OF inv, of j s] alloc_invD(2-3) [OF inv so(1)] so(2) by cases simp_all
    then show "1 \<le> slot_mark s" "slot_mark s < al_next (take_old m old k a)" "slot_gen s \<le> al_gen (take_old m old k a)"
      by (simp_all add: take_old_def)
  next
    fix n j assume "map_of (al_byMark (take_old m old k a)) n = Some j"
    then show "Alloc_Mark (take_old m old k a) j = Some n"
      using sep [of n j] alloc_inv_markD [OF inv, of n j]
      by (auto simp: take_old_def Alloc_Mark_def split: if_splits)
  qed (use inv in \<open>simp_all add: alloc_inv_def take_old_def\<close>)
  show "alloc_full (take_old m old k a)" if "alloc_full a"
    using that old by (auto simp: alloc_full_def take_old_def)
qed

text \<open>The values \<^verbatim>\<open>reusable\<close> lists are held by rules neither of this allocation nor installed.\<close>

definition free_mark :: "WorkloadPolicy option \<Rightarrow> Allocator \<Rightarrow> nat \<Rightarrow> bool" where
  "free_mark installed a m = (\<exists>k s. map_of (al_byID a) k = Some s \<and> slot_mark s = m \<and> slot_gen s < al_gen a \<and>
     k \<notin> set (rule_ids installed))"

lemma reusable_free: "alloc_inv a \<Longrightarrow> set (reusable installed a) = {m. free_mark installed a m}"
proof -
  assume "alloc_inv a"
  then have ok: "gomap_ok (al_byID a)" by (simp add: alloc_inv_def)
  show ?thesis by (auto simp: reusable_def free_mark_def gomap_in_iff [OF ok] image_iff) blast+
qed

lemma reusable_distinct:
  assumes "alloc_inv a"
  shows "distinct (reusable installed a)"
proof -
  let ?xs = "filter (\<lambda>(k, s). slot_gen s < al_gen a \<and> k \<notin> set (rule_ids installed)) (al_byID a)"
  have d: "distinct (map fst (al_byID a))" using assms by (simp add: alloc_inv_def gomap_ok_def)
  have "inj_on (\<lambda>(k, s). slot_mark s) (set (al_byID a))"
  proof (rule inj_onI)
    fix x y assume "x \<in> set (al_byID a)" "y \<in> set (al_byID a)" "(case x of (k, s) \<Rightarrow> slot_mark s) = (case y of (k, s) \<Rightarrow> slot_mark s)"
    moreover obtain k s j t where "x = (k, s)" "y = (j, t)" by (cases x; cases y)
    ultimately have *: "map_of (al_byID a) k = Some s" "map_of (al_byID a) j = Some t" "slot_mark s = slot_mark t"
      using d by (simp_all add: map_of_eq_Some_iff)
    then have "k = j" using alloc_invD(1) [OF assms] by (metis option.inject)
    with * \<open>x = (k, s)\<close> \<open>y = (j, t)\<close> show "x = y" by simp
  qed
  then have "distinct (map (\<lambda>(k, s). slot_mark s) ?xs)"
    using d by (auto simp: distinct_map intro: inj_on_subset distinct_filter)
  also have "map (\<lambda>(k, s). slot_mark s) ?xs = map fst (map (\<lambda>(k, s). (slot_mark s, slot_gen s)) ?xs)"
    by simp
  finally have "distinct (map fst (map (\<lambda>(k, s). (slot_mark s, slot_gen s)) ?xs))" .
  moreover have "mset (reusable installed a) = mset (map fst (map (\<lambda>(k, s). (slot_mark s, slot_gen s)) ?xs))"
    unfolding reusable_def mset_map mset_sort ..
  ultimately show ?thesis using mset_eq_imp_distinct_iff by blast
qed

definition ru_ok :: "WorkloadPolicy option \<Rightarrow> Allocator \<Rightarrow> nat list option \<Rightarrow> bool" where
  "ru_ok installed a ru = (case ru of None \<Rightarrow> True
     | Some l \<Rightarrow> al_limit a < al_next a \<and> distinct l \<and> (\<forall>m\<in>set l. free_mark installed a m))"

text \<open>What one step of the loop changes, and what it leaves.\<close>

definition step_keeps :: "WorkloadPolicy option \<Rightarrow> Allocator \<Rightarrow> Allocator \<Rightarrow> bool" where
  "step_keeps installed a b = (al_gen b = al_gen a \<and> al_limit b = al_limit a \<and> al_next a \<le> al_next b \<and>
     (\<forall>k s. map_of (al_byID a) k = Some s \<longrightarrow> slot_gen s = al_gen a \<or> k \<in> set (rule_ids installed) \<longrightarrow>
        map_of (al_byID b) k = Some s) \<and>
     (\<forall>m k. map_of (al_byMark a) m = Some k \<longrightarrow> map_of (al_byMark b) m \<noteq> Some k \<longrightarrow> al_limit b < al_next b) \<and>
     (alloc_full a \<longrightarrow> alloc_full b))"

lemma step_keeps_refl: "step_keeps installed a a"
  by (simp add: step_keeps_def)

lemma step_keeps_trans: "step_keeps i a b \<Longrightarrow> step_keeps i b c \<Longrightarrow> step_keeps i a c"
proof -
  assume ab: "step_keeps i a b" and bc: "step_keeps i b c"
  have "al_limit c < al_next c" if m: "map_of (al_byMark a) m = Some k" "map_of (al_byMark c) m \<noteq> Some k" for m k
  proof (cases "map_of (al_byMark b) m = Some k")
    case True
    with bc m(2) show ?thesis unfolding step_keeps_def by blast
  next
    case False
    with ab m have "al_limit b < al_next b" unfolding step_keeps_def by blast
    with bc show ?thesis by (simp add: step_keeps_def)
  qed
  with ab bc show ?thesis unfolding step_keeps_def by auto
qed

lemma step_keeps_take_next:
  assumes "alloc_inv a" and "map_of (al_byID a) k = None" and "al_next a \<le> al_limit a"
  shows "step_keeps i a (take_next k a)"
proof -
  have "\<And>m j. map_of (al_byMark a) m = Some j \<Longrightarrow> m \<noteq> al_next a"
    using alloc_inv_markD [OF assms(1)] alloc_invD(3) [OF assms(1)] by fastforce
  then show ?thesis using alloc_inv_take_next(2) [OF assms] assms(2)
    by (auto simp: step_keeps_def) (auto simp: take_next_def)
qed

lemma step_keeps_take_old:
  assumes "alloc_inv a" and "map_of (al_byID a) k = None" and old: "map_of (al_byID a) old = Some so"
    and "slot_mark so = m" and "slot_gen so < al_gen a" and "old \<notin> set (rule_ids i)" and "al_limit a < al_next a"
  shows "step_keeps i a (take_old m old k a)"
proof -
  have "map_of (al_byMark a) m = Some old" using assms by (auto dest: alloc_invD(1))
  from alloc_inv_take_old(2) [OF assms(1,2) this] assms show ?thesis
    by (auto simp: step_keeps_def) (auto simp: take_old_def)
qed

lemma free_mark_take_old:
  assumes inv: "alloc_inv a" and "map_of (al_byID a) k = None" and old: "map_of (al_byMark a) m = Some old"
    and n: "free_mark i a n" and "n \<noteq> m"
  shows "free_mark i (take_old m old k a) n"
proof -
  from n obtain j s where j: "map_of (al_byID a) j = Some s" "slot_mark s = n" "slot_gen s < al_gen a" "j \<notin> set (rule_ids i)"
    by (auto simp: free_mark_def)
  have "j \<noteq> old" using alloc_inv_markD [OF inv old] j(1,2) \<open>n \<noteq> m\<close> by auto
  moreover have "j \<noteq> k" using j assms(2) by auto
  ultimately show ?thesis using j unfolding free_mark_def
    by (intro exI [of _ j] exI [of _ s]) (simp add: take_old_def)
qed


lemma give_next:
  "al_next a \<le> al_limit a \<Longrightarrow> give i n (k # ks) ru a out =
     give i n ks ru (take_next k a) (AList.update k (al_next a) out)"
  by (simp add: take_next_def)

lemma give_old:
  assumes "\<not> al_next a \<le> al_limit a" and "(case ru of Some l \<Rightarrow> l | None \<Rightarrow> reusable i a) = m # rest"
    and "map_of (al_byMark a) m = Some old"
  shows "give i n (k # ks) ru a out = give i n ks (Some rest) (take_old m old k a) (AList.update k m out)"
  using assms by (simp add: take_old_def)

lemma ru_ok_list:
  assumes "alloc_inv a" and "ru_ok i a ru" and "al_limit a < al_next a"
  shows "ru_ok i a (Some (case ru of Some l \<Rightarrow> l | None \<Rightarrow> reusable i a))"
  using assms by (cases ru) (simp_all add: ru_ok_def reusable_free reusable_distinct)

lemma ru_ok_take_next: "al_next a \<le> al_limit a \<Longrightarrow> ru_ok i a ru \<Longrightarrow> ru_ok i (take_next k a) ru"
  by (cases ru) (simp_all add: ru_ok_def)

definition given :: "string list \<Rightarrow> Allocator \<Rightarrow> (string, nat) gomap \<Rightarrow> (string, nat) gomap \<Rightarrow> bool" where
  "given ks a out out' = ((\<forall>k\<in>set ks. \<exists>s. map_of (al_byID a) k = Some s \<and> slot_gen s = al_gen a \<and>
      map_of out' k = Some (slot_mark s)) \<and> (\<forall>k. k \<notin> set ks \<longrightarrow> map_of out' k = map_of out k))"

lemma given_Cons:
  assumes "given ks b (AList.update k m out) out'" and "k \<notin> set ks" and "step_keeps i a b"
    and "map_of (al_byID a) k = Some \<lparr>slot_mark = m, slot_gen = al_gen a\<rparr>"
  shows "given (k # ks) b out out'"
proof -
  have "map_of (al_byID b) k = Some \<lparr>slot_mark = m, slot_gen = al_gen a\<rparr>" "al_gen b = al_gen a"
    using assms(3,4) by (simp_all add: step_keeps_def)
  with assms(1,2) show ?thesis by (auto simp: given_def)
qed

lemma give_ok:
  "alloc_inv a \<Longrightarrow> distinct ks \<Longrightarrow> \<forall>k\<in>set ks. map_of (al_byID a) k = None \<Longrightarrow> ru_ok i a ru \<Longrightarrow>
   give i n ks ru a out = Inr (out', b) \<Longrightarrow> alloc_inv b \<and> step_keeps i a b \<and> given ks b out out'"
proof (induction ks arbitrary: ru a out)
  case Nil
  then show ?case by (simp add: step_keeps_refl given_def)
next
  case (Cons k ks)
  note inv = Cons.prems(1)
  have fresh: "map_of (al_byID a) k = None" "k \<notin> set ks" using Cons.prems by auto
  show ?case
  proof (cases "al_next a \<le> al_limit a")
    case True
    let ?a = "take_next k a"
    have k: "map_of (al_byID ?a) k = Some \<lparr>slot_mark = al_next a, slot_gen = al_gen ?a\<rparr>" by (simp add: take_next_def)
    have keep: "step_keeps i a ?a" by (rule step_keeps_take_next [OF inv fresh(1) True])
    have "alloc_inv b \<and> step_keeps i ?a b \<and> given ks b (AList.update k (al_next a) out) out'"
    proof (rule Cons.IH)
      show "alloc_inv ?a" by (rule alloc_inv_take_next(1) [OF inv fresh(1) True])
      show "\<forall>k\<in>set ks. map_of (al_byID ?a) k = None" using Cons.prems(2,3) by (auto simp: take_next_def)
      show "ru_ok i ?a ru" by (rule ru_ok_take_next [OF True Cons.prems(4)])
      show "give i n ks ru ?a (AList.update k (al_next a) out) = Inr (out', b)"
        using Cons.prems(5) unfolding give_next [OF True] .
    qed (use Cons.prems(2) in simp)
    with keep k fresh(2) show ?thesis by (meson given_Cons step_keeps_trans)
  next
    case False
    then have ru: "ru_ok i a (Some (case ru of Some l \<Rightarrow> l | None \<Rightarrow> reusable i a))"
      using ru_ok_list [OF inv Cons.prems(4)] by simp
    then obtain m rest where l: "(case ru of Some l \<Rightarrow> l | None \<Rightarrow> reusable i a) = m # rest"
      using Cons.prems(5) False by (cases "case ru of Some l \<Rightarrow> l | None \<Rightarrow> reusable i a") simp_all
    with ru obtain old so where old: "map_of (al_byID a) old = Some so" "slot_mark so = m" "slot_gen so < al_gen a"
      "old \<notin> set (rule_ids i)" by (auto simp: ru_ok_def free_mark_def)
    have mk: "map_of (al_byMark a) m = Some old" using alloc_invD(1) [OF inv old(1)] old(2) by simp
    let ?a = "take_old m old k a"
    have k: "map_of (al_byID ?a) k = Some \<lparr>slot_mark = m, slot_gen = al_gen ?a\<rparr>" by (simp add: take_old_def)
    have keep: "step_keeps i a ?a"
      using False by (intro step_keeps_take_old [OF inv fresh(1) old]) simp
    have "alloc_inv b \<and> step_keeps i ?a b \<and> given ks b (AList.update k m out) out'"
    proof (rule Cons.IH)
      show "alloc_inv ?a" by (rule alloc_inv_take_old(1) [OF inv fresh(1) mk])
      show "\<forall>k\<in>set ks. map_of (al_byID ?a) k = None" using Cons.prems(2,3) by (auto simp: take_old_def)
      show "ru_ok i ?a (Some rest)"
        using ru l False free_mark_take_old [OF inv fresh(1) mk] by (auto simp: ru_ok_def) (simp_all add: take_old_def)
      show "give i n ks (Some rest) ?a (AList.update k m out) = Inr (out', b)"
        using Cons.prems(5) unfolding give_old [OF False l mk] .
    qed (use Cons.prems(2) in simp)
    with keep k fresh(2) show ?thesis by (meson given_Cons step_keeps_trans)
  qed
qed

text \<open>When the loop runs out: all values handed out and too few of them free.\<close>

lemma give_total:
  "alloc_inv a \<Longrightarrow> distinct ks \<Longrightarrow> \<forall>k\<in>set ks. map_of (al_byID a) k = None \<Longrightarrow> ru_ok i a ru \<Longrightarrow>
   length ks \<le> (Suc (al_limit a) - al_next a) + (case ru of Some l \<Rightarrow> length l | None \<Rightarrow> length (reusable i a)) \<Longrightarrow>
   \<exists>out' b. give i n ks ru a out = Inr (out', b)"
proof (induction ks arbitrary: ru a out)
  case Nil
  then show ?case by simp
next
  case (Cons k ks)
  note inv = Cons.prems(1)
  have fresh: "map_of (al_byID a) k = None" using Cons.prems by auto
  show ?case
  proof (cases "al_next a \<le> al_limit a")
    case True
    let ?a = "take_next k a"
    have inv': "alloc_inv ?a" by (rule alloc_inv_take_next(1) [OF inv fresh True])
    have "free_mark i ?a m \<longleftrightarrow> free_mark i a m" for m
    proof -
      have "map_of (al_byID ?a) j = Some s \<and> slot_gen s < al_gen ?a \<longleftrightarrow> map_of (al_byID a) j = Some s \<and> slot_gen s < al_gen a" for j s
        using fresh by (auto simp: take_next_def)
      then show ?thesis unfolding free_mark_def by metis
    qed
    then have "set (reusable i ?a) = set (reusable i a)"
      by (simp add: reusable_free [OF inv] reusable_free [OF inv'])
    then have "length (reusable i ?a) = length (reusable i a)"
      using reusable_distinct [OF inv, of i] reusable_distinct [OF inv', of i] distinct_card by metis
    moreover have "al_limit ?a = al_limit a" "al_next ?a = Suc (al_next a)" by (simp_all add: take_next_def)
    ultimately have "\<exists>out' b. give i n ks ru ?a (AList.update k (al_next a) out) = Inr (out', b)"
      using Cons.prems True inv' ru_ok_take_next [OF True Cons.prems(4)]
      by (intro Cons.IH) (auto simp: take_next_def split: option.splits)
    then show ?thesis unfolding give_next [OF True] .
  next
    case False
    let ?l = "case ru of Some l \<Rightarrow> l | None \<Rightarrow> reusable i a"
    have ru: "ru_ok i a (Some ?l)" using ru_ok_list [OF inv Cons.prems(4)] False by simp
    have "length (k # ks) \<le> length ?l" using Cons.prems(5) False by (cases ru) simp_all
    then obtain m rest where l: "?l = m # rest" "length ks \<le> length rest" by (cases ?l) simp_all
    with ru obtain old so where old: "map_of (al_byID a) old = Some so" "slot_mark so = m"
      by (auto simp: ru_ok_def free_mark_def)
    have mk: "map_of (al_byMark a) m = Some old" using alloc_invD(1) [OF inv old(1)] old(2) by simp
    let ?a = "take_old m old k a"
    have "\<exists>out' b. give i n ks (Some rest) ?a (AList.update k m out) = Inr (out', b)"
    proof (rule Cons.IH)
      show "alloc_inv ?a" by (rule alloc_inv_take_old(1) [OF inv fresh mk])
      show "\<forall>k\<in>set ks. map_of (al_byID ?a) k = None" using Cons.prems(2,3) by (auto simp: take_old_def)
      show "ru_ok i ?a (Some rest)"
        using ru l False free_mark_take_old [OF inv fresh mk] by (auto simp: ru_ok_def) (simp_all add: take_old_def)
    qed (use Cons.prems(2) l(2) in simp_all)
    then show ?thesis unfolding give_old [OF False l(1) mk] .
  qed
qed


section \<open>Allocate\<close>

lemma rule_ids_Canonical:
  "distinct (rule_ids (Some (Canonical p)))" "set (rule_ids (Some (Canonical p))) = set (rule_ids p)"
proof -
  have d: "distinct (map rule_id (inbound_rules (Canonical p)))" using is_canonical_Canonical is_canonical_def by blast
  then show "distinct (rule_ids (Some (Canonical p)))" by (simp add: rule_ids_def)
  have "set (rule_ids (Some (Canonical p))) = dom (map_of (indexRules (Canonical p)))"
    by (simp add: rule_ids_def indexRules_def)
  also have "\<dots> = set (rule_ids p)" unfolding ids_of_Canonical by (cases p) (simp_all add: rule_ids_def)
  finally show "set (rule_ids (Some (Canonical p))) = set (rule_ids p)" .
qed

text \<open>What an allocation promises of the allocator it leaves and the values it returns.\<close>

definition allocates :: "WorkloadPolicy option \<Rightarrow> WorkloadPolicy option \<Rightarrow> Allocator \<Rightarrow> Allocator \<Rightarrow> (string, nat) gomap \<Rightarrow> bool" where
  "allocates nxt installed a b marks = (alloc_inv b \<and> al_limit b = al_limit a \<and> al_next a \<le> al_next b \<and>
     (\<forall>k\<in>set (rule_ids nxt). map_of marks k \<noteq> None \<and> map_of marks k = Alloc_Mark b k) \<and>
     (\<forall>k. k \<notin> set (rule_ids nxt) \<longrightarrow> map_of marks k = None) \<and>
     (\<forall>k\<in>set (rule_ids nxt) \<union> set (rule_ids installed). Alloc_Mark a k \<noteq> None \<longrightarrow> Alloc_Mark b k = Alloc_Mark a k) \<and>
     (\<forall>m k. Alloc_Rule a m = Some k \<longrightarrow> Alloc_Rule b m \<noteq> Some k \<longrightarrow> al_limit b < al_next b) \<and>
     (alloc_full a \<longrightarrow> alloc_full b))"

lemma Allocate_start:
  assumes "alloc_inv a"
  obtains a1 out fresh where
    "fold touch (rule_ids (Some (Canonical nxt))) (a\<lparr>al_gen := Suc (al_gen a)\<rparr>, [], []) = (a1, out, fresh)"
    "fresh = filter (\<lambda>k. map_of (al_byID a) k = None) (rule_ids (Some (Canonical nxt)))"
    "alloc_inv a1" "al_next a1 = al_next a" "al_limit a1 = al_limit a" "al_gen a1 = Suc (al_gen a)" "al_byMark a1 = al_byMark a"
    "\<And>k. map_of (al_byID a1) k = (if k \<in> set (rule_ids nxt) then map_option (\<lambda>s. s\<lparr>slot_gen := Suc (al_gen a)\<rparr>) (map_of (al_byID a) k)
      else map_of (al_byID a) k)"
    "\<And>k. map_of out k = (if k \<in> set (rule_ids nxt) then Alloc_Mark a k else None)"
proof -
  let ?a = "a\<lparr>al_gen := Suc (al_gen a)\<rparr>" and ?ks = "rule_ids (Some (Canonical nxt))"
  have same: "al_byID ?a = al_byID a" "al_gen ?a = Suc (al_gen a)" "al_next ?a = al_next a" "al_limit ?a = al_limit a"
    "al_byMark ?a = al_byMark a" "Alloc_Mark ?a k = Alloc_Mark a k" for k
    by (simp_all add: Alloc_Mark_def)
  from fold_touch [OF alloc_inv_gen [OF assms] rule_ids_Canonical(1), of nxt, unfolded same rule_ids_Canonical(2)]
  obtain a1 out where
    "fold touch ?ks (?a, [], []) = (a1, out, filter (\<lambda>k. map_of (al_byID a) k = None) ?ks)"
    "alloc_inv a1" "al_next a1 = al_next a" "al_limit a1 = al_limit a" "al_gen a1 = Suc (al_gen a)" "al_byMark a1 = al_byMark a"
    "\<forall>k. map_of (al_byID a1) k = (if k \<in> set (rule_ids nxt) then map_option (\<lambda>s. s\<lparr>slot_gen := Suc (al_gen a)\<rparr>) (map_of (al_byID a) k)
      else map_of (al_byID a) k)"
    "\<forall>k. map_of out k = (if k \<in> set (rule_ids nxt) then Alloc_Mark a k else None)"
    by blast
  then show thesis by (intro that [of a1 out]) simp_all
qed

lemma Allocate_ok:
  assumes inv: "alloc_inv a" and run: "Allocate nxt installed a = Inr (marks, b)"
  shows "allocates nxt installed a b marks"
proof -
  obtain a1 out fresh where s: "fold touch (rule_ids (Some (Canonical nxt))) (a\<lparr>al_gen := Suc (al_gen a)\<rparr>, [], []) = (a1, out, fresh)"
    "fresh = filter (\<lambda>k. map_of (al_byID a) k = None) (rule_ids (Some (Canonical nxt)))"
    "alloc_inv a1" "al_next a1 = al_next a" "al_limit a1 = al_limit a" "al_gen a1 = Suc (al_gen a)" "al_byMark a1 = al_byMark a"
    and ids: "\<And>k. map_of (al_byID a1) k = (if k \<in> set (rule_ids nxt) then map_option (\<lambda>s. s\<lparr>slot_gen := Suc (al_gen a)\<rparr>) (map_of (al_byID a) k)
      else map_of (al_byID a) k)"
    and out: "\<And>k. map_of out k = (if k \<in> set (rule_ids nxt) then Alloc_Mark a k else None)"
    by (rule Allocate_start [OF inv, of nxt]) blast
  have fr: "set fresh = {k \<in> set (rule_ids nxt). map_of (al_byID a) k = None}" "distinct fresh"
    using s(2) rule_ids_Canonical [of nxt] by auto
  from run s(1) have g: "give installed (length fresh) fresh None a1 out = Inr (marks, b)" by (simp add: Allocate_def)
  have "\<forall>k\<in>set fresh. map_of (al_byID a1) k = None" using fr ids by simp
  with give_ok [OF s(3) fr(2) _ _ g] have b: "alloc_inv b" "step_keeps installed a1 b" "given fresh b out marks"
    by (simp_all add: ru_ok_def)
  have same: "Alloc_Mark a1 k = Alloc_Mark a k" for k by (cases "map_of (al_byID a) k") (simp_all add: Alloc_Mark_def ids)
  have keep: "Alloc_Mark b k = Alloc_Mark a k" if "k \<in> set (rule_ids nxt) \<union> set (rule_ids installed)" "Alloc_Mark a k \<noteq> None" for k
  proof -
    from that obtain s0 where s0: "map_of (al_byID a) k = Some s0" by (auto simp: Alloc_Mark_def)
    obtain sl where "map_of (al_byID a1) k = Some sl" "slot_gen sl = al_gen a1 \<or> k \<in> set (rule_ids installed)"
    proof (cases "k \<in> set (rule_ids nxt)")
      case True
      then show thesis by (intro that [of "s0\<lparr>slot_gen := Suc (al_gen a)\<rparr>"]) (simp_all add: ids s(6) s0)
    next
      case False
      with \<open>k \<in> set (rule_ids nxt) \<union> set (rule_ids installed)\<close> show thesis
        by (intro that [of s0]) (simp_all add: ids s0)
    qed
    with b(2) have "map_of (al_byID b) k = map_of (al_byID a1) k" by (auto simp: step_keeps_def)
    then show ?thesis using same [of k] by (simp add: Alloc_Mark_def)
  qed
  have marks: "map_of marks k \<noteq> None \<and> map_of marks k = Alloc_Mark b k" if "k \<in> set (rule_ids nxt)" for k
  proof (cases "map_of (al_byID a) k")
    case None
    with that fr b(3) show ?thesis by (force simp: given_def Alloc_Mark_def)
  next
    case (Some sl)
    then have "k \<notin> set fresh" using fr by simp
    then have "map_of marks k = Alloc_Mark a k" using b(3) that by (simp add: given_def out)
    with keep [of k] Some that show ?thesis by (auto simp: Alloc_Mark_def)
  qed
  have "map_of marks k = None" if "k \<notin> set (rule_ids nxt)" for k
    using that b(3) fr by (simp add: given_def out)
  moreover have "alloc_full a \<longrightarrow> alloc_full b" using b(2) s(4,7) by (simp add: step_keeps_def alloc_full_def)
  moreover have "al_limit b = al_limit a" "al_next a \<le> al_next b" using b(2) s(4,5) by (simp_all add: step_keeps_def)
  moreover have "\<forall>m k. Alloc_Rule a m = Some k \<longrightarrow> Alloc_Rule b m \<noteq> Some k \<longrightarrow> al_limit b < al_next b"
    using b(2) unfolding step_keeps_def Alloc_Rule_def s(7) by blast
  ultimately show ?thesis unfolding allocates_def using b(1) marks keep by blast
qed

text \<open>Allocation succeeds when the incoming and installed rules together fit the region.\<close>

lemma card_ids_full:
  assumes inv: "alloc_inv a" and "alloc_full a"
  shows "card (dom (map_of (al_byID a))) = al_next a - 1"
proof -
  have "bij_betw (\<lambda>m. the (map_of (al_byMark a) m)) (dom (map_of (al_byMark a))) (dom (map_of (al_byID a)))"
  proof (rule bij_betwI')
    fix m n assume "m \<in> dom (map_of (al_byMark a))" "n \<in> dom (map_of (al_byMark a))"
    then show "(the (map_of (al_byMark a) m) = the (map_of (al_byMark a) n)) = (m = n)"
      using alloc_inv_markD [OF inv] by (metis domD option.inject option.sel)
  next
    fix m assume "m \<in> dom (map_of (al_byMark a))"
    then show "the (map_of (al_byMark a) m) \<in> dom (map_of (al_byID a))" using alloc_inv_markD [OF inv] by fastforce
  next
    fix k assume "k \<in> dom (map_of (al_byID a))"
    then obtain s where "map_of (al_byID a) k = Some s" by blast
    then have "map_of (al_byMark a) (slot_mark s) = Some k" by (rule alloc_invD(1) [OF inv])
    then show "\<exists>m\<in>dom (map_of (al_byMark a)). k = the (map_of (al_byMark a) m)"
      by (intro bexI [of _ "slot_mark s"]) auto
  qed
  then have "card (dom (map_of (al_byMark a))) = card (dom (map_of (al_byID a)))" by (rule bij_betw_same_card)
  with assms(2) show ?thesis by (simp add: alloc_full_def)
qed

lemma length_reusable:
  assumes inv: "alloc_inv a"
  shows "length (reusable i a) = card {k. \<exists>s. map_of (al_byID a) k = Some s \<and> slot_gen s < al_gen a \<and> k \<notin> set (rule_ids i)}"
    (is "_ = card ?K")
proof -
  have "inj_on (\<lambda>k. the (Alloc_Mark a k)) ?K"
  proof (rule inj_onI)
    fix x y assume "x \<in> ?K" "y \<in> ?K" "the (Alloc_Mark a x) = the (Alloc_Mark a y)"
    then obtain s t where "map_of (al_byID a) x = Some s" "map_of (al_byID a) y = Some t" "slot_mark s = slot_mark t"
      by (auto simp: Alloc_Mark_def)
    then show "x = y" using alloc_invD(1) [OF inv] by (metis option.inject)
  qed
  moreover have "(\<lambda>k. the (Alloc_Mark a k)) ` ?K = set (reusable i a)"
  proof (rule set_eqI)
    fix m
    have "m \<in> (\<lambda>k. the (Alloc_Mark a k)) ` ?K \<longleftrightarrow> (\<exists>k\<in>?K. m = the (Alloc_Mark a k))" by blast
    also have "\<dots> \<longleftrightarrow> (\<exists>k s. map_of (al_byID a) k = Some s \<and> slot_gen s < al_gen a \<and> k \<notin> set (rule_ids i) \<and> m = slot_mark s)"
    proof -
      have "k \<in> ?K \<and> m = the (Alloc_Mark a k) \<longleftrightarrow>
          (\<exists>s. map_of (al_byID a) k = Some s \<and> slot_gen s < al_gen a \<and> k \<notin> set (rule_ids i) \<and> m = slot_mark s)" for k
        by (cases "map_of (al_byID a) k") (simp_all add: Alloc_Mark_def)
      then show ?thesis by (simp only: Bex_def)
    qed
    also have "\<dots> \<longleftrightarrow> free_mark i a m" unfolding free_mark_def by blast
    finally show "m \<in> (\<lambda>k. the (Alloc_Mark a k)) ` ?K \<longleftrightarrow> m \<in> set (reusable i a)" by (simp add: reusable_free [OF inv])
  qed
  ultimately have "card (set (reusable i a)) = card ?K" using card_image [of "\<lambda>k. the (Alloc_Mark a k)" ?K] by simp
  moreover have "card (set (reusable i a)) = length (reusable i a)" by (rule distinct_card [OF reusable_distinct [OF inv]])
  ultimately show ?thesis by simp
qed

lemma Allocate_total:
  assumes inv: "alloc_inv a" and full: "alloc_full a"
    and fits: "card (set (rule_ids nxt) \<union> set (rule_ids installed)) \<le> al_limit a"
  shows "\<exists>marks b. Allocate nxt installed a = Inr (marks, b)"
proof -
  obtain a1 out fresh where s: "fold touch (rule_ids (Some (Canonical nxt))) (a\<lparr>al_gen := Suc (al_gen a)\<rparr>, [], []) = (a1, out, fresh)"
    "fresh = filter (\<lambda>k. map_of (al_byID a) k = None) (rule_ids (Some (Canonical nxt)))"
    "alloc_inv a1" "al_next a1 = al_next a" "al_limit a1 = al_limit a" "al_gen a1 = Suc (al_gen a)" "al_byMark a1 = al_byMark a"
    and ids: "\<And>k. map_of (al_byID a1) k = (if k \<in> set (rule_ids nxt) then map_option (\<lambda>s. s\<lparr>slot_gen := Suc (al_gen a)\<rparr>) (map_of (al_byID a) k)
      else map_of (al_byID a) k)"
    by (rule Allocate_start [OF inv, of nxt]) blast
  let ?N = "set (rule_ids nxt)" and ?I = "set (rule_ids installed)" and ?D = "dom (map_of (al_byID a))"
  have fr: "set fresh = ?N - ?D" "distinct fresh" using s(2) rule_ids_Canonical [of nxt] by auto
  have "{k. \<exists>s. map_of (al_byID a1) k = Some s \<and> slot_gen s < al_gen a1 \<and> k \<notin> ?I} = ?D - (?N \<union> ?I)"
    using alloc_invD(4) [OF inv] by (force simp: ids s(6) split: if_splits)
  then have free: "length (reusable installed a1) = card (?D - (?N \<union> ?I))" by (simp add: length_reusable [OF s(3)])
  have fin: "finite ?D" "finite (?N \<union> ?I)" by (simp_all add: finite_dom_map_of)
  have "card (?N - ?D) + card (?D \<inter> (?N \<union> ?I)) \<le> card (?N \<union> ?I)"
  proof -
    have "card (?N - ?D) + card (?D \<inter> (?N \<union> ?I)) = card ((?N - ?D) \<union> (?D \<inter> (?N \<union> ?I)))"
      by (rule card_Un_disjoint [symmetric]) (use fin in auto)
    also have "\<dots> \<le> card (?N \<union> ?I)" by (rule card_mono) (use fin in auto)
    finally show ?thesis .
  qed
  moreover have "card ?D = card (?D - (?N \<union> ?I)) + card (?D \<inter> (?N \<union> ?I))"
  proof -
    have "card (?D - (?N \<union> ?I)) = card ?D - card (?D \<inter> (?N \<union> ?I))"
      using fin by (intro card_Diff_subset_Int) simp
    moreover have "card (?D \<inter> (?N \<union> ?I)) \<le> card ?D" using fin by (intro card_mono) auto
    ultimately show ?thesis by simp
  qed
  moreover have "card ?D = al_next a - 1" by (rule card_ids_full [OF inv full])
  moreover have "length fresh = card (?N - ?D)" using distinct_card [OF fr(2)] fr(1) by simp
  moreover have "1 \<le> al_next a" "al_next a \<le> Suc (al_limit a)" using inv by (simp_all add: alloc_inv_def)
  ultimately have "length fresh \<le> (Suc (al_limit a1) - al_next a1) + length (reusable installed a1)"
    using fits free s(4,5) by linarith
  moreover have "\<forall>k\<in>set fresh. map_of (al_byID a1) k = None" using fr(1) by (auto simp: ids domIff)
  ultimately have "\<exists>out' b. give installed (length fresh) fresh None a1 out = Inr (out', b)"
    using give_total [OF s(3) fr(2)] by (simp add: ru_ok_def)
  with s(1) show ?thesis by (simp add: Allocate_def)
qed


section \<open>The persisted allocation\<close>

text \<open>
  JSON encoding and decoding of the file's body and SHA-256 are parameters: \<open>enc\<close>, \<open>dec\<close>
  and \<open>sha\<close>. What reading the path gives is \<open>None\<close> when there is no file.
\<close>

record marksRule =
  mr_id :: string
  mr_mark :: nat
  mr_generation :: nat

record marksFile =
  mf_next :: nat
  mf_generation :: nat
  mf_rules :: "marksRule list"

datatype load_error = ReadError | CorruptHeader | CorruptChecksum | CorruptJSON | CorruptNext nat | CorruptRule string

definition marksMagic :: string where
  "marksMagic = ''innerwall-marks-v1'' @ [CHR 0x0A]"

definition sha256_Size :: nat where
  "sha256_Size = 32"

definition marks_file :: "Allocator \<Rightarrow> marksFile" where
  "marks_file a = \<lparr>mf_next = al_next a, mf_generation = al_gen a,
     mf_rules = sort_key mr_mark (map (\<lambda>(k, s). \<lparr>mr_id = k, mr_mark = slot_mark s, mr_generation = slot_gen s\<rparr>) (al_byID a))\<rparr>"

definition Alloc_Save :: "(marksFile \<Rightarrow> string) \<Rightarrow> (string \<Rightarrow> string) \<Rightarrow> Allocator \<Rightarrow> string" where
  "Alloc_Save enc sha a = (let body = enc (marks_file a) in marksMagic @ body @ sha body)"

fun load_rules :: "marksRule list \<Rightarrow> Allocator \<Rightarrow> (load_error, Allocator) result" where
  "load_rules [] a = Inr a"
| "load_rules (r # rs) a =
     (if mr_mark r < 1 \<or> al_next a \<le> mr_mark r \<or> al_gen a < mr_generation r \<or>
         map_of (al_byID a) (mr_id r) \<noteq> None \<or> map_of (al_byMark a) (mr_mark r) \<noteq> None
      then Inl (CorruptRule (mr_id r))
      else load_rules rs (a\<lparr>al_byID := AList.update (mr_id r) \<lparr>slot_mark = mr_mark r, slot_gen = mr_generation r\<rparr> (al_byID a),
             al_byMark := AList.update (mr_mark r) (mr_id r) (al_byMark a)\<rparr>))"

definition loadAllocator :: "(string \<Rightarrow> marksFile option) \<Rightarrow> (string \<Rightarrow> string) \<Rightarrow> (load_error, string option) result
    \<Rightarrow> nat \<Rightarrow> (load_error, Allocator option) result" where
  "loadAllocator dec sha contents limit = bind_result contents (\<lambda>c. case c of None \<Rightarrow> Inr None
     | Some data \<Rightarrow>
        if length data < length marksMagic + sha256_Size \<or> take (length marksMagic) data \<noteq> marksMagic then Inl CorruptHeader
        else let body = take (length data - sha256_Size - length marksMagic) (drop (length marksMagic) data) in
          if sha body \<noteq> drop (length data - sha256_Size) data then Inl CorruptChecksum
          else case dec body of None \<Rightarrow> Inl CorruptJSON
            | Some f \<Rightarrow>
               if mf_next f < 1 \<or> limit + 1 < mf_next f then Inl (CorruptNext (mf_next f))
               else bind_result (load_rules (mf_rules f) ((newAllocator limit)\<lparr>al_next := mf_next f, al_gen := mf_generation f\<rparr>))
                 (\<lambda>a. Inr (Some a)))"

lemma load_rules_inv:
  "alloc_inv a \<Longrightarrow> load_rules rs a = Inr b \<Longrightarrow> alloc_inv b \<and> al_limit b = al_limit a \<and> al_next b = al_next a"
proof (induction rs arbitrary: a)
  case (Cons r rs)
  let ?a = "a\<lparr>al_byID := AList.update (mr_id r) \<lparr>slot_mark = mr_mark r, slot_gen = mr_generation r\<rparr> (al_byID a),
     al_byMark := AList.update (mr_mark r) (mr_id r) (al_byMark a)\<rparr>"
  from Cons.prems(2) have ok: "1 \<le> mr_mark r" "mr_mark r < al_next a" "mr_generation r \<le> al_gen a"
    "map_of (al_byID a) (mr_id r) = None" "map_of (al_byMark a) (mr_mark r) = None" "load_rules rs ?a = Inr b"
    by (simp_all split: if_splits)
  have "alloc_inv ?a"
    unfolding alloc_inv_def
  proof (intro conjI allI impI)
    fix k s assume "map_of (al_byID ?a) k = Some s"
    then consider "k = mr_id r" "s = \<lparr>slot_mark = mr_mark r, slot_gen = mr_generation r\<rparr>" | "k \<noteq> mr_id r" "map_of (al_byID a) k = Some s"
      by (auto split: if_splits)
    then have "map_of (al_byMark ?a) (slot_mark s) = Some k \<and> 1 \<le> slot_mark s \<and> slot_mark s < al_next a \<and> slot_gen s \<le> al_gen a"
      using alloc_invD [OF Cons.prems(1), of k s] ok by cases auto
    then show "map_of (al_byMark ?a) (slot_mark s) = Some k" "1 \<le> slot_mark s" "slot_mark s < al_next ?a" "slot_gen s \<le> al_gen ?a"
      by simp_all
  next
    fix m k assume "map_of (al_byMark ?a) m = Some k"
    then show "Alloc_Mark ?a k = Some m"
      using alloc_inv_markD [OF Cons.prems(1), of m k] ok by (auto simp: Alloc_Mark_def split: if_splits)
  qed (use Cons.prems(1) in \<open>simp_all add: alloc_inv_def\<close>)
  from Cons.IH [OF this ok(6)] show ?case by simp
qed simp

lemma load_rules_complete:
  "distinct (map mr_id rs) \<Longrightarrow> distinct (map mr_mark rs) \<Longrightarrow>
   \<forall>r\<in>set rs. 1 \<le> mr_mark r \<and> mr_mark r < al_next a \<and> mr_generation r \<le> al_gen a \<and>
     map_of (al_byID a) (mr_id r) = None \<and> map_of (al_byMark a) (mr_mark r) = None \<Longrightarrow>
   \<exists>b. load_rules rs a = Inr b \<and> al_next b = al_next a \<and> al_gen b = al_gen a \<and> al_limit b = al_limit a \<and>
     (\<forall>k. map_of (al_byID b) k = (case map_of (map (\<lambda>r. (mr_id r, \<lparr>slot_mark = mr_mark r, slot_gen = mr_generation r\<rparr>)) rs) k of
        Some s \<Rightarrow> Some s | None \<Rightarrow> map_of (al_byID a) k))"
proof (induction rs arbitrary: a)
  case (Cons r rs)
  let ?a = "a\<lparr>al_byID := AList.update (mr_id r) \<lparr>slot_mark = mr_mark r, slot_gen = mr_generation r\<rparr> (al_byID a),
     al_byMark := AList.update (mr_mark r) (mr_id r) (al_byMark a)\<rparr>"
  have step: "load_rules (r # rs) a = load_rules rs ?a" using Cons.prems(3) by simp
  have "\<forall>q\<in>set rs. 1 \<le> mr_mark q \<and> mr_mark q < al_next ?a \<and> mr_generation q \<le> al_gen ?a \<and>
     map_of (al_byID ?a) (mr_id q) = None \<and> map_of (al_byMark ?a) (mr_mark q) = None"
  proof
    fix q assume q: "q \<in> set rs"
    then have "mr_id q \<noteq> mr_id r" "mr_mark q \<noteq> mr_mark r" using Cons.prems(1,2)
      by (simp_all add: image_iff) metis+
    with q Cons.prems(3) show "1 \<le> mr_mark q \<and> mr_mark q < al_next ?a \<and> mr_generation q \<le> al_gen ?a \<and>
      map_of (al_byID ?a) (mr_id q) = None \<and> map_of (al_byMark ?a) (mr_mark q) = None" by simp
  qed
  moreover have "distinct (map mr_id rs)" "distinct (map mr_mark rs)" using Cons.prems by simp_all
  ultimately obtain b where b: "load_rules rs ?a = Inr b" "al_next b = al_next ?a" "al_gen b = al_gen ?a" "al_limit b = al_limit ?a"
    "\<forall>k. map_of (al_byID b) k = (case map_of (map (\<lambda>r. (mr_id r, \<lparr>slot_mark = mr_mark r, slot_gen = mr_generation r\<rparr>)) rs) k of
        Some s \<Rightarrow> Some s | None \<Rightarrow> map_of (al_byID ?a) k)"
    using Cons.IH [of ?a] by blast
  have "map_of (map (\<lambda>r. (mr_id r, \<lparr>slot_mark = mr_mark r, slot_gen = mr_generation r\<rparr>)) rs) (mr_id r) = None"
    using Cons.prems(1) by (simp add: map_of_eq_None_iff image_image)
  with b(5) have "map_of (al_byID b) k = (case map_of (map (\<lambda>r. (mr_id r, \<lparr>slot_mark = mr_mark r, slot_gen = mr_generation r\<rparr>)) (r # rs)) k of
      Some s \<Rightarrow> Some s | None \<Rightarrow> map_of (al_byID a) k)" for k
    by (cases "k = mr_id r") (simp_all split: option.split)
  with b(1-4) show ?case by (intro exI [of _ b]) (simp add: step del: load_rules.simps)
qed simp

lemma case_Some_id: "(case x of Some s \<Rightarrow> Some s | None \<Rightarrow> None) = x"
  by (cases x) simp_all

lemma slot_eta: "\<lparr>slot_mark = slot_mark s, slot_gen = slot_gen s\<rparr> = s"
  by (cases s) simp

lemma load_header:
  assumes "length (sha body) = sha256_Size"
  shows "loadAllocator dec sha (Inr (Some (marksMagic @ body @ sha body))) limit =
    (case dec body of None \<Rightarrow> Inl CorruptJSON
     | Some f \<Rightarrow> if mf_next f < 1 \<or> limit + 1 < mf_next f then Inl (CorruptNext (mf_next f))
         else bind_result (load_rules (mf_rules f) ((newAllocator limit)\<lparr>al_next := mf_next f, al_gen := mf_generation f\<rparr>))
           (\<lambda>a. Inr (Some a)))"
  using assms by (simp add: loadAllocator_def Let_def)

lemma load_Save:
  assumes inv: "alloc_inv a" and "dec (enc (marks_file a)) = Some (marks_file a)"
    and "length (sha (enc (marks_file a))) = sha256_Size"
  shows "\<exists>b. loadAllocator dec sha (Inr (Some (Alloc_Save enc sha a))) (al_limit a) = Inr (Some b) \<and>
    al_next b = al_next a \<and> al_gen b = al_gen a \<and> al_limit b = al_limit a \<and>
    map_of (al_byID b) = map_of (al_byID a) \<and> map_of (al_byMark b) = map_of (al_byMark a)"
proof -
  let ?f = "\<lambda>(k, s). \<lparr>mr_id = k, mr_mark = slot_mark s, mr_generation = slot_gen s\<rparr>"
  let ?rs = "mf_rules (marks_file a)"
  let ?a = "(newAllocator (al_limit a))\<lparr>al_next := al_next a, al_gen := al_gen a\<rparr>"
  have ok: "gomap_ok (al_byID a)" "gomap_ok (al_byMark a)" "1 \<le> al_next a" "al_next a \<le> Suc (al_limit a)"
    using inv by (simp_all add: alloc_inv_def)
  have rs: "mset ?rs = mset (map ?f (al_byID a))" by (simp add: marks_file_def)
  have "mset (map mr_id ?rs) = image_mset mr_id (mset (map ?f (al_byID a)))" using rs by simp
  also have "\<dots> = mset (map mr_id (map ?f (al_byID a)))" by (simp only: mset_map)
  also have "map mr_id (map ?f (al_byID a)) = map fst (al_byID a)" by auto
  finally have "mset (map mr_id ?rs) = mset (map fst (al_byID a))" .
  then have d1: "distinct (map mr_id ?rs)" using ok(1) mset_eq_imp_distinct_iff unfolding gomap_ok_def by blast
  have set_rs: "r \<in> set ?rs \<longleftrightarrow> map_of (al_byID a) (mr_id r) = Some \<lparr>slot_mark = mr_mark r, slot_gen = mr_generation r\<rparr>" for r
  proof -
    have "set ?rs = ?f ` set (al_byID a)" using mset_eq_setD [OF rs] by simp
    then have "r \<in> set ?rs \<longleftrightarrow> (mr_id r, \<lparr>slot_mark = mr_mark r, slot_gen = mr_generation r\<rparr>) \<in> set (al_byID a)"
      by (auto simp: image_iff slot_eta intro!: bexI [of _ "(mr_id r, \<lparr>slot_mark = mr_mark r, slot_gen = mr_generation r\<rparr>)"])
    then show ?thesis by (simp add: gomap_in_iff [OF ok(1)])
  qed
  have d2: "distinct (map mr_mark ?rs)"
    unfolding distinct_map
  proof
    show "distinct ?rs" using d1 by (simp add: distinct_map)
    show "inj_on mr_mark (set ?rs)"
    proof (rule inj_onI)
      fix x y assume "x \<in> set ?rs" "y \<in> set ?rs" "mr_mark x = mr_mark y"
      then have "mr_id x = mr_id y" using alloc_invD(1) [OF inv] set_rs by (metis option.inject slot.select_convs(1))
      with \<open>x \<in> set ?rs\<close> \<open>y \<in> set ?rs\<close> d1 show "x = y" by (auto simp: distinct_map inj_on_def)
    qed
  qed
  have "\<forall>r\<in>set ?rs. 1 \<le> mr_mark r \<and> mr_mark r < al_next ?a \<and> mr_generation r \<le> al_gen ?a \<and>
     map_of (al_byID ?a) (mr_id r) = None \<and> map_of (al_byMark ?a) (mr_mark r) = None"
    using alloc_invD [OF inv] set_rs by (fastforce simp: newAllocator_def)
  moreover have "map_of (al_byID ?a) k = None" for k by (simp add: newAllocator_def)
  moreover have "al_next ?a = al_next a" "al_gen ?a = al_gen a" "al_limit ?a = al_limit a" by (simp_all add: newAllocator_def)
  ultimately obtain b where b: "load_rules ?rs ?a = Inr b" "al_next b = al_next a"
    "al_gen b = al_gen a" "al_limit b = al_limit a"
    "map_of (al_byID b) = map_of (map (\<lambda>r. (mr_id r, \<lparr>slot_mark = mr_mark r, slot_gen = mr_generation r\<rparr>)) ?rs)"
    using load_rules_complete [OF d1 d2, of ?a] by (auto simp only: case_Some_id fun_eq_iff)
  have "map_of (al_byID b) k = Some s \<longleftrightarrow> map_of (al_byID a) k = Some s" for k s
  proof -
    have "map_of (al_byID b) k = Some s \<longleftrightarrow> (\<exists>r\<in>set ?rs. mr_id r = k \<and> \<lparr>slot_mark = mr_mark r, slot_gen = mr_generation r\<rparr> = s)"
      using d1 unfolding b(5) by (subst map_of_eq_Some_iff) (auto simp: comp_def)
    also have "\<dots> \<longleftrightarrow> map_of (al_byID a) k = Some s"
      unfolding set_rs Bex_def
      by (auto simp: slot_eta intro: exI [of _ "\<lparr>mr_id = k, mr_mark = slot_mark s, mr_generation = slot_gen s\<rparr>"])
    finally show ?thesis .
  qed
  then have ids: "map_of (al_byID b) = map_of (al_byID a)" by (metis ext option.exhaust)
  have "alloc_inv ?a" using ok by (simp add: alloc_inv_def newAllocator_def)
  then have invb: "alloc_inv b" using load_rules_inv [OF _ b(1)] by blast
  have "map_of (al_byMark b) m = Some k \<longleftrightarrow> map_of (al_byMark a) m = Some k" for m k
    using alloc_invD(1) [OF inv] alloc_invD(1) [OF invb] alloc_inv_markD [OF inv] alloc_inv_markD [OF invb] ids by metis
  then have "map_of (al_byMark b) = map_of (al_byMark a)" by (metis ext option.exhaust)
  with ids b ok assms show ?thesis
    by (simp add: Alloc_Save_def Let_def load_header) (simp add: marks_file_def)
qed


lemma load_inv:
  assumes "loadAllocator dec sha contents limit = Inr (Some a)"
  shows "alloc_inv a" "al_limit a = limit"
proof -
  obtain data where "contents = Inr (Some data)"
    using assms by (cases contents; cases "projr contents") (simp_all add: loadAllocator_def)
  with assms obtain f :: marksFile where f: "1 \<le> mf_next f" "mf_next f \<le> limit + 1"
    "load_rules (mf_rules f) ((newAllocator limit)\<lparr>al_next := mf_next f, al_gen := mf_generation f\<rparr>) = Inr a"
    by (auto simp: loadAllocator_def Let_def not_less Suc_le_eq split: option.split_asm if_split_asm)
  then have "alloc_inv ((newAllocator limit)\<lparr>al_next := mf_next f, al_gen := mf_generation f\<rparr>)"
    by (simp add: alloc_inv_def newAllocator_def)
  from load_rules_inv [OF this f(3)] show "alloc_inv a" "al_limit a = limit" by (simp_all add: newAllocator_def)
qed

section \<open>Properties\<close>

text \<open>An allocation keeps the two indexes inverse to each other with every value in the region,
  gives each rule of the incoming policy a value and no other rule one, keeps the value of every
  rule of the incoming or the installed policy it knew, and takes a value away from its holder
  only once the whole region has been handed out.\<close>

lemma Allocate_sound:
  assumes "alloc_inv a" and "Allocate nxt installed a = Inr (marks, b)"
  shows "allocates nxt installed a b marks"
  using assms by (rule Allocate_ok)

definition one_rule :: WorkloadPolicy where
  "one_rule = \<lparr>version = 1, mode = ENFORCEMENT_MODE_ENFORCED,
     inbound_rules = [\<lparr>rule_id = ''r/tcp'', peer_cidrs = [], protocol = PROTOCOL_TCP, ports = []\<rparr>]\<rparr>"

lemma one_rule_canonical: "Canonical (Some one_rule) = one_rule"
  by (rule Canonical_id) (simp add: one_rule_def is_canonical_def rule_canonical_def canonicalRule_def
      canonicalCIDRs_def canonicalPorts_def)

lemma one_rule_Allocate:
  "Allocate (Some one_rule) None NewAllocator = Inr ([(''r/tcp'', 1)],
     \<lparr>al_limit = MaxRules, al_next = 2, al_gen = 1, al_byID = [(''r/tcp'', \<lparr>slot_mark = 1, slot_gen = 1\<rparr>)], al_byMark = [(1, ''r/tcp'')]\<rparr>)"
  unfolding Allocate_def one_rule_canonical
  by (simp add: rule_ids_def one_rule_def touch_def NewAllocator_def newAllocator_def MaxRules_def WouldBlockIndex_def)

text \<open>Allocation succeeds whenever the rules of the incoming and the installed policy together
  are no more than the region has values.\<close>

lemma Allocate_succeeds:
  assumes "alloc_inv a" and "alloc_full a" and "card (set (rule_ids nxt) \<union> set (rule_ids installed)) \<le> al_limit a"
  shows "\<exists>marks b. Allocate nxt installed a = Inr (marks, b)"
  using assms by (rule Allocate_total)

end
