(* ===== verification/PolicyModel.thy ===== *)
theory PolicyModel
  imports Rendered
begin

text \<open>
  The authored model and its admission, \<^verbatim>\<open>internal/policy\<close> (\<^verbatim>\<open>model.go\<close>, \<^verbatim>\<open>labels.go\<close>,
  \<^verbatim>\<open>validate.go\<close>, \<^verbatim>\<open>version.go\<close>): services, address groups, selectors, rules and rulesets,
  the label grammar, and the validators that collect every finding of an object. The results:
  a selector matches exactly its declarative meaning, and a validator returns no error exactly
  for the objects that satisfy the admission rules written out as predicates.

  A UUID is represented by its canonical text, which is also its order; its zero value is
  \<open>uuid_Nil\<close>. The detail of a finding is kept as the data it is formatted from.
\<close>

section \<open>Authored objects\<close>

type_synonym uuid = string

definition uuid_Nil :: uuid where
  "uuid_Nil = ''00000000-0000-0000-0000-000000000000''"

text \<open>The shape of a canonical UUID text.\<close>

definition uuid_text :: "string \<Rightarrow> bool" where
  "uuid_text s = (length s = 36 \<and> list_all (\<lambda>c. is_hex c \<or> c = CHR ''-'') s)"

lemma uuid_text_slash: "uuid_text s \<Longrightarrow> s \<noteq> [] \<and> CHR ''/'' \<notin> set s"
  by (auto simp: uuid_text_def list_all_iff)

type_synonym Selector = "(string, string list) gomap"

datatype PeerKind = PeerUnspecified | PeerWorkloads | PeerAddressGroup | PeerCIDR | PeerKind_OTHER int

datatype admission_error =
    ErrDirectionOutbound | ErrDirectionUnspecified | ErrBadDirection | ErrEmptySelector
  | ErrEmptyLabelKey | ErrEmptyLabelValues | ErrBadPortRange | ErrBadPortSpec | ErrPortsOnPortless
  | ErrBadProtocol | ErrBadCIDR | ErrUnknownService | ErrUnknownAddressGroup | ErrBadPeer
  | ErrNoPeers | ErrNoServices | ErrNoEntries | ErrNoCIDRs | ErrEmptyName | ErrBadID
  | ErrDuplicateRule | ErrBadLabelKey | ErrBadLabelValue | ErrDuplicateLabelKey

datatype detail = NoDetail | Text string | Quoted string | QuotedPair string string | QuotedAlsoAt string nat

record ValidationError =
  ve_path :: string
  ve_err :: admission_error
  ve_detail :: detail

record ServiceEntry =
  entry_protocol :: Protocol
  entry_ports :: "PortRange list"

record Service =
  svc_id :: uuid
  svc_name :: string
  svc_entries :: "ServiceEntry list"
  svc_created_at :: int
  svc_updated_at :: int
  svc_version :: int
  svc_faults :: "ValidationError list"

record AddressGroup =
  grp_id :: uuid
  grp_name :: string
  grp_cidrs :: "string list"
  grp_created_at :: int
  grp_updated_at :: int
  grp_version :: int

record Peer =
  peer_kind :: PeerKind
  peer_workloads :: Selector
  peer_group_id :: uuid
  peer_cidr :: string

record Rule =
  rl_id :: uuid
  rl_direction :: Direction
  rl_enabled :: bool
  rl_description :: string
  rl_peers :: "Peer list"
  rl_service_ids :: "uuid list"
  rl_entries :: "ServiceEntry list"
  rl_created_at :: int
  rl_updated_at :: int
  rl_version :: int
  rl_faults :: "ValidationError list"

record Ruleset =
  rs_id :: uuid
  rs_name :: string
  rs_description :: string
  rs_enabled :: bool
  rs_scope :: Selector
  rs_rules :: "Rule list"
  rs_created_at :: int
  rs_updated_at :: int
  rs_version :: int
  rs_faults :: "ValidationError list"

section \<open>Selectors\<close>

definition Matches :: "Selector \<Rightarrow> (string, string) gomap \<Rightarrow> bool" where
  "Matches s labels = (s \<noteq> [] \<and>
     list_all (\<lambda>(key, values). case map_of labels key of None \<Rightarrow> False
       | Some have \<Rightarrow> list_ex (\<lambda>v. v = have) values) s)"

definition MatchWorkloads :: "Selector \<Rightarrow> (string, (string, string) gomap) gomap \<Rightarrow> string list" where
  "MatchWorkloads s index = sort (map fst (filter (\<lambda>(_, labels). Matches s labels) index))"

lemma Matches_iff:
  assumes "gomap_ok s"
  shows "Matches s labels \<longleftrightarrow> s \<noteq> [] \<and>
    (\<forall>key values. map_of s key = Some values \<longrightarrow> (\<exists>v\<in>set values. map_of labels key = Some v))"
  unfolding Matches_def list_all_iff gomap_in_iff [OF assms, symmetric]
  by (fastforce simp: list_ex_iff split: option.splits)

lemma set_MatchWorkloads:
  "gomap_ok index \<Longrightarrow> set (MatchWorkloads s index) = {i. \<exists>l. map_of index i = Some l \<and> Matches s l}"
  unfolding MatchWorkloads_def by (auto simp: gomap_in_iff [symmetric]) force+

lemma sorted_MatchWorkloads: "sorted (MatchWorkloads s index)"
  by (simp add: MatchWorkloads_def)

lemma distinct_MatchWorkloads: "gomap_ok index \<Longrightarrow> distinct (MatchWorkloads s index)"
  by (simp add: MatchWorkloads_def gomap_ok_def distinct_map_filter)

section \<open>The label grammar\<close>

definition MaxLabelLength :: nat where
  "MaxLabelLength = 63"

definition alnum :: "char \<Rightarrow> bool" where
  "alnum c = (let n = of_char c :: nat in 97 \<le> n \<and> n \<le> 122 \<or> 65 \<le> n \<and> n \<le> 90 \<or> 48 \<le> n \<and> n \<le> 57)"

definition inGrammar :: "string \<Rightarrow> bool \<Rightarrow> bool" where
  "inGrammar s key = (s \<noteq> [] \<and> length s \<le> MaxLabelLength \<and>
     list_all (\<lambda>(i, c). alnum c \<or> (i \<noteq> 0 \<and> i \<noteq> length s - 1 \<and>
       (c = CHR ''.'' \<or> c = CHR ''_'' \<or> c = CHR ''-'' \<or> (c = CHR ''/'' \<and> key)))) (enumerate 0 s))"

definition CheckLabelKey :: "string \<Rightarrow> admission_error option" where
  "CheckLabelKey k = (if k = [] then Some ErrEmptyLabelKey
     else if \<not> inGrammar k True then Some ErrBadLabelKey else None)"

definition CheckLabelValue :: "string \<Rightarrow> admission_error option" where
  "CheckLabelValue v = (if \<not> inGrammar v False then Some ErrBadLabelValue else None)"

lemma inGrammar_chars:
  "inGrammar s key \<Longrightarrow> c \<in> set s \<Longrightarrow>
   alnum c \<or> c = CHR ''.'' \<or> c = CHR ''_'' \<or> c = CHR ''-'' \<or> (c = CHR ''/'' \<and> key)"
proof -
  assume g: "inGrammar s key" and "c \<in> set s"
  then obtain i where "i < length s" "s ! i = c" by (auto simp: in_set_conv_nth)
  then have "(i, c) \<in> set (enumerate 0 s)" by (auto simp: in_set_enumerate_eq)
  with g show ?thesis by (auto simp: inGrammar_def list_all_iff)
qed

lemma inGrammar_ends: "inGrammar s key \<Longrightarrow> alnum (hd s) \<and> alnum (last s)"
proof -
  assume g: "inGrammar s key"
  then have ne: "s \<noteq> []" by (simp add: inGrammar_def)
  then have "(0, s ! 0) \<in> set (enumerate 0 s)" "(length s - 1, s ! (length s - 1)) \<in> set (enumerate 0 s)"
    by (auto simp: in_set_enumerate_eq)
  moreover have "i = 0 \<or> i = length s - 1 \<Longrightarrow> (i, c) \<in> set (enumerate 0 s) \<Longrightarrow> alnum c" for i c
    using g unfolding inGrammar_def list_all_iff by blast
  ultimately show ?thesis using ne by (metis hd_conv_nth last_conv_nth)
qed

section \<open>Findings\<close>

record Findings =
  f_errors :: "ValidationError list"
  f_faulted :: "string list"

definition no_findings :: Findings where
  "no_findings = \<lparr>f_errors = [], f_faulted = []\<rparr>"

definition add_finding :: "string \<Rightarrow> admission_error \<Rightarrow> detail \<Rightarrow> Findings \<Rightarrow> Findings" where
  "add_finding path err det f = (if path \<in> set (f_faulted f) then f
     else f\<lparr>f_errors := f_errors f @ [\<lparr>ve_path = path, ve_err = err, ve_detail = det\<rparr>]\<rparr>)"

definition join_path :: "string \<Rightarrow> string \<Rightarrow> string" where
  "join_path path field = (if path = [] then field else path @ ''.'' @ field)"

definition carry :: "string \<Rightarrow> ValidationError list \<Rightarrow> Findings \<Rightarrow> Findings" where
  "carry path faults f = fold (\<lambda>e f. f\<lparr>
     f_faulted := join_path path (ve_path e) # f_faulted f,
     f_errors := f_errors f @ [\<lparr>ve_path = join_path path (ve_path e), ve_err = ve_err e, ve_detail = ve_detail e\<rparr>]\<rparr>)
     faults f"

definition findings_result :: "Findings \<Rightarrow> Findings option" where
  "findings_result f = (if f_errors f = [] then None else Some f)"

definition Rebase :: "string \<Rightarrow> Findings \<Rightarrow> Findings" where
  "Rebase prefix f = f\<lparr>f_errors := map (\<lambda>e. e\<lparr>ve_path := trim_prefix ''.'' (trim_prefix prefix (ve_path e))\<rparr>) (f_errors f)\<rparr>"

definition index_path :: "string \<Rightarrow> nat \<Rightarrow> string" where
  "index_path path i = path @ ''['' @ show_dec i @ '']''"

text \<open>A loop that checks every element at its indexed path.\<close>

definition check_each :: "(string \<Rightarrow> 'x \<Rightarrow> Findings \<Rightarrow> Findings) \<Rightarrow> string \<Rightarrow> 'x list \<Rightarrow> Findings \<Rightarrow> Findings" where
  "check_each check path xs f = fold (\<lambda>(i, x). check (index_path path i) x) (enumerate 0 xs) f"

text \<open>Faults are never carried without being reported.\<close>

definition find_inv :: "Findings \<Rightarrow> bool" where
  "find_inv f = (f_errors f = [] \<longrightarrow> f_faulted f = [])"

text \<open>
  The contract of a check: it keeps the invariant, and it reports nothing exactly when
  nothing was reported before it and its object is well formed.
\<close>

locale checker =
  fixes check :: "string \<Rightarrow> 'x \<Rightarrow> Findings \<Rightarrow> Findings" and ok :: "'x \<Rightarrow> bool"
  assumes check_inv: "find_inv f \<Longrightarrow> find_inv (check path x f)"
    and check_ok: "find_inv f \<Longrightarrow> f_errors (check path x f) = [] \<longleftrightarrow> f_errors f = [] \<and> ok x"
begin

lemma fold_check:
  "find_inv f \<Longrightarrow> find_inv (fold (\<lambda>(i, x). check (pth i) x) xs f) \<and>
   (f_errors (fold (\<lambda>(i, x). check (pth i) x) xs f) = [] \<longleftrightarrow> f_errors f = [] \<and> list_all ok (map snd xs))"
proof (induction xs arbitrary: f)
  case (Cons ix xs)
  obtain i x where "ix = (i, x)" by (cases ix)
  with Cons.IH [OF check_inv [OF Cons.prems, of "pth i" x]] check_ok [OF Cons.prems, of "pth i" x]
  show ?case by simp
qed simp

lemma each_inv: "find_inv f \<Longrightarrow> find_inv (check_each check path xs f)"
  using fold_check by (auto simp: check_each_def)

lemma each_ok:
  "find_inv f \<Longrightarrow> f_errors (check_each check path xs f) = [] \<longleftrightarrow> f_errors f = [] \<and> list_all ok xs"
  using fold_check [of f "index_path path" "enumerate 0 xs"] by (simp add: check_each_def)

end

lemma find_inv_no_findings [simp]: "find_inv no_findings" "f_errors no_findings = []"
  by (simp_all add: find_inv_def no_findings_def)

lemma find_inv_add [simp]: "find_inv f \<Longrightarrow> find_inv (add_finding p e d f)"
  by (simp add: find_inv_def add_finding_def)

lemma add_finding_errors [simp]: "find_inv f \<Longrightarrow> f_errors (add_finding p e d f) \<noteq> []"
  by (auto simp: find_inv_def add_finding_def)

lemma carry_Nil [simp]: "carry p [] f = f"
  by (simp add: carry_def)

lemma carry_Cons:
  "carry p (e # es) f = carry p es (f\<lparr>f_faulted := join_path p (ve_path e) # f_faulted f,
     f_errors := f_errors f @ [\<lparr>ve_path = join_path p (ve_path e), ve_err = ve_err e, ve_detail = ve_detail e\<rparr>]\<rparr>)"
  by (simp add: carry_def)

lemma carry_errors: "f_errors (carry p es f) = [] \<longleftrightarrow> f_errors f = [] \<and> es = []"
  by (induction es arbitrary: f) (simp_all add: carry_Cons)

lemma carry_inv [simp]: "find_inv f \<Longrightarrow> find_inv (carry p es f)"
  by (cases es) (auto simp: find_inv_def carry_errors)

lemma findings_result_None [simp]: "findings_result f = None \<longleftrightarrow> f_errors f = []"
  by (simp add: findings_result_def)

lemma f_errors_Rebase [simp]: "f_errors (Rebase p f) = [] \<longleftrightarrow> f_errors f = []"
  by (simp add: Rebase_def)


section \<open>Admission\<close>

record References =
  ref_services :: "uuid set"
  ref_groups :: "uuid set"

definition validateEntry :: "string \<Rightarrow> ServiceEntry \<Rightarrow> Findings \<Rightarrow> Findings" where
  "validateEntry path e f = (let f = (case entry_protocol e of
       PROTOCOL_TCP \<Rightarrow> f | PROTOCOL_UDP \<Rightarrow> f
     | PROTOCOL_ICMP \<Rightarrow> (if entry_ports e \<noteq> [] then add_finding (path @ ''.ports'') ErrPortsOnPortless (Text ''icmp'') f else f)
     | PROTOCOL_UNSPECIFIED \<Rightarrow> add_finding (path @ ''.protocol'') ErrBadProtocol NoDetail f
     | PROTOCOL_OTHER n \<Rightarrow> add_finding (path @ ''.protocol'') ErrBadProtocol (Text (''unknown protocol '' @ show_int n)) f)
   in check_each (\<lambda>at p f. if port_start p > port_end p \<or> port_end p > 65535
        then add_finding at ErrBadPortRange (Text (show_dec (unat (port_start p)) @ ''-'' @ show_dec (unat (port_end p)))) f
        else f) (path @ ''.ports'') (entry_ports e) f)"

text \<open>One key of a selector: the key, then its values.\<close>

definition check_value :: "string \<Rightarrow> string \<Rightarrow> string \<Rightarrow> Findings \<Rightarrow> Findings" where
  "check_value at key v f = (case CheckLabelValue v of Some err \<Rightarrow> add_finding at err (QuotedPair key v) f | None \<Rightarrow> f)"

definition selector_key :: "string \<Rightarrow> Selector \<Rightarrow> string \<Rightarrow> Findings \<Rightarrow> Findings" where
  "selector_key path s key f = (case CheckLabelKey key of Some err \<Rightarrow> add_finding path err (Quoted key) f
     | None \<Rightarrow> (let values = the (map_of s key); at = path @ ''['' @ key @ '']'';
         f1 = (if values = [] then add_finding at ErrEmptyLabelValues NoDetail f else f)
       in fold (check_value at key) values f1))"

definition validateSelector :: "string \<Rightarrow> Selector \<Rightarrow> Findings \<Rightarrow> Findings" where
  "validateSelector path s f = (if s = [] then add_finding path ErrEmptySelector NoDetail f
     else fold (selector_key path s) (sorted_keys s) f)"

definition validatePeer :: "References \<Rightarrow> string \<Rightarrow> Peer \<Rightarrow> Findings \<Rightarrow> Findings" where
  "validatePeer refs path p f = (let set_count =
       (if peer_workloads p \<noteq> [] \<or> peer_kind p = PeerWorkloads then 1 else 0) +
       (if peer_group_id p \<noteq> uuid_Nil \<or> peer_kind p = PeerAddressGroup then 1 else 0) +
       (if peer_cidr p \<noteq> [] \<or> peer_kind p = PeerCIDR then 1 else 0 :: nat)
     in if set_count \<noteq> 1 then add_finding path ErrBadPeer NoDetail f
     else (case peer_kind p of
       PeerWorkloads \<Rightarrow> validateSelector (path @ ''.workloads'') (peer_workloads p) f
     | PeerAddressGroup \<Rightarrow> (if peer_group_id p \<in> ref_groups refs then f
         else add_finding (path @ ''.address_group'') ErrUnknownAddressGroup (Text (peer_group_id p)) f)
     | PeerCIDR \<Rightarrow> (if parse_prefix (peer_cidr p) = None
         then add_finding (path @ ''.cidr'') ErrBadCIDR (Text (peer_cidr p)) f else f)
     | PeerUnspecified \<Rightarrow> add_finding path ErrBadPeer NoDetail f
     | PeerKind_OTHER n \<Rightarrow> add_finding path ErrBadPeer (Text (''unknown peer kind '' @ show_int n)) f))"

text \<open>The steps of \<^verbatim>\<open>validateRule\<close>, in its order.\<close>

definition validate_direction :: "string \<Rightarrow> Direction \<Rightarrow> Findings \<Rightarrow> Findings" where
  "validate_direction at d f = (case d of DIRECTION_INBOUND \<Rightarrow> f
     | DIRECTION_OUTBOUND \<Rightarrow> add_finding at ErrDirectionOutbound NoDetail f
     | DIRECTION_UNSPECIFIED \<Rightarrow> add_finding at ErrDirectionUnspecified NoDetail f
     | DIRECTION_OTHER n \<Rightarrow> add_finding at ErrDirectionUnspecified (Text (''unknown direction '' @ show_int n)) f)"

definition require :: "bool \<Rightarrow> string \<Rightarrow> admission_error \<Rightarrow> Findings \<Rightarrow> Findings" where
  "require c at err f = (if c then f else add_finding at err NoDetail f)"

definition validate_service_id :: "References \<Rightarrow> string \<Rightarrow> uuid \<Rightarrow> Findings \<Rightarrow> Findings" where
  "validate_service_id refs at k f = (if k \<in> ref_services refs then f else add_finding at ErrUnknownService (Text k) f)"

definition validateRule :: "References \<Rightarrow> string \<Rightarrow> Rule \<Rightarrow> Findings \<Rightarrow> Findings" where
  "validateRule refs path r f =
    (let f1 = carry path (rl_faults r) f;
       f2 = validate_direction (join_path path ''direction'') (rl_direction r) f1;
       f3 = require (rl_peers r \<noteq> []) (join_path path ''peers'') ErrNoPeers f2;
       f4 = check_each (validatePeer refs) (join_path path ''peers'') (rl_peers r) f3;
       f5 = require (\<not> (rl_service_ids r = [] \<and> rl_entries r = [])) (join_path path ''services'') ErrNoServices f4;
       f6 = check_each (validate_service_id refs) (join_path path ''services'') (rl_service_ids r) f5
     in check_each validateEntry (join_path path ''entries'') (rl_entries r) f6)"

definition ValidateService :: "Service \<Rightarrow> Findings option" where
  "ValidateService s = (let f = carry [] (svc_faults s) no_findings;
       f = (if svc_name s = [] then add_finding ''name'' ErrEmptyName NoDetail f else f);
       f = (if svc_entries s = [] then add_finding ''entries'' ErrNoEntries NoDetail f else f)
     in findings_result (check_each validateEntry ''entries'' (svc_entries s) f))"

definition ValidateAddressGroup :: "AddressGroup \<Rightarrow> Findings option" where
  "ValidateAddressGroup g = (let f = no_findings;
       f = (if grp_name g = [] then add_finding ''name'' ErrEmptyName NoDetail f else f);
       f = (if grp_cidrs g = [] then add_finding ''cidrs'' ErrNoCIDRs NoDetail f else f)
     in findings_result (check_each (\<lambda>at c f. if parse_prefix c = None
          then add_finding at ErrBadCIDR (Text c) f else f) ''cidrs'' (grp_cidrs g) f))"

text \<open>The loop of \<^verbatim>\<open>ValidateRuleset\<close> over the rules, with the ids seen so far.\<close>

definition ruleset_step :: "References \<Rightarrow> nat \<times> Rule \<Rightarrow> (uuid, nat) gomap \<times> Findings \<Rightarrow> (uuid, nat) gomap \<times> Findings" where
  "ruleset_step refs ir sf = (case (ir, sf) of ((i, r), (seen, f)) \<Rightarrow>
     let (seen, f) = (if rl_id r \<noteq> uuid_Nil then
            (case map_of seen (rl_id r) of
               Some first \<Rightarrow> (seen, add_finding (index_path ''rules'' i @ ''.id'') ErrDuplicateRule
                   (Text (''also '' @ index_path ''rules'' first)) f)
             | None \<Rightarrow> (AList.update (rl_id r) i seen, f)) else (seen, f))
     in (seen, validateRule refs (index_path ''rules'' i) r f))"

definition ValidateRuleset :: "Ruleset \<Rightarrow> References \<Rightarrow> Findings option" where
  "ValidateRuleset rs refs = (let f = carry [] (rs_faults rs) no_findings;
       f = (if rs_name rs = [] then add_finding ''name'' ErrEmptyName NoDetail f else f);
       f = validateSelector ''scope'' (rs_scope rs) f
     in findings_result (snd (fold (ruleset_step refs) (enumerate 0 (rs_rules rs)) ([], f))))"

definition ValidateRule :: "Rule \<Rightarrow> References \<Rightarrow> Findings option" where
  "ValidateRule r refs = findings_result (Rebase [] (validateRule refs [] r no_findings))"

definition ValidateSelector :: "Selector \<Rightarrow> Findings option" where
  "ValidateSelector s = findings_result (Rebase [] (validateSelector [] s no_findings))"

definition label_set_step :: "nat \<times> string \<times> string \<Rightarrow> (string, nat) gomap \<times> Findings \<Rightarrow> (string, nat) gomap \<times> Findings" where
  "label_set_step il sf = (case (il, sf) of ((i, k, v), (seen, f)) \<Rightarrow>
     let path = index_path ''labels'' i;
       f1 = (case CheckLabelKey k of Some err \<Rightarrow> add_finding path err (Quoted k) f | None \<Rightarrow> f);
       f2 = (case CheckLabelValue v of Some err \<Rightarrow> add_finding path err (QuotedPair k v) f1 | None \<Rightarrow> f1)
     in if CheckLabelKey k \<noteq> None \<or> CheckLabelValue v \<noteq> None then (seen, f2)
        else (case map_of seen k of Some first \<Rightarrow> (seen, add_finding path ErrDuplicateLabelKey (QuotedAlsoAt k first) f2)
          | None \<Rightarrow> (AList.update k i seen, f2)))"

definition ValidateLabelSet :: "(string \<times> string) list \<Rightarrow> Findings option" where
  "ValidateLabelSet labels = findings_result (snd (fold label_set_step (enumerate 0 labels) ([], no_findings)))"

definition FormatVersion :: "int \<Rightarrow> string" where
  "FormatVersion v = show_int v"

section \<open>What admission means\<close>

definition port_range_ok :: "PortRange \<Rightarrow> bool" where
  "port_range_ok p = (port_start p \<le> port_end p \<and> port_end p \<le> 65535)"

definition entry_ok :: "ServiceEntry \<Rightarrow> bool" where
  "entry_ok e = (named_protocol (entry_protocol e) \<and>
     (entry_protocol e = PROTOCOL_ICMP \<longrightarrow> entry_ports e = []) \<and> list_all port_range_ok (entry_ports e))"

definition selector_ok :: "Selector \<Rightarrow> bool" where
  "selector_ok s = (s \<noteq> [] \<and> (\<forall>k\<in>dom (map_of s). inGrammar k True \<and> the (map_of s k) \<noteq> [] \<and>
     (\<forall>v\<in>set (the (map_of s k)). inGrammar v False)))"

definition peer_ok :: "References \<Rightarrow> Peer \<Rightarrow> bool" where
  "peer_ok refs p = (case peer_kind p of
     PeerWorkloads \<Rightarrow> selector_ok (peer_workloads p) \<and> peer_group_id p = uuid_Nil \<and> peer_cidr p = []
   | PeerAddressGroup \<Rightarrow> peer_group_id p \<in> ref_groups refs \<and> peer_workloads p = [] \<and> peer_cidr p = []
   | PeerCIDR \<Rightarrow> parse_prefix (peer_cidr p) \<noteq> None \<and> peer_workloads p = [] \<and> peer_group_id p = uuid_Nil
   | _ \<Rightarrow> False)"

definition rule_ok :: "References \<Rightarrow> Rule \<Rightarrow> bool" where
  "rule_ok refs r = (rl_faults r = [] \<and> rl_direction r = DIRECTION_INBOUND \<and>
     rl_peers r \<noteq> [] \<and> list_all (peer_ok refs) (rl_peers r) \<and>
     (rl_service_ids r \<noteq> [] \<or> rl_entries r \<noteq> []) \<and>
     set (rl_service_ids r) \<subseteq> ref_services refs \<and> list_all entry_ok (rl_entries r))"

definition ruleset_ok :: "References \<Rightarrow> Ruleset \<Rightarrow> bool" where
  "ruleset_ok refs rs = (rs_faults rs = [] \<and> rs_name rs \<noteq> [] \<and> selector_ok (rs_scope rs) \<and>
     list_all (rule_ok refs) (rs_rules rs) \<and>
     distinct (filter (\<lambda>i. i \<noteq> uuid_Nil) (map rl_id (rs_rules rs))))"

definition service_ok :: "Service \<Rightarrow> bool" where
  "service_ok s = (svc_faults s = [] \<and> svc_name s \<noteq> [] \<and> svc_entries s \<noteq> [] \<and> list_all entry_ok (svc_entries s))"

definition group_ok :: "AddressGroup \<Rightarrow> bool" where
  "group_ok g = (grp_name g \<noteq> [] \<and> grp_cidrs g \<noteq> [] \<and> list_all (\<lambda>c. parse_prefix c \<noteq> None) (grp_cidrs g))"


lemma validateEntry_ports_checker:
  "checker (\<lambda>at p f. if port_start p > port_end p \<or> port_end p > 65535
      then add_finding at ErrBadPortRange (d p) f else f) port_range_ok"
  by unfold_locales (auto simp: port_range_ok_def)

interpretation port_ranges: checker
  "\<lambda>at p f. if port_start p > port_end p \<or> port_end p > 65535
     then add_finding at ErrBadPortRange (Text (show_dec (unat (port_start p)) @ ''-'' @ show_dec (unat (port_end p)))) f
     else f" port_range_ok
  by (rule validateEntry_ports_checker)

interpretation entries: checker validateEntry entry_ok
proof
  fix f path e assume f: "find_inv f"
  then show "find_inv (validateEntry path e f)"
    unfolding validateEntry_def Let_def
    by (intro port_ranges.each_inv) (simp split: Protocol.split)
  from f show "f_errors (validateEntry path e f) = [] \<longleftrightarrow> f_errors f = [] \<and> entry_ok e"
    unfolding validateEntry_def Let_def
    by (subst port_ranges.each_ok) (auto simp: entry_ok_def split: Protocol.splits)
qed

lemma fold_values:
  "find_inv f \<Longrightarrow> find_inv (fold (check_value at k) vs f) \<and>
   (f_errors (fold (check_value at k) vs f) = [] \<longleftrightarrow> f_errors f = [] \<and> (\<forall>v\<in>set vs. inGrammar v False))"
  by (induction vs arbitrary: f) (auto simp: check_value_def CheckLabelValue_def)

lemma selector_key_ok:
  assumes "find_inv f"
  shows "find_inv (selector_key path s k f) \<and> (f_errors (selector_key path s k f) = [] \<longleftrightarrow>
    f_errors f = [] \<and> inGrammar k True \<and> the (map_of s k) \<noteq> [] \<and> (\<forall>v\<in>set (the (map_of s k)). inGrammar v False))"
proof (cases "CheckLabelKey k")
  case None
  then have "inGrammar k True" by (auto simp: CheckLabelKey_def split: if_splits)
  with None assms show ?thesis
    by (cases "the (map_of s k) = []") (simp_all add: selector_key_def Let_def fold_values)
next
  case (Some e)
  then have "\<not> inGrammar k True" by (auto simp: CheckLabelKey_def inGrammar_def split: if_splits)
  with Some assms show ?thesis by (simp add: selector_key_def)
qed

lemma fold_selector_keys:
  "find_inv f \<Longrightarrow> find_inv (fold (selector_key path s) ks f) \<and>
   (f_errors (fold (selector_key path s) ks f) = [] \<longleftrightarrow> f_errors f = [] \<and>
     (\<forall>k\<in>set ks. inGrammar k True \<and> the (map_of s k) \<noteq> [] \<and> (\<forall>v\<in>set (the (map_of s k)). inGrammar v False)))"
  by (induction ks arbitrary: f) (auto simp: selector_key_ok)

interpretation selectors: checker validateSelector selector_ok
proof
  fix f path and s :: Selector assume f: "find_inv f"
  show "find_inv (validateSelector path s f)"
    using f fold_selector_keys [of f path s "sorted_keys s"]
    by (simp add: validateSelector_def)
  show "f_errors (validateSelector path s f) = [] \<longleftrightarrow> f_errors f = [] \<and> selector_ok s"
    using f fold_selector_keys [of f path s "sorted_keys s"]
    by (auto simp: validateSelector_def selector_ok_def)
qed


interpretation peers: checker "validatePeer refs" "peer_ok refs"
proof
  fix f path p assume f: "find_inv f"
  show "find_inv (validatePeer refs path p f)"
    using f by (simp add: validatePeer_def Let_def selectors.check_inv split: PeerKind.split)
  show "f_errors (validatePeer refs path p f) = [] \<longleftrightarrow> f_errors f = [] \<and> peer_ok refs p"
    using f by (cases "peer_kind p") (auto simp: validatePeer_def Let_def peer_ok_def selectors.check_ok)
qed

interpretation service_ids: checker "validate_service_id refs" "\<lambda>k. k \<in> ref_services refs"
  by unfold_locales (simp_all add: validate_service_id_def)

lemma require_ok:
  "find_inv f \<Longrightarrow> find_inv (require c at e f) \<and> (f_errors (require c at e f) = [] \<longleftrightarrow> f_errors f = [] \<and> c)"
  by (simp add: require_def)

lemma validate_direction_ok:
  "find_inv f \<Longrightarrow> find_inv (validate_direction at d f) \<and>
   (f_errors (validate_direction at d f) = [] \<longleftrightarrow> f_errors f = [] \<and> d = DIRECTION_INBOUND)"
  by (cases d) (simp_all add: validate_direction_def)

lemmas check_facts = require_ok validate_direction_ok carry_errors
  peers.each_inv peers.each_ok service_ids.each_inv service_ids.each_ok
  entries.each_inv entries.each_ok selectors.check_inv selectors.check_ok

interpretation rules: checker "validateRule refs" "rule_ok refs"
  by unfold_locales
     (auto simp: validateRule_def Let_def rule_ok_def check_facts list_all_iff)

lemma ValidateRule_None: "ValidateRule r refs = None \<longleftrightarrow> rule_ok refs r"
  by (simp add: ValidateRule_def rules.check_ok)

lemma ValidateSelector_None: "ValidateSelector s = None \<longleftrightarrow> selector_ok s"
  by (simp add: ValidateSelector_def selectors.check_ok)

lemma ValidateService_None: "ValidateService s = None \<longleftrightarrow> service_ok s"
  by (auto simp: ValidateService_def Let_def service_ok_def check_facts)

interpretation cidrs: checker
  "\<lambda>at c f. if parse_prefix c = None then add_finding at ErrBadCIDR (Text c) f else f" "\<lambda>c. parse_prefix c \<noteq> None"
  by unfold_locales simp_all

lemma ValidateAddressGroup_None: "ValidateAddressGroup g = None \<longleftrightarrow> group_ok g"
  by (auto simp: ValidateAddressGroup_def Let_def group_ok_def cidrs.each_ok)

text \<open>The loop over the rules: the ids seen are those of the rules before.\<close>

definition given_ids :: "Rule list \<Rightarrow> uuid list" where
  "given_ids rs = filter (\<lambda>i. i \<noteq> uuid_Nil) (map rl_id rs)"

lemma given_ids_simps [simp]:
  "given_ids [] = []"
  "given_ids (r # rs) = (if rl_id r = uuid_Nil then given_ids rs else rl_id r # given_ids rs)"
  by (simp_all add: given_ids_def)

lemma fold_ruleset_step:
  "find_inv f \<Longrightarrow> find_inv (snd (fold (ruleset_step refs) irs (seen, f))) \<and>
   (f_errors (snd (fold (ruleset_step refs) irs (seen, f))) = [] \<longleftrightarrow> f_errors f = [] \<and>
     list_all (rule_ok refs) (map snd irs) \<and>
     distinct (given_ids (map snd irs)) \<and> set (given_ids (map snd irs)) \<inter> dom (map_of seen) = {})"
proof (induction irs arbitrary: seen f)
  case (Cons ir irs)
  obtain i r where ir: "ir = (i, r)" by (cases ir)
  define f' where "f' = (if rl_id r \<noteq> uuid_Nil \<and> rl_id r \<in> dom (map_of seen)
    then add_finding (index_path ''rules'' i @ ''.id'') ErrDuplicateRule
      (Text (''also '' @ index_path ''rules'' (the (map_of seen (rl_id r))))) f else f)"
  define seen' where "seen' = (if rl_id r \<noteq> uuid_Nil \<and> rl_id r \<notin> dom (map_of seen)
    then AList.update (rl_id r) i seen else seen)"
  have step: "ruleset_step refs (i, r) (seen, f) = (seen', validateRule refs (index_path ''rules'' i) r f')"
    by (auto simp: ruleset_step_def f'_def seen'_def split: option.split)
  have f': "find_inv f'" "f_errors f' = [] \<longleftrightarrow> f_errors f = [] \<and> (rl_id r \<noteq> uuid_Nil \<longrightarrow> rl_id r \<notin> dom (map_of seen))"
    using Cons.prems by (auto simp: f'_def)
  define g where "g = validateRule refs (index_path ''rules'' i) r f'"
  have g: "find_inv g" "f_errors g = [] \<longleftrightarrow> f_errors f' = [] \<and> rule_ok refs r"
    using f' by (simp_all add: g_def rules.check_inv rules.check_ok)
  have seen': "dom (map_of seen') = (if rl_id r \<noteq> uuid_Nil then insert (rl_id r) (dom (map_of seen)) else dom (map_of seen))"
    by (auto simp: seen'_def)
  note IH = Cons.IH [OF g(1), of seen']
  show ?case
  proof (cases "rl_id r = uuid_Nil")
    case True
    with IH f' g seen' show ?thesis by (simp add: step ir g_def [symmetric] conj_ac)
  next
    case False
    with IH f' g seen' show ?thesis
      by (simp add: step ir g_def [symmetric]) blast
  qed
qed simp

lemma ValidateRuleset_None: "ValidateRuleset rs refs = None \<longleftrightarrow> ruleset_ok refs rs"
proof -
  let ?f = "validateSelector ''scope'' (rs_scope rs)
     (if rs_name rs = [] then add_finding ''name'' ErrEmptyName NoDetail (carry [] (rs_faults rs) no_findings)
      else carry [] (rs_faults rs) no_findings)"
  have f: "find_inv ?f" "f_errors ?f = [] \<longleftrightarrow> rs_faults rs = [] \<and> rs_name rs \<noteq> [] \<and> selector_ok (rs_scope rs)"
    by (auto simp: check_facts)
  from fold_ruleset_step [OF f(1), of refs "enumerate 0 (rs_rules rs)" "[]"] f(2) show ?thesis
    by (auto simp: ValidateRuleset_def Let_def ruleset_ok_def given_ids_def)
qed

section \<open>Properties\<close>

text \<open>A ruleset is admitted exactly when it satisfies the admission rules: no document
  faults, a name, a scope in the label grammar, distinct rule ids, and every rule inbound with
  well-formed peers, resolving references and valid ports.\<close>

lemma ValidateRuleset_exact: "ValidateRuleset rs refs = None \<longleftrightarrow> ruleset_ok refs rs"
  by (rule ValidateRuleset_None)

text \<open>Resolving a selector against the label index gives, once each and in order, exactly
  the workloads that carry, for every key of a non-empty selector, one of its values.\<close>

lemma MatchWorkloads_exact:
  assumes "gomap_ok index" and "gomap_ok s"
  shows "sorted (MatchWorkloads s index) \<and> distinct (MatchWorkloads s index) \<and>
    (i \<in> set (MatchWorkloads s index) \<longleftrightarrow> (\<exists>labels. map_of index i = Some labels \<and> s \<noteq> [] \<and>
      (\<forall>key values. map_of s key = Some values \<longrightarrow> (\<exists>v\<in>set values. map_of labels key = Some v))))"
  using assms by (simp add: sorted_MatchWorkloads distinct_MatchWorkloads set_MatchWorkloads Matches_iff)

end
