(* ===== verification/Registry.thy ===== *)
theory Registry
  imports PolicyModel "HOL-Library.Multiset"
begin

text \<open>
  The control plane's record of a workload, \<^verbatim>\<open>internal/registry\<close>: the record and its parts,
  retirement, labels as a map and their version, and the addresses derived from reported
  interfaces, with the address predicates of \<^verbatim>\<open>net/netip\<close> they are filtered by. An instant is
  an \<^typ>\<open>int\<close>, nanoseconds since the Unix epoch; an instant that may be nil is an option.
\<close>

section \<open>Records\<close>

type_synonym instant = int
type_synonym duration = int

text \<open>The instant of Go's zero time.\<close>

definition zero_time :: instant where "zero_time = -62135596800000000000"

datatype SyncState = SYNC_STATE_UNSPECIFIED | SYNC_STATE_SYNCED | SYNC_STATE_PENDING
  | SYNC_STATE_DEGRADED | SYNC_STATE_OFFLINE | SYNC_STATE_OTHER int

datatype OwnedTableState = OWNED_TABLE_STATE_UNSPECIFIED | OWNED_TABLE_STATE_PRESENT
  | OWNED_TABLE_STATE_ABSENT | OWNED_TABLE_STATE_OTHER int

record NetworkInterface =
  nif_name :: string
  nif_addresses :: "string list"
  nif_mac_address :: string

record HostFacts =
  hf_hostname :: string
  hf_interfaces :: "NetworkInterface list"

record Label =
  label_key :: string
  label_value :: string

record AgentInfo =
  agent_version :: string
  agent_capabilities :: "string list"

record PresentedCredential =
  pres_serial :: string
  pres_expires_at :: instant

record LateRenewal =
  late_renewed_at :: instant
  late_expired_at :: instant

record ClockSkew =
  skew_offset :: duration
  skew_observed_at :: instant
  skew_current :: bool

record Workload =
  w_id :: uuid
  w_hostname :: string
  w_labels :: "Label list"
  w_mode :: EnforcementMode
  w_addresses :: "addr list"
  w_agent :: AgentInfo
  w_enrolled_at :: instant
  w_last_seen_at :: "instant option"
  w_sync_state :: SyncState
  w_applied_version :: "64 word"
  w_sync_error :: string
  w_dropped_flow_records :: "64 word"
  w_source_overruns :: "64 word"
  w_credential_renewal_error :: string
  w_credential_serial :: string
  w_credential_expires_at :: instant
  w_presented_credential :: "PresentedCredential option"
  w_late_renewal :: "LateRenewal option"
  w_last_snapshot_sent_at :: "instant option"
  w_last_acked_at :: "instant option"
  w_last_apply_failed_at :: "instant option"
  w_clock_skew :: "ClockSkew option"
  w_owned_table :: OwnedTableState
  w_owned_table_absent_since :: "instant option"
  w_last_flow_report_at :: "instant option"
  w_retired_at :: "instant option"

definition Retired :: "Workload \<Rightarrow> bool" where
  "Retired w = (w_retired_at w \<noteq> None)"

definition Active :: "Workload list \<Rightarrow> Workload list" where
  "Active ws = filter (\<lambda>w. \<not> Retired w) ws"

definition LabelMap :: "Workload \<Rightarrow> (string, string) gomap" where
  "LabelMap w = index_by label_key label_value (w_labels w)"

text \<open>The digest is a parameter: SHA-256 of bytes, as lower case hexadecimal text.\<close>

definition label_text :: "Label \<Rightarrow> string" where
  "label_text l = label_key l @ ''='' @ label_value l"

definition LabelsVersion :: "(string \<Rightarrow> string) \<Rightarrow> Label list \<Rightarrow> string" where
  "LabelsVersion sha256_hex labels =
     take 16 (sha256_hex (concat (map (\<lambda>p. p @ [byte 0]) (sort (map label_text labels)))))"

lemma LabelsVersion_order:
  "mset (map label_text a) = mset (map label_text b) \<Longrightarrow> LabelsVersion h a = LabelsVersion h b"
  unfolding LabelsVersion_def by (metis properties_for_sort mset_sort sorted_sort)

section \<open>Addresses from facts\<close>

definition v4_in :: "32 word \<Rightarrow> nat \<Rightarrow> 32 word \<Rightarrow> bool" where
  "v4_in net n w = (drop_bit (32 - n) w = net)"

definition v6_top :: "nat \<Rightarrow> 128 word \<Rightarrow> nat" where
  "v6_top n w = unat (drop_bit (128 - n) w)"

fun IsLoopback :: "addr \<Rightarrow> bool" where
  "IsLoopback (V4 w) = v4_in 127 8 w"
| "IsLoopback (V6 w z) = (w = 1)"

fun IsLinkLocalUnicast :: "addr \<Rightarrow> bool" where
  "IsLinkLocalUnicast (V4 w) = v4_in 43518 16 w"
| "IsLinkLocalUnicast (V6 w z) = (v6_top 10 w = 1018)"

fun IsMulticast :: "addr \<Rightarrow> bool" where
  "IsMulticast (V4 w) = v4_in 14 4 w"
| "IsMulticast (V6 w z) = (v6_top 8 w = 255)"

fun IsLinkLocalMulticast :: "addr \<Rightarrow> bool" where
  "IsLinkLocalMulticast (V4 w) = v4_in 14680064 24 w"
| "IsLinkLocalMulticast (V6 w z) = (v6_top 8 w = 255 \<and> v6_top 16 w mod 16 = 2)"

fun IsInterfaceLocalMulticast :: "addr \<Rightarrow> bool" where
  "IsInterfaceLocalMulticast (V4 w) = False"
| "IsInterfaceLocalMulticast (V6 w z) = (v6_top 8 w = 255 \<and> v6_top 16 w mod 16 = 1)"

definition IsUnspecified :: "addr \<Rightarrow> bool" where
  "IsUnspecified a = (a = V4 0 \<or> a = V6 0 [])"

definition parseAddr :: "string \<Rightarrow> addr option" where
  "parseAddr s = (case parse_prefix s of Some p \<Rightarrow> Some (prefix_addr p) | None \<Rightarrow> parse_addr s)"

text \<open>The insertion sort of the source: each element moves left past greater ones.\<close>

fun sift :: "'a::linorder \<Rightarrow> 'a list \<Rightarrow> 'a list" where
  "sift x [] = [x]"
| "sift x (y # ys) = (if x < y then y # sift x ys else x # y # ys)"

definition sortAddrs :: "'a::linorder list \<Rightarrow> 'a list" where
  "sortAddrs xs = rev (fold sift xs [])"

definition unreachable :: "addr \<Rightarrow> bool" where
  "unreachable a = (IsLoopback a \<or> IsLinkLocalUnicast a \<or> IsLinkLocalMulticast a \<or> IsMulticast a
     \<or> IsUnspecified a \<or> IsInterfaceLocalMulticast a)"

definition facts_step :: "string \<Rightarrow> addr list \<Rightarrow> addr list" where
  "facts_step s out = (case parseAddr s of None \<Rightarrow> out
     | Some a \<Rightarrow> let a = unmap a in if unreachable a then out else if a \<in> set out then out else out @ [a])"

definition AddressesFromFacts :: "HostFacts option \<Rightarrow> addr list" where
  "AddressesFromFacts facts = sortAddrs (fold facts_step
     (concat (map nif_addresses (case facts of None \<Rightarrow> [] | Some f \<Rightarrow> hf_interfaces f))) [])"

lemma mset_sift: "mset (sift x ys) = add_mset x (mset ys)"
  by (induction ys) auto

lemma sorted_sift: "sorted (rev ys) \<Longrightarrow> sorted (rev (sift x ys))"
proof (induction ys)
  case (Cons y ys)
  have "set (sift x ys) = insert x (set ys)" by (metis mset_sift set_mset_add_mset_insert set_mset_mset)
  with Cons show ?case by (auto simp: sorted_append)
qed simp

lemma fold_sift: "sorted (rev acc) \<Longrightarrow> sorted (rev (fold sift xs acc)) \<and> mset (fold sift xs acc) = mset xs + mset acc"
  by (induction xs arbitrary: acc) (auto simp: sorted_sift mset_sift)

lemma sortAddrs_sort: "sortAddrs xs = sort xs"
  unfolding sortAddrs_def using fold_sift [of "[]" xs]
  by (metis add.right_neutral mset.simps(1) mset_rev properties_for_sort rev.simps(1) sorted_wrt.simps(1))

lemma fold_facts_step:
  "distinct out \<Longrightarrow> distinct (fold facts_step ss out) \<and> set (fold facts_step ss out) =
     set out \<union> {a. \<not> unreachable a \<and> (\<exists>s\<in>set ss. map_option unmap (parseAddr s) = Some a)}"
proof (induction ss arbitrary: out)
  case (Cons s ss)
  have "distinct (facts_step s out)"
    using Cons.prems by (simp add: facts_step_def Let_def split: option.split)
  moreover have "set (facts_step s out) = set out \<union> {a. \<not> unreachable a \<and> map_option unmap (parseAddr s) = Some a}"
    by (auto simp: facts_step_def Let_def split: option.split)
  ultimately show ?case using Cons.IH [of "facts_step s out"] by auto
qed simp

lemma AddressesFromFacts_spec:
  "sorted (AddressesFromFacts facts) \<and> distinct (AddressesFromFacts facts) \<and>
   set (AddressesFromFacts facts) = {a. \<not> unreachable a \<and> (\<exists>f n s. facts = Some f \<and> n \<in> set (hf_interfaces f)
     \<and> s \<in> set (nif_addresses n) \<and> map_option unmap (parseAddr s) = Some a)}"
  using fold_facts_step [of "[]" "concat (map nif_addresses (case facts of None \<Rightarrow> [] | Some f \<Rightarrow> hf_interfaces f))"]
  by (cases facts) (auto simp: AddressesFromFacts_def sortAddrs_sort)

section \<open>Properties\<close>

end
