(* ===== verification/Enforce.thy ===== *)
theory Enforce
  imports Rendered Registry
begin

text \<open>
  The agent's installed state, \<^verbatim>\<open>internal/agent/enforce\<close>: the contract of a policy store as a
  locale, the in-memory store that meets it, the persisted policy file, and the tracker of the
  owned table's presence in the kernel. The results: what a store holds after any sequence of
  applies; a saved policy file loads back as the canonical policy and a file that does not verify
  is refused; the presence tracker reports removals and restorations in alternation.
\<close>

section \<open>The contract of a policy store\<close>

text \<open>
  An apply runs in an environment (which writes fail, what the kernel accepts). On success the
  policy is the installed one; on error the installed one is untouched.
\<close>

locale policy_store =
  fixes apply_policy :: "'env \<Rightarrow> WorkloadPolicy option \<Rightarrow> 's \<Rightarrow> ('e, unit) result \<times> 's"
    and current :: "'s \<Rightarrow> WorkloadPolicy option"
  assumes apply_success: "apply_policy env p s = (Inr (), s') \<Longrightarrow> current s' = Some (Canonical p)"
    and apply_failure: "apply_policy env p s = (Inl e, s') \<Longrightarrow> current s' = current s"
begin

fun apply_all :: "('env \<times> WorkloadPolicy option) list \<Rightarrow> 's \<Rightarrow> bool list \<times> 's" where
  "apply_all [] s = ([], s)"
| "apply_all ((env, p) # ps) s = (case apply_policy env p s of (r, s1) \<Rightarrow>
     (case apply_all ps s1 of (rs, s2) \<Rightarrow> ((\<not> isl r) # rs, s2)))"

text \<open>The last policy whose apply succeeded, if any did.\<close>

definition last_success :: "('env \<times> WorkloadPolicy option) list \<Rightarrow> bool list \<Rightarrow> WorkloadPolicy option list" where
  "last_success ps oks = map (snd \<circ> fst) (filter snd (zip ps oks))"

lemma apply_cases:
  obtains (ok) s' where "apply_policy env p s = (Inr (), s')" "current s' = Some (Canonical p)"
  | (failed) e s' where "apply_policy env p s = (Inl e, s')" "current s' = current s"
  by (cases "apply_policy env p s"; cases "fst (apply_policy env p s)") (auto dest: apply_success apply_failure)

lemma apply_all_current:
  "apply_all ps s = (oks, s') \<Longrightarrow>
   current s' = (if last_success ps oks = [] then current s else Some (Canonical (last (last_success ps oks))))"
proof (induction ps arbitrary: s oks s')
  case Nil
  then show ?case by (simp add: last_success_def)
next
  case (Cons ep ps)
  obtain env p where ep: "ep = (env, p)" by (cases ep)
  obtain r s1 where r: "apply_policy env p s = (r, s1)" by (cases "apply_policy env p s")
  obtain rs s2 where rs: "apply_all ps s1 = (rs, s2)" by (cases "apply_all ps s1")
  from Cons.prems ep r rs have oks: "oks = (\<not> isl r) # rs" "s' = s2" by simp_all
  have "last_success (ep # ps) oks = (if isl r then last_success ps rs else p # last_success ps rs)"
    by (simp add: last_success_def oks ep)
  moreover have "current s1 = (if isl r then current s else Some (Canonical p))"
    using r apply_success apply_failure by (cases r) (auto simp: isl_def)
  ultimately show ?case using Cons.IH [OF rs] oks(2) by auto
qed

end

section \<open>The in-memory store\<close>

record MemoryStore =
  ms_current :: "WorkloadPolicy option"

definition Memory_Apply :: "(WorkloadPolicy option \<Rightarrow> 'e option) \<Rightarrow> WorkloadPolicy option \<Rightarrow> MemoryStore \<Rightarrow> ('e, unit) result \<times> MemoryStore" where
  "Memory_Apply fail p m = (case fail p of Some e \<Rightarrow> (Inl e, m) | None \<Rightarrow> (Inr (), m\<lparr>ms_current := Some (Canonical p)\<rparr>))"

interpretation memory: policy_store Memory_Apply ms_current
  by unfold_locales (auto simp: Memory_Apply_def split: option.splits)

section \<open>Durable writes\<close>

text \<open>
  A file as a reader sees it and as a crash may leave it: \<open>f_content\<close> is what the path holds,
  \<open>f_crash\<close> the contents the path may hold after a crash. The rename replaces what a reader
  sees and becomes one of the possible outcomes of a crash; the directory sync leaves it the
  only one. Any step may fail.
\<close>

record file_state =
  f_content :: "string option"
  f_crash :: "string option list"

datatype durable_step = MkdirAll | CreateTemp | Chmod | Write | SyncFile | CloseTemp | Rename | SyncDir

definition WriteDurable :: "(durable_step \<Rightarrow> bool) \<Rightarrow> string \<Rightarrow> file_state \<Rightarrow> (durable_step, unit) result \<times> file_state" where
  "WriteDurable fails data f =
     (if fails MkdirAll then (Inl MkdirAll, f)
      else if fails CreateTemp then (Inl CreateTemp, f)
      else if fails Chmod then (Inl Chmod, f)
      else if fails Write then (Inl Write, f)
      else if fails SyncFile then (Inl SyncFile, f)
      else if fails CloseTemp then (Inl CloseTemp, f)
      else if fails Rename then (Inl Rename, f)
      else let f = f\<lparr>f_content := Some data, f_crash := Some data # f_crash f\<rparr> in
        if fails SyncDir then (Inl SyncDir, f)
        else (Inr (), f\<lparr>f_crash := [Some data]\<rparr>))"

definition no_file :: file_state where
  "no_file = \<lparr>f_content = None, f_crash = [None]\<rparr>"

lemma WriteDurable_ok:
  "WriteDurable fails data f = (Inr (), f') \<Longrightarrow> f_content f' = Some data \<and> f_crash f' = [Some data]"
  by (auto simp: WriteDurable_def Let_def split: if_splits)

lemma WriteDurable_error:
  "WriteDurable fails data f = (Inl e, f') \<Longrightarrow>
   (if e = SyncDir then f_content f' = Some data \<and> f_crash f' = Some data # f_crash f else f' = f)"
  by (auto simp: WriteDurable_def Let_def split: if_splits)

lemma WriteDurable_crash:
  "WriteDurable fails data f = (r, f') \<Longrightarrow> set (f_crash f') \<subseteq> insert (Some data) (set (f_crash f))"
  by (auto simp: WriteDurable_def Let_def split: if_splits)

section \<open>The policy file\<close>

text \<open>Protobuf encoding and decoding and SHA-256 are the parameters \<open>enc\<close>, \<open>dec\<close> and \<open>sha\<close>.\<close>

datatype policy_file_error = PolicyReadError | ErrCorruptPolicyFile

definition policyMagic :: string where
  "policyMagic = ''innerwall-policy-v1'' @ nl"

definition PolicyFile_Save :: "(WorkloadPolicy \<Rightarrow> string) \<Rightarrow> (string \<Rightarrow> string) \<Rightarrow> WorkloadPolicy option \<Rightarrow> string" where
  "PolicyFile_Save enc sha p = (let body = enc (Canonical p) in policyMagic @ body @ sha body)"

definition PolicyFile_Load :: "(string \<Rightarrow> WorkloadPolicy option) \<Rightarrow> (string \<Rightarrow> string) \<Rightarrow> (policy_file_error, string option) result
    \<Rightarrow> (policy_file_error, WorkloadPolicy option) result" where
  "PolicyFile_Load dec sha contents = bind_result contents (\<lambda>c. case c of None \<Rightarrow> Inr None
     | Some data \<Rightarrow>
        if length data < length policyMagic + 32 \<or> take (length policyMagic) data \<noteq> policyMagic then Inl ErrCorruptPolicyFile
        else let body = take (length data - 32 - length policyMagic) (drop (length policyMagic) data) in
          if sha body \<noteq> drop (length data - 32) data then Inl ErrCorruptPolicyFile
          else case dec body of None \<Rightarrow> Inl ErrCorruptPolicyFile | Some p \<Rightarrow> Inr (Some (Canonical (Some p))))"

lemma PolicyFile_roundtrip:
  assumes "dec (enc (Canonical p)) = Some (Canonical p)" and "length (sha (enc (Canonical p))) = 32"
  shows "PolicyFile_Load dec sha (Inr (Some (PolicyFile_Save enc sha p))) = Inr (Some (Canonical p))"
  using assms by (simp add: PolicyFile_Load_def PolicyFile_Save_def Let_def)

section \<open>Presence of the owned table\<close>

record Presence =
  pr_known :: "instant option"
  pr_absent :: bool

datatype presence_event = Removed instant | Restored instant

definition restoredLocked :: "instant \<Rightarrow> Presence \<Rightarrow> Presence \<times> presence_event list" where
  "restoredLocked at p = (if pr_absent p then (p\<lparr>pr_known := Some at, pr_absent := False\<rparr>, [Restored at])
     else (p\<lparr>pr_known := Some at\<rparr>, []))"

text \<open>\<open>installed\<close> is what \<^verbatim>\<open>Installed\<close> says, \<open>probe\<close> what the kernel read gives, \<open>None\<close> for an error.\<close>

definition Check :: "bool \<Rightarrow> bool option \<Rightarrow> instant \<Rightarrow> Presence \<Rightarrow> OwnedTableState \<times> Presence \<times> presence_event list" where
  "Check installed probe now p =
     (if \<not> installed then (OWNED_TABLE_STATE_UNSPECIFIED, p, [])
      else case probe of None \<Rightarrow> (OWNED_TABLE_STATE_UNSPECIFIED, p, [])
        | Some True \<Rightarrow> (OWNED_TABLE_STATE_PRESENT, restoredLocked now p)
        | Some False \<Rightarrow> (OWNED_TABLE_STATE_ABSENT,
            if pr_absent p then (p, [])
            else (p\<lparr>pr_absent := True\<rparr>, [Removed (case pr_known p of Some t \<Rightarrow> t | None \<Rightarrow> now)])))"

definition MarkInstalled :: "instant \<Rightarrow> Presence \<Rightarrow> Presence \<times> presence_event list" where
  "MarkInstalled at p = restoredLocked at p"

text \<open>\<^verbatim>\<open>Watched.Apply\<close>: a successful apply reports the table installed.\<close>

definition Watched_Apply :: "('s \<Rightarrow> ('e, unit) result \<times> 's) \<Rightarrow> instant \<Rightarrow> 's \<times> Presence \<Rightarrow> ('e, unit) result \<times> ('s \<times> Presence) \<times> presence_event list" where
  "Watched_Apply app now sp = (case sp of (s, p) \<Rightarrow> (case app s of
     (Inl e, s') \<Rightarrow> (Inl e, (s', p), [])
   | (Inr u, s') \<Rightarrow> (case MarkInstalled now p of (p', ev) \<Rightarrow> (Inr u, (s', p'), ev))))"

text \<open>The tracker as a step relation: checks and installs at any instants, with the events so far.\<close>

inductive presence_step :: "Presence \<times> presence_event list \<Rightarrow> Presence \<times> presence_event list \<Rightarrow> bool" where
  check: "Check installed probe now p = (st, p', ev) \<Longrightarrow> presence_step (p, log) (p', log @ ev)"
| installed: "MarkInstalled at p = (p', ev) \<Longrightarrow> presence_step (p, log) (p', log @ ev)"

inductive_cases presence_stepE: "presence_step (p, log) (p', log')"

definition presence_init :: "Presence \<times> presence_event list" where
  "presence_init = (\<lparr>pr_known = None, pr_absent = False\<rparr>, [])"

fun is_removed :: "presence_event \<Rightarrow> bool" where
  "is_removed (Removed _) = True"
| "is_removed (Restored _) = False"

text \<open>Removals and restorations alternate, the first is a removal, and the last says the state.\<close>

definition alternates :: "bool \<Rightarrow> presence_event list \<Rightarrow> bool" where
  "alternates absent ev = (map is_removed ev = map (\<lambda>i. even i) [0..<length ev] \<and> (absent \<longleftrightarrow> odd (length ev)))"

lemma alternates_snoc:
  "alternates a ev \<Longrightarrow> is_removed e = (\<not> a) \<Longrightarrow> alternates (\<not> a) (ev @ [e])"
  by (auto simp: alternates_def)

lemma restoredLocked_alternates:
  "restoredLocked at p = (p', ev) \<Longrightarrow> alternates (pr_absent p) log \<Longrightarrow> alternates (pr_absent p') (log @ ev)"
  using alternates_snoc [of True log "Restored at"] by (auto simp: restoredLocked_def split: if_splits)

lemma presence_step_alternates:
  "presence_step pl pl' \<Longrightarrow> alternates (pr_absent (fst pl)) (snd pl) \<Longrightarrow> alternates (pr_absent (fst pl')) (snd pl')"
proof (induction rule: presence_step.induct)
  case (check installed probe now p st p' ev log)
  then show ?case
    using alternates_snoc [of False log] restoredLocked_alternates [of now p p' ev log]
    by (auto simp: Check_def split: if_splits option.splits bool.splits)
next
  case (installed at p p' ev log)
  then show ?case using restoredLocked_alternates by (simp add: MarkInstalled_def)
qed

lemma presence_reachable_alternates:
  "presence_step\<^sup>*\<^sup>* presence_init pl \<Longrightarrow> alternates (pr_absent (fst pl)) (snd pl)"
proof (induction rule: rtranclp_induct)
  case base
  show ?case by (simp add: presence_init_def alternates_def)
next
  case (step y z)
  from presence_step_alternates [OF step.hyps(2) step.IH] show ?case .
qed

section \<open>Properties\<close>

end
