(* ===== verification/Nft.thy ===== *)
theory Nft
  imports Marks Enforce
begin

text \<open>
  The scripts of the Linux enforcement backend, \<^verbatim>\<open>internal/agent/enforce/nft\<close>: the one that
  installs a policy (\<^verbatim>\<open>render.go\<close>) and the one that updates its sets (\<^verbatim>\<open>delta.go\<close>), as the text
  the code writes, byte for byte. The results: the two deciding modes differ in one line, and a
  set update is possible exactly when peers are all that changed.
\<close>

section \<open>The script of a policy\<close>

definition DefaultTable :: string where "DefaultTable = ''innerwall''"
definition DefaultNflogGroup :: "16 word" where "DefaultNflogGroup = 200"
definition ChainName :: string where "ChainName = ''inbound''"
definition ObserveChainName :: string where "ObserveChainName = ''observe''"
definition Priority :: string where "Priority = ''filter + 10''"
definition LogPrefix :: string where "LogPrefix = ''innerwall ''"

record Options =
  opt_table :: string
  opt_group :: "16 word"

definition Options_table :: "Options \<Rightarrow> string" where
  "Options_table opts = (if opt_table opts \<noteq> [] then opt_table opts else DefaultTable)"

definition Options_group :: "Options \<Rightarrow> 16 word" where
  "Options_group opts = (if opt_group opts \<noteq> 0 then opt_group opts else DefaultNflogGroup)"

text \<open>The characters a set name keeps, all of one byte.\<close>

definition set_char :: "char \<Rightarrow> bool" where
  "set_char c = (let n = (of_char c :: nat) in 97 \<le> n \<and> n \<le> 122 \<or> 65 \<le> n \<and> n \<le> 90 \<or> 48 \<le> n \<and> n \<le> 57 \<or> n = 95)"

definition SetName :: "string \<Rightarrow> bool \<Rightarrow> string" where
  "SetName k v6 = ''r_'' @ map_runes set_char CHR ''_'' k @ (if v6 then ''_v6'' else ''_v4'')"

fun carriesSets :: "EnforcementMode \<Rightarrow> bool" where
  "carriesSets ENFORCEMENT_MODE_ENFORCED = True"
| "carriesSets ENFORCEMENT_MODE_SIMULATION = True"
| "carriesSets ENFORCEMENT_MODE_VISIBILITY = False"
| "carriesSets ENFORCEMENT_MODE_UNSPECIFIED = False"
| "carriesSets (ENFORCEMENT_MODE_OTHER _) = False"

definition splitPeers :: "string list \<Rightarrow> string list \<times> string list" where
  "splitPeers cidrs = (sort (filter (\<lambda>c. CHR '':'' \<notin> set c \<and> CHR ''.'' \<in> set c) cidrs),
     sort (filter (\<lambda>c. CHR '':'' \<in> set c) cidrs))"

definition writeSet :: "string \<Rightarrow> string \<Rightarrow> string list \<Rightarrow> string" where
  "writeSet name kind elements =
     tab @ ''set '' @ name @ '' {'' @ nl @ tab @ tab @ ''type '' @ kind @ nl @ tab @ tab @ ''flags interval'' @ nl @
     (if elements \<noteq> [] then tab @ tab @ ''elements = { '' @ join '', '' elements @ '' }'' @ nl else []) @
     tab @ ''}'' @ nl"

definition port_part :: "PortRange \<Rightarrow> string" where
  "port_part p = (if port_start p = port_end p then show_dec (unat (port_start p))
     else show_dec (unat (port_start p)) @ ''-'' @ show_dec (unat (port_end p)))"

definition ports_match :: "string \<Rightarrow> PortRange list \<Rightarrow> string" where
  "ports_match proto ranges = (if ranges = [] then ''meta l4proto '' @ proto
     else proto @ '' dport { '' @ join '', '' (map port_part ranges) @ '' }'')"

definition l4Match :: "ResolvedRule \<Rightarrow> string \<times> string" where
  "l4Match r = (case protocol r of
     PROTOCOL_TCP \<Rightarrow> (let m = ports_match ''tcp'' (ports r) in (m, m))
   | PROTOCOL_UDP \<Rightarrow> (let m = ports_match ''udp'' (ports r) in (m, m))
   | PROTOCOL_ICMP \<Rightarrow> (''meta l4proto icmp'', ''meta l4proto ipv6-icmp'')
   | _ \<Rightarrow> (''meta l4proto 255'', ''meta l4proto 255''))"

text \<open>The write of a value, as nft spells it: the foreign bits kept, the region set.\<close>

definition ct_mark_set :: "32 word \<Rightarrow> string" where
  "ct_mark_set m = ''ct mark set (ct mark & 0x'' @ show_hex_pad 8 (unat ForeignMask) @ '') | 0x'' @ show_hex_pad 8 (unat m)"

definition writeAdmit :: "string \<Rightarrow> string \<Rightarrow> string \<Rightarrow> string \<Rightarrow> nat \<Rightarrow> string" where
  "writeAdmit family name match ruleID index =
     tab @ tab @ family @ '' saddr @'' @ name @ '' '' @ match @ '' ct state untracked accept comment '' @ dq @
       ''innerwall rule '' @ ruleID @ '' untracked'' @ dq @ nl @
     tab @ tab @ family @ '' saddr @'' @ name @ '' '' @ match @ '' '' @ ct_mark_set (RuleMark index) @ '' accept comment '' @ dq @
       ''innerwall rule '' @ ruleID @ '' mark '' @ show_dec index @ dq @ nl"

datatype nft_error = ErrUnallocatedRule string | ErrTooManyRules nat | MarksExhausted nat
  | MarksNotSaved | PolicyNotSaved | KernelRefused string | PolicyFileError policy_file_error

definition unallocated :: "(string, nat) gomap \<Rightarrow> ResolvedRule \<Rightarrow> bool" where
  "unallocated marks r = (case map_of marks (rule_id r) of None \<Rightarrow> True | Some m \<Rightarrow> m = 0 \<or> WouldBlockIndex \<le> m)"

definition render_header :: "Options \<Rightarrow> string" where
  "render_header opts = (let t = Options_table opts in
     ''table inet '' @ t @ '' {}'' @ nl @ ''delete table inet '' @ t @ nl @ ''table inet '' @ t @ '' {'' @ nl)"

definition render_observe :: string where
  "render_observe = tab @ ''chain '' @ ObserveChainName @ '' {'' @ nl @
     tab @ tab @ ''type filter hook input priority '' @ Priority @ ''; policy accept;'' @ nl @
     tab @ tab @ ''ct state new counter accept comment '' @ dq @ ''innerwall observation visibility'' @ dq @ nl @
     tab @ ''}'' @ nl @ ''}'' @ nl"

definition render_sets :: "ResolvedRule \<Rightarrow> string" where
  "render_sets r = (case splitPeers (peer_cidrs r) of (v4, v6) \<Rightarrow>
     writeSet (SetName (rule_id r) False) ''ipv4_addr'' v4 @ writeSet (SetName (rule_id r) True) ''ipv6_addr'' v6)"

definition render_chain :: string where
  "render_chain = tab @ ''chain '' @ ChainName @ '' {'' @ nl @
     tab @ tab @ ''type filter hook input priority '' @ Priority @ ''; policy accept;'' @ nl @
     tab @ tab @ ''iif '' @ dq @ ''lo'' @ dq @ '' accept'' @ nl @
     tab @ tab @ ''ct state established,related accept'' @ nl"

definition render_admits :: "(string, nat) gomap \<Rightarrow> ResolvedRule \<Rightarrow> string" where
  "render_admits marks r = (let index = (case map_of marks (rule_id r) of Some m \<Rightarrow> m | None \<Rightarrow> 0) in
     case l4Match r of (m4, m6) \<Rightarrow>
       writeAdmit ''ip'' (SetName (rule_id r) False) m4 (rule_id r) index @
       writeAdmit ''ip6'' (SetName (rule_id r) True) m6 (rule_id r) index)"

definition render_terminal :: "EnforcementMode \<Rightarrow> Options \<Rightarrow> string" where
  "render_terminal md opts = (case md of
     ENFORCEMENT_MODE_ENFORCED \<Rightarrow>
       tab @ tab @ ''log prefix '' @ dq @ LogPrefix @ dq @ '' group '' @ show_dec (unat (Options_group opts)) @
       '' drop comment '' @ dq @ ''innerwall terminal enforced'' @ dq @ nl
   | ENFORCEMENT_MODE_SIMULATION \<Rightarrow>
       tab @ tab @ ''log prefix '' @ dq @ LogPrefix @ dq @ '' group '' @ show_dec (unat (Options_group opts)) @
       '' counter '' @ ct_mark_set WouldBlockMark @ '' accept comment '' @ dq @ ''innerwall terminal simulation'' @ dq @ nl
   | _ \<Rightarrow> [])"

definition Nft_Render :: "WorkloadPolicy option \<Rightarrow> (string, nat) gomap \<Rightarrow> Options \<Rightarrow> (nft_error, string) result" where
  "Nft_Render p marks opts = (let policy = Canonical p; rules = inbound_rules policy in
     if \<not> carriesSets (mode policy) then Inr (render_header opts @ render_observe)
     else case find (unallocated marks) rules of
        Some r \<Rightarrow> Inl (ErrUnallocatedRule (rule_id r))
      | None \<Rightarrow> Inr (render_header opts @ concat (map render_sets rules) @ render_chain @
          concat (map (render_admits marks) rules) @ render_terminal (mode policy) opts @
          tab @ ''}'' @ nl @ ''}'' @ nl))"

definition RenderTeardown :: "Options \<Rightarrow> string" where
  "RenderTeardown opts = ''table inet '' @ Options_table opts @ '' {}'' @ nl @ ''delete table inet '' @ Options_table opts @ nl"

section \<open>The script of a set update\<close>

definition writeElements :: "string \<Rightarrow> string \<Rightarrow> PeerChange \<Rightarrow> string" where
  "writeElements verb t pc = (case splitPeers (pc_peer_cidrs pc) of (v4, v6) \<Rightarrow>
     (if v4 \<noteq> [] then verb @ '' element inet '' @ t @ '' '' @ SetName (pc_rule_id pc) False @ '' { '' @ join '', '' v4 @ '' }'' @ nl else []) @
     (if v6 \<noteq> [] then verb @ '' element inet '' @ t @ '' '' @ SetName (pc_rule_id pc) True @ '' { '' @ join '', '' v6 @ '' }'' @ nl else []))"

fun delta_line :: "string \<Rightarrow> DeltaChange \<Rightarrow> string option" where
  "delta_line t (Some (AddPeers c)) = Some (writeElements ''add'' t c)"
| "delta_line t (Some (RemovePeers c)) = Some (writeElements ''delete'' t c)"
| "delta_line t _ = None"

fun delta_lines :: "string \<Rightarrow> DeltaChange list \<Rightarrow> string option" where
  "delta_lines t [] = Some []"
| "delta_lines t (c # cs) = (case delta_line t c of None \<Rightarrow> None
     | Some l \<Rightarrow> (case delta_lines t cs of None \<Rightarrow> None | Some ls \<Rightarrow> Some (l @ ls)))"

definition GetMode :: "WorkloadPolicy option \<Rightarrow> EnforcementMode" where
  "GetMode p = (case p of None \<Rightarrow> ENFORCEMENT_MODE_UNSPECIFIED | Some q \<Rightarrow> mode q)"

definition RenderDelta :: "WorkloadPolicy option \<Rightarrow> WorkloadPolicy option \<Rightarrow> Options \<Rightarrow> string option" where
  "RenderDelta from to opts =
     (if \<not> carriesSets (GetMode from) \<or> \<not> carriesSets (GetMode to) then None
      else if Diff from to = [] then None
      else delta_lines (Options_table opts) (Diff from to))"

section \<open>What the scripts say\<close>

lemma Canonical_mode: "Canonical (Some (p\<lparr>mode := m\<rparr>)) = (Canonical (Some p))\<lparr>mode := m\<rparr>"
  by (simp add: Canonical.simps)

text \<open>Everything but the terminal rule of a script that decides.\<close>

definition deciding_script :: "WorkloadPolicy \<Rightarrow> (string, nat) gomap \<Rightarrow> Options \<Rightarrow> string \<Rightarrow> string" where
  "deciding_script p marks opts terminal = render_header opts @ concat (map render_sets (inbound_rules (Canonical (Some p)))) @ render_chain @
     concat (map (render_admits marks) (inbound_rules (Canonical (Some p)))) @ terminal @ tab @ ''}'' @ nl @ ''}'' @ nl"

lemma Nft_Render_deciding:
  assumes "carriesSets m"
  shows "Nft_Render (Some (p\<lparr>mode := m\<rparr>)) marks opts =
    (case find (unallocated marks) (inbound_rules (Canonical (Some p))) of Some r \<Rightarrow> Inl (ErrUnallocatedRule (rule_id r))
     | None \<Rightarrow> Inr (deciding_script p marks opts (render_terminal m opts)))"
  using assms by (simp add: Nft_Render_def Let_def Canonical_mode deciding_script_def split: option.split)

lemma Nft_Render_observing:
  "\<not> carriesSets (GetMode p) \<Longrightarrow> p \<noteq> None \<Longrightarrow> Nft_Render p marks opts = Inr (render_header opts @ render_observe)"
  by (cases p) (simp_all add: Nft_Render_def Let_def GetMode_def Canonical.simps)

lemma prefix_string_family:
  assumes "prefix_valid p"
  shows "CHR '':'' \<in> set (prefix_string p) \<longleftrightarrow> is6 (prefix_addr p)"
    and "\<not> is6 (prefix_addr p) \<Longrightarrow> CHR ''.'' \<in> set (prefix_string p)"
proof -
  have dec: "CHR '':'' \<notin> set (show_dec n)" for n
    using show_dec_is_dec [of "CHR '':''" n] by (auto simp: is_dec_def)
  have v4: "CHR '':'' \<notin> set (v4_string w)" for w
    using v4_string_chars [of "CHR '':''" w] by (auto simp: is_dec_def)
  have v6: "CHR '':'' \<in> set (v6_text (v6_hextets w))" for w
    by (rule v6_text_first [of "v6_hextets w"]) simp_all
  have dot: "CHR ''.'' \<in> set (v4_string w)" for w
    by (rule v4_string_split [of w]) simp
  show "CHR '':'' \<in> set (prefix_string p) \<longleftrightarrow> is6 (prefix_addr p)"
    using dec v4 v6 by (cases "prefix_addr p") (auto simp: prefix_string_def)
  show "\<not> is6 (prefix_addr p) \<Longrightarrow> CHR ''.'' \<in> set (prefix_string p)"
    using dot by (cases "prefix_addr p") (auto simp: prefix_string_def)
qed

lemma covering_prefix:
  assumes "NormalizeCIDR c = c" and "cidr_covers c a"
  obtains p where "c = prefix_string p" "prefix_valid p" "prefix_contains p a"
proof (cases c rule: NormalizeCIDR_cases)
  case (prefix p)
  then have "prefix_valid (masked p)" by (simp add: parse_prefix_valid)
  moreover from this have "prefix_contains (masked p) a" using assms prefix by (metis cidr_covers_prefix)
  ultimately show thesis using that prefix assms(1) by metis
next
  case (host b)
  let ?p = "prefix_from (unmap b) (bit_len (unmap b))"
  have "c = prefix_string ?p" using host assms(1) by (simp add: HostRoute_def Let_def)
  moreover from this have "prefix_contains ?p a" using assms(2) by (metis cidr_covers_prefix host_prefix_valid)
  ultimately show thesis using that host_prefix_valid by blast
next
  case other
  with assms(2) show thesis by (simp add: cidr_covers_def)
qed

lemma contains_family: "prefix_contains p a \<Longrightarrow> is6 (prefix_addr p) = is6 a"
  by (cases "(p, a)" rule: prefix_contains.cases) auto

lemma splitPeers_covers:
  assumes "\<forall>c\<in>set cidrs. NormalizeCIDR c = c"
  shows "(\<exists>c\<in>set cidrs. cidr_covers c a) \<longleftrightarrow>
    (\<exists>c\<in>set ((if is6 a then snd else fst) (splitPeers cidrs)). cidr_covers c a)" (is "?l \<longleftrightarrow> ?r")
proof
  assume ?l
  then obtain c where c: "c \<in> set cidrs" "cidr_covers c a" by blast
  with assms obtain p where p: "c = prefix_string p" "prefix_valid p" "prefix_contains p a"
    by (metis covering_prefix)
  with c prefix_string_family [OF p(2)] contains_family [OF p(3)]
  have "c \<in> set ((if is6 a then snd else fst) (splitPeers cidrs))" by (auto simp: splitPeers_def)
  with c show ?r by blast
next
  assume ?r
  then show ?l by (auto simp: splitPeers_def split: if_splits)
qed

section \<open>When a set update is possible\<close>

fun is_peer_change :: "DeltaChange \<Rightarrow> bool" where
  "is_peer_change (Some (AddPeers c)) = True"
| "is_peer_change (Some (RemovePeers c)) = True"
| "is_peer_change _ = False"

lemma delta_line_Some: "(\<exists>l. delta_line t c = Some l) \<longleftrightarrow> is_peer_change c"
  by (cases c rule: is_peer_change.cases) simp_all

lemma delta_lines_Some: "(\<exists>l. delta_lines t cs = Some l) \<longleftrightarrow> (\<forall>c\<in>set cs. is_peer_change c)"
  using delta_line_Some by (induction cs) (fastforce split: option.splits)+

lemma diff_rule_peers:
  assumes "x \<noteq> None \<or> y \<noteq> None"
  shows "(\<forall>c\<in>set (diff_rule x y k). is_peer_change c) \<longleftrightarrow>
    (\<exists>r c. x = Some r \<and> y = Some c \<and> protocol r = protocol c \<and> ports r = ports c)"
  using assms by (cases x; cases y) (auto simp: diff_rule_def setDiff_def portsEqual_iff)

lemma Diff_peers_iff:
  "(\<forall>c\<in>set (Diff from to). is_peer_change c) \<longleftrightarrow> mode (Canonical from) = mode (Canonical to) \<and>
    (\<forall>k. map_option (\<lambda>r. (protocol r, ports r)) (map_of (indexRules (Canonical from)) k) =
         map_option (\<lambda>r. (protocol r, ports r)) (map_of (indexRules (Canonical to)) k))"
  (is "?l \<longleftrightarrow> ?m \<and> ?r")
proof -
  let ?f = "map_of (indexRules (Canonical from))" and ?t = "map_of (indexRules (Canonical to))"
  have "?l \<longleftrightarrow> ?m \<and> (\<forall>k\<in>dom ?f \<union> dom ?t. \<forall>c\<in>set (diff_rule (?f k) (?t k) k). is_peer_change c)"
    unfolding Diff_def Let_def set_append set_concat set_map set_diff_ids ball_Un ball_UN [symmetric] image_Un Union_Un_distrib
    by (cases ?m) simp_all
  also have "\<dots> \<longleftrightarrow> ?m \<and> (\<forall>k\<in>dom ?f \<union> dom ?t. \<exists>r c. ?f k = Some r \<and> ?t k = Some c \<and> protocol r = protocol c \<and> ports r = ports c)"
  proof -
    have "(\<forall>c\<in>set (diff_rule (?f k) (?t k) k). is_peer_change c) \<longleftrightarrow>
        (\<exists>r c. ?f k = Some r \<and> ?t k = Some c \<and> protocol r = protocol c \<and> ports r = ports c)" if "k \<in> dom ?f \<union> dom ?t" for k
      by (rule diff_rule_peers) (use that in \<open>auto simp: domIff\<close>)
    then show ?thesis by (meson ball_cong)
  qed
  also have "\<dots> \<longleftrightarrow> ?m \<and> ?r"
  proof -
    have "(\<forall>k\<in>dom ?f \<union> dom ?t. \<exists>r c. ?f k = Some r \<and> ?t k = Some c \<and> protocol r = protocol c \<and> ports r = ports c) \<longleftrightarrow> ?r"
    proof
      assume l: "\<forall>k\<in>dom ?f \<union> dom ?t. \<exists>r c. ?f k = Some r \<and> ?t k = Some c \<and> protocol r = protocol c \<and> ports r = ports c"
      show ?r
      proof
        fix k show "map_option (\<lambda>r. (protocol r, ports r)) (?f k) = map_option (\<lambda>r. (protocol r, ports r)) (?t k)"
        proof (cases "k \<in> dom ?f \<union> dom ?t")
          case True
          from bspec [OF l True] show ?thesis by auto
        next
          case False
          then show ?thesis by (simp add: domIff)
        qed
      qed
    next
      assume r: ?r
      show "\<forall>k\<in>dom ?f \<union> dom ?t. \<exists>r c. ?f k = Some r \<and> ?t k = Some c \<and> protocol r = protocol c \<and> ports r = ports c"
      proof
        fix k assume "k \<in> dom ?f \<union> dom ?t"
        with r [rule_format, of k] show "\<exists>r c. ?f k = Some r \<and> ?t k = Some c \<and> protocol r = protocol c \<and> ports r = ports c"
          by (cases "?f k"; cases "?t k") auto
      qed
    qed
    then show ?thesis by blast
  qed
  finally show ?thesis .
qed

lemma RenderDelta_Some:
  "(\<exists>script. RenderDelta from to opts = Some script) \<longleftrightarrow>
     carriesSets (GetMode from) \<and> carriesSets (GetMode to) \<and> \<not> Equal from to \<and>
     mode (Canonical from) = mode (Canonical to) \<and>
     (\<forall>k. map_option (\<lambda>r. (protocol r, ports r)) (map_of (indexRules (Canonical from)) k) =
          map_option (\<lambda>r. (protocol r, ports r)) (map_of (indexRules (Canonical to)) k))"
proof -
  have "(\<exists>script. RenderDelta from to opts = Some script) \<longleftrightarrow> carriesSets (GetMode from) \<and> carriesSets (GetMode to) \<and>
      Diff from to \<noteq> [] \<and> (\<exists>l. delta_lines (Options_table opts) (Diff from to) = Some l)"
    unfolding RenderDelta_def by auto
  then show ?thesis unfolding delta_lines_Some Diff_peers_iff Diff_Nil_iff .
qed

lemma RenderDelta_ids:
  assumes "RenderDelta from to opts = Some script"
  shows "set (rule_ids from) = set (rule_ids to)"
proof -
  have "set (rule_ids p) = dom (map_of (indexRules (Canonical p)))" for p
    using rule_ids_Canonical(2) [of p] by (simp add: rule_ids_def indexRules_def)
  moreover have "dom (map_of (indexRules (Canonical from))) = dom (map_of (indexRules (Canonical to)))"
  proof -
    have "\<forall>k. map_option (\<lambda>r. (protocol r, ports r)) (map_of (indexRules (Canonical from)) k) =
         map_option (\<lambda>r. (protocol r, ports r)) (map_of (indexRules (Canonical to)) k)"
      using assms RenderDelta_Some [of "from" to opts] by blast
    note eq = this
    show ?thesis
    proof (rule set_eqI)
      fix k show "k \<in> dom (map_of (indexRules (Canonical from))) \<longleftrightarrow> k \<in> dom (map_of (indexRules (Canonical to)))"
        using eq [rule_format, of k] unfolding domIff
        by (cases "map_of (indexRules (Canonical from)) k"; cases "map_of (indexRules (Canonical to)) k") simp_all
    qed
  qed
  ultimately show ?thesis by simp
qed

section \<open>Properties\<close>

text \<open>Enforcing a policy and simulating it install the same script but for the one terminal
  rule, or are refused alike; a policy in a mode that decides nothing installs the one
  observation chain, whatever its rules.\<close>

lemma modes_differ_in_terminal:
  "(case Nft_Render (Some (p\<lparr>mode := ENFORCEMENT_MODE_ENFORCED\<rparr>)) marks opts of
      Inl e \<Rightarrow> Nft_Render (Some (p\<lparr>mode := ENFORCEMENT_MODE_SIMULATION\<rparr>)) marks opts = Inl e
    | Inr script \<Rightarrow> \<exists>before after. script = before @ render_terminal ENFORCEMENT_MODE_ENFORCED opts @ after \<and>
        Nft_Render (Some (p\<lparr>mode := ENFORCEMENT_MODE_SIMULATION\<rparr>)) marks opts =
          Inr (before @ render_terminal ENFORCEMENT_MODE_SIMULATION opts @ after)) \<and>
   Nft_Render (Some (p\<lparr>mode := ENFORCEMENT_MODE_VISIBILITY\<rparr>)) marks opts = Inr (render_header opts @ render_observe)"
proof -
  have "\<exists>before after. \<forall>t. deciding_script p marks opts t = before @ t @ after"
    unfolding deciding_script_def by (metis append.assoc)
  then show ?thesis
    using Nft_Render_deciding [of ENFORCEMENT_MODE_ENFORCED p marks opts] Nft_Render_deciding [of ENFORCEMENT_MODE_SIMULATION p marks opts]
      Nft_Render_observing [of "Some (p\<lparr>mode := ENFORCEMENT_MODE_VISIBILITY\<rparr>)" marks opts]
    by (auto simp: GetMode_def split: option.split)
qed

text \<open>The two sets of a canonical rule split its peers without loss: an address is covered by
  the peers exactly when it is covered by the set of its own family.\<close>

lemma sets_cover_peers:
  assumes "rule_canonical r"
  shows "(\<exists>c\<in>set (peer_cidrs r). cidr_covers c a) \<longleftrightarrow>
    (\<exists>c\<in>set ((if is6 a then snd else fst) (splitPeers (peer_cidrs r))). cidr_covers c a)"
proof (rule splitPeers_covers)
  show "\<forall>c\<in>set (peer_cidrs r). NormalizeCIDR c = c"
    using rule_canonical_peers [OF assms] canonicalCIDRs_id_iff by blast
qed

text \<open>A peer that does not parse as a prefix is not dropped when it contains a dot or a colon:
  it becomes an element of a set.\<close>

lemma splitPeers_keeps_unparsable:
  "parse_prefix ''db.internal'' = None \<and> splitPeers [''db.internal''] = ([''db.internal''], [])"
  by (simp add: splitPeers_def parse_prefix_def cut_last_def)

end
