(* ===== verification/NftStore.thy ===== *)
theory NftStore
  imports Nft
begin

text \<open>
  The store over the owned table, \<^verbatim>\<open>internal/agent/enforce/nft/store.go\<close>: it persists the mark
  allocation and the policy, then runs one script. The results: it meets the contract of a
  policy store; the kernel only ever sees a policy whose file is durable; a mark written by an
  installed rule is classified as that rule's whatever sequence of applies, restarts and
  teardowns led there; after a crash the store comes back with the same policy and the same
  attribution.
\<close>

section \<open>State\<close>

text \<open>
  The codecs of the two files (protobuf and JSON) and SHA-256 are parameters. The host keeps the
  two files and, as a ghost, the owned table: the policy and the values given to the script the
  kernel last accepted. An environment says which steps of the durable writes fail and which
  scripts the kernel accepts.
\<close>

record codecs =
  cd_enc :: "WorkloadPolicy \<Rightarrow> string"
  cd_dec :: "string \<Rightarrow> WorkloadPolicy option"
  cd_menc :: "marksFile \<Rightarrow> string"
  cd_mdec :: "string \<Rightarrow> marksFile option"
  cd_sha :: "string \<Rightarrow> string"

record Host =
  h_policy :: file_state
  h_marks :: file_state
  h_table :: "(WorkloadPolicy \<times> (string, nat) gomap) option"

record Env =
  env_marks :: "durable_step \<Rightarrow> bool"
  env_policy :: "durable_step \<Rightarrow> bool"
  env_run :: "string \<Rightarrow> bool"

datatype ApplyKind = ApplyNone | ApplyFull | ApplyDelta

record Store =
  st_current :: "WorkloadPolicy option"
  st_alloc :: Allocator
  st_last :: ApplyKind

definition Store_New :: Store where
  "Store_New = \<lparr>st_current = None, st_alloc = NewAllocator, st_last = ApplyNone\<rparr>"

section \<open>Operations\<close>

text \<open>The kernel's part of an apply: a set update when it can be one, else the full script.\<close>

definition kernel_apply :: "Options \<Rightarrow> (string \<Rightarrow> bool) \<Rightarrow> WorkloadPolicy option \<Rightarrow> WorkloadPolicy \<Rightarrow> (string, nat) gomap \<Rightarrow> string
    \<Rightarrow> Store \<times> Host \<Rightarrow> (nft_error, unit) result \<times> Store \<times> Host" where
  "kernel_apply opts run current nxt marks full sh = (case sh of (s, h) \<Rightarrow>
     let delta_ok = (current \<noteq> None \<and> (case RenderDelta current (Some nxt) opts of None \<Rightarrow> False | Some script \<Rightarrow> run script)) in
     if delta_ok then (Inr (), s\<lparr>st_current := Some nxt, st_last := ApplyDelta\<rparr>,
         h\<lparr>h_table := map_option (\<lambda>(_, m). (nxt, m)) (h_table h)\<rparr>)
     else if run full then (Inr (), s\<lparr>st_current := Some nxt, st_last := ApplyFull\<rparr>, h\<lparr>h_table := Some (nxt, marks)\<rparr>)
     else (Inl (KernelRefused full), s, h))"

definition Store_Apply :: "codecs \<Rightarrow> Options \<Rightarrow> Env \<Rightarrow> WorkloadPolicy option \<Rightarrow> Store \<times> Host
    \<Rightarrow> (nft_error, unit) result \<times> Store \<times> Host" where
  "Store_Apply cd opts env p sh = (case sh of (s, h) \<Rightarrow>
     let nxt = Canonical p in
     if MaxRules < length (inbound_rules nxt) then (Inl (ErrTooManyRules (length (inbound_rules nxt))), s, h)
     else case Allocate (Some nxt) (st_current s) (st_alloc s) of
       Inl (ErrMarksExhausted n) \<Rightarrow> (Inl (MarksExhausted n), s, h)
     | Inr (marks, alloc) \<Rightarrow>
       (case Nft_Render (Some nxt) marks opts of
          Inl e \<Rightarrow> (Inl e, s, h)
        | Inr full \<Rightarrow>
          (case WriteDurable (env_marks env) (Alloc_Save (cd_menc cd) (cd_sha cd) alloc) (h_marks h) of
             (Inl _, fm) \<Rightarrow> (Inl MarksNotSaved, s, h\<lparr>h_marks := fm\<rparr>)
           | (Inr _, fm) \<Rightarrow>
             (case WriteDurable (env_policy env) (PolicyFile_Save (cd_enc cd) (cd_sha cd) (Some nxt)) (h_policy h) of
                (Inl _, fp) \<Rightarrow> (Inl PolicyNotSaved, s\<lparr>st_alloc := alloc\<rparr>, h\<lparr>h_marks := fm, h_policy := fp\<rparr>)
              | (Inr _, fp) \<Rightarrow> kernel_apply opts (env_run env) (st_current s) nxt marks full
                  (s\<lparr>st_alloc := alloc\<rparr>, h\<lparr>h_marks := fm, h_policy := fp\<rparr>)))))"

definition Store_Load :: "codecs \<Rightarrow> (policy_file_error, string option) result \<Rightarrow> (load_error, string option) result \<Rightarrow> Store
    \<Rightarrow> (nft_error, unit) result \<times> Store" where
  "Store_Load cd pfile mfile s =
     (case PolicyFile_Load (cd_dec cd) (cd_sha cd) pfile of
        Inl e \<Rightarrow> (Inl (PolicyFileError e), s)
      | Inr p \<Rightarrow>
        let alloc = (case loadAllocator (cd_mdec cd) (cd_sha cd) mfile MaxRules of Inr (Some a) \<Rightarrow> a | _ \<Rightarrow> NewAllocator) in
        (case p of None \<Rightarrow> (Inr (), s\<lparr>st_alloc := alloc\<rparr>)
         | Some q \<Rightarrow> (case Allocate p p alloc of
             Inl (ErrMarksExhausted n) \<Rightarrow> (Inl (MarksExhausted n), s)
           | Inr (_, alloc) \<Rightarrow> (Inr (), s\<lparr>st_alloc := alloc, st_current := p\<rparr>))))"

definition Store_Restore :: "Options \<Rightarrow> Env \<Rightarrow> Store \<times> Host \<Rightarrow> (nft_error, unit) result \<times> Store \<times> Host" where
  "Store_Restore opts env sh = (case sh of (s, h) \<Rightarrow>
     (case st_current s of None \<Rightarrow> (Inr (), s, h)
      | Some p \<Rightarrow> (case Allocate (Some p) (Some p) (st_alloc s) of
          Inl (ErrMarksExhausted n) \<Rightarrow> (Inl (MarksExhausted n), s, h)
        | Inr (marks, _) \<Rightarrow> (case Nft_Render (Some p) marks opts of
            Inl e \<Rightarrow> (Inl e, s, h)
          | Inr script \<Rightarrow> if env_run env script then (Inr (), s\<lparr>st_last := ApplyFull\<rparr>, h\<lparr>h_table := Some (p, marks)\<rparr>)
              else (Inl (KernelRefused script), s, h)))))"

definition Store_Mode :: "Store \<Rightarrow> EnforcementMode" where
  "Store_Mode s = (case st_current s of None \<Rightarrow> ENFORCEMENT_MODE_VISIBILITY | Some p \<Rightarrow> mode p)"

definition Classify :: "Store \<Rightarrow> 32 word \<Rightarrow> PolicyDecision \<times> string" where
  "Classify s m = (let index = RuleIndex m in
     if index = WouldBlockIndex then (POLICY_DECISION_WOULD_BLOCK, [])
     else (case Alloc_Rule (st_alloc s) index of Some k \<Rightarrow> (POLICY_DECISION_ALLOWED, k) | None \<Rightarrow> (POLICY_DECISION_OBSERVED, [])))"

definition Store_Mark :: "Store \<Rightarrow> string \<Rightarrow> 32 word option" where
  "Store_Mark s k = map_option RuleMark (Alloc_Mark (st_alloc s) k)"

fun TerminalDecision_of :: "EnforcementMode \<Rightarrow> PolicyDecision" where
  "TerminalDecision_of ENFORCEMENT_MODE_ENFORCED = POLICY_DECISION_BLOCKED"
| "TerminalDecision_of ENFORCEMENT_MODE_SIMULATION = POLICY_DECISION_WOULD_BLOCK"
| "TerminalDecision_of _ = POLICY_DECISION_OBSERVED"

definition TerminalDecision :: "Store \<Rightarrow> PolicyDecision" where
  "TerminalDecision s = TerminalDecision_of (Store_Mode s)"

text \<open>The tables of \<^verbatim>\<open>nft list tables inet\<close>, one per line; fields are split at white space.\<close>

definition parseTables :: "string \<Rightarrow> string list" where
  "parseTables out = concat (map (\<lambda>line. case str_fields line of [a, b, n] \<Rightarrow>
      if a = ''table'' \<and> b = ''inet'' then [n] else [] | _ \<Rightarrow> []) (split_on (CHR 0x0A) out))"

definition TablePresent :: "Options \<Rightarrow> string option \<Rightarrow> bool option" where
  "TablePresent opts listing = map_option (\<lambda>out. Options_table opts \<in> set (parseTables out)) listing"

definition Teardown :: "Options \<Rightarrow> Env \<Rightarrow> Host \<Rightarrow> (nft_error, unit) result \<times> Host" where
  "Teardown opts env h = (if env_run env (RenderTeardown opts) then (Inr (), h\<lparr>h_table := None\<rparr>)
     else (Inl (KernelRefused (RenderTeardown opts)), h))"


section \<open>The contract of a policy store\<close>

lemma kernel_apply_cases:
  obtains (delta) script where "RenderDelta current (Some nxt) opts = Some script" "run script" "current \<noteq> None"
      "kernel_apply opts run current nxt marks full (s, h) = (Inr (), s\<lparr>st_current := Some nxt, st_last := ApplyDelta\<rparr>,
         h\<lparr>h_table := map_option (\<lambda>(_, m). (nxt, m)) (h_table h)\<rparr>)"
  | (full) "run full" "kernel_apply opts run current nxt marks full (s, h) =
        (Inr (), s\<lparr>st_current := Some nxt, st_last := ApplyFull\<rparr>, h\<lparr>h_table := Some (nxt, marks)\<rparr>)"
  | (refused) "kernel_apply opts run current nxt marks full (s, h) = (Inl (KernelRefused full), s, h)"
proof (cases "current \<noteq> None \<and> (case RenderDelta current (Some nxt) opts of None \<Rightarrow> False | Some script \<Rightarrow> run script)")
  case True
  then obtain script where "RenderDelta current (Some nxt) opts = Some script" "run script" by (auto split: option.splits)
  with True delta show thesis by (simp add: kernel_apply_def)
next
  case False
  have "kernel_apply opts run current nxt marks full (s, h) =
      (if run full then (Inr (), s\<lparr>st_current := Some nxt, st_last := ApplyFull\<rparr>, h\<lparr>h_table := Some (nxt, marks)\<rparr>)
       else (Inl (KernelRefused full), s, h))"
    unfolding kernel_apply_def Let_def prod.case if_not_P [OF False] ..
  then show thesis using full refused by (cases "run full") simp_all
qed

lemma kernel_apply_result:
  "kernel_apply opts run current nxt marks full (s, h) = (r, s', h') \<Longrightarrow>
   st_alloc s' = st_alloc s \<and> h_policy h' = h_policy h \<and> h_marks h' = h_marks h \<and>
   (if isl r then s' = s \<and> h' = h else st_current s' = Some nxt)"
  by (cases rule: kernel_apply_cases [of current nxt opts run marks full s h]) auto

text \<open>How an apply ends, with what was written by then.\<close>

lemma Store_Apply_cases:
  assumes "Store_Apply cd opts env p (s, h) = (r, s', h')"
  obtains (refused) e where "r = Inl e" "s' = s" "h' = h"
  | (marks) marks a fm d where "Allocate (Some (Canonical p)) (st_current s) (st_alloc s) = Inr (marks, a)"
      "WriteDurable (env_marks env) (Alloc_Save (cd_menc cd) (cd_sha cd) a) (h_marks h) = (Inl d, fm)"
      "r = Inl MarksNotSaved" "s' = s" "h' = h\<lparr>h_marks := fm\<rparr>"
  | (policy) marks a fm fp d where "Allocate (Some (Canonical p)) (st_current s) (st_alloc s) = Inr (marks, a)"
      "WriteDurable (env_marks env) (Alloc_Save (cd_menc cd) (cd_sha cd) a) (h_marks h) = (Inr (), fm)"
      "WriteDurable (env_policy env) (PolicyFile_Save (cd_enc cd) (cd_sha cd) (Some (Canonical p))) (h_policy h) = (Inl d, fp)"
      "r = Inl PolicyNotSaved" "s' = s\<lparr>st_alloc := a\<rparr>" "h' = h\<lparr>h_marks := fm, h_policy := fp\<rparr>"
  | (kernel) marks a fm fp full where "Allocate (Some (Canonical p)) (st_current s) (st_alloc s) = Inr (marks, a)"
      "Nft_Render (Some (Canonical p)) marks opts = Inr full"
      "WriteDurable (env_marks env) (Alloc_Save (cd_menc cd) (cd_sha cd) a) (h_marks h) = (Inr (), fm)"
      "WriteDurable (env_policy env) (PolicyFile_Save (cd_enc cd) (cd_sha cd) (Some (Canonical p))) (h_policy h) = (Inr (), fp)"
      "kernel_apply opts (env_run env) (st_current s) (Canonical p) marks full
         (s\<lparr>st_alloc := a\<rparr>, h\<lparr>h_marks := fm, h_policy := fp\<rparr>) = (r, s', h')"
proof (cases "MaxRules < length (inbound_rules (Canonical p))")
  case True
  with assms show thesis by (intro refused) (auto simp: Store_Apply_def Let_def)
next
  case small: False
  show thesis
  proof (cases "Allocate (Some (Canonical p)) (st_current s) (st_alloc s)")
    case (Inl e)
    with small assms show thesis by (cases e) (intro refused, auto simp: Store_Apply_def Let_def)
  next
    case (Inr ma)
    obtain ms a where ma: "Allocate (Some (Canonical p)) (st_current s) (st_alloc s) = Inr (ms, a)" using Inr by (cases ma) simp
    show thesis
    proof (cases "Nft_Render (Some (Canonical p)) ms opts")
      case (Inl e)
      with small ma assms show thesis by (intro refused) (auto simp: Store_Apply_def Let_def)
    next
      case full: (Inr script)
      obtain rm fm where wm: "WriteDurable (env_marks env) (Alloc_Save (cd_menc cd) (cd_sha cd) a) (h_marks h) = (rm, fm)"
        by (cases "WriteDurable (env_marks env) (Alloc_Save (cd_menc cd) (cd_sha cd) a) (h_marks h)")
      obtain rp fp where wp: "WriteDurable (env_policy env) (PolicyFile_Save (cd_enc cd) (cd_sha cd) (Some (Canonical p))) (h_policy h) = (rp, fp)"
        by (cases "WriteDurable (env_policy env) (PolicyFile_Save (cd_enc cd) (cd_sha cd) (Some (Canonical p))) (h_policy h)")
      note run = assms [unfolded Store_Apply_def Let_def prod.case if_not_P [OF small] ma full wm wp sum.case]
      show thesis
      proof (cases rm)
        case (Inl d)
        with run wm show thesis by (intro marks [OF ma]) auto
      next
        case m: (Inr u)
        show thesis
        proof (cases rp)
          case (Inl d)
          with run wm wp m show thesis by (intro policy [OF ma]) auto
        next
          case (Inr v)
          with run wm wp m show thesis by (intro kernel [OF ma full]) auto
        qed
      qed
    qed
  qed
qed

interpretation nft: policy_store "\<lambda>(cd, opts, env). Store_Apply cd opts env" "\<lambda>sh. st_current (fst sh)"
proof
  fix env :: "codecs \<times> Options \<times> Env" and p sh sh'
  assume run: "(case env of (cd, opts, env) \<Rightarrow> Store_Apply cd opts env) p sh = (Inr (), sh')"
  show "st_current (fst sh') = Some (Canonical p)"
    using run by (cases env; cases sh; cases sh') (auto elim!: Store_Apply_cases dest: kernel_apply_result)
next
  fix env :: "codecs \<times> Options \<times> Env" and p sh sh' e
  assume run: "(case env of (cd, opts, env) \<Rightarrow> Store_Apply cd opts env) p sh = (Inl e, sh')"
  show "st_current (fst sh') = st_current (fst sh)"
    using run by (cases env; cases sh; cases sh') (auto elim!: Store_Apply_cases dest: kernel_apply_result)
qed

section \<open>The invariant of the store and its host\<close>

definition marks_agree :: "WorkloadPolicy \<Rightarrow> (string, nat) gomap \<Rightarrow> Allocator \<Rightarrow> bool" where
  "marks_agree p m a = (\<forall>k\<in>set (rule_ids (Some p)). Alloc_Mark a k \<noteq> None \<and> map_of m k = Alloc_Mark a k)"

definition store_inv :: "Store \<times> Host \<Rightarrow> bool" where
  "store_inv sh = (case sh of (s, h) \<Rightarrow> alloc_inv (st_alloc s) \<and> al_limit (st_alloc s) = MaxRules \<and>
     (\<forall>p m. h_table h = Some (p, m) \<longrightarrow> st_current s = Some p \<and> marks_agree p m (st_alloc s)) \<and>
     (h_table h \<noteq> None \<longrightarrow> None \<notin> set (f_crash (h_policy h))))"

text \<open>
  The life of the store: applies in any environment, restarts (after a crash or not) that load
  and restore, and the local kill switch. The files come back as one of the contents a crash may
  leave, the table as it was or not at all.
\<close>

inductive store_step :: "codecs \<Rightarrow> Options \<Rightarrow> Store \<times> Host \<Rightarrow> Store \<times> Host \<Rightarrow> bool" for cd opts where
  applied: "Store_Apply cd opts env p sh = (r, sh') \<Longrightarrow> store_step cd opts sh sh'"
| restarted: "cp \<in> set (f_crash (h_policy h)) \<Longrightarrow> cm \<in> set (f_crash (h_marks h)) \<Longrightarrow> t = h_table h \<or> t = None \<Longrightarrow>
    Store_Load cd (Inr cp) (Inr cm) Store_New = (Inr (), s1) \<Longrightarrow>
    Store_Restore opts env (s1, \<lparr>h_policy = \<lparr>f_content = cp, f_crash = [cp]\<rparr>, h_marks = \<lparr>f_content = cm, f_crash = [cm]\<rparr>, h_table = t\<rparr>)
      = (Inr (), sh') \<Longrightarrow> store_step cd opts (s, h) sh'"
| torn_down: "Teardown opts env h = (r, h') \<Longrightarrow> store_step cd opts (s, h) (s, h')"

definition store_init :: "Store \<times> Host" where
  "store_init = (Store_New, \<lparr>h_policy = no_file, h_marks = no_file, h_table = None\<rparr>)"

lemma store_inv_init: "store_inv store_init"
  by (simp add: store_inv_def store_init_def Store_New_def NewAllocator_def) (simp add: newAllocator_def)

lemma Allocate_keeps:
  assumes "alloc_inv a" and "Allocate nxt installed a = Inr (marks, b)"
  shows "alloc_inv b" "al_limit b = al_limit a"
    "\<And>k. k \<in> set (rule_ids nxt) \<Longrightarrow> Alloc_Mark b k \<noteq> None \<and> map_of marks k = Alloc_Mark b k"
    "\<And>k. k \<in> set (rule_ids nxt) \<union> set (rule_ids installed) \<Longrightarrow> Alloc_Mark a k \<noteq> None \<Longrightarrow> Alloc_Mark b k = Alloc_Mark a k"
  using Allocate_ok [OF assms] unfolding allocates_def by (blast, blast, metis, blast)

lemma store_inv_apply:
  assumes run: "Store_Apply cd opts env p (s, h) = (r, s', h')" and inv: "store_inv (s, h)"
  shows "store_inv (s', h')"
proof -
  have ai: "alloc_inv (st_alloc s)" "al_limit (st_alloc s) = MaxRules" using inv by (simp_all add: store_inv_def)
  have tab: "st_current s = Some q" "marks_agree q m (st_alloc s)" if "h_table h = Some (q, m)" for q m
    using inv that by (auto simp: store_inv_def)
  have crash: "h_table h \<noteq> None \<Longrightarrow> None \<notin> set (f_crash (h_policy h))" using inv by (simp add: store_inv_def)
  have keep: "marks_agree q m a"
    if "h_table h = Some (q, m)" "Allocate (Some (Canonical p)) (st_current s) (st_alloc s) = Inr (marks, a)" for q m marks a
    unfolding marks_agree_def
  proof
    fix k assume k: "k \<in> set (rule_ids (Some q))"
    with tab(2) [OF that(1)] have "Alloc_Mark (st_alloc s) k \<noteq> None" "map_of m k = Alloc_Mark (st_alloc s) k" unfolding marks_agree_def by blast+
    with Allocate_keeps(4) [OF ai(1) that(2), of k] k tab(1) [OF that(1)] show "Alloc_Mark a k \<noteq> None \<and> map_of m k = Alloc_Mark a k" by simp
  qed
  from run show ?thesis
  proof (cases rule: Store_Apply_cases)
    case refused
    then show ?thesis using inv by simp
  next
    case marks
    then show ?thesis using inv by (simp add: store_inv_def)
  next
    case (policy marks a fm fp d)
    have "None \<notin> set (f_crash fp)" if "h_table h \<noteq> None"
      using crash [OF that] WriteDurable_crash [OF policy(3)] by auto
    then show ?thesis using policy(5,6) keep policy(1) tab Allocate_keeps(1,2) [OF ai(1) policy(1)] ai(2)
      by (auto simp: store_inv_def)
  next
    case (kernel marks a fm fp full)
    have fp: "None \<notin> set (f_crash fp)" using WriteDurable_ok [OF kernel(4)] by simp
    have ab: "alloc_inv a" "al_limit a = MaxRules" using Allocate_keeps(1,2) [OF ai(1) kernel(1)] ai(2) by simp_all
    note ids = Allocate_keeps(3) [OF ai(1) kernel(1)]
    let ?s = "s\<lparr>st_alloc := a\<rparr>" and ?h = "h\<lparr>h_marks := fm, h_policy := fp\<rparr>"
    show ?thesis
    proof (cases rule: kernel_apply_cases [of "st_current s" "Canonical p" opts "env_run env" marks full ?s ?h])
      case (delta script)
      have same: "set (rule_ids (st_current s)) = set (rule_ids (Some (Canonical p)))" by (rule RenderDelta_ids [OF delta(1)])
      have "marks_agree (Canonical p) m a" if t: "h_table h = Some (q, m)" for q m
        using keep [OF t kernel(1)] same tab(1) [OF t] by (simp add: marks_agree_def)
      then show ?thesis using kernel(5) delta(4) ab fp by (auto simp: store_inv_def)
    next
      case full
      moreover have "marks_agree (Canonical p) marks a" using ids by (simp add: marks_agree_def)
      ultimately show ?thesis using kernel(5) ab fp by (auto simp: store_inv_def)
    next
      case refused
      then show ?thesis using kernel(5) ab fp keep kernel(1) tab by (auto simp: store_inv_def)
    qed
  qed
qed

lemma Store_Load_ok:
  assumes "Store_Load cd pf mf s = (Inr (), s1)"
  obtains p a0 where "PolicyFile_Load (cd_dec cd) (cd_sha cd) pf = Inr p" "alloc_inv a0" "al_limit a0 = MaxRules"
    "p = None \<Longrightarrow> s1 = s\<lparr>st_alloc := a0\<rparr>"
    "\<And>q. p = Some q \<Longrightarrow> \<exists>marks b. Allocate p p a0 = Inr (marks, b) \<and> s1 = s\<lparr>st_alloc := b, st_current := p\<rparr>"
proof -
  define a0 where "a0 = (case loadAllocator (cd_mdec cd) (cd_sha cd) mf MaxRules of Inr (Some a) \<Rightarrow> a | _ \<Rightarrow> NewAllocator)"
  have a0: "alloc_inv a0" "al_limit a0 = MaxRules"
    using load_inv [of "cd_mdec cd" "cd_sha cd" mf MaxRules]
    by (auto simp: a0_def NewAllocator_def newAllocator_def alloc_inv_def split: sum.splits option.splits)
  obtain p where p: "PolicyFile_Load (cd_dec cd) (cd_sha cd) pf = Inr p"
    using assms by (cases "PolicyFile_Load (cd_dec cd) (cd_sha cd) pf") (simp_all add: Store_Load_def)
  note run = assms [unfolded Store_Load_def p sum.case Let_def, folded a0_def]
  show thesis
  proof (rule that [OF p a0])
    show "p = None \<Longrightarrow> s1 = s\<lparr>st_alloc := a0\<rparr>" using run by auto
    fix q assume "p = Some q"
    then show "\<exists>marks b. Allocate p p a0 = Inr (marks, b) \<and> s1 = s\<lparr>st_alloc := b, st_current := p\<rparr>"
      using run by (auto split: sum.split_asm alloc_error.split_asm)
  qed
qed

lemma Store_Restore_ok:
  assumes "Store_Restore opts env (s, h) = (Inr (), sh')" and "st_current s = Some p"
  obtains marks b where "Allocate (Some p) (Some p) (st_alloc s) = Inr (marks, b)"
    "sh' = (s\<lparr>st_last := ApplyFull\<rparr>, h\<lparr>h_table := Some (p, marks)\<rparr>)"
  using assms by (auto simp: Store_Restore_def split: sum.split_asm alloc_error.split_asm if_split_asm)

lemma store_inv_restart:
  assumes inv: "store_inv (s, h)" and cp: "cp \<in> set (f_crash (h_policy h))" and t: "t = h_table h \<or> t = None"
    and load: "Store_Load cd (Inr cp) cm Store_New = (Inr (), s1)"
    and restore: "Store_Restore opts env (s1, \<lparr>h_policy = \<lparr>f_content = cp, f_crash = [cp]\<rparr>, h_marks = fm, h_table = t\<rparr>) = (Inr (), sh')"
  shows "store_inv sh'"
proof -
  from load obtain p a0 where l: "PolicyFile_Load (cd_dec cd) (cd_sha cd) (Inr cp) = Inr p" "alloc_inv a0" "al_limit a0 = MaxRules"
    "p = None \<Longrightarrow> s1 = Store_New\<lparr>st_alloc := a0\<rparr>"
    "\<And>q. p = Some q \<Longrightarrow> \<exists>marks b. Allocate p p a0 = Inr (marks, b) \<and> s1 = Store_New\<lparr>st_alloc := b, st_current := p\<rparr>"
    by (rule Store_Load_ok) blast
  show ?thesis
  proof (cases cp)
    case None
    with l(1) have "p = None" by (simp add: PolicyFile_Load_def)
    moreover have "t = None" using inv cp t None by (cases "h_table h") (auto simp: store_inv_def)
    ultimately show ?thesis using restore l(2-4) by (auto simp: Store_Restore_def store_inv_def Store_New_def)
  next
    case (Some data)
    obtain q where q: "p = Some q"
      using l(1) Some by (auto simp: PolicyFile_Load_def Let_def split: if_split_asm option.split_asm)
    from l(5) [OF q] obtain m1 b where b: "Allocate p p a0 = Inr (m1, b)" "s1 = Store_New\<lparr>st_alloc := b, st_current := p\<rparr>" by blast
    note kb = Allocate_keeps [OF l(2) b(1)]
    have cur: "st_current s1 = Some q" and al: "st_alloc s1 = b" using b(2) q by simp_all
    from restore cur obtain marks c where c: "Allocate (Some q) (Some q) (st_alloc s1) = Inr (marks, c)"
      "sh' = (s1\<lparr>st_last := ApplyFull\<rparr>, \<lparr>h_policy = \<lparr>f_content = cp, f_crash = [cp]\<rparr>, h_marks = fm, h_table = Some (q, marks)\<rparr>)"
      by (auto elim: Store_Restore_ok)
    note kc = Allocate_keeps [OF kb(1) c(1) [unfolded al]]
    have "Alloc_Mark b k \<noteq> None \<and> map_of marks k = Alloc_Mark b k" if "k \<in> set (rule_ids (Some q))" for k
      using that kc(3,4) [of k] kb(3) [of k] q by auto
    then have "marks_agree q marks b" by (simp add: marks_agree_def)
    then show ?thesis unfolding c(2) store_inv_def using kb(1,2) l(3) cur al Some by simp
  qed
qed

lemma store_step_inv: "store_step cd opts sh sh' \<Longrightarrow> store_inv sh \<Longrightarrow> store_inv sh'"
proof (induction rule: store_step.induct)
  case (applied env p sh r sh')
  then show ?case using store_inv_apply by (cases sh; cases sh') blast
next
  case (restarted cp h cm t s1 env sh' s)
  then show ?case by (intro store_inv_restart [OF restarted.prems restarted.hyps(1,3,4,5)])
next
  case (torn_down env h r h' s)
  then show ?case by (auto simp: Teardown_def store_inv_def split: if_split_asm)
qed

lemma store_reachable_inv: "(store_step cd opts)\<^sup>*\<^sup>* store_init sh \<Longrightarrow> store_inv sh"
  by (induction rule: rtranclp_induct) (auto simp: store_inv_init intro: store_step_inv)

section \<open>Attribution\<close>

lemma Classify_mark:
  assumes "alloc_inv (st_alloc s)" and "al_limit (st_alloc s) = MaxRules" and "Alloc_Mark (st_alloc s) k = Some i"
  shows "1 \<le> i \<and> i < WouldBlockIndex \<and> Classify s (mark_write x i) = (POLICY_DECISION_ALLOWED, k)"
proof -
  from assms(3) obtain sl where sl: "map_of (al_byID (st_alloc s)) k = Some sl" "slot_mark sl = i" by (auto simp: Alloc_Mark_def)
  note d = alloc_invD [OF assms(1) sl(1)]
  have "al_next (st_alloc s) \<le> Suc MaxRules" using assms(1,2) by (simp add: alloc_inv_def)
  with d sl(2) have i: "1 \<le> i" "i < WouldBlockIndex" by (simp_all add: MaxRules_def WouldBlockIndex_def)
  then have "RuleIndex (mark_write x i) = i" by (intro RuleIndex_mark_write) (simp add: WouldBlockIndex_def)
  with d sl(2) i show ?thesis by (simp add: Classify_def Let_def Alloc_Rule_def)
qed

lemma Classify_would_block: "Classify s (mark_write x WouldBlockIndex) = (POLICY_DECISION_WOULD_BLOCK, [])"
  by (simp add: Classify_def Let_def RuleIndex_mark_write WouldBlockIndex_def)

lemma Classify_cong:
  "(\<And>i. Alloc_Rule (st_alloc s) i = Alloc_Rule (st_alloc s') i) \<Longrightarrow> Classify s m = Classify s' m"
  by (simp add: Classify_def Let_def)

text \<open>Allocating for rules that are all known moves no value.\<close>

lemma Allocate_known:
  assumes inv: "alloc_inv a" and known: "\<And>k. k \<in> set (rule_ids p) \<Longrightarrow> Alloc_Mark a k \<noteq> None"
  shows "\<exists>marks b. Allocate p i a = Inr (marks, b) \<and> al_byMark b = al_byMark a \<and> al_limit b = al_limit a \<and> alloc_inv b"
proof -
  obtain a1 out fresh where s: "fold touch (rule_ids (Some (Canonical p))) (a\<lparr>al_gen := Suc (al_gen a)\<rparr>, [], []) = (a1, out, fresh)"
    "fresh = filter (\<lambda>k. map_of (al_byID a) k = None) (rule_ids (Some (Canonical p)))"
    "alloc_inv a1" "al_limit a1 = al_limit a" "al_byMark a1 = al_byMark a"
    by (rule Allocate_start [OF inv, of p]) blast
  have "fresh = []" using known rule_ids_Canonical(2) [of p] unfolding s(2) by (auto simp: filter_empty_conv Alloc_Mark_def)
  with s show ?thesis by (simp add: Allocate_def)
qed

lemma same_marks_inv:
  "map_of (al_byID b) = map_of (al_byID a) \<Longrightarrow> Alloc_Mark b k = Alloc_Mark a k"
  by (simp add: Alloc_Mark_def)

text \<open>What the files hold after an apply that saved both, loaded into a fresh store.\<close>

lemma Load_saved:
  assumes inv: "alloc_inv a" and lim: "al_limit a = MaxRules"
    and ids: "\<And>k. k \<in> set (rule_ids (Some (Canonical p))) \<Longrightarrow> Alloc_Mark a k \<noteq> None"
    and pol: "cd_dec cd (cd_enc cd (Canonical p)) = Some (Canonical p)"
    and mrk: "cd_mdec cd (cd_menc cd (marks_file a)) = Some (marks_file a)" and sha: "\<And>d. length (cd_sha cd d) = 32"
  shows "\<exists>s1. Store_Load cd (Inr (Some (PolicyFile_Save (cd_enc cd) (cd_sha cd) (Some (Canonical p)))))
      (Inr (Some (Alloc_Save (cd_menc cd) (cd_sha cd) a))) Store_New = (Inr (), s1) \<and>
    st_current s1 = Some (Canonical p) \<and> (\<forall>i. Alloc_Rule (st_alloc s1) i = Alloc_Rule a i)"
proof -
  have "PolicyFile_Load (cd_dec cd) (cd_sha cd) (Inr (Some (PolicyFile_Save (cd_enc cd) (cd_sha cd) (Some (Canonical p))))) = Inr (Some (Canonical p))"
    using PolicyFile_roundtrip [of "cd_dec cd" "cd_enc cd" "Some (Canonical p)" "cd_sha cd"] pol sha by simp
  moreover obtain b where b: "loadAllocator (cd_mdec cd) (cd_sha cd) (Inr (Some (Alloc_Save (cd_menc cd) (cd_sha cd) a))) MaxRules = Inr (Some b)"
    "map_of (al_byID b) = map_of (al_byID a)" "map_of (al_byMark b) = map_of (al_byMark a)"
    using load_Save [of a "cd_mdec cd" "cd_menc cd" "cd_sha cd"] inv mrk sha lim by (auto simp: sha256_Size_def)
  moreover obtain marks c where "Allocate (Some (Canonical p)) (Some (Canonical p)) b = Inr (marks, c)" "al_byMark c = al_byMark b"
    using Allocate_known [of b "Some (Canonical p)" "Some (Canonical p)"] load_inv(1) [OF b(1)] ids same_marks_inv [OF b(2)] by metis
  ultimately show ?thesis by (simp add: Store_Load_def Alloc_Rule_def)
qed

lemma Store_Apply_success:
  assumes "Store_Apply cd opts env p (s, h) = (Inr (), s', h')" and "store_inv (s, h)"
  shows "f_crash (h_policy h') = [Some (PolicyFile_Save (cd_enc cd) (cd_sha cd) (Some (Canonical p)))]"
    "f_crash (h_marks h') = [Some (Alloc_Save (cd_menc cd) (cd_sha cd) (st_alloc s'))]"
    "alloc_inv (st_alloc s')" "al_limit (st_alloc s') = MaxRules"
    "\<And>k. k \<in> set (rule_ids (Some (Canonical p))) \<Longrightarrow> Alloc_Mark (st_alloc s') k \<noteq> None"
    "st_current s' = Some (Canonical p)"
proof -
  have ai: "alloc_inv (st_alloc s)" "al_limit (st_alloc s) = MaxRules" using assms(2) by (simp_all add: store_inv_def)
  from assms(1) obtain marks a fm fp full where k: "Allocate (Some (Canonical p)) (st_current s) (st_alloc s) = Inr (marks, a)"
      "WriteDurable (env_marks env) (Alloc_Save (cd_menc cd) (cd_sha cd) a) (h_marks h) = (Inr (), fm)"
      "WriteDurable (env_policy env) (PolicyFile_Save (cd_enc cd) (cd_sha cd) (Some (Canonical p))) (h_policy h) = (Inr (), fp)"
      "kernel_apply opts (env_run env) (st_current s) (Canonical p) marks full
         (s\<lparr>st_alloc := a\<rparr>, h\<lparr>h_marks := fm, h_policy := fp\<rparr>) = (Inr (), s', h')"
    by (cases rule: Store_Apply_cases) auto
  note r = kernel_apply_result [OF k(4)]
  show "f_crash (h_policy h') = [Some (PolicyFile_Save (cd_enc cd) (cd_sha cd) (Some (Canonical p)))]"
    using r WriteDurable_ok [OF k(3)] by simp
  show "f_crash (h_marks h') = [Some (Alloc_Save (cd_menc cd) (cd_sha cd) (st_alloc s'))]"
    using r WriteDurable_ok [OF k(2)] by simp
  show "alloc_inv (st_alloc s')" "al_limit (st_alloc s') = MaxRules" "st_current s' = Some (Canonical p)"
    using r Allocate_keeps(1,2) [OF ai(1) k(1)] ai(2) by simp_all
  fix j assume "j \<in> set (rule_ids (Some (Canonical p)))"
  then show "Alloc_Mark (st_alloc s') j \<noteq> None" using r Allocate_keeps(3) [OF ai(1) k(1), of j] by simp
qed

lemma Store_Apply_attribution:
  assumes "Store_Apply cd opts env p (s, h) = (r, s', h')" and "store_inv (s, h)"
    and "Classify s m = (POLICY_DECISION_ALLOWED, k)" and "Classify s' m \<noteq> (POLICY_DECISION_ALLOWED, k)"
  shows "MaxRules < al_next (st_alloc s')"
proof -
  have ai: "alloc_inv (st_alloc s)" "al_limit (st_alloc s) = MaxRules" using assms(2) by (simp_all add: store_inv_def)
  have step: "MaxRules < al_next a" if "Allocate (Some (Canonical p)) (st_current s) (st_alloc s) = Inr (marks, a)" "st_alloc s' = a" for marks a
  proof -
    have "\<forall>m k. Alloc_Rule (st_alloc s) m = Some k \<longrightarrow> Alloc_Rule a m \<noteq> Some k \<longrightarrow> al_limit a < al_next a"
      using Allocate_ok [OF ai(1) that(1)] unfolding allocates_def by blast
    moreover have "Alloc_Rule (st_alloc s) (RuleIndex m) = Some k" "RuleIndex m \<noteq> WouldBlockIndex"
      using assms(3) by (auto simp: Classify_def Let_def split: if_split_asm option.split_asm)
    moreover from this have "Alloc_Rule a (RuleIndex m) \<noteq> Some k" using assms(4) that(2) by (auto simp: Classify_def Let_def)
    ultimately show ?thesis using Allocate_keeps(2) [OF ai(1) that(1)] ai(2) by metis
  qed
  from assms(1) show ?thesis
  proof (cases rule: Store_Apply_cases)
    case (policy marks a fm fp d)
    then show ?thesis using step by simp
  next
    case (kernel marks a fm fp full)
    then show ?thesis using step [OF kernel(1)] kernel_apply_result [OF kernel(5)] by simp
  qed (use assms(3,4) in simp_all)
qed

section \<open>A concrete run\<close>

definition demo_codecs :: codecs where
  "demo_codecs = \<lparr>cd_enc = (\<lambda>_. ''p''), cd_dec = (\<lambda>d. if d = ''p'' then Some one_rule else None),
     cd_menc = (\<lambda>_. ''m''), cd_mdec = (\<lambda>d. if d = ''m'' then Some \<lparr>mf_next = 2, mf_generation = 1,
       mf_rules = [\<lparr>mr_id = ''r/tcp'', mr_mark = 1, mr_generation = 1\<rparr>]\<rparr> else None), cd_sha = (\<lambda>_. replicate 32 CHR ''0'')\<rparr>"

definition demo_options :: Options where "demo_options = \<lparr>opt_table = [], opt_group = 0\<rparr>"

definition demo_env :: "bool \<Rightarrow> Env" where
  "demo_env accepts = \<lparr>env_marks = (\<lambda>_. False), env_policy = (\<lambda>_. False), env_run = (\<lambda>_. accepts)\<rparr>"

definition demo_alloc :: Allocator where
  "demo_alloc = \<lparr>al_limit = MaxRules, al_next = 2, al_gen = 1, al_byID = [(''r/tcp'', \<lparr>slot_mark = 1, slot_gen = 1\<rparr>)], al_byMark = [(1, ''r/tcp'')]\<rparr>"

definition demo_host :: "(WorkloadPolicy \<times> (string, nat) gomap) option \<Rightarrow> Host" where
  "demo_host t = \<lparr>h_policy = \<lparr>f_content = Some (PolicyFile_Save (\<lambda>_. ''p'') (\<lambda>_. replicate 32 CHR ''0'') (Some one_rule)),
       f_crash = [Some (PolicyFile_Save (\<lambda>_. ''p'') (\<lambda>_. replicate 32 CHR ''0'') (Some one_rule))]\<rparr>,
     h_marks = \<lparr>f_content = Some (Alloc_Save (\<lambda>_. ''m'') (\<lambda>_. replicate 32 CHR ''0'') demo_alloc),
       f_crash = [Some (Alloc_Save (\<lambda>_. ''m'') (\<lambda>_. replicate 32 CHR ''0'') demo_alloc)]\<rparr>, h_table = t\<rparr>"

definition demo_store :: "ApplyKind \<Rightarrow> Store" where
  "demo_store k = \<lparr>st_current = Some one_rule, st_alloc = demo_alloc, st_last = k\<rparr>"

lemma demo_render: "\<exists>script. Nft_Render (Some one_rule) [(''r/tcp'', 1)] demo_options = Inr script"
  unfolding Nft_Render_def one_rule_canonical
  by (simp add: Let_def one_rule_def unallocated_def WouldBlockIndex_def)

lemma demo_marks: "marks_file demo_alloc = \<lparr>mf_next = 2, mf_generation = 1, mf_rules = [\<lparr>mr_id = ''r/tcp'', mr_mark = 1, mr_generation = 1\<rparr>]\<rparr>"
  by (simp add: marks_file_def demo_alloc_def)

lemma demo_apply:
  "Store_Apply demo_codecs demo_options (demo_env True) (Some one_rule) store_init =
     (Inr (), demo_store ApplyFull, demo_host (Some (one_rule, [(''r/tcp'', 1)])))"
proof -
  obtain script where r: "Nft_Render (Some one_rule) [(''r/tcp'', 1)] demo_options = Inr script" using demo_render by blast
  have a: "Allocate (Some one_rule) None NewAllocator = Inr ([(''r/tcp'', 1)], demo_alloc)"
    unfolding demo_alloc_def by (rule one_rule_Allocate)
  have l: "\<not> MaxRules < length (inbound_rules one_rule)" by (simp add: one_rule_def MaxRules_def WouldBlockIndex_def)
  show ?thesis
    unfolding Store_Apply_def store_init_def Let_def one_rule_canonical prod.case if_not_P [OF l]
    by (simp add: Store_New_def a r WriteDurable_def Let_def no_file_def
        kernel_apply_def demo_env_def demo_codecs_def demo_store_def demo_host_def del: One_nat_def)
qed

lemma demo_reachable: "(store_step demo_codecs demo_options)\<^sup>*\<^sup>* store_init (demo_store ApplyFull, demo_host (Some (one_rule, [(''r/tcp'', 1)])))"
  by (rule r_into_rtranclp) (rule store_step.applied [OF demo_apply])

lemma demo_load:
  "\<exists>a. Store_Load demo_codecs (Inr (f_content (h_policy (demo_host t)))) (Inr (f_content (h_marks (demo_host t)))) Store_New =
     (Inr (), \<lparr>st_current = Some one_rule, st_alloc = a, st_last = ApplyNone\<rparr>)"
proof -
  have inv: "alloc_inv demo_alloc" using store_reachable_inv [OF demo_reachable] by (simp add: store_inv_def demo_store_def)
  have ids: "Alloc_Mark demo_alloc k \<noteq> None" if "k \<in> set (rule_ids (Some one_rule))" for k
    using that by (simp add: rule_ids_def one_rule_def demo_alloc_def Alloc_Mark_def)
  obtain s1 where "Store_Load demo_codecs (Inr (f_content (h_policy (demo_host t)))) (Inr (f_content (h_marks (demo_host t)))) Store_New = (Inr (), s1)"
    "st_current s1 = Some one_rule"
    using Load_saved [OF inv, of "Some one_rule" demo_codecs, unfolded one_rule_canonical] ids
    by (auto simp: demo_alloc_def [THEN arg_cong [of _ _ al_limit]] demo_codecs_def demo_marks demo_host_def)
  moreover from this have "st_last s1 = ApplyNone"
    by (auto simp: Store_Load_def Store_New_def split: sum.split_asm option.split_asm alloc_error.split_asm)
  ultimately show ?thesis by (intro exI [of _ "st_alloc s1"]) simp
qed

section \<open>Properties\<close>



text \<open>\<^bold>\<open>C34\<close>: once an apply has succeeded, whatever a crash leaves of the two files, a fresh store loads
  that policy and attributes every connection mark as the store before the crash did, given that
  the two codecs read what they wrote and the digest has its size.\<close>

theorem crash_keeps_policy_and_attribution:
  assumes "(store_step cd opts)\<^sup>*\<^sup>* store_init (s, h)" and "Store_Apply cd opts env p (s, h) = (Inr (), s', h')"
    and "cp \<in> set (f_crash (h_policy h'))" and "cm \<in> set (f_crash (h_marks h'))"
    and "cd_dec cd (cd_enc cd (Canonical p)) = Some (Canonical p)"
    and "cd_mdec cd (cd_menc cd (marks_file (st_alloc s'))) = Some (marks_file (st_alloc s'))"
    and "\<And>d. length (cd_sha cd d) = 32"
  shows "\<exists>s1. Store_Load cd (Inr cp) (Inr cm) Store_New = (Inr (), s1) \<and> st_current s1 = Some (Canonical p) \<and>
    (\<forall>m. Classify s1 m = Classify s' m)"
proof -
  note ok = Store_Apply_success [OF assms(2) store_reachable_inv [OF assms(1)]]
  from Load_saved [OF ok(3,4) _ assms(5,6,7)] ok(5) obtain s1 where
    "Store_Load cd (Inr cp) (Inr cm) Store_New = (Inr (), s1)" "st_current s1 = Some (Canonical p)"
    "\<forall>i. Alloc_Rule (st_alloc s1) i = Alloc_Rule (st_alloc s') i"
    using assms(3,4) ok(1,2) by auto
  then show ?thesis using Classify_cong [of s1 s'] by blast
qed

theorem crash_keeps_policy_and_attribution_witness:
  "\<exists>s1. Store_Load demo_codecs (Inr (f_content (h_policy (demo_host None)))) (Inr (f_content (h_marks (demo_host None)))) Store_New = (Inr (), s1) \<and>
    st_current s1 = Some one_rule \<and> Classify s1 (mark_write 0 1) = Classify (demo_store ApplyFull) (mark_write 0 1)"
proof -
  have reach: "(store_step demo_codecs demo_options)\<^sup>*\<^sup>* store_init (Store_New, \<lparr>h_policy = no_file, h_marks = no_file, h_table = None\<rparr>)"
    by (simp add: store_init_def)
  show ?thesis
    using crash_keeps_policy_and_attribution [OF reach demo_apply [unfolded store_init_def], of
        "f_content (h_policy (demo_host None))" "f_content (h_marks (demo_host None))", unfolded one_rule_canonical]
    by (auto simp: demo_host_def demo_store_def demo_marks) (auto simp: demo_codecs_def)
qed

text \<open>\<^bold>\<open>C4\<close>: the kernel only sees a policy that is durably on disk: when an apply succeeds or the table
  changes, the policy file holds that policy and no other content can come back after a crash;
  an apply that fails leaves the installed policy and the table as they were.\<close>

theorem persisted_before_kernel:
  assumes "Store_Apply cd opts env p (s, h) = (r, s', h')"
  shows "(\<not> isl r \<or> h_table h' \<noteq> h_table h \<longrightarrow>
      f_crash (h_policy h') = [Some (PolicyFile_Save (cd_enc cd) (cd_sha cd) (Some (Canonical p)))] \<and> st_current s' = Some (Canonical p)) \<and>
    (isl r \<longrightarrow> h_table h' = h_table h \<and> st_current s' = st_current s)"
  using assms
proof (cases rule: Store_Apply_cases)
  case (kernel marks a fm fp full)
  show ?thesis using kernel_apply_result [OF kernel(5)] WriteDurable_ok [OF kernel(4)] by (cases r) auto
qed simp_all

theorem persisted_before_kernel_witness:
  "f_crash (h_policy (demo_host (Some (one_rule, [(''r/tcp'', 1)])))) =
     [Some (PolicyFile_Save (cd_enc demo_codecs) (cd_sha demo_codecs) (Some one_rule))]"
  using persisted_before_kernel [OF demo_apply [unfolded store_init_def], unfolded one_rule_canonical] by simp

text \<open>No apply, whatever its outcome, moves a marked connection from the rule that admitted it to
  another or to none, removed rules included, until the whole region has been handed out.\<close>

lemma attribution_is_stable:
  assumes "(store_step cd opts)\<^sup>*\<^sup>* store_init (s, h)" and "Store_Apply cd opts env p (s, h) = (r, s', h')"
    and "Classify s m = (POLICY_DECISION_ALLOWED, k)" and "al_next (st_alloc s') \<le> MaxRules"
  shows "Classify s' m = (POLICY_DECISION_ALLOWED, k)"
  using Store_Apply_attribution [OF assms(2) store_reachable_inv [OF assms(1)] assms(3)] assms(4) by (metis not_less)

lemma demo_reapply:
  "\<exists>s' h'. Store_Apply demo_codecs demo_options (demo_env False) None (demo_store ApplyFull, demo_host None) = (Inl (KernelRefused (render_header demo_options @ render_observe)), s', h') \<and>
     al_next (st_alloc s') = 2"
proof -
  have "inbound_rules Empty = []" "mode Empty = ENFORCEMENT_MODE_VISIBILITY" "Canonical (Some Empty) = Empty"
    by (simp_all add: Empty_def Canonical.simps rules_by_id_def sorted_keys_def)
  then show ?thesis
    by (simp add: Store_Apply_def Let_def demo_store_def demo_alloc_def Allocate_def rule_ids_def Nft_Render_def WriteDurable_def
        demo_env_def demo_host_def kernel_apply_def RenderDelta_def GetMode_def)
qed

text \<open>Over any sequence of applies, each in its own environment, the store holds the canonical
  form of the last policy whose apply succeeded, or what it held before when none did.\<close>

lemma store_holds_last_success:
  assumes "nft.apply_all ps (s, h) = (oks, (s', h'))"
  shows "st_current s' = (if nft.last_success ps oks = [] then st_current s
    else Some (Canonical (last (nft.last_success ps oks))))"
  using nft.apply_all_current [OF assms] by simp

text \<open>After a restart whose re-apply the kernel refuses, the store holds as its current policy
  one that the kernel does not hold.\<close>

lemma refused_restore_keeps_current:
  "\<exists>s1 e. Store_Load demo_codecs (Inr (f_content (h_policy (demo_host None)))) (Inr (f_content (h_marks (demo_host None)))) Store_New = (Inr (), s1) \<and>
     Store_Restore demo_options (demo_env False) (s1, demo_host None) = (Inl e, s1, demo_host None) \<and>
     st_current s1 = Some one_rule \<and> h_table (demo_host None) = None"
proof -
  obtain a where l: "Store_Load demo_codecs (Inr (f_content (h_policy (demo_host None)))) (Inr (f_content (h_marks (demo_host None)))) Store_New =
      (Inr (), \<lparr>st_current = Some one_rule, st_alloc = a, st_last = ApplyNone\<rparr>)" using demo_load by blast
  have "\<exists>e. Store_Restore demo_options (demo_env False) (s1, demo_host None) = (Inl e, s1, demo_host None)" if "st_current s1 = Some one_rule" for s1
    using that by (auto simp: Store_Restore_def demo_env_def split: sum.split alloc_error.split)
  then have "\<exists>e. Store_Restore demo_options (demo_env False) (\<lparr>st_current = Some one_rule, st_alloc = a, st_last = ApplyNone\<rparr>, demo_host None) =
      (Inl e, \<lparr>st_current = Some one_rule, st_alloc = a, st_last = ApplyNone\<rparr>, demo_host None)" by simp
  with l show ?thesis by (auto simp: demo_host_def)
qed

end
