(* ===== verification/AgentSync.thy ===== *)
theory AgentSync
  imports NftStore
begin

text \<open>
  The agent's sync loop, \<^verbatim>\<open>internal/agent/sync/daemon.go\<close>: the reconnect loop with its jittered
  backoff, one session from Hello to its end, and the application of a policy update with its
  acknowledgement. The policy store is any store that meets \<open>policy_store\<close>; the facts about
  acknowledgements are proved once for it. The results: an acknowledgement says what the store
  holds, the waits are bounded, and a session sends its Hello first and answers each policy
  update with exactly one acknowledgement, in order.
\<close>

section \<open>Reconnecting\<close>

text \<open>
  Durations are signed 64-bit nanoseconds, and the shift wraps. \<open>rng n\<close> is \<^verbatim>\<open>Int64N(n)\<close>, some
  number below \<open>n\<close>.
\<close>

definition backoff_ceiling :: "nat \<Rightarrow> 64 word \<Rightarrow> 64 word \<Rightarrow> 64 word" where
  "backoff_ceiling attempt base limit = (let ceiling = push_bit (min attempt 20) base in
     if sint limit < sint ceiling \<or> sint ceiling \<le> 0 then limit else ceiling)"

definition Backoff :: "(nat \<Rightarrow> nat) \<Rightarrow> nat \<Rightarrow> 64 word \<Rightarrow> 64 word \<Rightarrow> nat" where
  "Backoff rng attempt base limit = rng (nat (sint (backoff_ceiling attempt base limit)))"

text \<open>A ticker's period in nanoseconds; \<open>None\<close> never fires.\<close>

definition newTicker :: "32 word \<Rightarrow> nat option" where
  "newTicker seconds = (if seconds = 0 then None else Some (unat seconds * 1000000000))"

record DaemonConfig =
  dc_backoff_base :: "64 word"
  dc_backoff_cap :: "64 word"
  dc_hello_timeout :: "64 word"

definition Daemon_New :: "DaemonConfig \<Rightarrow> DaemonConfig" where
  "Daemon_New cfg = \<lparr>dc_backoff_base = (if sint (dc_backoff_base cfg) \<le> 0 then 1000000000 else dc_backoff_base cfg),
     dc_backoff_cap = (if sint (dc_backoff_cap cfg) \<le> 0 then 300000000000 else dc_backoff_cap cfg),
     dc_hello_timeout = (if sint (dc_hello_timeout cfg) \<le> 0 then 30000000000 else dc_hello_timeout cfg)\<rparr>"

section \<open>Messages\<close>

record SyncConfig =
  sc_heartbeat_interval_seconds :: "32 word"
  sc_inventory_report_interval_seconds :: "32 word"
  sc_flow_aggregation_window_seconds :: "32 word"
  sc_flow_batch_max_records :: "32 word"

datatype SyncResponse = PolicyUpdate_Msg "PolicyUpdate option" | Reconnect_Msg | Reenroll_Msg | Directive_Other
  | HelloAck_Msg SyncConfig | Response_Empty

record Hello =
  hello_agent :: AgentInfo
  hello_applied_version :: "64 word"
  hello_facts :: "HostFacts option"

record Heartbeat =
  hb_uptime_seconds :: "64 word"
  hb_dropped_flow_records :: "64 word"
  hb_renewal_error :: string
  hb_source_overruns :: "64 word"
  hb_owned_table :: OwnedTableState

record ListeningService =
  ls_protocol :: Protocol
  ls_port :: "32 word"
  ls_process_name :: string
  ls_process_path :: string

record InventoryReport =
  inv_facts :: "HostFacts option"
  inv_listening_services :: "ListeningService list"

datatype SyncRequest = Hello_Msg Hello | PolicyAck_Msg PolicyAck | Inventory_Msg InventoryReport | Heartbeat_Msg Heartbeat | Request_Empty

section \<open>Applying an update\<close>

datatype session_error = ErrReenrollRequired | ErrReconnectDirected | DialFailed | OpenFailed | SendFailed
  | NoHelloAck | RecvFailed | NotHelloAck | SecondHelloAck | NoUpdateVariant

definition failed_ack :: "64 word \<Rightarrow> string \<Rightarrow> PolicyAck" where
  "failed_ack v detail = \<lparr>ack_version = v, ack_status = ACK_STATUS_FAILED, ack_error_detail = detail\<rparr>"

definition applied_ack :: "64 word \<Rightarrow> PolicyAck" where
  "applied_ack v = \<lparr>ack_version = v, ack_status = ACK_STATUS_APPLIED, ack_error_detail = []\<rparr>"

text \<open>
  The store is the pair of \<open>app\<close> and \<open>cur\<close>, \<open>env\<close> the environment of its apply and \<open>text_of\<close> the
  text of an error. The version an update moves to and the policy it gives:
\<close>

fun update_version :: "PolicyUpdate \<Rightarrow> 64 word" where
  "update_version (Snapshot p) = version (Canonical p)"
| "update_version (Delta_Update d) = to_version d"

fun update_next :: "WorkloadPolicy \<Rightarrow> PolicyUpdate \<Rightarrow> (apply_error, WorkloadPolicy) result" where
  "update_next current (Snapshot p) = Inr (Canonical p)"
| "update_next current (Delta_Update d) = Apply (Some current) d"

definition applyUpdate :: "('env \<Rightarrow> WorkloadPolicy option \<Rightarrow> 's \<Rightarrow> ('e, unit) result \<times> 's) \<Rightarrow> ('s \<Rightarrow> WorkloadPolicy option)
    \<Rightarrow> (apply_error + 'e \<Rightarrow> string) \<Rightarrow> 'env \<Rightarrow> PolicyUpdate option \<Rightarrow> 's \<Rightarrow> (session_error, PolicyAck) result \<times> 's" where
  "applyUpdate app cur text_of env update s =
     (let current = (case cur s of None \<Rightarrow> Empty | Some p \<Rightarrow> p) in
      case update of None \<Rightarrow> (Inl NoUpdateVariant, s)
      | Some u \<Rightarrow> (case update_next current u of
          Inl e \<Rightarrow> (Inr (failed_ack (update_version u) (text_of (Inl e))), s)
        | Inr nxt \<Rightarrow> (case app env (Some nxt) s of
            (Inl e, s') \<Rightarrow> (Inr (failed_ack (update_version u) (text_of (Inr e))), s')
          | (Inr _, s') \<Rightarrow> (Inr (applied_ack (update_version u)), s'))))"

text \<open>\<^verbatim>\<open>handle\<close>: what a message makes the agent send, or the error that ends the session.\<close>

definition handle :: "('env \<Rightarrow> WorkloadPolicy option \<Rightarrow> 's \<Rightarrow> ('e, unit) result \<times> 's) \<Rightarrow> ('s \<Rightarrow> WorkloadPolicy option)
    \<Rightarrow> (apply_error + 'e \<Rightarrow> string) \<Rightarrow> 'env \<Rightarrow> SyncResponse \<Rightarrow> 's \<Rightarrow> (session_error, PolicyAck list) result \<times> 's" where
  "handle app cur text_of env msg s = (case msg of
     PolicyUpdate_Msg u \<Rightarrow> (case applyUpdate app cur text_of env u s of (r, s') \<Rightarrow> (map_sum (\<lambda>e. e) (\<lambda>a. [a]) r, s'))
   | Reconnect_Msg \<Rightarrow> (Inl ErrReconnectDirected, s)
   | Reenroll_Msg \<Rightarrow> (Inl ErrReenrollRequired, s)
   | Directive_Other \<Rightarrow> (Inr [], s)
   | HelloAck_Msg _ \<Rightarrow> (Inl SecondHelloAck, s)
   | Response_Empty \<Rightarrow> (Inr [], s))"

section \<open>One session\<close>

text \<open>
  What happens to a session, in the order its \<^verbatim>\<open>select\<close> takes it: a message with the environment
  of its apply, the stream failing, a tick with the readings it sends, or the end of the context.
  Each send may fail. A session ends without error only with its context.
\<close>

datatype 'env session_event = Ev_Message 'env SyncResponse bool | Ev_RecvError | Ev_Heartbeat Heartbeat bool
  | Ev_Inventory InventoryReport bool | Ev_Done

fun session_loop :: "('env \<Rightarrow> WorkloadPolicy option \<Rightarrow> 's \<Rightarrow> ('e, unit) result \<times> 's) \<Rightarrow> ('s \<Rightarrow> WorkloadPolicy option)
    \<Rightarrow> (apply_error + 'e \<Rightarrow> string) \<Rightarrow> 'env session_event list \<Rightarrow> 's \<Rightarrow> SyncRequest list \<times> session_error option \<times> 's" where
  "session_loop app cur text_of [] s = ([], None, s)"
| "session_loop app cur text_of (Ev_Done # evs) s = ([], None, s)"
| "session_loop app cur text_of (Ev_RecvError # evs) s = ([], Some RecvFailed, s)"
| "session_loop app cur text_of (Ev_Message env msg sent # evs) s =
     (case handle app cur text_of env msg s of
        (Inl e, s') \<Rightarrow> ([], Some e, s')
      | (Inr acks, s') \<Rightarrow> if acks \<noteq> [] \<and> \<not> sent then ([], Some SendFailed, s')
          else (case session_loop app cur text_of evs s' of (out, r, s'') \<Rightarrow> (map PolicyAck_Msg acks @ out, r, s'')))"
| "session_loop app cur text_of (Ev_Heartbeat hb sent # evs) s =
     (if \<not> sent then ([], Some SendFailed, s)
      else (case session_loop app cur text_of evs s of (out, r, s') \<Rightarrow> (Heartbeat_Msg hb # out, r, s')))"
| "session_loop app cur text_of (Ev_Inventory report sent # evs) s =
     (if \<not> sent then ([], Some SendFailed, s)
      else (case session_loop app cur text_of evs s of (out, r, s') \<Rightarrow> (Inventory_Msg report # out, r, s')))"

datatype first_event = First_Done | First_Timeout | First_Error | First_Message SyncResponse

definition runSession :: "('env \<Rightarrow> WorkloadPolicy option \<Rightarrow> 's \<Rightarrow> ('e, unit) result \<times> 's) \<Rightarrow> ('s \<Rightarrow> WorkloadPolicy option)
    \<Rightarrow> (apply_error + 'e \<Rightarrow> string) \<Rightarrow> bool \<Rightarrow> bool \<Rightarrow> bool \<Rightarrow> AgentInfo \<Rightarrow> HostFacts option \<Rightarrow> first_event \<Rightarrow> 'env session_event list \<Rightarrow> 's
    \<Rightarrow> SyncRequest list \<times> bool \<times> session_error option \<times> 's" where
  "runSession app cur text_of dials opens sends agent facts first evs s =
     (if \<not> dials then ([], False, Some DialFailed, s)
      else if \<not> opens then ([], False, Some OpenFailed, s)
      else if \<not> sends then ([], False, Some SendFailed, s)
      else let hello = Hello_Msg \<lparr>hello_agent = agent, hello_applied_version = GetVersion (cur s), hello_facts = facts\<rparr> in
        (case first of
           First_Done \<Rightarrow> ([hello], False, None, s)
         | First_Timeout \<Rightarrow> ([hello], False, Some NoHelloAck, s)
         | First_Error \<Rightarrow> ([hello], False, Some RecvFailed, s)
         | First_Message (HelloAck_Msg _) \<Rightarrow>
             (case session_loop app cur text_of evs s of (out, r, s') \<Rightarrow> (hello # out, True, r, s'))
         | First_Message _ \<Rightarrow> ([hello], False, Some NotHelloAck, s)))"

section \<open>The reconnect loop\<close>

text \<open>What \<^verbatim>\<open>Run\<close> does after a session: stop, or dial again after a wait.\<close>

datatype run_decision = Run_Stops "session_error option" | Run_Redials nat nat

definition run_next :: "(nat \<Rightarrow> nat) \<Rightarrow> DaemonConfig \<Rightarrow> bool \<Rightarrow> nat \<Rightarrow> bool \<Rightarrow> session_error option \<Rightarrow> run_decision" where
  "run_next rng cfg done attempt established err =
     (let attempt = (if established then 0 else attempt) in
      if done then Run_Stops None
      else if err = Some ErrReenrollRequired then Run_Stops err
      else if err = Some ErrReconnectDirected then Run_Redials 0 0
      else Run_Redials (Suc attempt) (Backoff rng (Suc attempt) (dc_backoff_base cfg) (dc_backoff_cap cfg)))"

text \<open>The attempts and waits of a run whose sessions end as listed.\<close>

fun run_loop :: "(nat \<Rightarrow> nat) \<Rightarrow> DaemonConfig \<Rightarrow> nat \<Rightarrow> (bool \<times> session_error option) list \<Rightarrow> (nat \<times> nat) list \<times> session_error option" where
  "run_loop rng cfg attempt [] = ([], None)"
| "run_loop rng cfg attempt ((established, err) # ends) = (case run_next rng cfg False attempt established err of
     Run_Stops e \<Rightarrow> ([], e)
   | Run_Redials n w \<Rightarrow> (case run_loop rng cfg n ends of (ws, e) \<Rightarrow> ((n, w) # ws, e)))"

section \<open>Acknowledgements say what the store holds\<close>

text \<open>The versions of the policy updates among the events, and those a session acknowledged.\<close>

definition update_versions :: "'env session_event list \<Rightarrow> 64 word list" where
  "update_versions evs = concat (map (\<lambda>ev. case ev of Ev_Message _ (PolicyUpdate_Msg (Some u)) _ \<Rightarrow> [update_version u] | _ \<Rightarrow> []) evs)"

definition ack_versions :: "SyncRequest list \<Rightarrow> 64 word list" where
  "ack_versions ms = concat (map (\<lambda>m. case m of PolicyAck_Msg a \<Rightarrow> [ack_version a] | _ \<Rightarrow> []) ms)"

text \<open>What an update does to a store that meets the contract.\<close>

context policy_store
begin

lemma applyUpdate_applied:
  assumes "applyUpdate apply_policy current text_of env (Some u) s = (Inr a, s')" and "ack_status a = ACK_STATUS_APPLIED"
  obtains nxt where "update_next (case current s of None \<Rightarrow> Empty | Some p \<Rightarrow> p) u = Inr nxt" "current s' = Some (Canonical (Some nxt))"
    "a = applied_ack (update_version u)"
proof -
  obtain nxt where nxt: "update_next (case current s of None \<Rightarrow> Empty | Some p \<Rightarrow> p) u = Inr nxt"
    using assms by (cases "update_next (case current s of None \<Rightarrow> Empty | Some p \<Rightarrow> p) u") (auto simp: applyUpdate_def Let_def failed_ack_def)
  obtain r s1 where r: "apply_policy env (Some nxt) s = (r, s1)" by (cases "apply_policy env (Some nxt) s")
  show thesis
  proof (cases r)
    case (Inl e)
    with assms nxt r show thesis by (auto simp: applyUpdate_def Let_def failed_ack_def)
  next
    case (Inr u')
    with assms nxt r have "s' = s1" "a = applied_ack (update_version u)" by (simp_all add: applyUpdate_def Let_def)
    with that nxt r Inr apply_success [of env "Some nxt" s s1] show thesis by simp
  qed
qed

lemma applyUpdate_failed:
  assumes "applyUpdate apply_policy current text_of env (Some u) s = (Inr a, s')" and "ack_status a \<noteq> ACK_STATUS_APPLIED"
  shows "current s' = current s" "ack_status a = ACK_STATUS_FAILED" "ack_version a = update_version u"
proof -
  let ?c = "case current s of None \<Rightarrow> Empty | Some p \<Rightarrow> p"
  have "current s' = current s \<and> ack_status a = ACK_STATUS_FAILED \<and> ack_version a = update_version u"
  proof (cases "update_next ?c u")
    case (Inl e)
    with assms show ?thesis by (auto simp: applyUpdate_def Let_def failed_ack_def)
  next
    case (Inr nxt)
    then show ?thesis using assms
      by (cases rule: apply_cases [of env "Some nxt" s]) (auto simp: applyUpdate_def Let_def failed_ack_def applied_ack_def)
  qed
  then show "current s' = current s" "ack_status a = ACK_STATUS_FAILED" "ack_version a = update_version u" by simp_all
qed

text \<open>An update is always answered.\<close>

lemma applyUpdate_answers: "\<exists>a s'. applyUpdate apply_policy current text_of env (Some u) s = (Inr a, s') \<and> ack_version a = update_version u"
proof (cases "update_next (case current s of None \<Rightarrow> Empty | Some p \<Rightarrow> p) u")
  case (Inl e)
  then show ?thesis by (simp add: applyUpdate_def Let_def failed_ack_def)
next
  case (Inr nxt)
  then show ?thesis by (cases rule: apply_cases [of env "Some nxt" s]) (simp_all add: applyUpdate_def Let_def failed_ack_def applied_ack_def)
qed

text \<open>The acknowledgement is a true account of the update: the installed policy is the one it leads to, or the old one.\<close>

lemma ack_is_true:
  assumes "applyUpdate apply_policy current text_of env (Some u) s = (Inr a, s')"
  shows "ack_version a = update_version u \<and>
    (if ack_status a = ACK_STATUS_APPLIED
     then \<exists>nxt. update_next (case current s of None \<Rightarrow> Empty | Some p \<Rightarrow> p) u = Inr nxt \<and> current s' = Some (Canonical (Some nxt)) \<and>
       version nxt = update_version u
     else ack_status a = ACK_STATUS_FAILED \<and> current s' = current s)"
proof (cases "ack_status a = ACK_STATUS_APPLIED")
  case True
  then obtain nxt where n: "update_next (case current s of None \<Rightarrow> Empty | Some p \<Rightarrow> p) u = Inr nxt" "current s' = Some (Canonical (Some nxt))"
    "a = applied_ack (update_version u)" using applyUpdate_applied assms by blast
  moreover have "version nxt = update_version u" using n(1) Apply_result by (cases u) auto
  ultimately show ?thesis by (auto simp: applied_ack_def)
next
  case False
  with applyUpdate_failed [OF assms False] show ?thesis by simp
qed

lemma session_acks_in_order:
  assumes "session_loop apply_policy current text_of evs s = (out, r, s')"
  shows "\<exists>rest. update_versions evs = ack_versions out @ rest"
  using assms
proof (induction evs arbitrary: s out r s')
  case Nil
  then show ?case by (simp add: update_versions_def ack_versions_def)
next
  case (Cons ev evs)
  show ?case
  proof (cases ev)
    case (Ev_Message env msg sent)
    show ?thesis
    proof (cases "\<exists>u. msg = PolicyUpdate_Msg (Some u)")
      case True
      then obtain u where u: "msg = PolicyUpdate_Msg (Some u)" by blast
      obtain a s1 where a: "applyUpdate apply_policy current text_of env (Some u) s = (Inr a, s1)" "ack_version a = update_version u"
        using applyUpdate_answers by blast
      obtain o1 r1 s2 where l: "session_loop apply_policy current text_of evs s1 = (o1, r1, s2)"
        by (cases "session_loop apply_policy current text_of evs s1")
      show ?thesis
      proof (cases sent)
        case True
        then have "out = PolicyAck_Msg a # o1" using Cons.prems Ev_Message u a l by (simp add: handle_def)
        with Cons.IH [OF l] Ev_Message u a(2) show ?thesis by (auto simp: update_versions_def ack_versions_def)
      next
        case False
        then have "out = []" using Cons.prems Ev_Message u a by (simp add: handle_def)
        then show ?thesis by (simp add: ack_versions_def)
      qed
    next
      case False
      then have v: "update_versions (ev # evs) = update_versions evs"
        by (cases msg) (simp_all add: Ev_Message update_versions_def split: option.split)
      show ?thesis
      proof (cases "out = []")
        case True
        then show ?thesis by (simp add: ack_versions_def)
      next
        case o: False
        with Cons.prems False Ev_Message have "\<exists>r1 s1. session_loop apply_policy current text_of evs s = (out, r1, s1)"
          by (cases msg) (auto simp: handle_def applyUpdate_def Let_def split: option.split_asm prod.split_asm)
        with Cons.IH v show ?thesis by auto
      qed
    qed
  next
    case (Ev_Heartbeat hb sent)
    then show ?thesis using Cons by (fastforce simp: update_versions_def ack_versions_def split: if_split_asm prod.split_asm)
  next
    case (Ev_Inventory report sent)
    then show ?thesis using Cons by (fastforce simp: update_versions_def ack_versions_def split: if_split_asm prod.split_asm)
  qed (use Cons.prems in \<open>auto simp: ack_versions_def\<close>)
qed

end

lemma backoff_ceiling_bounds:
  "0 < sint limit \<Longrightarrow> 0 < sint (backoff_ceiling n base limit) \<and> sint (backoff_ceiling n base limit) \<le> sint limit"
  by (simp add: backoff_ceiling_def Let_def)

lemma backoff_ceiling_exact:
  assumes "0 < sint base" and "sint base * 2 ^ min n 20 < 2 ^ 63"
  shows "sint (backoff_ceiling n base limit) = min (sint limit) (sint base * 2 ^ min n 20)"
proof -
  have "sint (push_bit (min n 20) base) = sint base * 2 ^ min n 20"
  proof -
    have "push_bit (min n 20) base = word_of_int (sint base * 2 ^ min n 20)"
      by (simp add: push_bit_eq_mult)
    then have "sint (push_bit (min n 20) base) = signed_take_bit 63 (sint base * 2 ^ min n 20)"
      by (simp only: sint_sbintrunc') simp
    also have "\<dots> = sint base * 2 ^ min n 20"
      using assms by (intro signed_take_bit_int_eq_self) (simp_all, smt (verit) mult_pos_pos zero_less_power)
    finally show ?thesis .
  qed
  moreover have "0 < sint base * 2 ^ min n 20" using assms(1) by simp
  ultimately show ?thesis by (simp add: backoff_ceiling_def Let_def)
qed

section \<open>Properties\<close>

text \<open>\<^bold>\<open>C35\<close>: over the nftables store, an update is answered by an acknowledgement of its version that is
  true: applied means that the store now holds the policy the update leads to, at that version,
  and failed that the installed policy is the one from before.\<close>

theorem acknowledgement_is_true:
  assumes "applyUpdate (\<lambda>(cd, opts, env). Store_Apply cd opts env) (\<lambda>sh. st_current (fst sh)) text_of env (Some u) (s, h) = (Inr a, (s', h'))"
  shows "ack_version a = update_version u \<and>
    (if ack_status a = ACK_STATUS_APPLIED
     then \<exists>nxt. update_next (case st_current s of None \<Rightarrow> Empty | Some p \<Rightarrow> p) u = Inr nxt \<and>
       st_current s' = Some (Canonical (Some nxt)) \<and> version nxt = update_version u
     else ack_status a = ACK_STATUS_FAILED \<and> st_current s' = st_current s)"
  using nft.ack_is_true [OF assms] unfolding fst_conv .

lemma demo_update:
  "applyUpdate (\<lambda>(cd, opts, env). Store_Apply cd opts env) (\<lambda>sh. st_current (fst sh)) text_of (demo_codecs, demo_options, demo_env True)
     (Some (Snapshot (Some one_rule))) store_init = (Inr (applied_ack 1), (demo_store ApplyFull, demo_host (Some (one_rule, [(''r/tcp'', 1)]))))"
proof -
  have v: "version one_rule = 1" by (simp add: one_rule_def)
  show ?thesis by (simp add: applyUpdate_def Let_def one_rule_canonical demo_apply v)
qed

theorem acknowledgement_is_true_witness:
  "st_current (demo_store ApplyFull) = Some (Canonical (Some one_rule)) \<and> version one_rule = 1"
proof -
  have "applied_ack v = applied_ack w \<longleftrightarrow> v = w" "ack_status (applied_ack v) = ACK_STATUS_APPLIED" for v w by (simp_all add: applied_ack_def)
  then show ?thesis
    using acknowledgement_is_true [OF demo_update [unfolded store_init_def, of "\<lambda>_. []"]] by (auto simp: one_rule_canonical one_rule_def)
qed

text \<open>The wait before a reconnect is below the limit whatever the base and the attempt, the shift's
  wrap-around included, and when the shifted base fits in 63 bits the ceiling it is drawn below is
  the limit or the base doubled once per attempt, at most twenty times.\<close>

lemma Backoff_bounded:
  assumes "0 < sint limit" and "\<And>n. 0 < n \<Longrightarrow> rng n < n"
  shows "int (Backoff rng attempt base limit) < sint limit \<and>
    (0 < sint base \<and> sint base * 2 ^ min attempt 20 < 2 ^ 63 \<longrightarrow>
      sint (backoff_ceiling attempt base limit) = min (sint limit) (sint base * 2 ^ min attempt 20) \<and>
      int (Backoff rng attempt base limit) < min (sint limit) (sint base * 2 ^ min attempt 20))"
proof -
  have c: "0 < sint (backoff_ceiling attempt base limit)" "sint (backoff_ceiling attempt base limit) \<le> sint limit"
    using backoff_ceiling_bounds [OF assms(1)] by blast+
  then have "Backoff rng attempt base limit < nat (sint (backoff_ceiling attempt base limit))"
    using assms(2) [of "nat (sint (backoff_ceiling attempt base limit))"] by (simp add: Backoff_def)
  with c have b: "int (Backoff rng attempt base limit) < sint (backoff_ceiling attempt base limit)" by linarith
  with c show ?thesis using backoff_ceiling_exact [of base attempt limit] by auto
qed

end
