(* ===== verification/Compiler.thy ===== *)
theory Compiler
  imports Registry
begin

text \<open>
  The policy compiler, \<^verbatim>\<open>internal/compiler\<close>: rendering the authored model against the
  registry, planning versions, the render engine over a store transaction, and the dry run.
  The results: the rendered policy of a workload permits exactly what the authored rules in
  scope say (\<open>Render_permits\<close>); a version advances exactly when content changes or nothing was
  persisted; a render makes every active workload's persisted policy the rendered one, leaves
  retired workloads alone and is idempotent; a dry run reports exactly the differing workloads
  and classifies their rules.
\<close>

section \<open>Rendering\<close>

record Inputs =
  in_workloads :: "Workload list"
  in_rulesets :: "Ruleset list"
  in_services :: "Service list"
  in_groups :: "AddressGroup list"

type_synonym port_table = "(Protocol, PortRange list) gomap \<times> Protocol list"

text \<open>\<^verbatim>\<open>add\<close> of \<^verbatim>\<open>expandServices\<close>: the port lists so far and the protocols open on every port.\<close>

definition add_entry :: "ServiceEntry \<Rightarrow> port_table \<Rightarrow> port_table" where
  "add_entry e st = (case st of (out, allPorts) \<Rightarrow>
     if entry_ports e = [] then (AList.update (entry_protocol e) [] out, entry_protocol e # allPorts)
     else if entry_protocol e \<in> set allPorts then (out, allPorts)
     else (AList.update (entry_protocol e)
        ((case map_of out (entry_protocol e) of None \<Rightarrow> [] | Some ps \<Rightarrow> ps) @ entry_ports e) out, allPorts))"

definition services_index :: "Inputs \<Rightarrow> (uuid, Service) gomap" where
  "services_index inp = index_by svc_id (\<lambda>s. s) (in_services inp)"

definition groups_index :: "Inputs \<Rightarrow> (uuid, AddressGroup) gomap" where
  "groups_index inp = index_by grp_id (\<lambda>g. g) (in_groups inp)"

definition rule_entries :: "Inputs \<Rightarrow> Rule \<Rightarrow> ServiceEntry list" where
  "rule_entries inp rule = concat (map (\<lambda>k. case map_of (services_index inp) k of
      None \<Rightarrow> [] | Some s \<Rightarrow> svc_entries s) (rl_service_ids rule)) @ rl_entries rule"

definition expandServices :: "Inputs \<Rightarrow> Rule \<Rightarrow> (Protocol, PortRange list) gomap" where
  "expandServices inp rule = fst (fold add_entry (rule_entries inp rule) ([], []))"

definition resolvePeer :: "Inputs \<Rightarrow> Peer \<Rightarrow> string list" where
  "resolvePeer inp p = (case peer_kind p of
     PeerWorkloads \<Rightarrow> concat (map (\<lambda>w. if Retired w \<or> \<not> Matches (peer_workloads p) (LabelMap w) then []
         else map HostRoute (w_addresses w)) (in_workloads inp))
   | PeerAddressGroup \<Rightarrow> (case map_of (groups_index inp) (peer_group_id p) of None \<Rightarrow> [] | Some g \<Rightarrow> grp_cidrs g)
   | PeerCIDR \<Rightarrow> [NormalizeCIDR (peer_cidr p)]
   | _ \<Rightarrow> [])"

definition resolvePeers :: "Inputs \<Rightarrow> Peer list \<Rightarrow> string list" where
  "resolvePeers inp peers = concat (map (resolvePeer inp) peers)"

definition renderRule :: "Inputs \<Rightarrow> Rule \<Rightarrow> ResolvedRule list" where
  "renderRule inp rule = (let peers = resolvePeers inp (rl_peers rule); entries = expandServices inp rule in
     concat (map (\<lambda>proto. case map_of entries proto of None \<Rightarrow> []
       | Some ps \<Rightarrow> [\<lparr>rule_id = RuleID (rl_id rule) proto, peer_cidrs = peers, protocol = proto, ports = ps\<rparr>])
       [PROTOCOL_TCP, PROTOCOL_UDP, PROTOCOL_ICMP]))"

definition rules_in_scope :: "Inputs \<Rightarrow> (string, string) gomap \<Rightarrow> Rule list" where
  "rules_in_scope inp labels = concat (map (\<lambda>rs.
     if \<not> rs_enabled rs \<or> \<not> Matches (rs_scope rs) labels then []
     else filter (\<lambda>r. rl_enabled r \<and> rl_direction r = DIRECTION_INBOUND) (rs_rules rs)) (in_rulesets inp))"

definition renderWorkload :: "Inputs \<Rightarrow> Workload \<Rightarrow> WorkloadPolicy" where
  "renderWorkload inp w = Canonical (Some \<lparr>version = 0,
     mode = (if w_mode w = ENFORCEMENT_MODE_UNSPECIFIED then ENFORCEMENT_MODE_VISIBILITY else w_mode w),
     inbound_rules = concat (map (renderRule inp) (rules_in_scope inp (LabelMap w)))\<rparr>)"

type_synonym policies = "(uuid, WorkloadPolicy) gomap"

definition Render :: "Inputs \<Rightarrow> policies" where
  "Render inp = index_by w_id (renderWorkload inp) (filter (\<lambda>w. \<not> Retired w) (in_workloads inp))"

section \<open>Planning and the render engine\<close>

record Outcome =
  o_id :: uuid
  o_policy :: WorkloadPolicy
  o_changes :: "DeltaChange list"
  o_changed :: bool

definition plan_one :: "policies \<Rightarrow> uuid \<times> WorkloadPolicy \<Rightarrow> Outcome" where
  "plan_one previous kc = (case kc of (k, cur) \<Rightarrow>
     let prev = (case map_of previous k of Some p \<Rightarrow> p | None \<Rightarrow> Empty);
       chs = Diff (Some prev) (Some cur);
       changed = (chs \<noteq> [] \<or> map_of previous k = None)
     in \<lparr>o_id = k, o_policy = Canonical (Some cur)\<lparr>version := if changed then version prev + 1 else version prev\<rparr>,
         o_changes = chs, o_changed = changed\<rparr>)"

definition Plan :: "policies \<Rightarrow> policies \<Rightarrow> Outcome list" where
  "Plan previous current = sort_key o_id (map (plan_one previous) current)"

record Rendered_Change =
  rc_id :: uuid
  rc_version :: "64 word"
  rc_changes :: nat

record Report =
  rep_workloads :: nat
  rep_changed :: "Rendered_Change list"

text \<open>
  The loop of \<^verbatim>\<open>RenderIn\<close> over the transaction's policy table; \<open>save_err\<close> says for which
  workload \<^verbatim>\<open>SavePolicy\<close> fails, and with what.
\<close>

fun save_outcomes :: "(uuid \<Rightarrow> 'e option) \<Rightarrow> Outcome list \<Rightarrow> Report \<times> policies \<Rightarrow> ('e, Report \<times> policies) result" where
  "save_outcomes save_err [] st = Inr st"
| "save_outcomes save_err (o1 # os) (rep, pol) =
     (let rep = rep\<lparr>rep_workloads := Suc (rep_workloads rep)\<rparr> in
      if \<not> o_changed o1 then save_outcomes save_err os (rep, pol)
      else (case save_err (o_id o1) of Some e \<Rightarrow> Inl e
        | None \<Rightarrow> save_outcomes save_err os
            (rep\<lparr>rep_changed := rep_changed rep @ [\<lparr>rc_id = o_id o1, rc_version = version (o_policy o1),
               rc_changes = length (o_changes o1)\<rparr>]\<rparr>, AList.update (o_id o1) (o_policy o1) pol)))"

definition RenderIn :: "('e, Inputs) result \<Rightarrow> ('e, policies) result \<Rightarrow> (uuid \<Rightarrow> 'e option) \<Rightarrow> ('e, Report \<times> policies) result" where
  "RenderIn load_inputs load_policies save_err =
     bind_result load_inputs (\<lambda>inp. bind_result load_policies (\<lambda>previous.
       save_outcomes save_err (Plan previous (Render inp))
         (\<lparr>rep_workloads = 0, rep_changed = []\<rparr>, previous)))"

text \<open>\<^verbatim>\<open>Engine.Render\<close>: one transaction; what a failed one wrote is rolled back.\<close>

definition Engine_Render :: "('e, Inputs) result \<Rightarrow> policies \<Rightarrow> (uuid \<Rightarrow> 'e option) \<Rightarrow> ('e, Report) result \<times> policies" where
  "Engine_Render load_inputs table save_err = (case RenderIn load_inputs (Inr table) save_err of
     Inl e \<Rightarrow> (Inl e, table) | Inr (rep, table') \<Rightarrow> (Inr rep, table'))"

section \<open>The dry run\<close>

record WorkloadDiff =
  wd_id :: uuid
  wd_version :: "64 word"
  wd_mode :: "(EnforcementMode \<times> EnforcementMode) option"
  wd_added :: "ResolvedRule list"
  wd_removed :: "ResolvedRule list"
  wd_changed :: "(ResolvedRule \<times> ResolvedRule) list"

definition classify_change :: "WorkloadPolicy \<Rightarrow> WorkloadPolicy \<Rightarrow> DeltaChange \<Rightarrow> WorkloadDiff \<times> string list \<Rightarrow> WorkloadDiff \<times> string list" where
  "classify_change prev cur ch st = (case st of (d, changed) \<Rightarrow> (case ch of
     Some (UpsertRule r) \<Rightarrow>
       (if map_of (indexRules prev) (rule_id r) \<noteq> None then (d, List.insert (rule_id r) changed)
        else (d\<lparr>wd_added := wd_added d @ [the (map_of (indexRules cur) (rule_id r))]\<rparr>, changed))
   | Some (RemoveRuleId k) \<Rightarrow> (d\<lparr>wd_removed := wd_removed d @ [the (map_of (indexRules prev) k)]\<rparr>, changed)
   | Some (AddPeers c) \<Rightarrow> (d, List.insert (pc_rule_id c) changed)
   | Some (RemovePeers c) \<Rightarrow> (d, List.insert (pc_rule_id c) changed)
   | Some (SetMode m) \<Rightarrow> (d\<lparr>wd_mode := Some (mode prev, m)\<rparr>, changed)
   | None \<Rightarrow> (d, changed)))"

definition dry_run_one :: "policies \<Rightarrow> uuid \<times> WorkloadPolicy \<Rightarrow> WorkloadDiff option" where
  "dry_run_one previous kc = (case kc of (k, cur0) \<Rightarrow>
     let prev0 = (case map_of previous k of Some p \<Rightarrow> p | None \<Rightarrow> Empty);
       chs = Diff (Some prev0) (Some cur0)
     in if chs = [] then None
        else let prev = Canonical (Some prev0); cur = Canonical (Some cur0);
          (d, changed) = fold (classify_change prev cur) chs
            (\<lparr>wd_id = k, wd_version = version prev, wd_mode = None, wd_added = [], wd_removed = [], wd_changed = []\<rparr>, [])
        in Some (d\<lparr>wd_changed := map (\<lambda>rid. (the (map_of (indexRules prev) rid), the (map_of (indexRules cur) rid)))
             (sort changed)\<rparr>))"

definition DryRun :: "policies \<Rightarrow> policies \<Rightarrow> WorkloadDiff list" where
  "DryRun previous current = sort_key wd_id (List.map_filter (dry_run_one previous) current)"

fun EnforcementMode_number :: "EnforcementMode \<Rightarrow> int" where
  "EnforcementMode_number ENFORCEMENT_MODE_UNSPECIFIED = 0"
| "EnforcementMode_number ENFORCEMENT_MODE_VISIBILITY = 1"
| "EnforcementMode_number ENFORCEMENT_MODE_SIMULATION = 2"
| "EnforcementMode_number ENFORCEMENT_MODE_ENFORCED = 3"
| "EnforcementMode_number (ENFORCEMENT_MODE_OTHER n) = n"

definition state_lines :: "Inputs \<Rightarrow> string list" where
  "state_lines inp = sort (
     map (\<lambda>w. if Retired w then ''x '' @ w_id w
        else ''w '' @ w_id w @ '' '' @ show_int (EnforcementMode_number (w_mode w)) @ '' '' @
          join '','' (sort (map label_text (w_labels w))) @ '' '' @ join '','' (sort (map addr_string (w_addresses w))))
       (in_workloads inp) @
     map (\<lambda>r. ''r '' @ rs_id r @ '' '' @ show_int (rs_version r)) (in_rulesets inp) @
     map (\<lambda>s. ''s '' @ svc_id s @ '' '' @ show_int (svc_version s)) (in_services inp) @
     map (\<lambda>g. ''g '' @ grp_id g @ '' '' @ show_int (grp_version g)) (in_groups inp))"

definition StateVersion :: "(string \<Rightarrow> string) \<Rightarrow> Inputs \<Rightarrow> string" where
  "StateVersion sha256_hex inp = take 32 (sha256_hex (concat (map (\<lambda>l. l @ [CHR 0x0A]) (state_lines inp))))"


section \<open>Services and peers\<close>

lemma fold_add_entry:
  "fold add_entry es ([], []) = (out, allPorts) \<Longrightarrow>
   map_of out pr = (if \<not> (\<exists>e\<in>set es. entry_protocol e = pr) then None
     else if \<exists>e\<in>set es. entry_protocol e = pr \<and> entry_ports e = [] then Some []
     else Some (concat (map entry_ports (filter (\<lambda>e. entry_protocol e = pr) es)))) \<and>
   (pr \<in> set allPorts \<longleftrightarrow> (\<exists>e\<in>set es. entry_protocol e = pr \<and> entry_ports e = []))"
proof (induction es arbitrary: out allPorts rule: rev_induct)
  case (snoc e es)
  obtain o1 a1 where st: "fold add_entry es ([], []) = (o1, a1)" by (cases "fold add_entry es ([], [])")
  from snoc.prems st have "add_entry e (o1, a1) = (out, allPorts)" by simp
  with snoc.IH [OF st] show ?case
    by (cases "entry_protocol e = pr"; cases "entry_ports e = []") (auto simp: add_entry_def split: if_splits)
qed simp

lemma expandServices_lookup:
  "map_of (expandServices inp r) pr = (if \<not> (\<exists>e\<in>set (rule_entries inp r). entry_protocol e = pr) then None
     else if \<exists>e\<in>set (rule_entries inp r). entry_protocol e = pr \<and> entry_ports e = [] then Some []
     else Some (concat (map entry_ports (filter (\<lambda>e. entry_protocol e = pr) (rule_entries inp r)))))"
proof -
  obtain out allPorts where eq: "fold add_entry (rule_entries inp r) ([], []) = (out, allPorts)"
    by (cases "fold add_entry (rule_entries inp r) ([], [])")
  from fold_add_entry [OF eq, of pr] show ?thesis by (simp only: expandServices_def eq fst_conv)
qed

text \<open>What the authored model says: the ports and peers a rule opens.\<close>

definition entry_opens :: "Protocol \<Rightarrow> 32 word \<Rightarrow> ServiceEntry \<Rightarrow> bool" where
  "entry_opens pr n e = (entry_protocol e = pr \<and> (entry_ports e = [] \<or> list_ex (in_range n) (entry_ports e)))"

definition peer_covers :: "Inputs \<Rightarrow> Peer \<Rightarrow> addr \<Rightarrow> bool" where
  "peer_covers inp p a = (case peer_kind p of
     PeerWorkloads \<Rightarrow> (\<exists>w\<in>set (in_workloads inp). \<not> Retired w \<and> Matches (peer_workloads p) (LabelMap w)
         \<and> (\<exists>b\<in>set (w_addresses w). a = without_zone (unmap b)))
   | PeerAddressGroup \<Rightarrow> (case map_of (groups_index inp) (peer_group_id p) of None \<Rightarrow> False
       | Some g \<Rightarrow> list_ex (\<lambda>c. cidr_covers c a) (grp_cidrs g))
   | PeerCIDR \<Rightarrow> cidr_covers (peer_cidr p) a
   | _ \<Rightarrow> False)"

definition authored_permits :: "Inputs \<Rightarrow> Workload \<Rightarrow> addr \<Rightarrow> Protocol \<Rightarrow> 32 word \<Rightarrow> bool" where
  "authored_permits inp w a pr n = (\<exists>rs\<in>set (in_rulesets inp). rs_enabled rs \<and> Matches (rs_scope rs) (LabelMap w) \<and>
     (\<exists>r\<in>set (rs_rules rs). rl_enabled r \<and> rl_direction r = DIRECTION_INBOUND \<and> named_protocol pr \<and>
       (\<exists>e\<in>set (rule_entries inp r). entry_opens pr n e) \<and> (\<exists>p\<in>set (rl_peers r). peer_covers inp p a)))"

lemma xor_zero_iff: "x XOR y = 0 \<longleftrightarrow> x = (y :: 'a::len word)"
  by (metis xor.assoc xor.left_neutral xor.right_neutral xor_self_eq)

lemma host_contains: "prefix_contains (prefix_from b (bit_len b)) a \<longleftrightarrow> a = without_zone b"
  by (cases b; cases a) (auto simp: prefix_from_def xor_zero_iff)

lemma HostRoute_covers: "cidr_covers (HostRoute b) a \<longleftrightarrow> a = without_zone (unmap b)"
  by (simp add: HostRoute_def Let_def cidr_covers_prefix host_contains)

lemma resolvePeer_covers: "(\<exists>s\<in>set (resolvePeer inp p). cidr_covers s a) \<longleftrightarrow> peer_covers inp p a"
  by (cases "peer_kind p")
     (auto simp: resolvePeer_def peer_covers_def HostRoute_covers list_ex_iff split: option.split if_splits)

lemma ports_open:
  assumes "map_of (expandServices inp r) pr = Some ps"
  shows "ps = [] \<or> list_ex (in_range n) ps \<longleftrightarrow> (\<exists>e\<in>set (rule_entries inp r). entry_opens pr n e)"
proof (cases "\<exists>e\<in>set (rule_entries inp r). entry_protocol e = pr \<and> entry_ports e = []")
  case True
  with assms show ?thesis by (auto simp: expandServices_lookup entry_opens_def split: if_splits)
next
  case False
  with assms have "ps = concat (map entry_ports (filter (\<lambda>e. entry_protocol e = pr) (rule_entries inp r)))"
    and "\<exists>e\<in>set (rule_entries inp r). entry_protocol e = pr"
    by (auto simp: expandServices_lookup split: if_splits)
  with False show ?thesis by (auto simp: entry_opens_def list_ex_iff)
qed

lemma entry_opens_lookup:
  "e \<in> set (rule_entries inp r) \<Longrightarrow> entry_opens pr n e \<Longrightarrow> map_of (expandServices inp r) pr \<noteq> None"
  by (auto simp: expandServices_lookup entry_opens_def)

lemma set_renderRule:
  "set (renderRule inp r) = {x. \<exists>pr ps. named_protocol pr \<and> map_of (expandServices inp r) pr = Some ps \<and>
     x = \<lparr>rule_id = RuleID (rl_id r) pr, peer_cidrs = resolvePeers inp (rl_peers r), protocol = pr, ports = ps\<rparr>}"
proof -
  have named: "named_protocol pr \<longleftrightarrow> pr \<in> {PROTOCOL_TCP, PROTOCOL_UDP, PROTOCOL_ICMP}" for pr by (cases pr) auto
  show ?thesis unfolding named by (auto simp: renderRule_def Let_def split: option.splits)
qed

lemma ex_rendered:
  "(\<exists>x\<in>set (renderRule inp r). Q x) \<longleftrightarrow> (\<exists>pr ps. named_protocol pr \<and> map_of (expandServices inp r) pr = Some ps \<and>
     Q \<lparr>rule_id = RuleID (rl_id r) pr, peer_cidrs = resolvePeers inp (rl_peers r), protocol = pr, ports = ps\<rparr>)"
  unfolding set_renderRule by blast

lemma renderRule_permits:
  "(\<exists>x\<in>set (renderRule inp r). rule_permits a pr n x) \<longleftrightarrow> named_protocol pr \<and>
     (\<exists>e\<in>set (rule_entries inp r). entry_opens pr n e) \<and> (\<exists>p\<in>set (rl_peers r). peer_covers inp p a)"
proof -
  have peers: "list_ex (\<lambda>s. cidr_covers s a) (resolvePeers inp (rl_peers r)) \<longleftrightarrow> (\<exists>p\<in>set (rl_peers r). peer_covers inp p a)"
    by (auto simp: resolvePeers_def list_ex_iff resolvePeer_covers [symmetric])
  have "(\<exists>x\<in>set (renderRule inp r). rule_permits a pr n x) \<longleftrightarrow>
      named_protocol pr \<and> (\<exists>ps. map_of (expandServices inp r) pr = Some ps \<and> (ps = [] \<or> list_ex (in_range n) ps)) \<and>
      (\<exists>p\<in>set (rl_peers r). peer_covers inp p a)"
    unfolding ex_rendered by (auto simp: rule_permits_def peers)
  also have "\<dots> \<longleftrightarrow> named_protocol pr \<and> (\<exists>e\<in>set (rule_entries inp r). entry_opens pr n e) \<and>
      (\<exists>p\<in>set (rl_peers r). peer_covers inp p a)"
    using ports_open entry_opens_lookup by (metis option.exhaust)
  finally show ?thesis .
qed

section \<open>Rule ids of a render\<close>

text \<open>What the store guarantees of the authored model: rule ids are UUIDs, used once.\<close>

definition authored_ids :: "Inputs \<Rightarrow> uuid list" where
  "authored_ids inp = concat (map (\<lambda>rs. map rl_id (rs_rules rs)) (in_rulesets inp))"

definition inputs_ok :: "Inputs \<Rightarrow> bool" where
  "inputs_ok inp = (distinct (authored_ids inp) \<and> list_all uuid_text (authored_ids inp) \<and>
     distinct (map w_id (in_workloads inp)))"

lemma distinct_scope:
  assumes "distinct (concat (map (\<lambda>rs. map rl_id (rs_rules rs)) rss))"
  shows "distinct (map rl_id (concat (map (\<lambda>rs. if P rs then [] else filter Q (rs_rules rs)) rss)))"
  using assms
proof (induction rss)
  case (Cons rs rss)
  have sub: "set (map rl_id (concat (map (\<lambda>rs. if P rs then [] else filter Q (rs_rules rs)) rss)))
      \<subseteq> set (concat (map (\<lambda>rs. map rl_id (rs_rules rs)) rss))"
    by (auto split: if_splits)
  have "distinct (map rl_id (if P rs then [] else filter Q (rs_rules rs)))"
    using Cons.prems by (simp add: distinct_map_filter)
  moreover have "set (map rl_id (if P rs then [] else filter Q (rs_rules rs))) \<subseteq> set (map rl_id (rs_rules rs))"
    by auto
  ultimately show ?case using Cons sub by (simp only: list.map concat.simps map_append distinct_append) blast
qed simp

lemma rules_in_scope_ids:
  assumes "inputs_ok inp"
  shows "distinct (map rl_id (rules_in_scope inp labels))" "\<forall>r\<in>set (rules_in_scope inp labels). uuid_text (rl_id r)"
  using assms distinct_scope [of "in_rulesets inp"]
  by (auto simp: inputs_ok_def authored_ids_def rules_in_scope_def list_all_iff split: if_splits)

lemma map_rule_id_renderRule:
  "map rule_id (renderRule inp r) = map (RuleID (rl_id r))
     (filter (\<lambda>pr. map_of (expandServices inp r) pr \<noteq> None) [PROTOCOL_TCP, PROTOCOL_UDP, PROTOCOL_ICMP])"
  by (simp add: renderRule_def Let_def split: option.split)

lemma distinct_renderRule_ids:
  assumes "distinct (map rl_id rs)" and "\<forall>r\<in>set rs. uuid_text (rl_id r)"
  shows "distinct (map rule_id (concat (map (renderRule inp) rs)))"
  using assms
proof (induction rs)
  case (Cons r rs)
  have "distinct (map rule_id (renderRule inp r))"
    unfolding map_rule_id_renderRule by (simp add: RuleID_def)
  moreover have "set (map rule_id (renderRule inp r)) \<inter> set (map rule_id (concat (map (renderRule inp) rs))) = {}"
  proof -
    have False if "rule_id x = rule_id y" "x \<in> set (renderRule inp r)" "q \<in> set rs" "y \<in> set (renderRule inp q)" for x y q
    proof -
      from that obtain p p' where "named_protocol p" "named_protocol p'"
        "RuleID (rl_id r) p = RuleID (rl_id q) p'" unfolding set_renderRule by auto
      moreover from Cons.prems that have "rl_id r \<noteq> rl_id q" by auto
      ultimately show False using RuleID_inj Cons.prems(2) uuid_text_slash that(3) by (metis list.set_intros)
    qed
    note clash = this
    show ?thesis
    proof (rule equals0I)
      fix k assume "k \<in> set (map rule_id (renderRule inp r)) \<inter> set (map rule_id (concat (map (renderRule inp) rs)))"
      then obtain x y q where "x \<in> set (renderRule inp r)" "q \<in> set rs" "y \<in> set (renderRule inp q)"
        "rule_id x = rule_id y" by auto
      with clash show False by blast
    qed
  qed
  ultimately show ?case using Cons by simp
qed simp

lemma renderWorkload_permits:
  assumes "inputs_ok inp"
  shows "permits (renderWorkload inp w) a pr n \<longleftrightarrow> authored_permits inp w a pr n"
proof -
  have d: "distinct (map rule_id (concat (map (renderRule inp) (rules_in_scope inp (LabelMap w)))))"
    using rules_in_scope_ids [OF assms] by (rule distinct_renderRule_ids)
  have "permits (renderWorkload inp w) a pr n \<longleftrightarrow>
      (\<exists>r\<in>set (rules_in_scope inp (LabelMap w)). \<exists>x\<in>set (renderRule inp r). rule_permits a pr n x)"
    unfolding renderWorkload_def by (subst permits_Canonical) (use d in \<open>auto simp: permits_def list_ex_iff\<close>)
  also have "\<dots> \<longleftrightarrow> authored_permits inp w a pr n"
    unfolding renderRule_permits by (auto simp: authored_permits_def rules_in_scope_def split: if_splits)
  finally show ?thesis .
qed

lemma Render_lookup:
  assumes "inputs_ok inp" and "w \<in> set (in_workloads inp)"
  shows "map_of (Render inp) (w_id w) = (if Retired w then None else Some (renderWorkload inp w))"
proof (cases "Retired w")
  case True
  have "w_id w \<notin> w_id ` set (filter (\<lambda>w. \<not> Retired w) (in_workloads inp))"
    using assms True by (auto simp: inputs_ok_def distinct_map inj_on_def)
  then have "w_id w \<notin> dom (map_of (Render inp))" by (simp add: Render_def)
  with True show ?thesis by auto
next
  case False
  then show ?thesis unfolding Render_def using assms
    by (simp add: index_by_Some_distinct [of w_id "filter (\<lambda>w. \<not> Retired w) (in_workloads inp)"]
        inputs_ok_def distinct_map_filter)
qed


section \<open>Versions\<close>

lemma map_sort_key: "map f (sort_key f xs) = sort (map f xs)"
  by (rule properties_for_sort [symmetric]) simp_all

lemma map_o_id_Plan: "map o_id (Plan previous current) = sorted_keys current"
  unfolding Plan_def map_sort_key sorted_keys_def map_map
  by (simp add: comp_def plan_one_def Let_def case_prod_beta)

lemma set_Plan: "set (Plan previous current) = plan_one previous ` set current"
  by (simp add: Plan_def)

lemma GetVersion_prev: "version (case m of Some p \<Rightarrow> p | None \<Rightarrow> Empty) = GetVersion m"
  by (cases m) (simp_all add: Empty_def)

lemma is_canonical_Empty: "is_canonical Empty"
  by (simp add: Empty_def is_canonical_def)

lemma Canonical_Empty [simp]: "Canonical (Some Empty) = Empty"
  using is_canonical_Empty by (rule Canonical_id)

lemma Canonical_prev: "Canonical (Some (case m of Some p \<Rightarrow> p | None \<Rightarrow> Empty)) = Canonical m"
  by (cases m) simp_all

lemma Diff_prev: "Diff (Some (case m of Some p \<Rightarrow> p | None \<Rightarrow> Empty)) c = Diff m c"
  by (rule Diff_cong) (simp_all add: Canonical_prev)

lemma Equal_refl [simp]: "Equal a a"
  by (simp add: Equal_def)

lemma Equal_sym: "Equal a b \<Longrightarrow> Equal b a"
  by (simp add: Equal_def)

lemma Equal_trans: "Equal a b \<Longrightarrow> Equal b c \<Longrightarrow> Equal a c"
  by (simp add: Equal_def)

lemma Equal_Canonical_version: "Equal (Some (Canonical p\<lparr>version := v\<rparr>)) p"
  by (simp add: Equal_def Canonical_version)

lemma Equal_prev: "Equal (Some (case m of Some p \<Rightarrow> p | None \<Rightarrow> Empty)) c = Equal m c"
  by (simp add: Equal_def Canonical_prev)

lemma diff_ids_cong:
  "gomap_ok a \<Longrightarrow> gomap_ok b \<Longrightarrow> gomap_ok c \<Longrightarrow> dom (map_of b) = dom (map_of c) \<Longrightarrow> diff_ids a b = diff_ids a c"
  by (rule sorted_distinct_set_unique) (simp_all add: set_diff_ids distinct_diff_ids, simp_all add: diff_ids_def)

lemma Diff_Equal_cong:
  assumes "Equal b c"
  shows "Diff a b = Diff a c"
proof -
  have ok: "gomap_ok (indexRules p)" for p by (simp add: indexRules_def)
  from assms have "diff_ids (indexRules (Canonical a)) (indexRules (Canonical b)) =
      diff_ids (indexRules (Canonical a)) (indexRules (Canonical c))"
    by (intro diff_ids_cong ok) (simp add: Equal_iff)
  with assms show ?thesis by (simp add: Diff_def Equal_iff Let_def)
qed

lemma plan_one_facts:
  "o_id (plan_one previous (k, cur)) = k"
  "o_changed (plan_one previous (k, cur)) \<longleftrightarrow> map_of previous k = None \<or> \<not> Equal (map_of previous k) (Some cur)"
  "o_policy (plan_one previous (k, cur)) = Canonical (Some cur)
     \<lparr>version := GetVersion (map_of previous k) + (if o_changed (plan_one previous (k, cur)) then 1 else 0)\<rparr>"
  "o_changes (plan_one previous (k, cur)) = Diff (map_of previous k) (Some cur)"
  by (auto simp: plan_one_def Let_def Diff_prev Equal_prev GetVersion_prev Diff_Nil_iff)

lemma Plan_outcome:
  assumes "gomap_ok current" and "o1 \<in> set (Plan previous current)"
  obtains cur where "map_of current (o_id o1) = Some cur" "o1 = plan_one previous (o_id o1, cur)"
proof -
  from assms(2) obtain k cur where "(k, cur) \<in> set current" "o1 = plan_one previous (k, cur)"
    by (auto simp: set_Plan)
  with that assms(1) show thesis by (auto simp: gomap_in_iff plan_one_facts)
qed

section \<open>The render engine\<close>

lemma save_outcomes_ok:
  "distinct (map o_id os) \<Longrightarrow> save_outcomes se os (rep, pol) = Inr (rep', pol') \<Longrightarrow>
   (\<forall>o1\<in>set os. map_of pol' (o_id o1) = (if o_changed o1 then Some (o_policy o1) else map_of pol (o_id o1))) \<and>
   (\<forall>k. k \<notin> o_id ` set os \<longrightarrow> map_of pol' k = map_of pol k) \<and>
   rep_workloads rep' = rep_workloads rep + length os \<and>
   map rc_id (rep_changed rep') = map rc_id (rep_changed rep) @ map o_id (filter o_changed os)"
proof (induction os arbitrary: rep pol)
  case (Cons o1 os)
  show ?case
  proof (cases "o_changed o1")
    case False
    with Cons.prems have "save_outcomes se os (rep\<lparr>rep_workloads := Suc (rep_workloads rep)\<rparr>, pol) = Inr (rep', pol')"
      by simp
    from Cons.IH [OF _ this] Cons.prems(1) False show ?thesis by auto
  next
    case True
    let ?rep = "rep\<lparr>rep_workloads := Suc (rep_workloads rep), rep_changed := rep_changed rep @
      [\<lparr>rc_id = o_id o1, rc_version = version (o_policy o1), rc_changes = length (o_changes o1)\<rparr>]\<rparr>"
    from True Cons.prems have "save_outcomes se os (?rep, AList.update (o_id o1) (o_policy o1) pol) = Inr (rep', pol')"
      by (simp add: Let_def split: option.splits)
    from Cons.IH [OF _ this] Cons.prems(1) True show ?thesis by (auto simp: rev_image_eqI)
  qed
qed simp

lemma save_outcomes_error:
  "(\<exists>e. save_outcomes se os st = Inl e) \<longleftrightarrow> (\<exists>o1\<in>set os. o_changed o1 \<and> se (o_id o1) \<noteq> None)"
proof (induction os arbitrary: st)
  case (Cons o1 os)
  obtain rep pol where "st = (rep, pol)" by (cases st)
  with Cons.IH show ?case by (auto simp: Let_def split: option.split)
qed simp

lemma save_outcomes_unchanged:
  "\<forall>o1\<in>set os. \<not> o_changed o1 \<Longrightarrow> save_outcomes se os (rep, pol) =
     Inr (rep\<lparr>rep_workloads := rep_workloads rep + length os\<rparr>, pol)"
  by (induction os arbitrary: rep) auto

lemma gomap_ok_Render [simp]: "gomap_ok (Render inp)"
  by (simp add: Render_def)

lemma distinct_Plan_ids: "gomap_ok current \<Longrightarrow> distinct (map o_id (Plan previous current))"
  by (simp add: map_o_id_Plan)

lemma RenderIn_lookup:
  assumes run: "RenderIn (Inr inp) (Inr previous) se = Inr (rep, pol)"
  shows "map_of pol k = (case map_of (Render inp) k of None \<Rightarrow> map_of previous k
     | Some cur \<Rightarrow> if map_of previous k \<noteq> None \<and> Equal (map_of previous k) (Some cur) then map_of previous k
         else Some (Canonical (Some cur)\<lparr>version := GetVersion (map_of previous k) + 1\<rparr>))"
proof -
  let ?plan = "Plan previous (Render inp)"
  from run have "save_outcomes se ?plan (\<lparr>rep_workloads = 0, rep_changed = []\<rparr>, previous) = Inr (rep, pol)"
    by (simp add: RenderIn_def)
  note ok = save_outcomes_ok [OF distinct_Plan_ids [OF gomap_ok_Render] this]
  show ?thesis
  proof (cases "map_of (Render inp) k")
    case None
    then have "k \<notin> set (map o_id ?plan)" unfolding map_o_id_Plan by auto
    then have "map_of pol k = map_of previous k" using ok by simp
    with None show ?thesis by simp
  next
    case (Some cur)
    let ?o = "plan_one previous (k, cur)"
    have "(k, cur) \<in> set (Render inp)" using Some by (rule map_of_SomeD)
    then have "?o \<in> set ?plan" by (simp add: set_Plan)
    with ok have "map_of pol (o_id ?o) = (if o_changed ?o then Some (o_policy ?o) else map_of previous (o_id ?o))"
      by blast
    then have "map_of pol k = (if o_changed ?o then Some (o_policy ?o) else map_of previous k)"
      by (simp only: plan_one_facts(1))
    with Some show ?thesis by (auto simp: plan_one_facts(2,3))
  qed
qed

lemma RenderIn_content:
  assumes run: "RenderIn (Inr inp) (Inr previous) se = Inr (rep, pol)" and "map_of (Render inp) k = Some cur"
  shows "map_of pol k \<noteq> None \<and> Equal (map_of pol k) (Some cur)"
proof -
  have "Equal (Some (Canonical (Some cur)\<lparr>version := v\<rparr>)) (Some cur)" for v
    by (rule Equal_Canonical_version)
  with RenderIn_lookup [OF run, of k] assms(2) show ?thesis by auto
qed

lemma RenderIn_again:
  assumes run: "RenderIn (Inr inp) (Inr previous) se = Inr (rep, pol)"
  shows "RenderIn (Inr inp) (Inr pol) se' =
    Inr (\<lparr>rep_workloads = length (Render inp), rep_changed = []\<rparr>, pol)"
proof -
  have "\<not> o_changed o1" if "o1 \<in> set (Plan pol (Render inp))" for o1
  proof -
    from that obtain cur where "map_of (Render inp) (o_id o1) = Some cur" "o1 = plan_one pol (o_id o1, cur)"
      by (rule Plan_outcome [OF gomap_ok_Render])
    with RenderIn_content [OF run] show ?thesis by (metis plan_one_facts(2))
  qed
  then have "save_outcomes se' (Plan pol (Render inp)) (\<lparr>rep_workloads = 0, rep_changed = []\<rparr>, pol) =
    Inr (\<lparr>rep_workloads = 0, rep_changed = []\<rparr>\<lparr>rep_workloads := 0 + length (Plan pol (Render inp))\<rparr>, pol)"
    using save_outcomes_unchanged [of "Plan pol (Render inp)" se' "\<lparr>rep_workloads = 0, rep_changed = []\<rparr>" pol] by simp
  then show ?thesis by (simp add: RenderIn_def Plan_def)
qed

section \<open>The dry run\<close>

lemma diff_rule_Nil_iff:
  assumes "index_ok b" and "index_ok a"
  shows "diff_rule (map_of b k) (map_of a k) k = [] \<longleftrightarrow> map_of b k = map_of a k"
proof
  assume nil: "diff_rule (map_of b k) (map_of a k) k = []"
  have "gomap_ok b" using assms by (simp add: index_ok_def)
  from apply_diff_rule [OF assms refl this, where k = k] nil
  have "map_of b = (map_of b)(k := map_of a k)" by simp
  then show "map_of b k = map_of a k" by (metis fun_upd_same)
qed (simp add: diff_rule_same)

lemma fold_classify_rule:
  assumes "index_ok (indexRules prev)" and "index_ok (indexRules cur)"
  defines "b \<equiv> map_of (indexRules prev)" and "a \<equiv> map_of (indexRules cur)"
  shows "fold (classify_change prev cur) (diff_rule (b k) (a k) k) (d, ch) =
    (d\<lparr>wd_added := wd_added d @ (if b k = None \<and> a k \<noteq> None then [the (a k)] else []),
       wd_removed := wd_removed d @ (if b k \<noteq> None \<and> a k = None then [the (b k)] else [])\<rparr>,
     if b k \<noteq> None \<and> a k \<noteq> None \<and> b k \<noteq> a k then List.insert k ch else ch)"
proof -
  have nil: "diff_rule (b k) (a k) k = [] \<longleftrightarrow> b k = a k"
    using diff_rule_Nil_iff [OF assms(1,2)] by (simp add: a_def b_def)
  have id: "rule_id r = k" if "a k = Some r" for r using that assms(2) by (simp add: a_def index_ok_def)
  show ?thesis
  proof (cases "b k"; cases "a k")
    fix r c assume "b k = Some r" "a k = Some c"
    moreover from this nil have "diff_rule (Some r) (Some c) k = [] \<longleftrightarrow> r = c" by simp
    ultimately show ?thesis using id [of c]
      by (auto simp: diff_rule_def setDiff_def classify_change_def b_def a_def split: if_splits)
  qed (use id in \<open>auto simp: diff_rule_def classify_change_def b_def a_def\<close>)
qed

lemma fold_classify_rules:
  assumes "index_ok (indexRules prev)" and "index_ok (indexRules cur)"
  defines "b \<equiv> map_of (indexRules prev)" and "a \<equiv> map_of (indexRules cur)"
  shows "fold (classify_change prev cur) (concat (map (\<lambda>k. diff_rule (b k) (a k) k) ks)) (d, ch) =
    (d\<lparr>wd_added := wd_added d @ map (the \<circ> a) (filter (\<lambda>k. b k = None \<and> a k \<noteq> None) ks),
       wd_removed := wd_removed d @ map (the \<circ> b) (filter (\<lambda>k. b k \<noteq> None \<and> a k = None) ks)\<rparr>,
     fold List.insert (filter (\<lambda>k. b k \<noteq> None \<and> a k \<noteq> None \<and> b k \<noteq> a k) ks) ch)"
proof (induction ks arbitrary: d ch)
  case (Cons k ks)
  show ?case
    by (simp only: list.map concat.simps fold_append comp_apply
        fold_classify_rule [OF assms(1,2), folded a_def b_def] Cons.IH) auto
qed simp

lemma fold_insert: "distinct ch \<Longrightarrow> distinct (fold List.insert ks ch) \<and> set (fold List.insert ks ch) = set ks \<union> set ch"
  by (induction ks arbitrary: ch) auto

lemma sort_fold_insert: "sorted ks \<Longrightarrow> distinct ks \<Longrightarrow> sort (fold List.insert ks []) = ks"
  using fold_insert [of "[]" ks] by (intro sorted_distinct_set_unique) simp_all

lemma set_map_filter: "set (List.map_filter f xs) = {y. \<exists>x\<in>set xs. f x = Some y}"
  by (induction xs) (auto simp: List.map_filter_simps split: option.split)

text \<open>The report of a dry run on one workload, in terms of the two policies.\<close>

definition diff_report :: "uuid \<Rightarrow> WorkloadPolicy \<Rightarrow> WorkloadPolicy \<Rightarrow> WorkloadDiff" where
  "diff_report k prev cur = (let b = map_of (indexRules prev); a = map_of (indexRules cur);
       ids = diff_ids (indexRules prev) (indexRules cur) in
     \<lparr>wd_id = k, wd_version = version prev,
      wd_mode = (if mode prev \<noteq> mode cur then Some (mode prev, mode cur) else None),
      wd_added = map (the \<circ> a) (filter (\<lambda>k. b k = None \<and> a k \<noteq> None) ids),
      wd_removed = map (the \<circ> b) (filter (\<lambda>k. b k \<noteq> None \<and> a k = None) ids),
      wd_changed = map (\<lambda>k. (the (b k), the (a k))) (filter (\<lambda>k. b k \<noteq> None \<and> a k \<noteq> None \<and> b k \<noteq> a k) ids)\<rparr>)"

lemma dry_run_one_eq:
  "dry_run_one previous (k, cur) = (if Equal (map_of previous k) (Some cur) then None
     else Some (diff_report k (Canonical (map_of previous k)) (Canonical (Some cur))))"
proof -
  let ?p = "Canonical (map_of previous k)" and ?c = "Canonical (Some cur)"
  let ?ids = "diff_ids (indexRules ?p) (indexRules ?c)"
  let ?b = "map_of (indexRules ?p)" and ?a = "map_of (indexRules ?c)"
  have ok: "index_ok (indexRules ?p)" "index_ok (indexRules ?c)" by simp_all
  then have "distinct ?ids" by (intro distinct_diff_ids) (simp_all add: index_ok_def)
  moreover have "sorted ?ids" by (simp add: diff_ids_def)
  ultimately have s: "sort (fold List.insert (filter P ?ids) []) = filter P ?ids" for P
    by (intro sort_fold_insert) (simp_all add: sorted_filter_same)
  have sm: "classify_change ?p ?c (Some (SetMode m)) (d, ch) = (d\<lparr>wd_mode := Some (mode ?p, m)\<rparr>, ch)" for m d ch
    by (simp add: classify_change_def)
  show ?thesis
    by (cases "mode ?p = mode ?c")
       (simp_all add: dry_run_one_def Diff_prev Equal_prev Canonical_prev Diff_Nil_iff Let_def diff_report_def
         Diff_def [of "map_of previous k"] fold_classify_rules [OF ok] sm s)
qed

section \<open>Properties\<close>

text \<open>\<^bold>\<open>C2\<close>: the policy rendered for an active workload permits a source, protocol and port exactly
  when an enabled inbound rule of an enabled ruleset whose scope matches the workload's labels
  says so: one of its services opens the port and one of its peers covers the source, where a
  peer selector stands for the current addresses of the active workloads it matches.\<close>

theorem Render_permits:
  assumes "inputs_ok inp" and "w \<in> set (in_workloads inp)" and "\<not> Retired w"
  shows "\<exists>p. map_of (Render inp) (w_id w) = Some p \<and>
    (permits p a pr n \<longleftrightarrow> authored_permits inp w a pr n)"
  using assms by (simp add: Render_lookup renderWorkload_permits)

definition demo_workload :: Workload where
  "demo_workload = \<lparr>w_id = ''w'', w_hostname = ''db1'', w_labels = [\<lparr>label_key = ''app'', label_value = ''db''\<rparr>],
     w_mode = ENFORCEMENT_MODE_ENFORCED, w_addresses = [V4 167772161], w_agent = \<lparr>agent_version = [], agent_capabilities = []\<rparr>,
     w_enrolled_at = 0, w_last_seen_at = None, w_sync_state = SYNC_STATE_SYNCED, w_applied_version = 0, w_sync_error = [],
     w_dropped_flow_records = 0, w_source_overruns = 0, w_credential_renewal_error = [], w_credential_serial = [],
     w_credential_expires_at = 0, w_presented_credential = None, w_late_renewal = None, w_last_snapshot_sent_at = None,
     w_last_acked_at = None, w_last_apply_failed_at = None, w_clock_skew = None, w_owned_table = OWNED_TABLE_STATE_PRESENT,
     w_owned_table_absent_since = None, w_last_flow_report_at = None, w_retired_at = None\<rparr>"

definition demo_inputs :: Inputs where
  "demo_inputs = \<lparr>in_workloads = [demo_workload],
     in_rulesets = [\<lparr>rs_id = ''s'', rs_name = ''db'', rs_description = [], rs_enabled = True, rs_scope = [(''app'', [''db''])],
       rs_rules = [\<lparr>rl_id = ''00000000-0000-0000-0000-0000000000a1'', rl_direction = DIRECTION_INBOUND, rl_enabled = True,
         rl_description = [], rl_peers = [\<lparr>peer_kind = PeerWorkloads, peer_workloads = [(''app'', [''db''])],
           peer_group_id = uuid_Nil, peer_cidr = []\<rparr>], rl_service_ids = [],
         rl_entries = [\<lparr>entry_protocol = PROTOCOL_TCP, entry_ports = [PortRange 5432 5432]\<rparr>],
         rl_created_at = 0, rl_updated_at = 0, rl_version = 1, rl_faults = []\<rparr>],
       rs_created_at = 0, rs_updated_at = 0, rs_version = 1, rs_faults = []\<rparr>],
     in_services = [], in_groups = []\<rparr>"

lemma demo_inputs_ok: "inputs_ok demo_inputs"
  by (simp add: inputs_ok_def authored_ids_def demo_inputs_def uuid_text_def is_hex_def is_dec_def)

lemma demo_authored: "authored_permits demo_inputs demo_workload (V4 167772161) PROTOCOL_TCP 5432"
  by (simp add: authored_permits_def demo_inputs_def demo_workload_def Matches_def LabelMap_def index_by_def
      rule_entries_def entry_opens_def in_range_def peer_covers_def Retired_def)

theorem Render_permits_witness:
  "\<exists>p. map_of (Render demo_inputs) ''w'' = Some p \<and> permits p (V4 167772161) PROTOCOL_TCP 5432"
  using Render_permits [OF demo_inputs_ok, of demo_workload "V4 167772161" PROTOCOL_TCP 5432] demo_authored
  by (simp add: Retired_def) (simp add: demo_inputs_def demo_workload_def)

text \<open>Planning covers every rendered workload once, in id order, and a version advances by one
  exactly when nothing was persisted or the content differs; the planned policy has the
  rendered content, and the planned changes take an agent from the persisted policy to it.\<close>

lemma Plan_versions:
  assumes "gomap_ok current" and "o1 \<in> set (Plan previous current)"
  shows "map o_id (Plan previous current) = sorted_keys current \<and>
    (o_changed o1 \<longleftrightarrow> map_of previous (o_id o1) = None \<or> \<not> Equal (map_of previous (o_id o1)) (map_of current (o_id o1))) \<and>
    version (o_policy o1) = GetVersion (map_of previous (o_id o1)) + (if o_changed o1 then 1 else 0) \<and>
    Equal (Some (o_policy o1)) (map_of current (o_id o1)) \<and>
    Apply (map_of previous (o_id o1)) \<lparr>from_version = GetVersion (map_of previous (o_id o1)),
      to_version = version (o_policy o1), changes = o_changes o1\<rparr> = Inr (o_policy o1)"
proof -
  from assms obtain cur where cur: "map_of current (o_id o1) = Some cur" "o1 = plan_one previous (o_id o1, cur)"
    by (rule Plan_outcome)
  let ?prev = "map_of previous (o_id o1)"
  from cur(2) have pol: "o_policy o1 = Canonical (Some cur)\<lparr>version := version (o_policy o1)\<rparr>"
    and v: "version (o_policy o1) = GetVersion ?prev + (if o_changed o1 then 1 else 0)"
    and ch: "o_changed o1 \<longleftrightarrow> ?prev = None \<or> \<not> Equal ?prev (Some cur)" "o_changes o1 = Diff ?prev (Some cur)"
    using plan_one_facts [of previous "o_id o1" cur] by (simp_all split: if_splits)
  have eq: "Equal (Some (o_policy o1)) (Some cur)" by (subst pol) (rule Equal_Canonical_version)
  have can: "is_canonical (o_policy o1)"
    by (subst pol) (use is_canonical_Canonical [of "Some cur"] in \<open>simp add: is_canonical_def\<close>)
  have "Diff ?prev (Some cur) = Diff ?prev (Some (o_policy o1))"
    using Equal_sym [OF eq] by (rule Diff_Equal_cong)
  with Apply_Delta_eq [of ?prev "Some (o_policy o1)"] can ch(2)
  have "Apply ?prev \<lparr>from_version = GetVersion ?prev, to_version = version (o_policy o1), changes = o_changes o1\<rparr>
      = Inr (o_policy o1)"
    by (simp add: Delta_def Canonical_id)
  with v ch eq cur(1) show ?thesis by (simp add: map_o_id_Plan)
qed

text \<open>An outcome may be changed and carry no changes: a first render of an empty policy in
  visibility mode advances to version 1 with an empty delta, where the comment of \<^verbatim>\<open>Outcome\<close>
  says the changes are empty exactly when the outcome is unchanged.\<close>

lemma Plan_first_empty_render:
  "\<exists>previous current o1. o1 \<in> set (Plan previous current) \<and> o_changes o1 = [] \<and> o_changed o1"
proof -
  have "Diff None (Some Empty) = []" by (simp add: Diff_Nil_iff Equal_def)
  then have "o_changes (plan_one [] (''w'', Empty)) = [] \<and> o_changed (plan_one [] (''w'', Empty))"
    by (simp add: plan_one_facts)
  then show ?thesis by (intro exI [of _ "[]"] exI [of _ "[(''w'', Empty)]"]) (simp add: set_Plan)
qed

text \<open>A render that succeeds leaves every active workload's persisted policy with the rendered
  content, its version kept when the content was already persisted and one more otherwise,
  and leaves the policy of every other id (a retired workload's) as it was.\<close>

lemma RenderIn_converges:
  assumes "RenderIn (Inr inp) (Inr previous) save_err = Inr (rep, pol)"
  shows "case map_of (Render inp) k of
      None \<Rightarrow> map_of pol k = map_of previous k
    | Some cur \<Rightarrow> Equal (map_of pol k) (Some cur) \<and> map_of pol k \<noteq> None \<and>
        GetVersion (map_of pol k) = GetVersion (map_of previous k) +
          (if map_of previous k \<noteq> None \<and> Equal (map_of previous k) (Some cur) then 0 else 1)"
  using RenderIn_lookup [OF assms, of k] RenderIn_content [OF assms, of k]
  by (cases "map_of (Render inp) k") simp_all

lemma demo_Render: "map_of (Render demo_inputs) ''w'' = Some (renderWorkload demo_inputs demo_workload)"
  using Render_lookup [OF demo_inputs_ok, of demo_workload] by (simp add: demo_inputs_def demo_workload_def Retired_def)

lemma demo_RenderIn:
  "\<exists>rep pol. RenderIn (Inr demo_inputs) (Inr []) (\<lambda>_. None :: string option) = Inr (rep, pol)"
  using save_outcomes_error [of "\<lambda>_. None :: string option"]
  by (simp add: RenderIn_def) (metis sum.exhaust surj_pair)

text \<open>A render fails exactly when loading fails or a changed policy cannot be saved, and a
  failed render leaves the policy table as it was.\<close>

lemma Engine_Render_atomic:
  "((\<exists>e. fst (Engine_Render load table save_err) = Inl e) \<longleftrightarrow>
     (case load of Inl _ \<Rightarrow> True | Inr inp \<Rightarrow>
        \<exists>o1\<in>set (Plan table (Render inp)). o_changed o1 \<and> save_err (o_id o1) \<noteq> None)) \<and>
   (fst (Engine_Render load table save_err) = Inl e \<longrightarrow> snd (Engine_Render load table save_err) = table)"
proof (cases load)
  case (Inl e)
  then show ?thesis by (simp add: Engine_Render_def RenderIn_def)
next
  case (Inr inp)
  let ?run = "save_outcomes save_err (Plan table (Render inp)) (\<lparr>rep_workloads = 0, rep_changed = []\<rparr>, table)"
  have "Engine_Render load table save_err = (case ?run of Inl e \<Rightarrow> (Inl e, table) | Inr (rep, t) \<Rightarrow> (Inr rep, t))"
    by (simp add: Inr Engine_Render_def RenderIn_def)
  with save_outcomes_error [of save_err "Plan table (Render inp)" "(\<lparr>rep_workloads = 0, rep_changed = []\<rparr>, table)"] Inr
  show ?thesis by (cases ?run) (auto split: prod.splits)
qed

text \<open>A dry run reports, per workload, exactly the difference of the persisted and the rendered
  policy: nothing when they have equal content, else the mode change, the rules only the
  rendered policy has, those only the persisted one has, and those both have and that differ.\<close>

lemma DryRun_exact:
  assumes "gomap_ok current"
  shows "set (DryRun previous current) = {diff_report k (Canonical (map_of previous k)) (Canonical (Some cur)) | k cur.
      map_of current k = Some cur \<and> \<not> Equal (map_of previous k) (Some cur)} \<and>
    sorted (map wd_id (DryRun previous current))"
proof
  have "set (DryRun previous current) = {y. \<exists>k cur. map_of current k = Some cur \<and> dry_run_one previous (k, cur) = Some y}"
    using assms by (auto simp: DryRun_def set_map_filter gomap_in_iff) blast
  then show "set (DryRun previous current) = {diff_report k (Canonical (map_of previous k)) (Canonical (Some cur)) | k cur.
      map_of current k = Some cur \<and> \<not> Equal (map_of previous k) (Some cur)}"
    by (auto simp: dry_run_one_eq split: if_splits)
  show "sorted (map wd_id (DryRun previous current))" by (simp add: DryRun_def)
qed

end
