(* ===== verification/GatewaySync.thy ===== *)
theory GatewaySync
  imports AgentSync Compiler
begin

text \<open>
  The control plane's end of the sync stream, \<^verbatim>\<open>internal/gateway/sync.go\<close>: the opening snapshot,
  pushes of newer versions as deltas from the tip of what was sent, acknowledgements with their
  recovery snapshots, what each message writes to the workload's row, and the registry of the
  live streams of one replica. \<open>Convergence\<close> puts a session and an agent together.
\<close>

section \<open>The row of a workload\<close>

datatype registry_error = ErrWorkloadUnknown | ErrWorkloadRetired instant | RegistryWriteError

text \<open>
  Writes a stream makes from what its agent sends are refused for a retired workload; \<open>ok\<close> says the
  database takes the write.
\<close>

definition unless_retired :: "bool \<Rightarrow> Workload \<Rightarrow> Workload \<Rightarrow> (registry_error, Workload) result" where
  "unless_retired ok w w' = (if \<not> ok then Inl RegistryWriteError
     else case w_retired_at w of Some t \<Rightarrow> Inl (ErrWorkloadRetired t) | None \<Rightarrow> Inr w')"

definition SetSyncState :: "SyncState \<Rightarrow> string \<Rightarrow> instant \<Rightarrow> Workload \<Rightarrow> Workload" where
  "SetSyncState st detail now w = w\<lparr>w_sync_state := st, w_sync_error := detail, w_last_seen_at := Some now\<rparr>"

definition RecordApplied :: "bool \<Rightarrow> 64 word \<Rightarrow> SyncState \<Rightarrow> instant \<Rightarrow> Workload \<Rightarrow> (registry_error, Workload) result" where
  "RecordApplied ok v st now w = unless_retired ok w (w\<lparr>w_applied_version := v, w_sync_state := st, w_sync_error := [],
     w_last_seen_at := Some now, w_last_acked_at := Some now,
     w_owned_table := (if w_owned_table w = OWNED_TABLE_STATE_ABSENT then OWNED_TABLE_STATE_PRESENT else w_owned_table w),
     w_owned_table_absent_since := None\<rparr>)"

definition RecordApplyFailed :: "bool \<Rightarrow> string \<Rightarrow> instant \<Rightarrow> Workload \<Rightarrow> (registry_error, Workload) result" where
  "RecordApplyFailed ok detail now w = unless_retired ok w (w\<lparr>w_sync_state := SYNC_STATE_DEGRADED, w_sync_error := detail,
     w_last_seen_at := Some now, w_last_apply_failed_at := Some now\<rparr>)"

definition RecordSnapshotSent :: "instant \<Rightarrow> Workload \<Rightarrow> Workload" where
  "RecordSnapshotSent at w = w\<lparr>w_last_snapshot_sent_at := Some at\<rparr>"

text \<open>A reported table state the schema does not know is stored as unknown, which changes nothing.\<close>

definition RecordHeartbeat :: "bool \<Rightarrow> Heartbeat \<Rightarrow> instant \<Rightarrow> Workload \<Rightarrow> (registry_error, Workload) result" where
  "RecordHeartbeat ok hb now w = unless_retired ok w (w\<lparr>w_last_seen_at := Some now,
     w_dropped_flow_records := hb_dropped_flow_records hb, w_credential_renewal_error := hb_renewal_error hb,
     w_source_overruns := hb_source_overruns hb,
     w_owned_table_absent_since := (case hb_owned_table hb of
        OWNED_TABLE_STATE_ABSENT \<Rightarrow> (case w_owned_table_absent_since w of Some t \<Rightarrow> Some t | None \<Rightarrow> Some now)
      | OWNED_TABLE_STATE_PRESENT \<Rightarrow> None
      | _ \<Rightarrow> w_owned_table_absent_since w),
     w_owned_table := (case hb_owned_table hb of
        OWNED_TABLE_STATE_ABSENT \<Rightarrow> OWNED_TABLE_STATE_ABSENT
      | OWNED_TABLE_STATE_PRESENT \<Rightarrow> OWNED_TABLE_STATE_PRESENT
      | _ \<Rightarrow> w_owned_table w)\<rparr>)"

definition sameAddresses :: "string list \<Rightarrow> addr list \<Rightarrow> bool" where
  "sameAddresses old current = (length old = length current \<and> list_all (\<lambda>a. addr_string a \<in> set old) current)"

text \<open>The facts, and whether the addresses derived from them changed.\<close>

definition RecordFacts :: "bool \<Rightarrow> HostFacts option \<Rightarrow> instant \<Rightarrow> Workload \<Rightarrow> (registry_error, Workload \<times> bool) result" where
  "RecordFacts ok facts now w = bind_result
     (unless_retired ok w (w\<lparr>w_hostname := (case facts of Some f \<Rightarrow> hf_hostname f | None \<Rightarrow> []), w_last_seen_at := Some now\<rparr>))
     (\<lambda>w'. let current = AddressesFromFacts facts in
        if sameAddresses (map addr_string (w_addresses w)) current then Inr (w', False)
        else Inr (w'\<lparr>w_addresses := current\<rparr>, True))"

definition RecordListeningServices :: "bool \<Rightarrow> instant \<Rightarrow> Workload \<Rightarrow> (registry_error, Workload) result" where
  "RecordListeningServices ok now w = unless_retired ok w (w\<lparr>w_last_seen_at := Some now\<rparr>)"

definition RecordAgent :: "bool \<Rightarrow> AgentInfo \<Rightarrow> 64 word \<Rightarrow> PresentedCredential option \<Rightarrow> instant \<Rightarrow> Workload \<Rightarrow> (registry_error, Workload) result" where
  "RecordAgent ok agent applied presented now w = unless_retired ok w (w\<lparr>w_agent := agent, w_applied_version := applied,
     w_last_seen_at := Some now,
     w_presented_credential := (case presented of Some c \<Rightarrow> Some c | None \<Rightarrow> w_presented_credential w)\<rparr>)"

section \<open>A session\<close>

definition DefaultSyncConfig :: SyncConfig where
  "DefaultSyncConfig = \<lparr>sc_heartbeat_interval_seconds = 30, sc_inventory_report_interval_seconds = 300,
     sc_flow_aggregation_window_seconds = 60, sc_flow_batch_max_records = 1000\<rparr>"

text \<open>A session with its workload's row and what was queued to the stream and not yet read.\<close>

record session =
  ss_lastSent :: "WorkloadPolicy option"
  ss_recovery :: "64 word"
  ss_row :: Workload
  ss_services :: "ListeningService list"
  ss_out :: "SyncResponse list"

datatype gateway_error = Refused | Internal string | InvalidArgument string | PermissionDenied | Unauthenticated | FailedPrecondition
  | Unavailable | Aborted

definition writeFailed :: "string \<Rightarrow> registry_error \<Rightarrow> gateway_error" where
  "writeFailed what e = (case e of ErrWorkloadRetired _ \<Rightarrow> Refused | _ \<Rightarrow> Internal what)"

definition snapshot_msg :: "WorkloadPolicy \<Rightarrow> SyncResponse" where
  "snapshot_msg p = PolicyUpdate_Msg (Some (Snapshot (Some p)))"

definition delta_msg :: "PolicyDelta \<Rightarrow> SyncResponse" where
  "delta_msg d = PolicyUpdate_Msg (Some (Delta_Update d))"

text \<open>\<^verbatim>\<open>currentPolicy\<close>: the persisted policy, rendered once when there is none. Reads and the render are inputs.\<close>

definition currentPolicy :: "('e, WorkloadPolicy option) result \<Rightarrow> ('e, unit) result \<Rightarrow> ('e, WorkloadPolicy option) result
    \<Rightarrow> ('e option, WorkloadPolicy) result" where
  "currentPolicy first render second = (case first of
     Inl e \<Rightarrow> Inl (Some e)
   | Inr (Some p) \<Rightarrow> Inr p
   | Inr None \<Rightarrow> (case render of Inl e \<Rightarrow> Inl (Some e)
       | Inr _ \<Rightarrow> (case second of Inl e \<Rightarrow> Inl (Some e) | Inr None \<Rightarrow> Inl None | Inr (Some p) \<Rightarrow> Inr p)))"

text \<open>
  The opening of a stream after its Hello was read: the row records the Hello, HelloAck and the
  snapshot of the loaded policy are queued, the tip is set. A failed status write is only logged.
\<close>

definition open_session :: "bool \<Rightarrow> bool \<Rightarrow> Hello \<Rightarrow> PresentedCredential option \<Rightarrow> instant \<Rightarrow> Workload
    \<Rightarrow> (gateway_error, session \<times> bool) result" where
  "open_session agent_ok facts_ok hello presented now w =
     (case RecordAgent agent_ok (hello_agent hello) (hello_applied_version hello) presented now w of
        Inl (ErrWorkloadRetired _) \<Rightarrow> Inl Refused
      | Inl ErrWorkloadUnknown \<Rightarrow> Inl PermissionDenied
      | Inl RegistryWriteError \<Rightarrow> Inl (Internal ''recording agent'')
      | Inr w1 \<Rightarrow>
         (case (if hello_facts hello = None then Inr (w1, False) else RecordFacts facts_ok (hello_facts hello) now w1) of
            Inl e \<Rightarrow> Inl (writeFailed ''recording facts'' e)
          | Inr (w2, changed) \<Rightarrow> Inr (\<lparr>ss_lastSent = None, ss_recovery = 0, ss_row = w2, ss_services = [],
              ss_out = [HelloAck_Msg DefaultSyncConfig]\<rparr>, changed)))"

text \<open>The status write after a message was queued.\<close>

definition write_pending :: "bool \<Rightarrow> instant \<Rightarrow> session \<Rightarrow> session" where
  "write_pending written now s = (if written then s\<lparr>ss_row := SetSyncState SYNC_STATE_PENDING [] now (ss_row s)\<rparr> else s)"

text \<open>The three parts of the opening: the tip is set under the lock, the snapshot is queued after it, and then the row is written.\<close>

definition open_tip :: "WorkloadPolicy \<Rightarrow> session \<Rightarrow> session" where
  "open_tip p s = s\<lparr>ss_lastSent := Some p\<rparr>"

definition open_queue :: "WorkloadPolicy \<Rightarrow> session \<Rightarrow> session" where
  "open_queue p s = s\<lparr>ss_out := ss_out s @ [snapshot_msg p]\<rparr>"

definition open_snapshot :: "('e option, WorkloadPolicy) result \<Rightarrow> bool \<Rightarrow> instant \<Rightarrow> session \<Rightarrow> (gateway_error, session) result" where
  "open_snapshot loaded written now s = (case loaded of
     Inl _ \<Rightarrow> Inl (Internal ''loading policy'')
   | Inr p \<Rightarrow> Inr (write_pending written now (open_queue p (open_tip p s))))"

text \<open>
  What \<^verbatim>\<open>pushLatest\<close> does with the policy it loaded, up to the queueing of the delta; whether one was queued.
  \<open>live\<close> says the session has not ended. The lock is held from here until the row is written.
\<close>

definition push_queue :: "WorkloadPolicy \<Rightarrow> bool \<Rightarrow> session \<Rightarrow> bool \<times> session" where
  "push_queue p live s = (if ss_lastSent s = None \<or> version p \<le> GetVersion (ss_lastSent s) then (False, s)
     else let delta = Delta (ss_lastSent s) (Some p); s = s\<lparr>ss_lastSent := Some p\<rparr> in
       if \<not> live then (False, s) else (True, s\<lparr>ss_out := ss_out s @ [delta_msg delta]\<rparr>))"

definition pushLatest :: "('e, WorkloadPolicy option) result \<Rightarrow> bool \<Rightarrow> bool \<Rightarrow> instant \<Rightarrow> session \<Rightarrow> session" where
  "pushLatest loaded live written now s = (case loaded of
     Inl _ \<Rightarrow> s
   | Inr None \<Rightarrow> s
   | Inr (Some p) \<Rightarrow> (case push_queue p live s of (queued, s) \<Rightarrow> if queued then write_pending written now s else s))"

definition sendRecoverySnapshot :: "('e option, WorkloadPolicy) result \<Rightarrow> session \<Rightarrow> gateway_error option \<times> session" where
  "sendRecoverySnapshot loaded s = (case loaded of
     Inl _ \<Rightarrow> (Some (Internal ''loading policy''), s)
   | Inr p \<Rightarrow> (None, s\<lparr>ss_lastSent := Some p, ss_recovery := version p, ss_out := ss_out s @ [snapshot_msg p]\<rparr>))"

text \<open>
  The parts of \<^verbatim>\<open>handleAck\<close>: what an applied version says against the tip, read under the lock, and the row it is then written to;
  a failure written to the row, and whether it predates the last recovery, read under the lock.
\<close>

definition applied_state :: "64 word \<Rightarrow> session \<Rightarrow> SyncState" where
  "applied_state v s = (if GetVersion (ss_lastSent s) \<le> v then SYNC_STATE_SYNCED else SYNC_STATE_PENDING)"

definition write_applied :: "bool \<Rightarrow> 64 word \<Rightarrow> SyncState \<Rightarrow> instant \<Rightarrow> session \<Rightarrow> gateway_error option \<times> session" where
  "write_applied ok v st now s = (case RecordApplied ok v st now (ss_row s) of
     Inl e \<Rightarrow> (Some (writeFailed ''recording applied version'' e), s)
   | Inr w \<Rightarrow> (None, s\<lparr>ss_row := w\<rparr>))"

definition write_failed :: "bool \<Rightarrow> string \<Rightarrow> instant \<Rightarrow> session \<Rightarrow> gateway_error option \<times> session" where
  "write_failed ok detail now s = (case RecordApplyFailed ok detail now (ss_row s) of
     Inl e \<Rightarrow> (Some (writeFailed ''recording failed apply'' e), s)
   | Inr w \<Rightarrow> (None, s\<lparr>ss_row := w\<rparr>))"

definition stale_failure :: "64 word \<Rightarrow> session \<Rightarrow> bool" where
  "stale_failure v s = (v \<le> ss_recovery s)"

definition handleAck :: "bool \<Rightarrow> ('e option, WorkloadPolicy) result \<Rightarrow> instant \<Rightarrow> PolicyAck \<Rightarrow> session \<Rightarrow> gateway_error option \<times> session" where
  "handleAck ok loaded now ack s = (case ack_status ack of
     ACK_STATUS_APPLIED \<Rightarrow> write_applied ok (ack_version ack) (applied_state (ack_version ack) s) now s
   | ACK_STATUS_FAILED \<Rightarrow> (case write_failed ok (ack_error_detail ack) now s of
         (Some e, s) \<Rightarrow> (Some e, s)
       | (None, s) \<Rightarrow> if stale_failure (ack_version ack) s then (None, s) else sendRecoverySnapshot loaded s)
   | ACK_STATUS_UNSPECIFIED \<Rightarrow> (Some (InvalidArgument ''ack status must be APPLIED or FAILED''), s)
   | ACK_STATUS_OTHER _ \<Rightarrow> (Some (InvalidArgument ''unknown ack status''), s))"

text \<open>\<^verbatim>\<open>heartbeatUptime\<close>: seconds as signed nanoseconds, held to what 64 bits carry.\<close>

definition heartbeatUptime :: "64 word \<Rightarrow> 64 word" where
  "heartbeatUptime seconds = min seconds 9223372036 * 1000000000"

text \<open>\<^verbatim>\<open>handleMessage\<close>: an agent's message after Hello; the flag says that a render is due.\<close>

definition handleMessage :: "bool \<Rightarrow> bool \<Rightarrow> ('e option, WorkloadPolicy) result \<Rightarrow> instant \<Rightarrow> SyncRequest \<Rightarrow> session
    \<Rightarrow> (gateway_error option \<times> bool) \<times> session" where
  "handleMessage ok services_ok loaded now msg s = (case msg of
     PolicyAck_Msg a \<Rightarrow> (case handleAck ok loaded now a s of (r, s') \<Rightarrow> ((r, False), s'))
   | Inventory_Msg report \<Rightarrow> (case RecordFacts ok (inv_facts report) now (ss_row s) of
         Inl e \<Rightarrow> ((Some (writeFailed ''recording facts'' e), False), s)
       | Inr (w, changed) \<Rightarrow> (case RecordListeningServices services_ok now w of
            Inl e \<Rightarrow> ((Some (writeFailed ''recording listening services'' e), False), s\<lparr>ss_row := w\<rparr>)
          | Inr w' \<Rightarrow> ((None, changed), s\<lparr>ss_row := w', ss_services := inv_listening_services report\<rparr>)))
   | Heartbeat_Msg hb \<Rightarrow> (case RecordHeartbeat ok hb now (ss_row s) of
         Inl e \<Rightarrow> ((Some (writeFailed ''recording heartbeat'' e), False), s)
       | Inr w \<Rightarrow> ((None, False), s\<lparr>ss_row := w\<rparr>))
   | Hello_Msg _ \<Rightarrow> ((Some (InvalidArgument ''Hello is only valid as the first message of a stream''), False), s)
   | Request_Empty \<Rightarrow> ((Some (InvalidArgument ''empty sync message''), False), s))"

section \<open>The sessions of one replica\<close>

text \<open>
  The registry of live streams: at most one per workload, and a workload whose stream just left is
  held until its offline mark is written. A stream is known by its number; \<open>superseded\<close> collects
  the streams that were ended because a newer one of their workload registered.
\<close>

record sessions =
  sn_live :: "(uuid, nat) gomap"
  sn_marking :: "(uuid, nat) gomap"
  sn_superseded :: "nat list"

definition newSessions :: sessions where
  "newSessions = \<lparr>sn_live = [], sn_marking = [], sn_superseded = []\<rparr>"

text \<open>\<open>None\<close>: the workload is held, and the stream waits.\<close>

definition sessions_add :: "uuid \<Rightarrow> nat \<Rightarrow> sessions \<Rightarrow> sessions option" where
  "sessions_add k sess r = (case map_of (sn_marking r) k of
     Some _ \<Rightarrow> None
   | None \<Rightarrow> Some (r\<lparr>sn_live := AList.update k sess (sn_live r),
       sn_superseded := (case map_of (sn_live r) k of Some old \<Rightarrow> sn_superseded r @ [old] | None \<Rightarrow> sn_superseded r)\<rparr>))"

definition sessions_remove :: "uuid \<Rightarrow> nat \<Rightarrow> sessions \<Rightarrow> bool \<times> sessions" where
  "sessions_remove k sess r = (if map_of (sn_live r) k \<noteq> Some sess then (False, r)
     else (True, r\<lparr>sn_live := AList.delete k (sn_live r), sn_marking := AList.update k sess (sn_marking r)\<rparr>))"

definition sessions_marked :: "uuid \<Rightarrow> sessions \<Rightarrow> sessions" where
  "sessions_marked k r = r\<lparr>sn_marking := AList.delete k (sn_marking r)\<rparr>"

definition sessions_get :: "uuid \<Rightarrow> sessions \<Rightarrow> nat option" where
  "sessions_get k r = map_of (sn_live r) k"

end
