(* ===== verification/Convergence.thy ===== *)
theory Convergence
  imports GatewaySync
begin

text \<open>
  One sync stream end to end: the persisted policy of a workload, its session on the control plane,
  the messages and acknowledgements in flight, and the agent's policy store. The steps are the parts of
  the handlers between which the code releases the session lock or waits for the database: the goroutine that
  opens the stream, the pushes, the reader of acknowledgements, renders and the agent interleave freely, and
  status writes and loads may fail. A run records the hazards it met, the interleavings and failures after which less
  holds. The invariant says which chain of policies the messages in flight spell out and where the agent stands on it.
\<close>

section \<open>The system\<close>

text \<open>How far the opening has come: the tip is set and the snapshot not queued, the snapshot is queued and the row not written, or done.\<close>

datatype open_phase = Tip_set WorkloadPolicy | Snapshot_queued | Stream_open

text \<open>
  Where the reader of acknowledgements is: waiting for one; with the state an applied version is to be written with; with a failure
  written and not yet compared with the last recovery; due to load the policy to recover with; with that policy.
\<close>

datatype reader = Reading | Tip_read "64 word" SyncState | Failure_written "64 word" | Recovery_due | Recovery_loaded WorkloadPolicy

text \<open>
  A push that gave up because its load failed or the stream had no tip yet; a failed status write; a push between setting
  the first tip and queueing its snapshot; a push between reading the tip for an acknowledgement and writing the row; a recovery
  with a policy older than what a push had sent since it was loaded.
\<close>

datatype hazard = Announcement_lost | Status_unwritten | Opening_overtaken | Ack_overtaken | Recovery_overtaken

text \<open>
  \<open>wd_loaded\<close> are the policies of pushes waiting for the lock; \<open>wd_writing\<close> says a push has queued its delta and holds the lock until it has
  written the row.
\<close>

record 's world =
  wd_policy :: WorkloadPolicy
  wd_announced :: bool
  wd_loaded :: "WorkloadPolicy list"
  wd_writing :: bool
  wd_opening :: open_phase
  wd_reader :: reader
  wd_session :: session
  wd_acks :: "PolicyAck list"
  wd_store :: 's
  wd_met :: "hazard set"

definition meets :: "hazard \<Rightarrow> bool \<Rightarrow> hazard set \<Rightarrow> hazard set" where
  "meets x b met = (if b then insert x met else met)"

text \<open>The policy an agent works from, \<^verbatim>\<open>rendered.Empty\<close> before the first.\<close>

definition held :: "('s \<Rightarrow> WorkloadPolicy option) \<Rightarrow> 's \<Rightarrow> WorkloadPolicy" where
  "held cur s = (case cur s of None \<Rightarrow> Empty | Some p \<Rightarrow> p)"

text \<open>
  A stream that just set its tip to the policy it loaded. A newer one may be persisted by now, announced or not any more. What the agent
  holds is older than what was loaded, or is that policy.
\<close>

definition opened :: "('s \<Rightarrow> WorkloadPolicy option) \<Rightarrow> 's world \<Rightarrow> bool" where
  "opened cur w = (case ss_lastSent (wd_session w) of None \<Rightarrow> False
   | Some p \<Rightarrow> (p = wd_policy w \<or> version p < version (wd_policy w) \<and> (wd_announced w \<or> Announcement_lost \<in> wd_met w)) \<and>
     wd_loaded w = [] \<and> \<not> wd_writing w \<and> wd_opening w = Tip_set p \<and> wd_reader w = Reading \<and>
     ss_recovery (wd_session w) = 0 \<and> ss_out (wd_session w) = [] \<and> wd_acks w = [] \<and>
     (version (held cur (wd_store w)) < version p \<or> held cur (wd_store w) = Canonical (Some p)))"

inductive sync_step :: "('env \<Rightarrow> WorkloadPolicy option \<Rightarrow> 's \<Rightarrow> ('e, unit) result \<times> 's) \<Rightarrow> ('s \<Rightarrow> WorkloadPolicy option)
    \<Rightarrow> (apply_error + 'e \<Rightarrow> string) \<Rightarrow> 's world \<Rightarrow> 's world \<Rightarrow> bool" for app cur text_of where
  rendered: "version (wd_policy w) < version p \<Longrightarrow>
    sync_step app cur text_of w (w\<lparr>wd_policy := p, wd_announced := True\<rparr>)"
| opening_queued: "wd_opening w = Tip_set p \<Longrightarrow>
    sync_step app cur text_of w (w\<lparr>wd_opening := Snapshot_queued, wd_session := open_queue p (wd_session w)\<rparr>)"
| opening_written: "wd_opening w = Snapshot_queued \<Longrightarrow>
    sync_step app cur text_of w (w\<lparr>wd_opening := Stream_open, wd_session := write_pending ok now (wd_session w), wd_met := meets Status_unwritten (\<not> ok) (wd_met w)\<rparr>)"
| push_failed: "sync_step app cur text_of w (w\<lparr>wd_announced := False, wd_met := meets Announcement_lost (wd_announced w) (wd_met w)\<rparr>)"
| push_loaded: "sync_step app cur text_of w (w\<lparr>wd_announced := False, wd_loaded := wd_policy w # wd_loaded w\<rparr>)"
| pushed: "p \<in> set (wd_loaded w) \<Longrightarrow> \<not> wd_writing w \<Longrightarrow> push_queue p True (wd_session w) = (queued, sess) \<Longrightarrow>
    sync_step app cur text_of w (w\<lparr>wd_loaded := remove1 p (wd_loaded w), wd_writing := queued, wd_session := sess,
      wd_met := meets Opening_overtaken (queued \<and> (\<exists>q. wd_opening w = Tip_set q)) (meets Ack_overtaken (queued \<and> (\<exists>v st. wd_reader w = Tip_read v st)) (wd_met w))\<rparr>)"
| push_written: "wd_writing w \<Longrightarrow>
    sync_step app cur text_of w (w\<lparr>wd_writing := False, wd_session := write_pending ok now (wd_session w), wd_met := meets Status_unwritten (\<not> ok) (wd_met w)\<rparr>)"
| applied: "ss_out (wd_session w) = PolicyUpdate_Msg (Some u) # rest \<Longrightarrow>
    applyUpdate app cur text_of env (Some u) (wd_store w) = (Inr a, s') \<Longrightarrow>
    sync_step app cur text_of w (w\<lparr>wd_session := (wd_session w)\<lparr>ss_out := rest\<rparr>, wd_store := s', wd_acks := wd_acks w @ [a]\<rparr>)"
| ack_read: "wd_opening w = Stream_open \<Longrightarrow> wd_reader w = Reading \<Longrightarrow> wd_acks w = a # rest \<Longrightarrow> ack_status a = ACK_STATUS_APPLIED \<Longrightarrow> \<not> wd_writing w \<Longrightarrow>
    sync_step app cur text_of w (w\<lparr>wd_acks := rest, wd_reader := Tip_read (ack_version a) (applied_state (ack_version a) (wd_session w))\<rparr>)"
| ack_written: "wd_reader w = Tip_read v st \<Longrightarrow> write_applied True v st now (wd_session w) = (None, sess) \<Longrightarrow>
    sync_step app cur text_of w (w\<lparr>wd_reader := Reading, wd_session := sess\<rparr>)"
| failure_written: "wd_opening w = Stream_open \<Longrightarrow> wd_reader w = Reading \<Longrightarrow> wd_acks w = a # rest \<Longrightarrow> ack_status a = ACK_STATUS_FAILED \<Longrightarrow>
    write_failed True (ack_error_detail a) now (wd_session w) = (None, sess) \<Longrightarrow>
    sync_step app cur text_of w (w\<lparr>wd_acks := rest, wd_reader := Failure_written (ack_version a), wd_session := sess\<rparr>)"
| failure_compared: "wd_reader w = Failure_written v \<Longrightarrow> \<not> wd_writing w \<Longrightarrow>
    sync_step app cur text_of w (w\<lparr>wd_reader := (if stale_failure v (wd_session w) then Reading else Recovery_due)\<rparr>)"
| recovery_loaded: "wd_reader w = Recovery_due \<Longrightarrow>
    sync_step app cur text_of w (w\<lparr>wd_reader := Recovery_loaded (wd_policy w)\<rparr>)"
| recovered: "wd_reader w = Recovery_loaded p \<Longrightarrow> \<not> wd_writing w \<Longrightarrow>
    sendRecoverySnapshot (Inr p :: (unit option, WorkloadPolicy) result) (wd_session w) = (None, sess) \<Longrightarrow>
    sync_step app cur text_of w (w\<lparr>wd_reader := Reading, wd_session := sess,
      wd_met := meets Recovery_overtaken (version p < GetVersion (ss_lastSent (wd_session w))) (wd_met w)\<rparr>)"

section \<open>The chain of policies in flight\<close>

text \<open>
  The messages in flight lead from the policy the agent was last told to reach to the tip, over policies of the history \<open>H\<close>. Snapshots only lead forward
  unless a recovery was overtaken.
\<close>

fun chain :: "WorkloadPolicy set \<Rightarrow> bool \<Rightarrow> WorkloadPolicy option \<Rightarrow> SyncResponse list \<Rightarrow> WorkloadPolicy \<Rightarrow> bool" where
  "chain H fwd base [] tip = (base = Some tip)"
| "chain H fwd base (m # ms) tip = (\<exists>t\<in>H. chain H fwd (Some t) ms tip \<and>
     ((m = snapshot_msg t \<and> (fwd \<longrightarrow> (\<forall>b. base = Some b \<longrightarrow> version b < version t \<or> b = t))) \<or>
      (\<exists>b. base = Some b \<and> m = delta_msg (Delta (Some b) (Some t)) \<and> version b < version t)))"

lemma chain_mono: "chain H True (Some b) ms tip \<Longrightarrow> version b \<le> version tip"
proof (induction ms arbitrary: b)
  case (Cons m ms)
  then obtain t where "chain H True (Some t) ms tip" "version b < version t \<or> b = t" by auto
  with Cons.IH [of t] show ?case by auto
qed simp

lemma chain_snoc:
  "chain H fwd base ms tip \<Longrightarrow> t \<in> H \<Longrightarrow> m = snapshot_msg t \<and> (fwd \<longrightarrow> version tip < version t \<or> tip = t) \<or>
     m = delta_msg (Delta (Some tip) (Some t)) \<and> version tip < version t \<Longrightarrow> chain H fwd base (ms @ [m]) t"
  by (induction ms arbitrary: base) auto

lemma chain_at_tip:
  "chain H True (Some b) ms tip \<Longrightarrow> version tip \<le> version b \<Longrightarrow> b = tip \<and> (\<forall>m\<in>set ms. m = snapshot_msg tip)"
proof (induction ms arbitrary: b)
  case (Cons m ms)
  then obtain t where t: "chain H True (Some t) ms tip" "(m = snapshot_msg t \<and> (version b < version t \<or> b = t)) \<or> version b < version t" by auto
  with chain_mono [OF t(1)] Cons.prems(2) have "b = t" "m = snapshot_msg t" by auto
  with Cons.IH [OF t(1)] Cons.prems(2) show ?case by auto
qed simp

lemma chain_weaken: "chain H fwd base ms tip \<Longrightarrow> H \<subseteq> H' \<Longrightarrow> fwd' \<longrightarrow> fwd \<Longrightarrow> chain H' fwd' base ms tip"
  by (induction ms arbitrary: base) (simp, fastforce)

text \<open>A history has one policy per version; the agent holds one of it, or something older than all of it.\<close>

definition knows :: "WorkloadPolicy set \<Rightarrow> WorkloadPolicy \<Rightarrow> bool" where
  "knows H h = (inj_on version H \<and> ((\<exists>q\<in>H. h = Canonical (Some q)) \<or> (\<forall>q\<in>H. version h < version q)))"

lemma msg_simps [simp]:
  "snapshot_msg p = snapshot_msg q \<longleftrightarrow> p = q" "snapshot_msg p \<noteq> delta_msg d" "delta_msg d \<noteq> snapshot_msg p"
  by (simp_all add: snapshot_msg_def delta_msg_def)

lemma version_Canonical_Some [simp]: "version (Canonical (Some p)) = version p"
  by (simp add: Canonical.simps)

text \<open>The next message of a chain leads to its target, or to nothing.\<close>

lemma chain_next:
  assumes "chain H fwd base (PolicyUpdate_Msg (Some u) # rest) tip" and "knows H h" and "\<And>b. base = Some b \<Longrightarrow> b \<in> H"
  obtains t where "t \<in> H" "chain H fwd (Some t) rest tip" "update_version u = version t"
    "\<And>nxt. update_next h u = Inr nxt \<Longrightarrow> nxt = Canonical (Some t)" "\<And>q. PolicyUpdate_Msg (Some u) = snapshot_msg q \<Longrightarrow> t = q"
proof -
  from assms(1) obtain t where t: "t \<in> H" "chain H fwd (Some t) rest tip"
    "PolicyUpdate_Msg (Some u) = snapshot_msg t \<or> (\<exists>b. base = Some b \<and> PolicyUpdate_Msg (Some u) = delta_msg (Delta (Some b) (Some t)) \<and> version b < version t)"
    by auto
  from t(3) show thesis
  proof
    assume "PolicyUpdate_Msg (Some u) = snapshot_msg t"
    then have u: "u = Snapshot (Some t)" by (simp add: snapshot_msg_def)
    show thesis by (rule that [OF t(1,2)]) (use u in \<open>auto simp: snapshot_msg_def\<close>)
  next
    assume "\<exists>b. base = Some b \<and> PolicyUpdate_Msg (Some u) = delta_msg (Delta (Some b) (Some t)) \<and> version b < version t"
    then obtain b where b: "base = Some b" "u = Delta_Update (Delta (Some b) (Some t))" by (auto simp: delta_msg_def)
    show thesis
    proof (rule that [OF t(1,2)])
      show "update_version u = version t" using b by (simp add: Delta_def)
      fix nxt assume n: "update_next h u = Inr nxt"
      then have "version h = version b" using b(2) by (auto simp: Apply_def Let_def Delta_def split: if_split_asm)
      then have "h = Canonical (Some b)" using assms(2,3) b(1) by (fastforce simp: knows_def inj_on_def)
      then show "nxt = Canonical (Some t)" using n b(2) Apply_Canonical [of "Some b"] by (simp add: Apply_Delta_eq)
    qed (use b(2) in \<open>simp add: snapshot_msg_def\<close>)
  qed
qed

section \<open>The invariant\<close>

text \<open>What will reach the agent, the snapshot of an opening stream included.\<close>

definition queue :: "'s world \<Rightarrow> SyncResponse list" where
  "queue w = ss_out (wd_session w) @ (case wd_opening w of Tip_set p \<Rightarrow> [snapshot_msg p] | _ \<Rightarrow> [])"

abbreviation row_state :: "'s world \<Rightarrow> SyncState" where
  "row_state w \<equiv> w_sync_state (ss_row (wd_session w))"

text \<open>
  The agent could not apply the last message it took, whose target is \<open>b\<close>: the failure is on its way, is being handled, was answered by a
  message still queued, or was of the last recovery itself, and then the row says degraded.
\<close>

definition behind :: "WorkloadPolicy \<Rightarrow> 's world \<Rightarrow> bool" where
  "behind b w = (if wd_acks w \<noteq> [] then ack_status (last (wd_acks w)) = ACK_STATUS_FAILED \<and> ack_version (last (wd_acks w)) = version b
     else case wd_reader w of
       Reading \<Rightarrow> queue w \<noteq> [] \<or> version b \<le> ss_recovery (wd_session w) \<and> row_state w = SYNC_STATE_DEGRADED
     | Tip_read _ _ \<Rightarrow> False
     | Failure_written v \<Rightarrow> v = version b \<and> (queue w = [] \<longrightarrow> row_state w = SYNC_STATE_DEGRADED \<or> ss_recovery (wd_session w) < version b)
     | _ \<Rightarrow> True)"

definition stands :: "WorkloadPolicy \<Rightarrow> WorkloadPolicy option \<Rightarrow> 's world \<Rightarrow> bool" where
  "stands h base w = (case base of
     None \<Rightarrow> wd_acks w = [] \<and> wd_reader w = Reading \<and> queue w \<noteq> []
   | Some b \<Rightarrow> (h = Canonical (Some b) \<or> behind b w) \<and> (wd_opening w \<noteq> Stream_open \<longrightarrow> wd_acks w \<noteq> [] \<and> wd_reader w = Reading))"

definition failing :: "reader \<Rightarrow> bool" where
  "failing r = (case r of Reading \<Rightarrow> False | Tip_read _ _ \<Rightarrow> False | _ \<Rightarrow> True)"

text \<open>The agent holds the tip, and what is still in flight is that tip again.\<close>

definition at_tip :: "WorkloadPolicy \<Rightarrow> WorkloadPolicy \<Rightarrow> 's world \<Rightarrow> bool" where
  "at_tip h tip w = (h = Canonical (Some tip) \<and> (\<forall>m\<in>set (queue w). m = snapshot_msg tip))"

definition unraced :: "'s world \<Rightarrow> bool" where
  "unraced w = (wd_met w \<inter> {Status_unwritten, Ack_overtaken, Recovery_overtaken} = {})"

definition truthful :: "WorkloadPolicy \<Rightarrow> WorkloadPolicy \<Rightarrow> 's world \<Rightarrow> bool" where
  "truthful h tip w =
     ((\<forall>a\<in>set (wd_acks w). ack_version a \<le> version tip \<and> (ack_status a = ACK_STATUS_APPLIED \<and> ack_version a = version tip \<longrightarrow> at_tip h tip w)) \<and>
      (\<forall>v. wd_reader w = Tip_read v SYNC_STATE_SYNCED \<longrightarrow> at_tip h tip w) \<and>
      (row_state w = SYNC_STATE_SYNCED \<and> \<not> wd_writing w \<and> wd_opening w = Stream_open \<longrightarrow> at_tip h tip w))"

definition recorded :: "WorkloadPolicy set \<Rightarrow> WorkloadPolicy option \<Rightarrow> WorkloadPolicy \<Rightarrow> 's world \<Rightarrow> bool" where
  "recorded H base tip w = (wd_policy w \<in> H \<and> (\<forall>q\<in>H. version q \<le> version (wd_policy w)) \<and> set (wd_loaded w) \<subseteq> H \<and>
     (\<forall>p. wd_reader w = Recovery_loaded p \<longrightarrow> p \<in> H) \<and> tip \<in> H \<and> (\<forall>b. base = Some b \<longrightarrow> b \<in> H))"

definition session_ok :: "WorkloadPolicy \<Rightarrow> 's world \<Rightarrow> bool" where
  "session_ok tip w = (ss_lastSent (wd_session w) = Some tip \<and> ss_recovery (wd_session w) \<le> version tip \<and>
     (wd_writing w \<longrightarrow> ss_recovery (wd_session w) < version tip) \<and> (\<forall>p. wd_opening w = Tip_set p \<longrightarrow> ss_out (wd_session w) = [] \<and> p = tip) \<and>
     (failing (wd_reader w) \<longrightarrow> row_state w \<noteq> SYNC_STATE_SYNCED))"

definition up_to_date :: "WorkloadPolicy \<Rightarrow> 's world \<Rightarrow> bool" where
  "up_to_date tip w = (tip = wd_policy w \<or> wd_announced w \<or> wd_policy w \<in> set (wd_loaded w) \<or> wd_met w \<inter> {Announcement_lost, Recovery_overtaken} \<noteq> {})"

definition good :: "WorkloadPolicy set \<Rightarrow> WorkloadPolicy option \<Rightarrow> WorkloadPolicy \<Rightarrow> WorkloadPolicy \<Rightarrow> 's world \<Rightarrow> bool" where
  "good H base tip h w = (knows H h \<and> recorded H base tip w \<and> session_ok tip w \<and> up_to_date tip w \<and>
     chain H (Recovery_overtaken \<notin> wd_met w) base (queue w) tip \<and> stands h base w \<and> (unraced w \<longrightarrow> truthful h tip w))"

lemmas good_defs = recorded_def session_ok_def up_to_date_def stands_def behind_def failing_def truthful_def unraced_def at_tip_def queue_def meets_def

definition world_inv :: "('s \<Rightarrow> WorkloadPolicy option) \<Rightarrow> 's world \<Rightarrow> bool" where
  "world_inv cur w = (Opening_overtaken \<in> wd_met w \<or> (\<exists>H base tip. good H base tip (held cur (wd_store w)) w))"

lemma good_opened:
  assumes "opened cur w"
  shows "\<exists>H base tip. good H base tip (held cur (wd_store w)) w"
proof -
  obtain p where p: "ss_lastSent (wd_session w) = Some p" using assms by (auto simp: opened_def split: option.split_asm)
  have "good {p, wd_policy w} None p (held cur (wd_store w)) w"
    using assms p by (auto simp: good_def knows_def good_defs opened_def inj_on_def)
  then show ?thesis by blast
qed

lemma goodI:
  assumes "knows H h" "recorded H base tip w" "session_ok tip w" "up_to_date tip w" "chain H (Recovery_overtaken \<notin> wd_met w) base (queue w) tip"
    "stands h base w" "unraced w \<Longrightarrow> truthful h tip w"
  shows "good H base tip h w"
  using assms by (simp add: good_def)

lemma goodE:
  assumes "good H base tip h w"
  obtains "knows H h" "recorded H base tip w" "session_ok tip w" "up_to_date tip w" "chain H (Recovery_overtaken \<notin> wd_met w) base (queue w) tip"
    "stands h base w" "unraced w \<Longrightarrow> truthful h tip w"
  using assms by (simp add: good_def)

text \<open>Steps that leave what is in flight, the acknowledgements, the reader and the row alone.\<close>

lemma stands_cong:
  assumes "stands h base w" and "queue w' = queue w" and "wd_acks w' = wd_acks w" and "wd_reader w' = wd_reader w" and "row_state w' = row_state w"
    and "ss_recovery (wd_session w') = ss_recovery (wd_session w)" and "wd_opening w' \<noteq> Stream_open \<Longrightarrow> wd_opening w \<noteq> Stream_open"
  shows "stands h base w'"
  using assms(1,7) by (cases base; cases "wd_reader w") (auto simp: stands_def behind_def assms(2-6))

lemma truthful_cong:
  assumes "truthful h tip w" and "queue w' = queue w" and "wd_acks w' = wd_acks w" and "wd_reader w' = wd_reader w"
    and "row_state w' = SYNC_STATE_SYNCED \<Longrightarrow> \<not> wd_writing w' \<Longrightarrow> wd_opening w' = Stream_open \<Longrightarrow> row_state w = SYNC_STATE_SYNCED \<and> \<not> wd_writing w \<and> wd_opening w = Stream_open"
  shows "truthful h tip w'"
proof -
  have "at_tip h tip w' = at_tip h tip w" by (simp add: at_tip_def assms(2))
  then show ?thesis using assms(1,5) unfolding truthful_def assms(3,4) by blast
qed

lemma knows_insert:
  assumes "knows H h" and "\<forall>q\<in>H. version q < version p" and "version h < version p"
  shows "knows (insert p H) h"
proof -
  have "version p \<notin> version ` (H - {p})" using assms(2) by (metis DiffD1 image_iff less_irrefl)
  then have "inj_on version (insert p H)" using assms(1) by (simp add: knows_def inj_on_insert)
  then show ?thesis using assms(1,3) unfolding knows_def by blast
qed

lemma good_rendered:
  assumes "good H base tip h w" and "version (wd_policy w) < version p"
  shows "good (insert p H) base tip h (w\<lparr>wd_policy := p, wd_announced := True\<rparr>)"
  using assms(1)
proof (rule goodE)
  let ?w = "w\<lparr>wd_policy := p, wd_announced := True\<rparr>"
  assume g: "knows H h" "recorded H base tip w" "session_ok tip w" "chain H (Recovery_overtaken \<notin> wd_met w) base (queue w) tip"
    "stands h base w" "unraced w \<Longrightarrow> truthful h tip w"
  have new: "version q < version p" if "q \<in> H" for q using g(2) assms(2) that by (fastforce simp: recorded_def)
  have "version h < version p"
  proof -
    have "\<exists>q\<in>H. version h \<le> version q" using g(1,2) unfolding knows_def recorded_def by (metis less_imp_le order_refl version_Canonical_Some)
    then show ?thesis using new by fastforce
  qed
  then have "knows (insert p H) h" using knows_insert [OF g(1)] new by blast
  moreover have "recorded (insert p H) base tip ?w" using g(2) new by (auto simp: recorded_def less_imp_le)
  moreover have "chain (insert p H) (Recovery_overtaken \<notin> wd_met ?w) base (queue ?w) tip"
    using chain_weaken [OF g(4), of "insert p H"] by (simp add: queue_def subset_insertI)
  ultimately show ?thesis using g(3,5,6)
    by (intro goodI) (auto simp: session_ok_def up_to_date_def queue_def unraced_def intro: stands_cong truthful_cong)
qed

lemma good_opening_queued:
  assumes "good H base tip h w" and "wd_opening w = Tip_set p"
  shows "good H base tip h (w\<lparr>wd_opening := Snapshot_queued, wd_session := open_queue p (wd_session w)\<rparr>)"
  using assms(1)
proof (rule goodE)
  let ?w = "w\<lparr>wd_opening := Snapshot_queued, wd_session := open_queue p (wd_session w)\<rparr>"
  assume g: "knows H h" "recorded H base tip w" "session_ok tip w" "up_to_date tip w" "chain H (Recovery_overtaken \<notin> wd_met w) base (queue w) tip"
    "stands h base w" "unraced w \<Longrightarrow> truthful h tip w"
  have q: "queue ?w = queue w" using assms(2) by (simp add: queue_def open_queue_def)
  have "stands h base ?w" by (rule stands_cong [OF g(6) q]) (use assms(2) in \<open>simp_all add: open_queue_def\<close>)
  moreover have "truthful h tip ?w" if "unraced ?w"
    by (rule truthful_cong [OF g(7) q]) (use that in \<open>simp_all add: open_queue_def unraced_def\<close>)
  ultimately show ?thesis using g(1-5) q
    by (intro goodI) (simp_all add: recorded_def session_ok_def up_to_date_def open_queue_def)
qed

lemma write_pending_simps [simp]:
  "ss_lastSent (write_pending ok now s) = ss_lastSent s" "ss_recovery (write_pending ok now s) = ss_recovery s" "ss_out (write_pending ok now s) = ss_out s"
  "w_sync_state (ss_row (write_pending ok now s)) = (if ok then SYNC_STATE_PENDING else w_sync_state (ss_row s))"
  by (simp_all add: write_pending_def SetSyncState_def)

lemma meets_superset [simp]: "met \<subseteq> meets x b met"
  by (auto simp: meets_def)

lemma unraced_meets: "unraced w' \<Longrightarrow> wd_met w \<subseteq> wd_met w' \<Longrightarrow> unraced w"
  by (auto simp: unraced_def)

lemma good_opening_written:
  assumes "good H base tip h w" and "wd_opening w = Snapshot_queued"
  shows "good H base tip h (w\<lparr>wd_opening := Stream_open, wd_session := write_pending ok now (wd_session w), wd_met := meets Status_unwritten (\<not> ok) (wd_met w)\<rparr>)"
    (is "good _ _ _ _ ?w")
  using assms(1)
proof (rule goodE)
  assume g: "knows H h" "recorded H base tip w" "session_ok tip w" "up_to_date tip w" "chain H (Recovery_overtaken \<notin> wd_met w) base (queue w) tip"
    "stands h base w" "unraced w \<Longrightarrow> truthful h tip w"
  have q: "queue ?w = queue w" using assms(2) by (simp add: queue_def)
  have "stands h base ?w" using g(6) q assms(2) by (cases base) (auto simp: stands_def behind_def)
  moreover have "truthful h tip ?w" if u: "unraced ?w"
  proof -
    have ok: ok using u by (cases ok) (auto simp: unraced_def meets_def)
    have "unraced w" by (rule unraced_meets [OF u]) simp
    then show ?thesis by (rule truthful_cong [OF g(7) q]) (use ok in simp_all)
  qed
  ultimately show ?thesis using g(1-5) q
    by (intro goodI) (auto simp: recorded_def session_ok_def up_to_date_def meets_def)
qed

lemma good_push_failed:
  assumes "good H base tip h w"
  shows "good H base tip h (w\<lparr>wd_announced := False, wd_met := meets Announcement_lost (wd_announced w) (wd_met w)\<rparr>)" (is "good _ _ _ _ ?w")
  using assms(1)
proof (rule goodE)
  assume g: "knows H h" "recorded H base tip w" "session_ok tip w" "up_to_date tip w" "chain H (Recovery_overtaken \<notin> wd_met w) base (queue w) tip"
    "stands h base w" "unraced w \<Longrightarrow> truthful h tip w"
  have q: "queue ?w = queue w" by (simp add: queue_def)
  have "stands h base ?w" by (rule stands_cong [OF g(6) q]) simp_all
  moreover have "truthful h tip ?w" if "unraced ?w"
  proof -
    have "unraced w" by (rule unraced_meets [OF that]) simp
    then show ?thesis by (rule truthful_cong [OF g(7) q]) simp_all
  qed
  ultimately show ?thesis using g(1-5) q
    by (intro goodI) (auto simp: recorded_def session_ok_def up_to_date_def meets_def)
qed

lemma good_push_loaded:
  assumes "good H base tip h w"
  shows "good H base tip h (w\<lparr>wd_announced := False, wd_loaded := wd_policy w # wd_loaded w\<rparr>)" (is "good _ _ _ _ ?w")
  using assms(1)
proof (rule goodE)
  assume g: "knows H h" "recorded H base tip w" "session_ok tip w" "up_to_date tip w" "chain H (Recovery_overtaken \<notin> wd_met w) base (queue w) tip"
    "stands h base w" "unraced w \<Longrightarrow> truthful h tip w"
  have q: "queue ?w = queue w" by (simp add: queue_def)
  have "stands h base ?w" by (rule stands_cong [OF g(6) q]) simp_all
  moreover have "truthful h tip ?w" if "unraced ?w"
    by (rule truthful_cong [OF g(7) q]) (use that in \<open>simp_all add: unraced_def\<close>)
  ultimately show ?thesis using g(1-5) q
    by (intro goodI) (auto simp: recorded_def session_ok_def up_to_date_def)
qed

text \<open>A push that finds nothing newer, and one that queues a delta.\<close>

lemma good_push_idle:
  assumes "good H base tip h w" and "p \<in> set (wd_loaded w)" and "version p \<le> version tip"
  shows "good H base tip h (w\<lparr>wd_loaded := remove1 p (wd_loaded w)\<rparr>)" (is "good _ _ _ _ ?w")
  using assms(1)
proof (rule goodE)
  assume g: "knows H h" "recorded H base tip w" "session_ok tip w" "up_to_date tip w" "chain H (Recovery_overtaken \<notin> wd_met w) base (queue w) tip"
    "stands h base w" "unraced w \<Longrightarrow> truthful h tip w"
  have q: "queue ?w = queue w" by (simp add: queue_def)
  have "stands h base ?w" by (rule stands_cong [OF g(6) q]) simp_all
  moreover have "truthful h tip ?w" if "unraced ?w"
    by (rule truthful_cong [OF g(7) q]) (use that in \<open>simp_all add: unraced_def\<close>)
  moreover have "up_to_date tip ?w"
  proof (cases "p = wd_policy w")
    case True
    then have "version tip = version p" using g(2) assms(3) by (auto simp: recorded_def intro: antisym)
    then have "tip = p" using g(1,2) True by (auto simp: knows_def recorded_def inj_on_def)
    then show ?thesis using True by (simp add: up_to_date_def)
  next
    case False
    then show ?thesis using g(4) by (auto simp: up_to_date_def)
  qed
  ultimately show ?thesis using g(1-3,5) q set_remove1_subset [of p "wd_loaded w"]
    by (intro goodI) (auto simp: recorded_def session_ok_def)
qed

lemma good_push_queued:
  assumes "good H base tip h w" and "p \<in> set (wd_loaded w)" and "version tip < version p" and "\<forall>q. wd_opening w \<noteq> Tip_set q"
  shows "good H base p h (w\<lparr>wd_loaded := remove1 p (wd_loaded w), wd_writing := True,
      wd_session := (wd_session w)\<lparr>ss_lastSent := Some p, ss_out := ss_out (wd_session w) @ [delta_msg (Delta (Some tip) (Some p))]\<rparr>,
      wd_met := meets Ack_overtaken (\<exists>v st. wd_reader w = Tip_read v st) (wd_met w)\<rparr>)" (is "good _ _ _ _ ?w")
  using assms(1)
proof (rule goodE)
  assume g: "knows H h" "recorded H base tip w" "session_ok tip w" "up_to_date tip w" "chain H (Recovery_overtaken \<notin> wd_met w) base (queue w) tip"
    "stands h base w" "unraced w \<Longrightarrow> truthful h tip w"
  have q: "queue ?w = queue w @ [delta_msg (Delta (Some tip) (Some p))]" using assms(4) by (auto simp: queue_def split: open_phase.split)
  have p: "p \<in> H" using g(2) assms(2) by (auto simp: recorded_def)
  have "Recovery_overtaken \<notin> wd_met ?w \<longleftrightarrow> Recovery_overtaken \<notin> wd_met w" by (simp add: meets_def)
  then have "chain H (Recovery_overtaken \<notin> wd_met ?w) base (queue ?w) p" unfolding q using chain_snoc [OF g(5) p] assms(3) by auto
  moreover have "stands h base ?w" using g(6) q by (cases base; cases "wd_reader w") (auto simp: stands_def behind_def)
  moreover have "truthful h p ?w" if u: "unraced ?w"
  proof -
    have t: "truthful h tip w" by (rule g(7)) (rule unraced_meets [OF u], simp)
    have "\<forall>v st. wd_reader w \<noteq> Tip_read v st" using u by (auto simp: unraced_def meets_def split: if_split_asm)
    then show ?thesis using t assms(3) unfolding truthful_def by fastforce
  qed
  moreover have "up_to_date p ?w"
  proof (cases "p = wd_policy w")
    case False
    have "tip \<noteq> wd_policy w" using g(2) assms(3) p by (auto simp: recorded_def)
    then show ?thesis using g(4) False by (auto simp: up_to_date_def meets_def)
  qed (simp add: up_to_date_def)
  moreover have "recorded H base p ?w" using g(2) p set_remove1_subset [of p "wd_loaded w"] by (auto simp: recorded_def)
  moreover have "session_ok p ?w" using g(3) assms(3,4) by (auto simp: session_ok_def)
  ultimately show ?thesis using g(1) by (intro goodI)
qed

lemma good_push_written:
  assumes "good H base tip h w" and "wd_writing w"
  shows "good H base tip h (w\<lparr>wd_writing := False, wd_session := write_pending ok now (wd_session w), wd_met := meets Status_unwritten (\<not> ok) (wd_met w)\<rparr>)"
    (is "good _ _ _ _ ?w")
  using assms(1)
proof (rule goodE)
  assume g: "knows H h" "recorded H base tip w" "session_ok tip w" "up_to_date tip w" "chain H (Recovery_overtaken \<notin> wd_met w) base (queue w) tip"
    "stands h base w" "unraced w \<Longrightarrow> truthful h tip w"
  have q: "queue ?w = queue w" by (simp add: queue_def)
  have b: "ss_recovery (wd_session w) < version b" if "base = Some b" "queue w = []" for b using g(3,5) assms(2) that by (simp add: session_ok_def)
  have "stands h base ?w" using g(6) q b by (cases base; cases "wd_reader w") (auto simp: stands_def behind_def not_le [symmetric])
  moreover have "truthful h tip ?w" if u: "unraced ?w"
  proof -
    have ok: ok using u by (cases ok) (auto simp: unraced_def meets_def)
    have "unraced w" by (rule unraced_meets [OF u]) simp
    then show ?thesis by (rule truthful_cong [OF g(7) q]) (use ok in simp_all)
  qed
  ultimately show ?thesis using g(1-5) q
    by (intro goodI) (auto simp: recorded_def session_ok_def up_to_date_def meets_def)
qed

text \<open>The agent takes a message: it reaches the message's target, or stays where it was and says so.\<close>

lemma good_taken:
  assumes "good H base tip h w" and "ss_out (wd_session w) = PolicyUpdate_Msg (Some u) # rest" and "ack_version a = update_version u"
    and "ack_status a = ACK_STATUS_APPLIED \<and> (\<exists>nxt. update_next h u = Inr nxt \<and> h' = Canonical (Some nxt)) \<or> ack_status a = ACK_STATUS_FAILED \<and> h' = h"
  shows "\<exists>t. good H (Some t) tip h' (w\<lparr>wd_session := (wd_session w)\<lparr>ss_out := rest\<rparr>, wd_store := s', wd_acks := wd_acks w @ [a]\<rparr>)"
  using assms(1)
proof (rule goodE)
  let ?w = "w\<lparr>wd_session := (wd_session w)\<lparr>ss_out := rest\<rparr>, wd_store := s', wd_acks := wd_acks w @ [a]\<rparr>"
  let ?m = "PolicyUpdate_Msg (Some u)"
  assume g: "knows H h" "recorded H base tip w" "session_ok tip w" "up_to_date tip w" "chain H (Recovery_overtaken \<notin> wd_met w) base (queue w) tip"
    "stands h base w" "unraced w \<Longrightarrow> truthful h tip w"
  have q: "queue w = ?m # queue ?w" using assms(2) by (simp add: queue_def)
  have op: "\<forall>p. wd_opening w \<noteq> Tip_set p" using g(3) assms(2) by (auto simp: session_ok_def)
  obtain t where t: "t \<in> H" "chain H (Recovery_overtaken \<notin> wd_met w) (Some t) (queue ?w) tip" "update_version u = version t"
    "\<And>nxt. update_next h u = Inr nxt \<Longrightarrow> nxt = Canonical (Some t)" "\<And>p. ?m = snapshot_msg p \<Longrightarrow> t = p"
  proof (rule chain_next [OF _ g(1)])
    show "chain H (Recovery_overtaken \<notin> wd_met w) base (?m # queue ?w) tip" using g(5) q by simp
    show "b \<in> H" if "base = Some b" for b using g(2) that by (simp add: recorded_def)
  qed blast
  have h': "ack_status a = ACK_STATUS_APPLIED \<and> h' = Canonical (Some t) \<or> ack_status a = ACK_STATUS_FAILED \<and> h' = h" using assms(4) t(4) by auto
  have rd: "wd_opening w \<noteq> Stream_open \<Longrightarrow> wd_reader w = Reading" using g(6) by (cases base) (auto simp: stands_def)
  have "stands h' (Some t) ?w" using h' rd assms(3) t(3) by (auto simp: stands_def behind_def)
  moreover have "knows H h'" using g(1) h' t(1) by (auto simp: knows_def)
  moreover have "truthful h' tip ?w" if u: "unraced ?w"
  proof -
    have tr: "truthful h tip w" using g(7) u by (simp add: unraced_def)
    have fwd: "Recovery_overtaken \<notin> wd_met w" using u by (simp add: unraced_def)
    have c: "chain H True (Some t) (queue ?w) tip" using t(2) fwd by simp
    have stay: "at_tip h' tip ?w" if "at_tip h tip w \<or> h' = Canonical (Some t) \<and> version t = version tip"
      using that
    proof
      assume at': "at_tip h tip w"
      then have "t = tip" "\<forall>m\<in>set (queue ?w). m = snapshot_msg tip" using q t(5) by (auto simp: at_tip_def)
      then show ?thesis using at' h' by (auto simp: at_tip_def)
    next
      assume "h' = Canonical (Some t) \<and> version t = version tip"
      then show ?thesis using chain_at_tip [OF c] by (auto simp: at_tip_def)
    qed
    have "version t \<le> version tip" by (rule chain_mono [OF c])
    then show ?thesis using tr stay h' assms(3) t(3) unfolding truthful_def by auto
  qed
  ultimately show ?thesis using g(2-4) t(1,2) op
    by (intro exI [of _ t] goodI) (auto simp: recorded_def session_ok_def up_to_date_def)
qed

text \<open>The control plane takes an acknowledgement.\<close>

lemma good_ack_read:
  assumes "good H base tip h w" and "wd_opening w = Stream_open" and "wd_reader w = Reading" and "wd_acks w = a # rest" and "ack_status a = ACK_STATUS_APPLIED"
  shows "good H base tip h (w\<lparr>wd_acks := rest, wd_reader := Tip_read (ack_version a) (applied_state (ack_version a) (wd_session w))\<rparr>)" (is "good _ _ _ _ ?w")
  using assms(1)
proof (rule goodE)
  assume g: "knows H h" "recorded H base tip w" "session_ok tip w" "up_to_date tip w" "chain H (Recovery_overtaken \<notin> wd_met w) base (queue w) tip"
    "stands h base w" "unraced w \<Longrightarrow> truthful h tip w"
  have q: "queue ?w = queue w" by (simp add: queue_def)
  have "stands h base ?w" using g(6) assms(2-5) by (cases base) (auto simp: stands_def behind_def)
  moreover have "truthful h tip ?w" if u: "unraced ?w"
  proof -
    have tr: "truthful h tip w" using g(7) u by (simp add: unraced_def)
    have at': "at_tip h tip ?w = at_tip h tip w" unfolding at_tip_def q ..
    have "at_tip h tip w" if "applied_state (ack_version a) (wd_session w) = SYNC_STATE_SYNCED"
    proof -
      have "version tip \<le> ack_version a" using that g(3) by (auto simp: applied_state_def session_ok_def split: if_split_asm)
      moreover have "ack_version a \<le> version tip" using tr assms(4) by (simp add: truthful_def)
      ultimately show ?thesis using tr assms(4,5) by (auto simp: truthful_def intro: antisym)
    qed
    then show ?thesis using tr assms(4) unfolding truthful_def at' by auto
  qed
  ultimately show ?thesis using g(1-5) q by (intro goodI) (auto simp: recorded_def session_ok_def up_to_date_def failing_def)
qed

lemma good_ack_written:
  assumes "good H base tip h w" and "wd_reader w = Tip_read v st" and "write_applied True v st now (wd_session w) = (None, sess)"
  shows "good H base tip h (w\<lparr>wd_reader := Reading, wd_session := sess\<rparr>)" (is "good _ _ _ _ ?w")
  using assms(1)
proof (rule goodE)
  assume g: "knows H h" "recorded H base tip w" "session_ok tip w" "up_to_date tip w" "chain H (Recovery_overtaken \<notin> wd_met w) base (queue w) tip"
    "stands h base w" "unraced w \<Longrightarrow> truthful h tip w"
  have s: "ss_lastSent sess = ss_lastSent (wd_session w)" "ss_recovery sess = ss_recovery (wd_session w)" "ss_out sess = ss_out (wd_session w)"
    "w_sync_state (ss_row sess) = st"
    using assms(3) by (auto simp: write_applied_def RecordApplied_def unless_retired_def split: option.split_asm)
  have q: "queue ?w = queue w" by (simp add: queue_def s)
  have op: "wd_opening w = Stream_open" using g(6) assms(2) by (cases base) (auto simp: stands_def)
  have "stands h base ?w" using g(6) assms(2) op by (cases base) (auto simp: stands_def behind_def)
  moreover have "truthful h tip ?w" if "unraced ?w"
  proof -
    have "truthful h tip w" using g(7) that by (simp add: unraced_def)
    then show ?thesis using assms(2) s by (auto simp: truthful_def at_tip_def q)
  qed
  ultimately show ?thesis using g(1-5) q s op by (intro goodI) (auto simp: recorded_def session_ok_def up_to_date_def failing_def)
qed

lemma good_failure_written:
  assumes "good H base tip h w" and "wd_opening w = Stream_open" and "wd_reader w = Reading" and "wd_acks w = a # rest" and "ack_status a = ACK_STATUS_FAILED"
    and "write_failed True (ack_error_detail a) now (wd_session w) = (None, sess)"
  shows "good H base tip h (w\<lparr>wd_acks := rest, wd_reader := Failure_written (ack_version a), wd_session := sess\<rparr>)" (is "good _ _ _ _ ?w")
  using assms(1)
proof (rule goodE)
  assume g: "knows H h" "recorded H base tip w" "session_ok tip w" "up_to_date tip w" "chain H (Recovery_overtaken \<notin> wd_met w) base (queue w) tip"
    "stands h base w" "unraced w \<Longrightarrow> truthful h tip w"
  have s: "ss_lastSent sess = ss_lastSent (wd_session w)" "ss_recovery sess = ss_recovery (wd_session w)" "ss_out sess = ss_out (wd_session w)"
    "w_sync_state (ss_row sess) = SYNC_STATE_DEGRADED"
    using assms(6) by (auto simp: write_failed_def RecordApplyFailed_def unless_retired_def split: option.split_asm)
  have q: "queue ?w = queue w" by (simp add: queue_def s)
  have "stands h base ?w" using g(6) assms(2-5) s by (cases base) (auto simp: stands_def behind_def)
  moreover have "truthful h tip ?w" if "unraced ?w"
  proof -
    have "truthful h tip w" using g(7) that by (simp add: unraced_def)
    then show ?thesis using assms(4) s by (auto simp: truthful_def at_tip_def q)
  qed
  ultimately show ?thesis using g(1-5) q s assms(2) by (intro goodI) (auto simp: recorded_def session_ok_def up_to_date_def failing_def)
qed

lemma good_failure_compared:
  assumes "good H base tip h w" and "wd_reader w = Failure_written v"
  shows "good H base tip h (w\<lparr>wd_reader := (if stale_failure v (wd_session w) then Reading else Recovery_due)\<rparr>)" (is "good _ _ _ _ ?w")
  using assms(1)
proof (rule goodE)
  assume g: "knows H h" "recorded H base tip w" "session_ok tip w" "up_to_date tip w" "chain H (Recovery_overtaken \<notin> wd_met w) base (queue w) tip"
    "stands h base w" "unraced w \<Longrightarrow> truthful h tip w"
  have q: "queue ?w = queue w" by (simp add: queue_def)
  have op: "wd_opening w = Stream_open" using g(6) assms(2) by (cases base) (auto simp: stands_def)
  have "stands h base ?w" using g(6) assms(2) op q by (cases base) (auto simp: stands_def behind_def stale_failure_def not_le [symmetric])
  moreover have "truthful h tip ?w" if "unraced ?w"
  proof -
    have "truthful h tip w" using g(7) that by (simp add: unraced_def)
    then show ?thesis by (auto simp: truthful_def at_tip_def q)
  qed
  ultimately show ?thesis using g(1-5) q op assms(2) by (intro goodI) (auto simp: recorded_def session_ok_def up_to_date_def failing_def)
qed

lemma good_recovery_loaded:
  assumes "good H base tip h w" and "wd_reader w = Recovery_due"
  shows "good H base tip h (w\<lparr>wd_reader := Recovery_loaded (wd_policy w)\<rparr>)" (is "good _ _ _ _ ?w")
  using assms(1)
proof (rule goodE)
  assume g: "knows H h" "recorded H base tip w" "session_ok tip w" "up_to_date tip w" "chain H (Recovery_overtaken \<notin> wd_met w) base (queue w) tip"
    "stands h base w" "unraced w \<Longrightarrow> truthful h tip w"
  have q: "queue ?w = queue w" by (simp add: queue_def)
  have "stands h base ?w" using g(6) assms(2) by (cases base) (auto simp: stands_def behind_def)
  moreover have "truthful h tip ?w" if "unraced ?w"
  proof -
    have "truthful h tip w" using g(7) that by (simp add: unraced_def)
    then show ?thesis by (auto simp: truthful_def at_tip_def q)
  qed
  ultimately show ?thesis using g(1-5) q assms(2) by (intro goodI) (auto simp: recorded_def session_ok_def up_to_date_def failing_def)
qed

lemma good_recovered:
  assumes "good H base tip h w" and "wd_reader w = Recovery_loaded p" and "\<not> wd_writing w"
    and "sendRecoverySnapshot (Inr p :: (unit option, WorkloadPolicy) result) (wd_session w) = (None, sess)"
  shows "good H base p h (w\<lparr>wd_reader := Reading, wd_session := sess, wd_met := meets Recovery_overtaken (version p < GetVersion (ss_lastSent (wd_session w))) (wd_met w)\<rparr>)"
    (is "good _ _ _ _ ?w")
  using assms(1)
proof (rule goodE)
  assume g: "knows H h" "recorded H base tip w" "session_ok tip w" "up_to_date tip w" "chain H (Recovery_overtaken \<notin> wd_met w) base (queue w) tip"
    "stands h base w" "unraced w \<Longrightarrow> truthful h tip w"
  have s: "sess = (wd_session w)\<lparr>ss_lastSent := Some p, ss_recovery := version p, ss_out := ss_out (wd_session w) @ [snapshot_msg p]\<rparr>"
    using assms(4) by (simp add: sendRecoverySnapshot_def)
  have op: "wd_opening w = Stream_open" using g(6) assms(2) by (cases base) (auto simp: stands_def)
  have tip: "GetVersion (ss_lastSent (wd_session w)) = version tip" "ss_lastSent (wd_session w) = Some tip" using g(3) by (simp_all add: session_ok_def)
  have q: "queue ?w = queue w @ [snapshot_msg p]" by (simp add: queue_def s op)
  have p: "p \<in> H" "tip \<in> H" using g(2) assms(2) by (simp_all add: recorded_def)
  have order: "version tip < version p \<or> tip = p" if "\<not> version p < version tip"
    using that g(1) p by (auto simp: knows_def inj_on_def not_less order_le_less)
  have "chain H (Recovery_overtaken \<notin> wd_met ?w) base (queue ?w) p"
  proof -
    have "chain H (Recovery_overtaken \<notin> wd_met ?w) base (queue w) tip" using chain_weaken [OF g(5), of H] by (simp add: meets_def)
    then show ?thesis unfolding q using chain_snoc [OF _ p(1)] order tip by (auto simp: meets_def)
  qed
  moreover have "stands h base ?w" using g(6) assms(2) q op by (cases base) (auto simp: stands_def behind_def)
  moreover have "truthful h p ?w" if u: "unraced ?w"
  proof -
    have "unraced w" by (rule unraced_meets [OF u]) simp
    then have tr: "truthful h tip w" by (rule g(7))
    have "version tip < version p \<or> tip = p" using u order tip by (auto simp: unraced_def meets_def split: if_split_asm)
    then show ?thesis
    proof
      assume "version tip < version p"
      moreover have "row_state ?w \<noteq> SYNC_STATE_SYNCED" using g(3) assms(2) s by (simp add: session_ok_def failing_def)
      ultimately show ?thesis using tr unfolding truthful_def by fastforce
    next
      assume "tip = p"
      moreover have "row_state ?w \<noteq> SYNC_STATE_SYNCED" using g(3) assms(2) s by (simp add: session_ok_def failing_def)
      ultimately show ?thesis using tr q unfolding truthful_def at_tip_def by auto
    qed
  qed
  moreover have "up_to_date p ?w"
  proof (cases "version p < version tip")
    case True
    then show ?thesis using tip by (simp add: up_to_date_def meets_def)
  next
    case False
    have "p = wd_policy w" if "tip = wd_policy w" using order [OF False] g(2) p(1) that by (fastforce simp: recorded_def)
    then show ?thesis using g(4) by (auto simp: up_to_date_def meets_def)
  qed
  moreover have "recorded H base p ?w" using g(2) p by (auto simp: recorded_def)
  moreover have "session_ok p ?w" using g(3) assms(2,3) s op by (auto simp: session_ok_def failing_def)
  ultimately show ?thesis using g(1) by (intro goodI)
qed

section \<open>Reachable streams\<close>

lemma world_inv_good: "good H base tip (held cur (wd_store w)) w \<Longrightarrow> world_inv cur w"
  by (auto simp: world_inv_def)

context policy_store
begin

lemma world_inv_step:
  assumes step: "sync_step apply_policy current text_of w w'" and inv: "world_inv current w"
  shows "world_inv current w'"
proof (cases "Opening_overtaken \<in> wd_met w")
  case True
  from step have "wd_met w \<subseteq> wd_met w'" by cases (auto simp: meets_def)
  then show ?thesis using True by (auto simp: world_inv_def)
next
  case False
  then obtain H base tip where g: "good H base tip (held current (wd_store w)) w" using inv by (auto simp: world_inv_def)
  from step show ?thesis
  proof cases
    case (rendered p)
    show ?thesis by (rule world_inv_good) (use good_rendered [OF g rendered(2)] rendered(1) in simp)
  next
    case (opening_queued p)
    show ?thesis by (rule world_inv_good) (use good_opening_queued [OF g opening_queued(2)] opening_queued(1) in simp)
  next
    case (opening_written ok now)
    show ?thesis by (rule world_inv_good) (use good_opening_written [OF g opening_written(2)] opening_written(1) in simp)
  next
    case push_failed
    show ?thesis by (rule world_inv_good) (use good_push_failed [OF g] push_failed in simp)
  next
    case push_loaded
    show ?thesis by (rule world_inv_good) (use good_push_loaded [OF g] push_loaded in simp)
  next
    case (pushed p queued sess)
    have tip: "ss_lastSent (wd_session w) = Some tip" using g by (simp add: good_def session_ok_def)
    show ?thesis
    proof (cases "version p \<le> version tip")
      case True
      then have "queued = False" "sess = wd_session w" using pushed(4) tip by (simp_all add: push_queue_def)
      then have "w' = w\<lparr>wd_loaded := remove1 p (wd_loaded w)\<rparr>" using pushed(1,3) by (simp add: meets_def)
      then show ?thesis using good_push_idle [OF g pushed(2) True] by (intro world_inv_good) simp
    next
      case False
      then have q: "queued" "sess = (wd_session w)\<lparr>ss_lastSent := Some p, ss_out := ss_out (wd_session w) @ [delta_msg (Delta (Some tip) (Some p))]\<rparr>"
        using pushed(4) tip by (auto simp: push_queue_def Let_def)
      show ?thesis
      proof (cases "\<exists>r. wd_opening w = Tip_set r")
        case True
        then show ?thesis using pushed(1) q(1) by (simp add: world_inv_def meets_def)
      next
        case no: False
        then have "w' = w\<lparr>wd_loaded := remove1 p (wd_loaded w), wd_writing := True, wd_session := sess,
            wd_met := meets Ack_overtaken (\<exists>v st. wd_reader w = Tip_read v st) (wd_met w)\<rparr>" using pushed(1) q(1) by (simp add: meets_def)
        then show ?thesis using good_push_queued [OF g pushed(2)] False no q(2) by (intro world_inv_good) (auto simp: not_le)
      qed
    qed
  next
    case (push_written ok now)
    show ?thesis by (rule world_inv_good) (use good_push_written [OF g push_written(2)] push_written(1) in simp)
  next
    case (applied u rest env a s')
    note truth = ack_is_true [OF applied(3), folded held_def]
    have "\<exists>t. good H (Some t) tip (held current s') w'"
      unfolding applied(1)
    proof (rule good_taken [OF g applied(2)])
      show "ack_version a = update_version u" using truth by simp
      show "ack_status a = ACK_STATUS_APPLIED \<and> (\<exists>nxt. update_next (held current (wd_store w)) u = Inr nxt \<and> held current s' = Canonical (Some nxt)) \<or>
          ack_status a = ACK_STATUS_FAILED \<and> held current s' = held current (wd_store w)"
        using truth by (cases "ack_status a = ACK_STATUS_APPLIED") (auto simp: held_def)
    qed
    then obtain t where t: "good H (Some t) tip (held current s') w'" by blast
    have "wd_store w' = s'" using applied(1) by simp
    then show ?thesis using t by (intro world_inv_good [of H "Some t" tip]) simp
  next
    case (ack_read a rest)
    show ?thesis by (rule world_inv_good) (use good_ack_read [OF g ack_read(2-5)] ack_read(1) in simp)
  next
    case (ack_written v st now sess)
    show ?thesis by (rule world_inv_good) (use good_ack_written [OF g ack_written(2,3)] ack_written(1) in simp)
  next
    case (failure_written a rest now sess)
    show ?thesis by (rule world_inv_good) (use good_failure_written [OF g failure_written(2-6)] failure_written(1) in simp)
  next
    case (failure_compared v)
    show ?thesis by (rule world_inv_good) (use good_failure_compared [OF g failure_compared(2)] failure_compared(1) in simp)
  next
    case recovery_loaded
    show ?thesis by (rule world_inv_good) (use good_recovery_loaded [OF g recovery_loaded(2)] recovery_loaded(1) in simp)
  next
    case (recovered p sess)
    show ?thesis by (rule world_inv_good) (use good_recovered [OF g recovered(2-4)] recovered(1) in simp)
  qed
qed

lemma world_inv_reachable:
  assumes "opened current w0" and "(sync_step apply_policy current text_of)\<^sup>*\<^sup>* w0 w"
  shows "world_inv current w"
  using assms(2)
proof (induction rule: rtranclp_induct)
  case base
  show ?case using good_opened [OF assms(1)] by (simp add: world_inv_def)
next
  case (step y z)
  then show ?case using world_inv_step by blast
qed

text \<open>What a row that says synced is worth.\<close>

lemma synced_is_true:
  assumes "world_inv current w" and "Opening_overtaken \<notin> wd_met w" and "wd_opening w = Stream_open" and "row_state w = SYNC_STATE_SYNCED"
  shows "\<exists>tip. ss_lastSent (wd_session w) = Some tip \<and>
    (ss_out (wd_session w) = [] \<and> wd_acks w = [] \<longrightarrow> held current (wd_store w) = Canonical (Some tip)) \<and>
    (unraced w \<and> \<not> wd_writing w \<longrightarrow> held current (wd_store w) = Canonical (Some tip) \<and> (\<forall>m\<in>set (ss_out (wd_session w)). m = snapshot_msg tip)) \<and>
    (tip = wd_policy w \<or> wd_announced w \<or> wd_policy w \<in> set (wd_loaded w) \<or> Announcement_lost \<in> wd_met w \<or> Recovery_overtaken \<in> wd_met w)"
proof -
  let ?h = "held current (wd_store w)"
  obtain H base tip where g: "good H base tip ?h w" using assms(1,2) by (auto simp: world_inv_def)
  have q: "queue w = ss_out (wd_session w)" using assms(3) by (simp add: queue_def)
  have "?h = Canonical (Some tip)" if "ss_out (wd_session w) = []" "wd_acks w = []"
  proof -
    have b: "base = Some tip" "stands ?h base w" "failing (wd_reader w) \<longrightarrow> row_state w \<noteq> SYNC_STATE_SYNCED" using g q that by (auto simp: good_def session_ok_def)
    then show ?thesis using that q assms(4) by (cases "wd_reader w") (auto simp: stands_def behind_def failing_def)
  qed
  moreover have "at_tip ?h tip w" if "unraced w" "\<not> wd_writing w" using g that assms(3,4) by (simp add: good_def truthful_def)
  ultimately show ?thesis using g q by (intro exI [of _ tip]) (auto simp: good_def session_ok_def up_to_date_def at_tip_def)
qed

text \<open>With nothing in flight the agent holds the tip, or the row says that the recovery of that version was refused.\<close>

lemma quiet_converged:
  assumes "world_inv current w" and "Opening_overtaken \<notin> wd_met w" and "wd_opening w = Stream_open"
    and "ss_out (wd_session w) = []" and "wd_acks w = []" and "wd_reader w = Reading"
  shows "\<exists>tip. ss_lastSent (wd_session w) = Some tip \<and>
    (held current (wd_store w) = Canonical (Some tip) \<or> row_state w = SYNC_STATE_DEGRADED \<and> ss_recovery (wd_session w) = version tip) \<and>
    (tip = wd_policy w \<or> wd_announced w \<or> wd_policy w \<in> set (wd_loaded w) \<or> Announcement_lost \<in> wd_met w \<or> Recovery_overtaken \<in> wd_met w)"
proof -
  let ?h = "held current (wd_store w)"
  obtain H base tip where g: "good H base tip ?h w" using assms(1,2) by (auto simp: world_inv_def)
  have q: "queue w = []" using assms(3,4) by (simp add: queue_def)
  have "base = Some tip" "stands ?h base w" "ss_recovery (wd_session w) \<le> version tip" using g q by (auto simp: good_def session_ok_def)
  then have "?h = Canonical (Some tip) \<or> row_state w = SYNC_STATE_DEGRADED \<and> ss_recovery (wd_session w) = version tip"
    using q assms(5,6) by (auto simp: stands_def behind_def intro: antisym)
  then show ?thesis using g by (intro exI [of _ tip]) (auto simp: good_def session_ok_def up_to_date_def)
qed

end

section \<open>The streams of one replica\<close>

text \<open>
  Registering, leaving, writing the offline mark and releasing the workload, in any order the
  registry allows. \<open>off\<close> is the set of workloads whose row an offline mark was the last to write;
  a stream that registers writes its own state after that.
\<close>

inductive stream_step :: "sessions \<times> uuid set \<Rightarrow> sessions \<times> uuid set \<Rightarrow> bool" where
  registered: "sessions_add k n r = Some r' \<Longrightarrow> stream_step (r, off) (r', off - {k})"
| left: "sessions_remove k n r = (True, r') \<Longrightarrow> stream_step (r, off) (r', off)"
| mark_written: "map_of (sn_marking r) k = Some n \<Longrightarrow> stream_step (r, off) (r, insert k off)"
| released: "map_of (sn_marking r) k = Some n \<Longrightarrow> stream_step (r, off) (sessions_marked k r, off)"

definition streams_ok :: "sessions \<times> uuid set \<Rightarrow> bool" where
  "streams_ok x = (\<forall>k. map_of (sn_live (fst x)) k \<noteq> None \<longrightarrow> map_of (sn_marking (fst x)) k = None \<and> k \<notin> snd x)"

lemma stream_step_ok: "stream_step x y \<Longrightarrow> streams_ok x \<Longrightarrow> streams_ok y"
  by (induction rule: stream_step.induct)
     (auto simp: streams_ok_def sessions_add_def sessions_remove_def sessions_marked_def split: option.split_asm if_split_asm)

lemma streams_reachable_ok: "stream_step\<^sup>*\<^sup>* (newSessions, {}) x \<Longrightarrow> streams_ok x"
proof (induction rule: rtranclp_induct)
  case base
  show ?case by (simp add: streams_ok_def newSessions_def)
next
  case (step y z)
  then show ?case using stream_step_ok by blast
qed

section \<open>Properties\<close>

definition demo_world :: "(Store \<times> Host) world" where
  "demo_world = \<lparr>wd_policy = one_rule, wd_announced = False, wd_loaded = [], wd_writing = False, wd_opening = Tip_set one_rule, wd_reader = Reading,
     wd_session = \<lparr>ss_lastSent = Some one_rule, ss_recovery = 0, ss_row = demo_workload, ss_services = [], ss_out = []\<rparr>, wd_acks = [], wd_store = store_init, wd_met = {}\<rparr>"

definition demo_opened_world :: "(Store \<times> Host) world" where
  "demo_opened_world = demo_world\<lparr>wd_opening := Stream_open, wd_session := write_pending True 4 (open_queue one_rule (wd_session demo_world))\<rparr>"

definition demo_applied :: "(Store \<times> Host) world" where
  "demo_applied = demo_opened_world\<lparr>wd_session := (wd_session demo_opened_world)\<lparr>ss_out := []\<rparr>,
     wd_store := (demo_store ApplyFull, demo_host (Some (one_rule, [(''r/tcp'', 1)]))), wd_acks := [applied_ack 1]\<rparr>"

definition demo_synced :: "(Store \<times> Host) world" where
  "demo_synced = demo_applied\<lparr>wd_acks := [], wd_session := snd (write_applied True 1 SYNC_STATE_SYNCED 5 (wd_session demo_applied))\<rparr>"

abbreviation nft_apply where "nft_apply \<equiv> (\<lambda>(cd, opts, env). Store_Apply cd opts env)"
abbreviation nft_current where "nft_current \<equiv> (\<lambda>sh :: Store \<times> Host. st_current (fst sh))"

lemma demo_opened: "opened nft_current demo_world"
  by (simp add: opened_def demo_world_def held_def store_init_def Store_New_def Empty_def one_rule_def)

lemma demo_run: "(sync_step nft_apply nft_current (\<lambda>_. []))\<^sup>*\<^sup>* demo_world demo_synced"
proof -
  let ?step = "sync_step nft_apply nft_current (\<lambda>_. [])"
  let ?w1 = "demo_world\<lparr>wd_opening := Snapshot_queued, wd_session := open_queue one_rule (wd_session demo_world)\<rparr>"
  have 1: "?step demo_world ?w1" by (rule sync_step.opening_queued) (simp add: demo_world_def)
  have 2: "?step ?w1 demo_opened_world"
    using sync_step.opening_written [of ?w1 nft_apply nft_current "\<lambda>_. []" True 4] by (simp add: demo_opened_world_def demo_world_def meets_def)
  have 3: "?step demo_opened_world demo_applied"
    unfolding demo_applied_def
    using sync_step.applied [of demo_opened_world "Snapshot (Some one_rule)" "[]" nft_apply nft_current "\<lambda>_. []" "(demo_codecs, demo_options, demo_env True)"
        "applied_ack 1" "(demo_store ApplyFull, demo_host (Some (one_rule, [(''r/tcp'', 1)])))"] demo_update [of "\<lambda>_. []"]
    by (simp add: demo_opened_world_def demo_world_def snapshot_msg_def open_queue_def)
  let ?w4 = "demo_applied\<lparr>wd_acks := [], wd_reader := Tip_read 1 SYNC_STATE_SYNCED\<rparr>"
  have 4: "?step demo_applied ?w4"
    using sync_step.ack_read [of demo_applied "applied_ack 1" "[]" nft_apply nft_current "\<lambda>_. []"]
    by (simp add: demo_applied_def demo_opened_world_def demo_world_def applied_ack_def applied_state_def one_rule_def open_queue_def)
  have 5: "?step ?w4 demo_synced"
    using sync_step.ack_written [of ?w4 1 SYNC_STATE_SYNCED 5 "wd_session demo_synced" nft_apply nft_current "\<lambda>_. []"]
    by (simp add: demo_synced_def demo_applied_def demo_opened_world_def demo_world_def write_applied_def RecordApplied_def unless_retired_def write_pending_def open_queue_def
        SetSyncState_def demo_workload_def)
  show ?thesis using 1 2 3 4 5 by (meson r_into_rtranclp rtranclp_trans)
qed

lemma demo_synced_facts:
  "row_state demo_synced = SYNC_STATE_SYNCED" "wd_opening demo_synced = Stream_open" "wd_reader demo_synced = Reading" "wd_met demo_synced = {}" "wd_acks demo_synced = []"
  "ss_out (wd_session demo_synced) = []" "wd_policy demo_synced = one_rule" "\<not> wd_announced demo_synced" "wd_loaded demo_synced = []" "\<not> wd_writing demo_synced"
  by (simp_all add: demo_synced_def demo_applied_def demo_opened_world_def demo_world_def write_applied_def RecordApplied_def unless_retired_def write_pending_def open_queue_def
        SetSyncState_def demo_workload_def)





text \<open>An offline mark never lands on a live workload: whatever order streams register, leave,
  write their mark and release their workload in, no workload with a live stream is held for a
  mark or has a mark as the last write to its row.\<close>

lemma offline_mark_spares_live_streams:
  assumes "stream_step\<^sup>*\<^sup>* (newSessions, {}) (r, off)" and "sessions_get k r = Some n"
  shows "map_of (sn_marking r) k = None \<and> k \<notin> off"
  using streams_reachable_ok [OF assms(1)] assms(2) by (simp add: streams_ok_def sessions_get_def)

text \<open>\<^bold>\<open>C0\<close>: what the two overtakings lead to. A recovery whose policy was loaded before a push and sent after it takes the tip back: once the agent has applied what is
  queued it holds the older policy, and its acknowledgement makes the row say synced. A push between the first tip and the first snapshot queues its delta first: an
  agent that held the snapshot's policy applies the delta and then goes back to the snapshot, and its acknowledgement leaves the row pending with nothing in flight.\<close>

theorem overtaken_streams_stay_behind:
  assumes "ss_lastSent s = Some tip" and "version tip < version new" and "version old < version new" and "w_retired_at (ss_row s) = None"
  shows "(\<exists>s1 s2. sendRecoverySnapshot (Inr old :: (unit option, WorkloadPolicy) result) (pushLatest (Inr (Some new) :: (unit, WorkloadPolicy option) result) True True now s) = (None, s1) \<and>
      ss_out s1 = ss_out s @ [delta_msg (Delta (Some tip) (Some new)), snapshot_msg old] \<and>
      (\<forall>h. update_next h (Snapshot (Some old)) = Inr (Canonical (Some old))) \<and>
      handleAck True (Inr new :: (unit option, WorkloadPolicy) result) now (applied_ack (version old)) s1 = (None, s2) \<and>
      w_sync_state (ss_row s2) = SYNC_STATE_SYNCED \<and> ss_lastSent s2 = Some old \<and> ss_out s2 = ss_out s1) \<and>
    (\<exists>s1 s2. open_queue old (pushLatest (Inr (Some new) :: (unit, WorkloadPolicy option) result) True True now (open_tip old s)) = s1 \<and>
      ss_out s1 = ss_out s @ [delta_msg (Delta (Some old) (Some new)), snapshot_msg old] \<and>
      update_next (Canonical (Some old)) (Delta_Update (Delta (Some old) (Some new))) = Inr (Canonical (Some new)) \<and>
      update_next (Canonical (Some new)) (Snapshot (Some old)) = Inr (Canonical (Some old)) \<and>
      handleAck True (Inr new :: (unit option, WorkloadPolicy) result) now (applied_ack (version old)) s1 = (None, s2) \<and>
      w_sync_state (ss_row s2) = SYNC_STATE_PENDING \<and> ss_lastSent s2 = Some new \<and> ss_out s2 = ss_out s1)"
  using assms Apply_Canonical [of "Some old"]
  by (simp add: Apply_Delta_eq pushLatest_def push_queue_def Let_def sendRecoverySnapshot_def open_queue_def open_tip_def handleAck_def write_applied_def applied_state_def
      applied_ack_def RecordApplied_def unless_retired_def write_pending_def SetSyncState_def not_le)

theorem overtaken_streams_stay_behind_witness:
  "ss_out (snd (sendRecoverySnapshot (Inr one_rule :: (unit option, WorkloadPolicy) result)
     (pushLatest (Inr (Some (one_rule\<lparr>version := 2\<rparr>)) :: (unit, WorkloadPolicy option) result) True True 5 (wd_session demo_synced)))) =
   [delta_msg (Delta (Some one_rule) (Some (one_rule\<lparr>version := 2\<rparr>))), snapshot_msg one_rule]"
proof -
  have "ss_lastSent (wd_session demo_synced) = Some one_rule" "w_retired_at (ss_row (wd_session demo_synced)) = None"
    by (simp_all add: demo_synced_def demo_applied_def demo_opened_world_def demo_world_def write_applied_def RecordApplied_def unless_retired_def write_pending_def open_queue_def
        SetSyncState_def demo_workload_def)
  moreover have "version one_rule = 1" by (simp add: one_rule_def)
  ultimately show ?thesis
    using overtaken_streams_stay_behind [of "wd_session demo_synced" one_rule "one_rule\<lparr>version := 2\<rparr>" one_rule 5] demo_synced_facts(6) by auto
qed

text \<open>\<^bold>\<open>C40\<close>: an announcement that arrives while a stream opens can be lost: a push that finds no tip
  does nothing, the snapshot of the older version loaded before is then sent, and its
  acknowledgement makes the row say synced while a newer version is persisted and nothing is in
  flight to bring it.\<close>

theorem announcement_lost_while_opening:
  assumes "ss_lastSent s = None" and "version old < version new" and "w_retired_at (ss_row s) = None"
  shows "pushLatest (Inr (Some new) :: (unit, WorkloadPolicy option) result) True True now s = s \<and>
    (\<exists>s1 s2. open_snapshot (Inr old :: (unit option, WorkloadPolicy) result) True now s = Inr s1 \<and>
      ss_out s1 = ss_out s @ [snapshot_msg old] \<and>
      handleAck True (Inr new :: (unit option, WorkloadPolicy) result) now (applied_ack (version old)) s1 = (None, s2) \<and>
      w_sync_state (ss_row s2) = SYNC_STATE_SYNCED \<and> ss_lastSent s2 = Some old \<and> ss_out s2 = ss_out s1)"
  using assms
  by (simp add: pushLatest_def push_queue_def open_snapshot_def open_tip_def open_queue_def handleAck_def write_applied_def applied_state_def applied_ack_def
    RecordApplied_def unless_retired_def write_pending_def SetSyncState_def)

theorem announcement_lost_while_opening_witness:
  "pushLatest (Inr (Some (one_rule\<lparr>version := 2\<rparr>)) :: (unit, WorkloadPolicy option) result) True True 0
     ((wd_session demo_world)\<lparr>ss_lastSent := None\<rparr>) = (wd_session demo_world)\<lparr>ss_lastSent := None\<rparr>"
  using announcement_lost_while_opening [of "(wd_session demo_world)\<lparr>ss_lastSent := None\<rparr>" one_rule "one_rule\<lparr>version := 2\<rparr>" 0]
  by (simp add: one_rule_def demo_world_def demo_workload_def)

end
