(* ===== verification/Authoring.thy ===== *)
theory Authoring
  imports AuthoredStore
begin

text \<open>
  The mutations of the authored model, \<^verbatim>\<open>internal/policy/service.go\<close>: admission, persistence, rendering.
  What a mutation reads before it writes (the references it is admitted against, the ruleset a rule
  belongs to) are arguments, since another process may write in between; the tables decide on the
  state they find. The results: in every reachable state each stored object is admissible against the
  tables as they stand, a rule edit never overwrites a write it has not seen, a rule's version advances
  exactly when its content does, and a mutation that succeeds is in force in every active workload's
  persisted policy.
\<close>

section \<open>Ids, provenance and canonical addresses\<close>

definition authored_CIDR :: "string \<Rightarrow> string" where
  "authored_CIDR s = (case parse_prefix s of Some p \<Rightarrow> prefix_string (masked p) | None \<Rightarrow> s)"

fun keep_new :: "string list \<Rightarrow> string list \<Rightarrow> string list" where
  "keep_new seen [] = []"
| "keep_new seen (s # ss) = (if authored_CIDR s \<in> set seen then keep_new seen ss
     else authored_CIDR s # keep_new (authored_CIDR s # seen) ss)"

definition authored_CIDRs :: "string list \<Rightarrow> string list" where
  "authored_CIDRs ss = keep_new [] ss"

text \<open>A fresh id is an argument: \<open>fresh i\<close> is the one drawn for the rule at index \<open>i\<close>.\<close>

definition assign_rule :: "uuid \<Rightarrow> Rule \<Rightarrow> Rule" where
  "assign_rule k r = r\<lparr>rl_id := (if rl_id r = uuid_Nil then k else rl_id r),
     rl_peers := map (\<lambda>p. if peer_kind p = PeerCIDR then p\<lparr>peer_cidr := authored_CIDR (peer_cidr p)\<rparr> else p) (rl_peers r)\<rparr>"

definition assignRuleIDs :: "(nat \<Rightarrow> uuid) \<Rightarrow> Ruleset \<Rightarrow> Ruleset" where
  "assignRuleIDs fresh rs = rs\<lparr>rs_rules := map (\<lambda>(i, r). assign_rule (fresh i) r) (enumerate 0 (rs_rules rs))\<rparr>"

definition AssignIDs :: "uuid \<Rightarrow> (nat \<Rightarrow> uuid) \<Rightarrow> Ruleset \<Rightarrow> Ruleset" where
  "AssignIDs k fresh rs = assignRuleIDs fresh (rs\<lparr>rs_id := (if rs_id rs = uuid_Nil then k else rs_id rs)\<rparr>)"

definition peerEqual :: "Peer \<Rightarrow> Peer \<Rightarrow> bool" where
  "peerEqual a b = (peer_kind a = peer_kind b \<and> peer_group_id a = peer_group_id b \<and> peer_cidr a = peer_cidr b \<and>
     length (peer_workloads a) = length (peer_workloads b) \<and>
     list_all (\<lambda>(k, av). av = (case map_of (peer_workloads b) k of Some bv \<Rightarrow> bv | None \<Rightarrow> [])) (peer_workloads a))"

definition entryEqual :: "ServiceEntry \<Rightarrow> ServiceEntry \<Rightarrow> bool" where
  "entryEqual a b = (entry_protocol a = entry_protocol b \<and> entry_ports a = entry_ports b)"

definition RuleEqual :: "Rule \<Rightarrow> Rule \<Rightarrow> bool" where
  "RuleEqual a b = (rl_direction a = rl_direction b \<and> rl_enabled a = rl_enabled b \<and> rl_description a = rl_description b \<and>
     list_all2 peerEqual (rl_peers a) (rl_peers b) \<and> rl_service_ids a = rl_service_ids b \<and> list_all2 entryEqual (rl_entries a) (rl_entries b))"

definition carry_rule :: "Rule list \<Rightarrow> int \<Rightarrow> Rule \<Rightarrow> Rule" where
  "carry_rule prev now r = (case map_of (index_by rl_id (\<lambda>x. x) prev) (rl_id r) of
     None \<Rightarrow> r\<lparr>rl_created_at := now, rl_updated_at := now, rl_version := 1\<rparr>
   | Some old \<Rightarrow>
       (if RuleEqual old r then r\<lparr>rl_created_at := rl_created_at old, rl_updated_at := rl_updated_at old, rl_version := rl_version old\<rparr>
        else r\<lparr>rl_created_at := rl_created_at old, rl_updated_at := now, rl_version := rl_version old + 1\<rparr>))"

definition carryRuleProvenance :: "Ruleset \<Rightarrow> Ruleset \<Rightarrow> int \<Rightarrow> Ruleset" where
  "carryRuleProvenance prev nxt now = nxt\<lparr>rs_rules := map (carry_rule (rs_rules prev) now) (rs_rules nxt)\<rparr>"

section \<open>The mutations\<close>

record estate =
  es_authored :: authored_db
  es_workloads :: "Workload list"
  es_policies :: policies

text \<open>What one mutation meets: the clock, fresh ids, whether its write succeeds, and its render.\<close>

record authoring_env =
  ae_now :: int
  ae_id :: uuid
  ae_rule_ids :: "nat \<Rightarrow> uuid"
  ae_collate :: "string \<Rightarrow> string"
  ae_write_ok :: bool
  ae_renderer :: bool
  ae_load_ok :: bool
  ae_save :: "uuid \<Rightarrow> unit option"

datatype authoring_error = NotAdmitted Findings | StoreRefused authored_error | RenderFailed

definition inputs_of :: "(string \<Rightarrow> string) \<Rightarrow> estate \<Rightarrow> Inputs" where
  "inputs_of ck es = \<lparr>in_workloads = es_workloads es, in_rulesets = ListRulesets ck (es_authored es),
     in_services = ListServices ck (es_authored es), in_groups = ListAddressGroups ck (es_authored es)\<rparr>"

definition authoring_render :: "authoring_env \<Rightarrow> estate \<Rightarrow> bool \<times> estate" where
  "authoring_render env es = (if \<not> ae_renderer env then (True, es)
     else case Engine_Render (if ae_load_ok env then Inr (inputs_of (ae_collate env) es) else Inl ()) (es_policies es) (ae_save env) of
       (Inl _, pol) \<Rightarrow> (False, es\<lparr>es_policies := pol\<rparr>)
     | (Inr _, pol) \<Rightarrow> (True, es\<lparr>es_policies := pol\<rparr>))"

text \<open>After the write: its refusal, or the render of what it left.\<close>

definition then_render :: "authoring_env \<Rightarrow> (authored_error, 'a \<times> authored_db) result \<Rightarrow> estate \<Rightarrow> (authoring_error, 'a) result \<times> estate" where
  "then_render env r es = (case r of
     Inl e \<Rightarrow> (Inl (StoreRefused e), es)
   | Inr (x, db) \<Rightarrow> (case authoring_render env (es\<lparr>es_authored := db\<rparr>) of
       (False, es') \<Rightarrow> (Inl RenderFailed, es') | (True, es') \<Rightarrow> (Inr x, es')))"

definition Authoring_CreateService :: "authoring_env \<Rightarrow> Service \<Rightarrow> estate \<Rightarrow> (authoring_error, Service) result \<times> estate" where
  "Authoring_CreateService env s es = (case ValidateService s of Some f \<Rightarrow> (Inl (NotAdmitted f), es)
     | None \<Rightarrow> let s = s\<lparr>svc_id := (if svc_id s = uuid_Nil then ae_id env else svc_id s), svc_created_at := ae_now env,
           svc_updated_at := ae_now env, svc_version := 1\<rparr>
         in then_render env (bind_result (CreateService (ae_write_ok env) s (es_authored es)) (\<lambda>db. Inr (s, db))) es)"

definition Authoring_UpdateService :: "authoring_env \<Rightarrow> Service \<Rightarrow> string \<Rightarrow> estate \<Rightarrow> (authoring_error, Service) result \<times> estate" where
  "Authoring_UpdateService env s expect es = (case ValidateService s of Some f \<Rightarrow> (Inl (NotAdmitted f), es)
     | None \<Rightarrow> let s = s\<lparr>svc_updated_at := ae_now env\<rparr>
         in then_render env (bind_result (UpdateService (ae_write_ok env) s expect (es_authored es)) (\<lambda>(v, db). Inr (s\<lparr>svc_version := v\<rparr>, db))) es)"

definition Authoring_DeleteService :: "authoring_env \<Rightarrow> uuid \<Rightarrow> string \<Rightarrow> estate \<Rightarrow> (authoring_error, unit) result \<times> estate" where
  "Authoring_DeleteService env k expect es =
     then_render env (bind_result (DeleteService (ae_write_ok env) k expect (es_authored es)) (\<lambda>db. Inr ((), db))) es"

definition Authoring_CreateAddressGroup :: "authoring_env \<Rightarrow> AddressGroup \<Rightarrow> estate \<Rightarrow> (authoring_error, AddressGroup) result \<times> estate" where
  "Authoring_CreateAddressGroup env g es = (case ValidateAddressGroup g of Some f \<Rightarrow> (Inl (NotAdmitted f), es)
     | None \<Rightarrow> let g = g\<lparr>grp_id := (if grp_id g = uuid_Nil then ae_id env else grp_id g), grp_cidrs := authored_CIDRs (grp_cidrs g),
           grp_created_at := ae_now env, grp_updated_at := ae_now env, grp_version := 1\<rparr>
         in then_render env (bind_result (CreateAddressGroup (ae_collate env) (ae_write_ok env) g (es_authored es)) (\<lambda>db. Inr (g, db))) es)"

definition Authoring_UpdateAddressGroup :: "authoring_env \<Rightarrow> AddressGroup \<Rightarrow> string \<Rightarrow> estate \<Rightarrow> (authoring_error, AddressGroup) result \<times> estate" where
  "Authoring_UpdateAddressGroup env g expect es = (case ValidateAddressGroup g of Some f \<Rightarrow> (Inl (NotAdmitted f), es)
     | None \<Rightarrow> let g = g\<lparr>grp_cidrs := authored_CIDRs (grp_cidrs g), grp_updated_at := ae_now env\<rparr>
         in then_render env (bind_result (UpdateAddressGroup (ae_collate env) (ae_write_ok env) g expect (es_authored es))
              (\<lambda>(v, db). Inr (g\<lparr>grp_version := v\<rparr>, db))) es)"

definition Authoring_DeleteAddressGroup :: "authoring_env \<Rightarrow> uuid \<Rightarrow> string \<Rightarrow> estate \<Rightarrow> (authoring_error, unit) result \<times> estate" where
  "Authoring_DeleteAddressGroup env k expect es =
     then_render env (bind_result (DeleteAddressGroup (ae_write_ok env) k expect (es_authored es)) (\<lambda>db. Inr ((), db))) es"

text \<open>The references are those read before the write, \<open>Inl\<close> when they could not be read; so is the
  ruleset an update carries provenance from.\<close>

definition Authoring_CreateRuleset :: "authoring_env \<Rightarrow> (authored_error, References) result \<Rightarrow> Ruleset \<Rightarrow> estate
    \<Rightarrow> (authoring_error, Ruleset) result \<times> estate" where
  "Authoring_CreateRuleset env refs rs es = (case refs of Inl e \<Rightarrow> (Inl (StoreRefused e), es)
     | Inr refs \<Rightarrow> (case ValidateRuleset rs refs of Some f \<Rightarrow> (Inl (NotAdmitted f), es)
       | None \<Rightarrow> let now = ae_now env; rs = AssignIDs (ae_id env) (ae_rule_ids env) rs;
             rs = rs\<lparr>rs_created_at := now, rs_updated_at := now, rs_version := 1,
               rs_rules := map (\<lambda>r. r\<lparr>rl_created_at := now, rl_updated_at := now, rl_version := 1\<rparr>) (rs_rules rs)\<rparr>
           in then_render env (bind_result (CreateRuleset (ae_write_ok env) rs (es_authored es)) (\<lambda>db. Inr (rs, db))) es))"

definition Authoring_UpdateRuleset :: "authoring_env \<Rightarrow> (authored_error, References) result \<Rightarrow> (authored_error, Ruleset) result \<Rightarrow> Ruleset \<Rightarrow> string
    \<Rightarrow> estate \<Rightarrow> (authoring_error, Ruleset) result \<times> estate" where
  "Authoring_UpdateRuleset env refs existing rs expect es = (case refs of Inl e \<Rightarrow> (Inl (StoreRefused e), es)
     | Inr refs \<Rightarrow> (case ValidateRuleset rs refs of Some f \<Rightarrow> (Inl (NotAdmitted f), es)
       | None \<Rightarrow> (case existing of Inl e \<Rightarrow> (Inl (StoreRefused e), es)
         | Inr old \<Rightarrow> let now = ae_now env; rs = carryRuleProvenance old (assignRuleIDs (ae_rule_ids env) rs) now;
               rs = rs\<lparr>rs_created_at := rs_created_at old, rs_updated_at := now\<rparr>
             in then_render env (bind_result (UpdateRuleset (ae_write_ok env) rs expect (es_authored es)) (\<lambda>(v, db). Inr (rs\<lparr>rs_version := v\<rparr>, db))) es)))"

definition Authoring_DeleteRuleset :: "authoring_env \<Rightarrow> uuid \<Rightarrow> string \<Rightarrow> estate \<Rightarrow> (authoring_error, unit) result \<times> estate" where
  "Authoring_DeleteRuleset env k expect es =
     then_render env (bind_result (DeleteRuleset (ae_write_ok env) k expect (es_authored es)) (\<lambda>db. Inr ((), db))) es"

subsection \<open>Single rules\<close>

text \<open>The failure of a ruleset write, restated for a rule; \<open>again\<close> is the ruleset read after it.\<close>

definition ruleWriteError :: "(authored_error, Ruleset) result \<Rightarrow> uuid \<Rightarrow> nat option \<Rightarrow> authoring_error \<Rightarrow> authoring_error" where
  "ruleWriteError again k idx e = (case (e, idx) of
     (NotAdmitted f, Some i) \<Rightarrow> NotAdmitted (Rebase (index_path ''rules'' i) f)
   | (StoreRefused (VersionMismatch _), _) \<Rightarrow> (case again of
       Inl e' \<Rightarrow> StoreRefused e'
     | Inr rs \<Rightarrow> (case find (\<lambda>r. rl_id r = k) (rs_rules rs) of
         Some r \<Rightarrow> StoreRefused (VersionMismatch (FormatVersion (rl_version r)))
       | None \<Rightarrow> StoreRefused ErrRuleUnknown))
   | _ \<Rightarrow> e)"

fun index_of :: "uuid \<Rightarrow> Rule list \<Rightarrow> nat option" where
  "index_of k [] = None"
| "index_of k (r # rs) = (if rl_id r = k then Some 0 else map_option Suc (index_of k rs))"

text \<open>\<open>seen\<close> is the ruleset as read at the start of the call.\<close>

definition rule_write :: "authoring_env \<Rightarrow> (authored_error, References) result \<Rightarrow> (authored_error, Ruleset) result \<Rightarrow> (authored_error, Ruleset) result
    \<Rightarrow> Ruleset \<Rightarrow> Rule list \<Rightarrow> uuid \<Rightarrow> nat option \<Rightarrow> estate \<Rightarrow> (authoring_error, Rule option) result \<times> estate" where
  "rule_write env refs existing again rs rules k idx es =
     (case Authoring_UpdateRuleset env refs existing (rs\<lparr>rs_rules := rules\<rparr>) (FormatVersion (rs_version rs)) es of
        (Inl e, es') \<Rightarrow> (Inl (ruleWriteError again k idx e), es')
      | (Inr rs', es') \<Rightarrow> (Inr (map_option (\<lambda>i. rs_rules rs' ! i) idx), es'))"

definition CreateRule :: "authoring_env \<Rightarrow> (authored_error, References) result \<Rightarrow> (authored_error, Ruleset) result \<Rightarrow> (authored_error, Ruleset) result
    \<Rightarrow> (authored_error, Ruleset) result \<Rightarrow> Rule \<Rightarrow> estate \<Rightarrow> (authoring_error, Rule option) result \<times> estate" where
  "CreateRule env refs existing again seen r es = (case seen of Inl e \<Rightarrow> (Inl (StoreRefused e), es)
     | Inr rs \<Rightarrow> let r = r\<lparr>rl_id := (if rl_id r = uuid_Nil then ae_id env else rl_id r)\<rparr>
         in rule_write env refs existing again rs (rs_rules rs @ [r]) (rl_id r) (Some (length (rs_rules rs))) es)"

definition UpdateRule :: "authoring_env \<Rightarrow> (authored_error, References) result \<Rightarrow> (authored_error, Ruleset) result \<Rightarrow> (authored_error, Ruleset) result
    \<Rightarrow> (authored_error, Ruleset) result \<Rightarrow> Rule \<Rightarrow> string \<Rightarrow> estate \<Rightarrow> (authoring_error, Rule option) result \<times> estate" where
  "UpdateRule env refs existing again seen r expect es = (case seen of Inl e \<Rightarrow> (Inl (StoreRefused e), es)
     | Inr rs \<Rightarrow> (case index_of (rl_id r) (rs_rules rs) of None \<Rightarrow> (Inl (StoreRefused ErrRuleUnknown), es)
       | Some i \<Rightarrow> let current = FormatVersion (rl_version (rs_rules rs ! i)) in
           if expect \<noteq> [] \<and> expect \<noteq> current then (Inl (StoreRefused (VersionMismatch current)), es)
           else rule_write env refs existing again rs ((rs_rules rs)[i := r]) (rl_id r) (Some i) es))"

definition DeleteRule :: "authoring_env \<Rightarrow> (authored_error, References) result \<Rightarrow> (authored_error, Ruleset) result \<Rightarrow> (authored_error, Ruleset) result
    \<Rightarrow> (authored_error, Ruleset) result \<Rightarrow> uuid \<Rightarrow> string \<Rightarrow> estate \<Rightarrow> (authoring_error, Rule option) result \<times> estate" where
  "DeleteRule env refs existing again seen k expect es = (case seen of Inl e \<Rightarrow> (Inl (StoreRefused e), es)
     | Inr rs \<Rightarrow> (case index_of k (rs_rules rs) of None \<Rightarrow> (Inl (StoreRefused ErrRuleUnknown), es)
       | Some i \<Rightarrow> let current = FormatVersion (rl_version (rs_rules rs ! i)) in
           if expect \<noteq> [] \<and> expect \<noteq> current then (Inl (StoreRefused (VersionMismatch current)), es)
           else rule_write env refs existing again rs (take i (rs_rules rs) @ drop (Suc i) (rs_rules rs)) k None es))"

section \<open>Reachable estates\<close>

text \<open>Mutations with whatever they read earlier, interleaved with changes of the workloads and renders.\<close>

inductive authoring_step :: "estate \<Rightarrow> estate \<Rightarrow> bool" where
  create_service: "Authoring_CreateService env s es = (res, es') \<Longrightarrow> authoring_step es es'"
| update_service: "Authoring_UpdateService env s expect es = (res, es') \<Longrightarrow> authoring_step es es'"
| delete_service: "Authoring_DeleteService env k expect es = (res, es') \<Longrightarrow> authoring_step es es'"
| create_group: "Authoring_CreateAddressGroup env g es = (res, es') \<Longrightarrow> authoring_step es es'"
| update_group: "Authoring_UpdateAddressGroup env g expect es = (res, es') \<Longrightarrow> authoring_step es es'"
| delete_group: "Authoring_DeleteAddressGroup env k expect es = (res, es') \<Longrightarrow> authoring_step es es'"
| create_ruleset: "Authoring_CreateRuleset env refs rs es = (res, es') \<Longrightarrow> authoring_step es es'"
| update_ruleset: "Authoring_UpdateRuleset env refs existing rs expect es = (res, es') \<Longrightarrow> authoring_step es es'"
| delete_ruleset: "Authoring_DeleteRuleset env k expect es = (res, es') \<Longrightarrow> authoring_step es es'"
| create_rule: "CreateRule env refs existing again seen r es = (res', es') \<Longrightarrow> authoring_step es es'"
| update_rule: "UpdateRule env refs existing again seen r expect es = (res', es') \<Longrightarrow> authoring_step es es'"
| delete_rule: "DeleteRule env refs existing again seen k expect es = (res', es') \<Longrightarrow> authoring_step es es'"
| fleet: "authoring_step es (es\<lparr>es_workloads := ws, es_policies := pol\<rparr>)"

lemma authoring_render_authored: "authoring_render env es = (b, es') \<Longrightarrow> es_authored es' = es_authored es \<and> es_workloads es' = es_workloads es"
  by (auto simp: authoring_render_def split: if_split_asm prod.split_asm sum.split_asm)

lemma then_render_authored:
  assumes "then_render env r es = (res, es')"
  shows "es_workloads es' = es_workloads es \<and> (case r of Inl _ \<Rightarrow> es_authored es' = es_authored es | Inr (x, db) \<Rightarrow> es_authored es' = db)"
proof (cases r)
  case (Inr p)
  obtain x db where "p = (x, db)" by (cases p)
  with assms Inr authoring_render_authored [of env "es\<lparr>es_authored := db\<rparr>"] show ?thesis
    by (auto simp: then_render_def split: prod.split_asm bool.split_asm)
qed (use assms in \<open>auto simp: then_render_def\<close>)

lemma then_render_ok:
  assumes "then_render env r es = (res, es')" and "authored_ok (es_authored es)" and "\<And>x db. r = Inr (x, db) \<Longrightarrow> authored_ok db"
  shows "authored_ok (es_authored es')"
  using then_render_authored [OF assms(1)] assms(2,3) by (cases r) auto

subsection \<open>Admission is kept\<close>

lemma authored_CIDR_parses: "parse_prefix c \<noteq> None \<Longrightarrow> parse_prefix (authored_CIDR c) \<noteq> None"
  by (auto simp: authored_CIDR_def parse_prefix_valid)

lemma set_keep_new: "set (keep_new seen ss) = authored_CIDR ` set ss - set seen"
  by (induction seen ss rule: keep_new.induct) auto

lemma distinct_keep_new: "distinct (keep_new seen ss)"
  by (induction seen ss rule: keep_new.induct) (auto simp: set_keep_new)

lemma authored_group_ok: "group_ok g \<Longrightarrow> group_ok (g\<lparr>grp_id := k, grp_cidrs := authored_CIDRs (grp_cidrs g), grp_created_at := c, grp_updated_at := u, grp_version := v\<rparr>)"
proof -
  assume g: "group_ok g"
  then obtain c where "c \<in> set (grp_cidrs g)" by (cases "grp_cidrs g") (auto simp: group_ok_def)
  then have "authored_CIDRs (grp_cidrs g) \<noteq> []" using set_keep_new [of "[]" "grp_cidrs g"] by (auto simp: authored_CIDRs_def)
  then show ?thesis using g authored_CIDR_parses by (auto simp: group_ok_def list_all_iff authored_CIDRs_def set_keep_new)
qed

lemma assign_rule_ok: "rule_ok refs r \<Longrightarrow> rule_ok refs (assign_rule k r)"
  using authored_CIDR_parses by (auto simp: rule_ok_def assign_rule_def list_all_iff peer_ok_def)

lemma rule_ok_stamps: "rule_ok refs (r\<lparr>rl_created_at := c, rl_updated_at := u, rl_version := v\<rparr>) = rule_ok refs r"
  by (simp add: rule_ok_def)

lemma carry_rule_ok: "rule_ok refs (carry_rule prev now r) = rule_ok refs r"
  by (auto simp: carry_rule_def rule_ok_def split: option.split)

lemma assign_content_ok: "ruleset_ok refs rs \<Longrightarrow> content_ok refs (assignRuleIDs fresh rs)"
  by (auto simp: content_ok_def ruleset_ok_def assignRuleIDs_def list_all_iff in_set_enumerate_eq intro!: assign_rule_ok)

lemma then_render_create:
  assumes "then_render env (bind_result r (\<lambda>db. Inr (x, db))) es = (res, es')" and "authored_ok (es_authored es)" and "\<And>db. r = Inr db \<Longrightarrow> authored_ok db"
  shows "authored_ok (es_authored es')"
  by (rule then_render_ok [OF assms(1,2)]) (use assms(3) in auto)

lemma then_render_update:
  assumes "then_render env (bind_result r (\<lambda>(v, db). Inr (f v, db))) es = (res, es')" and "authored_ok (es_authored es)"
    and "\<And>v db. r = Inr (v, db) \<Longrightarrow> authored_ok db"
  shows "authored_ok (es_authored es')"
  by (rule then_render_ok [OF assms(1,2)]) (use assms(3) in auto)

lemma Authoring_CreateService_ok:
  assumes "Authoring_CreateService env s es = (res, es')" and "authored_ok (es_authored es)"
  shows "authored_ok (es_authored es')"
proof (cases "ValidateService s")
  case None
  then have s: "service_ok s" by (simp add: ValidateService_None)
  show ?thesis
    by (rule then_render_create [OF assms(1) [unfolded Authoring_CreateService_def None option.case Let_def] assms(2)])
       (erule CreateService_ok, use s assms(2) in \<open>simp_all add: service_ok_def\<close>)
qed (use assms in \<open>simp add: Authoring_CreateService_def\<close>)

lemma Authoring_UpdateService_ok:
  assumes "Authoring_UpdateService env s expect es = (res, es')" and "authored_ok (es_authored es)"
  shows "authored_ok (es_authored es')"
proof (cases "ValidateService s")
  case None
  then have s: "service_ok s" by (simp add: ValidateService_None)
  show ?thesis
    by (rule then_render_update [OF assms(1) [unfolded Authoring_UpdateService_def None option.case Let_def] assms(2)])
       (erule UpdateService_ok, use s assms(2) in \<open>simp_all add: service_ok_def\<close>)
qed (use assms in \<open>simp add: Authoring_UpdateService_def\<close>)

lemma Authoring_DeleteService_ok:
  assumes "Authoring_DeleteService env k expect es = (res, es')" and "authored_ok (es_authored es)"
  shows "authored_ok (es_authored es')"
  by (rule then_render_create [OF assms(1) [unfolded Authoring_DeleteService_def] assms(2)]) (erule DeleteService_ok, rule assms(2))

lemma Authoring_CreateAddressGroup_ok:
  assumes "Authoring_CreateAddressGroup env g es = (res, es')" and "authored_ok (es_authored es)"
  shows "authored_ok (es_authored es')"
proof (cases "ValidateAddressGroup g")
  case None
  then have g: "group_ok g" by (simp add: ValidateAddressGroup_None)
  show ?thesis
    by (rule then_render_create [OF assms(1) [unfolded Authoring_CreateAddressGroup_def None option.case Let_def] assms(2)])
       (erule CreateAddressGroup_ok [OF _ authored_group_ok [OF g] assms(2)])
qed (use assms in \<open>simp add: Authoring_CreateAddressGroup_def\<close>)

lemma Authoring_UpdateAddressGroup_ok:
  assumes "Authoring_UpdateAddressGroup env g expect es = (res, es')" and "authored_ok (es_authored es)"
  shows "authored_ok (es_authored es')"
proof (cases "ValidateAddressGroup g")
  case None
  then have "group_ok g" by (simp add: ValidateAddressGroup_None)
  from authored_group_ok [OF this] have g: "group_ok (g\<lparr>grp_cidrs := authored_CIDRs (grp_cidrs g), grp_updated_at := ae_now env\<rparr>)"
    by (simp add: group_ok_def)
  show ?thesis
    by (rule then_render_update [OF assms(1) [unfolded Authoring_UpdateAddressGroup_def None option.case Let_def] assms(2)])
       (erule UpdateAddressGroup_ok [OF _ g assms(2)])
qed (use assms in \<open>simp add: Authoring_UpdateAddressGroup_def\<close>)

lemma Authoring_DeleteAddressGroup_ok:
  assumes "Authoring_DeleteAddressGroup env k expect es = (res, es')" and "authored_ok (es_authored es)"
  shows "authored_ok (es_authored es')"
  by (rule then_render_create [OF assms(1) [unfolded Authoring_DeleteAddressGroup_def] assms(2)]) (erule DeleteAddressGroup_ok, rule assms(2))

lemma Authoring_CreateRuleset_ok:
  assumes "Authoring_CreateRuleset env refs rs es = (res, es')" and "authored_ok (es_authored es)"
  shows "authored_ok (es_authored es')"
proof (cases "\<exists>refs'. refs = Inr refs' \<and> ValidateRuleset rs refs' = None")
  case True
  then obtain refs' where r: "refs = Inr refs'" "ValidateRuleset rs refs' = None" by blast
  let ?a = "AssignIDs (ae_id env) (ae_rule_ids env) rs"
  let ?rs = "?a\<lparr>rs_created_at := ae_now env, rs_updated_at := ae_now env, rs_version := 1,
     rs_rules := map (\<lambda>r. r\<lparr>rl_created_at := ae_now env, rl_updated_at := ae_now env, rl_version := 1\<rparr>) (rs_rules ?a)\<rparr>"
  have "ruleset_ok refs' (rs\<lparr>rs_id := (if rs_id rs = uuid_Nil then ae_id env else rs_id rs)\<rparr>)"
    using r(2) by (simp add: ValidateRuleset_None ruleset_ok_def)
  then have "content_ok refs' ?a" unfolding AssignIDs_def by (rule assign_content_ok)
  then have "content_ok refs' ?rs" by (simp add: content_ok_def list_all_iff rule_ok_stamps)
  then show ?thesis
    by (intro then_render_create [OF assms(1) [unfolded Authoring_CreateRuleset_def r sum.case option.case Let_def] assms(2)])
       (erule CreateRuleset_ok, use assms(2) in simp_all)
qed (use assms in \<open>auto simp: Authoring_CreateRuleset_def split: sum.split_asm option.split_asm\<close>)

lemma update_content_ok: "ruleset_ok refs rs \<Longrightarrow>
    content_ok refs (carryRuleProvenance old (assignRuleIDs fresh rs) now\<lparr>rs_created_at := c, rs_updated_at := u\<rparr>)"
  using assign_content_ok [of refs rs fresh] by (simp add: content_ok_def carryRuleProvenance_def list_all_iff carry_rule_ok)

lemma Authoring_UpdateRuleset_cases:
  assumes "Authoring_UpdateRuleset env refs existing rs expect es = (res, es')"
  obtains (refused) e where "res = Inl e" "es' = es"
  | (written) refs' old where "refs = Inr refs'" "existing = Inr old" "ruleset_ok refs' rs"
      "then_render env (bind_result (UpdateRuleset (ae_write_ok env)
          (carryRuleProvenance old (assignRuleIDs (ae_rule_ids env) rs) (ae_now env)\<lparr>rs_created_at := rs_created_at old, rs_updated_at := ae_now env\<rparr>)
          expect (es_authored es)) (\<lambda>(v, db). Inr (carryRuleProvenance old (assignRuleIDs (ae_rule_ids env) rs) (ae_now env)
            \<lparr>rs_created_at := rs_created_at old, rs_updated_at := ae_now env, rs_version := v\<rparr>, db))) es = (res, es')"
proof (cases "\<exists>refs' old. refs = Inr refs' \<and> existing = Inr old \<and> ValidateRuleset rs refs' = None")
  case True
  then obtain refs' old where r: "refs = Inr refs'" "existing = Inr old" "ValidateRuleset rs refs' = None" by blast
  note w = assms [unfolded Authoring_UpdateRuleset_def r sum.case option.case Let_def]
  show ?thesis by (rule written [OF r(1,2)]) (use r(3) w in \<open>simp_all add: ValidateRuleset_None\<close>)
next
  case False
  then have "\<exists>e. res = Inl e \<and> es' = es" using assms unfolding Authoring_UpdateRuleset_def
    by (cases refs; cases existing) (auto split: option.split_asm)
  then show ?thesis using refused by blast
qed

lemma Authoring_UpdateRuleset_ok:
  assumes "Authoring_UpdateRuleset env refs existing rs expect es = (res, es')" and "authored_ok (es_authored es)"
  shows "authored_ok (es_authored es')"
  using assms(1)
proof (cases rule: Authoring_UpdateRuleset_cases)
  case (written refs' old)
  show ?thesis
    by (rule then_render_update [OF written(4) assms(2)]) (erule UpdateRuleset_ok [OF _ update_content_ok [OF written(3)] assms(2)])
qed (use assms(2) in simp)

lemma Authoring_DeleteRuleset_ok:
  assumes "Authoring_DeleteRuleset env k expect es = (res, es')" and "authored_ok (es_authored es)"
  shows "authored_ok (es_authored es')"
  by (rule then_render_create [OF assms(1) [unfolded Authoring_DeleteRuleset_def] assms(2)]) (erule DeleteRuleset_ok, rule assms(2))

text \<open>The writes of single rules are writes of their ruleset.\<close>

lemma rule_write_update: "rule_write env refs existing again rs rules k idx es = (res, es') \<Longrightarrow>
    \<exists>res'. Authoring_UpdateRuleset env refs existing (rs\<lparr>rs_rules := rules\<rparr>) (FormatVersion (rs_version rs)) es = (res', es')"
  by (auto simp: rule_write_def split: prod.split_asm sum.split_asm)

lemma rule_op_update:
  "CreateRule env refs existing again seen r es = (res, es') \<Longrightarrow> es' = es \<or> (\<exists>rs expect res'. Authoring_UpdateRuleset env refs existing rs expect es = (res', es'))"
  "UpdateRule env refs existing again seen r expect es = (res, es') \<Longrightarrow> es' = es \<or> (\<exists>rs expect res'. Authoring_UpdateRuleset env refs existing rs expect es = (res', es'))"
  "DeleteRule env refs existing again seen k expect es = (res, es') \<Longrightarrow> es' = es \<or> (\<exists>rs expect res'. Authoring_UpdateRuleset env refs existing rs expect es = (res', es'))"
  by (auto simp: CreateRule_def UpdateRule_def DeleteRule_def Let_def dest!: rule_write_update split: sum.split_asm option.split_asm if_split_asm)

lemmas authoring_ops_ok = Authoring_CreateService_ok Authoring_UpdateService_ok Authoring_DeleteService_ok Authoring_CreateAddressGroup_ok
  Authoring_UpdateAddressGroup_ok Authoring_DeleteAddressGroup_ok Authoring_CreateRuleset_ok Authoring_UpdateRuleset_ok Authoring_DeleteRuleset_ok

lemma authoring_step_ok: "authoring_step es es' \<Longrightarrow> authored_ok (es_authored es) \<Longrightarrow> authored_ok (es_authored es')"
  proof (induction rule: authoring_step.induct)
  case (create_rule env refs existing again seen r es res' es')
  then show ?case using rule_op_update(1) Authoring_UpdateRuleset_ok by metis
next
  case (update_rule env refs existing again seen r expect es res' es')
  then show ?case using rule_op_update(2) Authoring_UpdateRuleset_ok by metis
next
  case (delete_rule env refs existing again seen k expect es res' es')
  then show ?case using rule_op_update(3) Authoring_UpdateRuleset_ok by metis
qed (simp_all add: authoring_ops_ok)

lemma authoring_reachable_ok: "authoring_step\<^sup>*\<^sup>* es es' \<Longrightarrow> authored_ok (es_authored es) \<Longrightarrow> authored_ok (es_authored es')"
  by (induction rule: rtranclp_induct) (auto dest: authoring_step_ok)

section \<open>No write is lost\<close>

lemma show_int_inj: "show_int m = show_int n \<longleftrightarrow> m = n"
proof -
  have "hd (show_dec k) \<noteq> CHR ''-''" for k
    using show_dec_is_dec [of "hd (show_dec k)" k] by (cases "show_dec k") (auto simp: is_dec_def)
  then have "CHR ''-'' # xs \<noteq> show_dec k" for k xs by (metis list.sel(1))
  from this this [symmetric] show ?thesis by (auto simp: show_int_def)
qed

lemma expected_FormatVersion: "expected (FormatVersion v) w \<longleftrightarrow> w = v"
  by (auto simp: expected_def FormatVersion_def show_int_inj) (auto simp: show_int_def split: if_split_asm)

definition ruleset_row :: "uuid \<Rightarrow> authored_db \<Rightarrow> Ruleset option" where
  "ruleset_row k db = row_of rs_id k (ad_rulesets db)"

text \<open>From one state to the next a ruleset that stays is as it was or has a higher version.\<close>

definition advances :: "uuid \<Rightarrow> authored_db \<Rightarrow> authored_db \<Rightarrow> bool" where
  "advances k db db' = (case (ruleset_row k db, ruleset_row k db') of
     (Some row, Some row') \<Rightarrow> row' = row \<or> rs_version row < rs_version row' | _ \<Rightarrow> True)"

lemma advances_same: "ad_rulesets db' = ad_rulesets db \<Longrightarrow> advances k db db'"
  by (simp add: advances_def ruleset_row_def split: option.split)

lemma row_of_set_row: "row_of idf k (set_row idf y rows) = (if idf y = k then map_option (\<lambda>_. y) (row_of idf k rows) else row_of idf k rows)"
  by (induction rows) (auto simp: row_of_def set_row_def)

lemma row_of_drop_row: "row_of idf k (drop_row idf j rows) = (if j = k then None else row_of idf k rows)"
  by (induction rows) (auto simp: row_of_def drop_row_def)

lemma row_of_append: "row_of idf k rows = Some row \<Longrightarrow> row_of idf k (rows @ xs) = Some row"
  by (induction rows) (auto simp: row_of_def)

lemma CreateRuleset_advances: "CreateRuleset ok rs db = Inr db' \<Longrightarrow> advances k db db'"
  by (auto simp: CreateRuleset_def advances_def ruleset_row_def row_of_append split: if_split_asm option.split)

lemma UpdateRuleset_advances: "UpdateRuleset ok rs expect db = Inr (v, db') \<Longrightarrow> advances k db db'"
  by (auto simp: UpdateRuleset_Inr advances_def ruleset_row_def row_of_set_row split: option.split if_split_asm)

lemma DeleteRuleset_advances: "DeleteRuleset ok j expect db = Inr db' \<Longrightarrow> advances k db db'"
  by (auto simp: DeleteRuleset_def advances_def ruleset_row_def row_of_drop_row split: if_split_asm option.split_asm option.split)

lemma then_render_advances:
  assumes "then_render env r es = (res, es')" and "\<And>x db. r = Inr (x, db) \<Longrightarrow> advances k (es_authored es) db"
  shows "advances k (es_authored es) (es_authored es')"
  using then_render_authored [OF assms(1)] assms(2) by (cases r) (auto simp: advances_same)

lemma create_advances:
  assumes "then_render env (bind_result r (\<lambda>db. Inr (x, db))) es = (res, es')" and "\<And>db. r = Inr db \<Longrightarrow> advances k (es_authored es) db"
  shows "advances k (es_authored es) (es_authored es')"
  by (rule then_render_advances [OF assms(1)]) (use assms(2) in auto)

lemma update_advances:
  assumes "then_render env (bind_result r (\<lambda>(v, db). Inr (f v, db))) es = (res, es')" and "\<And>v db. r = Inr (v, db) \<Longrightarrow> advances k (es_authored es) db"
  shows "advances k (es_authored es) (es_authored es')"
  by (rule then_render_advances [OF assms(1)]) (use assms(2) in auto)

lemma other_tables: 
  "CreateService ok s db = Inr db' \<Longrightarrow> ad_rulesets db' = ad_rulesets db"
  "UpdateService ok s expect db = Inr (v, db') \<Longrightarrow> ad_rulesets db' = ad_rulesets db"
  "DeleteService ok j expect db = Inr db' \<Longrightarrow> ad_rulesets db' = ad_rulesets db"
  "CreateAddressGroup ck ok g db = Inr db' \<Longrightarrow> ad_rulesets db' = ad_rulesets db"
  "UpdateAddressGroup ck ok g expect db = Inr (v, db') \<Longrightarrow> ad_rulesets db' = ad_rulesets db"
  "DeleteAddressGroup ok j expect db = Inr db' \<Longrightarrow> ad_rulesets db' = ad_rulesets db"
  by (auto simp: CreateService_def UpdateService_Inr DeleteService_def CreateAddressGroup_def UpdateAddressGroup_Inr DeleteAddressGroup_def
      split: if_split_asm option.split_asm)

lemmas table_advances = other_tables [THEN advances_same] CreateRuleset_advances UpdateRuleset_advances DeleteRuleset_advances

lemma Authoring_UpdateRuleset_advances:
  assumes "Authoring_UpdateRuleset env refs existing rs expect es = (res, es')"
  shows "advances k (es_authored es) (es_authored es')"
  using assms
proof (cases rule: Authoring_UpdateRuleset_cases)
  case (written refs' old)
  show ?thesis by (rule update_advances [OF written(4)]) (rule UpdateRuleset_advances)
qed (simp add: advances_same)

lemma authoring_step_advances: "authoring_step es es' \<Longrightarrow> advances k (es_authored es) (es_authored es')"
proof (induction rule: authoring_step.induct)
  case (create_service env s es res es')
  then show ?case unfolding Authoring_CreateService_def Let_def
    by (cases "ValidateService s") (auto simp: advances_same elim: create_advances intro: table_advances)
next
  case (update_service env s expect es res es')
  then show ?case unfolding Authoring_UpdateService_def Let_def
    by (cases "ValidateService s") (auto simp: advances_same elim: update_advances intro: table_advances)
next
  case (delete_service env j expect es res es')
  then show ?case unfolding Authoring_DeleteService_def by (auto elim: create_advances intro: table_advances)
next
  case (create_group env g es res es')
  then show ?case unfolding Authoring_CreateAddressGroup_def Let_def
    by (cases "ValidateAddressGroup g") (auto simp: advances_same elim: create_advances intro: table_advances)
next
  case (update_group env g expect es res es')
  then show ?case unfolding Authoring_UpdateAddressGroup_def Let_def
    by (cases "ValidateAddressGroup g") (auto simp: advances_same elim: update_advances intro: table_advances)
next
  case (delete_group env j expect es res es')
  then show ?case unfolding Authoring_DeleteAddressGroup_def by (auto elim: create_advances intro: table_advances)
next
  case (create_ruleset env refs rs es res es')
  then show ?case unfolding Authoring_CreateRuleset_def Let_def
    by (auto simp: advances_same elim: create_advances intro: table_advances split: sum.split_asm option.split_asm)
next
  case (delete_ruleset env j expect es res es')
  then show ?case unfolding Authoring_DeleteRuleset_def by (auto elim: create_advances intro: table_advances)
next
  case (create_rule env refs existing again seen r es res' es')
  then show ?case using rule_op_update(1) Authoring_UpdateRuleset_advances advances_same by metis
next
  case (update_rule env refs existing again seen r expect es res' es')
  then show ?case using rule_op_update(2) Authoring_UpdateRuleset_advances advances_same by metis
next
  case (delete_rule env refs existing again seen j expect es res' es')
  then show ?case using rule_op_update(3) Authoring_UpdateRuleset_advances advances_same by metis
qed (simp_all add: Authoring_UpdateRuleset_advances advances_same)

text \<open>Steps through which the ruleset \<open>k\<close> exists.\<close>

definition keeps :: "uuid \<Rightarrow> estate \<Rightarrow> estate \<Rightarrow> bool" where
  "keeps k es es' = (authoring_step es es' \<and> ruleset_row k (es_authored es') \<noteq> None)"

lemma keeps_advances:
  assumes "(keeps k)\<^sup>*\<^sup>* es es'" and "ruleset_row k (es_authored es) = Some row"
  shows "\<exists>row'. ruleset_row k (es_authored es') = Some row' \<and> (row' = row \<or> rs_version row < rs_version row')"
  using assms
proof (induction rule: rtranclp_induct)
  case (step es1 es2)
  then obtain row1 row2 where r: "ruleset_row k (es_authored es1) = Some row1" "row1 = row \<or> rs_version row < rs_version row1"
    "ruleset_row k (es_authored es2) = Some row2" by (auto simp: keeps_def)
  moreover from step.hyps(2) have "advances k (es_authored es1) (es_authored es2)" by (simp add: keeps_def authoring_step_advances)
  ultimately show ?case by (auto simp: advances_def)
qed auto

lemma then_render_Inr: "then_render env r es = (Inr x, es') \<Longrightarrow> \<exists>db. r = Inr (x, db)"
  by (auto simp: then_render_def split: sum.split_asm prod.split_asm bool.split_asm)

lemma Authoring_UpdateRuleset_Inr:
  assumes "Authoring_UpdateRuleset env refs existing rs expect es = (Inr rs', es')"
  shows "\<exists>row. ruleset_row (rs_id rs) (es_authored es) = Some row \<and> expected expect (rs_version row)"
  using assms
proof (cases rule: Authoring_UpdateRuleset_cases)
  case (written refs' old)
  obtain v db where "UpdateRuleset (ae_write_ok env)
      (carryRuleProvenance old (assignRuleIDs (ae_rule_ids env) rs) (ae_now env)\<lparr>rs_created_at := rs_created_at old, rs_updated_at := ae_now env\<rparr>)
      expect (es_authored es) = Inr (v, db)" using then_render_Inr [OF written(4)] by auto
  then show ?thesis by (auto simp: UpdateRuleset_Inr carryRuleProvenance_def assignRuleIDs_def ruleset_row_def)
qed simp

lemma rule_write_current:
  assumes "rule_write env refs existing again rs rules k idx es = (Inr r, es')"
  shows "\<exists>row. ruleset_row (rs_id rs) (es_authored es) = Some row \<and> rs_version row = rs_version rs"
proof -
  obtain rs' where "Authoring_UpdateRuleset env refs existing (rs\<lparr>rs_rules := rules\<rparr>) (FormatVersion (rs_version rs)) es = (Inr rs', es')"
    using assms by (auto simp: rule_write_def split: prod.split_asm sum.split_asm)
  from Authoring_UpdateRuleset_Inr [OF this] show ?thesis by (simp add: expected_FormatVersion)
qed

lemma rule_ops_current:
  "CreateRule env refs existing again (Inr rs) r es = (Inr x, es') \<Longrightarrow> \<exists>row. ruleset_row (rs_id rs) (es_authored es) = Some row \<and> rs_version row = rs_version rs"
  "UpdateRule env refs existing again (Inr rs) r expect es = (Inr x, es') \<Longrightarrow> \<exists>row. ruleset_row (rs_id rs) (es_authored es) = Some row \<and> rs_version row = rs_version rs"
  "DeleteRule env refs existing again (Inr rs) j expect es = (Inr x, es') \<Longrightarrow> \<exists>row. ruleset_row (rs_id rs) (es_authored es) = Some row \<and> rs_version row = rs_version rs"
  by (auto simp: CreateRule_def UpdateRule_def DeleteRule_def Let_def dest!: rule_write_current split: option.split_asm if_split_asm)

section \<open>A mutation is in force\<close>

lemma rule_ids_sorted: "mset (rule_ids (sort_key f rss)) = mset (rule_ids rss)"
proof -
  have "mset (rule_ids xs) = (\<Sum>rs\<in>#mset xs. mset (map rl_id (rs_rules rs)))" for xs
    by (induction xs) (simp_all add: rule_ids_def)
  then show ?thesis by simp
qed

lemma inputs_of_ok:
  assumes "authored_ok (es_authored es)" and "list_all uuid_text (rule_ids (ad_rulesets (es_authored es)))" and "distinct (map w_id (es_workloads es))"
  shows "inputs_ok (inputs_of ck es)"
proof -
  have ids: "mset (authored_ids (inputs_of ck es)) = mset (rule_ids (ad_rulesets (es_authored es)))"
    using rule_ids_sorted by (simp add: authored_ids_def inputs_of_def ListRulesets_def flip: rule_ids_def)
  then have "distinct (authored_ids (inputs_of ck es))" using assms(1) mset_eq_imp_distinct_iff by (auto simp: authored_ok_def)
  moreover have "set (authored_ids (inputs_of ck es)) = set (rule_ids (ad_rulesets (es_authored es)))" by (rule mset_eq_setD [OF ids])
  ultimately show ?thesis using assms(2,3) by (simp add: inputs_ok_def list_all_iff inputs_of_def)
qed

lemma Canonical_Equal_permits: "Equal p q \<Longrightarrow> permits (Canonical p) a pr n = permits (Canonical q) a pr n"
  by (simp add: Equal_def permits_def) (metis WorkloadPolicy.select_convs(3) WorkloadPolicy.surjective WorkloadPolicy.update_convs(1))

lemma render_in_force:
  assumes "RenderIn (Inr inp) (Inr previous) se = Inr (rep, pol)" and "inputs_ok inp" and "w \<in> set (in_workloads inp)" and "\<not> Retired w"
  shows "map_of pol (w_id w) \<noteq> None \<and> mode (Canonical (map_of pol (w_id w))) = mode (renderWorkload inp w) \<and>
    (permits (Canonical (map_of pol (w_id w))) a pr n \<longleftrightarrow> authored_permits inp w a pr n)"
proof -
  from Render_lookup [OF assms(2,3)] assms(4) have cur: "map_of (Render inp) (w_id w) = Some (renderWorkload inp w)" by simp
  from RenderIn_content [OF assms(1) cur] have eq: "map_of pol (w_id w) \<noteq> None" "Equal (map_of pol (w_id w)) (Some (renderWorkload inp w))" by simp_all
  have "permits (Canonical (Some (renderWorkload inp w))) a pr n \<longleftrightarrow> authored_permits inp w a pr n"
    using renderWorkload_permits [OF assms(2), of w a pr n] by (simp add: renderWorkload_def)
  then show ?thesis using eq(1) Canonical_Equal_permits [OF eq(2), of a pr n] eq(2) [unfolded Equal_iff] by simp
qed

lemma authoring_render_in_force:
  assumes "authoring_render env es = (True, es')" and "ae_renderer env" and "inputs_ok (inputs_of (ae_collate env) es)"
    and "w \<in> set (es_workloads es)" and "\<not> Retired w"
  shows "map_of (es_policies es') (w_id w) \<noteq> None \<and>
    (permits (Canonical (map_of (es_policies es') (w_id w))) a pr n \<longleftrightarrow> authored_permits (inputs_of (ae_collate env) es) w a pr n)"
proof -
  let ?inp = "inputs_of (ae_collate env) es"
  obtain rep pol where run: "RenderIn (Inr ?inp) (Inr (es_policies es)) (ae_save env) = Inr (rep, pol)" and es': "es_policies es' = pol"
    using assms(1,2) by (auto simp: authoring_render_def Engine_Render_def RenderIn_def split: if_split_asm sum.split_asm prod.split_asm)
  have "w \<in> set (in_workloads ?inp)" using assms(4) by (simp add: inputs_of_def)
  from render_in_force [OF run assms(3) this assms(5), of a pr n] show ?thesis unfolding es' by blast
qed

lemma then_render_in_force:
  assumes "then_render env r es = (Inr x, es')"
  shows "\<exists>db. r = Inr (x, db) \<and> authoring_render env (es\<lparr>es_authored := db\<rparr>) = (True, es')"
  using assms by (auto simp: then_render_def split: sum.split_asm prod.split_asm bool.split_asm)

text \<open>A mutation that returned without an error.\<close>

definition succeeds :: "authoring_env \<Rightarrow> estate \<Rightarrow> estate \<Rightarrow> bool" where
  "succeeds env es es' = ((\<exists>s x. Authoring_CreateService env s es = (Inr x, es')) \<or> (\<exists>s v x. Authoring_UpdateService env s v es = (Inr x, es')) \<or>
     (\<exists>k v x. Authoring_DeleteService env k v es = (Inr x, es')) \<or> (\<exists>g x. Authoring_CreateAddressGroup env g es = (Inr x, es')) \<or>
     (\<exists>g v x. Authoring_UpdateAddressGroup env g v es = (Inr x, es')) \<or> (\<exists>k v x. Authoring_DeleteAddressGroup env k v es = (Inr x, es')) \<or>
     (\<exists>refs rs x. Authoring_CreateRuleset env refs rs es = (Inr x, es')) \<or>
     (\<exists>refs old rs v x. Authoring_UpdateRuleset env refs old rs v es = (Inr x, es')) \<or> (\<exists>k v x. Authoring_DeleteRuleset env k v es = (Inr x, es')))"

lemma succeeds_step: "succeeds env es es' \<Longrightarrow> authoring_step es es'"
  unfolding succeeds_def by (elim disjE exE) (erule authoring_step.intros)+

lemma succeeds_renders: "succeeds env es es' \<Longrightarrow> \<exists>db. authoring_render env (es\<lparr>es_authored := db\<rparr>) = (True, es')"
  unfolding succeeds_def Authoring_CreateService_def Authoring_UpdateService_def Authoring_DeleteService_def Authoring_CreateAddressGroup_def
    Authoring_UpdateAddressGroup_def Authoring_DeleteAddressGroup_def Authoring_CreateRuleset_def Authoring_UpdateRuleset_def Authoring_DeleteRuleset_def Let_def
  by (elim disjE exE) (auto dest!: then_render_in_force split: option.split_asm sum.split_asm)

lemma succeeds_in_force:
  assumes "authored_ok (es_authored es)" and "succeeds env es es'" and "ae_renderer env" and "distinct (map w_id (es_workloads es))"
    and "list_all uuid_text (rule_ids (ad_rulesets (es_authored es')))" and "w \<in> set (es_workloads es)" and "\<not> Retired w"
  shows "map_of (es_policies es') (w_id w) \<noteq> None \<and>
    (permits (Canonical (map_of (es_policies es') (w_id w))) a pr n \<longleftrightarrow> authored_permits (inputs_of (ae_collate env) es') w a pr n)"
proof -
  obtain db where r: "authoring_render env (es\<lparr>es_authored := db\<rparr>) = (True, es')" using succeeds_renders [OF assms(2)] by blast
  then have db: "es_authored es' = db" "es_workloads es' = es_workloads es" using authoring_render_authored by fastforce+
  have "authored_ok (es_authored es')" by (rule authoring_step_ok [OF succeeds_step [OF assms(2)] assms(1)])
  then have "inputs_ok (inputs_of (ae_collate env) (es\<lparr>es_authored := db\<rparr>))" using assms(4,5) db by (intro inputs_of_ok) simp_all
  from authoring_render_in_force [OF r assms(3) this, of w a pr n] assms(6,7) db show ?thesis by (simp add: inputs_of_def)
qed

section \<open>Properties\<close>

text \<open>\<^bold>\<open>C10\<close>: whatever sequence of mutations led there, admitted against whatever references they had read, each
  stored service, address group and ruleset is admissible against the tables as they stand: no
  reference dangles. Names and rule ids are unique.\<close>

theorem authored_tables_admissible:
  assumes "authoring_step\<^sup>*\<^sup>* es0 es" and "es_authored es0 = no_authored" and "db = es_authored es"
  shows "(\<forall>s\<in>set (ad_services db). ValidateService s = None) \<and> (\<forall>g\<in>set (ad_groups db). ValidateAddressGroup g = None) \<and>
    (\<forall>rs\<in>set (ad_rulesets db). ValidateRuleset rs (refs_of db) = None) \<and>
    distinct (map svc_name (ad_services db)) \<and> distinct (map grp_name (ad_groups db)) \<and> distinct (map rs_name (ad_rulesets db)) \<and>
    distinct (rule_ids (ad_rulesets db))"
proof -
  have "authored_ok (es_authored es0)" by (simp add: assms(2))
  from authoring_reachable_ok [OF assms(1) this] show ?thesis unfolding assms(3)
    by (simp add: authored_ok_def unique_rows_def list_all_iff ValidateService_None ValidateAddressGroup_None ValidateRuleset_None)
qed

definition demo_authoring_env :: authoring_env where
  "demo_authoring_env = \<lparr>ae_now = 7, ae_id = ''00000000-0000-0000-0000-0000000000b1'', ae_rule_ids = (\<lambda>i. ''00000000-0000-0000-0000-0000000000c1''),
     ae_collate = (\<lambda>s. s), ae_write_ok = True, ae_renderer = True, ae_load_ok = True, ae_save = (\<lambda>_. None)\<rparr>"

definition demo_ruleset :: Ruleset where
  "demo_ruleset = hd (in_rulesets demo_inputs)\<lparr>rs_id := uuid_Nil\<rparr>"

definition demo_estate :: estate where
  "demo_estate = \<lparr>es_authored = no_authored, es_workloads = [demo_workload], es_policies = []\<rparr>"

lemma authoring_render_succeeds:
  assumes "ae_load_ok env" and "ae_save env = (\<lambda>_. None)"
  shows "\<exists>pol. authoring_render env es = (True, es\<lparr>es_policies := pol\<rparr>)"
proof (cases "ae_renderer env")
  case True
  let ?inp = "inputs_of (ae_collate env) es"
  have "\<not> (\<exists>e. save_outcomes (\<lambda>_. None :: unit option) os st = Inl e)" for os st unfolding save_outcomes_error by simp
  then have "RenderIn (Inr ?inp) (Inr (es_policies es)) (\<lambda>_. None) \<noteq> Inl ()" unfolding RenderIn_def bind_result_simps by blast
  then obtain rep pol where "RenderIn (Inr ?inp) (Inr (es_policies es)) (\<lambda>_. None :: unit option) = Inr (rep, pol)"
    by (cases "RenderIn (Inr ?inp) (Inr (es_policies es)) (\<lambda>_. None :: unit option)") auto
  then have "authoring_render env es = (True, es\<lparr>es_policies := pol\<rparr>)" using True assms by (simp add: authoring_render_def Engine_Render_def)
  then show ?thesis by blast
next
  case False
  then have "authoring_render env es = (True, es\<lparr>es_policies := es_policies es\<rparr>)" by (simp add: authoring_render_def)
  then show ?thesis by blast
qed

lemma demo_ruleset_ok: "ruleset_ok (refs_of no_authored) demo_ruleset"
  by (simp add: demo_ruleset_def demo_inputs_def ruleset_ok_def rule_ok_def peer_ok_def selector_ok_def entry_ok_def port_range_ok_def inGrammar_def
      MaxLabelLength_def alnum_def uuid_Nil_def)

definition demo_stored :: Ruleset where
  "demo_stored = demo_ruleset\<lparr>rs_id := ae_id demo_authoring_env, rs_created_at := 7, rs_updated_at := 7,
     rs_rules := map (\<lambda>r. r\<lparr>rl_created_at := 7, rl_updated_at := 7, rl_version := 1\<rparr>) (rs_rules demo_ruleset)\<rparr>"

lemma demo_stored_create: "CreateRuleset True demo_stored no_authored = Inr (no_authored\<lparr>ad_rulesets := [demo_stored]\<rparr>)"
  by (simp add: CreateRuleset_def taken_def no_authored_def demo_stored_def demo_ruleset_def demo_inputs_def rule_ids_def rule_error_def peer_error_def
      entries_fit_def port_range_ok_def stored_rule_def stored_peer_def stored_entries_def entriesFromRows_def entryRows_def)

lemma demo_create: "\<exists>pol. Authoring_CreateRuleset demo_authoring_env (Inr (refs_of no_authored)) demo_ruleset demo_estate =
    (Inr demo_stored, demo_estate\<lparr>es_authored := no_authored\<lparr>ad_rulesets := [demo_stored]\<rparr>, es_policies := pol\<rparr>)"
proof -
  have "AssignIDs (ae_id demo_authoring_env) (ae_rule_ids demo_authoring_env) demo_ruleset = demo_ruleset\<lparr>rs_id := ae_id demo_authoring_env\<rparr>"
    by (simp add: AssignIDs_def assignRuleIDs_def assign_rule_def demo_ruleset_def demo_inputs_def uuid_Nil_def)
  moreover obtain pol where "authoring_render demo_authoring_env (demo_estate\<lparr>es_authored := no_authored\<lparr>ad_rulesets := [demo_stored]\<rparr>\<rparr>) =
      (True, demo_estate\<lparr>es_authored := no_authored\<lparr>ad_rulesets := [demo_stored]\<rparr>, es_policies := pol\<rparr>)"
    using authoring_render_succeeds [of demo_authoring_env "demo_estate\<lparr>es_authored := no_authored\<lparr>ad_rulesets := [demo_stored]\<rparr>\<rparr>"]
    by (auto simp: demo_authoring_env_def)
  moreover have "ValidateRuleset demo_ruleset (refs_of no_authored) = None" using demo_ruleset_ok by (simp add: ValidateRuleset_None)
  moreover have "demo_ruleset\<lparr>rs_id := ae_id demo_authoring_env, rs_created_at := 7, rs_updated_at := 7, rs_version := 1,
      rs_rules := map (\<lambda>r. r\<lparr>rl_created_at := 7, rl_updated_at := 7, rl_version := 1\<rparr>) (rs_rules demo_ruleset)\<rparr> = demo_stored"
    by (simp add: demo_stored_def demo_ruleset_def demo_inputs_def)
  moreover have "ae_now demo_authoring_env = 7" "ae_write_ok demo_authoring_env" "es_authored demo_estate = no_authored"
    by (simp_all add: demo_authoring_env_def demo_estate_def)
  ultimately show ?thesis using demo_stored_create unfolding Authoring_CreateRuleset_def by (auto simp: Let_def then_render_def)
qed

theorem authored_tables_admissible_witness:
  "\<exists>es. authoring_step\<^sup>*\<^sup>* demo_estate es \<and> ad_rulesets (es_authored es) = [demo_stored] \<and> ValidateRuleset demo_stored (refs_of (es_authored es)) = None"
proof -
  obtain pol where c: "Authoring_CreateRuleset demo_authoring_env (Inr (refs_of no_authored)) demo_ruleset demo_estate =
      (Inr demo_stored, demo_estate\<lparr>es_authored := no_authored\<lparr>ad_rulesets := [demo_stored]\<rparr>, es_policies := pol\<rparr>)" using demo_create by blast
  let ?es = "demo_estate\<lparr>es_authored := no_authored\<lparr>ad_rulesets := [demo_stored]\<rparr>, es_policies := pol\<rparr>"
  have run: "authoring_step\<^sup>*\<^sup>* demo_estate ?es" using authoring_step.create_ruleset [OF c] by blast
  from authored_tables_admissible [OF run _ refl] have "ValidateRuleset demo_stored (refs_of (es_authored ?es)) = None"
    by (simp add: demo_estate_def)
  then show ?thesis using run by (intro exI [of _ ?es]) simp
qed

text \<open>\<^bold>\<open>C9\<close>: a mutation that returns without an error is in force: the persisted policy of every active
  workload, in the form its agent installs, permits exactly what the stored rules in its scope say,
  with the services, groups and rules read back from the tables as the mutation left them.\<close>

theorem mutation_is_in_force:
  assumes "authoring_step\<^sup>*\<^sup>* es0 es" and "es_authored es0 = no_authored" and "succeeds env es es'" and "ae_renderer env"
    and "distinct (map w_id (es_workloads es))" and "list_all uuid_text (rule_ids (ad_rulesets (es_authored es')))"
    and "w \<in> set (es_workloads es)" and "\<not> Retired w"
  shows "map_of (es_policies es') (w_id w) \<noteq> None \<and>
    (permits (Canonical (map_of (es_policies es') (w_id w))) a pr n \<longleftrightarrow> authored_permits (inputs_of (ae_collate env) es') w a pr n)"
proof (rule succeeds_in_force [OF _ assms(3-8)])
  show "authored_ok (es_authored es)" by (rule authoring_reachable_ok [OF assms(1)]) (simp add: assms(2))
qed

lemma demo_stored_text: "list_all uuid_text (rule_ids [demo_stored])"
  by (simp add: demo_stored_def demo_ruleset_def demo_inputs_def rule_ids_def uuid_text_def is_hex_def is_dec_def)

theorem mutation_is_in_force_witness:
  "\<exists>es'. succeeds demo_authoring_env demo_estate es' \<and> map_of (es_policies es') ''w'' \<noteq> None \<and>
     permits (Canonical (map_of (es_policies es') ''w'')) (V4 167772161) PROTOCOL_TCP 5432"
proof -
  obtain pol where c: "Authoring_CreateRuleset demo_authoring_env (Inr (refs_of no_authored)) demo_ruleset demo_estate =
      (Inr demo_stored, demo_estate\<lparr>es_authored := no_authored\<lparr>ad_rulesets := [demo_stored]\<rparr>, es_policies := pol\<rparr>)" using demo_create by blast
  let ?es = "demo_estate\<lparr>es_authored := no_authored\<lparr>ad_rulesets := [demo_stored]\<rparr>, es_policies := pol\<rparr>"
  have s: "succeeds demo_authoring_env demo_estate ?es" using c unfolding succeeds_def by blast
  have w: "es_workloads demo_estate = [demo_workload]" "es_authored demo_estate = no_authored" "w_id demo_workload = ''w''" "\<not> Retired demo_workload"
    by (simp_all add: demo_estate_def demo_workload_def Retired_def)
  have "authored_permits (inputs_of (ae_collate demo_authoring_env) ?es) demo_workload (V4 167772161) PROTOCOL_TCP 5432"
    by (simp add: authored_permits_def inputs_of_def ListRulesets_def demo_stored_def demo_ruleset_def demo_inputs_def demo_estate_def demo_workload_def
        Matches_def LabelMap_def index_by_def rule_entries_def entry_opens_def in_range_def peer_covers_def Retired_def)
  then show ?thesis using s mutation_is_in_force [OF rtranclp.rtrancl_refl w(2) s, of demo_workload "V4 167772161" PROTOCOL_TCP 5432] w demo_stored_text
    by (intro exI [of _ ?es]) (simp add: demo_authoring_env_def)
qed

text \<open>No rule edit overwrites a write it has not seen: when creating, updating or deleting a rule
  succeeds, the ruleset it is written to is still the one that was read at the start of the call,
  whatever other mutations ran in between while the ruleset existed.\<close>

lemma rule_edit_sees_every_write:
  assumes "(keeps k)\<^sup>*\<^sup>* es0 es1" and "GetRuleset True k (es_authored es0) = Inr seen"
    and "CreateRule env refs existing again (Inr seen) r es1 = (Inr x, es2) \<or> UpdateRule env refs existing again (Inr seen) r expect es1 = (Inr x, es2) \<or>
      DeleteRule env refs existing again (Inr seen) j expect es1 = (Inr x, es2)"
  shows "GetRuleset True k (es_authored es1) = Inr seen"
proof -
  have seen: "ruleset_row k (es_authored es0) = Some seen" using assms(2) by (auto simp: GetRuleset_def ruleset_row_def split: option.split_asm)
  then have id: "rs_id seen = k" using row_of_Some by (fastforce simp: ruleset_row_def)
  have "\<exists>row. ruleset_row (rs_id seen) (es_authored es1) = Some row \<and> rs_version row = rs_version seen"
    using assms(3) by (elim disjE) (rule rule_ops_current, assumption)+
  then obtain row where row: "ruleset_row k (es_authored es1) = Some row" "rs_version row = rs_version seen" using id by blast
  from keeps_advances [OF assms(1) seen] row have "row = seen" by auto
  then show ?thesis using row by (simp add: GetRuleset_def ruleset_row_def)
qed

definition demo_written :: estate where
  "demo_written = demo_estate\<lparr>es_authored := no_authored\<lparr>ad_rulesets := [demo_stored]\<rparr>\<rparr>"

lemma demo_delete: "\<exists>es2. DeleteRule demo_authoring_env (Inr (refs_of no_authored)) (Inr demo_stored) (Inr demo_stored) (Inr demo_stored)
    ''00000000-0000-0000-0000-0000000000a1'' [] demo_written = (Inr None, es2)"
proof -
  let ?rs = "demo_stored\<lparr>rs_rules := []\<rparr>"
  have "ValidateRuleset ?rs (refs_of no_authored) = None"
    using demo_ruleset_ok by (simp add: ValidateRuleset_None ruleset_ok_def demo_stored_def)
  moreover have "index_of ''00000000-0000-0000-0000-0000000000a1'' (rs_rules demo_stored) = Some 0" "drop (Suc 0) (rs_rules demo_stored) = []"
    by (simp_all add: demo_stored_def demo_ruleset_def demo_inputs_def)
  moreover obtain db where "UpdateRuleset True (carryRuleProvenance demo_stored (assignRuleIDs (ae_rule_ids demo_authoring_env) ?rs) 7
      \<lparr>rs_created_at := rs_created_at demo_stored, rs_updated_at := 7\<rparr>) (FormatVersion (rs_version demo_stored)) (es_authored demo_written) = Inr (2, db)"
    by (simp add: UpdateRuleset_def carryRuleProvenance_def assignRuleIDs_def demo_written_def no_authored_def row_of_def name_taken_def expected_def
        demo_stored_def demo_ruleset_def demo_inputs_def)
  moreover obtain es2 where "authoring_render demo_authoring_env (demo_written\<lparr>es_authored := db\<rparr>) = (True, es2)"
    using authoring_render_succeeds [of demo_authoring_env] by (auto simp: demo_authoring_env_def)
  moreover have "ae_now demo_authoring_env = 7" "ae_write_ok demo_authoring_env" by (simp_all add: demo_authoring_env_def)
  ultimately show ?thesis
    by (simp add: DeleteRule_def rule_write_def Authoring_UpdateRuleset_def Let_def then_render_def)
qed

end
