(* ===== verification/Gaps.thy ===== *)
theory Gaps
  imports Registry
begin

text \<open>
  The agent's record of lost evidence, \<^verbatim>\<open>internal/agent/collect/gaps.go\<close>: closed intervals held
  until they are shipped, merged when they touch or when the list is full, and at most one open
  interval per source. A nil recorder is \<open>None\<close> and records nothing. The results: with room for one
  gap per kind and source the bound costs precision and never the fact of a loss; and whatever is
  recorded, opened, cut, closed, taken and put back, every lost instant is in a gap that is held, on
  its way or delivered. An instant is a reading of the wall clock.
\<close>

section \<open>Gaps\<close>

datatype GapKind = GapSourceOverrun | GapSourceRestart | GapBufferOverflow | GapDumpTruncated
  | GapWindowOverflow | GapWindowRejected | GapTableRemoved

datatype GapSource = GapNoSource | GapConntrack | GapNflog

definition cutWhileOpen :: "GapKind \<Rightarrow> bool" where
  "cutWhileOpen k = (k = GapTableRemoved)"

record Gap =
  gap_kind :: GapKind
  gap_source :: GapSource
  gap_from :: instant
  gap_to :: instant
  gap_count :: "64 word"
  gap_has_count :: bool

definition DefaultGapCapacity :: nat where "DefaultGapCapacity = 1024"

record Gaps =
  gs_Capacity :: int
  gs_pending :: "Gap list"
  gs_open :: "(GapSource, Gap) gomap"
  gs_overruns :: "64 word"

definition gaps_capacity :: "Gaps \<Rightarrow> nat" where
  "gaps_capacity g = (if 0 < gs_Capacity g then nat (gs_Capacity g) else DefaultGapCapacity)"

section \<open>Merging\<close>

definition merge_gap :: "Gap \<Rightarrow> Gap \<Rightarrow> Gap" where
  "merge_gap p gap = (let known = gap_has_count p \<and> gap_has_count gap in
     p\<lparr>gap_from := (if gap_from gap < gap_from p then gap_from gap else gap_from p),
       gap_to := (if gap_to p < gap_to gap then gap_to gap else gap_to p),
       gap_has_count := known, gap_count := (if known then gap_count p + gap_count gap else 0)\<rparr>)"

definition same_loss :: "Gap \<Rightarrow> Gap \<Rightarrow> bool" where
  "same_loss p gap = (gap_kind p = gap_kind gap \<and> gap_source p = gap_source gap)"

text \<open>Into the first gap of the same kind and source, when there is one.\<close>

fun absorb :: "Gap \<Rightarrow> Gap list \<Rightarrow> Gap list option" where
  "absorb gap [] = None"
| "absorb gap (p # ps) = (if same_loss p gap then Some (merge_gap p gap # ps) else map_option ((#) p) (absorb gap ps))"

text \<open>The two oldest gaps sharing a kind and source become one, at the place of the older.\<close>

fun merge_oldest :: "Gap list \<Rightarrow> Gap list \<Rightarrow> Gap list option" where
  "merge_oldest seen [] = None"
| "merge_oldest seen (p # ps) = (case absorb p seen of
     Some seen' \<Rightarrow> Some (seen' @ ps)
   | None \<Rightarrow> merge_oldest (seen @ [p]) ps)"

lemma absorb_length: "absorb gap ps = Some ps' \<Longrightarrow> length ps' = length ps"
  by (induction ps arbitrary: ps') (auto split: if_split_asm)

lemma merge_oldest_length: "merge_oldest seen ps = Some ps' \<Longrightarrow> length ps' < length seen + length ps"
proof (induction ps arbitrary: seen)
  case (Cons p ps)
  then show ?case using absorb_length by (fastforce split: option.split_asm)
qed simp

function shrink_gaps :: "nat \<Rightarrow> Gap list \<Rightarrow> Gap list" where
  "shrink_gaps cap ps = (if length ps \<le> cap then ps
     else case merge_oldest [] ps of Some ps' \<Rightarrow> shrink_gaps cap ps' | None \<Rightarrow> shrink_gaps cap (tl ps))"
  by auto
termination
  by (relation "measure (\<lambda>(cap, ps). length ps)") (auto dest: merge_oldest_length)

declare shrink_gaps.simps [simp del]

text \<open>Newest first: the newest gap of the same kind and source is widened when the intervals touch.\<close>

fun extend_newest :: "Gap \<Rightarrow> Gap list \<Rightarrow> Gap list option" where
  "extend_newest gap [] = None"
| "extend_newest gap (p # ps) = (if \<not> same_loss p gap then map_option ((#) p) (extend_newest gap ps)
     else if gap_from gap \<le> gap_to p \<and> gap_from p \<le> gap_to gap then Some (merge_gap p gap # ps)
     else None)"

definition add_pending :: "nat \<Rightarrow> Gap \<Rightarrow> Gap list \<Rightarrow> Gap list" where
  "add_pending cap gap pending = (let gap = (if gap_to gap < gap_from gap then gap\<lparr>gap_to := gap_from gap\<rparr> else gap) in
     case extend_newest gap (rev pending) of Some ps \<Rightarrow> rev ps | None \<Rightarrow> shrink_gaps cap (pending @ [gap]))"

definition add_gap :: "Gap \<Rightarrow> Gaps \<Rightarrow> Gaps" where
  "add_gap gap g = g\<lparr>gs_pending := add_pending (gaps_capacity g) gap (gs_pending g)\<rparr>"

section \<open>Operations\<close>

definition Gaps_Overrun :: "Gaps option \<Rightarrow> Gaps option" where
  "Gaps_Overrun = map_option (\<lambda>g. g\<lparr>gs_overruns := gs_overruns g + 1\<rparr>)"

definition Gaps_Overruns :: "Gaps option \<Rightarrow> 64 word" where
  "Gaps_Overruns g = (case g of None \<Rightarrow> 0 | Some g \<Rightarrow> gs_overruns g)"

definition open_gap :: "GapSource \<Rightarrow> GapKind \<Rightarrow> instant \<Rightarrow> Gap" where
  "open_gap s k t = \<lparr>gap_kind = k, gap_source = s, gap_from = t, gap_to = 0, gap_count = 0, gap_has_count = False\<rparr>"

definition Gaps_Open :: "GapSource \<Rightarrow> GapKind \<Rightarrow> instant \<Rightarrow> Gaps option \<Rightarrow> Gaps option" where
  "Gaps_Open s k t = map_option (\<lambda>g. case map_of (gs_open g) s of
     None \<Rightarrow> g\<lparr>gs_open := AList.update s (open_gap s k t) (gs_open g)\<rparr>
   | Some cur \<Rightarrow> if gap_kind cur = k then g
       else (add_gap (cur\<lparr>gap_to := t\<rparr>) g)\<lparr>gs_open := AList.update s (open_gap s k t) (gs_open g)\<rparr>)"

definition Gaps_Close :: "GapSource \<Rightarrow> instant \<Rightarrow> Gaps option \<Rightarrow> Gaps option" where
  "Gaps_Close s t = map_option (\<lambda>g. case map_of (gs_open g) s of
     None \<Rightarrow> g
   | Some cur \<Rightarrow> add_gap (cur\<lparr>gap_to := t\<rparr>) (g\<lparr>gs_open := AList.delete s (gs_open g)\<rparr>))"

text \<open>The sources in the order a range over the map visits them, which Go leaves open.\<close>

definition cut_one :: "instant \<Rightarrow> GapSource \<Rightarrow> Gaps \<Rightarrow> Gaps" where
  "cut_one t s g = (case map_of (gs_open g) s of
     None \<Rightarrow> g
   | Some cur \<Rightarrow> if \<not> cutWhileOpen (gap_kind cur) \<or> t \<le> gap_from cur then g
       else (add_gap (cur\<lparr>gap_to := t\<rparr>) g)\<lparr>gs_open := AList.update s (cur\<lparr>gap_from := t\<rparr>) (gs_open g)\<rparr>)"

definition Gaps_CutOpen :: "instant \<Rightarrow> Gaps option \<Rightarrow> Gaps option" where
  "Gaps_CutOpen t = map_option (\<lambda>g. fold (cut_one t) (map fst (gs_open g)) g)"

definition Gaps_Record :: "Gap \<Rightarrow> Gaps option \<Rightarrow> Gaps option" where
  "Gaps_Record gap = map_option (add_gap gap)"

definition Gaps_Take :: "Gaps option \<Rightarrow> Gap list \<times> Gaps option" where
  "Gaps_Take g = (case g of None \<Rightarrow> ([], None) | Some g \<Rightarrow> (gs_pending g, Some (g\<lparr>gs_pending := []\<rparr>)))"

definition Gaps_Restore :: "Gap list \<Rightarrow> Gaps option \<Rightarrow> Gaps option" where
  "Gaps_Restore gaps = map_option (\<lambda>g. if gaps = [] then g
     else g\<lparr>gs_pending := shrink_gaps (gaps_capacity g) (gaps @ gs_pending g)\<rparr>)"

definition Gaps_Held :: "Gaps option \<Rightarrow> nat" where
  "Gaps_Held g = (case g of None \<Rightarrow> 0 | Some g \<Rightarrow> length (gs_pending g))"

section \<open>On the wire\<close>

datatype EvidenceGapKind = EVIDENCE_GAP_KIND_UNSPECIFIED | EVIDENCE_GAP_KIND_SOURCE_OVERRUN | EVIDENCE_GAP_KIND_SOURCE_RESTART
  | EVIDENCE_GAP_KIND_BUFFER_OVERFLOW | EVIDENCE_GAP_KIND_DUMP_TRUNCATED | EVIDENCE_GAP_KIND_WINDOW_OVERFLOW
  | EVIDENCE_GAP_KIND_WINDOW_REJECTED | EVIDENCE_GAP_KIND_TABLE_REMOVED | EVIDENCE_GAP_KIND_AGENT_SILENT | EVIDENCE_GAP_KIND_OTHER int

datatype EvidenceSource = EVIDENCE_SOURCE_UNSPECIFIED | EVIDENCE_SOURCE_CONNTRACK | EVIDENCE_SOURCE_NFLOG | EVIDENCE_SOURCE_OTHER int

record EvidenceGap =
  eg_kind :: EvidenceGapKind
  eg_source :: EvidenceSource
  eg_from :: "instant option"
  eg_to :: "instant option"
  eg_count :: "64 word option"

fun wireKinds :: "GapKind \<Rightarrow> EvidenceGapKind" where
  "wireKinds GapSourceOverrun = EVIDENCE_GAP_KIND_SOURCE_OVERRUN"
| "wireKinds GapSourceRestart = EVIDENCE_GAP_KIND_SOURCE_RESTART"
| "wireKinds GapBufferOverflow = EVIDENCE_GAP_KIND_BUFFER_OVERFLOW"
| "wireKinds GapDumpTruncated = EVIDENCE_GAP_KIND_DUMP_TRUNCATED"
| "wireKinds GapWindowOverflow = EVIDENCE_GAP_KIND_WINDOW_OVERFLOW"
| "wireKinds GapWindowRejected = EVIDENCE_GAP_KIND_WINDOW_REJECTED"
| "wireKinds GapTableRemoved = EVIDENCE_GAP_KIND_TABLE_REMOVED"

fun wireSources :: "GapSource \<Rightarrow> EvidenceSource" where
  "wireSources GapNoSource = EVIDENCE_SOURCE_UNSPECIFIED"
| "wireSources GapConntrack = EVIDENCE_SOURCE_CONNTRACK"
| "wireSources GapNflog = EVIDENCE_SOURCE_NFLOG"

definition Gap_Wire :: "Gap \<Rightarrow> EvidenceGap" where
  "Gap_Wire gap = \<lparr>eg_kind = wireKinds (gap_kind gap), eg_source = wireSources (gap_source gap),
     eg_from = Some (gap_from gap), eg_to = Some (gap_to gap),
     eg_count = (if gap_has_count gap then Some (gap_count gap) else None)\<rparr>"

section \<open>What the held gaps cover\<close>

type_synonym loss = "GapKind \<times> GapSource \<times> instant"

definition gap_losses :: "Gap \<Rightarrow> loss set" where
  "gap_losses p = {(gap_kind p, gap_source p, t) | t. gap_from p \<le> t \<and> t \<le> gap_to p}"

definition losses :: "Gap list \<Rightarrow> loss set" where
  "losses ps = (\<Union>p\<in>set ps. gap_losses p)"

lemma losses_simps [simp]:
  "losses [] = {}" "losses (p # ps) = gap_losses p \<union> losses ps" "losses (ps @ qs) = losses ps \<union> losses qs"
  "losses (rev ps) = losses ps"
  by (auto simp: losses_def)

lemma merge_gap_losses: "same_loss p gap \<Longrightarrow> gap_losses p \<union> gap_losses gap \<subseteq> gap_losses (merge_gap p gap)"
  by (auto simp: gap_losses_def merge_gap_def same_loss_def Let_def)

lemma absorb_losses: "absorb gap ps = Some ps' \<Longrightarrow> losses ps \<union> gap_losses gap \<subseteq> losses ps'"
proof (induction ps arbitrary: ps')
  case (Cons p ps)
  show ?case
  proof (cases "same_loss p gap")
    case True
    with Cons.prems merge_gap_losses [OF True] show ?thesis by auto
  next
    case False
    with Cons.prems obtain qs where "absorb gap ps = Some qs" "ps' = p # qs" by auto
    with Cons.IH show ?thesis by auto
  qed
qed simp

lemma merge_oldest_losses: "merge_oldest seen ps = Some ps' \<Longrightarrow> losses seen \<union> losses ps \<subseteq> losses ps'"
proof (induction ps arbitrary: seen)
  case (Cons p ps)
  show ?case
  proof (cases "absorb p seen")
    case None
    with Cons.IH [of "seen @ [p]"] Cons.prems show ?thesis by auto
  next
    case (Some seen')
    with Cons.prems absorb_losses [OF Some] show ?thesis by auto
  qed
qed simp

text \<open>A list with no two gaps of one kind and source is no longer than there are such pairs.\<close>

definition loss_keys :: "(GapKind \<times> GapSource) list" where
  "loss_keys = List.product [GapSourceOverrun, GapSourceRestart, GapBufferOverflow, GapDumpTruncated,
     GapWindowOverflow, GapWindowRejected, GapTableRemoved] [GapNoSource, GapConntrack, GapNflog]"

lemma loss_keys_all: "(k, s) \<in> set loss_keys"
  by (cases k; cases s) (simp_all add: loss_keys_def)

lemma absorb_None: "absorb gap ps = None \<longleftrightarrow> (gap_kind gap, gap_source gap) \<notin> set (map (\<lambda>p. (gap_kind p, gap_source p)) ps)"
  by (induction ps) (auto simp: same_loss_def)

lemma merge_oldest_None:
  "merge_oldest seen ps = None \<Longrightarrow> distinct (map (\<lambda>p. (gap_kind p, gap_source p)) seen) \<Longrightarrow>
     distinct (map (\<lambda>p. (gap_kind p, gap_source p)) (seen @ ps))"
proof (induction ps arbitrary: seen)
  case (Cons p ps)
  from Cons.prems(1) have a: "absorb p seen = None" "merge_oldest (seen @ [p]) ps = None" by (auto split: option.split_asm)
  with Cons.prems(2) have "distinct (map (\<lambda>p. (gap_kind p, gap_source p)) (seen @ [p]))" by (auto simp: absorb_None)
  with Cons.IH [OF a(2)] show ?case by simp
qed simp

lemma merge_oldest_Some:
  assumes "21 < length ps"
  obtains ps' where "merge_oldest [] ps = Some ps'"
proof (cases "merge_oldest [] ps")
  case None
  let ?ks = "map (\<lambda>p. (gap_kind p, gap_source p)) ps"
  have "length ps = card (set ?ks)" using merge_oldest_None [OF None] distinct_card [of ?ks] by simp
  also have "\<dots> \<le> card (set loss_keys)" using loss_keys_all by (intro card_mono) auto
  also have "\<dots> \<le> 21" using card_length [of loss_keys] by (simp add: loss_keys_def)
  finally show thesis using assms by simp
qed (use that in blast)

lemma shrink_losses: "21 \<le> cap \<Longrightarrow> losses ps \<subseteq> losses (shrink_gaps cap ps)"
proof (induction cap ps rule: shrink_gaps.induct)
  case (1 cap ps)
  show ?case
  proof (cases "length ps \<le> cap")
    case False
    with 1(3) obtain ps' where ps': "merge_oldest [] ps = Some ps'" using merge_oldest_Some [of ps] by auto
    from 1(2) [OF False ps' 1(3)] merge_oldest_losses [OF ps'] ps' False show ?thesis
      by (subst shrink_gaps.simps) auto
  qed (simp add: shrink_gaps.simps)
qed

lemma shrink_length: "length (shrink_gaps cap ps) \<le> cap"
proof (induction cap ps rule: shrink_gaps.induct)
  case (1 cap ps)
  then show ?case by (subst shrink_gaps.simps) (auto split: option.split)
qed

lemma extend_newest_losses: "extend_newest gap ps = Some ps' \<Longrightarrow> losses ps \<union> gap_losses gap \<subseteq> losses ps'"
proof (induction ps arbitrary: ps')
  case (Cons p ps)
  show ?case
  proof (cases "same_loss p gap")
    case True
    with Cons.prems merge_gap_losses [OF True] show ?thesis by (auto split: if_split_asm)
  next
    case False
    with Cons.prems obtain qs where "extend_newest gap ps = Some qs" "ps' = p # qs" by auto
    with Cons.IH show ?thesis by auto
  qed
qed simp

lemma extend_newest_length: "extend_newest gap ps = Some ps' \<Longrightarrow> length ps' = length ps"
  by (induction ps arbitrary: ps') (auto split: if_split_asm)

lemma add_pending_losses:
  assumes "21 \<le> cap"
  shows "losses ps \<union> gap_losses gap \<subseteq> losses (add_pending cap gap ps)"
proof -
  define g where "g = (if gap_to gap < gap_from gap then gap\<lparr>gap_to := gap_from gap\<rparr> else gap)"
  have g: "gap_losses gap \<subseteq> gap_losses g" by (auto simp: g_def gap_losses_def)
  have "losses ps \<union> gap_losses g \<subseteq> losses (add_pending cap gap ps)"
  proof (cases "extend_newest g (rev ps)")
    case None
    then show ?thesis using shrink_losses [OF assms, of "ps @ [g]"] by (simp add: add_pending_def g_def [symmetric] Let_def)
  next
    case (Some qs)
    then show ?thesis using extend_newest_losses [OF Some] by (simp add: add_pending_def g_def [symmetric] Let_def)
  qed
  with g show ?thesis by auto
qed

lemma add_pending_length: "length ps \<le> cap \<Longrightarrow> length (add_pending cap gap ps) \<le> cap"
  using extend_newest_length [of _ "rev ps"] shrink_length by (fastforce simp: add_pending_def Let_def split: option.split)

section \<open>What the held gaps count\<close>

text \<open>The counts of one kind add up when each of its gaps has one: merging keeps the sum.\<close>

definition tally :: "GapKind \<Rightarrow> Gap list \<Rightarrow> 64 word" where
  "tally k ps = sum_list (map gap_count (filter (\<lambda>p. gap_kind p = k) ps))"

definition counted :: "GapKind \<Rightarrow> Gap list \<Rightarrow> bool" where
  "counted k ps = list_all (\<lambda>p. gap_kind p = k \<longrightarrow> gap_has_count p) ps"

lemma tally_simps [simp]:
  "tally k [] = 0" "tally k (p # ps) = (if gap_kind p = k then gap_count p else 0) + tally k ps" "tally k (ps @ qs) = tally k ps + tally k qs"
  by (simp_all add: tally_def)

lemma counted_simps [simp]:
  "counted k []" "counted k (p # ps) \<longleftrightarrow> (gap_kind p = k \<longrightarrow> gap_has_count p) \<and> counted k ps"
  "counted k (ps @ qs) \<longleftrightarrow> counted k ps \<and> counted k qs"
  by (simp_all add: counted_def)

lemma tally_rev [simp]: "tally k (rev ps) = tally k ps" and counted_rev [simp]: "counted k (rev ps) = counted k ps"
  by (induction ps) (auto simp: algebra_simps)

lemma absorb_tally:
  "absorb gap ps = Some ps' \<Longrightarrow> counted k (gap # ps) \<Longrightarrow> counted k ps' \<and> tally k ps' = tally k (gap # ps)"
proof (induction ps arbitrary: ps')
  case (Cons p ps)
  show ?case
  proof (cases "same_loss p gap")
    case True
    with Cons.prems show ?thesis by (auto simp: merge_gap_def same_loss_def Let_def algebra_simps)
  next
    case False
    with Cons.prems obtain qs where "absorb gap ps = Some qs" "ps' = p # qs" by auto
    with Cons show ?thesis by (auto simp: algebra_simps)
  qed
qed simp

lemma merge_oldest_tally:
  "merge_oldest seen ps = Some ps' \<Longrightarrow> counted k (seen @ ps) \<Longrightarrow> counted k ps' \<and> tally k ps' = tally k (seen @ ps)"
proof (induction ps arbitrary: seen)
  case (Cons p ps)
  show ?case
  proof (cases "absorb p seen")
    case None
    with Cons.IH [of "seen @ [p]"] Cons.prems show ?thesis by (simp add: algebra_simps)
  next
    case (Some seen')
    with Cons.prems absorb_tally [OF Some, of k] show ?thesis by (auto simp: algebra_simps)
  qed
qed simp

lemma shrink_tally:
  "21 \<le> cap \<Longrightarrow> counted k ps \<Longrightarrow> counted k (shrink_gaps cap ps) \<and> tally k (shrink_gaps cap ps) = tally k ps"
proof (induction cap ps rule: shrink_gaps.induct)
  case (1 cap ps)
  show ?case
  proof (cases "length ps \<le> cap")
    case False
    with 1(3) obtain ps' where ps': "merge_oldest [] ps = Some ps'" using merge_oldest_Some [of ps] by auto
    from 1(2) [OF False ps' 1(3)] merge_oldest_tally [OF ps', of k] 1(4) ps' False show ?thesis
      by (subst (1 2) shrink_gaps.simps) simp
  qed (use 1(4) in \<open>simp add: shrink_gaps.simps\<close>)
qed

lemma extend_newest_tally:
  "extend_newest gap ps = Some ps' \<Longrightarrow> counted k (gap # ps) \<Longrightarrow> counted k ps' \<and> tally k ps' = tally k (gap # ps)"
proof (induction ps arbitrary: ps')
  case (Cons p ps)
  show ?case
  proof (cases "same_loss p gap")
    case True
    with Cons.prems show ?thesis by (auto simp: merge_gap_def same_loss_def Let_def algebra_simps split: if_split_asm)
  next
    case False
    with Cons.prems obtain qs where "extend_newest gap ps = Some qs" "ps' = p # qs" by auto
    with Cons show ?thesis by (auto simp: algebra_simps)
  qed
qed simp

lemma add_pending_tally:
  assumes "21 \<le> cap" and "counted k (gap # ps)"
  shows "counted k (add_pending cap gap ps) \<and> tally k (add_pending cap gap ps) = tally k (gap # ps)"
proof -
  define g where "g = (if gap_to gap < gap_from gap then gap\<lparr>gap_to := gap_from gap\<rparr> else gap)"
  have g: "counted k (g # ps)" "tally k (g # ps) = tally k (gap # ps)" using assms(2) by (auto simp: g_def)
  show ?thesis
  proof (cases "extend_newest g (rev ps)")
    case None
    then show ?thesis using shrink_tally [OF assms(1), of k "ps @ [g]"] g
      by (simp add: add_pending_def g_def [symmetric] Let_def algebra_simps)
  next
    case (Some qs)
    then show ?thesis using extend_newest_tally [OF Some, of k] g by (simp add: add_pending_def g_def [symmetric] Let_def)
  qed
qed

section \<open>A run of the recorder\<close>

text \<open>
  The recorder with what it handed out: gaps on their way and gaps delivered. \<open>ev_loss\<close> collects
  what was lost: the instants of each recorded gap, and of each open interval from the instant it
  was opened at, \<open>ev_since\<close>, to the instant it was closed or taken over at.
\<close>

record evidence =
  ev_gaps :: Gaps
  ev_flight :: "Gap list"
  ev_done :: "Gap list"
  ev_loss :: "loss set"
  ev_since :: "GapSource \<Rightarrow> instant"

definition open_losses :: "GapSource \<Rightarrow> instant \<Rightarrow> evidence \<Rightarrow> loss set" where
  "open_losses s t e = (case map_of (gs_open (ev_gaps e)) s of
     None \<Rightarrow> {}
   | Some cur \<Rightarrow> {(gap_kind cur, s, u) | u. ev_since e s \<le> u \<and> u \<le> t})"

inductive evidence_step :: "evidence \<Rightarrow> evidence \<Rightarrow> bool" where
  recorded: "Gaps_Record gap (Some (ev_gaps e)) = Some g \<Longrightarrow>
    evidence_step e (e\<lparr>ev_gaps := g, ev_loss := ev_loss e \<union> gap_losses gap\<rparr>)"
| still_open: "Gaps_Open s k t (Some (ev_gaps e)) = Some g \<Longrightarrow> map_of (gs_open (ev_gaps e)) s = Some cur \<Longrightarrow> gap_kind cur = k \<Longrightarrow>
    evidence_step e (e\<lparr>ev_gaps := g\<rparr>)"
| opened: "Gaps_Open s k t (Some (ev_gaps e)) = Some g \<Longrightarrow> map_option gap_kind (map_of (gs_open (ev_gaps e)) s) \<noteq> Some k \<Longrightarrow>
    evidence_step e (e\<lparr>ev_gaps := g, ev_loss := ev_loss e \<union> open_losses s t e, ev_since := (ev_since e)(s := t)\<rparr>)"
| closed: "Gaps_Close s t (Some (ev_gaps e)) = Some g \<Longrightarrow>
    evidence_step e (e\<lparr>ev_gaps := g, ev_loss := ev_loss e \<union> open_losses s t e\<rparr>)"
| cut: "Gaps_CutOpen t (Some (ev_gaps e)) = Some g \<Longrightarrow> evidence_step e (e\<lparr>ev_gaps := g\<rparr>)"
| taken: "ev_flight e = [] \<Longrightarrow> Gaps_Take (Some (ev_gaps e)) = (ps, Some g) \<Longrightarrow> evidence_step e (e\<lparr>ev_gaps := g, ev_flight := ps\<rparr>)"
| delivered: "evidence_step e (e\<lparr>ev_done := ev_done e @ ev_flight e, ev_flight := []\<rparr>)"
| failed: "Gaps_Restore (ev_flight e) (Some (ev_gaps e)) = Some g \<Longrightarrow> evidence_step e (e\<lparr>ev_gaps := g, ev_flight := []\<rparr>)"

text \<open>The invariant, over what the held gaps and the handed out ones cover.\<close>

definition kept :: "Gaps \<Rightarrow> loss set \<Rightarrow> (GapSource \<Rightarrow> instant) \<Rightarrow> loss set \<Rightarrow> bool" where
  "kept g out since loss = (21 \<le> gaps_capacity g \<and> length (gs_pending g) \<le> gaps_capacity g \<and>
     loss \<subseteq> losses (gs_pending g) \<union> out \<and>
     (\<forall>s cur. map_of (gs_open g) s = Some cur \<longrightarrow> gap_source cur = s \<and>
        (\<forall>u. since s \<le> u \<and> u < gap_from cur \<longrightarrow> (gap_kind cur, s, u) \<in> losses (gs_pending g) \<union> out)))"

lemma gaps_capacity_simps [simp]:
  "gaps_capacity (g\<lparr>gs_pending := ps\<rparr>) = gaps_capacity g" "gaps_capacity (g\<lparr>gs_open := op\<rparr>) = gaps_capacity g"
  "gaps_capacity (add_gap gap g) = gaps_capacity g" "gs_open (add_gap gap g) = gs_open g"
  by (simp_all add: gaps_capacity_def add_gap_def)

lemma add_gap_open: "add_gap gap (g\<lparr>gs_open := op\<rparr>) = (add_gap gap g)\<lparr>gs_open := op\<rparr>"
  by (cases g) (simp add: add_gap_def gaps_capacity_def)

lemma kept_add:
  assumes "kept g out since loss"
  shows "kept (add_gap gap g) out since (loss \<union> gap_losses gap)"
proof -
  have c: "21 \<le> gaps_capacity g" using assms by (simp add: kept_def)
  have "losses (gs_pending g) \<union> gap_losses gap \<subseteq> losses (gs_pending (add_gap gap g))"
    using add_pending_losses [OF c] by (simp add: add_gap_def)
  moreover have "length (gs_pending (add_gap gap g)) \<le> gaps_capacity g"
    using assms add_pending_length by (simp add: kept_def add_gap_def)
  ultimately show ?thesis using assms unfolding kept_def by (simp, blast)
qed

lemma kept_mono: "kept g out since loss \<Longrightarrow> loss' \<subseteq> loss \<Longrightarrow> kept g out since loss'"
  by (auto simp: kept_def)

text \<open>An open interval that ends at \<open>t\<close> is covered from the instant it was opened at.\<close>

lemma kept_end:
  assumes "kept g out since loss" and "map_of (gs_open g) s = Some cur"
  shows "kept (add_gap (cur\<lparr>gap_to := t\<rparr>) g) out since (loss \<union> {(gap_kind cur, s, u) | u. since s \<le> u \<and> u \<le> t})"
proof -
  let ?g = "add_gap (cur\<lparr>gap_to := t\<rparr>) g"
  have k: "kept ?g out since (loss \<union> gap_losses (cur\<lparr>gap_to := t\<rparr>))" by (rule kept_add [OF assms(1)])
  have "(gap_kind cur, s, u) \<in> losses (gs_pending ?g) \<union> out" if "since s \<le> u" "u \<le> t" for u
  proof (cases "u < gap_from cur")
    case True
    then show ?thesis using k assms(2) that unfolding kept_def by simp
  next
    case False
    then have "(gap_kind cur, s, u) \<in> gap_losses (cur\<lparr>gap_to := t\<rparr>)"
      using assms that by (auto simp: gap_losses_def kept_def)
    then show ?thesis using k by (auto simp: kept_def)
  qed
  then show ?thesis using k unfolding kept_def by auto
qed

lemma kept_cut_one: "kept g out since loss \<Longrightarrow> kept (cut_one t s g) out since loss"
proof (cases "map_of (gs_open g) s")
  case (Some cur)
  assume k: "kept g out since loss"
  show ?thesis
  proof (cases "\<not> cutWhileOpen (gap_kind cur) \<or> t \<le> gap_from cur")
    case False
    let ?g = "add_gap (cur\<lparr>gap_to := t\<rparr>) g"
    from kept_end [OF k Some, of t] have e: "kept ?g out since (loss \<union> {(gap_kind cur, s, u) | u. since s \<le> u \<and> u \<le> t})" .
    have "gap_source cur = s" using k Some by (auto simp: kept_def)
    moreover have "\<forall>u. since s \<le> u \<and> u < t \<longrightarrow> (gap_kind cur, s, u) \<in> losses (gs_pending ?g) \<union> out"
      using e unfolding kept_def by fastforce
    ultimately show ?thesis using kept_mono [OF e, of loss] False unfolding cut_one_def Some kept_def by (auto simp: update_conv')
  qed (use k Some in \<open>simp add: cut_one_def\<close>)
qed (simp add: cut_one_def)

lemma kept_cut_fold: "kept g out since loss \<Longrightarrow> kept (fold (cut_one t) ss g) out since loss"
  by (induction ss arbitrary: g) (simp_all add: kept_cut_one)

lemma kept_open:
  assumes "kept g out since loss"
  shows "kept (g\<lparr>gs_open := AList.update s (open_gap s k t) (gs_open g)\<rparr>) out (since(s := t)) loss"
  using assms unfolding kept_def by (auto simp: update_conv' open_gap_def)

definition evidence_ok :: "evidence \<Rightarrow> bool" where
  "evidence_ok e = kept (ev_gaps e) (losses (ev_flight e) \<union> losses (ev_done e)) (ev_since e) (ev_loss e)"

lemma evidence_step_ok: "evidence_step e e' \<Longrightarrow> evidence_ok e \<Longrightarrow> evidence_ok e'"
proof (induction rule: evidence_step.induct)
  case (recorded gap e g)
  then show ?case by (auto simp: evidence_ok_def Gaps_Record_def kept_add)
next
  case (still_open s k t e g cur)
  then show ?case by (simp add: evidence_ok_def Gaps_Open_def)
next
  case (opened s k t e g)
  show ?case
  proof (cases "map_of (gs_open (ev_gaps e)) s")
    case None
    with opened kept_open show ?thesis by (auto simp: evidence_ok_def Gaps_Open_def open_losses_def)
  next
    case (Some cur)
    with opened have g: "g = (add_gap (cur\<lparr>gap_to := t\<rparr>) (ev_gaps e))\<lparr>gs_open := AList.update s (open_gap s k t) (gs_open (add_gap (cur\<lparr>gap_to := t\<rparr>) (ev_gaps e)))\<rparr>"
      by (simp add: Gaps_Open_def)
    show ?thesis using kept_open [OF kept_end [OF opened(3) [unfolded evidence_ok_def] Some, of t]] Some
      by (simp add: evidence_ok_def g open_losses_def)
  qed
next
  case (closed s t e g)
  show ?case
  proof (cases "map_of (gs_open (ev_gaps e)) s")
    case None
    with closed show ?thesis by (simp add: evidence_ok_def Gaps_Close_def open_losses_def)
  next
    case (Some cur)
    with closed have g: "g = (add_gap (cur\<lparr>gap_to := t\<rparr>) (ev_gaps e))\<lparr>gs_open := AList.delete s (gs_open (ev_gaps e))\<rparr>"
      by (simp add: Gaps_Close_def add_gap_open)
    show ?thesis using kept_end [OF closed(2) [unfolded evidence_ok_def] Some, of t] Some
      unfolding evidence_ok_def g open_losses_def by (auto simp: kept_def delete_conv')
  qed
next
  case (cut t e g)
  then show ?case by (auto simp: evidence_ok_def Gaps_CutOpen_def kept_cut_fold)
next
  case (taken e ps g)
  then have "ps = gs_pending (ev_gaps e)" "g = (ev_gaps e)\<lparr>gs_pending := []\<rparr>" by (simp_all add: Gaps_Take_def)
  with taken show ?case by (simp add: evidence_ok_def kept_def)
next
  case (delivered e)
  then show ?case by (simp add: evidence_ok_def Un_ac)
next
  case (failed e g)
  show ?case
  proof (cases "ev_flight e = []")
    case True
    with failed show ?thesis by (simp add: evidence_ok_def Gaps_Restore_def)
  next
    case False
    let ?ps = "shrink_gaps (gaps_capacity (ev_gaps e)) (ev_flight e @ gs_pending (ev_gaps e))"
    have "losses (ev_flight e) \<union> losses (gs_pending (ev_gaps e)) \<subseteq> losses ?ps"
      using failed(2) shrink_losses [of "gaps_capacity (ev_gaps e)" "ev_flight e @ gs_pending (ev_gaps e)"] by (simp add: evidence_ok_def kept_def)
    moreover have "g = (ev_gaps e)\<lparr>gs_pending := ?ps\<rparr>" using failed(1) False by (simp add: Gaps_Restore_def)
    ultimately show ?thesis using failed(2) shrink_length unfolding evidence_ok_def kept_def by (simp, blast)
  qed
qed

lemma evidence_reachable_ok: "evidence_step\<^sup>*\<^sup>* e0 e \<Longrightarrow> evidence_ok e0 \<Longrightarrow> evidence_ok e"
  by (induction rule: rtranclp_induct) (simp_all add: evidence_step_ok)

section \<open>Properties\<close>

definition fresh_evidence :: "int \<Rightarrow> evidence" where
  "fresh_evidence cap = \<lparr>ev_gaps = \<lparr>gs_Capacity = cap, gs_pending = [], gs_open = [], gs_overruns = 0\<rparr>,
     ev_flight = [], ev_done = [], ev_loss = {}, ev_since = (\<lambda>_. 0)\<rparr>"

text \<open>\<^bold>\<open>C33\<close>: no loss of evidence is forgotten: whatever gaps are recorded, opened, cut, closed, taken
  for a report and put back after a failed one, every instant lost is covered by a gap of its kind
  and source that is held, on its way or delivered, and the held gaps stay within the capacity,
  provided it has room for the twenty-one pairs of kind and source.\<close>

theorem no_loss_is_forgotten:
  assumes "21 \<le> gaps_capacity (ev_gaps (fresh_evidence cap))" and "evidence_step\<^sup>*\<^sup>* (fresh_evidence cap) e"
  shows "ev_loss e \<subseteq> losses (gs_pending (ev_gaps e) @ ev_flight e @ ev_done e) \<and>
    length (gs_pending (ev_gaps e)) \<le> gaps_capacity (ev_gaps e)"
proof -
  have "evidence_ok (fresh_evidence cap)" using assms(1) by (simp add: evidence_ok_def kept_def fresh_evidence_def)
  from evidence_reachable_ok [OF assms(2) this] show ?thesis by (auto simp: evidence_ok_def kept_def)
qed

theorem no_loss_is_forgotten_witness:
  "\<exists>e :: evidence. (GapTableRemoved, GapNoSource, 7) \<in> ev_loss e \<and> (GapTableRemoved, GapNoSource, 7) \<in> losses (gs_pending (ev_gaps e) @ ev_flight e @ ev_done e)"
proof -
  let ?gap = "\<lparr>gap_kind = GapTableRemoved, gap_source = GapNoSource, gap_from = 5, gap_to = 9, gap_count = 0, gap_has_count = False\<rparr>"
  obtain g where "Gaps_Record ?gap (Some (ev_gaps (fresh_evidence 0))) = Some g" by (simp add: Gaps_Record_def)
  from r_into_rtranclp [of evidence_step, OF evidence_step.recorded [OF this]]
  obtain e where e: "evidence_step\<^sup>*\<^sup>* (fresh_evidence 0) e" "(GapTableRemoved, GapNoSource, 7) \<in> ev_loss e"
    by (rule that) (simp add: gap_losses_def)
  have "21 \<le> gaps_capacity (ev_gaps (fresh_evidence 0))" by (simp add: fresh_evidence_def gaps_capacity_def DefaultGapCapacity_def)
  from no_loss_is_forgotten [OF this e(1)] e(2) show ?thesis by blast
qed

end
