(* ===== verification/Aggregate.thy ===== *)
theory Aggregate
  imports AgentSync Gaps
begin

text \<open>
  The aggregation of observed connections into windows, \<^verbatim>\<open>internal/agent/collect/collect.go\<close>, and
  the bounds a window closes with when the wall clock steps, \<^verbatim>\<open>closeBounds\<close> of \<^verbatim>\<open>collector.go\<close>. The
  results: a closed window holds one record per key it had room for, with the exact sums and first
  and last instants of every observation of that key, what it had no room for is counted, and a
  window never ends before it starts. Instants are readings of the wall clock; the monotonic
  reading a Go time may carry is not modelled.
\<close>

section \<open>Observations and windows\<close>

record Observation =
  ob_at :: instant
  ob_src :: addr
  ob_dst :: addr
  ob_dst_port :: "16 word"
  ob_protocol :: Protocol
  ob_decision :: PolicyDecision
  ob_rule_id :: string
  ob_connections :: "64 word"
  ob_bytes :: "64 word"
  ob_process_name :: string

record Key =
  key_src :: addr
  key_dst :: addr
  key_dst_port :: "16 word"
  key_protocol :: Protocol
  key_decision :: PolicyDecision
  key_rule_id :: string

record flow_acc =
  acc_connections :: "64 word"
  acc_bytes :: "64 word"
  acc_first :: instant
  acc_last :: instant
  acc_process :: string

record FlowRecord =
  fr_src_address :: string
  fr_dst_address :: string
  fr_dst_port :: "32 word"
  fr_protocol :: Protocol
  fr_direction :: Direction
  fr_decision :: PolicyDecision
  fr_matched_rule_id :: string
  fr_connection_count :: "64 word"
  fr_byte_count :: "64 word"
  fr_first_seen :: "instant option"
  fr_last_seen :: "instant option"
  fr_process_name :: string

record Window =
  win_start :: instant
  win_end :: instant
  win_records :: "FlowRecord list"

definition win_len :: "Window \<Rightarrow> nat" where "win_len w = length (win_records w)"

definition DefaultBufferRecords :: nat where "DefaultBufferRecords = 50000"
definition DefaultWindowKeys :: nat where "DefaultWindowKeys = DefaultBufferRecords"

section \<open>The aggregator\<close>

record Aggregator =
  ag_start :: instant
  ag_records :: "(Key, flow_acc) gomap"
  ag_max_keys :: nat
  ag_dropped :: "64 word"
  ag_first_drop :: instant

definition NewBoundedAggregator :: "instant \<Rightarrow> int \<Rightarrow> Aggregator" where
  "NewBoundedAggregator start maxKeys = \<lparr>ag_start = start, ag_records = [],
     ag_max_keys = (if maxKeys \<le> 0 then DefaultWindowKeys else nat maxKeys), ag_dropped = 0, ag_first_drop = 0\<rparr>"

definition key_of :: "Observation \<Rightarrow> Key" where
  "key_of ob = \<lparr>key_src = ob_src ob, key_dst = ob_dst ob, key_dst_port = ob_dst_port ob, key_protocol = ob_protocol ob,
     key_decision = ob_decision ob, key_rule_id = ob_rule_id ob\<rparr>"

definition fold_into :: "Observation \<Rightarrow> flow_acc \<Rightarrow> flow_acc" where
  "fold_into ob r = r\<lparr>acc_connections := acc_connections r + ob_connections ob, acc_bytes := acc_bytes r + ob_bytes ob,
     acc_first := (if ob_at ob < acc_first r then ob_at ob else acc_first r),
     acc_last := (if acc_last r < ob_at ob then ob_at ob else acc_last r),
     acc_process := (if ob_process_name ob \<noteq> [] then ob_process_name ob else acc_process r)\<rparr>"

definition Agg_Add :: "Observation \<Rightarrow> Aggregator \<Rightarrow> Aggregator" where
  "Agg_Add ob a = (case map_of (ag_records a) (key_of ob) of
     None \<Rightarrow>
       if ag_max_keys a \<le> length (ag_records a)
       then a\<lparr>ag_first_drop := (if ag_dropped a = 0 \<or> ob_at ob < ag_first_drop a then ob_at ob else ag_first_drop a),
              ag_dropped := ag_dropped a + 1\<rparr>
       else a\<lparr>ag_records := AList.update (key_of ob)
              (fold_into ob \<lparr>acc_connections = 0, acc_bytes = 0, acc_first = ob_at ob, acc_last = ob_at ob, acc_process = []\<rparr>) (ag_records a)\<rparr>
   | Some r \<Rightarrow> a\<lparr>ag_records := AList.update (key_of ob) (fold_into ob r) (ag_records a)\<rparr>)"

fun PolicyDecision_number :: "PolicyDecision \<Rightarrow> int" where
  "PolicyDecision_number POLICY_DECISION_UNSPECIFIED = 0"
| "PolicyDecision_number POLICY_DECISION_OBSERVED = 1"
| "PolicyDecision_number POLICY_DECISION_ALLOWED = 2"
| "PolicyDecision_number POLICY_DECISION_WOULD_BLOCK = 3"
| "PolicyDecision_number POLICY_DECISION_BLOCKED = 4"
| "PolicyDecision_number (POLICY_DECISION_OTHER n) = n"

text \<open>\<^verbatim>\<open>lessKey\<close> is the lexicographic order of these.\<close>

definition key_order :: "Key \<Rightarrow> addr \<times> addr \<times> 16 word \<times> int \<times> int \<times> string" where
  "key_order k = (key_src k, key_dst k, key_dst_port k, Protocol_number (key_protocol k), PolicyDecision_number (key_decision k), key_rule_id k)"

definition lessKey :: "Key \<Rightarrow> Key \<Rightarrow> bool" where
  "lessKey a b = (key_order a < key_order b)"

definition hold_within :: "bool \<Rightarrow> instant \<Rightarrow> instant \<Rightarrow> instant \<Rightarrow> instant" where
  "hold_within within start until t = (if \<not> within then t else if t < start then start else if until < t then until else t)"

definition flow_record :: "(instant \<Rightarrow> instant) \<Rightarrow> Key \<Rightarrow> flow_acc \<Rightarrow> FlowRecord" where
  "flow_record hold k r = \<lparr>fr_src_address = addr_string (key_src k), fr_dst_address = addr_string (key_dst k),
     fr_dst_port = ucast (key_dst_port k), fr_protocol = key_protocol k, fr_direction = DIRECTION_INBOUND,
     fr_decision = key_decision k, fr_matched_rule_id = key_rule_id k, fr_connection_count = acc_connections r,
     fr_byte_count = acc_bytes r, fr_first_seen = Some (hold (acc_first r)), fr_last_seen = Some (hold (acc_last r)),
     fr_process_name = acc_process r\<rparr>"

definition close_window :: "instant \<Rightarrow> instant \<Rightarrow> bool \<Rightarrow> Aggregator \<times> Gaps option \<Rightarrow> Window \<times> Aggregator \<times> Gaps option" where
  "close_window until nxt within = (\<lambda>(a, g).
     let hold = hold_within within (ag_start a) until;
         g = (if 0 < ag_dropped a then Gaps_Record \<lparr>gap_kind = GapWindowOverflow, gap_source = GapNoSource, gap_from = hold (ag_first_drop a),
                gap_to = until, gap_count = ag_dropped a, gap_has_count = True\<rparr> g else g);
         keys = sort_key key_order (map fst (ag_records a))
     in (\<lparr>win_start = ag_start a, win_end = until, win_records = map (\<lambda>k. flow_record hold k (the (map_of (ag_records a) k))) keys\<rparr>,
         a\<lparr>ag_start := nxt, ag_records := [], ag_dropped := 0\<rparr>, g))"

definition Agg_Close :: "instant \<Rightarrow> Aggregator \<times> Gaps option \<Rightarrow> Window \<times> Aggregator \<times> Gaps option" where
  "Agg_Close until = close_window until until False"

definition Agg_Cut :: "instant \<Rightarrow> instant \<Rightarrow> Aggregator \<times> Gaps option \<Rightarrow> Window \<times> Aggregator \<times> Gaps option" where
  "Agg_Cut until nxt = close_window until nxt True"

section \<open>Where a window closes\<close>

text \<open>Go's division truncates toward zero.\<close>

definition stepTolerance :: "duration \<Rightarrow> duration" where
  "stepTolerance elapsed = 1000000000 + (if elapsed < 0 then - ((- elapsed) div 2000) else elapsed div 2000)"

definition closeBounds :: "instant \<Rightarrow> instant \<Rightarrow> duration \<Rightarrow> instant \<times> instant \<times> duration" where
  "closeBounds start now elapsed = (let wall = now - start; d = wall - elapsed in
     if d < - stepTolerance elapsed then (start + elapsed, now, d)
     else if wall < 0 then (start, start, 0)
     else (now, now, 0))"

section \<open>What a window holds\<close>

definition observed :: "Key \<Rightarrow> Observation list \<Rightarrow> Observation list" where
  "observed k obs = filter (\<lambda>ob. key_of ob = k) obs"

definition sums_up :: "Observation list \<Rightarrow> flow_acc \<Rightarrow> bool" where
  "sums_up xs r = (xs \<noteq> [] \<and> acc_connections r = sum_list (map ob_connections xs) \<and> acc_bytes r = sum_list (map ob_bytes xs) \<and>
     acc_first r = Min (ob_at ` set xs) \<and> acc_last r = Max (ob_at ` set xs))"

definition held_key :: "Aggregator \<Rightarrow> Key \<Rightarrow> bool" where
  "held_key a k = (map_of (ag_records a) k \<noteq> None)"

definition agg_exact :: "Observation list \<Rightarrow> Aggregator \<Rightarrow> bool" where
  "agg_exact obs a = (distinct (map fst (ag_records a)) \<and> length (ag_records a) \<le> ag_max_keys a \<and>
     (\<forall>k r. map_of (ag_records a) k = Some r \<longrightarrow> sums_up (observed k obs) r) \<and>
     (\<forall>ob\<in>set obs. \<not> held_key a (key_of ob) \<longrightarrow> length (ag_records a) = ag_max_keys a) \<and>
     ag_dropped a = of_nat (length (filter (\<lambda>ob. \<not> held_key a (key_of ob)) obs)))"

lemma hold_within_False [simp]: "hold_within False start until = (\<lambda>t. t)"
  by (simp add: hold_within_def fun_eq_iff)

lemma ag_start_New [simp]: "ag_start (NewBoundedAggregator start maxKeys) = start"
  by (simp add: NewBoundedAggregator_def)

lemma fold_Agg_Add_fixed [simp]:
  "ag_start (fold Agg_Add xs a) = ag_start a" "ag_max_keys (fold Agg_Add xs a) = ag_max_keys a"
  by (induction xs arbitrary: a) (auto simp: Agg_Add_def split: option.split)

lemma sums_up_snoc:
  assumes "sums_up xs r"
  shows "sums_up (xs @ [ob]) (fold_into ob r)"
proof -
  have ne: "finite (ob_at ` set xs)" "ob_at ` set xs \<noteq> {}" using assms by (auto simp: sums_up_def)
  have "ob_at ` set (xs @ [ob]) = insert (ob_at ob) (ob_at ` set xs)" by simp
  then have m: "Min (ob_at ` set (xs @ [ob])) = min (ob_at ob) (Min (ob_at ` set xs))"
    "Max (ob_at ` set (xs @ [ob])) = max (ob_at ob) (Max (ob_at ` set xs))"
    by (simp_all only: Min_insert [OF ne] Max_insert [OF ne])
  have "acc_first (fold_into ob r) = min (ob_at ob) (acc_first r)" "acc_last (fold_into ob r) = max (ob_at ob) (acc_last r)"
    by (auto simp: fold_into_def)
  then show ?thesis using assms unfolding sums_up_def m by (simp add: fold_into_def)
qed

lemma sums_up_first:
  "sums_up [ob] (fold_into ob \<lparr>acc_connections = 0, acc_bytes = 0, acc_first = ob_at ob, acc_last = ob_at ob, acc_process = []\<rparr>)"
  by (simp add: sums_up_def fold_into_def)

lemma observed_snoc [simp]: "observed k (obs @ [ob]) = observed k obs @ (if key_of ob = k then [ob] else [])"
  by (simp add: observed_def)

lemma length_update_present: "map_of xs k \<noteq> None \<Longrightarrow> length (AList.update k v xs) = length xs"
  by (induction xs) auto

lemma length_update_absent: "map_of xs k = None \<Longrightarrow> length (AList.update k v xs) = Suc (length xs)"
  by (induction xs) (auto split: if_split_asm)

text \<open>Three cases: no room, a key that is held, a new key.\<close>

lemma add_dropped:
  assumes "\<not> held_key a (key_of ob)" and "ag_max_keys a \<le> length (ag_records a)"
  shows "ag_records (Agg_Add ob a) = ag_records a" "ag_max_keys (Agg_Add ob a) = ag_max_keys a"
    "ag_dropped (Agg_Add ob a) = ag_dropped a + 1" "held_key (Agg_Add ob a) = held_key a"
  using assms by (simp_all add: Agg_Add_def held_key_def fun_eq_iff)

lemma add_folded:
  assumes "map_of (ag_records a) (key_of ob) = Some r"
  shows "ag_records (Agg_Add ob a) = AList.update (key_of ob) (fold_into ob r) (ag_records a)" "ag_max_keys (Agg_Add ob a) = ag_max_keys a"
    "ag_dropped (Agg_Add ob a) = ag_dropped a" "held_key (Agg_Add ob a) = held_key a"
    "length (ag_records (Agg_Add ob a)) = length (ag_records a)"
  using assms length_update_present [of "ag_records a" "key_of ob"] by (auto simp: Agg_Add_def held_key_def fun_eq_iff update_conv')

lemma add_new:
  assumes "\<not> held_key a (key_of ob)" and "\<not> ag_max_keys a \<le> length (ag_records a)"
  shows "map_of (ag_records (Agg_Add ob a)) = (map_of (ag_records a))(key_of ob \<mapsto>
      fold_into ob \<lparr>acc_connections = 0, acc_bytes = 0, acc_first = ob_at ob, acc_last = ob_at ob, acc_process = []\<rparr>)"
    "ag_max_keys (Agg_Add ob a) = ag_max_keys a" "ag_dropped (Agg_Add ob a) = ag_dropped a"
    "held_key (Agg_Add ob a) = (\<lambda>k. held_key a k \<or> k = key_of ob)" "length (ag_records (Agg_Add ob a)) = Suc (length (ag_records a))"
  using assms length_update_absent [of "ag_records a" "key_of ob"] by (auto simp: Agg_Add_def held_key_def fun_eq_iff update_conv')

lemma distinct_add: "distinct (map fst (ag_records a)) \<Longrightarrow> distinct (map fst (ag_records (Agg_Add ob a)))"
  by (auto simp: Agg_Add_def distinct_update split: option.split)

lemma agg_exact_dropped:
  assumes "agg_exact obs a" and "\<not> held_key a (key_of ob)" and "ag_max_keys a \<le> length (ag_records a)"
  shows "agg_exact (obs @ [ob]) (Agg_Add ob a)"
proof -
  have "observed k (obs @ [ob]) = observed k obs" if "map_of (ag_records a) k = Some r" for k r
    using assms(2) that by (auto simp: held_key_def)
  with assms show ?thesis unfolding agg_exact_def add_dropped [OF assms(2,3)] by (auto simp del: observed_snoc)
qed

lemma agg_exact_folded:
  assumes "agg_exact obs a" and "map_of (ag_records a) (key_of ob) = Some r"
  shows "agg_exact (obs @ [ob]) (Agg_Add ob a)"
proof -
  have "map_of (ag_records (Agg_Add ob a)) k = Some r' \<longrightarrow> sums_up (observed k (obs @ [ob])) r'" for k r'
    using assms sums_up_snoc unfolding add_folded(1) [OF assms(2)] by (auto simp: agg_exact_def update_conv')
  moreover have "held_key a (key_of ob)" using assms(2) by (simp add: held_key_def)
  ultimately show ?thesis using assms(1) distinct_add unfolding agg_exact_def add_folded(2-5) [OF assms(2)] by simp
qed

lemma agg_exact_new:
  assumes "agg_exact obs a" and "\<not> held_key a (key_of ob)" and "\<not> ag_max_keys a \<le> length (ag_records a)"
  shows "agg_exact (obs @ [ob]) (Agg_Add ob a)"
proof -
  have held: "held_key a (key_of ob')" if "ob' \<in> set obs" for ob' using assms that unfolding agg_exact_def by fastforce
  then have none: "observed (key_of ob) obs = []" using assms(2) by (simp add: observed_def filter_empty_conv) metis
  have "map_of (ag_records (Agg_Add ob a)) k = Some r \<longrightarrow> sums_up (observed k (obs @ [ob])) r" for k r
    using assms(1) none sums_up_first unfolding add_new(1) [OF assms(2,3)] by (auto simp: agg_exact_def)
  moreover have "filter (\<lambda>ob'. \<not> held_key a (key_of ob')) obs = []" using held by (simp add: filter_empty_conv)
  moreover have "filter (\<lambda>ob'. \<not> (held_key a (key_of ob') \<or> key_of ob' = key_of ob)) (obs @ [ob]) = []" using held by (simp add: filter_empty_conv)
  ultimately show ?thesis using assms(1,3) held distinct_add unfolding agg_exact_def add_new(2-5) [OF assms(2,3)] by auto
qed

lemma agg_exact_add: "agg_exact obs a \<Longrightarrow> agg_exact (obs @ [ob]) (Agg_Add ob a)"
  using agg_exact_dropped agg_exact_folded agg_exact_new unfolding held_key_def by (cases "map_of (ag_records a) (key_of ob)") blast+

lemma agg_exact_fold: "agg_exact obs (fold Agg_Add obs (NewBoundedAggregator start maxKeys))"
proof (induction obs rule: rev_induct)
  case Nil
  show ?case by (simp add: agg_exact_def NewBoundedAggregator_def)
next
  case (snoc ob obs)
  then show ?case by (simp add: agg_exact_add)
qed

text \<open>With fewer than 2^64 observations the counter of drops is exact, and the first drop is no later than any.\<close>

lemma first_drop_le:
  "length obs < 2 ^ 64 \<Longrightarrow> \<forall>ob\<in>set obs. \<not> held_key (fold Agg_Add obs (NewBoundedAggregator start maxKeys)) (key_of ob) \<longrightarrow>
     ag_first_drop (fold Agg_Add obs (NewBoundedAggregator start maxKeys)) \<le> ob_at ob"
proof (induction obs rule: rev_induct)
  case (snoc ob obs)
  let ?a = "fold Agg_Add obs (NewBoundedAggregator start maxKeys)"
  have ex: "agg_exact obs ?a" by (rule agg_exact_fold)
  show ?case
  proof (cases "held_key ?a (key_of ob)")
    case True
    then obtain r where r: "map_of (ag_records ?a) (key_of ob) = Some r" by (auto simp: held_key_def)
    have "ag_first_drop (Agg_Add ob ?a) = ag_first_drop ?a" using r by (simp add: Agg_Add_def)
    then show ?thesis using snoc True add_folded(4) [OF r] by simp
  next
    case new: False
    show ?thesis
    proof (cases "ag_max_keys ?a \<le> length (ag_records ?a)")
      case True
      have "ag_dropped ?a = 0 \<longleftrightarrow> (\<forall>ob\<in>set obs. held_key ?a (key_of ob))"
      proof -
        have "length (filter (\<lambda>ob. \<not> held_key ?a (key_of ob)) obs) < 2 ^ 64"
          by (rule le_less_trans [OF length_filter_le]) (use snoc.prems in simp)
        then show ?thesis using ex by (auto simp: agg_exact_def word_of_nat_eq_0_iff nat_dvd_not_less filter_empty_conv)
      qed
      moreover have "ag_first_drop (Agg_Add ob ?a) = (if ag_dropped ?a = 0 \<or> ob_at ob < ag_first_drop ?a then ob_at ob else ag_first_drop ?a)"
        using new True by (simp add: Agg_Add_def held_key_def)
      moreover have "\<forall>ob\<in>set obs. \<not> held_key ?a (key_of ob) \<longrightarrow> ag_first_drop ?a \<le> ob_at ob" using snoc by simp
      ultimately show ?thesis using add_dropped(4) [OF new True] by auto
    next
      case False
      have "held_key ?a (key_of ob')" if "ob' \<in> set obs" for ob' using ex False that unfolding agg_exact_def by fastforce
      then show ?thesis using add_new(4) [OF new False] by simp
    qed
  qed
qed simp

section \<open>Properties\<close>

text \<open>\<^bold>\<open>C36\<close>: a closed window is exact: one record per key it holds, in the order of the keys, at most as
  many as its bound, each with the sums of the connections and bytes of every observation of its
  key and their first and last instants; keys are refused only when the window is full, and what
  was refused is recorded as one overflow gap that counts each refused observation and starts no
  later than the first of them.\<close>

theorem closed_window_exact:
  assumes "length obs < 2 ^ 64"
    and "close_window until nxt False (fold Agg_Add obs (NewBoundedAggregator start maxKeys), g) = (w, a', g')"
  shows "\<exists>ks acc refused. distinct ks \<and> sorted (map key_order ks) \<and> length ks \<le> ag_max_keys (NewBoundedAggregator start maxKeys) \<and>
    w = \<lparr>win_start = start, win_end = until, win_records = map (\<lambda>k. flow_record (\<lambda>t. t) k (acc k)) ks\<rparr> \<and>
    (\<forall>k\<in>set ks. sums_up (observed k obs) (acc k)) \<and>
    refused = filter (\<lambda>ob. key_of ob \<notin> set ks) obs \<and>
    (refused \<noteq> [] \<longrightarrow> length ks = ag_max_keys (NewBoundedAggregator start maxKeys)) \<and>
    (if refused = [] then g' = g
     else \<exists>from. (\<forall>ob\<in>set refused. from \<le> ob_at ob) \<and>
       g' = Gaps_Record \<lparr>gap_kind = GapWindowOverflow, gap_source = GapNoSource, gap_from = from, gap_to = until,
         gap_count = of_nat (length refused), gap_has_count = True\<rparr> g)"
proof -
  let ?a = "fold Agg_Add obs (NewBoundedAggregator start maxKeys)"
  let ?ks = "sort_key key_order (map fst (ag_records ?a))"
  let ?acc = "\<lambda>k. the (map_of (ag_records ?a) k)"
  let ?refused = "filter (\<lambda>ob. key_of ob \<notin> set ?ks) obs"
  have ex: "agg_exact obs ?a" by (rule agg_exact_fold)
  have ks: "k \<in> set ?ks \<longleftrightarrow> held_key ?a k" for k
    unfolding held_key_def map_of_eq_None_iff by simp
  have refused: "?refused = filter (\<lambda>ob. \<not> held_key ?a (key_of ob)) obs" by (simp only: ks)
  have d: "ag_dropped ?a = of_nat (length ?refused)" using ex by (simp only: refused agg_exact_def)
  have "length ?refused < 2 ^ 64" using assms(1) length_filter_le [of "\<lambda>ob. key_of ob \<notin> set ?ks" obs] by linarith
  then have z: "ag_dropped ?a = 0 \<longleftrightarrow> ?refused = []"
    unfolding d by (auto simp: word_of_nat_eq_0_iff nat_dvd_not_less)
  have "\<forall>k\<in>set ?ks. sums_up (observed k obs) (?acc k)" using ex ks by (auto simp: agg_exact_def held_key_def)
  moreover have "w = \<lparr>win_start = start, win_end = until, win_records = map (\<lambda>k. flow_record (\<lambda>t. t) k (?acc k)) ?ks\<rparr>"
    using assms(2) by (simp add: close_window_def Let_def)
  moreover have "if ?refused = [] then g' = g
     else \<exists>from. (\<forall>ob\<in>set ?refused. from \<le> ob_at ob) \<and>
       g' = Gaps_Record \<lparr>gap_kind = GapWindowOverflow, gap_source = GapNoSource, gap_from = from, gap_to = until,
         gap_count = of_nat (length ?refused), gap_has_count = True\<rparr> g"
  proof (cases "?refused = []")
    case True
    with z assms(2) show ?thesis by (simp add: close_window_def Let_def)
  next
    case False
    then have "0 < ag_dropped ?a" using z by (simp add: word_gt_0)
    with assms(2) have "g' = Gaps_Record \<lparr>gap_kind = GapWindowOverflow, gap_source = GapNoSource, gap_from = ag_first_drop ?a, gap_to = until,
         gap_count = ag_dropped ?a, gap_has_count = True\<rparr> g" by (simp add: close_window_def Let_def hold_within_def)
    moreover have "\<forall>ob\<in>set ?refused. ag_first_drop ?a \<le> ob_at ob" using first_drop_le [OF assms(1)] unfolding refused by simp
    ultimately show ?thesis using False d by auto
  qed
  moreover have "distinct ?ks" "length ?ks \<le> ag_max_keys (NewBoundedAggregator start maxKeys)"
    "?refused \<noteq> [] \<longrightarrow> length ?ks = ag_max_keys (NewBoundedAggregator start maxKeys)"
    using ex unfolding refused by (auto simp: agg_exact_def filter_empty_conv)
  ultimately show ?thesis by (intro exI [of _ ?ks] exI [of _ ?acc] exI [of _ ?refused]) (simp add: sorted_sort_key)
qed

definition demo_observation :: "instant \<Rightarrow> 16 word \<Rightarrow> Observation" where
  "demo_observation t port = \<lparr>ob_at = t, ob_src = V4 1, ob_dst = V4 2, ob_dst_port = port, ob_protocol = PROTOCOL_TCP,
     ob_decision = POLICY_DECISION_OBSERVED, ob_rule_id = [], ob_connections = 1, ob_bytes = 0, ob_process_name = []\<rparr>"

theorem closed_window_exact_witness:
  "\<exists>w g'. close_window 9 9 False (fold Agg_Add [demo_observation 1 443, demo_observation 2 80] (NewBoundedAggregator 0 1), None) = (w, g') \<and> win_len w \<le> 1"
proof -
  obtain w a' g' where w: "close_window 9 9 False (fold Agg_Add [demo_observation 1 443, demo_observation 2 80] (NewBoundedAggregator 0 1), None) = (w, a', g')"
    by (metis prod_cases3)
  from closed_window_exact [OF _ w] have "win_len w \<le> 1" by (auto simp: win_len_def NewBoundedAggregator_def)
  with w show ?thesis by blast
qed

text \<open>A window never ends before it starts, and the instants a cut window reports lie within it:
  without a step back of the wall clock it ends at the reading and the next one starts there; after
  one it ends where its own clock reads and the next one starts on the stepped clock.\<close>

lemma closeBounds_ordered:
  assumes "0 \<le> elapsed" and "closeBounds start now elapsed = (until, nxt, step)"
  shows "start \<le> until \<and> (step = 0 \<longrightarrow> nxt = until \<and> until = max start now) \<and>
    (step \<noteq> 0 \<longrightarrow> until = start + elapsed \<and> nxt = now \<and> now < until - 1000000000) \<and>
    start \<le> hold_within True start until t \<and> hold_within True start until t \<le> until"
  using assms by (auto simp: closeBounds_def stepTolerance_def hold_within_def Let_def split: if_split_asm)

end
