(* ===== verification/FlowStore.thy ===== *)
theory FlowStore
  imports Aggregate
begin

text \<open>
  The store of flow evidence, \<^verbatim>\<open>internal/flowstore\<close>: the window rows, the running total per flow key
  and the evidence gaps, with the transaction that writes a reported window (\<^verbatim>\<open>postgres.go\<close>). The
  result: after any sequence of writes, failed ones included, each total is the sum, the earliest
  and the latest of the rows of its key, and counts the windows that had one. Reads and
  retention are in \<open>FlowQuery\<close>.
\<close>

section \<open>Rows\<close>

datatype FlowPeerKind = FlowPeerUnknown | FlowPeerWorkload | FlowPeerAddressGroup

record FlowPeer =
  fp_kind :: FlowPeerKind
  fp_key :: string
  fp_labels :: "(string, string) gomap"

record StoredRecord =
  sr_peer :: FlowPeer
  sr_src_address :: addr
  sr_dst_address :: addr
  sr_dst_port :: "16 word"
  sr_protocol :: Protocol
  sr_direction :: Direction
  sr_decision :: PolicyDecision
  sr_matched_rule_id :: string
  sr_connection_count :: "64 word"
  sr_byte_count :: "64 word"
  sr_first_seen :: instant
  sr_last_seen :: instant
  sr_process_name :: string

record StoredGap =
  sg_kind :: EvidenceGapKind
  sg_source :: EvidenceSource
  sg_from :: instant
  sg_to :: instant
  sg_count :: "64 word option"

record StoredWindow =
  sw_workload :: uuid
  sw_start :: instant
  sw_end :: instant
  sw_records :: "StoredRecord list"
  sw_gaps :: "StoredGap list"

record TotalsKey =
  tk_peer_kind :: FlowPeerKind
  tk_peer_key :: string
  tk_dst_port :: "16 word"
  tk_protocol :: Protocol
  tk_direction :: Direction
  tk_decision :: PolicyDecision

definition record_key :: "StoredRecord \<Rightarrow> TotalsKey" where
  "record_key r = \<lparr>tk_peer_kind = fp_kind (sr_peer r), tk_peer_key = fp_key (sr_peer r), tk_dst_port = sr_dst_port r,
     tk_protocol = sr_protocol r, tk_direction = sr_direction r, tk_decision = sr_decision r\<rparr>"

section \<open>One record per key\<close>

definition merge_record :: "StoredRecord \<Rightarrow> StoredRecord \<Rightarrow> StoredRecord" where
  "merge_record m r = (let m = m\<lparr>sr_connection_count := sr_connection_count m + sr_connection_count r, sr_byte_count := sr_byte_count m + sr_byte_count r,
        sr_first_seen := (if sr_first_seen r < sr_first_seen m then sr_first_seen r else sr_first_seen m)\<rparr>
     in if sr_last_seen r < sr_last_seen m then m
        else m\<lparr>sr_last_seen := sr_last_seen r, sr_peer := sr_peer r, sr_matched_rule_id := sr_matched_rule_id r,
          sr_src_address := sr_src_address r, sr_dst_address := sr_dst_address r, sr_process_name := sr_process_name r\<rparr>)"

fun fold_total :: "StoredRecord \<Rightarrow> StoredRecord list \<Rightarrow> StoredRecord list" where
  "fold_total r [] = [r]"
| "fold_total r (m # ms) = (if record_key m = record_key r then merge_record m r # ms else m # fold_total r ms)"

fun FlowPeerKind_number :: "FlowPeerKind \<Rightarrow> int" where
  "FlowPeerKind_number FlowPeerUnknown = 0"
| "FlowPeerKind_number FlowPeerWorkload = 1"
| "FlowPeerKind_number FlowPeerAddressGroup = 2"

fun Direction_number :: "Direction \<Rightarrow> int" where
  "Direction_number DIRECTION_UNSPECIFIED = 0"
| "Direction_number DIRECTION_INBOUND = 1"
| "Direction_number DIRECTION_OUTBOUND = 2"
| "Direction_number (DIRECTION_OTHER n) = n"

definition totals_order :: "TotalsKey \<Rightarrow> int \<times> string \<times> 16 word \<times> int \<times> int \<times> int" where
  "totals_order k = (FlowPeerKind_number (tk_peer_kind k), tk_peer_key k, tk_dst_port k, Protocol_number (tk_protocol k),
     Direction_number (tk_direction k), PolicyDecision_number (tk_decision k))"

definition AggregateTotals :: "StoredRecord list \<Rightarrow> StoredRecord list" where
  "AggregateTotals rs = sort_key (\<lambda>r. totals_order (record_key r)) (fold fold_total rs [])"

section \<open>The tables and the write\<close>

record Total =
  tot_labels :: "(string, string) gomap"
  tot_matched_rule_id :: string
  tot_first_seen :: instant
  tot_last_seen :: instant
  tot_connection_count :: "64 word"
  tot_byte_count :: "64 word"
  tot_window_count :: nat

record FlowTables =
  ft_windows :: "StoredWindow list"
  ft_totals :: "(uuid \<times> TotalsKey, Total) gomap"
  ft_gaps :: "(uuid \<times> StoredGap) list"

text \<open>\<^verbatim>\<open>UpsertFlowTotal\<close>.\<close>

definition upsert_total :: "uuid \<Rightarrow> StoredRecord \<Rightarrow> (uuid \<times> TotalsKey, Total) gomap \<Rightarrow> (uuid \<times> TotalsKey, Total) gomap" where
  "upsert_total k r ts = AList.update (k, record_key r) (case map_of ts (k, record_key r) of
     None \<Rightarrow> \<lparr>tot_labels = fp_labels (sr_peer r), tot_matched_rule_id = sr_matched_rule_id r, tot_first_seen = sr_first_seen r,
       tot_last_seen = sr_last_seen r, tot_connection_count = sr_connection_count r, tot_byte_count = sr_byte_count r, tot_window_count = 1\<rparr>
   | Some t \<Rightarrow> \<lparr>tot_labels = fp_labels (sr_peer r), tot_matched_rule_id = sr_matched_rule_id r,
       tot_first_seen = min (tot_first_seen t) (sr_first_seen r), tot_last_seen = max (tot_last_seen t) (sr_last_seen r),
       tot_connection_count = tot_connection_count t + sr_connection_count r, tot_byte_count = tot_byte_count t + sr_byte_count r,
       tot_window_count = tot_window_count t + 1\<rparr>) ts"

text \<open>\<^verbatim>\<open>InsertFlowGap\<close>: a gap of the same workload, kind, source and bounds is kept as it is.\<close>

definition same_gap :: "StoredGap \<Rightarrow> StoredGap \<Rightarrow> bool" where
  "same_gap g h = (sg_kind g = sg_kind h \<and> sg_source g = sg_source h \<and> sg_from g = sg_from h \<and> sg_to g = sg_to h)"

definition insert_gap :: "uuid \<Rightarrow> StoredGap \<Rightarrow> (uuid \<times> StoredGap) list \<Rightarrow> (uuid \<times> StoredGap) list" where
  "insert_gap k g gs = (if list_ex (\<lambda>(k', h). k' = k \<and> same_gap h g) gs then gs else gs @ [(k, g)])"

definition writeGaps :: "bool \<Rightarrow> uuid \<Rightarrow> StoredGap list \<Rightarrow> FlowTables \<Rightarrow> (unit, FlowTables) result" where
  "writeGaps ok k gaps ft = (if gaps = [] then Inr ft else if \<not> ok then Inl () else Inr (ft\<lparr>ft_gaps := fold (insert_gap k) gaps (ft_gaps ft)\<rparr>))"

text \<open>The counters are \<^verbatim>\<open>bigint\<close> columns: an upsert whose sum leaves the signed 64-bit range is an error
  and fails the transaction. The records of one write have distinct keys, so each upsert meets the
  total the write started with.\<close>

definition bigint_fits :: "64 word \<Rightarrow> 64 word \<Rightarrow> bool" where
  "bigint_fits a b = (- (2 ^ 63) \<le> sint a + sint b \<and> sint a + sint b < 2 ^ 63)"

definition upsert_fits :: "uuid \<Rightarrow> (uuid \<times> TotalsKey, Total) gomap \<Rightarrow> StoredRecord \<Rightarrow> bool" where
  "upsert_fits k ts r = (case map_of ts (k, record_key r) of None \<Rightarrow> True
     | Some t \<Rightarrow> bigint_fits (tot_connection_count t) (sr_connection_count r) \<and> bigint_fits (tot_byte_count t) (sr_byte_count r))"

text \<open>\<open>ok\<close> says that the connection, every other statement and the commit succeed.\<close>

definition WriteWindow :: "bool \<Rightarrow> StoredWindow \<Rightarrow> FlowTables \<Rightarrow> (unit, nat \<times> FlowTables) result" where
  "WriteWindow ok w ft = (if sw_records w = [] \<and> sw_gaps w = [] then Inr (0, ft)
     else if \<not> ok then Inl ()
     else bind_result (writeGaps ok (sw_workload w) (sw_gaps w) ft) (\<lambda>ft.
       if sw_records w = [] then Inr (0, ft)
       else if \<not> list_all (upsert_fits (sw_workload w) (ft_totals ft)) (AggregateTotals (sw_records w)) then Inl ()
       else Inr (length (sw_records w), ft\<lparr>ft_windows := ft_windows ft @ [w],
         ft_totals := fold (upsert_total (sw_workload w)) (AggregateTotals (sw_records w)) (ft_totals ft)\<rparr>)))"

section \<open>Sums of rows\<close>

text \<open>What a list of records of one key adds up to.\<close>

definition adds_up :: "StoredRecord list \<Rightarrow> 64 word \<Rightarrow> 64 word \<Rightarrow> instant \<Rightarrow> instant \<Rightarrow> bool" where
  "adds_up rs c b f l = (rs \<noteq> [] \<and> c = sum_list (map sr_connection_count rs) \<and> b = sum_list (map sr_byte_count rs) \<and>
     f = Min (sr_first_seen ` set rs) \<and> l = Max (sr_last_seen ` set rs))"

lemma adds_up_single: "adds_up [r] (sr_connection_count r) (sr_byte_count r) (sr_first_seen r) (sr_last_seen r)"
  by (simp add: adds_up_def)

lemma adds_up_append:
  assumes "adds_up rs c b f l" and "adds_up rs' c' b' f' l'"
  shows "adds_up (rs @ rs') (c + c') (b + b') (min f f') (max l l')"
  using assms by (auto simp: adds_up_def image_Un Min_Un Max_Un)

definition with_key :: "TotalsKey \<Rightarrow> StoredRecord list \<Rightarrow> StoredRecord list" where
  "with_key k rs = filter (\<lambda>r. record_key r = k) rs"

definition record_adds_up :: "StoredRecord list \<Rightarrow> StoredRecord \<Rightarrow> bool" where
  "record_adds_up rs m = adds_up rs (sr_connection_count m) (sr_byte_count m) (sr_first_seen m) (sr_last_seen m)"

lemma record_key_merge [simp]: "record_key m = record_key r \<Longrightarrow> record_key (merge_record m r) = record_key r"
  by (auto simp: merge_record_def record_key_def Let_def)

lemma merge_adds_up: "record_adds_up rs m \<Longrightarrow> record_adds_up (rs @ [r]) (merge_record m r)"
proof -
  assume "record_adds_up rs m"
  then have "adds_up (rs @ [r]) (sr_connection_count m + sr_connection_count r) (sr_byte_count m + sr_byte_count r)
      (min (sr_first_seen m) (sr_first_seen r)) (max (sr_last_seen m) (sr_last_seen r))"
    using adds_up_append [OF _ adds_up_single] by (simp add: record_adds_up_def)
  then show ?thesis by (auto simp: record_adds_up_def merge_record_def Let_def min_def max_def split: if_split_asm)
qed

text \<open>One record per key of \<open>rs\<close>, each adding up what \<open>rs\<close> has of it.\<close>

definition aggregates :: "StoredRecord list \<Rightarrow> StoredRecord list \<Rightarrow> bool" where
  "aggregates rs ms = (distinct (map record_key ms) \<and> record_key ` set ms = record_key ` set rs \<and>
     (\<forall>m\<in>set ms. record_adds_up (with_key (record_key m) rs) m))"

lemma fold_total_keys: "map record_key (fold_total r ms) = (if record_key r \<in> record_key ` set ms then map record_key ms else map record_key ms @ [record_key r])"
  by (induction ms) auto

lemma fold_total_in:
  "m \<in> set (fold_total r ms) \<Longrightarrow> distinct (map record_key ms) \<Longrightarrow>
     (m \<in> set ms \<and> record_key m \<noteq> record_key r) \<or> (m = r \<and> record_key r \<notin> record_key ` set ms) \<or>
     (\<exists>m'\<in>set ms. record_key m' = record_key r \<and> m = merge_record m' r)"
proof (induction ms)
  case (Cons a ms)
  then show ?case by (auto split: if_split_asm) (metis image_eqI)+
qed simp

lemma aggregates_snoc:
  assumes "aggregates rs ms"
  shows "aggregates (rs @ [r]) (fold_total r ms)"
proof -
  have keys: "distinct (map record_key ms)" "record_key ` set ms = record_key ` set rs" using assms by (simp_all add: aggregates_def)
  have "record_adds_up (with_key (record_key m) (rs @ [r])) m" if m: "m \<in> set (fold_total r ms)" for m
    using fold_total_in [OF m keys(1)]
  proof (elim disjE conjE bexE)
    assume "m \<in> set ms" "record_key m \<noteq> record_key r"
    then show ?thesis using assms by (auto simp: aggregates_def with_key_def)
  next
    assume "m = r" "record_key r \<notin> record_key ` set ms"
    then have "with_key (record_key m) (rs @ [r]) = [r]" using keys(2) by (auto simp: with_key_def filter_empty_conv) (metis image_eqI)
    then show ?thesis using adds_up_single \<open>m = r\<close> by (simp add: record_adds_up_def)
  next
    fix m' assume m': "m' \<in> set ms" "record_key m' = record_key r" "m = merge_record m' r"
    then have "record_adds_up (with_key (record_key r) rs) m'" using assms by (auto simp: aggregates_def)
    from merge_adds_up [OF this] m' show ?thesis by (simp add: with_key_def)
  qed
  moreover have "distinct (map record_key (fold_total r ms))" using keys(1) by (auto simp: fold_total_keys)
  moreover have "record_key ` set (fold_total r ms) = record_key ` set (rs @ [r])"
    using arg_cong [OF fold_total_keys [of r ms], of set] keys(2) by (auto split: if_split_asm)
  ultimately show ?thesis by (simp add: aggregates_def)
qed

lemma AggregateTotals_aggregates: "aggregates rs (AggregateTotals rs)"
proof -
  have "aggregates rs (fold fold_total rs [])"
    by (induction rs rule: rev_induct) (simp_all add: aggregates_snoc, simp add: aggregates_def)
  moreover have "distinct (map record_key (sort_key f ms)) = distinct (map record_key ms)" for f :: "StoredRecord \<Rightarrow> int \<times> string \<times> 16 word \<times> int \<times> int \<times> int" and ms
    by (metis distinct_map distinct_sort set_sort)
  ultimately show ?thesis by (simp add: aggregates_def AggregateTotals_def)
qed

section \<open>Totals are the sums of the rows\<close>

definition rows_of :: "uuid \<Rightarrow> TotalsKey \<Rightarrow> StoredWindow list \<Rightarrow> StoredRecord list" where
  "rows_of k key ws = concat (map (\<lambda>w. if sw_workload w = k then with_key key (sw_records w) else []) ws)"

definition windows_of :: "uuid \<Rightarrow> TotalsKey \<Rightarrow> StoredWindow list \<Rightarrow> nat" where
  "windows_of k key ws = length (filter (\<lambda>w. sw_workload w = k \<and> with_key key (sw_records w) \<noteq> []) ws)"

definition total_of :: "(uuid \<times> TotalsKey, Total) gomap \<Rightarrow> uuid \<Rightarrow> TotalsKey \<Rightarrow> StoredRecord list \<Rightarrow> nat \<Rightarrow> bool" where
  "total_of ts k key rows n = (case map_of ts (k, key) of
     None \<Rightarrow> rows = [] \<and> n = 0
   | Some t \<Rightarrow> adds_up rows (tot_connection_count t) (tot_byte_count t) (tot_first_seen t) (tot_last_seen t) \<and> tot_window_count t = n)"

lemma upsert_other: "(k', key) \<noteq> (k, record_key r) \<Longrightarrow> map_of (upsert_total k r ts) (k', key) = map_of ts (k', key)"
  unfolding upsert_total_def update_conv' by (rule fun_upd_other)

lemma upserts_other: "k' \<noteq> k \<or> key \<notin> record_key ` set ms \<Longrightarrow> map_of (fold (upsert_total k) ms ts) (k', key) = map_of ts (k', key)"
  by (induction ms arbitrary: ts) (auto simp: upsert_other)

lemma upsert_total_of:
  assumes "total_of ts k key rows n" and "record_key m = key" and "record_adds_up rs m"
  shows "total_of (upsert_total k m ts) k key (rows @ rs) (n + 1)"
proof (cases "map_of ts (k, key)")
  case None
  then show ?thesis using assms by (simp add: total_of_def upsert_total_def update_conv' record_adds_up_def)
next
  case (Some t)
  then show ?thesis using assms adds_up_append by (simp add: total_of_def upsert_total_def update_conv' record_adds_up_def)
qed

lemma upserts_total_of:
  assumes "distinct (map record_key ms)" and "total_of ts k key rows n" and "m \<in> set ms" and "record_key m = key" and "record_adds_up rs m"
  shows "total_of (fold (upsert_total k) ms ts) k key (rows @ rs) (n + 1)"
  using assms
proof (induction ms arbitrary: ts)
  case (Cons a ms)
  show ?case
  proof (cases "a = m")
    case True
    with Cons.prems have "key \<notin> record_key ` set ms" by auto
    then have "map_of (fold (upsert_total k) ms (upsert_total k m ts)) (k, key) = map_of (upsert_total k m ts) (k, key)" by (simp add: upserts_other)
    then show ?thesis using upsert_total_of [OF Cons.prems(2,4,5)] True by (simp add: total_of_def)
  next
    case False
    with Cons.prems have "m \<in> set ms" "key \<noteq> record_key a" by (auto simp: image_iff)
    moreover from this have "total_of (upsert_total k a ts) k key rows n" using Cons.prems(2) by (simp add: total_of_def upsert_other)
    ultimately show ?thesis using Cons by simp
  qed
qed simp

definition totals_exact :: "FlowTables \<Rightarrow> bool" where
  "totals_exact ft = (\<forall>k key. total_of (ft_totals ft) k key (rows_of k key (ft_windows ft)) (windows_of k key (ft_windows ft)))"

lemma with_key_Nil: "with_key key rs = [] \<longleftrightarrow> key \<notin> record_key ` set rs"
  by (auto simp: with_key_def filter_empty_conv)

lemma WriteWindow_exact:
  assumes "WriteWindow ok w ft = Inr (n, ft')" and "totals_exact ft"
  shows "totals_exact ft'"
proof (cases "sw_records w = []")
  case True
  then show ?thesis using assms by (auto simp: WriteWindow_def writeGaps_def totals_exact_def split: if_split_asm)
next
  case False
  let ?ms = "AggregateTotals (sw_records w)"
  have ft': "ft_windows ft' = ft_windows ft @ [w]" "ft_totals ft' = fold (upsert_total (sw_workload w)) ?ms (ft_totals ft)"
    using assms(1) False by (auto simp: WriteWindow_def writeGaps_def split: if_split_asm)
  have agg: "distinct (map record_key ?ms)" "record_key ` set ?ms = record_key ` set (sw_records w)"
    "\<forall>m\<in>set ?ms. record_adds_up (with_key (record_key m) (sw_records w)) m"
    using AggregateTotals_aggregates [of "sw_records w"] by (simp_all add: aggregates_def)
  show ?thesis unfolding totals_exact_def ft'
  proof (intro allI)
    fix k key
    have t: "total_of (ft_totals ft) k key (rows_of k key (ft_windows ft)) (windows_of k key (ft_windows ft))"
      using assms(2) by (simp add: totals_exact_def)
    show "total_of (fold (upsert_total (sw_workload w)) ?ms (ft_totals ft)) k key (rows_of k key (ft_windows ft @ [w])) (windows_of k key (ft_windows ft @ [w]))"
    proof (cases "k = sw_workload w \<and> key \<in> record_key ` set ?ms")
      case True
      then obtain m where m: "m \<in> set ?ms" "record_key m = key" by auto
      then have "record_adds_up (with_key key (sw_records w)) m" using agg(3) by auto
      from upserts_total_of [OF agg(1) t m this] True agg(2) show ?thesis by (simp add: rows_of_def windows_of_def with_key_Nil)
    next
      case False
      then have "map_of (fold (upsert_total (sw_workload w)) ?ms (ft_totals ft)) (k, key) = map_of (ft_totals ft) (k, key)"
        using upserts_other [of k "sw_workload w" key ?ms] by blast
      moreover have "rows_of k key (ft_windows ft @ [w]) = rows_of k key (ft_windows ft)" "windows_of k key (ft_windows ft @ [w]) = windows_of k key (ft_windows ft)"
        using False agg(2) by (auto simp: rows_of_def windows_of_def with_key_Nil)
      ultimately show ?thesis using t by (simp add: total_of_def)
    qed
  qed
qed

text \<open>A sequence of writes; one that fails leaves the tables as they were.\<close>

definition write_all :: "(bool \<times> StoredWindow) list \<Rightarrow> FlowTables \<Rightarrow> FlowTables" where
  "write_all = fold (\<lambda>(ok, w) ft. case WriteWindow ok w ft of Inl _ \<Rightarrow> ft | Inr (n, ft') \<Rightarrow> ft')"

lemma write_all_exact: "totals_exact ft \<Longrightarrow> totals_exact (write_all ws ft)"
proof (induction ws arbitrary: ft)
  case (Cons x ws)
  obtain ok w where x: "x = (ok, w)" by (cases x)
  show ?case
  proof (cases "WriteWindow ok w ft")
    case (Inr p)
    obtain n ft' where "p = (n, ft')" by (cases p)
    with Inr Cons WriteWindow_exact [of ok w ft n ft'] show ?thesis by (simp add: write_all_def x)
  qed (use Cons in \<open>simp add: write_all_def x\<close>)
qed (simp add: write_all_def)

section \<open>Properties\<close>

definition empty_tables :: FlowTables where "empty_tables = \<lparr>ft_windows = [], ft_totals = [], ft_gaps = []\<rparr>"

text \<open>\<^bold>\<open>C7\<close>: the running totals are the sums of the stored rows: after any sequence of window writes, failed
  ones included, a flow key of a workload has a total exactly when it has rows, and then the total's
  connections and bytes are their sums, its first and last instants their earliest and latest, and
  its window count the number of windows that had such a row.\<close>

theorem totals_are_sums:
  "case map_of (ft_totals (write_all ws empty_tables)) (k, key) of
     None \<Rightarrow> rows_of k key (ft_windows (write_all ws empty_tables)) = []
   | Some t \<Rightarrow> adds_up (rows_of k key (ft_windows (write_all ws empty_tables))) (tot_connection_count t) (tot_byte_count t)
         (tot_first_seen t) (tot_last_seen t) \<and> tot_window_count t = windows_of k key (ft_windows (write_all ws empty_tables))"
proof -
  have "totals_exact empty_tables" by (simp add: totals_exact_def total_of_def empty_tables_def rows_of_def windows_of_def)
  from write_all_exact [OF this, of ws] have "total_of (ft_totals (write_all ws empty_tables)) k key
      (rows_of k key (ft_windows (write_all ws empty_tables))) (windows_of k key (ft_windows (write_all ws empty_tables)))"
    by (simp add: totals_exact_def)
  then show ?thesis by (cases "map_of (ft_totals (write_all ws empty_tables)) (k, key)") (simp_all add: total_of_def)
qed

end
