(* ===== verification/Delivery.thy ===== *)
theory Delivery
  imports Aggregate
begin

text \<open>
  Closed windows on their way to the control plane: the bounded buffer (\<^verbatim>\<open>buffer.go\<close>), the collector
  that closes windows into it and restarts its source (\<^verbatim>\<open>collector.go\<close>) and the reporter that ships
  them in batches (\<^verbatim>\<open>reporter.go\<close>), all of \<^verbatim>\<open>internal/agent/collect\<close>. The results: the buffer never
  holds more than its capacity, batches partition a window, and whatever is pushed, reported, retried
  and refused, every record is delivered, refused, queued, on its way or dropped, and the counts of
  the overflow and refusal gaps say how many. A window handed to the buffer is never nil.
\<close>

section \<open>The buffer\<close>

record Buffer =
  bf_windows :: "Window list"
  bf_records :: int
  bf_capacity :: int
  bf_dropped :: "64 word"

definition NewBuffer :: "int \<Rightarrow> Buffer" where
  "NewBuffer capacity = \<lparr>bf_windows = [], bf_records = 0,
     bf_capacity = (if capacity \<le> 0 then int DefaultBufferRecords else capacity), bf_dropped = 0\<rparr>"

definition overflow_gap :: "Window \<Rightarrow> int \<Rightarrow> Gap" where
  "overflow_gap w n = \<lparr>gap_kind = GapBufferOverflow, gap_source = GapNoSource, gap_from = win_start w, gap_to = win_end w,
     gap_count = of_int n, gap_has_count = True\<rparr>"

definition buffer_overflow :: "Window \<Rightarrow> int \<Rightarrow> Buffer \<times> Gaps option \<Rightarrow> Buffer \<times> Gaps option" where
  "buffer_overflow w n = (\<lambda>(b, g). if n \<le> 0 then (b, g)
     else (b\<lparr>bf_dropped := bf_dropped b + of_int n\<rparr>, Gaps_Record (overflow_gap w n) g))"

text \<open>The loop of \<^verbatim>\<open>trim\<close>: oldest windows go while more than one is queued and the records exceed the capacity.\<close>

function trim_oldest :: "Buffer \<Rightarrow> Gaps option \<Rightarrow> Buffer \<times> Gaps option" where
  "trim_oldest b g = (case bf_windows b of
     oldest # w # ws \<Rightarrow>
       if bf_capacity b < bf_records b
       then case buffer_overflow oldest (int (win_len oldest))
              (b\<lparr>bf_windows := w # ws, bf_records := bf_records b - int (win_len oldest)\<rparr>, g) of (b', g') \<Rightarrow> trim_oldest b' g'
       else (b, g)
   | _ \<Rightarrow> (b, g))"
  by auto
termination
  by (relation "measure (\<lambda>(b, g). length (bf_windows b))") (auto simp: buffer_overflow_def split: if_split_asm)

declare trim_oldest.simps [simp del]

definition trim_last :: "Buffer \<times> Gaps option \<Rightarrow> Buffer \<times> Gaps option" where
  "trim_last = (\<lambda>(b, g). case bf_windows b of
     [w] \<Rightarrow>
       if bf_capacity b < bf_records b
       then let excess = bf_records b - bf_capacity b; w = w\<lparr>win_records := drop (nat excess) (win_records w)\<rparr>
            in buffer_overflow w excess (b\<lparr>bf_windows := [w], bf_records := bf_records b - excess\<rparr>, g)
       else (b, g)
   | _ \<Rightarrow> (b, g))"

definition buffer_trim :: "Buffer \<times> Gaps option \<Rightarrow> Buffer \<times> Gaps option" where
  "buffer_trim = (\<lambda>(b, g). trim_last (trim_oldest b g))"

definition Buffer_Push :: "Window \<Rightarrow> Buffer \<times> Gaps option \<Rightarrow> Buffer \<times> Gaps option" where
  "Buffer_Push w = (\<lambda>(b, g). if win_len w = 0 then (b, g)
     else buffer_trim (b\<lparr>bf_windows := bf_windows b @ [w], bf_records := bf_records b + int (win_len w)\<rparr>, g))"

definition Buffer_Requeue :: "Window \<Rightarrow> Buffer \<times> Gaps option \<Rightarrow> Buffer \<times> Gaps option" where
  "Buffer_Requeue w = (\<lambda>(b, g). if win_len w = 0 then (b, g)
     else buffer_trim (b\<lparr>bf_windows := w # bf_windows b, bf_records := bf_records b + int (win_len w)\<rparr>, g))"

definition Buffer_Carry :: "Window \<Rightarrow> Buffer \<Rightarrow> Buffer" where
  "Buffer_Carry w b = (if bf_windows b \<noteq> [] then b else b\<lparr>bf_windows := bf_windows b @ [w]\<rparr>)"

text \<open>\<open>None\<close>: nothing is queued, and the caller waits.\<close>

definition Buffer_Pop :: "Buffer \<Rightarrow> (Window \<times> Buffer) option" where
  "Buffer_Pop b = (case bf_windows b of
     [] \<Rightarrow> None
   | w # ws \<Rightarrow> Some (w, b\<lparr>bf_windows := ws, bf_records := bf_records b - int (win_len w)\<rparr>))"

section \<open>The collector\<close>

definition DefaultWindow :: duration where "DefaultWindow = 60 * 1000000000"

record Collector =
  co_agg :: Aggregator
  co_opened :: duration
  co_window :: int

definition Collector_SetConfig :: "SyncConfig \<Rightarrow> Collector \<Rightarrow> Collector" where
  "Collector_SetConfig cfg c = (let s = sc_flow_aggregation_window_seconds cfg in
     if 0 < s then c\<lparr>co_window := uint s * 1000000000\<rparr> else c)"

definition Collector_Window :: "Collector \<Rightarrow> duration" where
  "Collector_Window c = (if 0 < co_window c then co_window c else DefaultWindow)"

definition closeWindow :: "instant \<Rightarrow> duration \<Rightarrow> Collector \<times> Gaps option \<Rightarrow> Window \<times> Collector \<times> Gaps option" where
  "closeWindow now at = (\<lambda>(c, g).
     let (until, nxt, step) = closeBounds (ag_start (co_agg c)) now (at - co_opened c);
         g = Gaps_CutOpen until g;
         (w, a, g) = (if step = 0 then Agg_Close until (co_agg c, g) else Agg_Cut until nxt (co_agg c, g))
     in (w, c\<lparr>co_agg := a, co_opened := at\<rparr>, g))"

text \<open>The timer: an empty window is queued only to carry gaps. At the end the open window is pushed.\<close>

definition collector_tick :: "instant \<Rightarrow> duration \<Rightarrow> Collector \<times> Buffer \<times> Gaps option \<Rightarrow> Collector \<times> Buffer \<times> Gaps option" where
  "collector_tick now at = (\<lambda>(c, b, g). case closeWindow now at (c, g) of
     (w, c, g) \<Rightarrow> if win_len w = 0 \<and> 0 < Gaps_Held g then (c, Buffer_Carry w b, g)
       else case Buffer_Push w (b, g) of (b, g) \<Rightarrow> (c, b, g))"

definition collector_stop :: "instant \<Rightarrow> duration \<Rightarrow> Collector \<times> Buffer \<times> Gaps option \<Rightarrow> Collector \<times> Buffer \<times> Gaps option" where
  "collector_stop now at = (\<lambda>(c, b, g). case closeWindow now at (c, g) of
     (w, c, g) \<Rightarrow> (case Buffer_Push w (b, g) of (b, g) \<Rightarrow> (c, b, g)))"

definition nextAttempt :: "nat \<Rightarrow> duration \<Rightarrow> duration \<Rightarrow> nat" where
  "nextAttempt attempt lasted limit = (if limit < lasted then 0 else attempt) + 1"

definition collect_backoff :: "(nat \<Rightarrow> nat) \<Rightarrow> nat \<Rightarrow> 64 word \<Rightarrow> 64 word \<Rightarrow> nat" where
  "collect_backoff rng attempt base limit = (let ceiling = push_bit (min attempt 20) base in
     rng (nat (sint (if sint limit < sint ceiling \<or> sint ceiling \<le> 0 then limit else ceiling))))"

text \<open>
  The restarts of a source whose runs start and fail at the listed instants; a source that records
  gaps has one opened at each failure. The result lists attempts and waits.
\<close>

fun restarter_run :: "(nat \<Rightarrow> nat) \<Rightarrow> 64 word \<Rightarrow> 64 word \<Rightarrow> GapSource option \<Rightarrow> nat \<Rightarrow> (instant \<times> instant) list \<Rightarrow> Gaps option
    \<Rightarrow> (nat \<times> nat) list \<times> Gaps option" where
  "restarter_run rng base limit name attempt [] g = ([], g)"
| "restarter_run rng base limit name attempt ((started, failed) # runs) g =
     (let attempt = nextAttempt attempt (failed - started) (sint limit);
          g = (case name of None \<Rightarrow> g | Some s \<Rightarrow> Gaps_Open s GapSourceRestart failed g)
      in case restarter_run rng base limit name attempt runs g of
           (waits, g) \<Rightarrow> ((attempt, collect_backoff rng attempt base limit) # waits, g))"

section \<open>The reporter\<close>

record ReportFlowsRequest =
  rq_window_start :: "instant option"
  rq_window_end :: "instant option"
  rq_records :: "FlowRecord list"
  rq_gaps :: "EvidenceGap list"
  rq_sent_at :: "instant option"

definition DefaultBatchMax :: nat where "DefaultBatchMax = 1000"

function chunks :: "nat \<Rightarrow> 'a list \<Rightarrow> 'a list list" where
  "chunks n xs = (if xs = [] \<or> n = 0 then [] else take n xs # chunks n (drop n xs))"
  by auto
termination
  by (relation "measure (\<lambda>(n, xs). length xs)") auto

declare chunks.simps [simp del]

definition window_request :: "Window \<Rightarrow> FlowRecord list \<Rightarrow> ReportFlowsRequest" where
  "window_request w rs = \<lparr>rq_window_start = Some (win_start w), rq_window_end = Some (win_end w), rq_records = rs, rq_gaps = [], rq_sent_at = None\<rparr>"

definition Batches :: "Window \<Rightarrow> int \<Rightarrow> ReportFlowsRequest list" where
  "Batches w batchMax = (let n = (if batchMax \<le> 0 then DefaultBatchMax else nat batchMax) in
     if win_records w = [] then [window_request w []] else map (window_request w) (chunks n (win_records w)))"

definition with_gaps :: "Gap list \<Rightarrow> ReportFlowsRequest list \<Rightarrow> ReportFlowsRequest list" where
  "with_gaps gaps reqs = (case reqs of [] \<Rightarrow> [] | r # rs \<Rightarrow> r\<lparr>rq_gaps := rq_gaps r @ map Gap_Wire gaps\<rparr> # rs)"

datatype rpc_code = Code_InvalidArgument | Code_Other

text \<open>A send succeeds, finds the stream ended (with the status the control plane closed it with) or fails.\<close>

datatype send_result = Sent | Send_EOF "rpc_code option" | Send_Error rpc_code

fun send_all :: "(instant \<times> send_result) list \<Rightarrow> ReportFlowsRequest list \<Rightarrow> ReportFlowsRequest list \<times> rpc_code option" where
  "send_all sends [] = ([], None)"
| "send_all [] reqs = ([], Some Code_Other)"
| "send_all ((now, result) # sends) (req # reqs) = (case result of
     Sent \<Rightarrow> (case send_all sends reqs of (out, err) \<Rightarrow> (req\<lparr>rq_sent_at := Some now\<rparr> # out, err))
   | Send_EOF None \<Rightarrow> ([], Some Code_Other)
   | Send_EOF (Some c) \<Rightarrow> ([], Some c)
   | Send_Error c \<Rightarrow> ([], Some c))"

definition report :: "rpc_code option \<Rightarrow> rpc_code option \<Rightarrow> (instant \<times> send_result) list \<Rightarrow> (rpc_code, 64 word) result
    \<Rightarrow> Window \<Rightarrow> Gap list \<Rightarrow> int \<Rightarrow> ReportFlowsRequest list \<times> (rpc_code, 64 word) result" where
  "report dial opening sends closing w gaps batchMax = (case dial of
     Some c \<Rightarrow> ([], Inl c)
   | None \<Rightarrow> (case opening of
       Some c \<Rightarrow> ([], Inl c)
     | None \<Rightarrow> (case send_all sends (with_gaps gaps (Batches w batchMax)) of
         (out, Some c) \<Rightarrow> (out, Inl c)
       | (out, None) \<Rightarrow> (out, closing))))"

definition reject :: "Window \<Rightarrow> Gaps option \<Rightarrow> Gaps option" where
  "reject w g = (let (from, to) = (if win_end w < win_start w then (win_end w, win_start w) else (win_start w, win_end w)) in
     if 0 < win_len w then Gaps_Record \<lparr>gap_kind = GapWindowRejected, gap_source = GapNoSource, gap_from = from, gap_to = to,
       gap_count = of_nat (win_len w), gap_has_count = True\<rparr> g else g)"

definition Reporter_SetConfig :: "SyncConfig \<Rightarrow> int \<Rightarrow> int" where
  "Reporter_SetConfig cfg batchMax = (if 0 < sc_flow_batch_max_records cfg then uint (sc_flow_batch_max_records cfg) else batchMax)"

definition Reporter_BatchMax :: "int \<Rightarrow> int" where
  "Reporter_BatchMax batchMax = (if 0 < batchMax then batchMax else int DefaultBatchMax)"

datatype reporter_decision = Reporter_Continues | Reporter_Stops | Reporter_Waits nat

text \<open>What \<^verbatim>\<open>Run\<close> does with the outcome of a report: the next attempt count, the buffer and the gaps.\<close>

definition reporter_handle :: "(nat \<Rightarrow> nat) \<Rightarrow> 64 word \<Rightarrow> 64 word \<Rightarrow> bool \<Rightarrow> (rpc_code, 64 word) result \<Rightarrow> Window \<Rightarrow> Gap list
    \<Rightarrow> nat \<times> Buffer \<times> Gaps option \<Rightarrow> reporter_decision \<times> nat \<times> Buffer \<times> Gaps option" where
  "reporter_handle rng base limit ended outcome w gaps = (\<lambda>(attempt, b, g). case outcome of
     Inr accepted \<Rightarrow> (Reporter_Continues, 0, b, g)
   | Inl c \<Rightarrow> let g = Gaps_Restore gaps g in
       if ended then (case Buffer_Requeue w (b, g) of (b, g) \<Rightarrow> (Reporter_Stops, attempt, b, g))
       else if c = Code_InvalidArgument then (Reporter_Continues, 0, b, reject w g)
       else (case Buffer_Requeue w (b, g) of (b, g) \<Rightarrow>
         (Reporter_Waits (collect_backoff rng (Suc attempt) base limit), Suc attempt, b, g)))"

section \<open>Batches partition a window\<close>

lemma concat_chunks: "0 < n \<Longrightarrow> concat (chunks n xs) = xs"
  by (induction n xs rule: chunks.induct) (subst chunks.simps, simp)

lemma chunks_bounds: "c \<in> set (chunks n xs) \<Longrightarrow> c \<noteq> [] \<and> length c \<le> n"
proof (induction n xs rule: chunks.induct)
  case (1 n xs)
  then show ?case by (subst (asm) chunks.simps) (auto split: if_split_asm)
qed

lemma chunks_Nil_iff: "0 < n \<Longrightarrow> chunks n xs = [] \<longleftrightarrow> xs = []"
  by (subst chunks.simps) simp

section \<open>What trimming does\<close>

definition queued :: "Window list \<Rightarrow> nat" where
  "queued ws = sum_list (map win_len ws)"

lemma queued_simps [simp]: "queued [] = 0" "queued (w # ws) = win_len w + queued ws" "queued (ws @ vs) = queued ws + queued vs"
  by (simp_all add: queued_def)

text \<open>
  The recorder after \<open>n\<close> records were dropped: the overflow gaps count \<open>n\<close> more, and no count of
  another kind moved.
\<close>

definition counts_more :: "GapKind \<Rightarrow> nat \<Rightarrow> Gaps \<Rightarrow> Gaps \<Rightarrow> bool" where
  "counts_more kd n g g' = (gaps_capacity g' = gaps_capacity g \<and>
     (\<forall>k. 21 \<le> gaps_capacity g \<and> counted k (gs_pending g) \<longrightarrow> counted k (gs_pending g') \<and>
        tally k (gs_pending g') = tally k (gs_pending g) + (if k = kd then of_nat n else 0)))"

lemma counts_more_refl [simp]: "counts_more kd 0 g g"
  by (simp add: counts_more_def)

lemma counts_more_trans: "counts_more kd m g g' \<Longrightarrow> counts_more kd n g' g'' \<Longrightarrow> counts_more kd (m + n) g g''"
  by (simp add: counts_more_def)

lemma counts_more_record:
  assumes "gap_kind gap = kd" "gap_has_count gap" "gap_count gap = of_nat n"
  shows "counts_more kd n g (add_gap gap g)"
proof -
  have "counted k (gs_pending (add_gap gap g)) \<and>
      tally k (gs_pending (add_gap gap g)) = tally k (gs_pending g) + (if k = kd then of_nat n else 0)"
    if "21 \<le> gaps_capacity g" "counted k (gs_pending g)" for k
    using add_pending_tally [OF that(1), of k gap "gs_pending g"] that assms by (auto simp: add_gap_def algebra_simps)
  then show ?thesis by (simp add: counts_more_def)
qed

definition trims :: "Buffer \<Rightarrow> Gaps \<Rightarrow> Buffer \<times> Gaps option \<Rightarrow> bool" where
  "trims b g out = (\<exists>b' g' n. out = (b', Some g') \<and> bf_capacity b' = bf_capacity b \<and> counts_more GapBufferOverflow n g g' \<and>
     bf_dropped b' = bf_dropped b + of_nat n \<and> queued (bf_windows b) = queued (bf_windows b') + n \<and>
     bf_records b' = int (queued (bf_windows b')))"

lemma overflow_records:
  "buffer_overflow w (int n) (b, Some g) = (b', g') \<Longrightarrow> \<exists>g2. g' = Some g2 \<and> counts_more GapBufferOverflow n g g2 \<and>
     bf_dropped b' = bf_dropped b + of_nat n \<and> bf_windows b' = bf_windows b \<and> bf_records b' = bf_records b \<and> bf_capacity b' = bf_capacity b"
  using counts_more_record [of "overflow_gap w (int n)" GapBufferOverflow n g]
  by (auto simp: buffer_overflow_def Gaps_Record_def overflow_gap_def split: if_split_asm)

lemma trim_oldest_trims: "bf_records b = int (queued (bf_windows b)) \<Longrightarrow> trims b g (trim_oldest b (Some g)) \<and>
    (length (bf_windows (fst (trim_oldest b (Some g)))) \<le> 1 \<or> bf_records (fst (trim_oldest b (Some g))) \<le> bf_capacity b)"
proof (induction b "Some g" arbitrary: g rule: trim_oldest.induct)
  case (1 b)
  show ?case
  proof (cases "bf_capacity b < bf_records b \<and> 1 < length (bf_windows b)")
    case True
    then obtain oldest w ws where ws: "bf_windows b = oldest # w # ws" by (cases "bf_windows b"; cases "tl (bf_windows b)") auto
    let ?b = "b\<lparr>bf_windows := w # ws, bf_records := bf_records b - int (win_len oldest)\<rparr>"
    obtain b' go where o: "buffer_overflow oldest (int (win_len oldest)) (?b, Some g) = (b', go)" by (cases "buffer_overflow oldest (int (win_len oldest)) (?b, Some g)")
    from overflow_records [OF o] obtain g2 where g2: "go = Some g2" "counts_more GapBufferOverflow (win_len oldest) g g2"
      "bf_dropped b' = bf_dropped b + of_nat (win_len oldest)" "bf_windows b' = w # ws"
      "bf_records b' = bf_records b - int (win_len oldest)" "bf_capacity b' = bf_capacity b" by auto
    have t: "trim_oldest b (Some g) = trim_oldest b' (Some g2)" using True ws o g2(1) by (subst trim_oldest.simps) simp
    have "bf_records b' = int (queued (bf_windows b'))" using g2 "1.prems" ws by simp
    from "1.hyps" [OF ws refl _ o [unfolded g2(1), symmetric] this] True have ih: "trims b' g2 (trim_oldest b' (Some g2)) \<and>
        (length (bf_windows (fst (trim_oldest b' (Some g2)))) \<le> 1 \<or> bf_records (fst (trim_oldest b' (Some g2))) \<le> bf_capacity b')" by simp
    then obtain b3 g3 n where b3: "trim_oldest b' (Some g2) = (b3, Some g3)" "bf_capacity b3 = bf_capacity b'" "counts_more GapBufferOverflow n g2 g3"
      "bf_dropped b3 = bf_dropped b' + of_nat n" "queued (bf_windows b') = queued (bf_windows b3) + n" "bf_records b3 = int (queued (bf_windows b3))"
      unfolding trims_def by blast
    have "trims b g (trim_oldest b (Some g))" unfolding trims_def t
      by (rule exI [of _ b3], rule exI [of _ g3], rule exI [of _ "win_len oldest + n"])
        (use b3 g2 ws counts_more_trans [OF g2(2) b3(3)] in \<open>simp add: algebra_simps\<close>)
    with ih t g2 show ?thesis by simp
  next
    case False
    then have "trim_oldest b (Some g) = (b, Some g)" by (subst trim_oldest.simps) (auto split: list.split)
    then show ?thesis using False "1.prems" unfolding trims_def by (auto intro!: exI [of _ "0 :: nat"])
  qed
qed

lemma trims_trans: "trims b g (b', Some g') \<Longrightarrow> trims b' g' out \<Longrightarrow> trims b g out"
  using counts_more_trans by (fastforce simp: trims_def)

lemma trim_last_trims:
  assumes "bf_records b = int (queued (bf_windows b))" and "length (bf_windows b) \<le> 1 \<or> bf_records b \<le> bf_capacity b" and "0 \<le> bf_capacity b"
  shows "trims b g (trim_last (b, Some g)) \<and> bf_records (fst (trim_last (b, Some g))) \<le> bf_capacity b"
proof (cases "\<exists>w. bf_windows b = [w] \<and> bf_capacity b < bf_records b")
  case True
  then obtain w where w: "bf_windows b = [w]" "bf_capacity b < bf_records b" by blast
  define n where "n = nat (bf_records b - bf_capacity b)"
  have n: "bf_records b - bf_capacity b = int n" "n \<le> win_len w" using w assms by (simp_all add: n_def)
  let ?w = "w\<lparr>win_records := drop n (win_records w)\<rparr>"
  let ?b = "b\<lparr>bf_windows := [?w], bf_records := bf_records b - int n\<rparr>"
  obtain b' go where o: "buffer_overflow ?w (int n) (?b, Some g) = (b', go)" by (cases "buffer_overflow ?w (int n) (?b, Some g)")
  have t: "trim_last (b, Some g) = (b', go)" using w o n(1) by (simp add: trim_last_def Let_def)
  from overflow_records [OF o] obtain g2 where g2: "go = Some g2" "counts_more GapBufferOverflow n g g2"
    "bf_dropped b' = bf_dropped b + of_nat n" "bf_windows b' = [?w]" "bf_records b' = bf_records b - int n" "bf_capacity b' = bf_capacity b" by auto
  have q: "queued (bf_windows b) = queued (bf_windows b') + n" using w n(2) g2(4) by (simp add: win_len_def)
  show ?thesis unfolding t trims_def using g2 q assms(1) n(1) by (auto intro!: exI [of _ n])
next
  case False
  then have "trim_last (b, Some g) = (b, Some g)" by (auto simp: trim_last_def split: list.split)
  moreover have "bf_records b \<le> bf_capacity b"
  proof (cases "bf_windows b")
    case (Cons w ws)
    then show ?thesis using False assms(2) by (cases ws) auto
  qed (use assms in simp)
  ultimately show ?thesis using assms(1) unfolding trims_def by (auto intro!: exI [of _ "0 :: nat"])
qed

lemma buffer_trim_trims:
  assumes "bf_records b = int (queued (bf_windows b))" and "0 \<le> bf_capacity b"
  shows "trims b g (buffer_trim (b, Some g)) \<and> bf_records (fst (buffer_trim (b, Some g))) \<le> bf_capacity b"
proof -
  from trim_oldest_trims [OF assms(1)] have t: "trims b g (trim_oldest b (Some g))"
    "length (bf_windows (fst (trim_oldest b (Some g)))) \<le> 1 \<or> bf_records (fst (trim_oldest b (Some g))) \<le> bf_capacity b" by blast+
  then obtain b' g' where b': "trim_oldest b (Some g) = (b', Some g')" "bf_capacity b' = bf_capacity b" "bf_records b' = int (queued (bf_windows b'))"
    unfolding trims_def by blast
  have l: "length (bf_windows b') \<le> 1 \<or> bf_records b' \<le> bf_capacity b'" using t(2) b' by simp
  have "trims b' g' (trim_last (b', Some g')) \<and> bf_records (fst (trim_last (b', Some g'))) \<le> bf_capacity b'"
    by (rule trim_last_trims [OF b'(3) l]) (use b' assms in simp)
  then show ?thesis using trims_trans [OF t(1) [unfolded b'(1)]] b' by (simp add: buffer_trim_def)
qed

section \<open>Every record is accounted for\<close>

text \<open>
  The buffer, the recorder, the window being reported with the gaps it took, and what became of the
  rest. \<open>dl_pushed\<close> and \<open>dl_lost\<close> count records pushed and records dropped for lack of room.
\<close>

record delivery =
  dl_buffer :: Buffer
  dl_gaps :: Gaps
  dl_attempt :: nat
  dl_flight :: "(Window \<times> Gap list) option"
  dl_delivered :: "Window list"
  dl_rejected :: "Window list"
  dl_shipped :: "Gap list"
  dl_pushed :: nat
  dl_lost :: nat

text \<open>
  A dropped record is one that left the queue without being popped. Sources record gaps of other
  kinds meanwhile, and open and close intervals.
\<close>

inductive delivery_step :: "delivery \<Rightarrow> delivery \<Rightarrow> bool" where
  pushed: "Buffer_Push w (dl_buffer d, Some (dl_gaps d)) = (b, Some g) \<Longrightarrow>
    delivery_step d (d\<lparr>dl_buffer := b, dl_gaps := g, dl_pushed := dl_pushed d + win_len w,
      dl_lost := dl_lost d + (queued (bf_windows (dl_buffer d)) + win_len w - queued (bf_windows b))\<rparr>)"
| carried: "win_len w = 0 \<Longrightarrow> delivery_step d (d\<lparr>dl_buffer := Buffer_Carry w (dl_buffer d)\<rparr>)"
| noted: "gap_kind gap \<notin> {GapBufferOverflow, GapWindowRejected} \<Longrightarrow> gs_pending g = gs_pending (add_gap gap (dl_gaps d)) \<Longrightarrow>
    gaps_capacity g = gaps_capacity (dl_gaps d) \<Longrightarrow> delivery_step d (d\<lparr>dl_gaps := g\<rparr>)"
| popped: "dl_flight d = None \<Longrightarrow> Buffer_Pop (dl_buffer d) = Some (w, b) \<Longrightarrow> Gaps_Take (Some (dl_gaps d)) = (ps, Some g) \<Longrightarrow>
    delivery_step d (d\<lparr>dl_buffer := b, dl_gaps := g, dl_flight := Some (w, ps)\<rparr>)"
| delivered: "dl_flight d = Some (w, ps) \<Longrightarrow>
    reporter_handle rng base limit ended (Inr n) w ps (dl_attempt d, dl_buffer d, Some (dl_gaps d)) = (r, attempt, b, Some g) \<Longrightarrow>
    delivery_step d (d\<lparr>dl_attempt := attempt, dl_buffer := b, dl_gaps := g, dl_flight := None,
      dl_delivered := dl_delivered d @ [w], dl_shipped := dl_shipped d @ ps\<rparr>)"
| refused: "dl_flight d = Some (w, ps) \<Longrightarrow>
    reporter_handle rng base limit False (Inl Code_InvalidArgument) w ps (dl_attempt d, dl_buffer d, Some (dl_gaps d)) = (r, attempt, b, Some g) \<Longrightarrow>
    delivery_step d (d\<lparr>dl_attempt := attempt, dl_buffer := b, dl_gaps := g, dl_flight := None, dl_rejected := dl_rejected d @ [w]\<rparr>)"
| failed: "dl_flight d = Some (w, ps) \<Longrightarrow> ended \<or> c \<noteq> Code_InvalidArgument \<Longrightarrow>
    reporter_handle rng base limit ended (Inl c) w ps (dl_attempt d, dl_buffer d, Some (dl_gaps d)) = (r, attempt, b, Some g) \<Longrightarrow>
    delivery_step d (d\<lparr>dl_attempt := attempt, dl_buffer := b, dl_gaps := g, dl_flight := None,
      dl_lost := dl_lost d + (queued (bf_windows (dl_buffer d)) + win_len w - queued (bf_windows b))\<rparr>)"

definition in_flight :: "delivery \<Rightarrow> nat" where
  "in_flight d = (case dl_flight d of None \<Rightarrow> 0 | Some (w, ps) \<Rightarrow> win_len w)"

definition all_gaps :: "delivery \<Rightarrow> Gap list" where
  "all_gaps d = gs_pending (dl_gaps d) @ (case dl_flight d of None \<Rightarrow> [] | Some (w, ps) \<Rightarrow> ps) @ dl_shipped d"

definition accounted :: "delivery \<Rightarrow> bool" where
  "accounted d = (21 \<le> gaps_capacity (dl_gaps d) \<and> 0 \<le> bf_capacity (dl_buffer d) \<and>
     bf_records (dl_buffer d) = int (queued (bf_windows (dl_buffer d))) \<and> bf_records (dl_buffer d) \<le> bf_capacity (dl_buffer d) \<and>
     bf_dropped (dl_buffer d) = of_nat (dl_lost d) \<and>
     dl_pushed d = queued (dl_delivered d) + queued (dl_rejected d) + queued (bf_windows (dl_buffer d)) + in_flight d + dl_lost d \<and>
     counted GapBufferOverflow (all_gaps d) \<and> tally GapBufferOverflow (all_gaps d) = of_nat (dl_lost d) \<and>
     counted GapWindowRejected (all_gaps d) \<and> tally GapWindowRejected (all_gaps d) = of_nat (queued (dl_rejected d)))"

text \<open>Pushing and requeueing: what did not fit was dropped and counted.\<close>

definition fits :: "Buffer \<Rightarrow> bool" where
  "fits b = (0 \<le> bf_capacity b \<and> bf_records b = int (queued (bf_windows b)) \<and> bf_records b \<le> bf_capacity b)"

definition takes_in :: "nat \<Rightarrow> Buffer \<Rightarrow> Gaps \<Rightarrow> Buffer \<Rightarrow> Gaps \<Rightarrow> bool" where
  "takes_in len b g b' g' = (\<exists>n. fits b' \<and> counts_more GapBufferOverflow n g g' \<and> bf_dropped b' = bf_dropped b + of_nat n \<and>
     queued (bf_windows b) + len = queued (bf_windows b') + n)"

lemma buffer_trim_takes_in:
  assumes "buffer_trim (b\<lparr>bf_windows := ws, bf_records := bf_records b + int len\<rparr>, Some g) = (b', Some g')" and "fits b"
    and "queued ws = queued (bf_windows b) + len"
  shows "takes_in len b g b' g'"
proof -
  let ?b = "b\<lparr>bf_windows := ws, bf_records := bf_records b + int len\<rparr>"
  have "bf_records ?b = int (queued (bf_windows ?b))" "0 \<le> bf_capacity ?b" using assms(2,3) by (simp_all add: fits_def)
  from buffer_trim_trims [OF this, of g] show ?thesis unfolding assms(1) trims_def takes_in_def fits_def
    using assms(2,3) by (auto simp: fits_def)
qed

lemma Push_takes_in: "Buffer_Push w (b, Some g) = (b', Some g') \<Longrightarrow> fits b \<Longrightarrow> takes_in (win_len w) b g b' g'"
  using buffer_trim_takes_in [where b = b and ws = "bf_windows b @ [w]" and len = "win_len w" and g = g and b' = b' and g' = g']
  by (auto simp: Buffer_Push_def takes_in_def split: if_split_asm intro!: exI [of _ "0 :: nat"])

lemma Requeue_takes_in: "Buffer_Requeue w (b, Some g) = (b', Some g') \<Longrightarrow> fits b \<Longrightarrow> takes_in (win_len w) b g b' g'"
  using buffer_trim_takes_in [where b = b and ws = "w # bf_windows b" and len = "win_len w" and g = g and b' = b' and g' = g']
  by (auto simp: Buffer_Requeue_def takes_in_def split: if_split_asm intro!: exI [of _ "0 :: nat"])

lemma takes_in_lost: "takes_in len b g b' g' \<Longrightarrow> counts_more GapBufferOverflow (queued (bf_windows b) + len - queued (bf_windows b')) g g' \<and>
    fits b' \<and> queued (bf_windows b') \<le> queued (bf_windows b) + len \<and>
    bf_dropped b' = bf_dropped b + of_nat (queued (bf_windows b) + len - queued (bf_windows b'))"
  by (auto simp: takes_in_def)

text \<open>Putting back what was taken moves no count.\<close>

lemma Restore_counts:
  assumes "Gaps_Restore ps (Some g) = Some g'" and "21 \<le> gaps_capacity g"
  shows "gaps_capacity g' = gaps_capacity g \<and> (counted k (ps @ gs_pending g) \<longrightarrow> counted k (gs_pending g') \<and> tally k (gs_pending g') = tally k ps + tally k (gs_pending g))"
  using assms shrink_tally [OF assms(2), of k "ps @ gs_pending g"] by (auto simp: Gaps_Restore_def split: if_split_asm)

lemma accounted_pushed:
  assumes "Buffer_Push w (dl_buffer d, Some (dl_gaps d)) = (b, Some g)" and "accounted d"
  shows "accounted (d\<lparr>dl_buffer := b, dl_gaps := g, dl_pushed := dl_pushed d + win_len w,
      dl_lost := dl_lost d + (queued (bf_windows (dl_buffer d)) + win_len w - queued (bf_windows b))\<rparr>)"
proof -
  have "fits (dl_buffer d)" using assms(2) by (simp add: accounted_def fits_def)
  note t = takes_in_lost [OF Push_takes_in [OF assms(1) this]]
  let ?n = "queued (bf_windows (dl_buffer d)) + win_len w - queued (bf_windows b)"
  have "counted k (gs_pending (dl_gaps d)) \<longrightarrow> counted k (gs_pending g) \<and>
      tally k (gs_pending g) = tally k (gs_pending (dl_gaps d)) + (if k = GapBufferOverflow then of_nat ?n else 0)" for k
    using t assms(2) by (auto simp: counts_more_def accounted_def)
  from this [of GapBufferOverflow] this [of GapWindowRejected] t assms(2) show ?thesis
    by (auto simp: accounted_def fits_def counts_more_def all_gaps_def in_flight_def algebra_simps)
qed

lemma accounted_failed:
  assumes "dl_flight d = Some (w, ps)" and "Gaps_Restore ps (Some (dl_gaps d)) = Some g1" and "Buffer_Requeue w (dl_buffer d, Some g1) = (b, Some g)"
    and "accounted d"
  shows "accounted (d\<lparr>dl_attempt := attempt, dl_buffer := b, dl_gaps := g, dl_flight := None,
      dl_lost := dl_lost d + (queued (bf_windows (dl_buffer d)) + win_len w - queued (bf_windows b))\<rparr>)"
proof -
  have "fits (dl_buffer d)" and c: "21 \<le> gaps_capacity (dl_gaps d)" using assms(4) by (simp_all add: accounted_def fits_def)
  note t = takes_in_lost [OF Requeue_takes_in [OF assms(3) this(1)]]
  let ?n = "queued (bf_windows (dl_buffer d)) + win_len w - queued (bf_windows b)"
  note r = Restore_counts [OF assms(2) c]
  have k: "counted k (all_gaps d) \<longrightarrow> counted k (gs_pending g @ dl_shipped d) \<and>
      tally k (gs_pending g @ dl_shipped d) = tally k (all_gaps d) + (if k = GapBufferOverflow then of_nat ?n else 0)" for k
    using t r [of k] c assms(1) by (auto simp: counts_more_def all_gaps_def algebra_simps)
  from k [of GapBufferOverflow] k [of GapWindowRejected] t r assms show ?thesis
    by (auto simp: accounted_def fits_def counts_more_def all_gaps_def in_flight_def algebra_simps)
qed

lemma accounted_refused:
  assumes "dl_flight d = Some (w, ps)" and "Gaps_Restore ps (Some (dl_gaps d)) = Some g1" and "reject w (Some g1) = Some g" and "accounted d"
  shows "accounted (d\<lparr>dl_attempt := attempt, dl_gaps := g, dl_flight := None, dl_rejected := dl_rejected d @ [w]\<rparr>)"
proof -
  have c: "21 \<le> gaps_capacity (dl_gaps d)" using assms(4) by (simp add: accounted_def)
  note r = Restore_counts [OF assms(2) c]
  have "counts_more GapWindowRejected (win_len w) g1 g"
    using assms(3) counts_more_record [of _ GapWindowRejected "win_len w" g1]
    by (auto simp: reject_def Let_def Gaps_Record_def split: if_split_asm)
  then have k: "counted k (all_gaps d) \<longrightarrow> gaps_capacity g = gaps_capacity (dl_gaps d) \<and> counted k (gs_pending g @ dl_shipped d) \<and>
      tally k (gs_pending g @ dl_shipped d) = tally k (all_gaps d) + (if k = GapWindowRejected then of_nat (win_len w) else 0)" for k
    using r [of k] c assms(1) by (auto simp: counts_more_def all_gaps_def algebra_simps)
  from k [of GapBufferOverflow] k [of GapWindowRejected] assms show ?thesis
    by (auto simp: accounted_def all_gaps_def in_flight_def algebra_simps)
qed

lemma delivery_step_accounted: "delivery_step d d' \<Longrightarrow> accounted d \<Longrightarrow> accounted d'"
proof (induction rule: delivery_step.induct)
  case (pushed w d b g)
  then show ?case by (simp add: accounted_pushed)
next
  case (carried w d)
  then show ?case by (auto simp: accounted_def Buffer_Carry_def in_flight_def all_gaps_def)
next
  case (noted gap g d)
  have "21 \<le> gaps_capacity (dl_gaps d)" using noted(4) by (simp add: accounted_def)
  note t = add_pending_tally [OF this, of _ gap "gs_pending (dl_gaps d)"]
  from t [of GapBufferOverflow] t [of GapWindowRejected] noted show ?case
    by (auto simp: accounted_def in_flight_def all_gaps_def add_gap_def)
next
  case (popped d w b ps g)
  then show ?case by (cases "bf_windows (dl_buffer d)") (auto simp: accounted_def Buffer_Pop_def Gaps_Take_def in_flight_def all_gaps_def)
next
  case (delivered d w ps rng base limit ended n r attempt b g)
  then show ?case by (auto simp: accounted_def reporter_handle_def in_flight_def all_gaps_def algebra_simps)
next
  case (refused d w ps rng base limit r attempt b g)
  then obtain g1 where "Gaps_Restore ps (Some (dl_gaps d)) = Some g1" "reject w (Some g1) = Some g" "b = dl_buffer d"
    by (auto simp: reporter_handle_def Let_def Gaps_Restore_def)
  with accounted_refused [OF refused(1), of g1 g attempt] refused(3) show ?case by simp
next
  case (failed d w ps ended c rng base limit r attempt b g)
  obtain g1 where g1: "Gaps_Restore ps (Some (dl_gaps d)) = Some g1" by (auto simp: Gaps_Restore_def)
  have "Buffer_Requeue w (dl_buffer d, Some g1) = (b, Some g)"
    using failed(2,3) g1 by (auto simp: reporter_handle_def Let_def split: prod.split_asm if_split_asm)
  from accounted_failed [OF failed(1) g1 this failed(4)] show ?case .
qed

lemma delivery_reachable_accounted: "delivery_step\<^sup>*\<^sup>* d0 d \<Longrightarrow> accounted d0 \<Longrightarrow> accounted d"
  by (induction rule: rtranclp_induct) (simp_all add: delivery_step_accounted)

section \<open>Properties\<close>

definition fresh_delivery :: "int \<Rightarrow> int \<Rightarrow> delivery" where
  "fresh_delivery capacity gap_capacity = \<lparr>dl_buffer = NewBuffer capacity,
     dl_gaps = \<lparr>gs_Capacity = gap_capacity, gs_pending = [], gs_open = [], gs_overruns = 0\<rparr>,
     dl_attempt = 0, dl_flight = None, dl_delivered = [], dl_rejected = [], dl_shipped = [], dl_pushed = 0, dl_lost = 0\<rparr>"

lemma fresh_accounted: "gap_capacity \<le> 0 \<or> 21 \<le> gap_capacity \<Longrightarrow> accounted (fresh_delivery capacity gap_capacity)"
  by (auto simp: accounted_def fresh_delivery_def NewBuffer_def in_flight_def all_gaps_def gaps_capacity_def DefaultGapCapacity_def DefaultBufferRecords_def)

text \<open>\<^bold>\<open>C6\<close>: every flow record is accounted for: whatever windows are pushed and carried, whatever
  reports succeed, fail and are retried or are refused, the records pushed are those delivered,
  refused, queued, being reported and dropped; the queue is within its capacity; the counter the
  heartbeat carries is the number dropped; and the counts of the overflow and refusal gaps, held, on
  their way or shipped, add up to the records dropped and refused.\<close>

theorem every_record_accounted:
  assumes "gap_capacity \<le> 0 \<or> 21 \<le> gap_capacity" and "delivery_step\<^sup>*\<^sup>* (fresh_delivery capacity gap_capacity) d"
  shows "dl_pushed d = queued (dl_delivered d) + queued (dl_rejected d) + queued (bf_windows (dl_buffer d)) + in_flight d + dl_lost d \<and>
    int (queued (bf_windows (dl_buffer d))) \<le> bf_capacity (dl_buffer d) \<and> bf_dropped (dl_buffer d) = of_nat (dl_lost d) \<and>
    tally GapBufferOverflow (all_gaps d) = of_nat (dl_lost d) \<and> tally GapWindowRejected (all_gaps d) = of_nat (queued (dl_rejected d))"
  using delivery_reachable_accounted [OF assms(2) fresh_accounted [OF assms(1)]] by (simp add: accounted_def)

theorem every_record_accounted_witness:
  "\<exists>d. delivery_step\<^sup>*\<^sup>* (fresh_delivery 1 0) d \<and> dl_pushed d = 2 \<and> tally GapBufferOverflow (all_gaps d) = of_nat (dl_lost d)"
proof -
  let ?w = "\<lparr>win_start = 0, win_end = 9, win_records = replicate 2 (flow_record (\<lambda>t. t) (key_of (demo_observation 1 443))
     \<lparr>acc_connections = 1, acc_bytes = 0, acc_first = 1, acc_last = 1, acc_process = []\<rparr>)\<rparr>"
  obtain b g where "Buffer_Push ?w (dl_buffer (fresh_delivery 1 0), Some (dl_gaps (fresh_delivery 1 0))) = (b, Some g)"
    by (simp add: Buffer_Push_def win_len_def buffer_trim_def trim_last_def trim_oldest.simps fresh_delivery_def NewBuffer_def buffer_overflow_def
        Gaps_Record_def Let_def)
  from delivery_step.pushed [OF this] obtain d where d: "delivery_step (fresh_delivery 1 0) d" "dl_pushed d = 2"
    by (rule that) (simp add: fresh_delivery_def win_len_def)
  from r_into_rtranclp [of delivery_step, OF d(1)] have "delivery_step\<^sup>*\<^sup>* (fresh_delivery 1 0) d" .
  with every_record_accounted [of 0 1 d] d(2) show ?thesis by auto
qed

text \<open>The requests of a window carry its bounds, at least one is made, and they partition its
  records in order into parts of at most the batch size, none of them empty unless the window is.\<close>

lemma Batches_partition:
  "Batches w n \<noteq> [] \<and> concat (map rq_records (Batches w n)) = win_records w \<and>
   list_all (\<lambda>r. rq_window_start r = Some (win_start w) \<and> rq_window_end r = Some (win_end w) \<and>
     int (length (rq_records r)) \<le> Reporter_BatchMax n \<and> (rq_records r = [] \<longleftrightarrow> win_records w = [])) (Batches w n)"
proof (cases "win_records w = []")
  case True
  then show ?thesis by (simp add: Batches_def window_request_def Reporter_BatchMax_def)
next
  case False
  define m where "m = (if n \<le> 0 then DefaultBatchMax else nat n)"
  have m: "0 < m" "int m = Reporter_BatchMax n" by (simp_all add: m_def Reporter_BatchMax_def DefaultBatchMax_def)
  have B: "Batches w n = map (window_request w) (chunks m (win_records w))" using False by (simp add: Batches_def m_def)
  show ?thesis unfolding B using False concat_chunks [OF m(1)] chunks_Nil_iff [OF m(1)] chunks_bounds m(2)
    by (fastforce simp: window_request_def comp_def list_all_iff)
qed

end
