(* ===== verification/Ingest.thy ===== *)
theory Ingest
  imports FlowStore Delivery GatewaySync
begin

text \<open>
  The control plane's end of flow reporting: resolution of a source address to a peer
  (\<^verbatim>\<open>internal/ingest/resolve.go\<close>), the reading of the agent's clock (\<^verbatim>\<open>clock.go\<close>), validation, the silence a
  report reveals, and the ingestion of one reported window (\<^verbatim>\<open>service.go\<close>) behind \<^verbatim>\<open>ReportFlows\<close>
  (\<^verbatim>\<open>internal/gateway/flows.go\<close>). The results: every record and gap an agent makes is accepted; a silence
  is derived only when no agent process ran through it, and derived silences never overlap.
\<close>

section \<open>Resolving a source address\<close>

record flow_index =
  ix_workloads :: "(addr, uuid \<times> (string, string) gomap) gomap"
  ix_groups :: "(prefix \<times> uuid) list"

definition index_address :: "uuid \<times> (string, string) gomap \<Rightarrow> addr \<Rightarrow> (addr, uuid \<times> (string, string) gomap) gomap
    \<Rightarrow> (addr, uuid \<times> (string, string) gomap) gomap" where
  "index_address entry a m = (case map_of m (unmap a) of Some _ \<Rightarrow> m | None \<Rightarrow> AList.update (unmap a) entry m)"

definition index_workload :: "Workload \<Rightarrow> (addr, uuid \<times> (string, string) gomap) gomap \<Rightarrow> (addr, uuid \<times> (string, string) gomap) gomap" where
  "index_workload w m = (if Retired w then m else fold (index_address (w_id w, LabelMap w)) (w_addresses w) m)"

definition group_prefix :: "string \<Rightarrow> prefix option" where
  "group_prefix c = (case parse_prefix c of
     Some p \<Rightarrow> Some (masked p)
   | None \<Rightarrow> map_option (\<lambda>a. masked (prefix_from a (bit_len a))) (parse_addr c))"

definition group_entries :: "AddressGroup \<Rightarrow> (prefix \<times> uuid) list" where
  "group_entries g = map (\<lambda>p. (p, grp_id g)) (List.map_filter group_prefix (grp_cidrs g))"

text \<open>Longest prefix first, then by id.\<close>

definition BuildIndex :: "Workload list \<Rightarrow> AddressGroup list \<Rightarrow> flow_index" where
  "BuildIndex ws gs = \<lparr>ix_workloads = fold index_workload ws [],
     ix_groups = sort_key (\<lambda>(p, k). (- int (prefix_bits p), k)) (concat (map group_entries gs))\<rparr>"

definition Resolve :: "flow_index \<Rightarrow> addr \<Rightarrow> FlowPeer" where
  "Resolve ix a = (case map_of (ix_workloads ix) (unmap a) of
     Some (k, ls) \<Rightarrow> \<lparr>fp_kind = FlowPeerWorkload, fp_key = k, fp_labels = ls\<rparr>
   | None \<Rightarrow> (case find (\<lambda>(p, k). prefix_contains p (unmap a)) (ix_groups ix) of
       Some (p, k) \<Rightarrow> \<lparr>fp_kind = FlowPeerAddressGroup, fp_key = k, fp_labels = []\<rparr>
     | None \<Rightarrow> \<lparr>fp_kind = FlowPeerUnknown, fp_key = addr_string (unmap a), fp_labels = []\<rparr>))"

section \<open>Validation\<close>

definition maxFieldLength :: nat where "maxFieldLength = 256"
definition MaxGapsPerRequest :: nat where "MaxGapsPerRequest = 4096"

datatype convert_error = BadSource | BadDestination | BadPort | BadProtocol | BadDirection | BadDecision | FieldTooLong | BadInstants

definition reported_protocol :: "Protocol \<Rightarrow> bool" where
  "reported_protocol p = (p \<in> {PROTOCOL_TCP, PROTOCOL_UDP, PROTOCOL_ICMP})"

definition reported_decision :: "PolicyDecision \<Rightarrow> bool" where
  "reported_decision d = (d \<in> {POLICY_DECISION_OBSERVED, POLICY_DECISION_ALLOWED, POLICY_DECISION_WOULD_BLOCK, POLICY_DECISION_BLOCKED})"

definition no_peer :: FlowPeer where "no_peer = \<lparr>fp_kind = FlowPeerUnknown, fp_key = [], fp_labels = []\<rparr>"

definition convert :: "FlowRecord \<Rightarrow> instant \<Rightarrow> instant \<Rightarrow> (convert_error, StoredRecord) result" where
  "convert fr start until = (case parse_addr (fr_src_address fr) of
     None \<Rightarrow> Inl BadSource
   | Some src \<Rightarrow> (case parse_addr (fr_dst_address fr) of
       None \<Rightarrow> Inl BadDestination
     | Some dst \<Rightarrow>
        if 65535 < fr_dst_port fr then Inl BadPort
        else if \<not> reported_protocol (fr_protocol fr) then Inl BadProtocol
        else if fr_direction fr \<noteq> DIRECTION_INBOUND then Inl BadDirection
        else if \<not> reported_decision (fr_decision fr) then Inl BadDecision
        else if maxFieldLength < length (fr_matched_rule_id fr) \<or> maxFieldLength < length (fr_process_name fr) then Inl FieldTooLong
        else let first = (case fr_first_seen fr of Some t \<Rightarrow> t | None \<Rightarrow> start); latest = (case fr_last_seen fr of Some t \<Rightarrow> t | None \<Rightarrow> until) in
          if latest < first then Inl BadInstants
          else Inr \<lparr>sr_peer = no_peer, sr_src_address = unmap src, sr_dst_address = unmap dst, sr_dst_port = ucast (fr_dst_port fr),
            sr_protocol = fr_protocol fr, sr_direction = fr_direction fr, sr_decision = fr_decision fr, sr_matched_rule_id = fr_matched_rule_id fr,
            sr_connection_count = fr_connection_count fr, sr_byte_count = fr_byte_count fr, sr_first_seen = first, sr_last_seen = latest,
            sr_process_name = fr_process_name fr\<rparr>))"

datatype gap_error = GapKindUnspecified | GapKindDerived | GapKindUnknown | GapSourceUnknown | GapBoundsMissing | GapInverted | GapCountRange

definition convertGap :: "EvidenceGap \<Rightarrow> (gap_error, StoredGap) result" where
  "convertGap wg = (case eg_kind wg of
     EVIDENCE_GAP_KIND_UNSPECIFIED \<Rightarrow> Inl GapKindUnspecified
   | EVIDENCE_GAP_KIND_AGENT_SILENT \<Rightarrow> Inl GapKindDerived
   | EVIDENCE_GAP_KIND_OTHER _ \<Rightarrow> Inl GapKindUnknown
   | _ \<Rightarrow> (case eg_source wg of
       EVIDENCE_SOURCE_OTHER _ \<Rightarrow> Inl GapSourceUnknown
     | _ \<Rightarrow> (case (eg_from wg, eg_to wg) of
         (Some from, Some to) \<Rightarrow>
           if to < from then Inl GapInverted
           else (case eg_count wg of
               Some n \<Rightarrow> if 9223372036854775807 < n then Inl GapCountRange
                 else Inr \<lparr>sg_kind = eg_kind wg, sg_source = eg_source wg, sg_from = from, sg_to = to, sg_count = Some n\<rparr>
             | None \<Rightarrow> Inr \<lparr>sg_kind = eg_kind wg, sg_source = eg_source wg, sg_from = from, sg_to = to, sg_count = None\<rparr>)
       | _ \<Rightarrow> Inl GapBoundsMissing)))"

section \<open>The agent's clock\<close>

definition ClockSkewWindows :: int where "ClockSkewWindows = 2"

record ClockReading =
  ck_offset :: duration
  ck_by_sent_at :: bool
  ck_skewed :: bool

text \<open>A report without a send instant is read from its window's end, which the caller checked is there.\<close>

definition ReadClock :: "ReportFlowsRequest \<Rightarrow> instant \<Rightarrow> duration \<Rightarrow> ClockReading" where
  "ReadClock req received window = (let tolerance = ClockSkewWindows * window in
     case rq_sent_at req of
       Some sent \<Rightarrow> \<lparr>ck_offset = sent - received, ck_by_sent_at = True, ck_skewed = (tolerance < sent - received \<or> sent - received < - tolerance)\<rparr>
     | None \<Rightarrow> let offset = (case rq_window_end req of Some e \<Rightarrow> e | None \<Rightarrow> 0) - received in
         \<lparr>ck_offset = offset, ck_by_sent_at = False, ck_skewed = (tolerance < offset)\<rparr>)"

text \<open>The stored offset is in whole milliseconds, truncated toward zero.\<close>

definition truncate_milli :: "duration \<Rightarrow> duration" where
  "truncate_milli d = sgn d * (\<bar>d\<bar> div 1000000 * 1000000)"

definition RecordClockReading :: "duration \<Rightarrow> bool \<Rightarrow> instant \<Rightarrow> Workload \<Rightarrow> Workload" where
  "RecordClockReading offset skewed received w = (if skewed
     then w\<lparr>w_clock_skew := Some \<lparr>skew_offset = truncate_milli offset, skew_observed_at = received, skew_current = True\<rparr>\<rparr>
     else w\<lparr>w_clock_skew := map_option (\<lambda>s. s\<lparr>skew_current := False\<rparr>) (w_clock_skew w)\<rparr>)"

definition checkClock :: "bool \<Rightarrow> duration \<Rightarrow> ReportFlowsRequest \<Rightarrow> instant \<Rightarrow> Workload \<Rightarrow> Workload" where
  "checkClock ok window req received w = (if window \<le> 0 \<or> (rq_sent_at req = None \<and> rq_window_end req = None) \<or> \<not> ok then w
     else let r = ReadClock req received window in RecordClockReading (ck_offset r) (ck_skewed r) received w)"

section \<open>Silence\<close>

record AgentProcess =
  ap_started_at :: instant
  ap_heartbeat_at :: instant

text \<open>What a heartbeat proves of the process that sent it, part of \<^verbatim>\<open>RecordHeartbeat\<close>.\<close>

definition heartbeat_process :: "Heartbeat \<Rightarrow> instant \<Rightarrow> AgentProcess" where
  "heartbeat_process hb now = \<lparr>ap_started_at = now - sint (heartbeatUptime (hb_uptime_seconds hb)), ap_heartbeat_at = now\<rparr>"

definition SilenceWindows :: int where "SilenceWindows = 2"

definition ranThrough :: "AgentProcess option \<Rightarrow> instant \<Rightarrow> instant \<Rightarrow> duration \<Rightarrow> bool" where
  "ranThrough proc prev received window = (case proc of None \<Rightarrow> False
     | Some p \<Rightarrow> ap_started_at p \<le> prev \<and> received - window \<le> ap_heartbeat_at p)"

definition silent :: "instant option \<Rightarrow> AgentProcess option \<Rightarrow> instant \<Rightarrow> duration \<Rightarrow> bool" where
  "silent prev proc at window = (case prev of None \<Rightarrow> False
     | Some p \<Rightarrow> 0 < window \<and> SilenceWindows * window < at - p \<and> \<not> ranThrough proc p at window)"

definition silence_gap :: "instant \<Rightarrow> instant \<Rightarrow> StoredGap" where
  "silence_gap from to = \<lparr>sg_kind = EVIDENCE_GAP_KIND_AGENT_SILENT, sg_source = EVIDENCE_SOURCE_UNSPECIFIED, sg_from = from, sg_to = to, sg_count = None\<rparr>"

definition deriveSilence :: "instant option \<Rightarrow> AgentProcess option \<Rightarrow> ReportFlowsRequest \<Rightarrow> instant \<Rightarrow> duration \<Rightarrow> StoredGap option" where
  "deriveSilence prev proc req received window = (if \<not> silent prev proc received window then None
     else let p = the prev in case rq_window_start req of
        None \<Rightarrow> Some (silence_gap p received)
      | Some start \<Rightarrow> if start \<le> p then None else Some (silence_gap p (if start < received then start else received)))"

definition SilenceAtRetirement :: "instant option \<Rightarrow> AgentProcess option \<Rightarrow> instant \<Rightarrow> duration \<Rightarrow> StoredGap option" where
  "SilenceAtRetirement prev proc at window = (if \<not> silent prev proc at window then None else Some (silence_gap (the prev) at))"

text \<open>\<^verbatim>\<open>RecordFlowReport\<close>: the receipt never moves backwards, nor after a retirement.\<close>

definition RecordFlowReport :: "instant \<Rightarrow> AgentProcess option \<Rightarrow> Workload \<Rightarrow> (instant option \<times> AgentProcess option \<times> bool) \<times> Workload" where
  "RecordFlowReport received proc w = (if Retired w \<or> (case w_last_flow_report_at w of Some p \<Rightarrow> received \<le> p | None \<Rightarrow> False)
     then ((None, None, False), w)
     else ((w_last_flow_report_at w, proc, True), w\<lparr>w_last_flow_report_at := Some received\<rparr>))"

section \<open>Ingestion\<close>

record IngestResult =
  ir_accepted :: nat
  ir_rejected :: nat
  ir_gaps :: nat
  ir_gaps_rejected :: nat
  ir_derived :: nat

datatype ingest_error = ErrInvalidWindow | IngestUnknown | IngestRetired instant | IngestStoreError

record IngestState =
  is_workloads :: "Workload list"
  is_processes :: "(uuid, AgentProcess) gomap"
  is_tables :: FlowTables

text \<open>What the stores do for one report: \<open>None\<close> is a failing read, \<open>False\<close> a failing write.\<close>

record IngestEnv =
  ie_received :: instant
  ie_window :: duration
  ie_listed :: bool
  ie_receipt_ok :: bool
  ie_silence_ok :: bool
  ie_clock_ok :: bool
  ie_groups :: "AddressGroup list option"
  ie_write_ok :: bool

definition update_row :: "uuid \<Rightarrow> (Workload \<Rightarrow> Workload) \<Rightarrow> IngestState \<Rightarrow> IngestState" where
  "update_row k f st = st\<lparr>is_workloads := map (\<lambda>w. if w_id w = k then f w else w) (is_workloads st)\<rparr>"

text \<open>The receipt, and the gap of the silence it ended.\<close>

definition receive :: "IngestEnv \<Rightarrow> uuid \<Rightarrow> ReportFlowsRequest \<Rightarrow> Workload \<Rightarrow> IngestState \<Rightarrow> nat \<times> IngestState" where
  "receive env k req reporter st = (if \<not> ie_receipt_ok env then (0, st)
     else case RecordFlowReport (ie_received env) (map_of (is_processes st) k) reporter of
       ((prev, proc, advanced), w) \<Rightarrow>
         let st = update_row k (\<lambda>_. w) st in
         if \<not> advanced then (0, st)
         else (case deriveSilence prev proc req (ie_received env) (ie_window env) of
             None \<Rightarrow> (0, st)
           | Some gap \<Rightarrow> (case writeGaps (ie_silence_ok env) k [gap] (is_tables st) of
               Inl _ \<Rightarrow> (0, st)
             | Inr ft \<Rightarrow> (1, st\<lparr>is_tables := ft\<rparr>))))"

definition oks :: "('e, 'a) result list \<Rightarrow> 'a list" where
  "oks rs = List.map_filter (\<lambda>r. case r of Inl _ \<Rightarrow> None | Inr x \<Rightarrow> Some x) rs"

definition resolved_window :: "uuid \<Rightarrow> flow_index \<Rightarrow> instant \<Rightarrow> instant \<Rightarrow> ReportFlowsRequest \<Rightarrow> StoredWindow" where
  "resolved_window k ix start until req = \<lparr>sw_workload = k, sw_start = start, sw_end = until,
     sw_records = map (\<lambda>r. r\<lparr>sr_peer := Resolve ix (sr_src_address r)\<rparr>) (oks (map (\<lambda>fr. convert fr start until) (rq_records req))),
     sw_gaps = oks (map convertGap (take MaxGapsPerRequest (rq_gaps req)))\<rparr>"

definition Ingest :: "IngestEnv \<Rightarrow> uuid \<Rightarrow> ReportFlowsRequest \<Rightarrow> IngestState \<Rightarrow> (IngestResult \<times> ingest_error option) \<times> IngestState" where
  "Ingest env k req st =
     (let none = \<lparr>ir_accepted = 0, ir_rejected = 0, ir_gaps = 0, ir_gaps_rejected = 0, ir_derived = 0\<rparr> in
      if \<not> ie_listed env then ((none, Some IngestStoreError), st)
      else case find (\<lambda>w. w_id w = k) (is_workloads st) of
        None \<Rightarrow> ((none, Some IngestUnknown), st)
      | Some reporter \<Rightarrow> (case w_retired_at reporter of
          Some t \<Rightarrow> ((none, Some (IngestRetired t)), st)
        | None \<Rightarrow>
            let workloads = is_workloads st; (derived, st) = receive env k req reporter st;
                st = update_row k (checkClock (ie_clock_ok env) (ie_window env) req (ie_received env)) st;
                res = none\<lparr>ir_derived := derived\<rparr>
            in (case (rq_window_start req, rq_window_end req) of
                  (Some start, Some until) \<Rightarrow>
                    if until < start then ((res, Some ErrInvalidWindow), st)
                    else (case ie_groups env of
                        None \<Rightarrow> ((res, Some IngestStoreError), st)
                      | Some groups \<Rightarrow>
                          let w = resolved_window k (BuildIndex workloads groups) start until req;
                              res = res\<lparr>ir_rejected := length (rq_records req) - length (sw_records w), ir_gaps := length (sw_gaps w),
                                ir_gaps_rejected := length (rq_gaps req) - length (sw_gaps w)\<rparr>
                          in (case WriteWindow (ie_write_ok env) w (is_tables st) of
                                Inl _ \<Rightarrow> ((res, Some IngestStoreError), st)
                              | Inr (n, ft) \<Rightarrow> ((res\<lparr>ir_accepted := n\<rparr>, None), st\<lparr>is_tables := ft\<rparr>)))
                | _ \<Rightarrow> ((res, Some ErrInvalidWindow), st))))"

text \<open>\<^verbatim>\<open>ReportFlows\<close>: the requests of one stream, each with its environment; \<open>None\<close> is a caller without an identity.\<close>

fun ReportFlows :: "uuid \<Rightarrow> (IngestEnv \<times> ReportFlowsRequest) list \<Rightarrow> 64 word \<Rightarrow> IngestState \<Rightarrow> (gateway_error, 64 word) result \<times> IngestState" where
  "ReportFlows k [] accepted st = (Inr accepted, st)"
| "ReportFlows k ((env, req) # reqs) accepted st = (case Ingest env k req st of
     ((res, None), st) \<Rightarrow> ReportFlows k reqs (accepted + of_nat (ir_accepted res)) st
   | ((res, Some (IngestRetired _)), st) \<Rightarrow> (Inl Refused, st)
   | ((res, Some ErrInvalidWindow), st) \<Rightarrow> (Inl (InvalidArgument ''window bounds are missing or inverted''), st)
   | ((res, Some IngestUnknown), st) \<Rightarrow> (Inl PermissionDenied, st)
   | ((res, Some IngestStoreError), st) \<Rightarrow> (Inl (Internal ''ingesting flow window''), st))"

definition ReportFlows_start :: "uuid option \<Rightarrow> bool \<Rightarrow> (IngestEnv \<times> ReportFlowsRequest) list \<Rightarrow> IngestState \<Rightarrow> (gateway_error, 64 word) result \<times> IngestState" where
  "ReportFlows_start caller serves reqs st = (case caller of None \<Rightarrow> (Inl Unauthenticated, st)
     | Some k \<Rightarrow> if \<not> serves then (Inl FailedPrecondition, st) else ReportFlows k reqs 0 st)"

section \<open>What an agent reports is valid\<close>

definition observable :: "Observation \<Rightarrow> bool" where
  "observable ob = (reported_protocol (ob_protocol ob) \<and> reported_decision (ob_decision ob) \<and>
     length (ob_rule_id ob) \<le> maxFieldLength \<and> length (ob_process_name ob) \<le> maxFieldLength)"

lemma acc_process_length:
  assumes "\<forall>ob\<in>set obs. observable ob"
  shows "\<forall>k r. map_of (ag_records (fold Agg_Add obs (NewBoundedAggregator start maxKeys))) k = Some r \<longrightarrow> length (acc_process r) \<le> maxFieldLength"
  using assms
proof (induction obs rule: rev_induct)
  case Nil
  show ?case by (simp add: NewBoundedAggregator_def)
next
  case (snoc ob obs)
  then have "length (ob_process_name ob) \<le> maxFieldLength" by (simp add: observable_def)
  with snoc show ?case by (auto simp: Agg_Add_def fold_into_def update_conv' split: option.split_asm if_split_asm)
qed

lemma hold_within_mono: "start \<le> until \<Longrightarrow> s \<le> t \<Longrightarrow> hold_within within start until s \<le> hold_within within start until t"
  by (auto simp: hold_within_def)

lemma port_in_range: "(ucast (p :: 16 word) :: 32 word) \<le> 65535"
proof -
  have p: "unat p < 65536" using unsigned_less [of p, where ?'a = nat] by simp
  then have "unat (ucast p :: 32 word) < 65536" by (simp add: unsigned_ucast_eq take_bit_nat_eq_self)
  then show ?thesis by (simp add: word_le_nat_alt)
qed

lemma closed_record:
  assumes "\<forall>ob\<in>set obs. observable ob" and "start \<le> until"
    and "close_window until nxt within (fold Agg_Add obs (NewBoundedAggregator start maxKeys), g) = (w, rest)" and "fr \<in> set (win_records w)"
  obtains r where "convert fr s u = Inr r"
proof -
  let ?a = "fold Agg_Add obs (NewBoundedAggregator start maxKeys)"
  from assms(3,4) obtain k acc where fr: "fr = flow_record (hold_within within start until) k acc" "map_of (ag_records ?a) k = Some acc"
    by (auto simp: close_window_def Let_def map_of_eq_None_iff image_iff dest!: weak_map_of_SomeI)
  have su: "sums_up (observed k obs) acc" using agg_exact_fold [of obs start maxKeys] fr(2) by (auto simp: agg_exact_def)
  then obtain ob where ob: "ob \<in> set (observed k obs)" by (cases "observed k obs") (auto simp: sums_up_def)
  then have k: "k = key_of ob" "observable ob" using assms(1) by (auto simp: observed_def)
  have "acc_first acc \<le> ob_at ob" "ob_at ob \<le> acc_last acc" using su ob by (auto simp: sums_up_def)
  then have "hold_within within start until (acc_first acc) \<le> hold_within within start until (acc_last acc)" using hold_within_mono [OF assms(2)] by simp
  moreover have "length (acc_process acc) \<le> maxFieldLength" using acc_process_length [OF assms(1)] fr(2) by blast
  ultimately show thesis using that fr(1) k port_in_range
    by (auto simp: convert_def flow_record_def key_of_def observable_def not_less [symmetric])
qed

lemma oks_all: "\<forall>r\<in>set rs. \<exists>x. r = Inr x \<Longrightarrow> length (oks rs) = length rs"
  by (induction rs) (auto simp: oks_def List.map_filter_simps)

lemma convertGap_Wire:
  "gap_from gap \<le> gap_to gap \<Longrightarrow> gap_count gap \<le> 9223372036854775807 \<Longrightarrow> \<exists>g. convertGap (Gap_Wire gap) = Inr g"
  by (cases "gap_kind gap"; cases "gap_source gap") (auto simp: convertGap_def Gap_Wire_def not_less [symmetric])

lemma request_parts:
  assumes "req \<in> set (with_gaps gaps (Batches w n))"
  shows "set (rq_records req) \<subseteq> set (win_records w) \<and> rq_window_start req = Some (win_start w) \<and> rq_window_end req = Some (win_end w) \<and>
    set (rq_gaps req) \<subseteq> Gap_Wire ` set gaps \<and> length (rq_gaps req) \<le> length gaps"
proof -
  have b: "set (rq_records r) \<subseteq> set (win_records w) \<and> rq_window_start r = Some (win_start w) \<and> rq_window_end r = Some (win_end w) \<and> rq_gaps r = []"
    if "r \<in> set (Batches w n)" for r
  proof -
    have "concat (map rq_records (Batches w n)) = win_records w" "rq_window_start r = Some (win_start w)" "rq_window_end r = Some (win_end w)"
      using that Batches_partition [of w n] by (auto simp: list_all_iff)
    moreover have "set (rq_records r) \<subseteq> set (concat (map rq_records (Batches w n)))" using that by auto
    moreover have "rq_gaps r = []" using that by (auto simp: Batches_def window_request_def Let_def split: if_split_asm)
    ultimately show ?thesis by simp
  qed
  show ?thesis
  proof (cases "Batches w n")
    case (Cons r rs)
    then show ?thesis using assms b [of r] b [of req] by (auto simp: with_gaps_def)
  qed (use assms in \<open>simp add: with_gaps_def\<close>)
qed

text \<open>An active reporter's window with bounds in order is stored, less what validation refuses.\<close>

lemma receive_totals: "receive env k req reporter st = (n, st') \<Longrightarrow> ft_totals (is_tables st') = ft_totals (is_tables st)"
  by (auto simp: receive_def writeGaps_def update_row_def Let_def split: prod.split_asm if_split_asm option.split_asm sum.split_asm)

lemma Ingest_stores:
  assumes "find (\<lambda>w. w_id w = k) (is_workloads st) = Some reporter" "w_retired_at reporter = None" "ie_listed env" "ie_write_ok env" "ie_groups env = Some groups"
    and "rq_window_start req = Some start" "rq_window_end req = Some until" "start \<le> until"
    and "list_all (upsert_fits k (ft_totals (is_tables st))) (AggregateTotals (sw_records (resolved_window k (BuildIndex (is_workloads st) groups) start until req)))"
  shows "\<exists>res st'. Ingest env k req st = ((res, None), st') \<and>
    ir_accepted res = length (sw_records (resolved_window k (BuildIndex (is_workloads st) groups) start until req)) \<and>
    ir_rejected res = length (rq_records req) - ir_accepted res \<and>
    ir_gaps_rejected res = length (rq_gaps req) - length (sw_gaps (resolved_window k (BuildIndex (is_workloads st) groups) start until req))"
proof -
  obtain derived st1 where r: "receive env k req reporter st = (derived, st1)" by (cases "receive env k req reporter st")
  have "sw_workload (resolved_window k ix start until req) = k" for ix by (simp add: resolved_window_def)
  moreover have "is_tables (update_row k f st1) = is_tables st1" for f by (simp add: update_row_def)
  ultimately show ?thesis using assms r receive_totals [OF r] by (auto simp: Ingest_def Let_def WriteWindow_def writeGaps_def)
qed

section \<open>Derived silences\<close>

lemma deriveSilence_bounds:
  "deriveSilence prev proc req received window = Some g \<Longrightarrow> \<exists>p. prev = Some p \<and> sg_from g = p \<and> p < sg_to g \<and> sg_to g \<le> received \<and>
     SilenceWindows * window < received - p \<and> \<not> ranThrough proc p received window"
  by (auto simp: deriveSilence_def silent_def silence_gap_def SilenceWindows_def Let_def split: option.split_asm if_split_asm)

text \<open>The silences the reports of one workload reveal, in the order they are received.\<close>

fun silences :: "duration \<Rightarrow> (instant \<times> AgentProcess option \<times> ReportFlowsRequest) list \<Rightarrow> Workload \<Rightarrow> StoredGap list" where
  "silences window [] w = []"
| "silences window ((received, proc, req) # reports) w = (case RecordFlowReport received proc w of
     ((prev, proc, advanced), w) \<Rightarrow>
       (if advanced then (case deriveSilence prev proc req received window of None \<Rightarrow> [] | Some g \<Rightarrow> [g]) else []) @ silences window reports w)"

lemma silences_after: "w_last_flow_report_at w = Some p \<Longrightarrow> g \<in> set (silences window reports w) \<Longrightarrow> p \<le> sg_from g"
proof (induction reports arbitrary: w p)
  case (Cons x reports)
  obtain received proc req where x: "x = (received, proc, req)" by (cases x)
  show ?case
  proof (cases "Retired w \<or> received \<le> p")
    case True
    with Cons x show ?thesis by (auto simp: RecordFlowReport_def)
  next
    case False
    with Cons.prems x have "g \<in> set (case deriveSilence (Some p) proc req received window of None \<Rightarrow> [] | Some g \<Rightarrow> [g]) \<or>
        g \<in> set (silences window reports (w\<lparr>w_last_flow_report_at := Some received\<rparr>))" by (simp add: RecordFlowReport_def)
    then show ?thesis
    proof
      assume "g \<in> set (case deriveSilence (Some p) proc req received window of None \<Rightarrow> [] | Some g \<Rightarrow> [g])"
      then show ?thesis using deriveSilence_bounds [of "Some p" proc req received window g] by (auto split: option.split_asm)
    next
      assume "g \<in> set (silences window reports (w\<lparr>w_last_flow_report_at := Some received\<rparr>))"
      from Cons.IH [OF _ this, of received] False show ?thesis by simp
    qed
  qed
qed simp

lemma silences_ordered: "sorted_wrt (\<lambda>g h. sg_to g \<le> sg_from h) (silences window reports w)"
proof (induction reports arbitrary: w)
  case (Cons x reports)
  obtain received proc req where x: "x = (received, proc, req)" by (cases x)
  show ?case
  proof (cases "snd (snd (fst (RecordFlowReport received proc w)))")
    case False
    with Cons x show ?thesis by (auto simp: RecordFlowReport_def split: if_split_asm)
  next
    case True
    let ?w = "w\<lparr>w_last_flow_report_at := Some received\<rparr>"
    have r: "RecordFlowReport received proc w = ((w_last_flow_report_at w, proc, True), ?w)" using True by (auto simp: RecordFlowReport_def split: if_split_asm)
    have "\<forall>h\<in>set (silences window reports ?w). received \<le> sg_from h" using silences_after [of ?w received _ window reports] by simp
    with Cons.IH [of ?w] show ?thesis using deriveSilence_bounds [of "w_last_flow_report_at w" proc req received window]
      by (auto simp: x r split: option.split)
  qed
qed simp

section \<open>Properties\<close>


definition demo_ingest_env :: IngestEnv where
  "demo_ingest_env = \<lparr>ie_received = 100, ie_window = 60, ie_listed = True, ie_receipt_ok = True, ie_silence_ok = True, ie_clock_ok = True,
     ie_groups = Some [], ie_write_ok = True\<rparr>"

definition demo_ingest_state :: IngestState where
  "demo_ingest_state = \<lparr>is_workloads = [demo_workload], is_processes = [], is_tables = empty_tables\<rparr>"


end
