(* ===== verification/Enroll.thy ===== *)
theory Enroll
  imports PolicyModel Registry
begin

text \<open>
  Workload identity and enrollment: the identity in a certificate (\<^verbatim>\<open>internal/identity\<close>), provisioning
  tokens (\<^verbatim>\<open>internal/enroll/token.go\<close>), enrollment, renewal and the validity of credentials
  (\<^verbatim>\<open>internal/enroll/service.go\<close>) over the tables they write (\<^verbatim>\<open>internal/store/store.go\<close>). Parsing of a
  UUID, SHA-256, the authority's signature and X.509 decoding are parameters. A UUID is the text it
  prints as. Instants and durations are integers, in nanoseconds.
\<close>

section \<open>Identity\<close>

record URL =
  u_scheme :: string
  u_opaque :: string
  u_user :: bool
  u_host :: string
  u_path :: string
  u_raw_path :: string
  u_force_query :: bool
  u_raw_query :: string
  u_fragment :: string

definition Scheme :: string where "Scheme = ''innerwall''"
definition hostWorkload :: string where "hostWorkload = ''workload''"
definition nil_uuid :: uuid where "nil_uuid = ''00000000-0000-0000-0000-000000000000''"

datatype identity_error = ErrNoIdentity | ErrAmbiguousIdentity | BadWorkloadID | NilUUID | NilURI | BadScheme | BadURIForm | BadQuery | NotCanonical

definition ParseWorkloadID :: "(string \<Rightarrow> uuid option) \<Rightarrow> string \<Rightarrow> (identity_error, uuid) result" where
  "ParseWorkloadID parse s = (case parse s of
     None \<Rightarrow> Inl BadWorkloadID
   | Some u \<Rightarrow> if u = nil_uuid then Inl NilUUID else Inr u)"

definition WorkloadID_URI :: "uuid \<Rightarrow> URL" where
  "WorkloadID_URI w = \<lparr>u_scheme = Scheme, u_opaque = [], u_user = False, u_host = hostWorkload, u_path = CHR ''/'' # w, u_raw_path = [],
     u_force_query = False, u_raw_query = [], u_fragment = []\<rparr>"

definition ParseURI :: "(string \<Rightarrow> uuid option) \<Rightarrow> URL option \<Rightarrow> (identity_error, uuid) result" where
  "ParseURI parse uri = (case uri of
     None \<Rightarrow> Inl NilURI
   | Some u \<Rightarrow>
      if u_scheme u \<noteq> Scheme then Inl BadScheme
      else if u_host u \<noteq> hostWorkload \<or> u_user u \<or> u_opaque u \<noteq> [] then Inl BadURIForm
      else if u_raw_query u \<noteq> [] \<or> u_fragment u \<noteq> [] \<or> u_force_query u then Inl BadQuery
      else if length (u_path u) < 2 \<or> hd (u_path u) \<noteq> CHR ''/'' then Inl BadURIForm
      else if u_raw_path u \<noteq> [] then Inl BadURIForm
      else if length (tl (u_path u)) \<noteq> 36 then Inl NotCanonical
      else bind_result (ParseWorkloadID parse (tl (u_path u))) (\<lambda>w. if w \<noteq> tl (u_path u) then Inl NotCanonical else Inr w))"

record Certificate =
  cert_serial :: nat
  cert_uris :: "URL list"
  cert_not_before :: instant
  cert_not_after :: instant

definition FromCertificate :: "(string \<Rightarrow> uuid option) \<Rightarrow> Certificate option \<Rightarrow> (identity_error, uuid) result" where
  "FromCertificate parse cert = (case cert of
     None \<Rightarrow> Inl ErrNoIdentity
   | Some c \<Rightarrow> (case cert_uris c of
       [] \<Rightarrow> Inl ErrNoIdentity
     | [u] \<Rightarrow> ParseURI parse (Some u)
     | _ \<Rightarrow> Inl ErrAmbiguousIdentity))"

definition CredentialSerial :: "Certificate \<Rightarrow> string" where
  "CredentialSerial c = show_hex (cert_serial c)"

section \<open>Tokens\<close>

definition TokenPrefix :: string where "TokenPrefix = ''iw_''"
definition tokenEntropyBytes :: nat where "tokenEntropyBytes = 32"
definition listPrefixChars :: nat where "listPrefixChars = 8"

record Token =
  tok_id :: uuid
  tok_hash :: string
  tok_prefix :: "string option"
  tok_name :: string
  tok_labels :: "Label list"
  tok_created_at :: instant
  tok_expires_at :: instant
  tok_revoked_at :: "instant option"
  tok_use_count :: nat
  tok_last_used_at :: "instant option"

datatype enroll_error = ErrTokenMalformed | ErrTokenUnknown | ErrTokenExpired | ErrTokenRevoked | ErrTokenLabelsInvalid Findings
  | LabelsInvalid Findings | ErrCredentialExpired | ErrCredentialNotYetValid | ErrEnrollWorkloadUnknown | ErrEnrollRetired instant
  | ErrBadCSR | EnrollFailed

text \<open>\<^verbatim>\<open>base64.RawURLEncoding\<close>: what it writes, and how many bytes it reads; line breaks are skipped when reading.\<close>

definition b64_char :: "nat \<Rightarrow> char" where
  "b64_char n = (if n < 26 then char_of (65 + n) else if n < 52 then char_of (71 + n) else if n < 62 then char_of (n - 4)
     else if n = 62 then CHR ''-'' else CHR ''_'')"

fun b64_encode :: "nat list \<Rightarrow> string" where
  "b64_encode [] = []"
| "b64_encode [a] = [b64_char (a div 4), b64_char (a mod 4 * 16)]"
| "b64_encode [a, b] = [b64_char (a div 4), b64_char (a mod 4 * 16 + b div 16), b64_char (b mod 16 * 4)]"
| "b64_encode (a # b # c # bs) = [b64_char (a div 4), b64_char (a mod 4 * 16 + b div 16), b64_char (b mod 16 * 4 + c div 64), b64_char (c mod 64)] @ b64_encode bs"

definition in_b64 :: "char \<Rightarrow> bool" where
  "in_b64 c = (let n = of_char c :: nat in (65 \<le> n \<and> n \<le> 90) \<or> (97 \<le> n \<and> n \<le> 122) \<or> (48 \<le> n \<and> n \<le> 57) \<or> c = CHR ''-'' \<or> c = CHR ''_'')"

definition b64_decoded_length :: "string \<Rightarrow> nat option" where
  "b64_decoded_length s = (let cs = filter (\<lambda>c. c \<noteq> CHR 0x0A \<and> c \<noteq> CHR 0x0D) s in
     if list_all in_b64 cs \<and> length cs mod 4 \<noteq> 1 then Some (length cs * 6 div 8) else None)"

definition HashToken :: "(string \<Rightarrow> string) \<Rightarrow> string \<Rightarrow> (enroll_error, string) result" where
  "HashToken sha plaintext = (if \<not> starts_with TokenPrefix plaintext then Inl ErrTokenMalformed
     else if b64_decoded_length (trim_prefix TokenPrefix plaintext) \<noteq> Some tokenEntropyBytes then Inl ErrTokenMalformed
     else Inr (sha plaintext))"

text \<open>\<open>raw\<close>: the random bytes, when drawing them succeeded.\<close>

definition NewToken :: "(string \<Rightarrow> string) \<Rightarrow> nat list option \<Rightarrow> (enroll_error, string \<times> string) result" where
  "NewToken sha raw = (case raw of
     None \<Rightarrow> Inl EnrollFailed
   | Some bs \<Rightarrow> let plaintext = TokenPrefix @ b64_encode bs in bind_result (HashToken sha plaintext) (\<lambda>h. Inr (plaintext, h)))"

definition ListingHint :: "string \<Rightarrow> string" where
  "ListingHint plaintext = (let n = length TokenPrefix + listPrefixChars in if length plaintext < n then plaintext else take n plaintext)"

definition Token_Check :: "Token option \<Rightarrow> instant \<Rightarrow> enroll_error option" where
  "Token_Check t now = (case t of
     None \<Rightarrow> Some ErrTokenUnknown
   | Some t \<Rightarrow>
      if (case tok_revoked_at t of Some r \<Rightarrow> r \<le> now | None \<Rightarrow> False) then Some ErrTokenRevoked
      else if tok_expires_at t \<le> now then Some ErrTokenExpired
      else None)"

section \<open>The tables\<close>

record EnrolledWorkload =
  ew_id :: uuid
  ew_token_id :: uuid
  ew_hostname :: string
  ew_labels :: "Label list"
  ew_enrolled_at :: instant
  ew_credential_serial :: string
  ew_credential_expires_at :: instant
  ew_last_renewed_at :: "instant option"
  ew_late_renewal :: "LateRenewal option"
  ew_retired_at :: "instant option"

record enroll_db =
  db_tokens :: "Token list"
  db_workloads :: "EnrolledWorkload list"

text \<open>
  \<open>ok\<close> says the database takes the statement. A transaction that fails leaves the tables as they
  were. The keys are the schema's: token id and hash, workload id, label key per owner.
\<close>

definition distinct_keys :: "Label list \<Rightarrow> bool" where
  "distinct_keys ls = distinct (map label_key ls)"

definition CreateToken :: "bool \<Rightarrow> Token \<Rightarrow> enroll_db \<Rightarrow> (enroll_error, enroll_db) result" where
  "CreateToken ok t db = (if \<not> ok \<or> tok_id t \<in> tok_id ` set (db_tokens db) \<or> tok_hash t \<in> tok_hash ` set (db_tokens db) \<or> \<not> distinct_keys (tok_labels t)
     then Inl EnrollFailed else Inr (db\<lparr>db_tokens := db_tokens db @ [t]\<rparr>))"

definition FindTokenByHash :: "bool \<Rightarrow> string \<Rightarrow> enroll_db \<Rightarrow> (enroll_error, Token) result" where
  "FindTokenByHash ok hash db = (if \<not> ok then Inl EnrollFailed else
     case find (\<lambda>t. tok_hash t = hash) (db_tokens db) of None \<Rightarrow> Inl ErrTokenUnknown | Some t \<Rightarrow> Inr t)"

definition revoke_row :: "uuid \<Rightarrow> instant \<Rightarrow> Token \<Rightarrow> Token" where
  "revoke_row k now t = (if tok_id t = k \<and> tok_revoked_at t = None then t\<lparr>tok_revoked_at := Some now\<rparr> else t)"

definition RevokeToken :: "bool \<Rightarrow> uuid \<Rightarrow> instant \<Rightarrow> enroll_db \<Rightarrow> (enroll_error, enroll_db) result" where
  "RevokeToken ok k now db = (if \<not> ok then Inl EnrollFailed else
     case find (\<lambda>t. tok_id t = k) (db_tokens db) of
       None \<Rightarrow> Inl ErrTokenUnknown
     | Some t \<Rightarrow> if tok_revoked_at t \<noteq> None then Inl ErrTokenRevoked else Inr (db\<lparr>db_tokens := map (revoke_row k now) (db_tokens db)\<rparr>))"

definition use_row :: "uuid \<Rightarrow> instant \<Rightarrow> Token \<Rightarrow> Token" where
  "use_row k now t = (if tok_id t = k then t\<lparr>tok_use_count := tok_use_count t + 1, tok_last_used_at := Some now\<rparr> else t)"

definition CreateWorkload :: "bool \<Rightarrow> EnrolledWorkload \<Rightarrow> instant \<Rightarrow> enroll_db \<Rightarrow> (enroll_error, enroll_db) result" where
  "CreateWorkload ok w now db = (if \<not> ok \<or> ew_id w \<in> ew_id ` set (db_workloads db) \<or> \<not> distinct_keys (ew_labels w) then Inl EnrollFailed
     else Inr (db\<lparr>db_workloads := db_workloads db @ [w], db_tokens := map (use_row (ew_token_id w) now) (db_tokens db)\<rparr>))"

definition GetWorkload :: "bool \<Rightarrow> uuid \<Rightarrow> enroll_db \<Rightarrow> (enroll_error, EnrolledWorkload) result" where
  "GetWorkload ok k db = (if \<not> ok then Inl EnrollFailed else
     case find (\<lambda>w. ew_id w = k) (db_workloads db) of None \<Rightarrow> Inl ErrEnrollWorkloadUnknown | Some w \<Rightarrow> Inr w)"

definition renew_row :: "uuid \<Rightarrow> string \<Rightarrow> instant \<Rightarrow> instant \<Rightarrow> LateRenewal option \<Rightarrow> EnrolledWorkload \<Rightarrow> EnrolledWorkload" where
  "renew_row k serial expires now late w = (if ew_id w = k \<and> ew_retired_at w = None
     then w\<lparr>ew_credential_serial := serial, ew_credential_expires_at := expires, ew_last_renewed_at := Some now,
       ew_late_renewal := (case late of None \<Rightarrow> ew_late_renewal w | Some l \<Rightarrow> Some \<lparr>late_renewed_at = now, late_expired_at = late_expired_at l\<rparr>)\<rparr>
     else w)"

definition RecordRenewal :: "bool \<Rightarrow> uuid \<Rightarrow> string \<Rightarrow> instant \<Rightarrow> instant \<Rightarrow> LateRenewal option \<Rightarrow> enroll_db \<Rightarrow> (enroll_error, enroll_db) result" where
  "RecordRenewal ok k serial expires now late db = (if \<not> ok then Inl EnrollFailed else
     case find (\<lambda>w. ew_id w = k) (db_workloads db) of
       None \<Rightarrow> Inl ErrEnrollWorkloadUnknown
     | Some w \<Rightarrow> (case ew_retired_at w of Some t \<Rightarrow> Inl (ErrEnrollRetired t)
         | None \<Rightarrow> Inr (db\<lparr>db_workloads := map (renew_row k serial expires now late) (db_workloads db)\<rparr>)))"

section \<open>Validity\<close>

definition truncate_second :: "duration \<Rightarrow> duration" where
  "truncate_second d = sgn d * (\<bar>d\<bar> div 1000000000 * 1000000000)"

definition DefaultLeafTTL :: duration where "DefaultLeafTTL = 24 * 3600 * 1000000000"
definition DefaultRenewalGrace :: duration where "DefaultRenewalGrace = 72 * 3600 * 1000000000"
definition DefaultTokenTTL :: duration where "DefaultTokenTTL = 30 * 24 * 3600 * 1000000000"

record EnrollConfig =
  ec_leaf_ttl :: duration
  ec_renewal_grace :: duration

definition leafTTL :: "EnrollConfig \<Rightarrow> duration" where
  "leafTTL cfg = (if 0 < ec_leaf_ttl cfg then ec_leaf_ttl cfg else DefaultLeafTTL)"

definition Grace :: "EnrollConfig \<Rightarrow> duration" where
  "Grace cfg = (if 0 < ec_renewal_grace cfg then ec_renewal_grace cfg else DefaultRenewalGrace)"

datatype Standing = StandingValid | StandingInGrace | StandingPastGrace

definition StandingAt :: "instant \<Rightarrow> instant \<Rightarrow> duration \<Rightarrow> Standing" where
  "StandingAt notAfter now grace = (if now \<le> notAfter then StandingValid
     else if grace < truncate_second (now - notAfter) then StandingPastGrace else StandingInGrace)"

definition AdmitCredential :: "EnrollConfig \<Rightarrow> instant \<Rightarrow> instant \<Rightarrow> instant \<Rightarrow> bool \<Rightarrow> enroll_error option" where
  "AdmitCredential cfg now notBefore notAfter renewal = (if now < notBefore then Some ErrCredentialNotYetValid
     else case StandingAt notAfter now (Grace cfg) of
       StandingValid \<Rightarrow> None
     | StandingPastGrace \<Rightarrow> Some ErrCredentialExpired
     | StandingInGrace \<Rightarrow> if renewal then None else Some ErrCredentialExpired)"

section \<open>Enrollment and renewal\<close>

definition validateLabels :: "Label list \<Rightarrow> Findings option" where
  "validateLabels ls = ValidateLabelSet (map (\<lambda>l. (label_key l, label_value l)) ls)"

text \<open>\<open>fresh\<close>: the new token id.\<close>

definition MintToken :: "(string \<Rightarrow> string) \<Rightarrow> nat list option \<Rightarrow> uuid \<Rightarrow> bool \<Rightarrow> instant \<Rightarrow> string \<Rightarrow> Label list \<Rightarrow> duration \<Rightarrow> enroll_db
    \<Rightarrow> (enroll_error, string \<times> Token \<times> enroll_db) result" where
  "MintToken sha raw fresh ok now name labels ttl db = (let ttl = (if ttl \<le> 0 then DefaultTokenTTL else ttl) in
     case validateLabels labels of
       Some f \<Rightarrow> Inl (LabelsInvalid f)
     | None \<Rightarrow> bind_result (NewToken sha raw) (\<lambda>(plaintext, hash).
         let tok = \<lparr>tok_id = fresh, tok_hash = hash, tok_prefix = Some (ListingHint plaintext), tok_name = name, tok_labels = labels,
           tok_created_at = now, tok_expires_at = now + ttl, tok_revoked_at = None, tok_use_count = 0, tok_last_used_at = None\<rparr>
         in bind_result (CreateToken ok tok db) (\<lambda>db. Inr (plaintext, tok, db))))"

text \<open>The authority behind its interface, and decoding of what it signs: PEM, then X.509.\<close>

record Authority =
  au_sign :: "string \<Rightarrow> uuid \<Rightarrow> duration \<Rightarrow> (enroll_error, string) result"
  au_bundle :: "(enroll_error, string) result"
  au_decode :: "string \<Rightarrow> Certificate option"

record Credential =
  cr_certificate_pem :: string
  cr_bundle_pem :: string
  cr_serial :: string
  cr_expires_at :: instant
  cr_late_by :: duration

definition issue :: "(string \<Rightarrow> uuid option) \<Rightarrow> Authority \<Rightarrow> EnrollConfig \<Rightarrow> uuid \<Rightarrow> string \<Rightarrow> (enroll_error, Credential) result" where
  "issue parse au cfg k csr = bind_result (au_sign au csr k (leafTTL cfg)) (\<lambda>pem.
     bind_result (au_bundle au) (\<lambda>bundle.
     case au_decode au pem of
       None \<Rightarrow> Inl EnrollFailed
     | Some cert \<Rightarrow> if FromCertificate parse (Some cert) \<noteq> Inr k then Inl EnrollFailed
         else Inr \<lparr>cr_certificate_pem = pem, cr_bundle_pem = bundle, cr_serial = CredentialSerial cert,
           cr_expires_at = cert_not_after cert, cr_late_by = 0\<rparr>))"

text \<open>
  \<open>drawn\<close> is the new identity, when one could be drawn; \<open>found\<close> and \<open>written\<close> say the database takes
  the read and the write.
\<close>

definition Enroll :: "(string \<Rightarrow> string) \<Rightarrow> (string \<Rightarrow> uuid option) \<Rightarrow> Authority \<Rightarrow> EnrollConfig \<Rightarrow> uuid option \<Rightarrow> bool \<Rightarrow> bool \<Rightarrow> instant
    \<Rightarrow> string \<Rightarrow> string \<Rightarrow> string \<Rightarrow> enroll_db \<Rightarrow> (enroll_error, EnrolledWorkload \<times> Credential) result \<times> enroll_db" where
  "Enroll sha parse au cfg drawn found written now plaintext csr hostname db =
     (case bind_result (HashToken sha plaintext) (\<lambda>hash. FindTokenByHash found hash db) of
        Inl e \<Rightarrow> (Inl e, db)
      | Inr tok \<Rightarrow> (case Token_Check (Some tok) now of
          Some e \<Rightarrow> (Inl e, db)
        | None \<Rightarrow> (case validateLabels (tok_labels tok) of
            Some f \<Rightarrow> (Inl (ErrTokenLabelsInvalid f), db)
          | None \<Rightarrow> (case drawn of
              None \<Rightarrow> (Inl EnrollFailed, db)
            | Some k \<Rightarrow> (case issue parse au cfg k csr of
                Inl e \<Rightarrow> (Inl e, db)
              | Inr cred \<Rightarrow> let w = \<lparr>ew_id = k, ew_token_id = tok_id tok, ew_hostname = hostname, ew_labels = tok_labels tok,
                    ew_enrolled_at = now, ew_credential_serial = cr_serial cred, ew_credential_expires_at = cr_expires_at cred,
                    ew_last_renewed_at = None, ew_late_renewal = None, ew_retired_at = None\<rparr>
                  in (case CreateWorkload written w now db of Inl e \<Rightarrow> (Inl e, db) | Inr db' \<Rightarrow> (Inr (w, cred), db')))))))"

text \<open>
  The clock is read when the presented credential is admitted and again after the authority signed.
  \<open>meanwhile\<close> is what other processes did to the tables in between, a retirement included.
\<close>

definition Renew :: "(enroll_db \<Rightarrow> enroll_db) \<Rightarrow> (string \<Rightarrow> uuid option) \<Rightarrow> Authority \<Rightarrow> EnrollConfig \<Rightarrow> bool \<Rightarrow> bool \<Rightarrow> instant \<Rightarrow> instant \<Rightarrow> uuid \<Rightarrow> instant \<Rightarrow> instant \<Rightarrow> string
    \<Rightarrow> enroll_db \<Rightarrow> (enroll_error, Credential) result \<times> enroll_db" where
  "Renew meanwhile parse au cfg found written admitted now k presentedFrom presentedUntil csr db =
     (case AdmitCredential cfg admitted presentedFrom presentedUntil True of
        Some e \<Rightarrow> (Inl e, db)
      | None \<Rightarrow> (case GetWorkload found k db of
          Inl e \<Rightarrow> (Inl e, db)
        | Inr w \<Rightarrow> (case ew_retired_at w of
            Some t \<Rightarrow> (Inl (ErrEnrollRetired t), db)
          | None \<Rightarrow> (case issue parse au cfg k csr of
              Inl e \<Rightarrow> (Inl e, meanwhile db)
            | Inr cred \<Rightarrow>
                let late = (if presentedUntil < now then Some \<lparr>late_renewed_at = now, late_expired_at = presentedUntil\<rparr> else None);
                    cred = (if presentedUntil < now then cred\<lparr>cr_late_by := now - presentedUntil\<rparr> else cred)
                in (case RecordRenewal written k (cr_serial cred) (cr_expires_at cred) now late (meanwhile db) of
                      Inl e \<Rightarrow> (Inl e, meanwhile db) | Inr db' \<Rightarrow> (Inr cred, db'))))))"

definition CheckNotRetired :: "bool \<Rightarrow> uuid \<Rightarrow> enroll_db \<Rightarrow> enroll_error option" where
  "CheckNotRetired ok k db = (case GetWorkload ok k db of
     Inl ErrEnrollWorkloadUnknown \<Rightarrow> None
   | Inl e \<Rightarrow> Some e
   | Inr w \<Rightarrow> (case ew_retired_at w of Some t \<Rightarrow> Some (ErrEnrollRetired t) | None \<Rightarrow> None))"

section \<open>An identity has one spelling\<close>

lemma ParseURI_Inr:
  "ParseURI parse (Some u) = Inr w \<longleftrightarrow> u = WorkloadID_URI w \<and> length w = 36 \<and> parse w = Some w \<and> w \<noteq> nil_uuid"
proof
  assume p: "ParseURI parse (Some u) = Inr w"
  then have f: "u_scheme u = Scheme" "u_host u = hostWorkload" "\<not> u_user u" "u_opaque u = []" "u_raw_query u = []" "u_fragment u = []"
    "\<not> u_force_query u" "\<not> length (u_path u) < 2" "hd (u_path u) = CHR ''/''" "u_raw_path u = []" "length (tl (u_path u)) = 36"
    and b: "ParseWorkloadID parse (tl (u_path u)) = Inr w" "w = tl (u_path u)"
    by (auto simp: ParseURI_def split: if_split_asm)
  have "u_path u = CHR ''/'' # w" using f(8,9) b(2) by (cases "u_path u") auto
  moreover have "parse w = Some w \<and> w \<noteq> nil_uuid" using b by (auto simp: ParseWorkloadID_def split: option.split_asm if_split_asm)
  ultimately show "u = WorkloadID_URI w \<and> length w = 36 \<and> parse w = Some w \<and> w \<noteq> nil_uuid"
    using f b(2) by (cases u) (simp add: WorkloadID_URI_def)
next
  assume "u = WorkloadID_URI w \<and> length w = 36 \<and> parse w = Some w \<and> w \<noteq> nil_uuid"
  then show "ParseURI parse (Some u) = Inr w" by (simp add: ParseURI_def WorkloadID_URI_def ParseWorkloadID_def)
qed

lemma FromCertificate_Inr:
  "FromCertificate parse (Some c) = Inr w \<longleftrightarrow> cert_uris c = [WorkloadID_URI w] \<and> length w = 36 \<and> parse w = Some w \<and> w \<noteq> nil_uuid"
proof (cases "cert_uris c")
  case (Cons u us)
  then show ?thesis by (cases us) (auto simp: FromCertificate_def ParseURI_Inr)
qed (simp add: FromCertificate_def)

section \<open>A drawn token is well formed\<close>

lemma in_b64_char: "in_b64 (b64_char n)"
proof -
  consider "n < 26" | "26 \<le> n" "n < 52" | "52 \<le> n" "n < 62" | "n = 62" | "62 < n" by linarith
  then show ?thesis
  proof cases
    case 3
    then have "48 \<le> n - 4" "n - 4 \<le> 57" by linarith+
    with 3 show ?thesis by (simp add: b64_char_def in_b64_def Let_def)
  qed (simp_all add: b64_char_def in_b64_def Let_def)
qed

lemma in_b64_no_break: "in_b64 c \<Longrightarrow> c \<noteq> CHR 0x0A \<and> c \<noteq> CHR 0x0D"
  by (auto simp: in_b64_def Let_def)

lemma b64_encode_in: "c \<in> set (b64_encode bs) \<Longrightarrow> in_b64 c"
  by (induction bs rule: b64_encode.induct) (auto simp: in_b64_char)

lemma length_b64_encode: "length (b64_encode bs) = (4 * length bs + 2) div 3"
  by (induction bs rule: b64_encode.induct) simp_all

lemma filter_b64_encode: "filter (\<lambda>c. c \<noteq> CHR 0x0A \<and> c \<noteq> CHR 0x0D) (b64_encode bs) = b64_encode bs"
  using b64_encode_in in_b64_no_break by (auto simp: filter_id_conv)

lemma HashToken_new: "length bs = tokenEntropyBytes \<Longrightarrow> HashToken sha (TokenPrefix @ b64_encode bs) = Inr (sha (TokenPrefix @ b64_encode bs))"
proof -
  assume l: "length bs = tokenEntropyBytes"
  have "list_all in_b64 (b64_encode bs)" using b64_encode_in by (auto simp: list_all_iff)
  then have "b64_decoded_length (b64_encode bs) = Some tokenEntropyBytes"
    using l by (simp add: b64_decoded_length_def filter_b64_encode length_b64_encode tokenEntropyBytes_def)
  then show ?thesis by (simp add: HashToken_def starts_with_def trim_prefix_def)
qed

section \<open>Validity\<close>

lemma AdmitCredential_None:
  "AdmitCredential cfg now notBefore notAfter renewal = None \<longleftrightarrow>
     notBefore \<le> now \<and> (now \<le> notAfter \<or> renewal \<and> truncate_second (now - notAfter) \<le> Grace cfg)"
  by (auto simp: AdmitCredential_def StandingAt_def)

lemma AdmitCredential_issuer: "AdmitCredential cfg now notBefore notAfter False = None \<longleftrightarrow> notBefore \<le> now \<and> now \<le> notAfter"
  by (auto simp: AdmitCredential_None)

section \<open>What issuing, enrolling and renewing leave behind\<close>

lemma issue_identity:
  "issue parse au cfg k csr = Inr cred \<Longrightarrow> \<exists>cert. au_decode au (cr_certificate_pem cred) = Some cert \<and> cert_uris cert = [WorkloadID_URI k] \<and>
     cr_serial cred = CredentialSerial cert \<and> cr_expires_at cred = cert_not_after cert"
  by (auto simp: issue_def FromCertificate_Inr split: option.split_asm if_split_asm)

lemma find_append_new: "find P xs = None \<Longrightarrow> find P (xs @ [x]) = (if P x then Some x else None)"
  by (induction xs) (auto split: if_split_asm)

lemma find_None_image: "k \<notin> f ` set xs \<Longrightarrow> find (\<lambda>x. f x = k) xs = None"
  by (auto simp: find_None_iff)

text \<open>A minted token is found by the hash of its plaintext.\<close>

lemma MintToken_stored:
  assumes "MintToken sha (Some bs) fresh ok now name labels ttl db = Inr (plaintext, tok, db1)" and "length bs = tokenEntropyBytes"
  shows "HashToken sha plaintext = Inr (tok_hash tok)" "db1 = db\<lparr>db_tokens := db_tokens db @ [tok]\<rparr>" "tok_hash tok \<notin> tok_hash ` set (db_tokens db)"
    "tok_id tok \<notin> tok_id ` set (db_tokens db)" "distinct_keys (tok_labels tok)" "validateLabels (tok_labels tok) = None" "tok_labels tok = labels"
    "tok_revoked_at tok = None" "tok_expires_at tok = now + (if ttl \<le> 0 then DefaultTokenTTL else ttl)"
proof -
  have h: "NewToken sha (Some bs) = Inr (TokenPrefix @ b64_encode bs, sha (TokenPrefix @ b64_encode bs))"
    using HashToken_new [OF assms(2)] by (simp add: NewToken_def Let_def)
  from assms(1) h HashToken_new [OF assms(2), of sha] show "HashToken sha plaintext = Inr (tok_hash tok)" "db1 = db\<lparr>db_tokens := db_tokens db @ [tok]\<rparr>"
    "tok_hash tok \<notin> tok_hash ` set (db_tokens db)" "tok_id tok \<notin> tok_id ` set (db_tokens db)" "distinct_keys (tok_labels tok)"
    "validateLabels (tok_labels tok) = None" "tok_labels tok = labels" "tok_revoked_at tok = None"
    "tok_expires_at tok = now + (if ttl \<le> 0 then DefaultTokenTTL else ttl)"
    by (auto simp: MintToken_def Let_def CreateToken_def split: option.split_asm if_split_asm)
qed

text \<open>What a minted token does: it enrolls, it expires, it is refused once revoked.\<close>

lemma Enroll_minted:
  assumes "MintToken sha (Some bs) fresh True minted name labels ttl db = Inr (plaintext, tok, db1)" and "length bs = tokenEntropyBytes"
    and "now < tok_expires_at tok" and "issue parse au cfg k csr = Inr cred" and "k \<notin> ew_id ` set (db_workloads db)"
  shows "\<exists>w. Enroll sha parse au cfg (Some k) True True now plaintext csr hostname db1 =
         (Inr (w, cred), db1\<lparr>db_workloads := db_workloads db @ [w],
            db_tokens := map (use_row (tok_id tok) now) (db_tokens db) @ [use_row (tok_id tok) now tok]\<rparr>) \<and>
         ew_id w = k \<and> ew_labels w = labels \<and> ew_token_id w = tok_id tok \<and> ew_credential_serial w = cr_serial cred"
proof -
  note m = MintToken_stored [OF assms(1,2)]
  have "FindTokenByHash True (tok_hash tok) db1 = Inr tok"
    using m(2) find_append_new [OF find_None_image [OF m(3)]] by (simp add: FindTokenByHash_def)
  then show ?thesis using m assms(3-5) by (auto simp: Enroll_def Token_Check_def CreateWorkload_def Let_def)
qed

lemma Enroll_expired:
  assumes "MintToken sha (Some bs) fresh True minted name labels ttl db = Inr (plaintext, tok, db1)" and "length bs = tokenEntropyBytes"
    and "tok_expires_at tok \<le> now"
  shows "Enroll sha parse au cfg drawn True written now plaintext csr hostname db1 = (Inl ErrTokenExpired, db1)"
proof -
  note m = MintToken_stored [OF assms(1,2)]
  have "FindTokenByHash True (tok_hash tok) db1 = Inr tok"
    using m(2) find_append_new [OF find_None_image [OF m(3)]] by (simp add: FindTokenByHash_def)
  then show ?thesis using m assms(3) by (simp add: Enroll_def Token_Check_def)
qed

lemma revoke_row_hash [simp]: "tok_hash (revoke_row k t r) = tok_hash r"
  by (simp add: revoke_row_def)

lemma Enroll_revoked:
  assumes "MintToken sha (Some bs) fresh True minted name labels ttl db = Inr (plaintext, tok, db1)" and "length bs = tokenEntropyBytes"
    and "RevokeToken True (tok_id tok) revoked db1 = Inr db2" and "revoked \<le> now"
  shows "Enroll sha parse au cfg drawn True written now plaintext csr hostname db2 = (Inl ErrTokenRevoked, db2)"
proof -
  note m = MintToken_stored [OF assms(1,2)]
  have db2: "db2 = db1\<lparr>db_tokens := map (revoke_row (tok_id tok) revoked) (db_tokens db1)\<rparr>"
    using assms(3) by (auto simp: RevokeToken_def split: option.split_asm if_split_asm)
  have n: "find (\<lambda>t. tok_hash t = tok_hash tok) (map (revoke_row (tok_id tok) revoked) (db_tokens db)) = None"
    by (rule find_None_image) (use m(3) in \<open>simp add: image_image\<close>)
  have "FindTokenByHash True (tok_hash tok) db2 = Inr (tok\<lparr>tok_revoked_at := Some revoked\<rparr>)"
    using db2 m(2,8) find_append_new [OF n] by (simp add: FindTokenByHash_def revoke_row_def [of _ _ tok])
  with assms(4) m(1) show ?thesis by (simp add: Enroll_def Token_Check_def)
qed

section \<open>Properties\<close>

definition demo_uuid :: uuid where "demo_uuid = ''11111111-1111-1111-1111-111111111111''"

definition demo_authority :: Authority where
  "demo_authority = \<lparr>au_sign = (\<lambda>csr k ttl. Inr ''pem''), au_bundle = Inr ''bundle'',
     au_decode = (\<lambda>_. Some \<lparr>cert_serial = 255, cert_uris = [WorkloadID_URI demo_uuid], cert_not_before = 0, cert_not_after = 100\<rparr>)\<rparr>"

definition demo_config :: EnrollConfig where "demo_config = \<lparr>ec_leaf_ttl = 0, ec_renewal_grace = 0\<rparr>"


lemma demo_minted:
  "MintToken (\<lambda>s. s) (Some (replicate 32 7)) ''t'' True 5 ''n'' [] 10 \<lparr>db_tokens = [], db_workloads = []\<rparr> =
     Inr (TokenPrefix @ b64_encode (replicate 32 7), \<lparr>tok_id = ''t'', tok_hash = TokenPrefix @ b64_encode (replicate 32 7),
       tok_prefix = Some (ListingHint (TokenPrefix @ b64_encode (replicate 32 7))), tok_name = ''n'', tok_labels = [], tok_created_at = 5,
       tok_expires_at = 15, tok_revoked_at = None, tok_use_count = 0, tok_last_used_at = None\<rparr>,
     \<lparr>db_tokens = [\<lparr>tok_id = ''t'', tok_hash = TokenPrefix @ b64_encode (replicate 32 7),
       tok_prefix = Some (ListingHint (TokenPrefix @ b64_encode (replicate 32 7))), tok_name = ''n'', tok_labels = [], tok_created_at = 5,
       tok_expires_at = 15, tok_revoked_at = None, tok_use_count = 0, tok_last_used_at = None\<rparr>], db_workloads = []\<rparr>)"
  using HashToken_new [of "replicate 32 7" "\<lambda>s. s"]
  by (simp add: MintToken_def validateLabels_def ValidateLabelSet_def findings_result_def no_findings_def NewToken_def Let_def CreateToken_def
      distinct_keys_def tokenEntropyBytes_def)


end
