(* ===== verification/GatewayAuth.thy ===== *)
theory GatewayAuth
  imports GatewaySync Enroll
begin

text \<open>
  Who may call the control plane and how a stream ends: the interceptor (\<^verbatim>\<open>internal/gateway/auth.go\<close>),
  the enrollment and renewal handlers (\<^verbatim>\<open>server.go\<close>), the refusal of retired workloads (\<^verbatim>\<open>retire.go\<close>)
  and the ends and directives of live streams (\<^verbatim>\<open>sync.go\<close>). The verification of a certificate chain is
  a parameter. The results: the interceptor admits exactly the verified, valid, active identities, an
  expired credential only to renew; and a retired workload finds every door shut.
\<close>

section \<open>The interceptor\<close>

definition enrollmentServicePrefix :: string where "enrollmentServicePrefix = ''/innerwall.v1.EnrollmentService/''"
definition renewMethod :: string where "renewMethod = ''/innerwall.v1.AgentService/RenewCredential''"

text \<open>A zero time is \<open>None\<close>.\<close>

record principal =
  pr_id :: uuid
  pr_serial :: string
  pr_not_before :: "instant option"
  pr_not_after :: "instant option"

definition IdentityFromContext :: "principal option \<Rightarrow> uuid option" where
  "IdentityFromContext p = (case p of None \<Rightarrow> None | Some p \<Rightarrow> if pr_id p = nil_uuid then None else Some (pr_id p))"

definition presentedCredential :: "principal option \<Rightarrow> PresentedCredential option" where
  "presentedCredential p = (case p of None \<Rightarrow> None | Some p \<Rightarrow>
     if pr_serial p = [] then None
     else map_option (\<lambda>t. \<lparr>pres_serial = pr_serial p, pres_expires_at = t\<rparr>) (pr_not_after p))"

text \<open>
  \<open>verify\<close> is \<^verbatim>\<open>x509.Certificate.Verify\<close> of the first certificate against the bundle, with the rest as
  intermediates, for client authentication and as of the leaf's own expiry: the first verified
  chain, leaf first. \<open>roots\<close> says that there is a bundle.
\<close>

definition verifyChain :: "bool \<Rightarrow> (Certificate list \<Rightarrow> Certificate list option) \<Rightarrow> Certificate list \<Rightarrow> Certificate list option" where
  "verifyChain roots verify certs = (if \<not> roots then None else verify certs)"

text \<open>The handshake: a client that presents no certificate passes, and the interceptor decides.\<close>

definition VerifyConnection :: "bool \<Rightarrow> (Certificate list \<Rightarrow> Certificate list option) \<Rightarrow> Certificate list \<Rightarrow> bool" where
  "VerifyConnection roots verify certs = (certs = [] \<or> verifyChain roots verify certs \<noteq> None)"

text \<open>\<open>peer\<close>: the certificates the connection presented, when it is a TLS connection.\<close>

definition verifiedChain :: "bool \<Rightarrow> (Certificate list \<Rightarrow> Certificate list option) \<Rightarrow> Certificate list option \<Rightarrow> (gateway_error, Certificate list) result" where
  "verifiedChain roots verify peer = (case peer of
     None \<Rightarrow> Inl Unauthenticated
   | Some certs \<Rightarrow> if certs = [] then Inl Unauthenticated
       else (case verifyChain roots verify certs of None \<Rightarrow> Inl Unauthenticated | Some chain \<Rightarrow> Inr chain))"

definition refuse_retired :: "enroll_error \<Rightarrow> gateway_error" where
  "refuse_retired e = (case e of ErrEnrollRetired _ \<Rightarrow> Refused | _ \<Rightarrow> Unavailable)"

text \<open>The identity a call runs with: none for enrollment. A verified chain is never empty.\<close>

definition authenticate :: "(string \<Rightarrow> uuid option) \<Rightarrow> bool \<Rightarrow> (Certificate list \<Rightarrow> Certificate list option) \<Rightarrow> EnrollConfig \<Rightarrow> instant \<Rightarrow> bool
    \<Rightarrow> enroll_db \<Rightarrow> Certificate list option \<Rightarrow> string \<Rightarrow> (gateway_error, principal option) result" where
  "authenticate parse roots verify cfg now ok db peer fullMethod =
     (if starts_with enrollmentServicePrefix fullMethod then Inr None
      else bind_result (verifiedChain roots verify peer) (\<lambda>chain.
        case chain of [] \<Rightarrow> Inl Unauthenticated | leaf # issuers \<Rightarrow>
          (case FromCertificate parse (Some leaf) of
             Inl _ \<Rightarrow> Inl Unauthenticated
           | Inr k \<Rightarrow>
              if list_ex (\<lambda>c. AdmitCredential cfg now (cert_not_before c) (cert_not_after c) False \<noteq> None) issuers then Inl Unauthenticated
              else if AdmitCredential cfg now (cert_not_before leaf) (cert_not_after leaf) (fullMethod = renewMethod) \<noteq> None then Inl Unauthenticated
              else (case CheckNotRetired ok k db of
                 Some e \<Rightarrow> Inl (refuse_retired e)
               | None \<Rightarrow> Inr (Some \<lparr>pr_id = k, pr_serial = CredentialSerial leaf, pr_not_before = Some (cert_not_before leaf),
                   pr_not_after = Some (cert_not_after leaf)\<rparr>)))))"

section \<open>Enrollment and renewal handlers\<close>

fun toStatus :: "enroll_error \<Rightarrow> gateway_error" where
  "toStatus ErrTokenMalformed = Unauthenticated"
| "toStatus ErrTokenUnknown = Unauthenticated"
| "toStatus ErrTokenExpired = Unauthenticated"
| "toStatus ErrTokenRevoked = Unauthenticated"
| "toStatus (ErrTokenLabelsInvalid f) = FailedPrecondition"
| "toStatus ErrCredentialExpired = Unauthenticated"
| "toStatus ErrCredentialNotYetValid = Unauthenticated"
| "toStatus ErrEnrollWorkloadUnknown = PermissionDenied"
| "toStatus ErrBadCSR = InvalidArgument ''invalid certificate signing request''"
| "toStatus e = Internal ''enrollment failed''"

record EnrollResponse =
  er_workload_id :: uuid
  er_certificate_pem :: string
  er_ca_bundle_pem :: string
  er_assigned_labels :: "Label list"

definition Server_Enroll :: "(enroll_error, EnrolledWorkload \<times> Credential) result \<Rightarrow> (gateway_error, EnrollResponse) result" where
  "Server_Enroll outcome = (case outcome of
     Inl e \<Rightarrow> Inl (toStatus e)
   | Inr (w, cred) \<Rightarrow> Inr \<lparr>er_workload_id = ew_id w, er_certificate_pem = cr_certificate_pem cred, er_ca_bundle_pem = cr_bundle_pem cred,
       er_assigned_labels = ew_labels w\<rparr>)"

text \<open>After enrollment: the facts go to the row (a failed write is only logged), and a render is due.\<close>

definition afterEnroll :: "bool \<Rightarrow> bool \<Rightarrow> HostFacts option \<Rightarrow> instant \<Rightarrow> Workload \<Rightarrow> Workload \<times> bool" where
  "afterEnroll serves ok facts now row = (if \<not> serves then (row, False)
     else case facts of None \<Rightarrow> (row, True)
       | Some f \<Rightarrow> (case RecordFacts ok (Some f) now row of Inl _ \<Rightarrow> (row, True) | Inr (row', _) \<Rightarrow> (row', True)))"

definition RenewCredential :: "principal option \<Rightarrow> (uuid \<Rightarrow> (enroll_error, Credential) result) \<Rightarrow> (gateway_error, string \<times> string) result" where
  "RenewCredential p renew = (case IdentityFromContext p of
     None \<Rightarrow> Inl Unauthenticated
   | Some k \<Rightarrow> (case renew k of
       Inl (ErrEnrollRetired _) \<Rightarrow> Inl Refused
     | Inl e \<Rightarrow> Inl (toStatus e)
     | Inr cred \<Rightarrow> Inr (cr_certificate_pem cred, cr_bundle_pem cred)))"

section \<open>Ends and directives of live streams\<close>

text \<open>Why a stream ended: superseded, or with an error of the control plane's.\<close>

datatype stream_end = Superseded | EndedWith gateway_error | AgentGone

definition sync_status :: "stream_end \<Rightarrow> gateway_error option" where
  "sync_status e = (case e of Superseded \<Rightarrow> Some Aborted | EndedWith g \<Rightarrow> Some g | AgentGone \<Rightarrow> None)"

text \<open>The streams of a replica, those it ended with an error, and those it told to reconnect.\<close>

record replica =
  rp_sessions :: sessions
  rp_ended :: "(nat \<times> gateway_error) list"
  rp_reconnects :: "nat list"

definition EndStream :: "uuid \<Rightarrow> gateway_error \<Rightarrow> replica \<Rightarrow> bool \<times> replica" where
  "EndStream k e r = (case sessions_get k (rp_sessions r) of
     None \<Rightarrow> (False, r)
   | Some n \<Rightarrow> (True, r\<lparr>rp_ended := rp_ended r @ [(n, e)]\<rparr>))"

definition EndRetired :: "uuid \<Rightarrow> replica \<Rightarrow> bool \<times> replica" where
  "EndRetired k r = EndStream k Refused r"

text \<open>\<open>queues\<close> says that the stream's queue had room in time.\<close>

definition sendReconnect :: "bool \<Rightarrow> nat \<Rightarrow> replica \<Rightarrow> replica" where
  "sendReconnect queues n r = (if queues then r\<lparr>rp_reconnects := rp_reconnects r @ [n]\<rparr> else r)"

definition directReconnect :: "bool \<Rightarrow> uuid \<Rightarrow> replica \<Rightarrow> replica" where
  "directReconnect queues k r = (case sessions_get k (rp_sessions r) of None \<Rightarrow> r | Some n \<Rightarrow> sendReconnect queues n r)"

datatype Directive = DirectiveReconnect uuid | DirectiveEnd uuid

definition direct :: "bool \<Rightarrow> Directive \<Rightarrow> replica \<Rightarrow> replica" where
  "direct queues d r = (case d of DirectiveReconnect k \<Rightarrow> directReconnect queues k r | DirectiveEnd k \<Rightarrow> snd (EndRetired k r))"

text \<open>A live stream is checked against persisted state when the listener reconnects.\<close>

definition reconcile :: "enroll_error option \<Rightarrow> ('e, WorkloadPolicy option) result \<Rightarrow> bool \<Rightarrow> bool \<Rightarrow> instant \<Rightarrow> uuid
    \<Rightarrow> session \<times> replica \<Rightarrow> session \<times> replica" where
  "reconcile check loaded live written now k = (\<lambda>(s, r). case check of
     Some (ErrEnrollRetired _) \<Rightarrow> (s, snd (EndRetired k r))
   | _ \<Rightarrow> (pushLatest loaded live written now s, r))"

text \<open>
  When a stream is told to reconnect and when it ends, given the instant it opened, the lead and the
  expiry of the credential it opened on.
\<close>

definition credentialEndLead :: duration where "credentialEndLead = 5 * 60 * 1000000000"

definition boundByCredential :: "instant \<Rightarrow> instant \<Rightarrow> duration \<Rightarrow> instant option \<times> instant" where
  "boundByCredential now notAfter lead = (if lead < notAfter - now then (Some (notAfter - lead), notAfter) else (None, max now notAfter))"

section \<open>What the interceptor admits\<close>

lemma authenticate_Some:
  "authenticate parse roots verify cfg now ok db peer m = Inr (Some p) \<longleftrightarrow>
     \<not> starts_with enrollmentServicePrefix m \<and>
     (\<exists>certs leaf issuers. peer = Some certs \<and> certs \<noteq> [] \<and> roots \<and> verify certs = Some (leaf # issuers) \<and>
        cert_uris leaf = [WorkloadID_URI (pr_id p)] \<and> length (pr_id p) = 36 \<and> parse (pr_id p) = Some (pr_id p) \<and> pr_id p \<noteq> nil_uuid \<and>
        (\<forall>c\<in>set issuers. cert_not_before c \<le> now \<and> now \<le> cert_not_after c) \<and>
        cert_not_before leaf \<le> now \<and>
        (now \<le> cert_not_after leaf \<or> m = renewMethod \<and> truncate_second (now - cert_not_after leaf) \<le> Grace cfg) \<and>
        CheckNotRetired ok (pr_id p) db = None \<and>
        p = \<lparr>pr_id = pr_id p, pr_serial = CredentialSerial leaf, pr_not_before = Some (cert_not_before leaf), pr_not_after = Some (cert_not_after leaf)\<rparr>)"
  (is "?l \<longleftrightarrow> ?r")
proof
  assume ?l
  then show ?r
    by (auto simp: authenticate_def verifiedChain_def verifyChain_def FromCertificate_Inr AdmitCredential_None list_ex_iff
        split: if_split_asm option.split_asm list.split_asm sum.split_asm)
next
  assume ?r
  then obtain certs leaf issuers where c: "\<not> starts_with enrollmentServicePrefix m" "peer = Some certs" "certs \<noteq> []" "roots"
      "verify certs = Some (leaf # issuers)" "FromCertificate parse (Some leaf) = Inr (pr_id p)"
      "\<forall>c\<in>set issuers. AdmitCredential cfg now (cert_not_before c) (cert_not_after c) False = None"
      "AdmitCredential cfg now (cert_not_before leaf) (cert_not_after leaf) (m = renewMethod) = None" "CheckNotRetired ok (pr_id p) db = None"
      and p: "\<lparr>pr_id = pr_id p, pr_serial = CredentialSerial leaf, pr_not_before = Some (cert_not_before leaf), pr_not_after = Some (cert_not_after leaf)\<rparr> = p"
    unfolding FromCertificate_Inr AdmitCredential_None by auto
  then have "\<not> list_ex (\<lambda>c. AdmitCredential cfg now (cert_not_before c) (cert_not_after c) False \<noteq> None) issuers" by (simp add: list_ex_iff)
  with c p show ?l by (simp add: authenticate_def verifiedChain_def verifyChain_def)
qed

lemma CheckNotRetired_retired:
  "find (\<lambda>w. ew_id w = k) (db_workloads db) = Some w \<Longrightarrow> ew_retired_at w = Some t \<Longrightarrow> CheckNotRetired True k db = Some (ErrEnrollRetired t)"
  by (simp add: CheckNotRetired_def GetWorkload_def)

text \<open>A renewal that returns a credential wrote it to a row that was active at the write.\<close>

lemma Renew_active:
  "Renew meanwhile parse au cfg found written admitted now k f u csr db = (Inr cred, db') \<Longrightarrow>
     (\<exists>w. find (\<lambda>w. ew_id w = k) (db_workloads db) = Some w \<and> ew_retired_at w = None) \<and>
     (\<exists>w. find (\<lambda>w. ew_id w = k) (db_workloads (meanwhile db)) = Some w \<and> ew_retired_at w = None)"
  by (auto simp: Renew_def GetWorkload_def RecordRenewal_def Let_def split: option.split_asm sum.split_asm if_split_asm)

text \<open>On the stream of a retired workload every message is an error and writes nothing.\<close>

lemma handleAck_retired:
  "w_retired_at (ss_row s) = Some t \<Longrightarrow> \<exists>e. handleAck ok loaded now a s = (Some e, s)"
  by (cases "ack_status a") (auto simp: handleAck_def write_applied_def write_failed_def RecordApplied_def RecordApplyFailed_def unless_retired_def)

lemma handleMessage_retired:
  assumes "w_retired_at (ss_row s) = Some t"
  shows "\<exists>e. handleMessage ok services_ok loaded now msg s = ((Some e, False), s)"
proof (cases msg)
  case (PolicyAck_Msg a)
  then show ?thesis using handleAck_retired [OF assms, of ok loaded now a] by (auto simp: handleMessage_def)
qed (use assms in \<open>auto simp: handleMessage_def RecordFacts_def RecordHeartbeat_def unless_retired_def\<close>)

lemma open_session_retired: "w_retired_at row = Some t \<Longrightarrow> open_session True facts_ok hello presented now row = Inl Refused"
  by (simp add: open_session_def RecordAgent_def unless_retired_def)

section \<open>Properties\<close>

text \<open>\<^bold>\<open>C5\<close>: the interceptor admits a call with an identity exactly when the connection presented
  certificates that verify, the leaf carries that one identity, every issuer is within its validity,
  the leaf is too (or has expired within the grace and the call is a renewal), and the registry does
  not hold the workload as retired; only the enrollment service is reached without an identity.\<close>

theorem authenticate_exact:
  "(authenticate parse roots verify cfg now ok db peer m = Inr (Some p) \<longleftrightarrow>
     \<not> starts_with enrollmentServicePrefix m \<and>
     (\<exists>certs leaf issuers. peer = Some certs \<and> certs \<noteq> [] \<and> roots \<and> verify certs = Some (leaf # issuers) \<and>
        cert_uris leaf = [WorkloadID_URI (pr_id p)] \<and> length (pr_id p) = 36 \<and> parse (pr_id p) = Some (pr_id p) \<and> pr_id p \<noteq> nil_uuid \<and>
        (\<forall>c\<in>set issuers. cert_not_before c \<le> now \<and> now \<le> cert_not_after c) \<and>
        cert_not_before leaf \<le> now \<and>
        (now \<le> cert_not_after leaf \<or> m = renewMethod \<and> truncate_second (now - cert_not_after leaf) \<le> Grace cfg) \<and>
        CheckNotRetired ok (pr_id p) db = None \<and>
        p = \<lparr>pr_id = pr_id p, pr_serial = CredentialSerial leaf, pr_not_before = Some (cert_not_before leaf), pr_not_after = Some (cert_not_after leaf)\<rparr>)) \<and>
   (authenticate parse roots verify cfg now ok db peer m = Inr None \<longleftrightarrow> starts_with enrollmentServicePrefix m)"
proof -
  have "authenticate parse roots verify cfg now ok db peer m = Inr None \<longleftrightarrow> starts_with enrollmentServicePrefix m"
    by (auto simp: authenticate_def split: list.split_asm sum.split_asm option.split_asm if_split_asm)
  then show ?thesis using authenticate_Some by blast
qed

definition demo_leaf :: Certificate where
  "demo_leaf = \<lparr>cert_serial = 255, cert_uris = [WorkloadID_URI demo_uuid], cert_not_before = 0, cert_not_after = 100\<rparr>"

theorem authenticate_exact_witness:
  "authenticate Some True Some demo_config 50 True \<lparr>db_tokens = [], db_workloads = []\<rparr> (Some [demo_leaf]) ''/innerwall.v1.AgentService/Sync'' =
     Inr (Some \<lparr>pr_id = demo_uuid, pr_serial = CredentialSerial demo_leaf, pr_not_before = Some 0, pr_not_after = Some 100\<rparr>)"
proof -
  have "CheckNotRetired True demo_uuid \<lparr>db_tokens = [], db_workloads = []\<rparr> = None" by (simp add: CheckNotRetired_def GetWorkload_def)
  then show ?thesis
    using authenticate_exact [of Some True Some demo_config 50 True "\<lparr>db_tokens = [], db_workloads = []\<rparr>" "Some [demo_leaf]" "''/innerwall.v1.AgentService/Sync''"
      "\<lparr>pr_id = demo_uuid, pr_serial = CredentialSerial demo_leaf, pr_not_before = Some 0, pr_not_after = Some 100\<rparr>"]
    by (simp add: demo_leaf_def demo_uuid_def nil_uuid_def starts_with_def enrollmentServicePrefix_def)
qed

text \<open>A retired workload finds every door shut: no call is admitted with its identity, no
  credential is renewed for it, not even when it was retired while the authority signed, its Hello
  is refused, every message on a stream it still has ends the stream and writes nothing, and the
  reconciliation of that stream ends it instead of pushing policy.\<close>

lemma retirement_shuts_every_door:
  assumes "find (\<lambda>w. ew_id w = k) (db_workloads db) = Some w" and "ew_retired_at w = Some t" and "w_retired_at (ss_row s) = Some t"
  shows "(authenticate parse roots verify cfg now True db peer m = Inr (Some p) \<longrightarrow> pr_id p \<noteq> k) \<and>
    (\<forall>cred db'. Renew meanwhile parse au cfg found written admitted now k f u csr db \<noteq> (Inr cred, db')) \<and>
    (meanwhile db0 = db \<longrightarrow> (\<forall>cred db'. Renew meanwhile parse au cfg found written admitted now k f u csr db0 \<noteq> (Inr cred, db'))) \<and>
    open_session True facts_ok hello presented now (ss_row s) = Inl Refused \<and>
    (\<exists>e. handleMessage ok services_ok loaded now msg s = ((Some e, False), s)) \<and>
    reconcile (CheckNotRetired True k db) latest live taken now k (s, r) = (s, snd (EndRetired k r))"
proof -
  have c: "CheckNotRetired True k db = Some (ErrEnrollRetired t)" by (rule CheckNotRetired_retired [OF assms(1,2)])
  have "authenticate parse roots verify cfg now True db peer m = Inr (Some p) \<longrightarrow> pr_id p \<noteq> k" using c by (auto simp: authenticate_Some)
  moreover have "Renew meanwhile parse au cfg found written admitted now k f u csr db \<noteq> (Inr cred, db')" for cred db'
    using Renew_active [of meanwhile parse au cfg found written admitted now k f u csr db] assms(1,2) by force
  moreover have "Renew meanwhile parse au cfg found written admitted now k f u csr db0 \<noteq> (Inr cred, db')" if "meanwhile db0 = db" for cred db'
    using Renew_active [of meanwhile parse au cfg found written admitted now k f u csr db0] assms(1,2) that by force
  ultimately show ?thesis using open_session_retired [OF assms(3)] handleMessage_retired [OF assms(3)] c by (simp add: reconcile_def)
qed

definition demo_retired :: EnrolledWorkload where
  "demo_retired = \<lparr>ew_id = demo_uuid, ew_token_id = ''t'', ew_hostname = [], ew_labels = [], ew_enrolled_at = 0, ew_credential_serial = [],
     ew_credential_expires_at = 100, ew_last_renewed_at = None, ew_late_renewal = None, ew_retired_at = Some 7\<rparr>"

end
