(* ===== verification/RenderStore.thy ===== *)
theory RenderStore
  imports Compiler GatewayAuth
begin

text \<open>
  The store of rendered policies and the notification channel, \<^verbatim>\<open>internal/store/render.go\<close>: policies as
  rows of encoded bytes with a version column, the announcements and directives published on the
  channel as text, and the listener that reads them back. The protobuf encoding and UUID parsing are
  arguments. The results: a render over the rows is the render over policies of \<open>Compiler\<close>, and what
  it publishes is read by a listener as exactly one announcement per changed workload.
\<close>

section \<open>The channel\<close>

definition PolicyChannel :: string where "PolicyChannel = ''innerwall_policy''"
definition reconnectDirective :: string where "reconnectDirective = ''reconnect''"
definition endDirective :: string where "endDirective = ''end''"

definition announcement_payload :: "uuid \<Rightarrow> 64 word \<Rightarrow> string" where
  "announcement_payload k v = k @ '' '' @ show_dec (unat v)"

definition directive_payload :: "Directive \<Rightarrow> string" where
  "directive_payload d = (case d of DirectiveReconnect k \<Rightarrow> k @ '' '' @ reconnectDirective | DirectiveEnd k \<Rightarrow> k @ '' '' @ endDirective)"

datatype channel_event = Announced uuid "64 word" | Directed Directive

text \<open>One payload as the listener reads it; \<open>None\<close> is skipped. \<open>directed\<close> says that a handler of directives is set.\<close>

definition dispatch :: "(string \<Rightarrow> uuid option) \<Rightarrow> bool \<Rightarrow> string \<Rightarrow> channel_event option" where
  "dispatch parse directed payload = (case cut CHR '' '' payload of (idText, verText, ok) \<Rightarrow>
     if \<not> ok then None
     else case ParseWorkloadID parse idText of
       Inl _ \<Rightarrow> None
     | Inr k \<Rightarrow>
         if verText = reconnectDirective then (if directed then Some (Directed (DirectiveReconnect k)) else None)
         else if verText = endDirective then (if directed then Some (Directed (DirectiveEnd k)) else None)
         else map_option (\<lambda>n. Announced k (of_nat n)) (parse_uint 64 verText))"

text \<open>
  One connection of the listener: whether it was acquired, whether \<^verbatim>\<open>LISTEN\<close> succeeded, and the
  payloads that arrived before it failed.
\<close>

record listener_conn =
  lc_acquired :: bool
  lc_listening :: bool
  lc_payloads :: "string list"

datatype listener_call = OnReady | OnEvent channel_event

definition listenOnce :: "(string \<Rightarrow> uuid option) \<Rightarrow> bool \<Rightarrow> listener_conn \<Rightarrow> listener_call list" where
  "listenOnce parse directed c = (if \<not> lc_acquired c \<or> \<not> lc_listening c then []
     else OnReady # map OnEvent (List.map_filter (dispatch parse directed) (lc_payloads c)))"

text \<open>The connections the listener made until its context ended, in order.\<close>

definition ListenPolicyChanges :: "(string \<Rightarrow> uuid option) \<Rightarrow> bool \<Rightarrow> listener_conn list \<Rightarrow> listener_call list" where
  "ListenPolicyChanges parse directed conns = concat (map (listenOnce parse directed) conns)"

definition listener_ceiling :: "nat \<Rightarrow> 64 word" where
  "listener_ceiling attempt = (let limit = 30000000000; ceiling = push_bit (min attempt 10) 500000000 in
     if sint limit < sint ceiling \<or> sint ceiling \<le> 0 then limit else ceiling)"

definition listener_backoff :: "(nat \<Rightarrow> nat) \<Rightarrow> nat \<Rightarrow> nat" where
  "listener_backoff rng attempt = rng (nat (sint (listener_ceiling attempt)))"

section \<open>Policies as rows\<close>

text \<open>A row holds the version column and the encoded bytes; \<open>published\<close> are the payloads of the transaction.\<close>

record 'b render_tables =
  rt_rows :: "(uuid, 64 word \<times> 'b) gomap"
  rt_published :: "string list"

definition Marshal :: "(WorkloadPolicy \<Rightarrow> 'b option) \<Rightarrow> WorkloadPolicy \<Rightarrow> 'b option" where
  "Marshal encode p = encode (Canonical (Some p))"

definition stored_policy :: "('b \<Rightarrow> WorkloadPolicy option) \<Rightarrow> 64 word \<times> 'b \<Rightarrow> WorkloadPolicy option" where
  "stored_policy decode row = map_option (\<lambda>p. p\<lparr>version := fst row\<rparr>) (decode (snd row))"

fun load_rows :: "('b \<Rightarrow> WorkloadPolicy option) \<Rightarrow> (uuid, 64 word \<times> 'b) gomap \<Rightarrow> (unit, policies) result" where
  "load_rows decode [] = Inr []"
| "load_rows decode ((k, row) # rows) = (case stored_policy decode row of
     None \<Rightarrow> Inl ()
   | Some p \<Rightarrow> bind_result (load_rows decode rows) (\<lambda>out. Inr ((k, p) # out)))"

definition LoadPolicies :: "bool \<Rightarrow> ('b \<Rightarrow> WorkloadPolicy option) \<Rightarrow> 'b render_tables \<Rightarrow> (unit, policies) result" where
  "LoadPolicies ok decode t = (if \<not> ok then Inl () else load_rows decode (rt_rows t))"

text \<open>\<open>upserted\<close> and \<open>announced\<close>: the outcomes of the two statements.\<close>

definition SavePolicy :: "(WorkloadPolicy \<Rightarrow> 'b option) \<Rightarrow> bool \<Rightarrow> bool \<Rightarrow> uuid \<Rightarrow> WorkloadPolicy \<Rightarrow> 'b render_tables
    \<Rightarrow> (unit, 'b render_tables) result" where
  "SavePolicy encode upserted announced k p t = (case Marshal encode p of
     None \<Rightarrow> Inl ()
   | Some b \<Rightarrow> if \<not> upserted then Inl () else if \<not> announced then Inl ()
       else Inr (t\<lparr>rt_rows := AList.update k (version p, b) (rt_rows t),
         rt_published := rt_published t @ [announcement_payload k (version p)]\<rparr>))"

definition GetWorkloadPolicy :: "bool \<Rightarrow> ('b \<Rightarrow> WorkloadPolicy option) \<Rightarrow> uuid \<Rightarrow> 'b render_tables \<Rightarrow> (unit, WorkloadPolicy option) result" where
  "GetWorkloadPolicy ok decode k t = (if \<not> ok then Inl ()
     else case map_of (rt_rows t) k of
       None \<Rightarrow> Inr None
     | Some row \<Rightarrow> (case stored_policy decode row of None \<Rightarrow> Inl () | Some p \<Rightarrow> Inr (Some p)))"

text \<open>The loop of \<^verbatim>\<open>RenderIn\<close> when the transaction is the store's; \<open>ups\<close> and \<open>ann\<close> say which statements succeed.\<close>

fun save_rows :: "(WorkloadPolicy \<Rightarrow> 'b option) \<Rightarrow> (uuid \<Rightarrow> bool) \<Rightarrow> (uuid \<Rightarrow> bool) \<Rightarrow> Outcome list \<Rightarrow> Report \<times> 'b render_tables
    \<Rightarrow> (unit, Report \<times> 'b render_tables) result" where
  "save_rows encode ups ann [] st = Inr st"
| "save_rows encode ups ann (o1 # os) (rep, t) =
     (let rep = rep\<lparr>rep_workloads := Suc (rep_workloads rep)\<rparr> in
      if \<not> o_changed o1 then save_rows encode ups ann os (rep, t)
      else bind_result (SavePolicy encode (ups (o_id o1)) (ann (o_id o1)) (o_id o1) (o_policy o1) t) (\<lambda>t.
        save_rows encode ups ann os (rep\<lparr>rep_changed := rep_changed rep @ [\<lparr>rc_id = o_id o1, rc_version = version (o_policy o1),
               rc_changes = length (o_changes o1)\<rparr>]\<rparr>, t)))"

text \<open>\<^verbatim>\<open>RenderTx\<close> around \<^verbatim>\<open>RenderIn\<close>: nothing is written or published unless the transaction commits.\<close>

definition RenderTx :: "(WorkloadPolicy \<Rightarrow> 'b option) \<Rightarrow> ('b \<Rightarrow> WorkloadPolicy option) \<Rightarrow> bool \<Rightarrow> bool \<Rightarrow> bool \<Rightarrow> (unit, Inputs) result
    \<Rightarrow> (uuid \<Rightarrow> bool) \<Rightarrow> (uuid \<Rightarrow> bool) \<Rightarrow> (uuid, 64 word \<times> 'b) gomap \<Rightarrow> (unit, Report) result \<times> (uuid, 64 word \<times> 'b) gomap \<times> string list" where
  "RenderTx encode decode locked listed committed load ups ann rows =
     (let t = \<lparr>rt_rows = rows, rt_published = []\<rparr> in
      case (if \<not> locked then Inl () else bind_result load (\<lambda>inp. bind_result (LoadPolicies listed decode t) (\<lambda>previous.
          save_rows encode ups ann (Plan previous (Render inp)) (\<lparr>rep_workloads = 0, rep_changed = []\<rparr>, t)))) of
        Inl e \<Rightarrow> (Inl e, rows, [])
      | Inr (rep, t') \<Rightarrow> if committed then (Inr rep, rt_rows t', rt_published t') else (Inl (), rows, []))"

section \<open>Reading the channel back\<close>

lemma space_not_in_uuid: "uuid_text k \<Longrightarrow> CHR '' '' \<notin> set k"
  by (auto simp: uuid_text_def list_all_iff is_hex_def is_dec_def)

lemma announcement_not_directive: "show_dec n \<noteq> reconnectDirective \<and> show_dec n \<noteq> endDirective"
proof -
  have "is_dec (hd (show_dec n))" using show_dec_is_dec [of "hd (show_dec n)" n] by simp
  then show ?thesis by (auto simp: reconnectDirective_def endDirective_def is_dec_def)
qed

lemma dispatch_announcement:
  assumes "uuid_text k" and "parse k = Some k" and "k \<noteq> nil_uuid"
  shows "dispatch parse directed (announcement_payload k v) = Some (Announced k v)"
proof -
  have "unat v < 2 ^ 64" using unsigned_less [of v, where 'a = nat] by simp
  then have "parse_uint 64 (show_dec (unat v)) = Some (unat v)" by (rule parse_uint_show_dec)
  moreover have "cut CHR '' '' (k @ CHR '' '' # show_dec (unat v)) = (k, show_dec (unat v), True)"
    using space_not_in_uuid [OF assms(1)] by simp
  ultimately show ?thesis using assms(2,3) announcement_not_directive
    by (simp add: dispatch_def announcement_payload_def ParseWorkloadID_def)
qed

lemma dispatch_directive:
  assumes "uuid_text k" and "parse k = Some k" and "k \<noteq> nil_uuid"
  shows "dispatch parse True (directive_payload (DirectiveEnd k)) = Some (Directed (DirectiveEnd k))"
    "dispatch parse True (directive_payload (DirectiveReconnect k)) = Some (Directed (DirectiveReconnect k))"
  using space_not_in_uuid [OF assms(1)] assms(2,3)
  by (simp_all add: dispatch_def directive_payload_def ParseWorkloadID_def reconnectDirective_def endDirective_def)

section \<open>Rows and policies\<close>

lemma load_rows_lookup:
  "load_rows decode rows = Inr pol \<Longrightarrow> map fst pol = map fst rows \<and>
   map_of pol k = (case map_of rows k of None \<Rightarrow> None | Some row \<Rightarrow> stored_policy decode row)"
proof (induction rows arbitrary: pol)
  case (Cons r rows)
  obtain k' row where r: "r = (k', row)" by (cases r)
  with Cons.prems obtain p out where p: "stored_policy decode row = Some p" "load_rows decode rows = Inr out" "pol = (k', p) # out"
    by (auto split: option.split_asm)
  from Cons.IH [OF p(2)] r p(1,3) show ?case by simp
qed simp

lemma load_rows_update:
  assumes "load_rows decode rows = Inr pol" and "stored_policy decode row = Some p"
  shows "load_rows decode (AList.update k row rows) = Inr (AList.update k p pol)"
  using assms(1)
proof (induction rows arbitrary: pol)
  case Nil
  then show ?case using assms(2) by simp
next
  case (Cons r rows)
  obtain k' row' where r: "r = (k', row')" by (cases r)
  with Cons.prems obtain p' out where p: "stored_policy decode row' = Some p'" "load_rows decode rows = Inr out" "pol = (k', p') # out"
    by (auto split: option.split_asm)
  from Cons.IH [OF p(2)] r p assms(2) show ?case by simp
qed

text \<open>What the encoding promises: a canonical policy is encoded, and decodes to itself.\<close>

definition codec :: "(WorkloadPolicy \<Rightarrow> 'b option) \<Rightarrow> ('b \<Rightarrow> WorkloadPolicy option) \<Rightarrow> bool" where
  "codec encode decode = (\<forall>p. is_canonical p \<longrightarrow> (\<exists>b. encode p = Some b \<and> decode b = Some p))"

lemma is_canonical_plan: "is_canonical (o_policy (plan_one previous kc))"
proof (cases kc)
  case (Pair k cur)
  then show ?thesis
    using is_canonical_Canonical [of "Some cur"] by (simp add: plan_one_facts(3) is_canonical_def)
qed

lemma save_rows_refines:
  assumes "codec encode decode" and "\<forall>o1\<in>set os. is_canonical (o_policy o1)"
    and "load_rows decode (rt_rows t) = Inr pol"
  shows "case save_outcomes (\<lambda>k. if ups k \<and> ann k then None else Some ()) os (rep, pol) of
      Inl e \<Rightarrow> save_rows encode ups ann os (rep, t) = Inl e
    | Inr (rep', pol') \<Rightarrow> \<exists>t'. save_rows encode ups ann os (rep, t) = Inr (rep', t') \<and> load_rows decode (rt_rows t') = Inr pol' \<and>
        (\<exists>new. rep_changed rep' = rep_changed rep @ new \<and>
          rt_published t' = rt_published t @ map (\<lambda>c. announcement_payload (rc_id c) (rc_version c)) new)"
  using assms(2,3)
proof (induction os arbitrary: rep t pol)
  case (Cons o1 os)
  let ?se = "\<lambda>k. if ups k \<and> ann k then None else Some ()"
  let ?rep = "rep\<lparr>rep_workloads := Suc (rep_workloads rep)\<rparr>"
  obtain b where b: "encode (o_policy o1) = Some b" "decode b = Some (o_policy o1)" "Canonical (Some (o_policy o1)) = o_policy o1"
    using assms(1) Cons.prems(1) by (auto simp: codec_def Canonical_id)
  consider "\<not> o_changed o1" | "o_changed o1" "\<not> (ups (o_id o1) \<and> ann (o_id o1))" | "o_changed o1" "ups (o_id o1) \<and> ann (o_id o1)" by blast
  then show ?case
  proof cases
    case 1
    then have eqs: "save_outcomes ?se (o1 # os) (rep, pol) = save_outcomes ?se os (?rep, pol)"
      "save_rows encode ups ann (o1 # os) (rep, t) = save_rows encode ups ann os (?rep, t)" by simp_all
    show ?thesis using Cons.IH [of t pol ?rep] Cons.prems unfolding eqs
      by (cases "save_outcomes ?se os (?rep, pol)") auto
  next
    case 2
    then have "save_outcomes ?se (o1 # os) (rep, pol) = Inl ()" "save_rows encode ups ann (o1 # os) (rep, t) = Inl ()"
      using b by (auto simp: SavePolicy_def Marshal_def)
    then show ?thesis by simp
  next
    case 3
    let ?new = "\<lparr>rc_id = o_id o1, rc_version = version (o_policy o1), rc_changes = length (o_changes o1)\<rparr>"
    let ?rep' = "?rep\<lparr>rep_changed := rep_changed rep @ [?new]\<rparr>"
    let ?t = "t\<lparr>rt_rows := AList.update (o_id o1) (version (o_policy o1), b) (rt_rows t),
       rt_published := rt_published t @ [announcement_payload (o_id o1) (version (o_policy o1))]\<rparr>"
    let ?pol = "AList.update (o_id o1) (o_policy o1) pol"
    have eqs: "save_outcomes ?se (o1 # os) (rep, pol) = save_outcomes ?se os (?rep', ?pol)"
      "save_rows encode ups ann (o1 # os) (rep, t) = save_rows encode ups ann os (?rep', ?t)"
      using 3 b by (simp_all add: SavePolicy_def Marshal_def)
    have "load_rows decode (rt_rows ?t) = Inr ?pol"
      using load_rows_update [OF Cons.prems(2)] b(2) by (simp add: stored_policy_def)
    note ih = Cons.IH [of ?t ?pol ?rep', OF _ this]
    show ?thesis unfolding eqs
    proof (cases "save_outcomes ?se os (?rep', ?pol)")
      case (Inr st)
      obtain rep' pol' where st: "st = (rep', pol')" by (cases st)
      with ih Inr Cons.prems(1) obtain t' new where "save_rows encode ups ann os (?rep', ?t) = Inr (rep', t')" "load_rows decode (rt_rows t') = Inr pol'"
        "rep_changed rep' = rep_changed rep @ ?new # new"
        "rt_published t' = rt_published t @ map (\<lambda>c. announcement_payload (rc_id c) (rc_version c)) (?new # new)" by auto
      with Inr st show "case save_outcomes ?se os (?rep', ?pol) of Inl e \<Rightarrow> save_rows encode ups ann os (?rep', ?t) = Inl e
        | Inr (rep', pol') \<Rightarrow> \<exists>t'. save_rows encode ups ann os (?rep', ?t) = Inr (rep', t') \<and> load_rows decode (rt_rows t') = Inr pol' \<and>
          (\<exists>new. rep_changed rep' = rep_changed rep @ new \<and>
            rt_published t' = rt_published t @ map (\<lambda>c. announcement_payload (rc_id c) (rc_version c)) new)" by fastforce
    qed (use ih Cons.prems(1) in simp)
  qed
qed simp

section \<open>The listener's waits\<close>

lemma listener_ceiling_exact: "sint (listener_ceiling attempt) = min 30000000000 (500000000 * 2 ^ min attempt 10)"
proof -
  let ?v = "500000000 * 2 ^ min attempt 10 :: int"
  have "(2 :: int) ^ min attempt 10 \<le> 2 ^ 10" by (rule power_increasing) simp_all
  then have v: "0 < ?v" "?v < 2 ^ 63" by simp_all
  have "push_bit (min attempt 10) 500000000 = (word_of_int ?v :: 64 word)" by (simp add: push_bit_eq_mult)
  then have "sint (push_bit (min attempt 10) 500000000 :: 64 word) = signed_take_bit 63 ?v" by (simp only: sint_sbintrunc') simp
  also have "\<dots> = ?v" by (rule signed_take_bit_int_eq_self) (use v in linarith)+
  finally show ?thesis using v(1) by (simp add: listener_ceiling_def Let_def)
qed

lemma listener_backoff_bound:
  assumes "\<And>n. 0 < n \<Longrightarrow> rng n < n"
  shows "listener_backoff rng attempt < 30000000000"
proof -
  have "listener_backoff rng attempt < nat (sint (listener_ceiling attempt))"
    unfolding listener_backoff_def by (rule assms) (simp add: listener_ceiling_exact)
  also have "\<dots> \<le> 30000000000" by (simp add: listener_ceiling_exact)
  finally show ?thesis .
qed

section \<open>Properties\<close>

text \<open>\<^bold>\<open>C30\<close>: a render over the store's rows is the render over policies: it succeeds exactly when that one
  does and the transaction commits, the rows then decode to the policies it made, and what it
  published is read by every listener as one announcement per changed workload, in the order of the
  report; otherwise the rows are as they were and nothing is published.\<close>

theorem render_tx_refines:
  assumes "codec encode decode" and "load_rows decode rows = Inr previous"
    and "RenderTx encode decode locked listed committed load ups ann rows = (r, rows', published)"
    and "\<And>inp w. load = Inr inp \<Longrightarrow> w \<in> set (in_workloads inp) \<Longrightarrow> uuid_text (w_id w) \<and> parse (w_id w) = Some (w_id w) \<and> w_id w \<noteq> nil_uuid"
  shows "case (if locked \<and> listed \<and> committed then RenderIn load (Inr previous) (\<lambda>k. if ups k \<and> ann k then None else Some ()) else Inl ()) of
      Inl _ \<Rightarrow> r = Inl () \<and> rows' = rows \<and> published = []
    | Inr (rep, pol) \<Rightarrow> r = Inr rep \<and> load_rows decode rows' = Inr pol \<and>
        map (dispatch parse directed) published = map (\<lambda>c. Some (Announced (rc_id c) (rc_version c))) (rep_changed rep)"
proof (cases "locked \<and> listed \<and> (\<exists>inp. load = Inr inp)")
  case False
  then show ?thesis using assms(2,3) by (cases load; cases locked; cases listed) (auto simp: RenderTx_def LoadPolicies_def RenderIn_def Let_def)
next
  case True
  then obtain inp where inp: "load = Inr inp" by blast
  let ?se = "\<lambda>k. if ups k \<and> ann k then None else Some ()" and ?rep = "\<lparr>rep_workloads = 0, rep_changed = []\<rparr>"
  let ?plan = "Plan previous (Render inp)" and ?t = "\<lparr>rt_rows = rows, rt_published = []\<rparr>"
  have "\<forall>o1\<in>set ?plan. is_canonical (o_policy o1)" using is_canonical_plan by (auto simp: set_Plan)
  note ref = save_rows_refines [OF assms(1) this, where t = ?t and pol = previous and ups = ups and ann = ann and rep = ?rep, unfolded render_tables.select_convs Report.select_convs append_Nil, OF assms(2)]
  have tx: "RenderTx encode decode locked listed committed load ups ann rows = (case save_rows encode ups ann ?plan (?rep, ?t) of
      Inl e \<Rightarrow> (Inl e, rows, []) | Inr (rep, t') \<Rightarrow> if committed then (Inr rep, rt_rows t', rt_published t') else (Inl (), rows, []))"
    using True inp assms(2) by (simp add: RenderTx_def LoadPolicies_def)
  have run: "RenderIn load (Inr previous) ?se = save_outcomes ?se ?plan (?rep, previous)" by (simp add: RenderIn_def inp)
  show ?thesis
  proof (cases "save_outcomes ?se ?plan (?rep, previous)")
    case (Inl e)
    then show ?thesis using ref tx assms(3) run by simp
  next
    case (Inr st)
    obtain rep pol where st: "st = (rep, pol)" by (cases st)
    from ref Inr st obtain t' where t': "save_rows encode ups ann ?plan (?rep, ?t) = Inr (rep, t')" "load_rows decode (rt_rows t') = Inr pol"
      "rt_published t' = map (\<lambda>c. announcement_payload (rc_id c) (rc_version c)) (rep_changed rep)" by auto
    have "rc_id c \<in> w_id ` set (in_workloads inp)" if "c \<in> set (rep_changed rep)" for c
    proof -
      have ids: "map rc_id (rep_changed rep) = map o_id (filter o_changed ?plan)"
        using save_outcomes_ok [OF distinct_Plan_ids [OF gomap_ok_Render], of ?se previous inp ?rep previous rep pol] Inr st by simp
      from that have "rc_id c \<in> set (map rc_id (rep_changed rep))" by simp
      then have "rc_id c \<in> set (map o_id ?plan)" unfolding ids by auto
      then have "rc_id c \<in> dom (map_of (Render inp))" unfolding map_o_id_Plan by simp
      then show ?thesis by (auto simp: Render_def)
    qed
    then have "dispatch parse directed (announcement_payload (rc_id c) (rc_version c)) = Some (Announced (rc_id c) (rc_version c))"
      if "c \<in> set (rep_changed rep)" for c
      using that assms(4) [OF inp] dispatch_announcement by fastforce
    then have "map (dispatch parse directed) (rt_published t') = map (\<lambda>c. Some (Announced (rc_id c) (rc_version c))) (rep_changed rep)"
      by (simp add: t'(3))
    moreover have "(r, rows', published) = (if committed then (Inr rep, rt_rows t', rt_published t') else (Inl (), rows, []))"
      using tx assms(3) by (simp add: t'(1))
    ultimately show ?thesis using t'(2) True unfolding run Inr st by (cases committed) simp_all
  qed
qed

definition demo_render_inputs :: Inputs where
  "demo_render_inputs = demo_inputs\<lparr>in_workloads := [demo_workload\<lparr>w_id := demo_uuid\<rparr>]\<rparr>"

theorem render_tx_refines_witness:
  "\<exists>rep rows published. RenderTx Some Some True True True (Inr demo_render_inputs) (\<lambda>_. True) (\<lambda>_. True) [] = (Inr rep, rows, published) \<and>
     map (dispatch Some True) published = map (\<lambda>c. Some (Announced (rc_id c) (rc_version c))) (rep_changed rep)"
proof -
  obtain r rows published where tx: "RenderTx Some Some True True True (Inr demo_render_inputs) (\<lambda>_. True) (\<lambda>_. True) [] = (r, rows, published)"
    by (cases "RenderTx Some Some True True True (Inr demo_render_inputs) (\<lambda>_. True) (\<lambda>_. True) []")
  have ids: "uuid_text (w_id w) \<and> Some (w_id w) = Some (w_id w) \<and> w_id w \<noteq> nil_uuid"
    if "(Inr demo_render_inputs :: (unit, Inputs) result) = Inr inp" "w \<in> set (in_workloads inp)" for inp w
    using that by (auto simp: demo_render_inputs_def demo_uuid_def nil_uuid_def uuid_text_def is_hex_def is_dec_def)
  have "codec Some Some" by (simp add: codec_def)
  note ref = render_tx_refines [OF this load_rows.simps(1) tx ids, where directed = True]
  have "\<not> (\<exists>e. RenderIn (Inr demo_render_inputs) (Inr []) (\<lambda>k. if True \<and> True then None else Some ()) = Inl e)"
    using save_outcomes_error [of "\<lambda>k. None :: unit option"] by (simp add: RenderIn_def)
  then obtain rep pol where "RenderIn (Inr demo_render_inputs) (Inr []) (\<lambda>k. if True \<and> True then None else Some ()) = Inr (rep, pol)"
    by (metis sum.exhaust surj_pair)
  with ref tx show ?thesis by simp
qed

end
