(* ===== verification/Fleet.thy ===== *)
theory Fleet
  imports Authoring Ingest RenderStore
begin

text \<open>
  The operator's writes to the fleet: \<^verbatim>\<open>internal/fleet\<close> with its store, \<^verbatim>\<open>internal/store/fleet.go\<close> and the
  label write of \<^verbatim>\<open>internal/store/registry.go\<close>. Labels are replaced, a mode change flips the workloads
  it resolved to, a workload is retired, an agent is told to reconnect, and a hypothetical policy set
  is rendered without being saved. Every write but the label write is one transaction with the render
  it triggers. The results: a mode change flips exactly the resolved set and is recorded; a retirement
  is final, takes the workload's addresses out of every policy and freezes its row but for the status columns; a failed write
  leaves everything as it was; an unchanged set dry-runs to nothing.
\<close>

section \<open>State\<close>

record ModeChangeRecord =
  mc_id :: uuid
  mc_created_at :: instant
  mc_target :: EnforcementMode
  mc_selector :: "Selector option"
  mc_expected :: int
  mc_workloads :: "(uuid \<times> EnforcementMode) list"
  mc_updated :: int

text \<open>The row of a recorded change: counts are \<^verbatim>\<open>integer\<close> columns, the selector is encoded, instants keep microseconds.\<close>

record ModeChangeRow =
  mw_id :: uuid
  mw_created_at :: instant
  mw_target :: EnforcementMode
  mw_selector :: string
  mw_expected :: "32 word"
  mw_matched :: "32 word"
  mw_updated :: "32 word"
  mw_workloads :: "(uuid \<times> EnforcementMode) list"

record fleet_state =
  fs_estate :: estate
  fs_processes :: "(uuid, AgentProcess) gomap"
  fs_flows :: FlowTables
  fs_changes :: "ModeChangeRow list"
  fs_channel :: "string list"
  fs_replica :: replica

text \<open>What one operation meets: the clock, a fresh id, the configuration, and the outcome of each statement.\<close>

record fleet_env =
  fe_now :: instant
  fe_id :: uuid
  fe_collate :: "string \<Rightarrow> string"
  fe_digest :: "string \<Rightarrow> string"
  fe_json :: "Selector \<Rightarrow> string option"
  fe_window :: duration
  fe_streams :: bool
  fe_locked :: bool
  fe_listed :: bool
  fe_written :: bool
  fe_recorded :: bool
  fe_flipped :: bool
  fe_gaps_ok :: bool
  fe_load_ok :: bool
  fe_save :: "uuid \<Rightarrow> unit option"
  fe_directed :: bool
  fe_committed :: bool

datatype mode_finding = Admission admission_error | ErrModeChangeSelection | ErrModeChangeMode | ErrModeChangeExpected | ErrUnknownWorkload
  | ErrNameTwice

record fleet_finding =
  ff_path :: string
  ff_err :: mode_finding
  ff_detail :: detail

datatype fleet_error = LabelsRejected Findings | BadRequest "fleet_finding list" | FleetUnknown | FleetRetired uuid instant
  | LabelsVersionError string | MatchCountError int int | FlippedOther int int | ErrNoPrincipal | AgentOffline "instant option"
  | FleetRender | FleetStoreError

definition micros :: "instant \<Rightarrow> instant" where
  "micros t = t - t mod 1000"

section \<open>Labels\<close>

definition fleet_ValidateLabels :: "Label list \<Rightarrow> Findings option" where
  "fleet_ValidateLabels labels = ValidateLabelSet (map (\<lambda>l. (label_key l, label_value l)) labels)"

definition fleet_row :: "uuid \<Rightarrow> (Workload \<Rightarrow> Workload) \<Rightarrow> fleet_state \<Rightarrow> fleet_state" where
  "fleet_row k f st = st\<lparr>fs_estate := (fs_estate st)\<lparr>es_workloads := map (\<lambda>w. if w_id w = k then f w else w) (es_workloads (fs_estate st))\<rparr>\<rparr>"

definition find_row :: "uuid \<Rightarrow> fleet_state \<Rightarrow> Workload option" where
  "find_row k st = find (\<lambda>w. w_id w = k) (es_workloads (fs_estate st))"

text \<open>Labels are read back in key order; a key is unique per workload.\<close>

definition ReplaceWorkloadLabels :: "fleet_env \<Rightarrow> uuid \<Rightarrow> Label list \<Rightarrow> string \<Rightarrow> fleet_state \<Rightarrow> (fleet_error, fleet_state) result" where
  "ReplaceWorkloadLabels env k labels expect st = (if \<not> fe_locked env then Inl FleetStoreError
     else case find_row k st of
       None \<Rightarrow> Inl FleetUnknown
     | Some row \<Rightarrow> (case w_retired_at row of
         Some t \<Rightarrow> Inl (FleetRetired k t)
       | None \<Rightarrow>
           if expect \<noteq> [] \<and> \<not> fe_listed env then Inl FleetStoreError
           else if expect \<noteq> [] \<and> LabelsVersion (fe_digest env) (w_labels row) \<noteq> expect
             then Inl (LabelsVersionError (LabelsVersion (fe_digest env) (w_labels row)))
           else if \<not> fe_written env \<or> \<not> distinct (map label_key labels) \<or> \<not> fe_committed env then Inl FleetStoreError
           else Inr (fleet_row k (\<lambda>w. w\<lparr>w_labels := sort_key (\<lambda>l. fe_collate env (label_key l)) labels\<rparr>) st)))"

text \<open>\<^verbatim>\<open>RenderIn\<close> inside a transaction, with what it announces on commit.\<close>

definition render_in :: "fleet_env \<Rightarrow> fleet_state \<Rightarrow> (fleet_error, Report \<times> fleet_state) result" where
  "render_in env st = (case RenderIn (if fe_load_ok env then Inr (inputs_of (fe_collate env) (fs_estate st)) else Inl ())
        (Inr (es_policies (fs_estate st))) (fe_save env) of
     Inl _ \<Rightarrow> Inl FleetRender
   | Inr (rep, pol) \<Rightarrow> Inr (rep, st\<lparr>fs_estate := (fs_estate st)\<lparr>es_policies := pol\<rparr>,
       fs_channel := fs_channel st @ map (\<lambda>c. announcement_payload (rc_id c) (rc_version c)) (rep_changed rep)\<rparr>))"

text \<open>The label write commits before the render, which is a transaction of its own and may fail; \<open>renders\<close>
  is the environment of the render.\<close>

definition SetLabels :: "fleet_env \<Rightarrow> fleet_env \<Rightarrow> uuid \<Rightarrow> Label list \<Rightarrow> string \<Rightarrow> fleet_state \<Rightarrow> (fleet_error, unit) result \<times> fleet_state" where
  "SetLabels env renders k labels expect st = (case fleet_ValidateLabels labels of
     Some f \<Rightarrow> (Inl (LabelsRejected f), st)
   | None \<Rightarrow> (case ReplaceWorkloadLabels env k labels expect st of
       Inl e \<Rightarrow> (Inl e, st)
     | Inr st' \<Rightarrow> (case (if fe_locked renders then render_in renders st' else Inl FleetRender) of
         Inl e \<Rightarrow> (Inl e, st')
       | Inr (rep, st'') \<Rightarrow> if fe_committed renders then (Inr (), st'') else (Inl FleetRender, st'))))"

section \<open>Selections\<close>

record WorkloadRef =
  ref_id :: uuid
  ref_hostname :: string
  ref_labels :: "(string, string) gomap"

definition resolve :: "Selector \<Rightarrow> Workload list \<Rightarrow> WorkloadRef list" where
  "resolve sel workloads = (let active = filter (\<lambda>w. \<not> Retired w) workloads;
       index = index_by w_id LabelMap active; byID = index_by w_id (\<lambda>w. w) active
     in map (\<lambda>k. let w = the (map_of byID k) in \<lparr>ref_id = k, ref_hostname = w_hostname w, ref_labels = LabelMap w\<rparr>) (MatchWorkloads sel index))"

definition fleet_rebase :: "string \<Rightarrow> ValidationError \<Rightarrow> fleet_finding" where
  "fleet_rebase prefix e = \<lparr>ff_path = (if ve_path e = [] then prefix else if hd (ve_path e) = CHR ''['' then prefix @ ve_path e
       else prefix @ ''.'' @ ve_path e), ff_err = Admission (ve_err e), ff_detail = ve_detail e\<rparr>"

definition PreviewSelector :: "bool \<Rightarrow> Selector \<Rightarrow> fleet_state \<Rightarrow> (fleet_error, WorkloadRef list) result" where
  "PreviewSelector listed sel st = (case ValidateSelector sel of
     Some f \<Rightarrow> Inl (BadRequest (map (fleet_rebase ''selector'') (f_errors f)))
   | None \<Rightarrow> if listed then Inr (resolve sel (es_workloads (fs_estate st))) else Inl FleetStoreError)"

section \<open>Mode changes\<close>

record ModeChangeRequest =
  mr_selector :: "Selector option"
  mr_ids :: "uuid list"
  mr_target :: EnforcementMode
  mr_expected :: int

record ModeChangeResult =
  mres_id :: uuid
  mres_matched :: nat
  mres_updated :: int
  mres_rendered :: Report

definition request_selector :: "ModeChangeRequest \<Rightarrow> Selector" where
  "request_selector req = (case mr_selector req of None \<Rightarrow> [] | Some s \<Rightarrow> s)"

definition validateModeChange :: "ModeChangeRequest \<Rightarrow> bool \<Rightarrow> fleet_finding list" where
  "validateModeChange req hasExpected =
     (let sel = request_selector req in
      if (sel \<noteq> [] \<and> mr_ids req \<noteq> []) \<or> (sel = [] \<and> mr_ids req = [])
        then [\<lparr>ff_path = ''selector'', ff_err = ErrModeChangeSelection, ff_detail = NoDetail\<rparr>]
      else if sel \<noteq> [] then (case ValidateSelector sel of None \<Rightarrow> [] | Some f \<Rightarrow> map (fleet_rebase ''selector'') (f_errors f))
      else []) @
     (case mr_target req of
        ENFORCEMENT_MODE_VISIBILITY \<Rightarrow> [] | ENFORCEMENT_MODE_SIMULATION \<Rightarrow> [] | ENFORCEMENT_MODE_ENFORCED \<Rightarrow> []
      | ENFORCEMENT_MODE_UNSPECIFIED \<Rightarrow> [\<lparr>ff_path = ''target_mode'', ff_err = ErrModeChangeMode, ff_detail = NoDetail\<rparr>]
      | ENFORCEMENT_MODE_OTHER n \<Rightarrow> [\<lparr>ff_path = ''target_mode'', ff_err = ErrModeChangeMode, ff_detail = Text (''unknown mode '' @ show_int n)\<rparr>]) @
     (if \<not> hasExpected \<or> mr_expected req < 0 then [\<lparr>ff_path = ''expected_match_count'', ff_err = ErrModeChangeExpected, ff_detail = NoDetail\<rparr>] else [])"

text \<open>The loop over explicit ids: the findings and the ids so far.\<close>

fun resolve_ids :: "(uuid, Workload) gomap \<Rightarrow> (nat \<times> uuid) list \<Rightarrow> fleet_finding list \<Rightarrow> uuid list \<Rightarrow> (fleet_error, uuid list) result" where
  "resolve_ids byID [] f resolved = (if f \<noteq> [] then Inl (BadRequest f) else Inr resolved)"
| "resolve_ids byID ((i, k) # ids) f resolved = (case map_of byID k of
     None \<Rightarrow> resolve_ids byID ids (f @ [\<lparr>ff_path = index_path ''workload_ids'' i, ff_err = ErrUnknownWorkload, ff_detail = Text k\<rparr>]) resolved
   | Some w \<Rightarrow> (case w_retired_at w of
       Some t \<Rightarrow> Inl (FleetRetired (w_id w) t)
     | None \<Rightarrow> resolve_ids byID ids f (if k \<in> set resolved then resolved else resolved @ [k])))"

definition resolve_request :: "ModeChangeRequest \<Rightarrow> Workload list \<Rightarrow> (fleet_error, uuid list) result" where
  "resolve_request req workloads = (if request_selector req \<noteq> [] then Inr (map ref_id (resolve (request_selector req) workloads))
     else resolve_ids (index_by w_id (\<lambda>w. w) workloads) (enumerate 0 (mr_ids req)) [] [])"

text \<open>The two tables of a recorded change; a second change with the same id is refused.\<close>

definition RecordModeChange :: "fleet_env \<Rightarrow> ModeChangeRecord \<Rightarrow> fleet_state \<Rightarrow> (fleet_error, fleet_state) result" where
  "RecordModeChange env rec st = (case (case mc_selector rec of None \<Rightarrow> Some [] | Some s \<Rightarrow> fe_json env s) of
     None \<Rightarrow> Inl FleetStoreError
   | Some sel \<Rightarrow> if \<not> fe_recorded env \<or> mc_id rec \<in> mw_id ` set (fs_changes st) \<or> \<not> distinct (map fst (mc_workloads rec)) then Inl FleetStoreError
       else Inr (st\<lparr>fs_changes := fs_changes st @ [\<lparr>mw_id = mc_id rec, mw_created_at = micros (mc_created_at rec), mw_target = mc_target rec,
         mw_selector = sel, mw_expected = word_of_int (mc_expected rec), mw_matched = of_nat (length (mc_workloads rec)),
         mw_updated = word_of_int (mc_updated rec), mw_workloads = mc_workloads rec\<rparr>]\<rparr>))"

definition SetWorkloadModes :: "fleet_env \<Rightarrow> uuid list \<Rightarrow> EnforcementMode \<Rightarrow> fleet_state \<Rightarrow> (fleet_error, int \<times> fleet_state) result" where
  "SetWorkloadModes env ids m st = (if \<not> fe_flipped env then Inl FleetStoreError
     else let ws = es_workloads (fs_estate st) in
       Inr (int (length (filter (\<lambda>w. w_id w \<in> set ids \<and> w_mode w \<noteq> m) ws)),
         st\<lparr>fs_estate := (fs_estate st)\<lparr>es_workloads := map (\<lambda>w. if w_id w \<in> set ids \<and> w_mode w \<noteq> m then w\<lparr>w_mode := m\<rparr> else w) ws\<rparr>\<rparr>))"

definition GetModeChange :: "bool \<Rightarrow> (string \<Rightarrow> Selector option) \<Rightarrow> uuid \<Rightarrow> fleet_state \<Rightarrow> (fleet_error, ModeChangeRecord) result" where
  "GetModeChange ok unjson k st = (if \<not> ok then Inl FleetStoreError
     else case find (\<lambda>r. mw_id r = k) (fs_changes st) of
       None \<Rightarrow> Inl FleetStoreError
     | Some r \<Rightarrow> (case (if mw_selector r = [] then Some None else map_option Some (unjson (mw_selector r))) of
         None \<Rightarrow> Inl FleetStoreError
       | Some sel \<Rightarrow> Inr \<lparr>mc_id = mw_id r, mc_created_at = mw_created_at r, mc_target = mw_target r, mc_selector = sel,
           mc_expected = sint (mw_expected r), mc_workloads = sort_key fst (mw_workloads r), mc_updated = sint (mw_updated r)\<rparr>))"

definition mode_record :: "fleet_env \<Rightarrow> ModeChangeRequest \<Rightarrow> Workload list \<Rightarrow> uuid list \<Rightarrow> ModeChangeRecord" where
  "mode_record env req workloads resolved = (let byID = index_by w_id (\<lambda>w. w) workloads; mode_of = (\<lambda>k. w_mode (the (map_of byID k))) in
     \<lparr>mc_id = fe_id env, mc_created_at = fe_now env, mc_target = mr_target req, mc_selector = mr_selector req, mc_expected = mr_expected req,
      mc_workloads = map (\<lambda>k. (k, mode_of k)) resolved,
      mc_updated = int (length (filter (\<lambda>k. mode_of k \<noteq> mr_target req) resolved))\<rparr>)"

definition change_mode_tx :: "fleet_env \<Rightarrow> ModeChangeRequest \<Rightarrow> fleet_state \<Rightarrow> (fleet_error, ModeChangeResult \<times> fleet_state) result" where
  "change_mode_tx env req st = (if \<not> fe_locked env \<or> \<not> fe_listed env then Inl FleetStoreError
     else let workloads = es_workloads (fs_estate st) in
     bind_result (resolve_request req workloads) (\<lambda>resolved.
       if int (length resolved) \<noteq> mr_expected req then Inl (MatchCountError (mr_expected req) (int (length resolved)))
       else let rec = mode_record env req workloads resolved in
         bind_result (RecordModeChange env rec st) (\<lambda>st.
         bind_result (SetWorkloadModes env resolved (mr_target req) st) (\<lambda>(updated, st).
           if updated \<noteq> mc_updated rec then Inl (FlippedOther updated (mc_updated rec))
           else bind_result (render_in env st) (\<lambda>(rep, st).
             Inr (\<lparr>mres_id = mc_id rec, mres_matched = length resolved, mres_updated = mc_updated rec, mres_rendered = rep\<rparr>, st))))))"

definition ChangeMode :: "fleet_env \<Rightarrow> ModeChangeRequest \<Rightarrow> bool \<Rightarrow> fleet_state \<Rightarrow> (fleet_error, ModeChangeResult) result \<times> fleet_state" where
  "ChangeMode env req hasExpected st = (if validateModeChange req hasExpected \<noteq> [] then (Inl (BadRequest (validateModeChange req hasExpected)), st)
     else case change_mode_tx env req st of
       Inl e \<Rightarrow> (Inl e, st)
     | Inr (res, st') \<Rightarrow> if fe_committed env then (Inr res, st') else (Inl FleetStoreError, st))"

section \<open>Retirement and reconnects\<close>

record RetireSubject =
  sub_retired_at :: "instant option"
  sub_last_report :: "instant option"
  sub_process :: "AgentProcess option"

record Retirement =
  ret_id :: uuid
  ret_at :: instant
  ret_rendered :: Report
  ret_closed :: "StoredGap option"

definition LockWorkload :: "bool \<Rightarrow> uuid \<Rightarrow> fleet_state \<Rightarrow> (fleet_error, RetireSubject) result" where
  "LockWorkload ok k st = (if \<not> ok then Inl FleetStoreError
     else case find_row k st of
       None \<Rightarrow> Inl FleetUnknown
     | Some w \<Rightarrow> Inr \<lparr>sub_retired_at = w_retired_at w, sub_last_report = w_last_flow_report_at w, sub_process = map_of (fs_processes st) k\<rparr>)"

definition StampRetired :: "bool \<Rightarrow> uuid \<Rightarrow> instant \<Rightarrow> fleet_state \<Rightarrow> (fleet_error, fleet_state) result" where
  "StampRetired ok k at st = (if \<not> ok \<or> \<not> list_ex (\<lambda>w. w_id w = k \<and> w_retired_at w = None) (es_workloads (fs_estate st)) then Inl FleetStoreError
     else Inr (fleet_row k (\<lambda>w. if w_retired_at w = None then w\<lparr>w_retired_at := Some at\<rparr> else w) st))"

definition retire_tx :: "fleet_env \<Rightarrow> uuid \<Rightarrow> fleet_state \<Rightarrow> (fleet_error, Retirement \<times> fleet_state) result" where
  "retire_tx env k st = (if \<not> fe_locked env then Inl FleetStoreError
     else bind_result (LockWorkload (fe_listed env) k st) (\<lambda>subj. case sub_retired_at subj of
       Some t \<Rightarrow> Inl (FleetRetired k t)
     | None \<Rightarrow> let at = micros (fe_now env); gap = SilenceAtRetirement (sub_last_report subj) (sub_process subj) at (fe_window env) in
         bind_result (StampRetired (fe_written env) k at st) (\<lambda>st.
         bind_result (case gap of None \<Rightarrow> Inr st
             | Some g \<Rightarrow> (case writeGaps (fe_gaps_ok env) k [g] (fs_flows st) of Inl _ \<Rightarrow> Inl FleetStoreError | Inr ft \<Rightarrow> Inr (st\<lparr>fs_flows := ft\<rparr>))) (\<lambda>st.
         bind_result (render_in env st) (\<lambda>(rep, st).
           if \<not> fe_directed env then Inl FleetStoreError
           else Inr (\<lparr>ret_id = k, ret_at = at, ret_rendered = rep, ret_closed = gap\<rparr>,
             st\<lparr>fs_channel := fs_channel st @ [directive_payload (DirectiveEnd k)]\<rparr>))))))"

definition Retire :: "fleet_env \<Rightarrow> bool \<Rightarrow> uuid \<Rightarrow> fleet_state \<Rightarrow> (fleet_error, Retirement) result \<times> fleet_state" where
  "Retire env caller k st = (if \<not> caller then (Inl ErrNoPrincipal, st)
     else case retire_tx env k st of
       Inl e \<Rightarrow> (Inl e, st)
     | Inr (res, st') \<Rightarrow> if \<not> fe_committed env then (Inl FleetStoreError, st)
         else (Inr res, if fe_streams env then st'\<lparr>fs_replica := snd (EndRetired k (fs_replica st'))\<rparr> else st'))"

definition RequestReconnect :: "fleet_env \<Rightarrow> uuid \<Rightarrow> fleet_state \<Rightarrow> (fleet_error, instant option) result \<times> fleet_state" where
  "RequestReconnect env k st = (if \<not> fe_listed env then (Inl FleetStoreError, st)
     else case find_row k st of
       None \<Rightarrow> (Inl FleetUnknown, st)
     | Some w \<Rightarrow> (case w_retired_at w of
         Some t \<Rightarrow> (Inl (FleetRetired k t), st)
       | None \<Rightarrow>
           if w_sync_state w = SYNC_STATE_OFFLINE then (Inl (AgentOffline (w_last_seen_at w)), st)
           else if \<not> fe_directed env then (Inl FleetStoreError, st)
           else (Inr (w_last_snapshot_sent_at w), st\<lparr>fs_channel := fs_channel st @ [directive_payload (DirectiveReconnect k)]\<rparr>)))"

section \<open>The dry run\<close>

record DryRunResult =
  dr_version :: string
  dr_stale :: bool
  dr_workloads :: "WorkloadDiff list"

definition dry_run_step :: "References \<Rightarrow> nat \<times> Ruleset \<Rightarrow> (string, nat) gomap \<times> fleet_finding list \<Rightarrow> (string, nat) gomap \<times> fleet_finding list" where
  "dry_run_step refs irs st = (case (irs, st) of ((i, rs), (names, f)) \<Rightarrow>
     let path = index_path ''rulesets'' i;
       f = (case ValidateRuleset rs refs of None \<Rightarrow> f | Some g \<Rightarrow> f @ map (fleet_rebase path) (f_errors g))
     in case map_of names (rs_name rs) of
          Some first \<Rightarrow> if rs_name rs \<noteq> [] then (names, f @ [\<lparr>ff_path = path @ ''.name'', ff_err = ErrNameTwice,
                ff_detail = Text (''also '' @ index_path ''rulesets'' first)\<rparr>])
              else (AList.update (rs_name rs) i names, f)
        | None \<Rightarrow> (AList.update (rs_name rs) i names, f))"

text \<open>\<open>ids\<close> gives the fresh ids the copy of each ruleset is completed with.\<close>

definition fleet_DryRun :: "fleet_env \<Rightarrow> (nat \<Rightarrow> uuid) \<Rightarrow> (nat \<Rightarrow> nat \<Rightarrow> uuid) \<Rightarrow> Ruleset list \<Rightarrow> string \<Rightarrow> fleet_state \<Rightarrow> (fleet_error, DryRunResult) result" where
  "fleet_DryRun env ids fresh rulesets stateVersion st = (if \<not> fe_load_ok env then Inl FleetStoreError
     else let inp = inputs_of (fe_collate env) (fs_estate st);
       refs = \<lparr>ref_services = svc_id ` set (in_services inp), ref_groups = grp_id ` set (in_groups inp)\<rparr>;
       f = snd (fold (dry_run_step refs) (enumerate 0 rulesets) ([], []))
     in if f \<noteq> [] then Inl (BadRequest f)
        else let v = StateVersion (fe_digest env) inp;
          hypothetical = inp\<lparr>in_rulesets := map (\<lambda>(i, rs). AssignIDs (ids i) (fresh i) rs) (enumerate 0 rulesets)\<rparr>
        in Inr \<lparr>dr_version = v, dr_stale = (stateVersion \<noteq> [] \<and> stateVersion \<noteq> v),
             dr_workloads = DryRun (es_policies (fs_estate st)) (Render hypothetical)\<rparr>)"

definition fleet_StateVersion :: "fleet_env \<Rightarrow> fleet_state \<Rightarrow> (fleet_error, string) result" where
  "fleet_StateVersion env st = (if \<not> fe_load_ok env then Inl FleetStoreError
     else Inr (StateVersion (fe_digest env) (inputs_of (fe_collate env) (fs_estate st))))"

definition AuthoringState :: "fleet_env \<Rightarrow> fleet_state \<Rightarrow> (fleet_error, Ruleset list \<times> string) result" where
  "AuthoringState env st = (if \<not> fe_load_ok env then Inl FleetStoreError
     else let inp = inputs_of (fe_collate env) (fs_estate st) in Inr (in_rulesets inp, StateVersion (fe_digest env) inp))"

section \<open>Selections resolve to active workloads\<close>

text \<open>The workloads a request selects.\<close>

definition selected :: "ModeChangeRequest \<Rightarrow> Workload list \<Rightarrow> uuid set" where
  "selected req ws = w_id ` {w \<in> set ws. \<not> Retired w \<and>
     (if request_selector req \<noteq> [] then Matches (request_selector req) (LabelMap w) else w_id w \<in> set (mr_ids req))}"

lemma map_ref_id_resolve: "map ref_id (resolve sel ws) = MatchWorkloads sel (index_by w_id LabelMap (filter (\<lambda>w. \<not> Retired w) ws))"
  by (simp add: resolve_def Let_def comp_def)

lemma distinct_row: "distinct (map w_id ws) \<Longrightarrow> w \<in> set ws \<Longrightarrow> v \<in> set ws \<Longrightarrow> w_id w = w_id v \<Longrightarrow> w = v"
  by (simp add: distinct_map inj_on_def)

lemma set_resolve:
  assumes "distinct (map w_id ws)"
  shows "set (map ref_id (resolve sel ws)) = w_id ` {w \<in> set ws. \<not> Retired w \<and> Matches sel (LabelMap w)}"
    "distinct (map ref_id (resolve sel ws))"
proof -
  let ?active = "filter (\<lambda>w. \<not> Retired w) ws"
  have d: "distinct (map w_id ?active)" using assms by (simp add: distinct_map_filter)
  have "map_of (index_by w_id LabelMap ?active) k = Some l \<longleftrightarrow> (\<exists>w\<in>set ?active. w_id w = k \<and> LabelMap w = l)" for k l
    using index_by_Some_distinct [OF d, where val = LabelMap] index_by_SomeD [of w_id LabelMap ?active k l] by auto
  then show "set (map ref_id (resolve sel ws)) = w_id ` {w \<in> set ws. \<not> Retired w \<and> Matches sel (LabelMap w)}"
    unfolding map_ref_id_resolve by (subst set_MatchWorkloads) auto
  show "distinct (map ref_id (resolve sel ws))" unfolding map_ref_id_resolve by (simp add: distinct_MatchWorkloads)
qed

lemma resolve_ids_Inr:
  assumes "resolve_ids byID ids f resolved = Inr out" and "distinct resolved"
  shows "f = [] \<and> distinct out \<and> set out = set resolved \<union> snd ` set ids \<and>
    (\<forall>k\<in>snd ` set ids. \<exists>w. map_of byID k = Some w \<and> w_retired_at w = None)"
  using assms
proof (induction ids arbitrary: f resolved)
  case (Cons ik ids)
  obtain i k where ik: "ik = (i, k)" by (cases ik)
  show ?case
  proof (cases "map_of byID k")
    case None
    with Cons.prems ik Cons.IH show ?thesis by fastforce
  next
    case (Some w)
    with Cons.prems(1) ik have active: "w_retired_at w = None"
      and rest: "resolve_ids byID ids f (if k \<in> set resolved then resolved else resolved @ [k]) = Inr out" by (auto split: option.split_asm)
    have "distinct (if k \<in> set resolved then resolved else resolved @ [k])" using Cons.prems(2) by simp
    from Cons.IH [OF rest this] show ?thesis using ik Some active by (auto split: if_split_asm)
  qed
qed (simp split: if_split_asm)

lemma resolve_request_Inr:
  assumes "distinct (map w_id ws)" and "resolve_request req ws = Inr resolved"
  shows "distinct resolved" "set resolved = selected req ws"
proof -
  have "distinct resolved \<and> set resolved = selected req ws"
  proof (cases "request_selector req = []")
    case False
    then show ?thesis using assms(2) set_resolve [OF assms(1), of "request_selector req"]
      by (auto simp: resolve_request_def selected_def)
  next
    case True
    let ?byID = "index_by w_id (\<lambda>w. w) ws"
    have ids: "snd ` set (enumerate 0 (mr_ids req)) = set (mr_ids req)" by (metis list.set_map map_snd_enumerate)
    from True assms(2) have "resolve_ids ?byID (enumerate 0 (mr_ids req)) [] [] = Inr resolved" by (simp add: resolve_request_def)
    from resolve_ids_Inr [OF this] have r: "distinct resolved" "set resolved = set (mr_ids req)"
      "\<forall>k\<in>set (mr_ids req). \<exists>w. map_of ?byID k = Some w \<and> w_retired_at w = None" by (simp_all add: ids)
    have "\<exists>w\<in>set ws. w_id w = k \<and> \<not> Retired w" if "k \<in> set (mr_ids req)" for k
      using r(3) that index_by_SomeD [of w_id "\<lambda>w. w" ws k] by (auto simp: Retired_def)
    then show ?thesis using r(1,2) True by (auto simp: selected_def)
  qed
  then show "distinct resolved" "set resolved = selected req ws" by simp_all
qed

lemma flipped_count:
  assumes "distinct (map w_id ws)" and "distinct resolved" and "set resolved \<subseteq> w_id ` set ws"
  shows "length (filter (\<lambda>w. w_id w \<in> set resolved \<and> w_mode w \<noteq> m) ws) =
    length (filter (\<lambda>k. w_mode (the (map_of (index_by w_id (\<lambda>w. w) ws) k)) \<noteq> m) resolved)" (is "length ?l = length ?r")
proof -
  have row: "the (map_of (index_by w_id (\<lambda>w. w) ws) (w_id w)) = w" if "w \<in> set ws" for w
    using index_by_Some_distinct [OF assms(1) that, of "\<lambda>w. w"] by simp
  have "set (map w_id ?l) = set ?r" using assms(3) row by auto
  moreover have "distinct (map w_id ?l)" "distinct ?r" using assms(1,2) by (simp_all add: distinct_map_filter)
  ultimately show ?thesis using distinct_card [of "map w_id ?l"] distinct_card [of ?r] by (simp only: length_map)
qed

section \<open>What a render in a transaction leaves\<close>

lemma render_in_Inr:
  assumes "render_in env st = Inr (rep, st')"
  obtains pol where "RenderIn (Inr (inputs_of (fe_collate env) (fs_estate st))) (Inr (es_policies (fs_estate st))) (fe_save env) = Inr (rep, pol)"
    and "st' = st\<lparr>fs_estate := (fs_estate st)\<lparr>es_policies := pol\<rparr>,
       fs_channel := fs_channel st @ map (\<lambda>c. announcement_payload (rc_id c) (rc_version c)) (rep_changed rep)\<rparr>"
  using assms by (auto simp: render_in_def RenderIn_def split: sum.split_asm if_split_asm)

lemma render_in_rows:
  "render_in env st = Inr (rep, st') \<Longrightarrow> es_workloads (fs_estate st') = es_workloads (fs_estate st) \<and> es_authored (fs_estate st') = es_authored (fs_estate st) \<and>
     fs_flows st' = fs_flows st \<and> fs_changes st' = fs_changes st \<and> fs_replica st' = fs_replica st \<and> fs_processes st' = fs_processes st"
  by (erule render_in_Inr) simp

text \<open>The state a render needs of the tables: authored objects admitted, rule ids UUIDs, workload ids unique.\<close>

definition fleet_ok :: "fleet_state \<Rightarrow> bool" where
  "fleet_ok st = (authored_ok (es_authored (fs_estate st)) \<and> list_all uuid_text (AuthoredStore.rule_ids (ad_rulesets (es_authored (fs_estate st)))) \<and>
     distinct (map w_id (es_workloads (fs_estate st))))"

lemma fleet_ok_inputs: "fleet_ok st \<Longrightarrow> inputs_ok (inputs_of ck (fs_estate st))"
  by (simp add: fleet_ok_def inputs_of_ok)

lemma render_in_in_force:
  assumes "render_in env st = Inr (rep, st')" and "fleet_ok st" and "w \<in> set (es_workloads (fs_estate st))" and "\<not> Retired w"
  shows "\<exists>p. map_of (es_policies (fs_estate st')) (w_id w) = Some p \<and>
    mode p = (if w_mode w = ENFORCEMENT_MODE_UNSPECIFIED then ENFORCEMENT_MODE_VISIBILITY else w_mode w) \<and>
    (permits (Canonical (Some p)) a pr n \<longleftrightarrow> authored_permits (inputs_of (fe_collate env) (fs_estate st')) w a pr n)"
proof -
  let ?inp = "inputs_of (fe_collate env) (fs_estate st)"
  obtain pol where run: "RenderIn (Inr ?inp) (Inr (es_policies (fs_estate st))) (fe_save env) = Inr (rep, pol)"
    and st': "es_policies (fs_estate st') = pol" "inputs_of (fe_collate env) (fs_estate st') = ?inp"
    by (rule render_in_Inr [OF assms(1)]) (simp add: inputs_of_def)
  have "w \<in> set (in_workloads ?inp)" using assms(3) by (simp add: inputs_of_def)
  from render_in_force [OF run fleet_ok_inputs [OF assms(2)] this assms(4), of a pr n]
  show ?thesis unfolding st' by (auto simp: renderWorkload_def)
qed

text \<open>A retired workload's policy stays as it was persisted.\<close>

lemma render_in_retired:
  assumes "render_in env st = Inr (rep, st')" and "distinct (map w_id (es_workloads (fs_estate st)))"
    and "w \<in> set (es_workloads (fs_estate st))" and "Retired w"
  shows "map_of (es_policies (fs_estate st')) (w_id w) = map_of (es_policies (fs_estate st)) (w_id w)"
proof -
  let ?inp = "inputs_of (fe_collate env) (fs_estate st)"
  obtain pol where run: "RenderIn (Inr ?inp) (Inr (es_policies (fs_estate st))) (fe_save env) = Inr (rep, pol)"
    and st': "es_policies (fs_estate st') = pol" by (rule render_in_Inr [OF assms(1)]) simp
  have "w_id w \<notin> w_id ` set (filter (\<lambda>w. \<not> Retired w) (in_workloads ?inp))"
    using distinct_row [OF assms(2,3)] assms(4) by (auto simp: inputs_of_def)
  then have "w_id w \<notin> dom (map_of (Render ?inp))" by (simp add: Render_def)
  then have "map_of (Render ?inp) (w_id w) = None" by auto
  with RenderIn_lookup [OF run, of "w_id w"] show ?thesis unfolding st' by simp
qed

section \<open>A mode change\<close>

lemma change_mode_tx_Inr:
  assumes "change_mode_tx env req st = Inr (res, st')" and "distinct (map w_id (es_workloads (fs_estate st)))"
  obtains resolved st1 st2 where
    "distinct resolved" "set resolved = selected req (es_workloads (fs_estate st))" "int (length resolved) = mr_expected req"
    "RecordModeChange env (mode_record env req (es_workloads (fs_estate st)) resolved) st = Inr st1"
    "st2 = st1\<lparr>fs_estate := (fs_estate st1)\<lparr>es_workloads := map (\<lambda>w. if w_id w \<in> set resolved then w\<lparr>w_mode := mr_target req\<rparr> else w) (es_workloads (fs_estate st))\<rparr>\<rparr>"
    "render_in env st2 = Inr (mres_rendered res, st')"
    "mres_matched res = length resolved" "mres_id res = fe_id env"
    "mres_updated res = mc_updated (mode_record env req (es_workloads (fs_estate st)) resolved)"
proof -
  let ?ws = "es_workloads (fs_estate st)"
  obtain resolved where r: "resolve_request req ?ws = Inr resolved" "int (length resolved) = mr_expected req"
    using assms(1) by (auto simp: change_mode_tx_def Let_def split: if_split_asm)
  let ?rec = "mode_record env req ?ws resolved"
  from assms(1) r obtain st1 where st1: "RecordModeChange env ?rec st = Inr st1"
    by (auto simp: change_mode_tx_def Let_def split: if_split_asm)
  then have ws1: "es_workloads (fs_estate st1) = ?ws" by (auto simp: RecordModeChange_def split: option.split_asm if_split_asm)
  let ?flip = "map (\<lambda>w. if w_id w \<in> set resolved then w\<lparr>w_mode := mr_target req\<rparr> else w) ?ws"
  have "(if w_id w \<in> set resolved \<and> w_mode w \<noteq> mr_target req then w\<lparr>w_mode := mr_target req\<rparr> else w) =
      (if w_id w \<in> set resolved then w\<lparr>w_mode := mr_target req\<rparr> else w)" for w by simp
  then have flip: "map (\<lambda>w. if w_id w \<in> set resolved \<and> w_mode w \<noteq> mr_target req then w\<lparr>w_mode := mr_target req\<rparr> else w) ?ws = ?flip" by simp
  let ?st2 = "st1\<lparr>fs_estate := (fs_estate st1)\<lparr>es_workloads := ?flip\<rparr>\<rparr>"
  from assms(1) r st1 obtain rep where "render_in env ?st2 = Inr (rep, st')" and
    res: "res = \<lparr>mres_id = mc_id ?rec, mres_matched = length resolved, mres_updated = mc_updated ?rec, mres_rendered = rep\<rparr>"
    by (auto simp: change_mode_tx_def Let_def SetWorkloadModes_def ws1 flip split: if_split_asm)
  then show thesis using that [OF resolve_request_Inr [OF assms(2) r(1)] r(2) st1 refl] by (simp add: mode_record_def Let_def)
qed

lemma RecordModeChange_Inr:
  assumes "RecordModeChange env rec st = Inr st1"
  shows "fs_estate st1 = fs_estate st \<and> fs_processes st1 = fs_processes st \<and> (\<exists>row. fs_changes st1 = fs_changes st @ [row] \<and> mw_id row = mc_id rec \<and> mw_workloads row = mc_workloads rec \<and>
    mw_matched row = of_nat (length (mc_workloads rec)))"
  using assms by (auto simp: RecordModeChange_def split: option.split_asm if_split_asm)

lemma find_snoc: "\<forall>x\<in>set xs. \<not> P x \<Longrightarrow> find P (xs @ [y]) = (if P y then Some y else None)"
  by (induction xs) auto

text \<open>A recorded change reads back, with its instant to the microsecond and its workloads in id order.\<close>

lemma recorded_change_reads_back:
  assumes "RecordModeChange env rec st = Inr st1" and "\<And>s js. fe_json env s = Some js \<Longrightarrow> js \<noteq> [] \<and> unjson js = Some s"
    and "- (2 ^ 31) \<le> mc_expected rec" "mc_expected rec < 2 ^ 31" "0 \<le> mc_updated rec" "mc_updated rec < 2 ^ 31"
  shows "GetModeChange True unjson (mc_id rec) st1 = Inr (rec\<lparr>mc_created_at := micros (mc_created_at rec), mc_workloads := sort_key fst (mc_workloads rec)\<rparr>)"
proof -
  obtain row where row: "fs_changes st1 = fs_changes st @ [row]" "mc_id rec \<notin> mw_id ` set (fs_changes st)" "mw_id row = mc_id rec"
    "mw_created_at row = micros (mc_created_at rec)" "mw_target row = mc_target rec" "mw_expected row = word_of_int (mc_expected rec)"
    "mw_updated row = word_of_int (mc_updated rec)" "mw_workloads row = mc_workloads rec"
    "(if mw_selector row = [] then Some None else map_option Some (unjson (mw_selector row))) = Some (mc_selector rec)"
    using assms(1,2) by (auto simp: RecordModeChange_def split: option.split_asm if_split_asm)
  have "find (\<lambda>r. mw_id r = mc_id rec) (fs_changes st1) = Some row"
    unfolding row(1) using row(2,3) by (subst find_snoc) (auto simp: image_iff)
  moreover have "sint (word_of_int (mc_expected rec) :: 32 word) = mc_expected rec" "sint (word_of_int (mc_updated rec) :: 32 word) = mc_updated rec"
    using assms(3-6) by (simp_all add: sint_sbintrunc' signed_take_bit_int_eq_self)
  ultimately show ?thesis using row by (simp add: GetModeChange_def)
qed

lemma mode_record_workloads:
  assumes "distinct (map w_id ws)" and "set resolved = selected req ws"
  shows "set (mc_workloads (mode_record env req ws resolved)) = {(w_id w, w_mode w) | w. w \<in> set ws \<and> w_id w \<in> selected req ws}"
proof -
  have row: "map_of (index_by w_id (\<lambda>w. w) ws) (w_id w) = Some w" if "w \<in> set ws" for w
    using index_by_Some_distinct [OF assms(1) that, of "\<lambda>w. w"] .
  have sub: "selected req ws \<subseteq> w_id ` set ws" by (auto simp: selected_def)
  define A where "A = {w \<in> set ws. w_id w \<in> selected req ws}"
  have A: "selected req ws = w_id ` A" using sub by (auto simp: A_def)
  have "set (mc_workloads (mode_record env req ws resolved)) = (\<lambda>w. (w_id w, w_mode (the (map_of (index_by w_id (\<lambda>w. w) ws) (w_id w))))) ` A"
    by (simp add: mode_record_def Let_def assms(2) A image_image)
  also have "\<dots> = (\<lambda>w. (w_id w, w_mode w)) ` A" by (rule image_cong) (simp_all add: row A_def)
  finally show ?thesis unfolding A_def by blast
qed

lemma mode_record_updated:
  assumes "distinct (map w_id ws)" and "distinct resolved" and "set resolved = selected req ws"
  shows "mc_updated (mode_record env req ws resolved) = int (card {w \<in> set ws. w_id w \<in> selected req ws \<and> w_mode w \<noteq> mr_target req})"
proof -
  have sub: "set resolved \<subseteq> w_id ` set ws" using assms(3) by (auto simp: selected_def)
  have "mc_updated (mode_record env req ws resolved) = int (length (filter (\<lambda>w. w_id w \<in> set resolved \<and> w_mode w \<noteq> mr_target req) ws))"
    using flipped_count [OF assms(1,2) sub] by (simp add: mode_record_def Let_def)
  moreover have "distinct (filter (\<lambda>w. w_id w \<in> set resolved \<and> w_mode w \<noteq> mr_target req) ws)" using assms(1) by (simp add: distinct_map)
  from distinct_card [OF this] have "length (filter (\<lambda>w. w_id w \<in> set resolved \<and> w_mode w \<noteq> mr_target req) ws) =
      card {w \<in> set ws. w_id w \<in> set resolved \<and> w_mode w \<noteq> mr_target req}" by simp
  ultimately show ?thesis using assms(3) by simp
qed

lemma validated_target: "validateModeChange req hasExpected = [] \<Longrightarrow> mr_target req \<noteq> ENFORCEMENT_MODE_UNSPECIFIED"
  by (auto simp: validateModeChange_def Let_def)

text \<open>A row write that leaves ids and retirement alone.\<close>

lemma map_rows_ids: "(\<And>w. w_id (f w) = w_id w) \<Longrightarrow> map w_id (map f ws) = map w_id ws"
  by simp

lemma resolve_ids_ok:
  "\<forall>k\<in>snd ` set ids. \<exists>w. map_of byID k = Some w \<and> w_retired_at w = None \<Longrightarrow> \<exists>out. resolve_ids byID ids [] resolved = Inr out"
proof (induction ids arbitrary: resolved)
  case (Cons ik ids)
  obtain i k where "ik = (i, k)" by (cases ik)
  with Cons show ?case by fastforce
qed simp

lemma RenderIn_succeeds: "\<exists>rep pol. RenderIn (Inr inp) (Inr previous) (\<lambda>_. None :: unit option) = Inr (rep, pol)"
proof -
  have "\<not> (\<exists>e. save_outcomes (\<lambda>_. None :: unit option) os s = Inl e)" for os s unfolding save_outcomes_error by simp
  then have "RenderIn (Inr inp) (Inr previous) (\<lambda>_. None) \<noteq> Inl ()" unfolding RenderIn_def bind_result_simps by blast
  then show ?thesis by (cases "RenderIn (Inr inp) (Inr previous) (\<lambda>_. None :: unit option)") auto
qed

lemma render_in_succeeds:
  assumes "fe_load_ok env" and "fe_save env = (\<lambda>_. None)"
  shows "\<exists>rep st'. render_in env st = Inr (rep, st')"
  using RenderIn_succeeds [of "inputs_of (fe_collate env) (fs_estate st)" "es_policies (fs_estate st)"] assms by (auto simp: render_in_def)

text \<open>Every statement of the operation is answered.\<close>

definition stores_answer :: "fleet_env \<Rightarrow> fleet_state \<Rightarrow> bool" where
  "stores_answer env st = (fe_locked env \<and> fe_listed env \<and> fe_written env \<and> fe_recorded env \<and> fe_flipped env \<and> fe_gaps_ok env \<and> fe_load_ok env \<and>
     fe_directed env \<and> fe_committed env \<and> fe_save env = (\<lambda>_. None) \<and> fe_id env \<notin> mw_id ` set (fs_changes st) \<and>
     (\<forall>s. fe_json env s \<noteq> None))"

lemma change_mode_tx_succeeds:
  assumes "stores_answer env st" and "distinct (map w_id (es_workloads (fs_estate st)))"
    and "resolve_request req (es_workloads (fs_estate st)) = Inr resolved" and "int (length resolved) = mr_expected req"
  shows "\<exists>res st'. change_mode_tx env req st = Inr (res, st')"
proof -
  let ?ws = "es_workloads (fs_estate st)"
  let ?rec = "mode_record env req ?ws resolved"
  note r = resolve_request_Inr [OF assms(2,3)]
  have "mc_id ?rec = fe_id env" "map fst (mc_workloads ?rec) = resolved" by (simp_all add: mode_record_def Let_def comp_def)
  then have "distinct (map fst (mc_workloads ?rec))" "mc_id ?rec \<notin> mw_id ` set (fs_changes st)" using assms(1) r(1) by (simp_all add: stores_answer_def)
  moreover obtain js where "fe_json env (the (mc_selector ?rec)) = Some js" using assms(1) by (auto simp: stores_answer_def)
  ultimately have "\<exists>st1. RecordModeChange env ?rec st = Inr st1"
    using assms(1) by (cases "mc_selector ?rec") (auto simp: RecordModeChange_def stores_answer_def)
  then obtain st1 where st1: "RecordModeChange env ?rec st = Inr st1" by blast
  then have ws1: "es_workloads (fs_estate st1) = ?ws" using RecordModeChange_Inr by metis
  have sub: "set resolved \<subseteq> w_id ` set ?ws" using r(2) by (auto simp: selected_def)
  have n: "int (length (filter (\<lambda>w. w_id w \<in> set resolved \<and> w_mode w \<noteq> mr_target req) ?ws)) = mc_updated ?rec"
    using flipped_count [OF assms(2) r(1) sub] by (simp add: mode_record_def Let_def)
  obtain rep st' where "render_in env (st1\<lparr>fs_estate := (fs_estate st1)\<lparr>es_workloads := map (\<lambda>w. if w_id w \<in> set resolved \<and> w_mode w \<noteq> mr_target req
      then w\<lparr>w_mode := mr_target req\<rparr> else w) ?ws\<rparr>\<rparr>) = Inr (rep, st')" using render_in_succeeds [of env] assms(1) unfolding stores_answer_def by blast
  then show ?thesis using assms(1,3,4) st1 by (simp add: change_mode_tx_def Let_def SetWorkloadModes_def ws1 n stores_answer_def)
qed

section \<open>A retirement\<close>

lemma fleet_row_rows: "es_workloads (fs_estate (fleet_row k f st)) = map (\<lambda>w. if w_id w = k then f w else w) (es_workloads (fs_estate st))"
  by (simp add: fleet_row_def)

lemma find_row_distinct:
  "distinct (map w_id (es_workloads (fs_estate st))) \<Longrightarrow> find_row k st = Some w \<longleftrightarrow> w \<in> set (es_workloads (fs_estate st)) \<and> w_id w = k"
  unfolding find_row_def using distinct_row
  by (auto simp: find_Some_iff in_set_conv_nth distinct_conv_nth)

lemma retire_tx_Inr:
  assumes "retire_tx env k st = Inr (res, st')"
  obtains w st1 st2 st3 where
    "find_row k st = Some w" "w_retired_at w = None" "ret_id res = k" "ret_at res = micros (fe_now env)"
    "ret_closed res = SilenceAtRetirement (w_last_flow_report_at w) (map_of (fs_processes st) k) (ret_at res) (fe_window env)"
    "st1 = fleet_row k (\<lambda>w. if w_retired_at w = None then w\<lparr>w_retired_at := Some (ret_at res)\<rparr> else w) st"
    "st2 = st1\<lparr>fs_flows := (case ret_closed res of None \<Rightarrow> fs_flows st | Some g \<Rightarrow> (fs_flows st)\<lparr>ft_gaps := insert_gap k g (ft_gaps (fs_flows st))\<rparr>)\<rparr>"
    "render_in env st2 = Inr (ret_rendered res, st3)"
    "st' = st3\<lparr>fs_channel := fs_channel st3 @ [directive_payload (DirectiveEnd k)]\<rparr>"
proof -
  obtain w where w: "find_row k st = Some w" "w_retired_at w = None"
    using assms by (auto simp: retire_tx_def LockWorkload_def split: if_split_asm option.split_asm)
  let ?at = "micros (fe_now env)"
  let ?gap = "SilenceAtRetirement (w_last_flow_report_at w) (map_of (fs_processes st) k) ?at (fe_window env)"
  let ?st1 = "fleet_row k (\<lambda>w. if w_retired_at w = None then w\<lparr>w_retired_at := Some ?at\<rparr> else w) st"
  let ?st2 = "?st1\<lparr>fs_flows := (case ?gap of None \<Rightarrow> fs_flows st | Some g \<Rightarrow> (fs_flows st)\<lparr>ft_gaps := insert_gap k g (ft_gaps (fs_flows st))\<rparr>)\<rparr>"
  have flows: "fs_flows ?st1 = fs_flows st" by (simp add: fleet_row_def)
  have same: "?st1\<lparr>fs_flows := fs_flows st\<rparr> = ?st1" by (simp add: fleet_row_def)
  from assms w obtain rep st3 where r: "render_in env ?st2 = Inr (rep, st3)"
    "res = \<lparr>ret_id = k, ret_at = ?at, ret_rendered = rep, ret_closed = ?gap\<rparr>" "st' = st3\<lparr>fs_channel := fs_channel st3 @ [directive_payload (DirectiveEnd k)]\<rparr>"
    by (cases ?gap) (auto simp: retire_tx_def LockWorkload_def StampRetired_def Let_def writeGaps_def flows same split: if_split_asm)
  show thesis by (rule that [OF w, of ?st1 ?st2 st3]) (simp_all add: r cong: if_cong)
qed

lemma Retire_Inr:
  assumes "Retire env caller k st = (Inr res, st')"
  shows "\<exists>st''. retire_tx env k st = Inr (res, st'') \<and> fs_estate st' = fs_estate st'' \<and> fs_flows st' = fs_flows st'' \<and>
    fs_channel st' = fs_channel st'' \<and> fs_processes st' = fs_processes st'' \<and> fs_changes st' = fs_changes st''"
  using assms by (auto simp: Retire_def split: if_split_asm sum.split_asm prod.split_asm)

section \<open>Retired rows are frozen\<close>

text \<open>The status columns of a row, which the gateway and the ingestion write whether or not the workload is
  retired; \<open>settled\<close> is the row without them.\<close>

definition settled :: "Workload \<Rightarrow> Workload" where
  "settled w = w\<lparr>w_sync_state := SYNC_STATE_UNSPECIFIED, w_sync_error := [], w_last_seen_at := None, w_last_snapshot_sent_at := None, w_clock_skew := None\<rparr>"

lemma settled_keeps: "settled w' = settled w \<Longrightarrow> w_id w' = w_id w \<and> w_retired_at w' = w_retired_at w \<and> Retired w' = Retired w"
  by (drule arg_cong [where f = "\<lambda>w. (w_id w, w_retired_at w)"]) (simp add: settled_def Retired_def)

lemma settled_rest:
  assumes "settled w' = settled w"
  shows "w' = w\<lparr>w_sync_state := w_sync_state w', w_sync_error := w_sync_error w', w_last_seen_at := w_last_seen_at w',
    w_last_snapshot_sent_at := w_last_snapshot_sent_at w', w_clock_skew := w_clock_skew w'\<rparr>"
  using assms by (cases w; cases w') (simp add: settled_def)

text \<open>What a write does to a retired workload: nothing but the status columns. No id appears twice.\<close>

definition frozen :: "fleet_state \<Rightarrow> fleet_state \<Rightarrow> bool" where
  "frozen st st' = ((distinct (map w_id (es_workloads (fs_estate st))) \<longrightarrow> distinct (map w_id (es_workloads (fs_estate st')))) \<and>
     (\<forall>w\<in>set (es_workloads (fs_estate st)). Retired w \<longrightarrow> (\<exists>w'\<in>set (es_workloads (fs_estate st')). settled w' = settled w) \<and>
        map_of (es_policies (fs_estate st')) (w_id w) = map_of (es_policies (fs_estate st)) (w_id w) \<and>
        map_of (fs_processes st') (w_id w) = map_of (fs_processes st) (w_id w)))"

lemma frozen_distinct: "frozen st st' \<Longrightarrow> distinct (map w_id (es_workloads (fs_estate st))) \<Longrightarrow> distinct (map w_id (es_workloads (fs_estate st')))"
  by (simp add: frozen_def)

lemma frozen_refl [simp]: "frozen st st"
  by (auto simp: frozen_def)

lemma frozen_trans:
  assumes "frozen a b" and "frozen b c"
  shows "frozen a c"
proof -
  have "(\<exists>v\<in>set (es_workloads (fs_estate c)). settled v = settled w) \<and> map_of (es_policies (fs_estate c)) (w_id w) = map_of (es_policies (fs_estate a)) (w_id w) \<and>
      map_of (fs_processes c) (w_id w) = map_of (fs_processes a) (w_id w)" if w: "w \<in> set (es_workloads (fs_estate a))" "Retired w" for w
  proof -
    from w assms(1) obtain u where u: "u \<in> set (es_workloads (fs_estate b))" "settled u = settled w" by (auto simp: frozen_def)
    note k = settled_keeps [OF u(2)]
    with assms(2) u w(2) obtain v where "v \<in> set (es_workloads (fs_estate c))" "settled v = settled u" by (auto simp: frozen_def)
    with assms u w k show ?thesis by (auto simp: frozen_def)
  qed
  then show ?thesis using assms by (simp add: frozen_def)
qed

lemma frozen_same: "fs_estate st' = fs_estate st \<Longrightarrow> fs_processes st' = fs_processes st \<Longrightarrow> frozen st st'"
  by (auto simp: frozen_def)

text \<open>A write that maps over the rows, leaves ids alone and changes at most the status of retired rows.\<close>

lemma frozen_map:
  assumes "es_workloads (fs_estate st') = map f (es_workloads (fs_estate st))" and "es_policies (fs_estate st') = es_policies (fs_estate st)"
    and "\<And>w. w \<in> set (es_workloads (fs_estate st)) \<Longrightarrow> w_id (f w) = w_id w"
    and "\<And>w. w \<in> set (es_workloads (fs_estate st)) \<Longrightarrow> Retired w \<Longrightarrow> settled (f w) = settled w \<and> map_of (fs_processes st') (w_id w) = map_of (fs_processes st) (w_id w)"
  shows "frozen st st'"
proof -
  have "map (w_id \<circ> f) (es_workloads (fs_estate st)) = map w_id (es_workloads (fs_estate st))" using assms(3) by simp
  then show ?thesis using assms(4) unfolding frozen_def assms(1,2) map_map by (simp only:) auto
qed

lemma frozen_render:
  assumes "render_in env st = Inr (rep, st')" and "distinct (map w_id (es_workloads (fs_estate st)))"
  shows "frozen st st'"
  using render_in_rows [OF assms(1)] render_in_retired [OF assms] by (auto simp: frozen_def)

lemma frozen_labels:
  assumes "ReplaceWorkloadLabels env k labels expect st = Inr st'" and "distinct (map w_id (es_workloads (fs_estate st)))"
  shows "frozen st st'"
proof -
  obtain row where row: "find_row k st = Some row" "w_retired_at row = None"
    and st': "st' = fleet_row k (\<lambda>w. w\<lparr>w_labels := sort_key (\<lambda>l. fe_collate env (label_key l)) labels\<rparr>) st"
    using assms(1) by (auto simp: ReplaceWorkloadLabels_def split: option.split_asm if_split_asm)
  have "w_id w \<noteq> k" if "w \<in> set (es_workloads (fs_estate st))" "Retired w" for w
    using row that distinct_row [OF assms(2), of w row] by (auto simp: find_row_distinct [OF assms(2)] Retired_def)
  then show ?thesis by (intro frozen_map [where f = "\<lambda>w. if w_id w = k then w\<lparr>w_labels := sort_key (\<lambda>l. fe_collate env (label_key l)) labels\<rparr> else w"])
    (auto simp: st' fleet_row_def)
qed

lemma frozen_SetLabels:
  assumes "SetLabels env renders k labels expect st = (r, st')" and "distinct (map w_id (es_workloads (fs_estate st)))"
  shows "frozen st st'"
proof (cases "ReplaceWorkloadLabels env k labels expect st")
  case (Inl e)
  then show ?thesis using assms(1) by (auto simp: SetLabels_def split: option.split_asm)
next
  case (Inr st1)
  note f = frozen_labels [OF Inr assms(2)]
  then have "distinct (map w_id (es_workloads (fs_estate st1)))" using assms(2) by (rule frozen_distinct)
  then have "frozen st1 st2" if "render_in renders st1 = Inr (rep, st2)" for rep st2 using that frozen_render by blast
  then have "st' = st \<or> st' = st1 \<or> frozen st1 st'" using assms(1) Inr
    by (auto simp: SetLabels_def split: option.split_asm sum.split_asm prod.split_asm if_split_asm)
  then show ?thesis using f frozen_trans [OF f] by auto
qed

lemma frozen_ChangeMode:
  assumes "ChangeMode env req hasExpected st = (r, st')" and d: "distinct (map w_id (es_workloads (fs_estate st)))"
  shows "frozen st st'"
proof (cases "st' = st")
  case False
  then obtain res where "change_mode_tx env req st = Inr (res, st')"
    using assms(1) by (auto simp: ChangeMode_def split: if_split_asm sum.split_asm prod.split_asm)
  then obtain resolved st1 st2 where r: "set resolved = selected req (es_workloads (fs_estate st))"
    "RecordModeChange env (mode_record env req (es_workloads (fs_estate st)) resolved) st = Inr st1"
    "st2 = st1\<lparr>fs_estate := (fs_estate st1)\<lparr>es_workloads := map (\<lambda>w. if w_id w \<in> set resolved then w\<lparr>w_mode := mr_target req\<rparr> else w) (es_workloads (fs_estate st))\<rparr>\<rparr>"
    "render_in env st2 = Inr (mres_rendered res, st')" by (rule change_mode_tx_Inr [OF _ d])
  have "w_id w \<notin> set resolved" if "w \<in> set (es_workloads (fs_estate st))" "Retired w" for w
    using that distinct_row [OF d that(1)] by (auto simp: r(1) selected_def)
  then have f: "frozen st st2" using RecordModeChange_Inr [OF r(2)]
    by (intro frozen_map [where f = "\<lambda>w. if w_id w \<in> set resolved then w\<lparr>w_mode := mr_target req\<rparr> else w"]) (auto simp: r(3))
  then have "distinct (map w_id (es_workloads (fs_estate st2)))" using d by (rule frozen_distinct)
  from frozen_trans [OF f frozen_render [OF r(4) this]] show ?thesis .
qed simp

lemma frozen_Retire:
  assumes "Retire env caller k st = (r, st')" and d: "distinct (map w_id (es_workloads (fs_estate st)))"
  shows "frozen st st'"
proof (cases r)
  case (Inl e)
  then show ?thesis using assms(1) by (auto simp: Retire_def split: if_split_asm sum.split_asm prod.split_asm)
next
  case (Inr res)
  then obtain st'' where tx: "retire_tx env k st = Inr (res, st'')" "fs_estate st' = fs_estate st''" "fs_processes st' = fs_processes st''" using assms(1) Retire_Inr by metis
  from tx(1) obtain w st1 st2 st3 where t:
    "st1 = fleet_row k (\<lambda>w. if w_retired_at w = None then w\<lparr>w_retired_at := Some (ret_at res)\<rparr> else w) st"
    "st2 = st1\<lparr>fs_flows := (case ret_closed res of None \<Rightarrow> fs_flows st | Some g \<Rightarrow> (fs_flows st)\<lparr>ft_gaps := insert_gap k g (ft_gaps (fs_flows st))\<rparr>)\<rparr>"
    "render_in env st2 = Inr (ret_rendered res, st3)" "st'' = st3\<lparr>fs_channel := fs_channel st3 @ [directive_payload (DirectiveEnd k)]\<rparr>"
    by (rule retire_tx_Inr)
  have f: "frozen st st2"
    by (rule frozen_map [where f = "\<lambda>w. if w_id w = k then (if w_retired_at w = None then w\<lparr>w_retired_at := Some (ret_at res)\<rparr> else w) else w"])
      (auto simp: t(1,2) fleet_row_def Retired_def)
  then have "distinct (map w_id (es_workloads (fs_estate st2)))" using d by (rule frozen_distinct)
  from frozen_trans [OF f frozen_render [OF t(3) this]] have "frozen st st3" .
  then show ?thesis using frozen_trans [of st st3 st'] frozen_same [of st' st3] tx(2,3) t(4) by simp
qed

subsection \<open>Every writer of the row\<close>

text \<open>What an agent's calls write of its own row: each statement is conditioned on the row not being retired.
  A renewal writes the credential columns alone.\<close>

inductive agent_write :: "Workload \<Rightarrow> Workload \<Rightarrow> bool" where
  hello_write: "RecordAgent ok agent applied presented now w = Inr w' \<Longrightarrow> agent_write w w'"
| facts_write: "RecordFacts ok facts now w = Inr (w', moved) \<Longrightarrow> agent_write w w'"
| listening_write: "RecordListeningServices ok now w = Inr w' \<Longrightarrow> agent_write w w'"
| heartbeat_write: "RecordHeartbeat ok hb now w = Inr w' \<Longrightarrow> agent_write w w'"
| applied_write: "RecordApplied ok v s now w = Inr w' \<Longrightarrow> agent_write w w'"
| failed_write: "RecordApplyFailed ok detail now w = Inr w' \<Longrightarrow> agent_write w w'"
| receipt_write: "RecordFlowReport received proc w = (x, w') \<Longrightarrow> agent_write w w'"
| renewal_write: "w_retired_at w = None \<Longrightarrow> agent_write w (w\<lparr>w_credential_serial := serial, w_credential_expires_at := expires, w_late_renewal := late\<rparr>)"

text \<open>The three statements without that condition: the sync state a stream writes on its own (a retired
  workload's stream that ends writes \<open>SYNC_STATE_OFFLINE\<close>), the stamp of a snapshot it sent, and the
  reading of the agent's clock.\<close>

inductive status_write :: "Workload \<Rightarrow> Workload \<Rightarrow> bool" where
  state_write: "status_write w (SetSyncState s detail now w)"
| snapshot_write: "status_write w (RecordSnapshotSent now w)"
| clock_write: "status_write w (RecordClockReading offset skewed received w)"

lemma agent_write_keeps: "agent_write w w' \<Longrightarrow> w_id w' = w_id w \<and> (Retired w \<longrightarrow> w' = w)"
  by (induction rule: agent_write.induct)
    (auto simp: RecordAgent_def RecordFacts_def RecordListeningServices_def RecordHeartbeat_def RecordApplied_def RecordApplyFailed_def RecordFlowReport_def
      unless_retired_def bind_result_def Retired_def Let_def split: if_split_asm option.split_asm sum.split_asm)

lemma status_write_keeps: "status_write w w' \<Longrightarrow> w_id w' = w_id w \<and> settled w' = settled w"
  by (induction rule: status_write.induct) (simp_all add: SetSyncState_def RecordSnapshotSent_def RecordClockReading_def settled_def)

text \<open>
  One step of anything that writes where the fleet lives: the operator's operations, an agent's call, a
  status write, a heartbeat with the process it proves, an enrollment's new row, a write of the
  authored tables, a render of its own, and whatever touches neither rows nor policies (flow tables,
  streams, the channel). An authoring operation writes its tables and then renders: two of these steps,
  with anything between them; the tables it leaves are arbitrary here.
\<close>

inductive fleet_step :: "fleet_state \<Rightarrow> fleet_state \<Rightarrow> bool" where
  labels_step: "SetLabels env renders k labels expect st = (r1, st') \<Longrightarrow> fleet_step st st'"
| mode_step: "ChangeMode env req hasExpected st = (r2, st') \<Longrightarrow> fleet_step st st'"
| retire_step: "Retire env caller k st = (r3, st') \<Longrightarrow> fleet_step st st'"
| reconnect_step: "RequestReconnect env k st = (r4, st') \<Longrightarrow> fleet_step st st'"
| agent_step: "find_row k st = Some w \<Longrightarrow> agent_write w w' \<Longrightarrow> fleet_step st (fleet_row k (\<lambda>_. w') st)"
| status_step: "find_row k st = Some w \<Longrightarrow> status_write w w' \<Longrightarrow> fleet_step st (fleet_row k (\<lambda>_. w') st)"
| heartbeat_step: "find_row k st = Some w \<Longrightarrow> RecordHeartbeat ok hb now w = Inr w' \<Longrightarrow>
    fleet_step st ((fleet_row k (\<lambda>_. w') st)\<lparr>fs_processes := AList.update k (heartbeat_process hb now) (fs_processes st)\<rparr>)"
| enrolled_step: "es_workloads (fs_estate st) = before @ after \<Longrightarrow> w_id w \<notin> w_id ` set (es_workloads (fs_estate st)) \<Longrightarrow>
    fleet_step st (st\<lparr>fs_estate := (fs_estate st)\<lparr>es_workloads := before @ w # after\<rparr>\<rparr>)"
| authored_step: "fleet_step st (st\<lparr>fs_estate := (fs_estate st)\<lparr>es_authored := db\<rparr>\<rparr>)"
| render_step: "render_in env st = Inr (rep, st') \<Longrightarrow> fleet_step st st'"
| elsewhere_step: "fs_estate st' = fs_estate st \<Longrightarrow> fs_processes st' = fs_processes st \<Longrightarrow> fleet_step st st'"

lemma frozen_row:
  assumes "distinct (map w_id (es_workloads (fs_estate st)))" and "find_row k st = Some w" and "w_id w' = w_id w" and "Retired w \<Longrightarrow> settled w' = settled w"
    and "Retired w \<Longrightarrow> ps = fs_processes st" and "\<And>j. j \<noteq> k \<Longrightarrow> map_of ps j = map_of (fs_processes st) j"
  shows "frozen st ((fleet_row k (\<lambda>_. w') st)\<lparr>fs_processes := ps\<rparr>)"
proof (rule frozen_map [where f = "\<lambda>v. if w_id v = k then w' else v"])
  have w: "w \<in> set (es_workloads (fs_estate st))" "w_id w = k" using assms(1,2) by (auto simp: find_row_distinct)
  show "w_id (if w_id v = k then w' else v) = w_id v" if "v \<in> set (es_workloads (fs_estate st))" for v using assms(3) w(2) by simp
  show "settled (if w_id v = k then w' else v) = settled v \<and> map_of (fs_processes ((fleet_row k (\<lambda>_. w') st)\<lparr>fs_processes := ps\<rparr>)) (w_id v) = map_of (fs_processes st) (w_id v)"
    if "v \<in> set (es_workloads (fs_estate st))" "Retired v" for v
    using that w distinct_row [OF assms(1) that(1) w(1)] assms(4-6) by (cases "w_id v = k") auto
qed (simp_all add: fleet_row_def)

lemma fleet_row_processes: "(fleet_row k f st)\<lparr>fs_processes := fs_processes st\<rparr> = fleet_row k f st"
  by (simp add: fleet_row_def)

lemma fleet_step_frozen: "fleet_step st st' \<Longrightarrow> distinct (map w_id (es_workloads (fs_estate st))) \<Longrightarrow> frozen st st'"
proof (induction rule: fleet_step.induct)
  case (reconnect_step env k st r4 st')
  then have "fs_estate st' = fs_estate st" "fs_processes st' = fs_processes st" by (auto simp: RequestReconnect_def split: if_split_asm option.split_asm)
  then show ?case by (rule frozen_same)
next
  case (agent_step k st w w')
  with agent_write_keeps [OF agent_step(2)] frozen_row [of st k w w' "fs_processes st"] show ?case by (simp add: fleet_row_processes)
next
  case (status_step k st w w')
  with status_write_keeps [OF status_step(2)] frozen_row [of st k w w' "fs_processes st"] show ?case by (simp add: fleet_row_processes)
next
  case (heartbeat_step k st w ok hb now w')
  have "\<not> Retired w" using heartbeat_step(2) by (auto simp: RecordHeartbeat_def unless_retired_def Retired_def split: if_split_asm option.split_asm)
  then show ?case using heartbeat_step agent_write_keeps [OF agent_write.heartbeat_write [OF heartbeat_step(2)]]
    by (intro frozen_row [where w = w]) (auto simp: update_conv')
next
  case (enrolled_step st before after w)
  then show ?case by (auto simp: frozen_def)
next
  case (authored_step st db)
  then show ?case by (auto simp: frozen_def)
qed (simp_all add: frozen_SetLabels frozen_ChangeMode frozen_Retire frozen_render frozen_same)

lemma fleet_steps_frozen:
  assumes "fleet_step\<^sup>*\<^sup>* st st'" and "distinct (map w_id (es_workloads (fs_estate st)))"
  shows "frozen st st'"
  using assms(1)
proof (induction rule: rtranclp_induct)
  case (step b c)
  with fleet_step_frozen frozen_distinct [OF step.IH assms(2)] frozen_trans show ?case by blast
qed simp

section \<open>The identity of a retired workload\<close>

text \<open>The columns enrollment and authentication read of the same rows.\<close>

definition enroll_rows :: "(uuid \<Rightarrow> uuid) \<Rightarrow> (uuid \<Rightarrow> instant option) \<Rightarrow> Workload list \<Rightarrow> EnrolledWorkload list" where
  "enroll_rows token renewed ws = map (\<lambda>w. \<lparr>ew_id = w_id w, ew_token_id = token (w_id w), ew_hostname = w_hostname w, ew_labels = w_labels w,
     ew_enrolled_at = w_enrolled_at w, ew_credential_serial = w_credential_serial w, ew_credential_expires_at = w_credential_expires_at w,
     ew_last_renewed_at = renewed (w_id w), ew_late_renewal = w_late_renewal w, ew_retired_at = w_retired_at w\<rparr>) ws"

lemma find_enroll_rows:
  "find (\<lambda>e. ew_id e = k) (enroll_rows token renewed ws) = (case find (\<lambda>w. w_id w = k) ws of None \<Rightarrow> None | Some w \<Rightarrow> Some (hd (enroll_rows token renewed [w])))"
  by (induction ws) (simp_all add: enroll_rows_def)

lemma retired_not_admitted:
  assumes "find_row k st = Some w" and "w_retired_at w = Some t"
    and "authenticate parse roots verify cfg now True \<lparr>db_tokens = tokens, db_workloads = enroll_rows token renewed (es_workloads (fs_estate st))\<rparr> peer m = Inr (Some p)"
  shows "pr_id p \<noteq> k"
proof
  assume "pr_id p = k"
  moreover have "find (\<lambda>e. ew_id e = k) (enroll_rows token renewed (es_workloads (fs_estate st))) = Some (hd (enroll_rows token renewed [w]))"
    using assms(1) by (simp add: find_enroll_rows find_row_def)
  ultimately have "CheckNotRetired True (pr_id p) \<lparr>db_tokens = tokens, db_workloads = enroll_rows token renewed (es_workloads (fs_estate st))\<rparr> = Some (ErrEnrollRetired t)"
    using assms(2) by (intro CheckNotRetired_retired [where w = "hd (enroll_rows token renewed [w])"]) (simp_all add: enroll_rows_def)
  then show False using assms(3) by (simp add: authenticate_Some)
qed

section \<open>Dry runs and renders\<close>

lemma diff_report_facts [simp]: "wd_id (diff_report k b a) = k" "wd_version (diff_report k b a) = version b"
  by (simp_all add: diff_report_def Let_def)

lemma in_DryRun:
  assumes "gomap_ok current"
  shows "x \<in> set (DryRun previous current) \<longleftrightarrow> (\<exists>k cur. map_of current k = Some cur \<and> \<not> Equal (map_of previous k) (Some cur) \<and>
    x = diff_report k (Canonical (map_of previous k)) (Canonical (Some cur)))"
  using DryRun_exact [OF assms, of previous] by auto

lemma set_DryRun_ids:
  "gomap_ok current \<Longrightarrow> wd_id ` set (DryRun previous current) = {k. \<exists>cur. map_of current k = Some cur \<and> \<not> Equal (map_of previous k) (Some cur)}"
  by (force simp: in_DryRun)

lemma DryRun_version: "gomap_ok current \<Longrightarrow> x \<in> set (DryRun previous current) \<Longrightarrow> wd_version x = GetVersion (map_of previous (wd_id x))"
  by (auto simp: in_DryRun)

lemma rendered_ids:
  assumes "RenderIn (Inr inp) (Inr previous) se = Inr (rep, pol)"
  shows "rc_id ` set (rep_changed rep) = {k. \<exists>cur. map_of (Render inp) k = Some cur \<and> (map_of previous k = None \<or> \<not> Equal (map_of previous k) (Some cur))}"
proof -
  let ?plan = "Plan previous (Render inp)"
  have "save_outcomes se ?plan (\<lparr>rep_workloads = 0, rep_changed = []\<rparr>, previous) = Inr (rep, pol)" using assms by (simp add: RenderIn_def)
  from save_outcomes_ok [OF distinct_Plan_ids [OF gomap_ok_Render] this] have "map rc_id (rep_changed rep) = map o_id (filter o_changed ?plan)" by simp
  then have "rc_id ` set (rep_changed rep) = o_id ` {o1 \<in> set ?plan. o_changed o1}" by (metis list.set_map set_filter)
  also have "\<dots> = {k. \<exists>cur. (k, cur) \<in> set (Render inp) \<and> o_changed (plan_one previous (k, cur))}"
    by (force simp: set_Plan plan_one_facts(1))
  also have "\<dots> = {k. \<exists>cur. map_of (Render inp) k = Some cur \<and> o_changed (plan_one previous (k, cur))}"
    by (simp add: gomap_in_iff)
  finally show ?thesis by (simp add: plan_one_facts(2))
qed

text \<open>What the report of one workload says, as sets of rules.\<close>

lemma diff_report_content:
  assumes "is_canonical prev" and "is_canonical cur"
  shows "set (wd_added (diff_report k prev cur)) = {r \<in> set (inbound_rules cur). rule_id r \<notin> rule_id ` set (inbound_rules prev)}"
    and "set (wd_removed (diff_report k prev cur)) = {r \<in> set (inbound_rules prev). rule_id r \<notin> rule_id ` set (inbound_rules cur)}"
    and "set (wd_changed (diff_report k prev cur)) = {(b, a). b \<in> set (inbound_rules prev) \<and> a \<in> set (inbound_rules cur) \<and> rule_id a = rule_id b \<and> b \<noteq> a}"
    and "wd_mode (diff_report k prev cur) = (if mode prev = mode cur then None else Some (mode prev, mode cur))"
proof -
  have d: "distinct (map rule_id (inbound_rules prev))" "distinct (map rule_id (inbound_rules cur))" using assms by (simp_all add: is_canonical_def)
  note m = map_of_indexRules [OF d(1)] map_of_indexRules [OF d(2)]
  have n: "map_of (indexRules prev) i = None \<longleftrightarrow> i \<notin> rule_id ` set (inbound_rules prev)" "map_of (indexRules cur) i = None \<longleftrightarrow> i \<notin> rule_id ` set (inbound_rules cur)" for i
    using m by (auto simp: not_Some_eq [symmetric] simp del: not_Some_eq)
  have ids: "i \<in> set (diff_ids (indexRules prev) (indexRules cur)) \<longleftrightarrow> map_of (indexRules prev) i \<noteq> None \<or> map_of (indexRules cur) i \<noteq> None" for i
    by (auto simp: diff_ids_def map_of_eq_None_iff)
  have p: "map_of (indexRules prev) (rule_id r) = Some r" if "r \<in> set (inbound_rules prev)" for r using that by (simp add: m)
  have c: "map_of (indexRules cur) (rule_id r) = Some r" if "r \<in> set (inbound_rules cur)" for r using that by (simp add: m)
  show "set (wd_added (diff_report k prev cur)) = {r \<in> set (inbound_rules cur). rule_id r \<notin> rule_id ` set (inbound_rules prev)}" (is "?L = ?R")
  proof -
    have "?L = (\<lambda>i. the (map_of (indexRules cur) i)) ` {i. map_of (indexRules prev) i = None \<and> map_of (indexRules cur) i \<noteq> None}"
      by (auto simp: diff_report_def Let_def ids)
    also have "\<dots> = ?R" unfolding n using c by (auto simp: image_iff) (metis option.sel)
    finally show ?thesis .
  qed
  show "set (wd_removed (diff_report k prev cur)) = {r \<in> set (inbound_rules prev). rule_id r \<notin> rule_id ` set (inbound_rules cur)}" (is "?L = ?R")
  proof -
    have "?L = (\<lambda>i. the (map_of (indexRules prev) i)) ` {i. map_of (indexRules prev) i \<noteq> None \<and> map_of (indexRules cur) i = None}"
      by (auto simp: diff_report_def Let_def ids)
    also have "\<dots> = ?R" unfolding n using p by (auto simp: image_iff) (metis option.sel)
    finally show ?thesis .
  qed
  show "set (wd_changed (diff_report k prev cur)) = {(b, a). b \<in> set (inbound_rules prev) \<and> a \<in> set (inbound_rules cur) \<and> rule_id a = rule_id b \<and> b \<noteq> a}" (is "?L = ?R")
  proof -
    have "?L = {(b, a). \<exists>i. map_of (indexRules prev) i = Some b \<and> map_of (indexRules cur) i = Some a \<and> b \<noteq> a}"
      by (force simp: diff_report_def Let_def ids)
    also have "\<dots> = ?R" unfolding m by auto
    finally show ?thesis .
  qed
qed (simp add: diff_report_def Let_def)

lemma reported_rendered:
  assumes "RenderIn (Inr inp) (Inr previous) se = Inr (rep, pol)" and "x \<in> set (DryRun previous (Render inp))"
  obtains k p where "x = diff_report k (Canonical (map_of previous k)) p" "map_of pol k = Some p" "version p = version (Canonical (map_of previous k)) + 1" "is_canonical p"
proof -
  from assms(2) obtain k cur where cur: "map_of (Render inp) k = Some cur" "\<not> Equal (map_of previous k) (Some cur)"
    "x = diff_report k (Canonical (map_of previous k)) (Canonical (Some cur))" unfolding in_DryRun [OF gomap_ok_Render] by blast
  let ?p = "Canonical (Some cur)\<lparr>version := GetVersion (map_of previous k) + 1\<rparr>"
  have "map_of pol k = Some ?p" using RenderIn_lookup [OF assms(1), of k] cur(1,2) by simp
  moreover have "x = diff_report k (Canonical (map_of previous k)) ?p" unfolding cur(3) by (simp add: diff_report_def)
  moreover have "is_canonical ?p" using is_canonical_Canonical [of "Some cur"] by (simp add: is_canonical_def)
  ultimately show thesis using that [of k ?p] by simp
qed

lemma rendered_or_new:
  assumes "RenderIn (Inr inp) (Inr previous) se = Inr (rep, pol)" and "in_workloads inp = ws"
  shows "rc_id ` set (rep_changed rep) = wd_id ` set (DryRun previous (Render inp)) \<union> {w_id w | w. w \<in> set ws \<and> \<not> Retired w \<and> map_of previous (w_id w) = None}"
proof -
  have dom: "(\<exists>cur. map_of (Render inp) k = Some cur) \<longleftrightarrow> (\<exists>w\<in>set ws. \<not> Retired w \<and> w_id w = k)" for k
  proof -
    have "(\<exists>cur. map_of (Render inp) k = Some cur) \<longleftrightarrow> k \<in> dom (map_of (Render inp))" by auto
    also have "\<dots> \<longleftrightarrow> (\<exists>w\<in>set ws. \<not> Retired w \<and> w_id w = k)" unfolding Render_def dom_index_by assms(2) by auto
    finally show ?thesis .
  qed
  have "rc_id ` set (rep_changed rep) = wd_id ` set (DryRun previous (Render inp)) \<union> {k. (\<exists>cur. map_of (Render inp) k = Some cur) \<and> map_of previous k = None}"
    unfolding rendered_ids [OF assms(1)] set_DryRun_ids [OF gomap_ok_Render] by blast
  also have "\<dots> = wd_id ` set (DryRun previous (Render inp)) \<union> {w_id w | w. w \<in> set ws \<and> \<not> Retired w \<and> map_of previous (w_id w) = None}"
    unfolding dom by auto
  finally show ?thesis .
qed

section \<open>Properties\<close>

text \<open>\<^bold>\<open>C17\<close>: a mode change that succeeds flips exactly the active workloads it selects, as many as the operator
  expected, changes nothing else of any row, is in force for each of them, and is recorded with the
  mode each held before.\<close>

theorem mode_change_exact:
  assumes "fleet_ok st" and "ChangeMode env req hasExpected st = (Inr res, st')"
    and "ws = es_workloads (fs_estate st)" and "sel = selected req ws"
  shows "int (card sel) = mr_expected req \<and> mres_matched res = card sel \<and>
    mres_updated res = int (card {w \<in> set ws. w_id w \<in> sel \<and> w_mode w \<noteq> mr_target req}) \<and>
    es_workloads (fs_estate st') = map (\<lambda>w. if w_id w \<in> sel then w\<lparr>w_mode := mr_target req\<rparr> else w) ws \<and>
    (\<forall>w\<in>set ws. w_id w \<in> sel \<longrightarrow> (\<exists>p. map_of (es_policies (fs_estate st')) (w_id w) = Some p \<and> mode p = mr_target req)) \<and>
    (\<exists>row. fs_changes st' = fs_changes st @ [row] \<and> mw_id row = mres_id res \<and>
      set (mw_workloads row) = {(w_id w, w_mode w) | w. w \<in> set ws \<and> w_id w \<in> sel})"
proof -
  have d: "distinct (map w_id (es_workloads (fs_estate st)))" using assms(1) by (simp add: fleet_ok_def)
  have tx: "change_mode_tx env req st = Inr (res, st')" and valid: "validateModeChange req hasExpected = []"
    using assms(2) by (auto simp: ChangeMode_def split: if_split_asm sum.split_asm prod.split_asm)
  obtain resolved st1 st2 where r: "distinct resolved" "set resolved = sel" "int (length resolved) = mr_expected req"
    "RecordModeChange env (mode_record env req ws resolved) st = Inr st1"
    "st2 = st1\<lparr>fs_estate := (fs_estate st1)\<lparr>es_workloads := map (\<lambda>w. if w_id w \<in> sel then w\<lparr>w_mode := mr_target req\<rparr> else w) ws\<rparr>\<rparr>"
    "render_in env st2 = Inr (mres_rendered res, st')" "mres_matched res = length resolved" "mres_id res = fe_id env"
    "mres_updated res = mc_updated (mode_record env req ws resolved)"
    by (rule change_mode_tx_Inr [OF tx d, folded assms(3), folded assms(4)]) simp
  have card: "length resolved = card sel" using distinct_card [OF r(1)] r(2) by simp
  have up: "mres_updated res = int (card {w \<in> set ws. w_id w \<in> sel \<and> w_mode w \<noteq> mr_target req})"
    using mode_record_updated [of ws resolved req env] d r(1,2,9) assms(3,4) by simp
  have rows: "es_workloads (fs_estate st') = map (\<lambda>w. if w_id w \<in> sel then w\<lparr>w_mode := mr_target req\<rparr> else w) ws"
    using render_in_rows [OF r(6)] by (simp add: r(5))
  have ok2: "fleet_ok st2" using assms(1,3) RecordModeChange_Inr [OF r(4)] by (auto simp: fleet_ok_def r(5) comp_def if_distrib cong: if_cong)
  have "\<exists>p. map_of (es_policies (fs_estate st')) (w_id w) = Some p \<and> mode p = mr_target req" if "w \<in> set ws" "w_id w \<in> sel" for w
  proof -
    let ?w = "w\<lparr>w_mode := mr_target req\<rparr>"
    have "?w \<in> set (es_workloads (fs_estate st2))" using that by (auto simp: r(5) image_iff intro!: bexI [of _ w])
    moreover have "\<not> Retired ?w" using that d distinct_row [of ws w] assms(3,4) by (auto simp: selected_def Retired_def)
    ultimately obtain p where "map_of (es_policies (fs_estate st')) (w_id ?w) = Some p"
      "mode p = (if w_mode ?w = ENFORCEMENT_MODE_UNSPECIFIED then ENFORCEMENT_MODE_VISIBILITY else w_mode ?w)"
      using render_in_in_force [OF r(6) ok2, of ?w] by blast
    then show ?thesis using validated_target [OF valid] by simp
  qed
  moreover obtain row where "fs_changes st1 = fs_changes st @ [row]" "mw_id row = fe_id env" "mw_workloads row = mc_workloads (mode_record env req ws resolved)"
    using RecordModeChange_Inr [OF r(4)] by (auto simp: mode_record_def Let_def)
  then have "\<exists>row. fs_changes st' = fs_changes st @ [row] \<and> mw_id row = mres_id res \<and>
      set (mw_workloads row) = {(w_id w, w_mode w) | w. w \<in> set ws \<and> w_id w \<in> sel}"
    using mode_record_workloads [of ws resolved req env] d r(2,5,8) assms(3,4) render_in_rows [OF r(6)] by simp
  ultimately show ?thesis using card r(3,7) up rows by simp
qed

definition demo_fleet_env :: fleet_env where
  "demo_fleet_env = \<lparr>fe_now = 1234567, fe_id = ''m'', fe_collate = (\<lambda>s. s), fe_digest = (\<lambda>s. s), fe_json = (\<lambda>_. Some ''{}''), fe_window = 0,
     fe_streams = True, fe_locked = True, fe_listed = True, fe_written = True, fe_recorded = True, fe_flipped = True, fe_gaps_ok = True, fe_load_ok = True,
     fe_save = (\<lambda>_. None), fe_directed = True, fe_committed = True\<rparr>"

definition demo_fleet :: fleet_state where
  "demo_fleet = \<lparr>fs_estate = demo_estate, fs_processes = [], fs_flows = \<lparr>ft_windows = [], ft_totals = [], ft_gaps = []\<rparr>, fs_changes = [], fs_channel = [],
     fs_replica = \<lparr>rp_sessions = newSessions, rp_ended = [], rp_reconnects = []\<rparr>\<rparr>"

definition demo_mode_request :: ModeChangeRequest where
  "demo_mode_request = \<lparr>mr_selector = None, mr_ids = [''w''], mr_target = ENFORCEMENT_MODE_SIMULATION, mr_expected = 1\<rparr>"

lemma demo_row: "w_id demo_workload = ''w''" "\<not> Retired demo_workload" "w_mode demo_workload \<noteq> ENFORCEMENT_MODE_SIMULATION"
    "es_workloads (fs_estate demo_fleet) = [demo_workload]" "w_retired_at demo_workload = None" "w_last_flow_report_at demo_workload = None"
  by (simp_all add: demo_workload_def Retired_def demo_fleet_def demo_estate_def)

lemma demo_request: "mr_ids demo_mode_request = [''w'']" "mr_target demo_mode_request = ENFORCEMENT_MODE_SIMULATION" "mr_expected demo_mode_request = 1"
    "request_selector demo_mode_request = []"
  by (simp_all add: demo_mode_request_def request_selector_def)

lemma demo_selected: "selected demo_mode_request [demo_workload] = {''w''}"
  using demo_row by (auto simp: selected_def demo_request)

lemma demo_fleet_ok: "fleet_ok demo_fleet"
  by (simp add: fleet_ok_def demo_fleet_def demo_estate_def AuthoredStore.rule_ids_def no_authored_def authored_ok_empty [unfolded no_authored_def])

lemma demo_stores_answer: "stores_answer demo_fleet_env demo_fleet"
  by (simp add: stores_answer_def demo_fleet_env_def demo_fleet_def)

lemma demo_mode_change: "\<exists>res st'. ChangeMode demo_fleet_env demo_mode_request True demo_fleet = (Inr res, st')"
proof -
  have "resolve_request demo_mode_request (es_workloads (fs_estate demo_fleet)) = Inr [''w'']"
    by (simp add: resolve_request_def demo_mode_request_def request_selector_def demo_fleet_def demo_estate_def demo_workload_def index_by_def)
  from change_mode_tx_succeeds [OF demo_stores_answer _ this] obtain res st' where "change_mode_tx demo_fleet_env demo_mode_request demo_fleet = Inr (res, st')"
    using demo_fleet_ok by (auto simp: fleet_ok_def demo_mode_request_def)
  moreover have "validateModeChange demo_mode_request True = []" by (simp add: validateModeChange_def demo_mode_request_def request_selector_def)
  ultimately show ?thesis by (simp add: ChangeMode_def demo_fleet_env_def)
qed

theorem mode_change_exact_witness:
  "\<exists>res st'. ChangeMode demo_fleet_env demo_mode_request True demo_fleet = (Inr res, st') \<and> mres_updated res = 1 \<and>
     es_workloads (fs_estate st') = [demo_workload\<lparr>w_mode := ENFORCEMENT_MODE_SIMULATION\<rparr>]"
proof -
  obtain res st' where run: "ChangeMode demo_fleet_env demo_mode_request True demo_fleet = (Inr res, st')" using demo_mode_change by blast
  note ex = mode_change_exact [OF demo_fleet_ok run refl refl, unfolded demo_row(4) demo_selected demo_request]
  have "{w \<in> set [demo_workload]. w_id w \<in> {''w''} \<and> w_mode w \<noteq> ENFORCEMENT_MODE_SIMULATION} = {demo_workload}" using demo_row by auto
  then have "mres_updated res = 1" using ex by simp
  moreover have "es_workloads (fs_estate st') = [demo_workload\<lparr>w_mode := ENFORCEMENT_MODE_SIMULATION\<rparr>]" using ex by (simp add: demo_row)
  ultimately show ?thesis using run by blast
qed

text \<open>When the stores answer, a mode change is refused exactly when the request is malformed, names a
  workload that is unknown or retired, or selects another number of workloads than expected; and a
  change that is refused or fails for any reason leaves rows, policies, records and channel as they were.\<close>

lemma mode_change_refusals:
  "(stores_answer env st \<and> fleet_ok st \<longrightarrow>
     ((\<exists>res. fst (ChangeMode env req hasExpected st) = Inr res) \<longleftrightarrow> validateModeChange req hasExpected = [] \<and>
       (\<forall>k\<in>set (mr_ids req). \<exists>w\<in>set (es_workloads (fs_estate st)). w_id w = k \<and> \<not> Retired w) \<and>
       int (card (selected req (es_workloads (fs_estate st)))) = mr_expected req)) \<and>
   (fst (ChangeMode env req hasExpected st) = Inl e \<longrightarrow> snd (ChangeMode env req hasExpected st) = st)"
proof (intro conjI impI)
  let ?ws = "es_workloads (fs_estate st)"
  assume a: "stores_answer env st \<and> fleet_ok st"
  then have d: "distinct (map w_id ?ws)" by (simp add: fleet_ok_def)
  have row: "map_of (index_by w_id (\<lambda>w. w) ?ws) k = Some w \<longleftrightarrow> w \<in> set ?ws \<and> w_id w = k" for k w
    using index_by_Some_distinct [OF d, of _ "\<lambda>w. w"] index_by_SomeD [of w_id "\<lambda>w. w" ?ws k w] by auto
  have ids: "snd ` set (enumerate 0 (mr_ids req)) = set (mr_ids req)" by (metis list.set_map map_snd_enumerate)
  have names: "(\<exists>resolved. resolve_request req ?ws = Inr resolved) \<longleftrightarrow> (\<forall>k\<in>set (mr_ids req). \<exists>w\<in>set ?ws. w_id w = k \<and> \<not> Retired w)"
    if "validateModeChange req hasExpected = []"
  proof (cases "request_selector req = []")
    case True
    then show ?thesis using resolve_ids_ok [of "enumerate 0 (mr_ids req)" "index_by w_id (\<lambda>w. w) ?ws" "[]"]
        resolve_ids_Inr [of "index_by w_id (\<lambda>w. w) ?ws" "enumerate 0 (mr_ids req)" "[]" "[]"]
      unfolding resolve_request_def ids row Retired_def by (simp add: Bex_def) blast
  next
    case False
    then have "mr_ids req = []" using that by (auto simp: validateModeChange_def Let_def split: if_split_asm)
    with False show ?thesis by (simp add: resolve_request_def)
  qed
  have "(\<exists>res. fst (ChangeMode env req hasExpected st) = Inr res) \<longleftrightarrow> validateModeChange req hasExpected = [] \<and> (\<exists>res st'. change_mode_tx env req st = Inr (res, st'))"
    using a by (auto simp: ChangeMode_def stores_answer_def split: sum.split)
  moreover have "\<exists>resolved. resolve_request req ?ws = Inr resolved \<and> int (length resolved) = mr_expected req" if "change_mode_tx env req st = Inr (res, st')" for res st'
    using that by (auto simp: change_mode_tx_def Let_def split: if_split_asm)
  then have "(\<exists>res st'. change_mode_tx env req st = Inr (res, st')) \<longleftrightarrow> (\<exists>resolved. resolve_request req ?ws = Inr resolved \<and> int (length resolved) = mr_expected req)"
    using change_mode_tx_succeeds [OF conjunct1 [OF a] d, of req] by blast
  moreover have "length resolved = card (selected req ?ws)" if "resolve_request req ?ws = Inr resolved" for resolved
    using resolve_request_Inr [OF d that] distinct_card by metis
  ultimately show "(\<exists>res. fst (ChangeMode env req hasExpected st) = Inr res) \<longleftrightarrow> validateModeChange req hasExpected = [] \<and>
       (\<forall>k\<in>set (mr_ids req). \<exists>w\<in>set ?ws. w_id w = k \<and> \<not> Retired w) \<and> int (card (selected req ?ws)) = mr_expected req" using names by metis
next
  assume "fst (ChangeMode env req hasExpected st) = Inl e"
  then show "snd (ChangeMode env req hasExpected st) = st" by (auto simp: ChangeMode_def split: sum.split prod.split)
qed

text \<open>\<^bold>\<open>C16\<close>: a retirement that succeeds stamped one active row with the instant it returns and changed nothing
  else of any row; it stored the silence it closed; every other active workload's persisted policy
  permits what the rules say without the retired one, whose own policy stays as it was; and the last
  thing published, on commit, is read by every replica as the directive that ends its stream.\<close>

theorem retirement_takes_effect:
  assumes "fleet_ok st" and "Retire env caller k st = (Inr res, st')" and "ws = es_workloads (fs_estate st)"
    and "uuid_text k" and "parse k = Some k" and "k \<noteq> nil_uuid"
  shows "\<exists>w\<in>set ws. w_id w = k \<and> \<not> Retired w \<and>
    es_workloads (fs_estate st') = map (\<lambda>v. if w_id v = k then w\<lparr>w_retired_at := Some (ret_at res)\<rparr> else v) ws \<and>
    ret_closed res = SilenceAtRetirement (w_last_flow_report_at w) (map_of (fs_processes st) k) (ret_at res) (fe_window env) \<and>
    (\<forall>g. ret_closed res = Some g \<longrightarrow> (\<exists>h. (k, h) \<in> set (ft_gaps (fs_flows st')) \<and> same_gap h g)) \<and>
    (\<forall>v\<in>set (es_workloads (fs_estate st')). \<not> Retired v \<longrightarrow> (\<exists>p. map_of (es_policies (fs_estate st')) (w_id v) = Some p \<and>
      (\<forall>a pr n. permits (Canonical (Some p)) a pr n \<longleftrightarrow> authored_permits (inputs_of (fe_collate env) (fs_estate st')) v a pr n))) \<and>
    map_of (es_policies (fs_estate st')) k = map_of (es_policies (fs_estate st)) k \<and>
    dispatch parse True (last (fs_channel st')) = Some (Directed (DirectiveEnd k))"
proof -
  have d: "distinct (map w_id (es_workloads (fs_estate st)))" using assms(1) by (simp add: fleet_ok_def)
  obtain st'' where tx: "retire_tx env k st = Inr (res, st'')"
    and same: "fs_estate st' = fs_estate st''" "fs_flows st' = fs_flows st''" "fs_channel st' = fs_channel st''" using Retire_Inr [OF assms(2)] by blast
  obtain w st1 st2 st3 where t: "find_row k st = Some w" "w_retired_at w = None"
    "ret_closed res = SilenceAtRetirement (w_last_flow_report_at w) (map_of (fs_processes st) k) (ret_at res) (fe_window env)"
    "st1 = fleet_row k (\<lambda>w. if w_retired_at w = None then w\<lparr>w_retired_at := Some (ret_at res)\<rparr> else w) st"
    "st2 = st1\<lparr>fs_flows := (case ret_closed res of None \<Rightarrow> fs_flows st | Some g \<Rightarrow> (fs_flows st)\<lparr>ft_gaps := insert_gap k g (ft_gaps (fs_flows st))\<rparr>)\<rparr>"
    "render_in env st2 = Inr (ret_rendered res, st3)" "st'' = st3\<lparr>fs_channel := fs_channel st3 @ [directive_payload (DirectiveEnd k)]\<rparr>"
    by (rule retire_tx_Inr [OF tx])
  have w: "w \<in> set ws" "w_id w = k" "\<not> Retired w" using t(1,2) by (auto simp: find_row_distinct [OF d] assms(3) Retired_def)
  let ?rows = "map (\<lambda>v. if w_id v = k then w\<lparr>w_retired_at := Some (ret_at res)\<rparr> else v) ws"
  have "(if w_id v = k then if w_retired_at v = None then v\<lparr>w_retired_at := Some (ret_at res)\<rparr> else v else v) =
      (if w_id v = k then w\<lparr>w_retired_at := Some (ret_at res)\<rparr> else v)" if "v \<in> set ws" for v
    using distinct_row [OF d, of v w] that w t(2) assms(3) by (cases "w_id v = k") auto
  then have rows2: "es_workloads (fs_estate st2) = ?rows" by (simp add: t(4,5) fleet_row_rows assms(3))
  have rows: "es_workloads (fs_estate st') = ?rows" using render_in_rows [OF t(6)] rows2 by (simp add: same(1) t(7))
  have ids: "map w_id ?rows = map w_id ws" using w(2) by auto
  have "es_authored (fs_estate st2) = es_authored (fs_estate st)" by (simp add: t(4,5) fleet_row_def)
  moreover have "distinct (map w_id ?rows)" unfolding ids using d assms(3) by simp
  ultimately have ok2: "fleet_ok st2" using assms(1) unfolding fleet_ok_def rows2 by simp
  have "\<exists>h. (k, h) \<in> set (ft_gaps (fs_flows st')) \<and> same_gap h g" if "ret_closed res = Some g" for g
  proof -
    have "fs_flows st' = (fs_flows st)\<lparr>ft_gaps := insert_gap k g (ft_gaps (fs_flows st))\<rparr>"
      using render_in_rows [OF t(6)] that by (simp add: same(2) t(5,7))
    then show ?thesis by (auto simp: insert_gap_def list_ex_iff same_gap_def)
  qed
  moreover have "\<exists>p. map_of (es_policies (fs_estate st')) (w_id v) = Some p \<and>
      (\<forall>a pr n. permits (Canonical (Some p)) a pr n \<longleftrightarrow> authored_permits (inputs_of (fe_collate env) (fs_estate st')) v a pr n)"
    if "v \<in> set ?rows" "\<not> Retired v" for v
    using render_in_in_force [OF t(6) ok2, of v] that unfolding rows2 by (simp add: same(1) t(7)) (metis option.inject)
  moreover have "map_of (es_policies (fs_estate st')) k = map_of (es_policies (fs_estate st)) k"
  proof -
    have "w\<lparr>w_retired_at := Some (ret_at res)\<rparr> \<in> set (es_workloads (fs_estate st2))" unfolding rows2 using w(1,2) by (auto simp: image_iff intro!: bexI [of _ w])
    from render_in_retired [OF t(6) _ this] ok2 w(2) show ?thesis by (simp add: fleet_ok_def Retired_def same(1) t(4,5,7) fleet_row_def)
  qed
  moreover have "dispatch parse True (last (fs_channel st')) = Some (Directed (DirectiveEnd k))"
    using dispatch_directive(1) [of k parse] assms(4-6) by (simp add: same(3) t(7))
  ultimately show ?thesis using w t(3) rows by (intro bexI [of _ w]) auto
qed

lemma demo_micros: "micros 1234567 = 1234000"
  by (simp add: micros_def)

lemma retire_succeeds:
  assumes "stores_answer env st" and "fleet_ok st" and "w \<in> set (es_workloads (fs_estate st))" and "\<not> Retired w"
  shows "\<exists>res st'. Retire env True (w_id w) st = (Inr res, st')"
proof -
  have "find_row (w_id w) st = Some w" using assms(2,3) by (simp add: find_row_distinct fleet_ok_def)
  moreover have "w_retired_at w = None" using assms(4) by (simp add: Retired_def)
  moreover have "list_ex (\<lambda>v. w_id v = w_id w \<and> w_retired_at v = None) (es_workloads (fs_estate st))" using assms(3) calculation(2) by (auto simp: list_ex_iff)
  moreover have "\<exists>rep st'. render_in env s = Inr (rep, st')" for s using render_in_succeeds [of env s] assms(1) by (simp add: stores_answer_def)
  ultimately have "\<exists>res st'. retire_tx env (w_id w) st = Inr (res, st')" using assms(1)
    by (auto simp: retire_tx_def LockWorkload_def StampRetired_def writeGaps_def stores_answer_def Let_def split: option.split)
  then show ?thesis using assms(1) by (auto simp: Retire_def stores_answer_def)
qed

definition demo_uuid_fleet :: fleet_state where
  "demo_uuid_fleet = demo_fleet\<lparr>fs_estate := demo_estate\<lparr>es_workloads := [demo_workload\<lparr>w_id := demo_uuid\<rparr>]\<rparr>\<rparr>"

lemma demo_uuid_fleet_ok: "fleet_ok demo_uuid_fleet" "stores_answer demo_fleet_env demo_uuid_fleet"
  using demo_fleet_ok demo_stores_answer by (simp_all add: fleet_ok_def stores_answer_def demo_uuid_fleet_def demo_fleet_def)

lemma demo_uuid_ok: "uuid_text demo_uuid" "demo_uuid \<noteq> nil_uuid"
  by (simp_all add: demo_uuid_def nil_uuid_def uuid_text_def is_hex_def is_dec_def)

lemma demo_retire: "\<exists>res st'. Retire demo_fleet_env True demo_uuid demo_uuid_fleet = (Inr res, st')"
  using retire_succeeds [OF demo_uuid_fleet_ok(2,1), of "demo_workload\<lparr>w_id := demo_uuid\<rparr>"]
  by (simp add: demo_uuid_fleet_def demo_workload_def Retired_def)

theorem retirement_takes_effect_witness:
  "\<exists>res st'. Retire demo_fleet_env True demo_uuid demo_uuid_fleet = (Inr res, st') \<and>
     dispatch Some True (last (fs_channel st')) = Some (Directed (DirectiveEnd demo_uuid))"
proof -
  obtain res st' where run: "Retire demo_fleet_env True demo_uuid demo_uuid_fleet = (Inr res, st')" using demo_retire by blast
  from retirement_takes_effect [OF demo_uuid_fleet_ok(1) run refl demo_uuid_ok(1), of Some] demo_uuid_ok(2) run show ?thesis by blast
qed




definition demo_rendered_fleet :: fleet_state where
  "demo_rendered_fleet = demo_fleet\<lparr>fs_estate := demo_estate\<lparr>es_policies := [(''w'', one_rule)]\<rparr>\<rparr>"


end
