(* ===== verification/Document.thy ===== *)
theory Document
  imports Compiler
begin

text \<open>
  The document form of the authored model, \<^verbatim>\<open>internal/policy/document.go\<close>: enumerations, port specs and
  entries as text, names for ids, and the conversion of services, rules and rulesets both ways. What a
  document gets wrong travels with the object as faults, at the path of the offending element. UUID
  parsing, the JSON decoder and the time format are arguments. The results: a stored ruleset written
  as a document and read back is the ruleset, provided no service or group is named like a UUID, and
  the conversion never loses an element: every element keeps its place, and admission refuses exactly
  what could not be read.
\<close>

section \<open>Documents\<close>

record EntryDoc =
  ed_protocol :: string
  ed_ports :: "string list"

text \<open>A map or a flag that is absent is \<open>None\<close>.\<close>

record PeerDoc =
  pd_workloads :: "Selector option"
  pd_address_group :: string
  pd_cidr :: string

record RuleDoc =
  rd_id :: string
  rd_direction :: string
  rd_enabled :: "bool option"
  rd_description :: string
  rd_peers :: "PeerDoc list"
  rd_services :: "string list"
  rd_entries :: "EntryDoc list"
  rd_version :: string
  rd_created_at :: string
  rd_updated_at :: string

record RulesetDoc =
  rsd_id :: string
  rsd_name :: string
  rsd_description :: string
  rsd_enabled :: "bool option"
  rsd_scope :: "Selector option"
  rsd_rules :: "RuleDoc list"
  rsd_version :: string
  rsd_created_at :: string
  rsd_updated_at :: string

record ServiceDoc =
  sd_name :: string
  sd_entries :: "EntryDoc list"

record Names =
  service_by_name :: "(string, uuid) gomap"
  service_name :: "(uuid, string) gomap"
  group_by_name :: "(string, uuid) gomap"
  group_name :: "(uuid, string) gomap"

definition NewNames :: "Service list \<Rightarrow> AddressGroup list \<Rightarrow> Names" where
  "NewNames services groups = \<lparr>service_by_name = index_by svc_name svc_id services, service_name = index_by svc_id svc_name services,
     group_by_name = index_by grp_name grp_id groups, group_name = index_by grp_id grp_name groups\<rparr>"

section \<open>Enumerations and ports as text\<close>

definition ParseProtocol :: "string \<Rightarrow> Protocol option" where
  "ParseProtocol s = (let t = to_lower (trim_space s) in
     if t = ''tcp'' then Some PROTOCOL_TCP else if t = ''udp'' then Some PROTOCOL_UDP else if t = ''icmp'' then Some PROTOCOL_ICMP else None)"

definition ProtocolName :: "Protocol \<Rightarrow> string" where
  "ProtocolName p = to_lower (trim_prefix ''PROTOCOL_'' (Protocol_String p))"

fun Direction_String :: "Direction \<Rightarrow> string" where
  "Direction_String DIRECTION_UNSPECIFIED = ''DIRECTION_UNSPECIFIED''"
| "Direction_String DIRECTION_INBOUND = ''DIRECTION_INBOUND''"
| "Direction_String DIRECTION_OUTBOUND = ''DIRECTION_OUTBOUND''"
| "Direction_String (DIRECTION_OTHER n) = show_int n"

definition ParseDirection :: "string \<Rightarrow> Direction option" where
  "ParseDirection s = (let t = to_lower (trim_space s) in
     if t = ''inbound'' then Some DIRECTION_INBOUND else if t = ''outbound'' then Some DIRECTION_OUTBOUND
     else if t = [] then Some DIRECTION_UNSPECIFIED else None)"

definition DirectionName :: "Direction \<Rightarrow> string" where
  "DirectionName d = to_lower (trim_prefix ''DIRECTION_'' (Direction_String d))"

definition ParseMode :: "string \<Rightarrow> EnforcementMode option" where
  "ParseMode s = (let t = to_lower (trim_space s) in
     if t = ''visibility'' then Some ENFORCEMENT_MODE_VISIBILITY else if t = ''simulation'' then Some ENFORCEMENT_MODE_SIMULATION
     else if t = ''enforced'' then Some ENFORCEMENT_MODE_ENFORCED else None)"

definition ModeName :: "EnforcementMode \<Rightarrow> string" where
  "ModeName m = to_lower (trim_prefix ''ENFORCEMENT_MODE_'' (EnforcementMode_String m))"

definition ParsePortSpec :: "string \<Rightarrow> PortRange option" where
  "ParsePortSpec s = (case cut CHR ''-'' (trim_space s) of (lo, hi, isRange) \<Rightarrow>
     (case parse_uint 32 (trim_space lo) of
        None \<Rightarrow> None
      | Some start \<Rightarrow> if \<not> isRange then Some (PortRange (of_nat start) (of_nat start))
          else map_option (\<lambda>e. PortRange (of_nat start) (of_nat e)) (parse_uint 32 (trim_space hi))))"

definition FormatPortSpec :: "PortRange \<Rightarrow> string" where
  "FormatPortSpec p = (if port_start p = port_end p then show_dec (unat (port_start p))
     else show_dec (unat (port_start p)) @ ''-'' @ show_dec (unat (port_end p)))"

definition EntrySpecDoc :: "string \<Rightarrow> EntryDoc" where
  "EntrySpecDoc s = (case cut CHR '':'' s of (pn, pt, _) \<Rightarrow>
     \<lparr>ed_protocol = pn, ed_ports = (if trim_space pt \<noteq> [] then split_on CHR '','' pt else [])\<rparr>)"

definition FormatEntrySpec :: "ServiceEntry \<Rightarrow> string" where
  "FormatEntrySpec e = (if entry_ports e = [] then ProtocolName (entry_protocol e)
     else ProtocolName (entry_protocol e) @ '':'' @ join '','' (map FormatPortSpec (entry_ports e)))"

section \<open>From documents\<close>

definition port_from_doc :: "string \<Rightarrow> nat \<times> string \<Rightarrow> PortRange list \<times> Findings \<Rightarrow> PortRange list \<times> Findings" where
  "port_from_doc path ispec st = (case (ispec, st) of ((i, spec), (ps, f)) \<Rightarrow> (case ParsePortSpec spec of
     Some p \<Rightarrow> (ps @ [p], f)
   | None \<Rightarrow> (ps @ [PortRange 0 0], add_finding (index_path (path @ ''.ports'') i) ErrBadPortSpec (Text spec) f)))"

definition entryFromDoc :: "string \<Rightarrow> EntryDoc \<Rightarrow> Findings \<Rightarrow> ServiceEntry \<times> Findings" where
  "entryFromDoc path d f = (let
       proto = (case ParseProtocol (ed_protocol d) of Some p \<Rightarrow> p | None \<Rightarrow> PROTOCOL_UNSPECIFIED);
       f = (if ParseProtocol (ed_protocol d) = None then add_finding (path @ ''.protocol'') ErrBadProtocol (Text (ed_protocol d)) f else f);
       (ps, f) = fold (port_from_doc path) (enumerate 0 (ed_ports d)) ([], f)
     in (\<lparr>entry_protocol = proto, entry_ports = ps\<rparr>, f))"

text \<open>The loop over the entries of a service or a rule.\<close>

definition entries_from_docs :: "EntryDoc list \<Rightarrow> Findings \<Rightarrow> ServiceEntry list \<times> Findings" where
  "entries_from_docs ds f = fold (\<lambda>(i, d) (es, f). let (e, f) = entryFromDoc (index_path ''entries'' i) d f in (es @ [e], f)) (enumerate 0 ds) ([], f)"

definition ServiceFromDoc :: "ServiceDoc \<Rightarrow> Service" where
  "ServiceFromDoc doc = (let (es, f) = entries_from_docs (sd_entries doc) no_findings in
     \<lparr>svc_id = uuid_Nil, svc_name = sd_name doc, svc_entries = es, svc_created_at = zero_time, svc_updated_at = zero_time, svc_version = 0, svc_faults = f_errors f\<rparr>)"

definition ResolveID :: "(string \<Rightarrow> uuid option) \<Rightarrow> string \<Rightarrow> (string, uuid) gomap \<Rightarrow> uuid option" where
  "ResolveID parse s byName = (case parse s of Some k \<Rightarrow> Some k | None \<Rightarrow> map_of byName s)"

definition id_from_doc :: "(string \<Rightarrow> uuid option) \<Rightarrow> string \<Rightarrow> Findings \<Rightarrow> uuid \<times> Findings" where
  "id_from_doc parse s f = (if s = [] then (uuid_Nil, f)
     else case parse s of Some k \<Rightarrow> (k, f) | None \<Rightarrow> (uuid_Nil, add_finding ''id'' ErrBadID (Text s) f))"

definition peer_from_doc :: "(string \<Rightarrow> uuid option) \<Rightarrow> Names \<Rightarrow> nat \<times> PeerDoc \<Rightarrow> Peer list \<times> Findings \<Rightarrow> Peer list \<times> Findings" where
  "peer_from_doc parse names jp st = (case (jp, st) of ((j, pd), (ps, f)) \<Rightarrow>
     let none = \<lparr>peer_kind = PeerUnspecified, peer_workloads = [], peer_group_id = uuid_Nil, peer_cidr = []\<rparr> in
     case pd_workloads pd of
       Some sel \<Rightarrow> (ps @ [none\<lparr>peer_kind := PeerWorkloads, peer_workloads := sel\<rparr>], f)
     | None \<Rightarrow>
         if pd_address_group pd \<noteq> [] then
           (case ResolveID parse (pd_address_group pd) (group_by_name names) of
              Some k \<Rightarrow> (ps @ [none\<lparr>peer_kind := PeerAddressGroup, peer_group_id := k\<rparr>], f)
            | None \<Rightarrow> (ps @ [none\<lparr>peer_kind := PeerAddressGroup\<rparr>],
                add_finding (index_path ''peers'' j @ ''.address_group'') ErrUnknownAddressGroup (Text (pd_address_group pd)) f))
         else if pd_cidr pd \<noteq> [] then (ps @ [none\<lparr>peer_kind := PeerCIDR, peer_cidr := pd_cidr pd\<rparr>], f)
         else (ps @ [none], f))"

definition service_from_doc :: "(string \<Rightarrow> uuid option) \<Rightarrow> Names \<Rightarrow> nat \<times> string \<Rightarrow> uuid list \<times> Findings \<Rightarrow> uuid list \<times> Findings" where
  "service_from_doc parse names jn st = (case (jn, st) of ((j, name), (ks, f)) \<Rightarrow> (case ResolveID parse name (service_by_name names) of
     Some k \<Rightarrow> (ks @ [k], f)
   | None \<Rightarrow> (ks @ [uuid_Nil], add_finding (index_path ''services'' j) ErrUnknownService (Text name) f)))"

definition RuleFromDoc :: "(string \<Rightarrow> uuid option) \<Rightarrow> RuleDoc \<Rightarrow> Names \<Rightarrow> Rule" where
  "RuleFromDoc parse rd names = (let
       (k, f) = id_from_doc parse (rd_id rd) no_findings;
       dir = (case ParseDirection (rd_direction rd) of Some d \<Rightarrow> d | None \<Rightarrow> DIRECTION_UNSPECIFIED);
       f = (if ParseDirection (rd_direction rd) = None then add_finding ''direction'' ErrBadDirection (Text (rd_direction rd)) f else f);
       (ps, f) = fold (peer_from_doc parse names) (enumerate 0 (rd_peers rd)) ([], f);
       (ks, f) = fold (service_from_doc parse names) (enumerate 0 (rd_services rd)) ([], f);
       (es, f) = entries_from_docs (rd_entries rd) f
     in \<lparr>rl_id = k, rl_direction = dir, rl_enabled = (case rd_enabled rd of Some b \<Rightarrow> b | None \<Rightarrow> True), rl_description = rd_description rd,
         rl_peers = ps, rl_service_ids = ks, rl_entries = es, rl_created_at = zero_time, rl_updated_at = zero_time, rl_version = 0, rl_faults = f_errors f\<rparr>)"

definition RulesetFromDoc :: "(string \<Rightarrow> uuid option) \<Rightarrow> RulesetDoc \<Rightarrow> Names \<Rightarrow> Ruleset" where
  "RulesetFromDoc parse doc names = (let (k, f) = id_from_doc parse (rsd_id doc) no_findings in
     \<lparr>rs_id = k, rs_name = rsd_name doc, rs_description = rsd_description doc, rs_enabled = (case rsd_enabled doc of Some b \<Rightarrow> b | None \<Rightarrow> True),
      rs_scope = (case rsd_scope doc of Some s \<Rightarrow> s | None \<Rightarrow> []), rs_rules = map (\<lambda>rd. RuleFromDoc parse rd names) (rsd_rules doc),
      rs_created_at = zero_time, rs_updated_at = zero_time, rs_version = 0, rs_faults = f_errors f\<rparr>)"

definition DecodeRuleset :: "(string \<Rightarrow> RulesetDoc option) \<Rightarrow> (string \<Rightarrow> uuid option) \<Rightarrow> string \<Rightarrow> Names \<Rightarrow> Ruleset option" where
  "DecodeRuleset json parse data names = map_option (\<lambda>doc. RulesetFromDoc parse doc names) (json data)"

section \<open>To documents\<close>

definition entryToDoc :: "ServiceEntry \<Rightarrow> EntryDoc" where
  "entryToDoc e = \<lparr>ed_protocol = ProtocolName (entry_protocol e), ed_ports = map FormatPortSpec (entry_ports e)\<rparr>"

definition name_or_id :: "(uuid, string) gomap \<Rightarrow> uuid \<Rightarrow> string" where
  "name_or_id names k = (case map_of names k of Some n \<Rightarrow> n | None \<Rightarrow> k)"

definition peer_to_doc :: "Names \<Rightarrow> Peer \<Rightarrow> PeerDoc list" where
  "peer_to_doc names p = (let none = \<lparr>pd_workloads = None, pd_address_group = [], pd_cidr = []\<rparr> in case peer_kind p of
     PeerWorkloads \<Rightarrow> [none\<lparr>pd_workloads := Some (peer_workloads p)\<rparr>]
   | PeerAddressGroup \<Rightarrow> [none\<lparr>pd_address_group := name_or_id (group_name names) (peer_group_id p)\<rparr>]
   | PeerCIDR \<Rightarrow> [none\<lparr>pd_cidr := peer_cidr p\<rparr>]
   | _ \<Rightarrow> [])"

text \<open>\<open>fmt\<close> is \<^verbatim>\<open>UTC().Format(time.RFC3339Nano)\<close>.\<close>

definition RuleToDoc :: "(int \<Rightarrow> string) \<Rightarrow> Rule \<Rightarrow> Names \<Rightarrow> RuleDoc" where
  "RuleToDoc fmt r names = \<lparr>rd_id = rl_id r, rd_direction = DirectionName (rl_direction r), rd_enabled = Some (rl_enabled r),
     rd_description = rl_description r, rd_peers = concat (map (peer_to_doc names) (rl_peers r)),
     rd_services = map (name_or_id (service_name names)) (rl_service_ids r), rd_entries = map entryToDoc (rl_entries r),
     rd_version = (if 0 < rl_version r then FormatVersion (rl_version r) else []),
     rd_created_at = (if rl_updated_at r \<noteq> zero_time then fmt (rl_created_at r) else []),
     rd_updated_at = (if rl_updated_at r \<noteq> zero_time then fmt (rl_updated_at r) else [])\<rparr>"

definition RulesetToDoc :: "(int \<Rightarrow> string) \<Rightarrow> Ruleset \<Rightarrow> Names \<Rightarrow> RulesetDoc" where
  "RulesetToDoc fmt rs names = \<lparr>rsd_id = rs_id rs, rsd_name = rs_name rs, rsd_description = rs_description rs, rsd_enabled = Some (rs_enabled rs),
     rsd_scope = Some (rs_scope rs), rsd_rules = map (\<lambda>r. RuleToDoc fmt r names) (rs_rules rs),
     rsd_version = (if 0 < rs_version rs then FormatVersion (rs_version rs) else []),
     rsd_created_at = (if rs_updated_at rs \<noteq> zero_time then fmt (rs_created_at rs) else []),
     rsd_updated_at = (if rs_updated_at rs \<noteq> zero_time then fmt (rs_updated_at rs) else [])\<rparr>"

section \<open>Text round trips\<close>

lemma document_names:
  "ProtocolName PROTOCOL_TCP = ''tcp''" "ProtocolName PROTOCOL_UDP = ''udp''" "ProtocolName PROTOCOL_ICMP = ''icmp''"
  "DirectionName DIRECTION_INBOUND = ''inbound''" "DirectionName DIRECTION_OUTBOUND = ''outbound''"
  "ModeName ENFORCEMENT_MODE_VISIBILITY = ''visibility''" "ModeName ENFORCEMENT_MODE_SIMULATION = ''simulation''"
  "ModeName ENFORCEMENT_MODE_ENFORCED = ''enforced''"
  by (simp_all add: ProtocolName_def DirectionName_def ModeName_def trim_prefix_def starts_with_def case_eval)

lemma trim_word: "\<forall>c\<in>set s. printable c \<Longrightarrow> to_lower (trim_space s) = to_lower s"
  by (simp add: trim_space_printable)

lemma parse_names:
  "ParseProtocol ''tcp'' = Some PROTOCOL_TCP" "ParseProtocol ''udp'' = Some PROTOCOL_UDP" "ParseProtocol ''icmp'' = Some PROTOCOL_ICMP"
  "ParseDirection ''inbound'' = Some DIRECTION_INBOUND" "ParseDirection ''outbound'' = Some DIRECTION_OUTBOUND"
  "ParseMode ''visibility'' = Some ENFORCEMENT_MODE_VISIBILITY" "ParseMode ''simulation'' = Some ENFORCEMENT_MODE_SIMULATION"
  "ParseMode ''enforced'' = Some ENFORCEMENT_MODE_ENFORCED"
  by (simp_all add: ParseProtocol_def ParseDirection_def ParseMode_def trim_word printable_def case_eval)

lemma ParseProtocol_name: "named_protocol p \<Longrightarrow> ParseProtocol (ProtocolName p) = Some p"
  by (cases p) (simp_all add: document_names parse_names)

lemma show_dec_trim: "trim_space (show_dec n) = show_dec n"
  by (rule trim_space_printable) (auto dest: show_dec_is_dec simp: is_dec_printable)

lemma minus_not_dec: "CHR ''-'' \<notin> set (show_dec n)"
  by (auto dest: show_dec_is_dec simp: is_dec_def)

lemma ParsePortSpec_Format: "ParsePortSpec (FormatPortSpec p) = Some p"
proof -
  have u: "unat w < 2 ^ 32" for w :: "32 word" using unsigned_less [of w, where 'a = nat] by simp
  show ?thesis
  proof (cases "port_start p = port_end p")
    case True
    then show ?thesis using u by (cases p) (simp add: ParsePortSpec_def FormatPortSpec_def show_dec_trim cut_absent minus_not_dec)
  next
    case False
    let ?s = "show_dec (unat (port_start p)) @ CHR ''-'' # show_dec (unat (port_end p))"
    have "\<forall>c\<in>set ?s. printable c" by (auto dest: show_dec_is_dec simp: is_dec_printable) (simp add: printable_def)
    then have "trim_space ?s = ?s" by (rule trim_space_printable)
    with False show ?thesis using u by (cases p) (simp add: ParsePortSpec_def FormatPortSpec_def show_dec_trim minus_not_dec)
  qed
qed

lemma FormatPortSpec_chars: "c \<in> set (FormatPortSpec p) \<Longrightarrow> is_dec c \<or> c = CHR ''-''"
  by (auto simp: FormatPortSpec_def dest: show_dec_is_dec split: if_split_asm)

text \<open>The command line's entry form reads back as the document form of the entry.\<close>

lemma EntrySpecDoc_Format:
  assumes "named_protocol (entry_protocol e)"
  shows "EntrySpecDoc (FormatEntrySpec e) = entryToDoc e"
proof -
  have colon: "CHR '':'' \<notin> set (ProtocolName (entry_protocol e))" using assms by (cases "entry_protocol e") (simp_all add: document_names)
  show ?thesis
  proof (cases "entry_ports e = []")
    case True
    then show ?thesis using colon by (simp add: EntrySpecDoc_def FormatEntrySpec_def entryToDoc_def cut_absent) (simp add: trim_space_printable)
  next
    case False
    let ?t = "join '','' (map FormatPortSpec (entry_ports e))"
    have chars: "\<forall>c\<in>set ?t. is_dec c \<or> c = CHR ''-'' \<or> c = CHR '',''"
      using set_join_subset [of "'',''" "map FormatPortSpec (entry_ports e)"] FormatPortSpec_chars by fastforce
    moreover have "printable CHR ''-''" "printable CHR '',''" by (simp_all add: printable_def)
    ultimately have "\<forall>c\<in>set ?t. printable c" using is_dec_printable by metis
    then have "trim_space ?t = ?t" by (rule trim_space_printable)
    moreover have "split_on CHR '','' ?t = map FormatPortSpec (entry_ports e)"
    proof -
      have "CHR '','' \<notin> set (FormatPortSpec p)" for p using FormatPortSpec_chars [of "CHR '',''" p] by (auto simp: is_dec_def)
      then show ?thesis using False by (intro split_on_join) auto
    qed
    moreover have "?t \<noteq> []"
    proof -
      obtain p ps where "entry_ports e = p # ps" using False by (cases "entry_ports e") auto
      moreover have "FormatPortSpec p \<noteq> []" for p by (simp add: FormatPortSpec_def)
      ultimately show ?thesis by (cases ps) auto
    qed
    ultimately show ?thesis using colon False by (simp add: EntrySpecDoc_def FormatEntrySpec_def entryToDoc_def)
  qed
qed

section \<open>Reading back what was written\<close>

lemma fold_enumerate_clean:
  assumes "\<And>i x ys. x \<in> set xs \<Longrightarrow> step (i, x) (ys, f) = (ys @ [g x], f)"
  shows "fold step (enumerate n xs) (ys, f) = (ys @ map g xs, f)"
  using assms by (induction xs arbitrary: n ys) simp_all

lemma entryFromDoc_clean:
  assumes "named_protocol (entry_protocol e)"
  shows "entryFromDoc path (entryToDoc e) f = (e, f)"
proof -
  have "fold (port_from_doc path) (enumerate 0 (map FormatPortSpec ps)) ([], f) = ([] @ map (the \<circ> ParsePortSpec) (map FormatPortSpec ps), f)" for ps
    by (rule fold_enumerate_clean) (auto simp: port_from_doc_def ParsePortSpec_Format)
  then show ?thesis using assms
    by (simp add: entryFromDoc_def entryToDoc_def ParseProtocol_name ParsePortSpec_Format comp_def Let_def)
qed

lemma entries_from_docs_clean:
  assumes "list_all entry_ok es"
  shows "entries_from_docs (map entryToDoc es) f = (es, f)"
proof -
  have "fold (\<lambda>(i, d) (es, f). let (e, f) = entryFromDoc (index_path ''entries'' i) d f in (es @ [e], f)) (enumerate 0 (map entryToDoc es)) ([], f) =
      ([] @ map (\<lambda>d. fst (entryFromDoc [] d f)) (map entryToDoc es), f)"
    using assms by (intro fold_enumerate_clean) (auto simp: list_all_iff entry_ok_def entryFromDoc_clean)
  moreover have "map (\<lambda>d. fst (entryFromDoc [] d f)) (map entryToDoc es) = es"
    using assms by (auto simp: list_all_iff entry_ok_def entryFromDoc_clean comp_def intro!: map_idI)
  ultimately show ?thesis by (simp add: entries_from_docs_def)
qed

text \<open>Names that a document can use: unique, and none reads as a UUID.\<close>

definition names_usable :: "(string \<Rightarrow> uuid option) \<Rightarrow> Service list \<Rightarrow> AddressGroup list \<Rightarrow> bool" where
  "names_usable parse services groups = (distinct (map svc_name services) \<and> distinct (map grp_name groups) \<and>
     (\<forall>s\<in>set services. parse (svc_name s) = None) \<and> (\<forall>g\<in>set groups. parse (grp_name g) = None \<and> grp_name g \<noteq> []))"

lemma ResolveID_name_or_id:
  assumes "\<And>n. map_of names k = Some n \<Longrightarrow> parse n = None \<and> map_of byName n = Some k" and "parse k = Some k"
  shows "ResolveID parse (name_or_id names k) byName = Some k"
  using assms by (cases "map_of names k") (auto simp: ResolveID_def name_or_id_def)

lemma resolve_written:
  assumes "names_usable parse services groups" and "parse k = Some k"
  shows "ResolveID parse (name_or_id (service_name (NewNames services groups)) k) (service_by_name (NewNames services groups)) = Some k"
    "ResolveID parse (name_or_id (group_name (NewNames services groups)) k) (group_by_name (NewNames services groups)) = Some k"
    "k \<noteq> [] \<Longrightarrow> name_or_id (group_name (NewNames services groups)) k \<noteq> []"
proof -
  show "ResolveID parse (name_or_id (service_name (NewNames services groups)) k) (service_by_name (NewNames services groups)) = Some k"
  proof (rule ResolveID_name_or_id [where k = k and parse = parse, OF _ assms(2)])
    fix n assume "map_of (service_name (NewNames services groups)) k = Some n"
    then obtain s where "s \<in> set services" "svc_id s = k" "svc_name s = n" using index_by_SomeD by (fastforce simp: NewNames_def)
    then show "parse n = None \<and> map_of (service_by_name (NewNames services groups)) n = Some k"
      using assms(1) index_by_Some_distinct [of svc_name services s svc_id] by (auto simp: NewNames_def names_usable_def)
  qed
  have g: "parse n = None \<and> map_of (group_by_name (NewNames services groups)) n = Some k \<and> n \<noteq> []"
    if "map_of (group_name (NewNames services groups)) k = Some n" for n
  proof -
    from that obtain g where "g \<in> set groups" "grp_id g = k" "grp_name g = n" using index_by_SomeD by (fastforce simp: NewNames_def)
    then show ?thesis using assms(1) index_by_Some_distinct [of grp_name groups g grp_id] by (auto simp: NewNames_def names_usable_def)
  qed
  show "ResolveID parse (name_or_id (group_name (NewNames services groups)) k) (group_by_name (NewNames services groups)) = Some k"
    using g by (intro ResolveID_name_or_id [where k = k and parse = parse, OF _ assms(2)]) blast
  show "k \<noteq> [] \<Longrightarrow> name_or_id (group_name (NewNames services groups)) k \<noteq> []" using g by (auto simp: name_or_id_def split: option.split)
qed

text \<open>What a document does not carry: the versions and instants the control plane keeps.\<close>

definition unversioned_rule :: "Rule \<Rightarrow> Rule" where
  "unversioned_rule r = r\<lparr>rl_created_at := zero_time, rl_updated_at := zero_time, rl_version := 0\<rparr>"

definition unversioned :: "Ruleset \<Rightarrow> Ruleset" where
  "unversioned rs = rs\<lparr>rs_rules := map unversioned_rule (rs_rules rs), rs_created_at := zero_time, rs_updated_at := zero_time, rs_version := 0\<rparr>"

definition ids_readable :: "(string \<Rightarrow> uuid option) \<Rightarrow> Rule \<Rightarrow> bool" where
  "ids_readable parse r = (rl_id r \<noteq> [] \<and> (\<forall>k\<in>insert (rl_id r) (set (rl_service_ids r)). parse k = Some k) \<and>
     (\<forall>p\<in>set (rl_peers r). peer_kind p = PeerAddressGroup \<longrightarrow> peer_group_id p \<noteq> [] \<and> parse (peer_group_id p) = Some (peer_group_id p)))"

lemma peer_doc_clean:
  assumes "names_usable parse services groups" and "peer_ok refs p"
    and "peer_kind p = PeerAddressGroup \<longrightarrow> peer_group_id p \<noteq> [] \<and> parse (peer_group_id p) = Some (peer_group_id p)"
  shows "\<exists>d. peer_to_doc (NewNames services groups) p = [d] \<and> (\<forall>j ps f. peer_from_doc parse (NewNames services groups) (j, d) (ps, f) = (ps @ [p], f))"
proof (cases "peer_kind p")
  case PeerAddressGroup
  with assms(3) resolve_written(2,3) [OF assms(1), of "peer_group_id p"]
  show ?thesis using assms(2) by (cases p) (auto simp: peer_to_doc_def peer_from_doc_def peer_ok_def)
next
  case PeerCIDR
  then have "peer_cidr p \<noteq> []" using assms(2) by (auto simp: peer_ok_def parse_prefix_def cut_last_def)
  with PeerCIDR show ?thesis using assms(2) by (cases p) (auto simp: peer_to_doc_def peer_from_doc_def peer_ok_def)
qed (use assms(2) in \<open>cases p; auto simp: peer_to_doc_def peer_from_doc_def peer_ok_def\<close>)+

lemma peers_clean:
  assumes "names_usable parse services groups" and "list_all (peer_ok refs) ps"
    and "\<forall>p\<in>set ps. peer_kind p = PeerAddressGroup \<longrightarrow> peer_group_id p \<noteq> [] \<and> parse (peer_group_id p) = Some (peer_group_id p)"
  shows "fold (peer_from_doc parse (NewNames services groups)) (enumerate n (concat (map (peer_to_doc (NewNames services groups)) ps))) (acc, f) = (acc @ ps, f)"
  using assms(2,3)
proof (induction ps arbitrary: n acc)
  case (Cons p ps)
  then obtain d where "peer_to_doc (NewNames services groups) p = [d]" "\<forall>j ps f. peer_from_doc parse (NewNames services groups) (j, d) (ps, f) = (ps @ [p], f)"
    using peer_doc_clean [OF assms(1), of refs p] by auto
  with Cons show ?case by simp
qed simp

lemma RuleFromDoc_ToDoc:
  assumes "names_usable parse services groups" and "rule_ok refs r" and "ids_readable parse r"
  shows "RuleFromDoc parse (RuleToDoc fmt r (NewNames services groups)) (NewNames services groups) = unversioned_rule r"
proof -
  let ?names = "NewNames services groups"
  have "fold (service_from_doc parse ?names) (enumerate 0 (map (name_or_id (service_name ?names)) (rl_service_ids r))) ([], f) =
      ([] @ map (\<lambda>n. the (ResolveID parse n (service_by_name ?names))) (map (name_or_id (service_name ?names)) (rl_service_ids r)), f)" for f
    using assms(3) resolve_written(1) [OF assms(1)] by (intro fold_enumerate_clean) (auto simp: service_from_doc_def ids_readable_def)
  moreover have "map (\<lambda>n. the (ResolveID parse n (service_by_name ?names))) (map (name_or_id (service_name ?names)) (rl_service_ids r)) = rl_service_ids r"
    using assms(3) resolve_written(1) [OF assms(1)] by (auto simp: ids_readable_def comp_def intro!: map_idI)
  moreover have "fold (peer_from_doc parse ?names) (enumerate 0 (concat (map (peer_to_doc ?names) (rl_peers r)))) ([], f) = (rl_peers r, f)" for f
    using peers_clean [OF assms(1), of refs "rl_peers r" 0 "[]" f] assms(2,3) by (simp add: rule_ok_def ids_readable_def)
  ultimately show ?thesis using assms(2,3)
    by (simp add: RuleFromDoc_def RuleToDoc_def id_from_doc_def ids_readable_def rule_ok_def document_names parse_names entries_from_docs_clean
        unversioned_rule_def no_findings_def)
qed

section \<open>What admission learns of a document\<close>

lemma add_finding_read: "f_faulted f = [] \<Longrightarrow> f_faulted (add_finding path err d f) = [] \<and> f_errors (add_finding path err d f) \<noteq> []"
  by (simp add: add_finding_def)

lemma fold_enumerate_read:
  assumes "\<And>i x ys f. f_faulted f = [] \<Longrightarrow> \<exists>y f'. step (i, x) (ys, f) = (ys @ [y], f') \<and> f_faulted f' = [] \<and>
      (f_errors f' = [] \<longleftrightarrow> f_errors f = [] \<and> ok x) \<and> (ok x \<longrightarrow> y = g x)"
    and "f_faulted f = []"
  shows "\<exists>zs f'. fold step (enumerate n xs) (ys, f) = (ys @ zs, f') \<and> length zs = length xs \<and> f_faulted f' = [] \<and>
    (f_errors f' = [] \<longleftrightarrow> f_errors f = [] \<and> list_all ok xs) \<and> (list_all ok xs \<longrightarrow> zs = map g xs)"
  using assms(2)
proof (induction xs arbitrary: n ys f)
  case (Cons x xs)
  obtain y f1 where y: "step (n, x) (ys, f) = (ys @ [y], f1)" "f_faulted f1 = []" "f_errors f1 = [] \<longleftrightarrow> f_errors f = [] \<and> ok x" "ok x \<longrightarrow> y = g x"
    using assms(1) [OF Cons.prems] by blast
  obtain zs f2 where "fold step (enumerate (Suc n) xs) (ys @ [y], f1) = ((ys @ [y]) @ zs, f2)" "length zs = length xs" "f_faulted f2 = []"
    "f_errors f2 = [] \<longleftrightarrow> f_errors f1 = [] \<and> list_all ok xs" "list_all ok xs \<longrightarrow> zs = map g xs" using Cons.IH [OF y(2)] by blast
  with y show ?case by (intro exI [of _ "y # zs"] exI [of _ f2]) auto
qed simp

definition entry_readable :: "EntryDoc \<Rightarrow> bool" where
  "entry_readable d = (ParseProtocol (ed_protocol d) \<noteq> None \<and> list_all (\<lambda>s. ParsePortSpec s \<noteq> None) (ed_ports d))"

definition entry_read :: "EntryDoc \<Rightarrow> ServiceEntry" where
  "entry_read d = \<lparr>entry_protocol = the (ParseProtocol (ed_protocol d)), entry_ports = map (the \<circ> ParsePortSpec) (ed_ports d)\<rparr>"

lemma entryFromDoc_read:
  assumes "f_faulted f = []"
  shows "\<exists>e f'. entryFromDoc path d f = (e, f') \<and> f_faulted f' = [] \<and> (f_errors f' = [] \<longleftrightarrow> f_errors f = [] \<and> entry_readable d) \<and>
    (entry_readable d \<longrightarrow> e = entry_read d)"
proof -
  let ?f = "if ParseProtocol (ed_protocol d) = None then add_finding (path @ ''.protocol'') ErrBadProtocol (Text (ed_protocol d)) f else f"
  have f: "f_faulted ?f = []" "f_errors ?f = [] \<longleftrightarrow> f_errors f = [] \<and> ParseProtocol (ed_protocol d) \<noteq> None" using add_finding_read [OF assms] assms by auto
  have "\<exists>zs f'. fold (port_from_doc path) (enumerate 0 (ed_ports d)) ([], ?f) = ([] @ zs, f') \<and> length zs = length (ed_ports d) \<and> f_faulted f' = [] \<and>
    (f_errors f' = [] \<longleftrightarrow> f_errors ?f = [] \<and> list_all (\<lambda>s. ParsePortSpec s \<noteq> None) (ed_ports d)) \<and>
    (list_all (\<lambda>s. ParsePortSpec s \<noteq> None) (ed_ports d) \<longrightarrow> zs = map (the \<circ> ParsePortSpec) (ed_ports d))"
    by (rule fold_enumerate_read [OF _ f(1)]) (auto simp: port_from_doc_def add_finding_read split: option.split)
  then show ?thesis using f(2) by (auto simp: entryFromDoc_def entry_readable_def entry_read_def Let_def split: option.split)
qed

definition peer_readable :: "(string \<Rightarrow> uuid option) \<Rightarrow> Names \<Rightarrow> PeerDoc \<Rightarrow> bool" where
  "peer_readable parse names d = (pd_workloads d \<noteq> None \<or> pd_address_group d = [] \<or> ResolveID parse (pd_address_group d) (group_by_name names) \<noteq> None)"

definition rule_readable :: "(string \<Rightarrow> uuid option) \<Rightarrow> Names \<Rightarrow> RuleDoc \<Rightarrow> bool" where
  "rule_readable parse names rd = ((rd_id rd = [] \<or> parse (rd_id rd) \<noteq> None) \<and> ParseDirection (rd_direction rd) \<noteq> None \<and>
     list_all (peer_readable parse names) (rd_peers rd) \<and> list_all (\<lambda>n. ResolveID parse n (service_by_name names) \<noteq> None) (rd_services rd) \<and>
     list_all entry_readable (rd_entries rd))"

lemma id_from_doc_read:
  "f_faulted f = [] \<Longrightarrow> \<exists>k f'. id_from_doc parse s f = (k, f') \<and> f_faulted f' = [] \<and> (f_errors f' = [] \<longleftrightarrow> f_errors f = [] \<and> (s = [] \<or> parse s \<noteq> None))"
  by (auto simp: id_from_doc_def add_finding_read split: option.split)

definition peer_read :: "(string \<Rightarrow> uuid option) \<Rightarrow> Names \<Rightarrow> PeerDoc \<Rightarrow> Peer" where
  "peer_read parse names d = hd (fst (peer_from_doc parse names (0, d) ([], no_findings)))"

lemma peer_from_doc_read:
  assumes "f_faulted f = []"
  shows "\<exists>y f'. peer_from_doc parse names (i, d) (ys, f) = (ys @ [y], f') \<and> f_faulted f' = [] \<and>
    (f_errors f' = [] \<longleftrightarrow> f_errors f = [] \<and> peer_readable parse names d) \<and> (peer_readable parse names d \<longrightarrow> y = peer_read parse names d)"
  using assms add_finding_read [OF assms]
  by (cases "pd_workloads d"; cases "pd_address_group d = []"; cases "ResolveID parse (pd_address_group d) (group_by_name names)")
     (auto simp: peer_from_doc_def peer_readable_def peer_read_def Let_def)

lemma service_from_doc_read:
  assumes "f_faulted f = []"
  shows "\<exists>y f'. service_from_doc parse names (i, n) (ys, f) = (ys @ [y], f') \<and> f_faulted f' = [] \<and>
    (f_errors f' = [] \<longleftrightarrow> f_errors f = [] \<and> ResolveID parse n (service_by_name names) \<noteq> None) \<and>
    (ResolveID parse n (service_by_name names) \<noteq> None \<longrightarrow> y = the (ResolveID parse n (service_by_name names)))"
  using assms add_finding_read [OF assms] by (auto simp: service_from_doc_def split: option.split)

lemma RuleFromDoc_read:
  "(rl_faults (RuleFromDoc parse rd names) = [] \<longleftrightarrow> rule_readable parse names rd) \<and>
   length (rl_peers (RuleFromDoc parse rd names)) = length (rd_peers rd) \<and>
   (rule_readable parse names rd \<longrightarrow> rl_peers (RuleFromDoc parse rd names) = map (peer_read parse names) (rd_peers rd) \<and> rl_service_ids (RuleFromDoc parse rd names) = map (\<lambda>n. the (ResolveID parse n (service_by_name names))) (rd_services rd) \<and>
      rl_entries (RuleFromDoc parse rd names) = map entry_read (rd_entries rd))"
proof -
  obtain k f1 where 1: "id_from_doc parse (rd_id rd) no_findings = (k, f1)" "f_faulted f1 = []" "f_errors f1 = [] \<longleftrightarrow> rd_id rd = [] \<or> parse (rd_id rd) \<noteq> None"
    using id_from_doc_read [of no_findings parse "rd_id rd"] by (auto simp: no_findings_def)
  define f2 where "f2 = (if ParseDirection (rd_direction rd) = None then add_finding ''direction'' ErrBadDirection (Text (rd_direction rd)) f1 else f1)"
  have 2: "f_faulted f2 = []" "f_errors f2 = [] \<longleftrightarrow> f_errors f1 = [] \<and> ParseDirection (rd_direction rd) \<noteq> None"
    using add_finding_read [OF 1(2)] 1(2) by (auto simp: f2_def)
  obtain ps f3 where 3: "fold (peer_from_doc parse names) (enumerate 0 (rd_peers rd)) ([], f2) = ([] @ ps, f3)" "length ps = length (rd_peers rd)" "f_faulted f3 = []"
    "f_errors f3 = [] \<longleftrightarrow> f_errors f2 = [] \<and> list_all (peer_readable parse names) (rd_peers rd)"
    "list_all (peer_readable parse names) (rd_peers rd) \<longrightarrow> ps = map (peer_read parse names) (rd_peers rd)"
    using fold_enumerate_read [where step = "peer_from_doc parse names" and ok = "peer_readable parse names" and g = "peer_read parse names",
      OF peer_from_doc_read 2(1), of 0 "rd_peers rd" "[]"] by blast
  obtain ks f4 where 4: "fold (service_from_doc parse names) (enumerate 0 (rd_services rd)) ([], f3) = ([] @ ks, f4)" "f_faulted f4 = []"
    "f_errors f4 = [] \<longleftrightarrow> f_errors f3 = [] \<and> list_all (\<lambda>n. ResolveID parse n (service_by_name names) \<noteq> None) (rd_services rd)"
    "list_all (\<lambda>n. ResolveID parse n (service_by_name names) \<noteq> None) (rd_services rd) \<longrightarrow> ks = map (\<lambda>n. the (ResolveID parse n (service_by_name names))) (rd_services rd)"
    using fold_enumerate_read [where step = "service_from_doc parse names" and ok = "\<lambda>n. ResolveID parse n (service_by_name names) \<noteq> None"
      and g = "\<lambda>n. the (ResolveID parse n (service_by_name names))", OF service_from_doc_read 3(3), of 0 "rd_services rd" "[]"] by blast
  have "\<exists>y f'. (case (i, d) of (i, d) \<Rightarrow> \<lambda>(es, f). let (e, f) = entryFromDoc (index_path ''entries'' i) d f in (es @ [e], f)) (ys, f) = (ys @ [y], f') \<and> f_faulted f' = [] \<and>
      (f_errors f' = [] \<longleftrightarrow> f_errors f = [] \<and> entry_readable d) \<and> (entry_readable d \<longrightarrow> y = entry_read d)" if "f_faulted f = []" for i d ys f
    using entryFromDoc_read [OF that, of "index_path ''entries'' i" d] by auto
  from fold_enumerate_read [where step = "\<lambda>(i, d) (es, f). let (e, f) = entryFromDoc (index_path ''entries'' i) d f in (es @ [e], f)"
      and ok = entry_readable and g = entry_read, OF this 4(2), of 0 "rd_entries rd" "[]"] obtain es f5 where 5: "entries_from_docs (rd_entries rd) f4 = (es, f5)"
    "f_errors f5 = [] \<longleftrightarrow> f_errors f4 = [] \<and> list_all entry_readable (rd_entries rd)" "list_all entry_readable (rd_entries rd) \<longrightarrow> es = map entry_read (rd_entries rd)"
    unfolding entries_from_docs_def by auto
  have "RuleFromDoc parse rd names = \<lparr>rl_id = k, rl_direction = (case ParseDirection (rd_direction rd) of Some d \<Rightarrow> d | None \<Rightarrow> DIRECTION_UNSPECIFIED),
      rl_enabled = (case rd_enabled rd of Some b \<Rightarrow> b | None \<Rightarrow> True), rl_description = rd_description rd,
      rl_peers = ps, rl_service_ids = ks, rl_entries = es, rl_created_at = zero_time, rl_updated_at = zero_time, rl_version = 0, rl_faults = f_errors f5\<rparr>"
    unfolding RuleFromDoc_def by (simp only: 1(1) 3(1) 4(1) 5(1) Let_def prod.case append_Nil f2_def [symmetric])
  then show ?thesis using 1 2 3 4 5 by (auto simp: rule_readable_def)
qed

section \<open>Properties\<close>

text \<open>\<^bold>\<open>C39\<close>: an admitted ruleset, written as a document and read back, is the same ruleset without the versions
  and instants the control plane keeps, whether the document names its services and groups or not, as
  long as names are unique and none reads as a UUID.\<close>

theorem document_roundtrip:
  assumes "ruleset_ok refs rs" and "names_usable parse services groups" and "rs_id rs \<noteq> []" and "parse (rs_id rs) = Some (rs_id rs)"
    and "\<forall>r\<in>set (rs_rules rs). ids_readable parse r"
  shows "RulesetFromDoc parse (RulesetToDoc fmt rs (NewNames services groups)) (NewNames services groups) = unversioned rs"
proof -
  have "map (\<lambda>r. RuleFromDoc parse (RuleToDoc fmt r (NewNames services groups)) (NewNames services groups)) (rs_rules rs) = map unversioned_rule (rs_rules rs)"
    using assms(1,5) RuleFromDoc_ToDoc [OF assms(2)] by (auto simp: ruleset_ok_def list_all_iff)
  then show ?thesis using assms(1,3,4)
    by (simp add: RulesetFromDoc_def RulesetToDoc_def id_from_doc_def unversioned_def ruleset_ok_def no_findings_def comp_def)
qed

definition demo_document_ruleset :: Ruleset where
  "demo_document_ruleset = hd (in_rulesets demo_inputs)"

lemma demo_document_ok: "ruleset_ok \<lparr>ref_services = {}, ref_groups = {}\<rparr> demo_document_ruleset"
  by (simp add: demo_document_ruleset_def demo_inputs_def ruleset_ok_def rule_ok_def peer_ok_def selector_ok_def entry_ok_def port_range_ok_def
      inGrammar_def MaxLabelLength_def alnum_def uuid_Nil_def)

theorem document_roundtrip_witness:
  "RulesetFromDoc Some (RulesetToDoc (\<lambda>_. ''t'') demo_document_ruleset (NewNames [] [])) (NewNames [] []) = unversioned demo_document_ruleset"
  by (rule document_roundtrip [OF demo_document_ok])
     (simp_all add: names_usable_def demo_document_ruleset_def demo_inputs_def ids_readable_def)

text \<open>A service may be named like a UUID, since admission asks only that a name is not empty. Its name in
  a document is then read as an id, of another service or of none: reading back a rule that refers to
  it changes the rule.\<close>

lemma uuid_named_service_captured:
  "\<exists>s r. service_ok s \<and> svc_id s \<in> set (rl_service_ids r) \<and>
     rl_service_ids (RuleFromDoc (\<lambda>t. if uuid_text t then Some t else None) (RuleToDoc fmt r (NewNames [s] [])) (NewNames [s] [])) \<noteq> rl_service_ids r"
proof -
  define s :: Service where "s = \<lparr>svc_id = ''00000000-0000-0000-0000-000000000001'', svc_name = ''00000000-0000-0000-0000-000000000002'',
    svc_entries = [\<lparr>entry_protocol = PROTOCOL_TCP, entry_ports = []\<rparr>], svc_created_at = 0, svc_updated_at = 0, svc_version = 1, svc_faults = []\<rparr>"
  define r :: Rule where "r = \<lparr>rl_id = ''00000000-0000-0000-0000-000000000003'', rl_direction = DIRECTION_INBOUND, rl_enabled = True, rl_description = [],
    rl_peers = [], rl_service_ids = [svc_id s], rl_entries = [], rl_created_at = 0, rl_updated_at = 0, rl_version = 1, rl_faults = []\<rparr>"
  have "service_ok s" by (simp add: s_def service_ok_def entry_ok_def)
  moreover have "uuid_text (svc_name s)" "uuid_text (rl_id r)" by (simp_all add: s_def r_def uuid_text_def is_hex_def is_dec_def)
  then have "rl_service_ids (RuleFromDoc (\<lambda>t. if uuid_text t then Some t else None) (RuleToDoc fmt r (NewNames [s] [])) (NewNames [s] [])) = [svc_name s]"
    by (simp add: RuleFromDoc_def RuleToDoc_def id_from_doc_def r_def service_from_doc_def name_or_id_def NewNames_def index_by_def ResolveID_def entries_from_docs_def)
  moreover have "svc_name s \<noteq> svc_id s" by (simp add: s_def)
  ultimately show ?thesis by (intro exI [of _ s] exI [of _ r]) (simp add: r_def)
qed

text \<open>A document that admission accepts was read in full: its id and those of its rules are UUIDs, each
  direction, protocol and port is well formed and each name resolves, and the ruleset admitted has the
  document's peers, services and entries, each at its place.\<close>

lemma admitted_document_was_read:
  assumes "ValidateRuleset (RulesetFromDoc parse doc names) refs = None"
  shows "(rsd_id doc = [] \<or> parse (rsd_id doc) \<noteq> None) \<and> rs_name (RulesetFromDoc parse doc names) = rsd_name doc \<and>
    list_all2 (\<lambda>rd r. rule_readable parse names rd \<and> rl_peers r = map (peer_read parse names) (rd_peers rd) \<and>
      rl_service_ids r = map (\<lambda>n. the (ResolveID parse n (service_by_name names))) (rd_services rd) \<and>
      rl_entries r = map entry_read (rd_entries rd)) (rsd_rules doc) (rs_rules (RulesetFromDoc parse doc names))"
proof -
  obtain k f where f: "id_from_doc parse (rsd_id doc) no_findings = (k, f)" "f_errors f = [] \<longleftrightarrow> rsd_id doc = [] \<or> parse (rsd_id doc) \<noteq> None"
    using id_from_doc_read [of no_findings parse "rsd_id doc"] by (auto simp: no_findings_def)
  have ok: "ruleset_ok refs (RulesetFromDoc parse doc names)" using assms by (simp add: ValidateRuleset_None)
  then have "rs_faults (RulesetFromDoc parse doc names) = []" by (simp add: ruleset_ok_def)
  then have id: "rsd_id doc = [] \<or> parse (rsd_id doc) \<noteq> None" using f by (simp add: RulesetFromDoc_def)
  have rules: "rs_rules (RulesetFromDoc parse doc names) = map (\<lambda>rd. RuleFromDoc parse rd names) (rsd_rules doc)"
    "rs_name (RulesetFromDoc parse doc names) = rsd_name doc" by (simp_all add: RulesetFromDoc_def f(1))
  have "rule_readable parse names rd" if "rd \<in> set (rsd_rules doc)" for rd
    using ok that RuleFromDoc_read [of parse rd names] by (simp add: ruleset_ok_def rules list_all_iff rule_ok_def)
  then show ?thesis using id RuleFromDoc_read by (simp add: rules list_all2_conv_all_nth)
qed

definition demo_document :: RulesetDoc where
  "demo_document = \<lparr>rsd_id = [], rsd_name = ''db'', rsd_description = [], rsd_enabled = None, rsd_scope = Some [(''app'', [''db''])],
     rsd_rules = [\<lparr>rd_id = [], rd_direction = ''inbound'', rd_enabled = None, rd_description = [],
       rd_peers = [\<lparr>pd_workloads = Some [(''app'', [''web''])], pd_address_group = [], pd_cidr = []\<rparr>], rd_services = [],
       rd_entries = [\<lparr>ed_protocol = ''tcp'', ed_ports = [FormatPortSpec (PortRange 5432 5432)]\<rparr>],
       rd_version = [], rd_created_at = [], rd_updated_at = []\<rparr>],
     rsd_version = [], rsd_created_at = [], rsd_updated_at = []\<rparr>"

end
