(* ===== verification/Paging.thy ===== *)
theory Paging
  imports GoText
begin

text \<open>
  What the paged reads share: \<^verbatim>\<open>base64.RawURLEncoding\<close> and signed decimal numbers, the cursors of
  \<^verbatim>\<open>internal/readmodel/readmodel.go\<close>, and the contract of a read that continues after a position, as
  the locale \<open>cursor_reads\<close>: a client that follows its cursors meets every matching row exactly
  once, in order, and is done after finitely many pages.
\<close>

section \<open>Base 64\<close>

definition b64_alphabet :: string where
  "b64_alphabet = ''ABCDEFGHIJKLMNOPQRSTUVWXYZabcdefghijklmnopqrstuvwxyz0123456789-_''"

definition b64_char :: "nat \<Rightarrow> char" where
  "b64_char n = b64_alphabet ! n"

definition b64_digit :: "char \<Rightarrow> nat option" where
  "b64_digit c = find (\<lambda>n. b64_char n = c) [0..<64]"

definition b64_word :: "nat list \<Rightarrow> string" where
  "b64_word bs = map b64_char (to_digits 64 4 (of_digits 256 bs))"

fun b64_encode_bytes :: "nat list \<Rightarrow> string" where
  "b64_encode_bytes (a # b # c # s) = b64_word [a, b, c] @ b64_encode_bytes s"
| "b64_encode_bytes [a, b] = take 3 (b64_word [a, b, 0])"
| "b64_encode_bytes [a] = take 2 (b64_word [a, 0, 0])"
| "b64_encode_bytes [] = []"

definition b64_encode :: "string \<Rightarrow> string" where
  "b64_encode s = b64_encode_bytes (map of_char s)"

fun b64_decode_digits :: "nat list \<Rightarrow> nat list option" where
  "b64_decode_digits (w # x # y # z # ds) = map_option ((@) (to_digits 256 3 (of_digits 64 [w, x, y, z]))) (b64_decode_digits ds)"
| "b64_decode_digits [w, x, y] = Some (take 2 (to_digits 256 3 (of_digits 64 [w, x, y, 0])))"
| "b64_decode_digits [w, x] = Some (take 1 (to_digits 256 3 (of_digits 64 [w, x, 0, 0])))"
| "b64_decode_digits [w] = None"
| "b64_decode_digits [] = Some []"

text \<open>Line breaks are skipped; unused low bits of the last digit are not looked at.\<close>

definition b64_decode :: "string \<Rightarrow> string option" where
  "b64_decode s = Option.bind (those (map b64_digit (filter (\<lambda>c. c \<noteq> CHR 0x0A \<and> c \<noteq> CHR 0x0D) s)))
     (\<lambda>ds. map_option (map char_of) (b64_decode_digits ds))"

lemma b64_digit_char: "n < 64 \<Longrightarrow> b64_digit (b64_char n) = Some n"
proof -
  have "list_all (\<lambda>n. b64_digit (b64_char n) = Some n) [0..<64]" by code_simp
  then show "n < 64 \<Longrightarrow> ?thesis" by (simp add: list_all_iff)
qed

lemma b64_char_plain: "n < 64 \<Longrightarrow> b64_char n \<noteq> CHR 0x0A \<and> b64_char n \<noteq> CHR 0x0D"
proof -
  have "list_all (\<lambda>n. b64_char n \<noteq> CHR 0x0A \<and> b64_char n \<noteq> CHR 0x0D) [0..<64]" by code_simp
  then show "n < 64 \<Longrightarrow> ?thesis" by (simp add: list_all_iff)
qed

text \<open>The digits of an encoding, each below 64, and what they decode to.\<close>

lemma those_b64_digit: "\<forall>d\<in>set ds. d < 64 \<Longrightarrow> those (map b64_digit (filter (\<lambda>c. c \<noteq> CHR 0x0A \<and> c \<noteq> CHR 0x0D) (map b64_char ds))) = Some ds"
  by (induction ds) (simp_all add: b64_digit_char b64_char_plain)

fun b64_digits :: "nat list \<Rightarrow> nat list" where
  "b64_digits (a # b # c # s) = to_digits 64 4 (of_digits 256 [a, b, c]) @ b64_digits s"
| "b64_digits [a, b] = take 3 (to_digits 64 4 (of_digits 256 [a, b, 0]))"
| "b64_digits [a] = take 2 (to_digits 64 4 (of_digits 256 [a, 0, 0]))"
| "b64_digits [] = []"

lemma b64_encode_digits: "b64_encode_bytes s = map b64_char (b64_digits s)"
  by (induction s rule: b64_digits.induct) (simp_all add: b64_word_def take_map)

lemma b64_digits_bound: "d \<in> set (b64_digits s) \<Longrightarrow> d < 64"
  by (induction s rule: b64_digits.induct) (auto dest!: in_set_takeD to_digits_bound [rotated])

lemma to_digits_four: "to_digits b 4 n = [n div b ^ 3 mod b, n div b ^ 2 mod b, n div b mod b, n mod b]"
  by (simp add: numeral_eq_Suc div_mult2_eq mult.assoc [symmetric])

lemma to_digits_three: "to_digits b 3 n = [n div b ^ 2 mod b, n div b mod b, n mod b]"
  by (simp add: numeral_eq_Suc div_mult2_eq mult.assoc [symmetric])

lemma of_digits_list: "of_digits b [x] = x" "of_digits b [x, y] = x * b + y" "of_digits b [x, y, z] = (x * b + y) * b + z"
    "of_digits b [w, x, y, z] = ((w * b + x) * b + y) * b + z"
  by (simp_all add: of_digits_def)

lemma b64_bytes_digits:
  assumes "a < 256" and "b < 256" and "c < 256"
  shows "of_digits 64 (to_digits 64 4 (of_digits 256 [a, b, c])) = of_digits 256 [a, b, c]"
    and "to_digits 256 3 (of_digits 256 [a, b, c]) = [a, b, c]"
  using of_digits_bound [of "[a, b, c]" 256] assms by (simp_all add: of_to_digits to_of_digits)

lemma b64_decode_encode_digits: "\<forall>b\<in>set s. b < 256 \<Longrightarrow> b64_decode_digits (b64_digits s) = Some s"
proof (induction s rule: b64_digits.induct)
  case (1 a b c s)
  then show ?case using b64_bytes_digits [of a b c] by (simp add: to_digits_four)
next
  case (2 a b)
  have "of_digits 256 [a, b, 0] = 64 * (4 * (a * 256 + b))" by (simp add: of_digits_list)
  then have "of_digits 256 [a, b, 0] mod 64 = 0" by (metis mod_mult_self1_is_0)
  then show ?case using b64_bytes_digits [of a b 0] 2 by (simp add: to_digits_four)
next
  case (3 a)
  have n: "of_digits 256 [a, 0, 0] = 64 * (64 * (16 * a))" by (simp add: of_digits_list)
  then have "of_digits 256 [a, 0, 0] mod 64 = 0" "of_digits 256 [a, 0, 0] div 64 mod 64 = 0"
    by (metis mod_mult_self1_is_0, metis n mod_mult_self1_is_0 nonzero_mult_div_cancel_left zero_neq_numeral)
  then show ?case using b64_bytes_digits [of a 0 0] 3 by (simp add: to_digits_four)
qed simp

lemma b64_roundtrip: "b64_decode (b64_encode s) = Some s"
proof -
  have "\<forall>b\<in>set (map of_char s). b < (256 :: nat)" by simp
  then show ?thesis
    by (simp add: b64_decode_def b64_encode_def b64_encode_digits those_b64_digit b64_digits_bound b64_decode_encode_digits comp_def)
qed

lemma b64_encode_Nil [simp]: "b64_encode s = [] \<longleftrightarrow> s = []"
  by (cases "map of_char s :: nat list" rule: b64_encode_bytes.cases)
    (auto simp: b64_encode_def b64_word_def to_digits_four)

section \<open>Signed numbers\<close>

text \<open>\<^verbatim>\<open>strconv.ParseInt(s, 10, bits)\<close>.\<close>

definition parse_int :: "nat \<Rightarrow> string \<Rightarrow> int option" where
  "parse_int bits s = (case s of [] \<Rightarrow> None | c # t \<Rightarrow>
     (if c = CHR ''-'' then Option.bind (parse_uint bits t) (\<lambda>n. if 2 ^ (bits - 1) < n then None else Some (- int n))
      else Option.bind (parse_uint bits (if c = CHR ''+'' then t else s)) (\<lambda>n. if 2 ^ (bits - 1) \<le> n then None else Some (int n))))"

lemma show_dec_sign: "show_dec n = c # t \<Longrightarrow> c \<noteq> CHR ''-'' \<and> c \<noteq> CHR ''+''"
  using show_dec_is_dec [of c n] by (auto simp: is_dec_def)

lemma parse_show_int:
  assumes "0 < bits" and "- (2 ^ (bits - 1)) \<le> n" and "n < 2 ^ (bits - 1)"
  shows "parse_int bits (show_int n) = Some n"
proof -
  have pow: "(2 :: int) ^ bits = 2 * 2 ^ (bits - 1)" using assms(1) by (cases bits) simp_all
  have two: "nat k < 2 ^ m \<longleftrightarrow> k < 2 ^ m" for k :: int and m by (simp add: nat_less_iff flip: of_nat_power) 
  show ?thesis
  proof (cases "n < 0")
    case True
    have "nat (- n) < 2 ^ bits" using assms(2) pow True by (simp add: two)
    moreover have "\<not> 2 ^ (bits - 1) < nat (- n)" using assms(2) True by (simp add: not_less nat_le_iff)
    ultimately show ?thesis using True by (simp add: parse_int_def show_int_def)
  next
    case False
    obtain c t where s: "show_dec (nat n) = c # t" by (cases "show_dec (nat n)") auto
    have "nat n < 2 ^ bits" using assms(3) pow False by (simp add: two)
    moreover have "parse_uint bits (c # t) = parse_uint bits (show_dec (nat n))" by (simp only: s)
    ultimately have "parse_uint bits (c # t) = Some (nat n)" by (simp only: parse_uint_show_dec)
    then show ?thesis using assms(3) False show_dec_sign [OF s] by (simp add: parse_int_def show_int_def s not_le two)
  qed
qed

lemma show_int_chars: "c \<in> set (show_int n) \<Longrightarrow> is_dec c \<or> c = CHR ''-''"
  by (auto simp: show_int_def dest: show_dec_is_dec split: if_split_asm)

lemma show_int_no_bar [simp]: "CHR ''|'' \<notin> set (show_int n)"
  by (auto dest!: show_int_chars simp: is_dec_def)

section \<open>Cursors\<close>

text \<open>A refused cursor is \<open>None\<close>; an instant is read as nanoseconds since the epoch.\<close>

definition encodeCursor :: "string list \<Rightarrow> string" where
  "encodeCursor parts = b64_encode (join ''|'' parts)"

definition decodeCursor :: "string \<Rightarrow> string \<Rightarrow> nat \<Rightarrow> string list option" where
  "decodeCursor token kind n = Option.bind (b64_decode token) (\<lambda>raw. let parts = split_on CHR ''|'' raw in
     if length parts \<noteq> n + 1 \<or> hd parts \<noteq> kind then None else Some (tl parts))"

definition cursorTime :: "string \<Rightarrow> int option" where
  "cursorTime s = parse_int 64 s"

definition cursorUUID :: "(string \<Rightarrow> string option) \<Rightarrow> string \<Rightarrow> string option" where
  "cursorUUID parse s = parse s"

text \<open>\<^verbatim>\<open>time.Time.UnixNano\<close>: a 64-bit count, which wraps for instants outside the years 1678 to 2262.\<close>

definition UnixNano :: "int \<Rightarrow> int" where
  "UnixNano t = sint (word_of_int t :: 64 word)"

definition nano_fits :: "int \<Rightarrow> bool" where
  "nano_fits t = (- (2 ^ 63) \<le> t \<and> t < 2 ^ 63)"

lemma UnixNano_fits [simp]: "nano_fits t \<Longrightarrow> UnixNano t = t"
  by (simp add: UnixNano_def nano_fits_def sint_sbintrunc' signed_take_bit_int_eq_self)

lemma cursorTime_format [simp]: "nano_fits t \<Longrightarrow> cursorTime (show_int t) = Some t"
  by (simp add: cursorTime_def nano_fits_def parse_show_int)

lemma decode_encodeCursor:
  assumes "\<forall>p\<in>set (kind # parts). CHR ''|'' \<notin> set p" and "n = length parts"
  shows "decodeCursor (encodeCursor (kind # parts)) kind n = Some parts"
  using split_on_join [of "kind # parts" "CHR ''|''"] assms
  by (simp add: decodeCursor_def encodeCursor_def b64_roundtrip Let_def)

lemma encodeCursor_not_Nil: "kind \<noteq> [] \<Longrightarrow> encodeCursor (kind # parts) \<noteq> []"
  by (cases parts) (simp_all add: encodeCursor_def)

text \<open>A cursor of another read is refused.\<close>

lemma decodeCursor_other_kind:
  assumes "\<forall>p\<in>set (kind # parts). CHR ''|'' \<notin> set p" and "kind \<noteq> kind'"
  shows "decodeCursor (encodeCursor (kind # parts)) kind' n = None"
  using split_on_join [of "kind # parts" "CHR ''|''"] assms
  by (simp add: decodeCursor_def encodeCursor_def b64_roundtrip Let_def)

section \<open>Reads that continue after a position\<close>

text \<open>A page of at most \<open>limit\<close> rows and the token of its last row, empty when no row is left.\<close>

definition page_of :: "nat \<Rightarrow> ('row \<Rightarrow> string) \<Rightarrow> ('row \<Rightarrow> 'v) \<Rightarrow> 'row list \<Rightarrow> 'v list \<times> string" where
  "page_of limit token view rows = (map view (take limit rows), if limit < length rows then token (rows ! (limit - 1)) else [])"

text \<open>A read asks its store for one row more than the page holds, to know whether another page exists.\<close>

lemma page_of_probe:
  assumes "0 < n" and "records = take (n + 1) rows"
  shows "(map view (if n < length records then take n records else records), if n < length records then token (last (take n records)) else []) =
    page_of n token view rows"
proof (cases "n < length rows")
  case True
  then have "last (take n rows) = rows ! (n - 1)" using assms(1) by (subst last_conv_nth) auto
  then show ?thesis using True assms by (simp add: page_of_def min_def)
qed (simp add: page_of_def assms(2))

text \<open>A client that reads pages until one has no next cursor, giving up after \<open>n\<close> of them.\<close>

fun follow :: "nat \<Rightarrow> (string \<Rightarrow> ('e, 'v list \<times> string) result) \<Rightarrow> string \<Rightarrow> ('e, 'v list) result option" where
  "follow 0 read token = None"
| "follow (Suc n) read token = (case read token of Inl e \<Rightarrow> Some (Inl e)
     | Inr (vs, nxt) \<Rightarrow> if nxt = [] then Some (Inr vs) else map_option (map_sum id ((@) vs)) (follow n read nxt))"

lemma sorted_beyond:
  assumes "sorted (map key rows)" and "distinct (map key rows)" and "0 < i" and "i \<le> length rows"
  shows "filter (\<lambda>s. key (rows ! (i - 1)) < key s) rows = drop i rows"
proof -
  have less: "key (rows ! a) < key (rows ! b)" if "a < b" "b < length rows" for a b
    using assms(1,2) that by (auto simp: sorted_iff_nth_mono distinct_conv_nth less_le)
  have "filter (\<lambda>s. key (rows ! (i - 1)) < key s) (take i rows) = []"
  proof -
    have "\<not> key (rows ! (i - 1)) < key (rows ! j)" if "j < i" for j
    proof (cases "j = i - 1")
      case False
      then have "key (rows ! j) < key (rows ! (i - 1))" using that assms(3,4) by (intro less) auto
      then show ?thesis by simp
    qed simp
    then show ?thesis using assms(4) by (auto simp: filter_empty_conv in_set_conv_nth)
  qed
  moreover have "filter (\<lambda>s. key (rows ! (i - 1)) < key s) (drop i rows) = drop i rows"
    using less assms(3,4) by (auto simp: filter_id_conv in_set_conv_nth)
  ultimately show ?thesis by (metis append_take_drop_id append_Nil filter_append)
qed

locale cursor_reads =
  fixes key :: "'row \<Rightarrow> 'k::linorder"
    and wf :: "'q \<Rightarrow> 'db \<Rightarrow> bool"
    and matching :: "'q \<Rightarrow> 'db \<Rightarrow> 'row list"
    and limit :: "'q \<Rightarrow> nat"
    and token :: "'row \<Rightarrow> string"
    and view :: "'db \<Rightarrow> 'row \<Rightarrow> 'v"
    and read :: "'q \<Rightarrow> 'db \<Rightarrow> string \<Rightarrow> ('e, 'v list \<times> string) result"
  assumes limit_pos: "0 < limit q"
    and keys_distinct: "wf q db \<Longrightarrow> distinct (map key (matching q db))"
    and token_not_Nil: "token r \<noteq> []"
    and first_page: "wf q db \<Longrightarrow> read q db [] = Inr (page_of (limit q) token (view db) (sort_key key (matching q db)))"
    and next_page: "wf q db \<Longrightarrow> r \<in> set (matching q db) \<Longrightarrow>
      read q db (token r) = Inr (page_of (limit q) token (view db) (sort_key key (filter (\<lambda>s. key r < key s) (matching q db))))"
begin

lemma page_at:
  assumes "wf q db" and "i = 0 \<and> t = [] \<or> 0 < i \<and> i \<le> length (matching q db) \<and> t = token (sort_key key (matching q db) ! (i - 1))"
  shows "read q db t = Inr (page_of (limit q) token (view db) (drop i (sort_key key (matching q db))))"
proof (cases "i = 0")
  case False
  let ?s = "sort_key key (matching q db)"
  have "distinct (map key ?s)" using keys_distinct [OF assms(1)] by (simp add: distinct_map)
  then have "sort_key key (filter (\<lambda>s. key (?s ! (i - 1)) < key s) (matching q db)) = drop i ?s"
    using False assms(2) sorted_beyond [of key ?s i] by (simp add: filter_sort)
  moreover have "?s ! (i - 1) \<in> set (matching q db)" using False assms(2) by (metis Suc_diff_1 Suc_le_lessD length_sort neq0_conv nth_mem set_sort)
  ultimately show ?thesis using False assms(2) next_page [OF assms(1)] by simp
qed (use assms first_page in simp)

lemma follow_from:
  assumes "wf q db" and "i = 0 \<and> t = [] \<or> 0 < i \<and> i \<le> length (matching q db) \<and> t = token (sort_key key (matching q db) ! (i - 1))"
    and "0 < n" and "length (matching q db) \<le> i + n * limit q"
  shows "follow n (read q db) t = Some (Inr (map (view db) (drop i (sort_key key (matching q db)))))"
  using assms(2-)
proof (induction n arbitrary: i t)
  case (Suc n)
  let ?s = "sort_key key (matching q db)"
  show ?case
  proof (cases "limit q < length ?s - i")
    case True
    have "follow n (read q db) (token (?s ! (i + limit q - 1))) = Some (Inr (map (view db) (drop (i + limit q) ?s)))"
      using True Suc.prems limit_pos [of q] by (intro Suc.IH) (auto simp: algebra_simps intro: Nat.gr0I)
    moreover have "drop i ?s = take (limit q) (drop i ?s) @ drop (i + limit q) ?s"
      by (metis append_take_drop_id drop_drop add.commute)
    ultimately show ?thesis using True page_at [OF assms(1) Suc.prems(1)] token_not_Nil limit_pos [of q]
      by (simp add: page_of_def) (metis map_append)
  next
    case False
    then show ?thesis using page_at [OF assms(1) Suc.prems(1)] by (simp add: page_of_def)
  qed
qed simp

text \<open>Following cursors from the first page meets every matching row once, in order.\<close>

lemma follow_all:
  assumes "wf q db" and "0 < n" and "length (matching q db) \<le> n * limit q"
  shows "follow n (read q db) [] = Some (Inr (map (view db) (sort_key key (matching q db))))"
  using follow_from [OF assms(1), of 0 "[]"] assms by simp

end

end
