(* ===== verification/Operators.thy ===== *)
theory Operators
  imports Paging Registry
begin

text \<open>
  The single operator of the control plane (\<^verbatim>\<open>internal/operator\<close>) and the authentication boundary
  (\<^verbatim>\<open>internal/authn\<close>): the password and its stored form, browser sessions, operator tokens, and the
  chain of verifiers, one per credential form, over the tables of \<^verbatim>\<open>internal/store/operator.go\<close>.
  SHA-256 and argon2id are parameters, as are the bytes the random source draws; a call of argon2id
  that panics is \<open>None\<close>. The clock is an argument of every operation that reads it, and a boolean
  says the database takes a statement.
\<close>

section \<open>Records\<close>

record Operator =
  op_password_hash :: string
  op_display_name :: "string option"
  op_created_at :: instant
  op_updated_at :: instant

record Session =
  ses_id_hash :: string
  ses_created_at :: instant
  ses_expires_at :: instant

record OperatorToken =
  ot_id :: uuid
  ot_hash :: string
  ot_prefix :: string
  ot_name :: string
  ot_created_at :: instant
  ot_expires_at :: "instant option"
  ot_revoked_at :: "instant option"
  ot_last_used_at :: "instant option"

record Principal =
  pr_display_name :: "string option"

datatype operator_error = ErrNoOperator | ErrPasswordMismatch | ErrPasswordTooShort
  | ErrSessionMalformed | ErrSessionUnknown | ErrSessionExpired
  | ErrTokenMalformed | ErrTokenUnknown | ErrTokenExpired | ErrTokenRevoked
  | ErrHashMalformed | ErrUnsupportedForm | ErrRandom | ErrArgonPanic | ErrStore

text \<open>The operator table holds one row at most: its key is a boolean constrained to be true.\<close>

record operator_db =
  od_operator :: "Operator option"
  od_sessions :: "Session list"
  od_tokens :: "OperatorToken list"

definition Session_Check :: "Session option \<Rightarrow> instant \<Rightarrow> operator_error option" where
  "Session_Check s now = (case s of
     None \<Rightarrow> Some ErrSessionUnknown
   | Some s \<Rightarrow> if \<not> now < ses_expires_at s then Some ErrSessionExpired else None)"

definition OperatorToken_Check :: "OperatorToken option \<Rightarrow> instant \<Rightarrow> operator_error option" where
  "OperatorToken_Check t now = (case t of
     None \<Rightarrow> Some ErrTokenUnknown
   | Some t \<Rightarrow>
      if (case ot_revoked_at t of Some r \<Rightarrow> \<not> now < r | None \<Rightarrow> False) then Some ErrTokenRevoked
      else if (case ot_expires_at t of Some e \<Rightarrow> \<not> now < e | None \<Rightarrow> False) then Some ErrTokenExpired
      else None)"

section \<open>Secrets\<close>

definition OperatorTokenPrefix :: string where "OperatorTokenPrefix = ''iwo_''"
definition operatorListPrefixChars :: nat where "operatorListPrefixChars = 8"
definition secretEntropyBytes :: nat where "secretEntropyBytes = 32"

text \<open>\<open>raw\<close>: the bytes the random source drew, when it did.\<close>

definition randomSecret :: "string option \<Rightarrow> (operator_error, string) result" where
  "randomSecret raw = (case raw of None \<Rightarrow> Inl ErrRandom | Some bs \<Rightarrow> Inr (b64_encode bs))"

definition NewSessionID :: "(string \<Rightarrow> string) \<Rightarrow> string option \<Rightarrow> (operator_error, string \<times> string) result" where
  "NewSessionID sha raw = bind_result (randomSecret raw) (\<lambda>plaintext. Inr (plaintext, sha plaintext))"

definition HashSessionID :: "(string \<Rightarrow> string) \<Rightarrow> string \<Rightarrow> (operator_error, string) result" where
  "HashSessionID sha plaintext = (case b64_decode plaintext of
     None \<Rightarrow> Inl ErrSessionMalformed
   | Some raw \<Rightarrow> if length raw \<noteq> secretEntropyBytes then Inl ErrSessionMalformed else Inr (sha plaintext))"

definition NewOperatorToken :: "(string \<Rightarrow> string) \<Rightarrow> string option \<Rightarrow> (operator_error, string \<times> string \<times> string) result" where
  "NewOperatorToken sha raw = bind_result (randomSecret raw) (\<lambda>body. let plaintext = OperatorTokenPrefix @ body in
     Inr (plaintext, sha plaintext, take (length OperatorTokenPrefix + operatorListPrefixChars) plaintext))"

definition HashOperatorToken :: "(string \<Rightarrow> string) \<Rightarrow> string \<Rightarrow> (operator_error, string) result" where
  "HashOperatorToken sha plaintext = (if \<not> starts_with OperatorTokenPrefix plaintext then Inl ErrTokenMalformed
     else case b64_decode (trim_prefix OperatorTokenPrefix plaintext) of
       None \<Rightarrow> Inl ErrTokenMalformed
     | Some raw \<Rightarrow> if length raw \<noteq> secretEntropyBytes then Inl ErrTokenMalformed else Inr (sha plaintext))"

section \<open>Passwords\<close>

definition MinPasswordLength :: nat where "MinPasswordLength = 12"
definition argonTime :: nat where "argonTime = 2"
definition argonMemory :: nat where "argonMemory = 64 * 1024"
definition argonThreads :: nat where "argonThreads = 2"
definition argonKeyLen :: nat where "argonKeyLen = 32"
definition argonVersion :: nat where "argonVersion = 19"

text \<open>\<^verbatim>\<open>base64.RawStdEncoding\<close> differs from the URL form in the last two letters of its alphabet.\<close>

definition std_letter :: "char \<Rightarrow> char" where
  "std_letter c = (if c = CHR ''-'' then CHR ''+'' else if c = CHR ''_'' then CHR ''/'' else c)"

definition url_letter :: "char \<Rightarrow> char" where
  "url_letter c = (if c = CHR ''+'' then CHR ''-'' else if c = CHR ''/'' then CHR ''_'' else c)"

definition std_encode :: "string \<Rightarrow> string" where
  "std_encode s = map std_letter (b64_encode s)"

definition std_decode :: "string \<Rightarrow> string option" where
  "std_decode s = (if CHR ''-'' \<in> set s \<or> CHR ''_'' \<in> set s then None else b64_decode (map url_letter s))"

text \<open>
  The parts of \<^verbatim>\<open>fmt.Sscanf\<close> a stored hash is read with: literal text, and \<^verbatim>\<open>%d\<close>, which skips white
  space but not line ends, reads as many digits as there are, with a sign for a signed target, and
  fails when the number exceeds the target's width. What follows the last item is not looked at.
\<close>

definition scan_literal :: "string \<Rightarrow> string \<Rightarrow> string option" where
  "scan_literal p s = (if starts_with p s then Some (drop (length p) s) else None)"

definition scan_space :: "string \<Rightarrow> string option" where
  "scan_space s = (let t = trim_left s in if CHR 0x0A \<in> set (take (length s - length t) s) then None else Some t)"

definition scan_digits :: "string \<Rightarrow> (nat \<times> string) option" where
  "scan_digits s = (let ds = takeWhile is_dec s in
     if ds = [] then None else Some (digits_value 10 ds, dropWhile is_dec s))"

definition scan_uint :: "nat \<Rightarrow> string \<Rightarrow> (nat \<times> string) option" where
  "scan_uint bits s = Option.bind (scan_space s) (\<lambda>s. Option.bind (scan_digits s) (\<lambda>(n, s).
     if 2 ^ bits \<le> n then None else Some (n, s)))"

definition scan_int :: "string \<Rightarrow> (int \<times> string) option" where
  "scan_int s = Option.bind (scan_space s) (\<lambda>s.
     if starts_with ''-'' s then Option.bind (scan_digits (tl s)) (\<lambda>(n, s). if 2 ^ 63 < n then None else Some (- int n, s))
     else Option.bind (scan_digits (if starts_with ''+'' s then tl s else s)) (\<lambda>(n, s). if 2 ^ 63 \<le> n then None else Some (int n, s)))"

definition scan_version :: "string \<Rightarrow> int option" where
  "scan_version s = Option.bind (scan_literal ''v='' s) (\<lambda>s. map_option fst (scan_int s))"

definition scan_params :: "string \<Rightarrow> (nat \<times> nat \<times> nat) option" where
  "scan_params s = Option.bind (scan_literal ''m='' s) (\<lambda>s. Option.bind (scan_uint 32 s) (\<lambda>(memory, s).
     Option.bind (scan_literal '',t='' s) (\<lambda>s. Option.bind (scan_uint 32 s) (\<lambda>(iterations, s).
     Option.bind (scan_literal '',p='' s) (\<lambda>s. Option.bind (scan_uint 8 s) (\<lambda>(lanes, s). Some (memory, iterations, lanes)))))))"

text \<open>\<open>argon password salt time memory threads keyLen\<close> is \<^verbatim>\<open>argon2.IDKey\<close>.\<close>

type_synonym argon2 = "string \<Rightarrow> string \<Rightarrow> nat \<Rightarrow> nat \<Rightarrow> nat \<Rightarrow> nat \<Rightarrow> string option"

definition HashPassword :: "argon2 \<Rightarrow> string option \<Rightarrow> string \<Rightarrow> (operator_error, string) result" where
  "HashPassword argon salt password = (case salt of
     None \<Rightarrow> Inl ErrRandom
   | Some salt \<Rightarrow> (case argon password salt argonTime argonMemory argonThreads argonKeyLen of
       None \<Rightarrow> Inl ErrArgonPanic
     | Some key \<Rightarrow> Inr (''$argon2id$v='' @ show_dec argonVersion @ ''$m='' @ show_dec argonMemory @ '',t='' @ show_dec argonTime
         @ '',p='' @ show_dec argonThreads @ ''$'' @ std_encode salt @ ''$'' @ std_encode key)))"

definition VerifyPasswordHash :: "argon2 \<Rightarrow> string \<Rightarrow> string \<Rightarrow> operator_error option" where
  "VerifyPasswordHash argon encoded password = (let parts = split_on CHR ''$'' encoded in
     if length parts \<noteq> 6 \<or> parts ! 0 \<noteq> [] \<or> parts ! 1 \<noteq> ''argon2id'' then Some ErrHashMalformed
     else if scan_version (parts ! 2) \<noteq> Some (int argonVersion) then Some ErrHashMalformed
     else case scan_params (parts ! 3) of
       None \<Rightarrow> Some ErrHashMalformed
     | Some (memory, iterations, lanes) \<Rightarrow> (case std_decode (parts ! 4) of
         None \<Rightarrow> Some ErrHashMalformed
       | Some salt \<Rightarrow> (case std_decode (parts ! 5) of
           None \<Rightarrow> Some ErrHashMalformed
         | Some want \<Rightarrow> if length want = 0 then Some ErrHashMalformed
             else (case argon password salt iterations memory lanes (length want) of
                 None \<Rightarrow> Some ErrArgonPanic
               | Some got \<Rightarrow> if got \<noteq> want then Some ErrPasswordMismatch else None))))"

section \<open>The tables\<close>

definition GetOperator :: "bool \<Rightarrow> operator_db \<Rightarrow> (operator_error, Operator) result" where
  "GetOperator ok db = (if \<not> ok then Inl ErrStore else case od_operator db of None \<Rightarrow> Inl ErrNoOperator | Some r \<Rightarrow> Inr r)"

text \<open>A replaced row keeps the instant it was created at.\<close>

definition SetOperator :: "bool \<Rightarrow> Operator \<Rightarrow> operator_db \<Rightarrow> (operator_error, operator_db) result" where
  "SetOperator ok r db = (if \<not> ok then Inl ErrStore else Inr (db\<lparr>od_operator := Some (case od_operator db of
     None \<Rightarrow> \<lparr>op_password_hash = op_password_hash r, op_display_name = op_display_name r, op_created_at = op_updated_at r, op_updated_at = op_updated_at r\<rparr>
   | Some old \<Rightarrow> old\<lparr>op_password_hash := op_password_hash r, op_display_name := op_display_name r, op_updated_at := op_updated_at r\<rparr>)\<rparr>))"

definition Store_CreateSession :: "bool \<Rightarrow> Session \<Rightarrow> operator_db \<Rightarrow> (operator_error, operator_db) result" where
  "Store_CreateSession ok s db = (if \<not> ok \<or> ses_id_hash s \<in> ses_id_hash ` set (od_sessions db) then Inl ErrStore
     else Inr (db\<lparr>od_sessions := od_sessions db @ [s]\<rparr>))"

definition GetSession :: "bool \<Rightarrow> string \<Rightarrow> operator_db \<Rightarrow> (operator_error, Session) result" where
  "GetSession ok h db = (if \<not> ok then Inl ErrStore else
     case find (\<lambda>s. ses_id_hash s = h) (od_sessions db) of None \<Rightarrow> Inl ErrSessionUnknown | Some s \<Rightarrow> Inr s)"

definition Store_DeleteSession :: "bool \<Rightarrow> string \<Rightarrow> operator_db \<Rightarrow> (operator_error, operator_db) result" where
  "Store_DeleteSession ok h db = (if \<not> ok then Inl ErrStore else Inr (db\<lparr>od_sessions := filter (\<lambda>s. ses_id_hash s \<noteq> h) (od_sessions db)\<rparr>))"

definition DeleteExpiredSessions :: "bool \<Rightarrow> instant \<Rightarrow> operator_db \<Rightarrow> (operator_error, nat \<times> operator_db) result" where
  "DeleteExpiredSessions ok now db = (if \<not> ok then Inl ErrStore else
     Inr (length (filter (\<lambda>s. ses_expires_at s \<le> now) (od_sessions db)), db\<lparr>od_sessions := filter (\<lambda>s. \<not> ses_expires_at s \<le> now) (od_sessions db)\<rparr>))"

definition CreateOperatorToken :: "bool \<Rightarrow> OperatorToken \<Rightarrow> operator_db \<Rightarrow> (operator_error, operator_db) result" where
  "CreateOperatorToken ok t db = (if \<not> ok \<or> ot_id t \<in> ot_id ` set (od_tokens db) \<or> ot_hash t \<in> ot_hash ` set (od_tokens db) then Inl ErrStore
     else Inr (db\<lparr>od_tokens := od_tokens db @ [t\<lparr>ot_revoked_at := None, ot_last_used_at := None\<rparr>]\<rparr>))"

definition FindOperatorTokenByHash :: "bool \<Rightarrow> string \<Rightarrow> operator_db \<Rightarrow> (operator_error, OperatorToken) result" where
  "FindOperatorTokenByHash ok h db = (if \<not> ok then Inl ErrStore else
     case find (\<lambda>t. ot_hash t = h) (od_tokens db) of None \<Rightarrow> Inl ErrTokenUnknown | Some t \<Rightarrow> Inr t)"

text \<open>Newest first, then by id.\<close>

definition ListOperatorTokens :: "bool \<Rightarrow> operator_db \<Rightarrow> (operator_error, OperatorToken list) result" where
  "ListOperatorTokens ok db = (if \<not> ok then Inl ErrStore else Inr (sort_key (\<lambda>t. (- ot_created_at t, ot_id t)) (od_tokens db)))"

definition revoke_token_row :: "uuid \<Rightarrow> instant \<Rightarrow> OperatorToken \<Rightarrow> OperatorToken" where
  "revoke_token_row k now t = (if ot_id t = k \<and> ot_revoked_at t = None then t\<lparr>ot_revoked_at := Some now\<rparr> else t)"

definition RevokeOperatorToken :: "bool \<Rightarrow> uuid \<Rightarrow> instant \<Rightarrow> operator_db \<Rightarrow> (operator_error, operator_db) result" where
  "RevokeOperatorToken ok k now db = (if \<not> ok then Inl ErrStore
     else if list_ex (\<lambda>t. ot_id t = k \<and> ot_revoked_at t = None) (od_tokens db)
       then Inr (db\<lparr>od_tokens := map (revoke_token_row k now) (od_tokens db)\<rparr>)
     else if \<not> list_ex (\<lambda>t. ot_id t = k) (od_tokens db) then Inl ErrTokenUnknown
     else Inl ErrTokenRevoked)"

definition use_token_row :: "uuid \<Rightarrow> instant \<Rightarrow> OperatorToken \<Rightarrow> OperatorToken" where
  "use_token_row k now t = (if ot_id t = k then t\<lparr>ot_last_used_at := Some now\<rparr> else t)"

definition RecordOperatorTokenUse :: "bool \<Rightarrow> uuid \<Rightarrow> instant \<Rightarrow> operator_db \<Rightarrow> (operator_error, operator_db) result" where
  "RecordOperatorTokenUse ok k now db = (if \<not> ok then Inl ErrStore else Inr (db\<lparr>od_tokens := map (use_token_row k now) (od_tokens db)\<rparr>))"

section \<open>The service\<close>

definition DefaultSessionTTL :: duration where "DefaultSessionTTL = 7 * 24 * 3600 * 1000000000"

definition sessionTTL :: "duration \<Rightarrow> duration" where
  "sessionTTL ttl = (if 0 < ttl then ttl else DefaultSessionTTL)"

definition SetPassword :: "argon2 \<Rightarrow> string option \<Rightarrow> bool \<Rightarrow> instant \<Rightarrow> string \<Rightarrow> string option \<Rightarrow> operator_db \<Rightarrow> (operator_error, operator_db) result" where
  "SetPassword argon salt ok now password displayName db = (if length password < MinPasswordLength then Inl ErrPasswordTooShort
     else bind_result (HashPassword argon salt password) (\<lambda>hash.
       SetOperator ok \<lparr>op_password_hash = hash, op_display_name = displayName, op_created_at = now, op_updated_at = now\<rparr> db))"

definition VerifyPassword :: "argon2 \<Rightarrow> bool \<Rightarrow> string \<Rightarrow> operator_db \<Rightarrow> operator_error option" where
  "VerifyPassword argon ok password db = (case GetOperator ok db of
     Inl e \<Rightarrow> Some e
   | Inr r \<Rightarrow> VerifyPasswordHash argon (op_password_hash r) password)"

text \<open>A token can exist before a password has been set.\<close>

definition principal_of :: "bool \<Rightarrow> operator_db \<Rightarrow> (operator_error, Principal) result" where
  "principal_of ok db = (case GetOperator ok db of
     Inl e \<Rightarrow> if e = ErrNoOperator then Inr \<lparr>pr_display_name = None\<rparr> else Inl e
   | Inr r \<Rightarrow> Inr \<lparr>pr_display_name = op_display_name r\<rparr>)"

definition CreateSession :: "(string \<Rightarrow> string) \<Rightarrow> duration \<Rightarrow> string option \<Rightarrow> bool \<Rightarrow> instant \<Rightarrow> operator_db \<Rightarrow> (operator_error, string \<times> Session \<times> operator_db) result" where
  "CreateSession sha ttl raw ok now db = bind_result (NewSessionID sha raw) (\<lambda>(plaintext, hash).
     let sess = \<lparr>ses_id_hash = hash, ses_created_at = now, ses_expires_at = now + sessionTTL ttl\<rparr> in
     bind_result (Store_CreateSession ok sess db) (\<lambda>db. Inr (plaintext, sess, db)))"

definition ValidateSession :: "(string \<Rightarrow> string) \<Rightarrow> bool \<Rightarrow> bool \<Rightarrow> instant \<Rightarrow> string \<Rightarrow> operator_db \<Rightarrow> (operator_error, Principal) result" where
  "ValidateSession sha found named now plaintext db = bind_result (HashSessionID sha plaintext) (\<lambda>h.
     bind_result (GetSession found h db) (\<lambda>sess.
     case Session_Check (Some sess) now of Some e \<Rightarrow> Inl e | None \<Rightarrow> principal_of named db))"

definition DeleteSession :: "(string \<Rightarrow> string) \<Rightarrow> bool \<Rightarrow> string \<Rightarrow> operator_db \<Rightarrow> (operator_error, operator_db) result" where
  "DeleteSession sha ok plaintext db = (case HashSessionID sha plaintext of Inl e \<Rightarrow> Inr db | Inr h \<Rightarrow> Store_DeleteSession ok h db)"

definition PruneSessions :: "bool \<Rightarrow> instant \<Rightarrow> operator_db \<Rightarrow> (operator_error, nat \<times> operator_db) result" where
  "PruneSessions ok now db = DeleteExpiredSessions ok now db"

text \<open>\<open>fresh\<close>: the new token id.\<close>

definition MintOperatorToken :: "(string \<Rightarrow> string) \<Rightarrow> string option \<Rightarrow> uuid \<Rightarrow> bool \<Rightarrow> instant \<Rightarrow> string \<Rightarrow> duration \<Rightarrow> operator_db
    \<Rightarrow> (operator_error, string \<times> OperatorToken \<times> operator_db) result" where
  "MintOperatorToken sha raw fresh ok now name ttl db = bind_result (NewOperatorToken sha raw) (\<lambda>(plaintext, hash, prefix).
     let tok = \<lparr>ot_id = fresh, ot_hash = hash, ot_prefix = prefix, ot_name = name, ot_created_at = now,
       ot_expires_at = (if 0 < ttl then Some (now + ttl) else None), ot_revoked_at = None, ot_last_used_at = None\<rparr> in
     bind_result (CreateOperatorToken ok tok db) (\<lambda>db. Inr (plaintext, tok, db)))"

definition ListTokens :: "bool \<Rightarrow> operator_db \<Rightarrow> (operator_error, OperatorToken list) result" where
  "ListTokens ok db = ListOperatorTokens ok db"

definition Service_RevokeToken :: "bool \<Rightarrow> uuid \<Rightarrow> instant \<Rightarrow> operator_db \<Rightarrow> (operator_error, operator_db) result" where
  "Service_RevokeToken ok k now db = RevokeOperatorToken ok k now db"

text \<open>\<open>found\<close>, \<open>recorded\<close> and \<open>named\<close>: the database takes the look-up, the write and the read of the operator.\<close>

definition ValidateToken :: "(string \<Rightarrow> string) \<Rightarrow> bool \<Rightarrow> bool \<Rightarrow> bool \<Rightarrow> instant \<Rightarrow> string \<Rightarrow> operator_db \<Rightarrow> (operator_error, Principal) result \<times> operator_db" where
  "ValidateToken sha found recorded named now plaintext db =
     (case bind_result (HashOperatorToken sha plaintext) (\<lambda>h. FindOperatorTokenByHash found h db) of
        Inl e \<Rightarrow> (Inl e, db)
      | Inr tok \<Rightarrow> (case OperatorToken_Check (Some tok) now of
          Some e \<Rightarrow> (Inl e, db)
        | None \<Rightarrow> (case RecordOperatorTokenUse recorded (ot_id tok) now db of
            Inl e \<Rightarrow> (Inl e, db)
          | Inr db \<Rightarrow> (principal_of named db, db))))"

section \<open>The authenticator\<close>

datatype Form = FormPassword | FormOperatorToken | FormSession

record PresentedSecret =
  cred_form :: Form
  cred_secret :: string

record MintedSession =
  ms_id :: string
  ms_lifetime :: duration

type_synonym Verifier = "Form \<times> (string \<Rightarrow> operator_db \<Rightarrow> (operator_error, Principal) result \<times> operator_db)"

definition PasswordVerifier :: "argon2 \<Rightarrow> bool \<Rightarrow> bool \<Rightarrow> Verifier" where
  "PasswordVerifier argon found named = (FormPassword, \<lambda>password db.
     (case VerifyPassword argon found password db of Some e \<Rightarrow> Inl e | None \<Rightarrow> principal_of named db, db))"

definition TokenVerifier :: "(string \<Rightarrow> string) \<Rightarrow> bool \<Rightarrow> bool \<Rightarrow> bool \<Rightarrow> instant \<Rightarrow> Verifier" where
  "TokenVerifier sha found recorded named now = (FormOperatorToken, ValidateToken sha found recorded named now)"

definition SessionVerifier :: "(string \<Rightarrow> string) \<Rightarrow> bool \<Rightarrow> bool \<Rightarrow> instant \<Rightarrow> Verifier" where
  "SessionVerifier sha found named now = (FormSession, \<lambda>k db. (ValidateSession sha found named now k db, db))"

definition NewAuthenticator :: "(string \<Rightarrow> string) \<Rightarrow> argon2 \<Rightarrow> bool \<Rightarrow> bool \<Rightarrow> bool \<Rightarrow> instant \<Rightarrow> Verifier list" where
  "NewAuthenticator sha argon found recorded named now =
     [PasswordVerifier argon found named, TokenVerifier sha found recorded named now, SessionVerifier sha found named now]"

definition Chain_Verify :: "Verifier list \<Rightarrow> PresentedSecret \<Rightarrow> operator_db \<Rightarrow> (operator_error, Principal) result \<times> operator_db" where
  "Chain_Verify vs c db = (case find (\<lambda>v. fst v = cred_form c) vs of
     None \<Rightarrow> (Inl ErrUnsupportedForm, db)
   | Some v \<Rightarrow> snd v (cred_secret c) db)"

definition SessionMinter_Mint :: "(string \<Rightarrow> string) \<Rightarrow> duration \<Rightarrow> string option \<Rightarrow> bool \<Rightarrow> instant \<Rightarrow> operator_db \<Rightarrow> (operator_error, MintedSession \<times> operator_db) result" where
  "SessionMinter_Mint sha ttl raw ok now db = bind_result (CreateSession sha ttl raw ok now db) (\<lambda>(k, sess, db).
     Inr (\<lparr>ms_id = k, ms_lifetime = ses_expires_at sess - ses_created_at sess\<rparr>, db))"

definition SessionMinter_End :: "(string \<Rightarrow> string) \<Rightarrow> bool \<Rightarrow> string \<Rightarrow> operator_db \<Rightarrow> (operator_error, operator_db) result" where
  "SessionMinter_End sha ok k db = DeleteSession sha ok k db"

section \<open>Histories\<close>

text \<open>Everything that changes the tables, with the clock and the answers it meets; a refused operation changes nothing.\<close>

datatype operation =
    SetsPassword "string option" bool instant string "string option"
  | LogsIn "string option" bool instant
  | LogsOut bool string
  | Prunes bool instant
  | Mints "string option" uuid bool instant string duration
  | Revokes bool uuid instant
  | Verifies bool bool bool instant PresentedSecret

definition kept :: "operator_db \<Rightarrow> (operator_error, operator_db) result \<Rightarrow> operator_db" where
  "kept db r = (case r of Inl e \<Rightarrow> db | Inr db' \<Rightarrow> db')"

fun operate :: "(string \<Rightarrow> string) \<Rightarrow> argon2 \<Rightarrow> duration \<Rightarrow> operation \<Rightarrow> operator_db \<Rightarrow> operator_db" where
  "operate sha argon ttl (SetsPassword salt ok now password name) db = kept db (SetPassword argon salt ok now password name db)"
| "operate sha argon ttl (LogsIn raw ok now) db = kept db (bind_result (SessionMinter_Mint sha ttl raw ok now db) (\<lambda>(_, db). Inr db))"
| "operate sha argon ttl (LogsOut ok k) db = kept db (SessionMinter_End sha ok k db)"
| "operate sha argon ttl (Prunes ok now) db = kept db (bind_result (PruneSessions ok now db) (\<lambda>(_, db). Inr db))"
| "operate sha argon ttl (Mints raw fresh ok now name life) db = kept db (bind_result (MintOperatorToken sha raw fresh ok now name life db) (\<lambda>(_, _, db). Inr db))"
| "operate sha argon ttl (Revokes ok k now) db = kept db (Service_RevokeToken ok k now db)"
| "operate sha argon ttl (Verifies found recorded named now c) db = snd (Chain_Verify (NewAuthenticator sha argon found recorded named now) c db)"

definition operate_all :: "(string \<Rightarrow> string) \<Rightarrow> argon2 \<Rightarrow> duration \<Rightarrow> operation list \<Rightarrow> operator_db \<Rightarrow> operator_db" where
  "operate_all sha argon ttl ops db = fold (operate sha argon ttl) ops db"

definition operator_db_ok :: "operator_db \<Rightarrow> bool" where
  "operator_db_ok db = (distinct (map ses_id_hash (od_sessions db)) \<and> distinct (map ot_id (od_tokens db)) \<and> distinct (map ot_hash (od_tokens db)))"

text \<open>What an operation does to the session with digest \<open>h\<close>.\<close>

fun ends_session :: "(string \<Rightarrow> string) \<Rightarrow> string \<Rightarrow> operation \<Rightarrow> bool" where
  "ends_session sha h (LogsOut ok k) = (ok \<and> HashSessionID sha k = Inr h)"
| "ends_session sha h _ = False"

fun prunes_from :: "instant \<Rightarrow> operation \<Rightarrow> bool" where
  "prunes_from e (Prunes ok now) = (ok \<and> e \<le> now)"
| "prunes_from e _ = False"

fun draws_session :: "(string \<Rightarrow> string) \<Rightarrow> string \<Rightarrow> operation \<Rightarrow> bool" where
  "draws_session sha h (LogsIn (Some raw) ok now) = (sha (b64_encode raw) = h)"
| "draws_session sha h _ = False"

fun sets_password :: "operation \<Rightarrow> bool" where
  "sets_password (SetsPassword salt ok now password name) = True"
| "sets_password _ = False"

text \<open>The instant a token was revoked at: the first revocation counts.\<close>

fun revoked_first :: "uuid \<Rightarrow> operation list \<Rightarrow> instant option" where
  "revoked_first k [] = None"
| "revoked_first k (Revokes ok k' now # ops) = (if ok \<and> k' = k then Some now else revoked_first k ops)"
| "revoked_first k (x # ops) = revoked_first k ops"

section \<open>Lemmas\<close>

lemma kept_simps [simp]: "kept db (Inl e) = db" "kept db (Inr db') = db'"
  by (simp_all add: kept_def)

lemma Chain_Verify_forms:
  "Chain_Verify (NewAuthenticator sha argon found recorded named now) c db = (case cred_form c of
     FormPassword \<Rightarrow> (case VerifyPassword argon found (cred_secret c) db of Some e \<Rightarrow> Inl e | None \<Rightarrow> principal_of named db, db)
   | FormOperatorToken \<Rightarrow> ValidateToken sha found recorded named now (cred_secret c) db
   | FormSession \<Rightarrow> (ValidateSession sha found named now (cred_secret c) db, db))"
  by (cases "cred_form c") (simp_all add: Chain_Verify_def NewAuthenticator_def PasswordVerifier_def TokenVerifier_def SessionVerifier_def)

lemma map_keys_same:
  assumes "\<And>t. key (f t) = key t"
  shows "map key (map f ts) = map key ts"
  using assms by simp

lemma row_keys [simp]:
  "ot_id (use_token_row k now t) = ot_id t" "ot_hash (use_token_row k now t) = ot_hash t"
  "ot_revoked_at (use_token_row k now t) = ot_revoked_at t" "ot_expires_at (use_token_row k now t) = ot_expires_at t"
  "ot_id (revoke_token_row k now t) = ot_id t" "ot_hash (revoke_token_row k now t) = ot_hash t" "ot_expires_at (revoke_token_row k now t) = ot_expires_at t"
  by (simp_all add: use_token_row_def revoke_token_row_def)

text \<open>What verifying a credential writes: at most the use of one token.\<close>

lemma ValidateToken_writes:
  "snd (ValidateToken sha found recorded named now k db) = db \<or>
   (\<exists>k'. snd (ValidateToken sha found recorded named now k db) = db\<lparr>od_tokens := map (use_token_row k' now) (od_tokens db)\<rparr>)"
  by (auto simp: ValidateToken_def RecordOperatorTokenUse_def split: sum.splits option.splits if_splits)

lemma Verify_writes:
  obtains "snd (Chain_Verify (NewAuthenticator sha argon found recorded named now) c db) = db"
  | k where "snd (Chain_Verify (NewAuthenticator sha argon found recorded named now) c db) = db\<lparr>od_tokens := map (use_token_row k now) (od_tokens db)\<rparr>"
  using ValidateToken_writes [of sha found recorded named now "cred_secret c" db]
  by (cases "cred_form c") (auto simp: Chain_Verify_forms)

text \<open>How each operation leaves each table.\<close>

lemma operate_operator: "\<not> sets_password x \<Longrightarrow> od_operator (operate sha argon ttl x db) = od_operator db"
proof (cases x)
  case (Verifies found recorded named now c)
  then show ?thesis by (cases rule: Verify_writes [of sha argon found recorded named now c db]) simp_all
qed (auto simp: kept_def SessionMinter_Mint_def CreateSession_def Store_CreateSession_def SessionMinter_End_def DeleteSession_def
    Store_DeleteSession_def PruneSessions_def DeleteExpiredSessions_def MintOperatorToken_def CreateOperatorToken_def
    Service_RevokeToken_def RevokeOperatorToken_def Let_def split: sum.splits if_splits)

lemma operate_sessions:
  "od_sessions (operate sha argon ttl x db) = (case x of
     LogsIn (Some raw) ok now \<Rightarrow> if ok \<and> sha (b64_encode raw) \<notin> ses_id_hash ` set (od_sessions db)
       then od_sessions db @ [\<lparr>ses_id_hash = sha (b64_encode raw), ses_created_at = now, ses_expires_at = now + sessionTTL ttl\<rparr>]
       else od_sessions db
   | LogsOut ok k \<Rightarrow> filter (\<lambda>s. \<not> (ok \<and> HashSessionID sha k = Inr (ses_id_hash s))) (od_sessions db)
   | Prunes ok now \<Rightarrow> filter (\<lambda>s. \<not> (ok \<and> ses_expires_at s \<le> now)) (od_sessions db)
   | _ \<Rightarrow> od_sessions db)"
proof (cases x)
  case (Verifies found recorded named now c)
  then show ?thesis by (cases rule: Verify_writes [of sha argon found recorded named now c db]) simp_all
next
  case (LogsIn raw ok now)
  then show ?thesis
    by (cases raw) (simp_all add: SessionMinter_Mint_def CreateSession_def NewSessionID_def randomSecret_def Store_CreateSession_def Let_def)
next
  case (LogsOut ok k)
  then show ?thesis
    by (cases "HashSessionID sha k") (auto simp: SessionMinter_End_def DeleteSession_def Store_DeleteSession_def intro!: filter_cong)
next
  case (SetsPassword salt ok now password name)
  then show ?thesis by (auto simp: kept_def SetPassword_def SetOperator_def split: sum.splits if_splits)
qed (auto simp: kept_def PruneSessions_def DeleteExpiredSessions_def MintOperatorToken_def CreateOperatorToken_def
    Service_RevokeToken_def RevokeOperatorToken_def Let_def split: sum.splits if_splits)

text \<open>The tokens: their keys never change, a use and the first revocation are recorded, and none is removed.\<close>

lemma operate_tokens:
  obtains (same) "od_tokens (operate sha argon ttl x db) = od_tokens db" "\<And>ok k now. x = Revokes ok k now \<Longrightarrow> ok \<Longrightarrow> \<forall>t\<in>set (od_tokens db). ot_id t = k \<longrightarrow> ot_revoked_at t \<noteq> None"
  | (used) k now where "od_tokens (operate sha argon ttl x db) = map (use_token_row k now) (od_tokens db)" "\<And>ok k now. x \<noteq> Revokes ok k now"
  | (revoked) k now where "od_tokens (operate sha argon ttl x db) = map (revoke_token_row k now) (od_tokens db)" "x = Revokes True k now"
  | (minted) t where "od_tokens (operate sha argon ttl x db) = od_tokens db @ [t]" "\<And>ok k now. x \<noteq> Revokes ok k now"
      "ot_id t \<notin> ot_id ` set (od_tokens db)" "ot_hash t \<notin> ot_hash ` set (od_tokens db)"
proof (cases x)
  case (Verifies found recorded named now c)
  then show ?thesis
  proof (cases rule: Verify_writes [of sha argon found recorded named now c db])
    case 1
    then show ?thesis using same Verifies by simp
  next
    case (2 k)
    show ?thesis by (rule used [of k now]) (use Verifies 2 in simp_all)
  qed
next
  case (Revokes ok k now)
  show ?thesis
  proof (cases "ok \<and> list_ex (\<lambda>t. ot_id t = k \<and> ot_revoked_at t = None) (od_tokens db)")
    case True
    show ?thesis by (rule revoked [of k now]) (use Revokes True in \<open>simp_all add: Service_RevokeToken_def RevokeOperatorToken_def\<close>)
  next
    case False
    show ?thesis by (rule same) (use Revokes False in \<open>auto simp: Service_RevokeToken_def RevokeOperatorToken_def list_ex_iff\<close>)
  qed
next
  case (Mints raw fresh ok now name life)
  show ?thesis
  proof (cases "MintOperatorToken sha raw fresh ok now name life db")
    case (Inl e)
    then show ?thesis using same Mints by simp
  next
    case (Inr r)
    then obtain t where "od_tokens (snd (snd r)) = od_tokens db @ [t]" "ot_id t \<notin> ot_id ` set (od_tokens db)" "ot_hash t \<notin> ot_hash ` set (od_tokens db)"
      by (auto simp: MintOperatorToken_def CreateOperatorToken_def Let_def split: if_splits)
    then show ?thesis using minted Mints Inr by (simp add: case_prod_beta)
  qed
qed (rule same; auto simp: kept_def SetPassword_def SetOperator_def SessionMinter_Mint_def CreateSession_def Store_CreateSession_def
    SessionMinter_End_def DeleteSession_def Store_DeleteSession_def PruneSessions_def DeleteExpiredSessions_def Let_def split: sum.splits if_splits)+

declare operate.simps [simp del]

lemma operate_ok: "operator_db_ok db \<Longrightarrow> operator_db_ok (operate sha argon ttl x db)"
proof -
  assume ok: "operator_db_ok db"
  have s: "distinct (map ses_id_hash (od_sessions (operate sha argon ttl x db)))"
    using ok by (auto simp: operate_sessions operator_db_ok_def distinct_map_filter split: operation.splits option.splits)
  have "distinct (map ot_id (od_tokens (operate sha argon ttl x db))) \<and> distinct (map ot_hash (od_tokens (operate sha argon ttl x db)))"
    by (cases rule: operate_tokens [of sha argon ttl x db]) (use ok in \<open>simp_all add: operator_db_ok_def comp_def\<close>)
  with s show ?thesis by (simp add: operator_db_ok_def)
qed

lemma operate_all_simps [simp]:
  "operate_all sha argon ttl [] db = db"
  "operate_all sha argon ttl (x # ops) db = operate_all sha argon ttl ops (operate sha argon ttl x db)"
  by (simp_all add: operate_all_def)

lemma operate_all_operator: "\<not> list_ex sets_password ops \<Longrightarrow> od_operator (operate_all sha argon ttl ops db) = od_operator db"
  by (induction ops arbitrary: db) (simp_all add: operate_operator)

subsection \<open>Sessions\<close>

definition session_row :: "string \<Rightarrow> operator_db \<Rightarrow> Session option" where
  "session_row h db = find (\<lambda>s. ses_id_hash s = h) (od_sessions db)"

lemma find_filter_unique:
  assumes "find P xs = Some y" and "\<forall>z\<in>set xs. P z \<longrightarrow> z = y"
  shows "find P (filter Q xs) = (if Q y then Some y else None)"
  using assms
proof (induction xs)
  case (Cons x xs)
  then show ?case by (cases "P x") (auto simp: find_None_iff)
qed simp

lemma find_filter_None: "find P xs = None \<Longrightarrow> find P (filter Q xs) = None"
  by (auto simp: find_None_iff)

lemma find_key_None: "h \<notin> key ` set xs \<Longrightarrow> find (\<lambda>s. key s = h) xs = None"
  by (auto simp: find_None_iff)

lemma find_append: "find P (xs @ ys) = (case find P xs of None \<Rightarrow> find P ys | Some y \<Rightarrow> Some y)"
  by (induction xs) simp_all

lemma session_row_unique:
  assumes "operator_db_ok db" and "session_row h db = Some s"
  shows "ses_id_hash s = h" and "\<forall>z\<in>set (od_sessions db). ses_id_hash z = h \<longrightarrow> z = s"
proof -
  show h: "ses_id_hash s = h" using assms(2) by (auto simp: session_row_def find_Some_iff)
  have "s \<in> set (od_sessions db)" using assms(2) by (auto simp: session_row_def find_Some_iff)
  then show "\<forall>z\<in>set (od_sessions db). ses_id_hash z = h \<longrightarrow> z = s"
    using assms(1) h unfolding operator_db_ok_def by (auto simp: distinct_map dest: inj_onD)
qed

lemma session_row_operate:
  assumes "operator_db_ok db" and "session_row h db = Some s"
  shows "session_row h (operate sha argon ttl x db) = (if ends_session sha h x \<or> prunes_from (ses_expires_at s) x then None else Some s)"
  using assms(2) find_filter_unique [OF assms(2) [unfolded session_row_def] session_row_unique(2) [OF assms]] session_row_unique(1) [OF assms]
  by (cases x) (auto simp: session_row_def operate_sessions find_append split: option.splits)

lemma session_row_gone:
  assumes "session_row h db = None" and "\<not> draws_session sha h x"
  shows "session_row h (operate sha argon ttl x db) = None"
  using assms by (cases x) (auto simp: session_row_def operate_sessions find_append find_filter_None split: option.splits)

lemma session_row_gone_all:
  "session_row h db = None \<Longrightarrow> \<not> list_ex (draws_session sha h) ops \<Longrightarrow> session_row h (operate_all sha argon ttl ops db) = None"
  by (induction ops arbitrary: db) (simp_all add: session_row_gone)

lemma session_row_all:
  assumes "operator_db_ok db" and "session_row h db = Some s" and "\<not> list_ex (draws_session sha h) ops"
  shows "session_row h (operate_all sha argon ttl ops db) =
    (if list_ex (ends_session sha h) ops \<or> list_ex (prunes_from (ses_expires_at s)) ops then None else Some s)"
  using assms
proof (induction ops arbitrary: db)
  case (Cons x ops)
  show ?case
  proof (cases "ends_session sha h x \<or> prunes_from (ses_expires_at s) x")
    case True
    then have "session_row h (operate sha argon ttl x db) = None" using session_row_operate [OF Cons.prems(1,2)] by simp
    then show ?thesis using session_row_gone_all Cons.prems(3) True by auto
  next
    case False
    then have "session_row h (operate sha argon ttl x db) = Some s" using session_row_operate [OF Cons.prems(1,2)] by simp
    then show ?thesis using Cons.IH [OF operate_ok [OF Cons.prems(1)]] Cons.prems(3) False by simp
  qed
qed simp

lemma HashSessionID_drawn: "length raw = secretEntropyBytes \<Longrightarrow> HashSessionID sha (b64_encode raw) = Inr (sha (b64_encode raw))"
  by (simp add: HashSessionID_def b64_roundtrip)

lemma ValidateSession_row:
  assumes "HashSessionID sha k = Inr h"
  shows "ValidateSession sha True named t k db = (case session_row h db of
    None \<Rightarrow> Inl ErrSessionUnknown
  | Some s \<Rightarrow> if ses_expires_at s \<le> t then Inl ErrSessionExpired else principal_of named db)"
  by (simp add: ValidateSession_def assms GetSession_def session_row_def Session_Check_def split: option.split)

lemma CreateSession_row:
  assumes "CreateSession sha ttl (Some raw) ok now db = Inr (k, s, db')"
  shows "k = b64_encode raw" "ses_id_hash s = sha k" "ses_expires_at s = now + sessionTTL ttl" "session_row (sha k) db' = Some s"
    "operator_db_ok db \<Longrightarrow> operator_db_ok db'"
  using assms by (auto simp: CreateSession_def NewSessionID_def randomSecret_def Store_CreateSession_def Let_def session_row_def find_append
      operator_db_ok_def find_key_None split: if_splits)

subsection \<open>Tokens\<close>

definition token_row :: "string \<Rightarrow> operator_db \<Rightarrow> OperatorToken option" where
  "token_row h db = find (\<lambda>t. ot_hash t = h) (od_tokens db)"

definition revoked_after :: "OperatorToken \<Rightarrow> operation list \<Rightarrow> instant option" where
  "revoked_after t ops = (case ot_revoked_at t of Some r \<Rightarrow> Some r | None \<Rightarrow> revoked_first (ot_id t) ops)"

lemma find_map_key: "(\<And>x. key (f x) = key x) \<Longrightarrow> find (\<lambda>x. key x = h) (map f xs) = map_option f (find (\<lambda>x. key x = h) xs)"
  by (induction xs) simp_all

lemma token_row_operate:
  assumes "token_row h db = Some t"
  obtains t' where "token_row h (operate sha argon ttl x db) = Some t'" "ot_id t' = ot_id t" "ot_expires_at t' = ot_expires_at t"
    "ot_revoked_at t' = revoked_after t [x]"
proof (cases rule: operate_tokens [of sha argon ttl x db])
  case same
  have "t \<in> set (od_tokens db)" using assms by (auto simp: token_row_def find_Some_iff)
  then have "ot_revoked_at t = revoked_after t [x]"
    using same(2) by (cases x) (auto simp: revoked_after_def split: option.split)
  then show ?thesis using that [of t] assms same(1) by (simp add: token_row_def)
next
  case (used k now)
  then have "ot_revoked_at t = revoked_after t [x]" by (cases x) (auto simp: revoked_after_def split: option.split)
  then show ?thesis using that [of "use_token_row k now t"] assms used(1) by (simp add: token_row_def find_map_key)
next
  case (revoked k now)
  then show ?thesis using that [of "revoke_token_row k now t"] assms
    by (auto simp: token_row_def find_map_key revoke_token_row_def revoked_after_def split: option.split)
next
  case (minted n)
  then have "ot_revoked_at t = revoked_after t [x]" by (cases x) (auto simp: revoked_after_def split: option.split)
  then show ?thesis using that [of t] assms minted(1) by (simp add: token_row_def find_append)
qed

lemma revoked_first_Cons: "revoked_first k (x # ops) = (case revoked_first k [x] of Some r \<Rightarrow> Some r | None \<Rightarrow> revoked_first k ops)"
  by (cases x) simp_all

lemma token_row_all:
  assumes "token_row h db = Some t"
  obtains t' where "token_row h (operate_all sha argon ttl ops db) = Some t'" "ot_id t' = ot_id t" "ot_expires_at t' = ot_expires_at t"
    "ot_revoked_at t' = revoked_after t ops"
  using assms
proof (induction ops arbitrary: db t thesis)
  case Nil
  then show ?case using Nil.prems(1) [of t] by (simp add: revoked_after_def split: option.split)
next
  case (Cons x ops)
  obtain u where u: "token_row h (operate sha argon ttl x db) = Some u" "ot_id u = ot_id t" "ot_expires_at u = ot_expires_at t"
      "ot_revoked_at u = revoked_after t [x]"
    using token_row_operate [OF Cons.prems(2)] by blast
  have "revoked_after u ops = revoked_after t (x # ops)"
    using u(2,4) by (simp add: revoked_after_def revoked_first_Cons [of _ x ops] split: option.splits)
  moreover obtain t' where t': "token_row h (operate_all sha argon ttl ops (operate sha argon ttl x db)) = Some t'" "ot_id t' = ot_id u"
      "ot_expires_at t' = ot_expires_at u" "ot_revoked_at t' = revoked_after u ops"
    using Cons.IH u(1) by blast
  ultimately show ?case using Cons.prems(1) [of t'] u(2,3) by simp
qed

lemma HashOperatorToken_drawn:
  "length raw = secretEntropyBytes \<Longrightarrow> HashOperatorToken sha (OperatorTokenPrefix @ b64_encode raw) = Inr (sha (OperatorTokenPrefix @ b64_encode raw))"
  by (simp add: HashOperatorToken_def starts_with_def trim_prefix_def b64_roundtrip)

lemma MintOperatorToken_row:
  assumes "MintOperatorToken sha (Some raw) fresh ok now name life db = Inr (k, t, db')"
  shows "k = OperatorTokenPrefix @ b64_encode raw" "ot_id t = fresh" "ot_expires_at t = (if 0 < life then Some (now + life) else None)"
    "ot_revoked_at t = None" "token_row (sha k) db' = Some t"
  using assms by (auto simp: MintOperatorToken_def NewOperatorToken_def randomSecret_def CreateOperatorToken_def Let_def token_row_def find_append
      find_key_None split: if_splits)

lemma principal_of_tokens [simp]: "principal_of named (db\<lparr>od_tokens := ts\<rparr>) = principal_of named db"
  by (simp add: principal_of_def GetOperator_def)

lemma ValidateToken_row:
  assumes "HashOperatorToken sha k = Inr h" and "token_row h db = Some t"
  shows "ValidateToken sha True True named now k db = (case OperatorToken_Check (Some t) now of
     Some e \<Rightarrow> (Inl e, db)
   | None \<Rightarrow> (principal_of named db, db\<lparr>od_tokens := map (use_token_row (ot_id t) now) (od_tokens db)\<rparr>))"
  using assms(2)
  by (simp add: ValidateToken_def assms(1) FindOperatorTokenByHash_def token_row_def RecordOperatorTokenUse_def split: option.split)

subsection \<open>Passwords\<close>

lemma b64_encode_letters: "c \<in> set (b64_encode s) \<Longrightarrow> c \<in> set b64_alphabet"
proof -
  assume "c \<in> set (b64_encode s)"
  then obtain d where "d \<in> set (b64_digits (map of_char s))" "c = b64_char d" by (auto simp: b64_encode_def b64_encode_digits)
  moreover have "length b64_alphabet = 64" by (simp add: b64_alphabet_def)
  ultimately show ?thesis using b64_digits_bound unfolding b64_char_def by (metis nth_mem)
qed

lemma letters:
  "c \<in> set b64_alphabet \<Longrightarrow> url_letter (std_letter c) = c \<and> std_letter c \<notin> {CHR ''$'', CHR ''-'', CHR ''_''}"
proof -
  have "list_all (\<lambda>c. url_letter (std_letter c) = c \<and> std_letter c \<notin> {CHR ''$'', CHR ''-'', CHR ''_''}) b64_alphabet" by code_simp
  then show "c \<in> set b64_alphabet \<Longrightarrow> ?thesis" by (simp add: list_all_iff)
qed

lemma std_encode_letters: "c \<in> set (std_encode s) \<Longrightarrow> c \<notin> {CHR ''$'', CHR ''-'', CHR ''_''}"
proof -
  assume "c \<in> set (std_encode s)"
  then obtain d where "d \<in> set (b64_encode s)" "c = std_letter d" by (auto simp: std_encode_def)
  then show ?thesis using letters [OF b64_encode_letters, of d s] by simp
qed

lemma std_roundtrip [simp]: "std_decode (std_encode s) = Some s"
proof -
  have "map url_letter (map std_letter (b64_encode s)) = b64_encode s"
    by (simp add: map_idI letters b64_encode_letters)
  then show ?thesis using std_encode_letters [of _ s] by (auto simp: std_decode_def std_encode_def b64_roundtrip)
qed

lemma std_encode_plain: "CHR ''$'' \<notin> set (std_encode s)"
  using std_encode_letters [of _ s] by blast

lemma scan_space_digit: "is_dec c \<Longrightarrow> scan_space (c # s) = Some (c # s)"
proof -
  assume d: "is_dec c"
  have "\<not> starts_with p (c # s)" if "p \<in> set space_seqs" for p
    using that space_seqs_ends starts_with_hd [of p "c # s"] is_hex_printable [OF is_dec_is_hex [OF d]] by auto
  then have "trim_left (c # s) = c # s" unfolding trim_left_def by (intro trim_seqs_id) simp
  then show ?thesis by (simp add: scan_space_def)
qed

lemma scan_version_written: "scan_version ''v=19'' = Some 19"
  by (simp add: scan_version_def scan_literal_def starts_with_def scan_int_def scan_space_digit is_dec_def scan_digits_def digits_value_def of_digits_def char_digit_def)

lemma scan_params_written: "scan_params ''m=65536,t=2,p=2'' = Some (65536, 2, 2)"
  by (simp add: scan_params_def scan_literal_def starts_with_def scan_uint_def scan_space_digit is_dec_def scan_digits_def digits_value_def of_digits_def char_digit_def)

lemma encoded_parts:
  "''$argon2id$v='' @ show_dec argonVersion @ ''$m='' @ show_dec argonMemory @ '',t='' @ show_dec argonTime
     @ '',p='' @ show_dec argonThreads @ ''$'' @ std_encode salt @ ''$'' @ std_encode key =
   join ''$'' ['''', ''argon2id'', ''v=19'', ''m=65536,t=2,p=2'', std_encode salt, std_encode key]"
  by (simp add: argonVersion_def argonMemory_def argonTime_def argonThreads_def show_base.simps digit_char_def char_of_def bit_0)

lemma VerifyPasswordHash_written:
  assumes "HashPassword argon (Some salt) password = Inr encoded" and "argon password salt argonTime argonMemory argonThreads argonKeyLen = Some key"
    and "length key = argonKeyLen"
  shows "VerifyPasswordHash argon encoded other = (case argon other salt argonTime argonMemory argonThreads argonKeyLen of
     None \<Rightarrow> Some ErrArgonPanic
   | Some got \<Rightarrow> if got \<noteq> key then Some ErrPasswordMismatch else None)"
proof -
  have e: "encoded = join ''$'' ['''', ''argon2id'', ''v=19'', ''m=65536,t=2,p=2'', std_encode salt, std_encode key]"
    using assms(1,2) unfolding HashPassword_def encoded_parts [symmetric] by simp
  have p: "split_on CHR ''$'' encoded = ['''', ''argon2id'', ''v=19'', ''m=65536,t=2,p=2'', std_encode salt, std_encode key]"
    unfolding e by (rule split_on_join) (simp_all add: std_encode_plain)
  show ?thesis
    using assms(3) unfolding VerifyPasswordHash_def Let_def p
    by (simp add: scan_version_written scan_params_written argonVersion_def argonMemory_def argonTime_def argonThreads_def argonKeyLen_def)
qed

section \<open>Properties\<close>

text \<open>\<^bold>\<open>C23\<close>: A session a login created is admitted, whatever else is done with the tables, exactly until it
  expires at its fixed lifetime, is logged out, or is pruned, which happens only to a session that has
  expired by then. A later sign-in, another logout, a token or a new password neither ends it nor
  extends it, provided no later login draws a secret with the same digest.
\<close>

theorem session_lifecycle:
  assumes "operator_db_ok db" and "length raw = secretEntropyBytes"
    and "CreateSession sha ttl (Some raw) True now db = Inr (plaintext, sess, db')"
    and "\<not> list_ex (draws_session sha (sha plaintext)) ops"
  shows "ValidateSession sha True True t plaintext (operate_all sha argon ttl' ops db') =
    (if list_ex (ends_session sha (sha plaintext)) ops \<or> list_ex (prunes_from (now + sessionTTL ttl)) ops then Inl ErrSessionUnknown
     else if now + sessionTTL ttl \<le> t then Inl ErrSessionExpired
     else principal_of True (operate_all sha argon ttl' ops db'))"
proof -
  note row = CreateSession_row [OF assms(3)]
  have "HashSessionID sha plaintext = Inr (sha plaintext)" using HashSessionID_drawn [OF assms(2)] row(1) by simp
  then show ?thesis
    using session_row_all [OF row(5) [OF assms(1)] row(4) assms(4)] row(3) by (simp add: ValidateSession_row)
qed

definition sample_sha :: "string \<Rightarrow> string" where "sample_sha s = ''#'' @ s"
definition sample_argon :: argon2 where "sample_argon password salt time memory threads keyLen = Some (take keyLen (password @ salt @ replicate keyLen CHR ''0''))"
definition sample_secret :: "nat \<Rightarrow> string" where "sample_secret n = replicate 31 CHR ''a'' @ [char_of n]"
definition empty_operator_db :: operator_db where "empty_operator_db = \<lparr>od_operator = None, od_sessions = [], od_tokens = []\<rparr>"

lemma sample_secret_length [simp]: "length (sample_secret n) = secretEntropyBytes"
  by (simp add: sample_secret_def secretEntropyBytes_def)

lemma empty_operator_db_ok: "operator_db_ok empty_operator_db"
  by (simp add: operator_db_ok_def empty_operator_db_def)

lemma sample_login:
  "CreateSession sample_sha 0 (Some (sample_secret 98)) True 0 empty_operator_db = Inr (b64_encode (sample_secret 98),
     \<lparr>ses_id_hash = sample_sha (b64_encode (sample_secret 98)), ses_created_at = 0, ses_expires_at = DefaultSessionTTL\<rparr>,
     \<lparr>od_operator = None, od_sessions = [\<lparr>ses_id_hash = sample_sha (b64_encode (sample_secret 98)), ses_created_at = 0, ses_expires_at = DefaultSessionTTL\<rparr>], od_tokens = []\<rparr>)"
  by (simp add: CreateSession_def NewSessionID_def randomSecret_def Store_CreateSession_def Let_def empty_operator_db_def sessionTTL_def DefaultSessionTTL_def)

theorem session_lifecycle_witness:
  "ValidateSession sample_sha True True 5 (b64_encode (sample_secret 98)) (operate_all sample_sha sample_argon 0 [Prunes True 3, SetsPassword (Some ''salt'') True 4 ''correct horse'' None]
     \<lparr>od_operator = None, od_sessions = [\<lparr>ses_id_hash = sample_sha (b64_encode (sample_secret 98)), ses_created_at = 0, ses_expires_at = DefaultSessionTTL\<rparr>], od_tokens = []\<rparr>) \<noteq> Inl ErrSessionUnknown"
  using session_lifecycle [OF empty_operator_db_ok sample_secret_length sample_login, of "[Prunes True 3, SetsPassword (Some ''salt'') True 4 ''correct horse'' None]" 5 sample_argon 0]
  by (simp add: sessionTTL_def DefaultSessionTTL_def principal_of_def GetOperator_def split: option.split)

text \<open>An operator token is admitted, whatever else is done with the tables, until the first instant it
  was revoked at, and until its expiry when it was minted with a lifetime; once revoked it reports so
  even where it would have expired anyway. A use writes the instant into the token's row and nothing
  else; a refusal writes nothing.
\<close>

lemma operator_token_lifecycle:
  assumes "length raw = secretEntropyBytes" and "MintOperatorToken sha (Some raw) fresh True now name life db = Inr (plaintext, tok, db')"
  shows "ValidateToken sha True True True t plaintext (operate_all sha argon ttl ops db') =
    (let cur = operate_all sha argon ttl ops db' in
     if (case revoked_first fresh ops of Some r \<Rightarrow> r \<le> t | None \<Rightarrow> False) then (Inl ErrTokenRevoked, cur)
     else if 0 < life \<and> now + life \<le> t then (Inl ErrTokenExpired, cur)
     else (principal_of True cur, cur\<lparr>od_tokens := map (use_token_row fresh t) (od_tokens cur)\<rparr>))"
proof -
  note row = MintOperatorToken_row [OF assms(2)]
  have h: "HashOperatorToken sha plaintext = Inr (sha plaintext)" using HashOperatorToken_drawn [OF assms(1)] row(1) by simp
  obtain t' where t': "token_row (sha plaintext) (operate_all sha argon ttl ops db') = Some t'" "ot_id t' = ot_id tok" "ot_expires_at t' = ot_expires_at tok"
      "ot_revoked_at t' = revoked_after tok ops"
    using token_row_all [OF row(5)] by blast
  have "OperatorToken_Check (Some t') t = (if (case revoked_first fresh ops of Some r \<Rightarrow> r \<le> t | None \<Rightarrow> False) then Some ErrTokenRevoked
      else if 0 < life \<and> now + life \<le> t then Some ErrTokenExpired else None)"
    using t'(2-4) row(2-4) by (simp add: OperatorToken_Check_def revoked_after_def not_less split: option.split)
  then show ?thesis using ValidateToken_row [OF h t'(1)] t'(2) row(2) by (simp add: Let_def)
qed

lemma sample_mint:
  "MintOperatorToken sample_sha (Some (sample_secret 98)) ''k'' True 0 ''ci'' 10 empty_operator_db = Inr (OperatorTokenPrefix @ b64_encode (sample_secret 98),
     \<lparr>ot_id = ''k'', ot_hash = sample_sha (OperatorTokenPrefix @ b64_encode (sample_secret 98)), ot_prefix = take 12 (OperatorTokenPrefix @ b64_encode (sample_secret 98)),
       ot_name = ''ci'', ot_created_at = 0, ot_expires_at = Some 10, ot_revoked_at = None, ot_last_used_at = None\<rparr>,
     \<lparr>od_operator = None, od_sessions = [], od_tokens = [\<lparr>ot_id = ''k'', ot_hash = sample_sha (OperatorTokenPrefix @ b64_encode (sample_secret 98)),
       ot_prefix = take 12 (OperatorTokenPrefix @ b64_encode (sample_secret 98)),
       ot_name = ''ci'', ot_created_at = 0, ot_expires_at = Some 10, ot_revoked_at = None, ot_last_used_at = None\<rparr>]\<rparr>)"
  by (simp add: MintOperatorToken_def NewOperatorToken_def randomSecret_def CreateOperatorToken_def Let_def empty_operator_db_def
      operatorListPrefixChars_def OperatorTokenPrefix_def)

text \<open>The password last set is the one that verifies: whatever else is done with the tables, a presented
  password is accepted exactly when argon2id gives it the key of the password set, with the salt drawn
  then; any other is reported as a mismatch, never as a malformed hash. A password below twelve bytes
  is refused and changes nothing. (\<open>keys\<close>: argon2id returns as many bytes as it is asked for.)
\<close>

lemma password_roundtrip:
  assumes keys: "\<forall>p s. \<exists>k. argon p s argonTime argonMemory argonThreads argonKeyLen = Some k \<and> length k = argonKeyLen"
    and "\<not> list_ex sets_password ops"
  shows "if length password < MinPasswordLength then SetPassword argon (Some salt) True now password name db = Inl ErrPasswordTooShort
    else \<exists>db'. SetPassword argon (Some salt) True now password name db = Inr db' \<and> (\<forall>other.
      VerifyPassword argon True other (operate_all sha argon ttl ops db') =
        (if argon other salt argonTime argonMemory argonThreads argonKeyLen = argon password salt argonTime argonMemory argonThreads argonKeyLen
         then None else Some ErrPasswordMismatch))"
proof (cases "length password < MinPasswordLength")
  case False
  obtain k where k: "argon password salt argonTime argonMemory argonThreads argonKeyLen = Some k" "length k = argonKeyLen" using keys by blast
  obtain e where e: "HashPassword argon (Some salt) password = Inr e" using k(1) by (simp add: HashPassword_def)
  obtain db' where db': "SetPassword argon (Some salt) True now password name db = Inr db'" "map_option op_password_hash (od_operator db') = Some e"
    using False e by (simp add: SetPassword_def SetOperator_def split: option.split)
  have "VerifyPassword argon True other (operate_all sha argon ttl ops db') = VerifyPasswordHash argon e other" for other
    using db'(2) operate_all_operator [OF assms(2)] by (auto simp: VerifyPassword_def GetOperator_def)
  moreover have "VerifyPasswordHash argon e other = (if argon other salt argonTime argonMemory argonThreads argonKeyLen = Some k
       then None else Some ErrPasswordMismatch)" for other
  proof -
    obtain g where "argon other salt argonTime argonMemory argonThreads argonKeyLen = Some g" using keys by blast
    then show ?thesis using VerifyPasswordHash_written [OF e k, of other] by simp
  qed
  ultimately show ?thesis using False db'(1) k(1) by auto
qed (simp add: SetPassword_def)

text \<open>The length is counted in bytes: six two-byte characters are enough.\<close>

lemma six_characters_suffice:
  "\<exists>db'. SetPassword sample_argon (Some ''salt'') True 0 (concat (replicate 6 [CHR 0xC3, CHR 0xA9])) None empty_operator_db = Inr db'"
  by (simp add: SetPassword_def MinPasswordLength_def HashPassword_def sample_argon_def SetOperator_def numeral_eq_Suc)

end
