(* ===== verification/Throttle.thy ===== *)
theory Throttle
  imports Registry
begin

text \<open>
  The login throttle of the operator surface, \<^verbatim>\<open>internal/api/throttle.go\<close>: a fixed-window counter of
  attempts per source address in a table of bounded size. The Go map holds the elements of the list,
  keyed by source, so the list in order of window start is the whole table. The clock is an argument.
\<close>

record window =
  w_key :: string
  w_start :: instant
  w_count :: nat

record Throttle =
  th_limit :: int
  th_window :: duration
  th_order :: "window list"

definition DefaultLoginAttempts :: int where "DefaultLoginAttempts = 10"
definition DefaultLoginWindow :: duration where "DefaultLoginWindow = 60 * 1000000000"
definition throttleMaxSources :: nat where "throttleMaxSources = 4096"

definition throttle_limit :: "Throttle \<Rightarrow> int" where
  "throttle_limit t = (if 0 < th_limit t then th_limit t else DefaultLoginAttempts)"

definition throttle_window :: "Throttle \<Rightarrow> duration" where
  "throttle_window t = (if 0 < th_window t then th_window t else DefaultLoginWindow)"

fun makeRoom :: "window list \<Rightarrow> window list" where
  "makeRoom [] = []"
| "makeRoom (w # ws) = (if throttleMaxSources \<le> length (w # ws) then makeRoom ws else w # ws)"

definition Allow :: "instant \<Rightarrow> string \<Rightarrow> Throttle \<Rightarrow> (bool \<times> duration) \<times> Throttle" where
  "Allow now key t =
     (let (w, order) = (case find (\<lambda>w. w_key w = key) (th_order t) of
        Some w \<Rightarrow>
          if throttle_window t \<le> now - w_start w
          then let w' = w\<lparr>w_start := now, w_count := 1\<rparr> in (w', filter (\<lambda>x. w_key x \<noteq> key) (th_order t) @ [w'])
          else let w' = w\<lparr>w_count := w_count w + 1\<rparr> in (w', map (\<lambda>x. if w_key x = key then w' else x) (th_order t))
      | None \<Rightarrow> let w' = \<lparr>w_key = key, w_start = now, w_count = 1\<rparr> in (w', makeRoom (th_order t) @ [w']))
      in (if throttle_limit t < int (w_count w) then (False, w_start w + throttle_window t - now) else (True, 0), t\<lparr>th_order := order\<rparr>))"

definition Sources :: "Throttle \<Rightarrow> nat" where
  "Sources t = length (th_order t)"

text \<open>The seconds a refused client is told to wait: a duration divided by a second, towards zero, and one more.\<close>

definition retry_seconds :: "duration \<Rightarrow> int" where
  "retry_seconds d = sgn d * (\<bar>d\<bar> div 1000000000) + 1"

section \<open>A history of attempts\<close>

text \<open>Attempts as (instant, source); what each was answered.\<close>

fun attempts :: "(instant \<times> string) list \<Rightarrow> Throttle \<Rightarrow> (instant \<times> string \<times> bool) list \<times> Throttle" where
  "attempts [] t = ([], t)"
| "attempts ((now, key) # xs) t = (let ((ok, _), t') = Allow now key t; (rs, t'') = attempts xs t' in ((now, key, ok) # rs, t''))"

definition admitted_within :: "string \<Rightarrow> instant \<Rightarrow> duration \<Rightarrow> (instant \<times> string \<times> bool) list \<Rightarrow> nat" where
  "admitted_within key a d rs = length (filter (\<lambda>(now, k, ok). ok \<and> k = key \<and> a \<le> now \<and> now < a + d) rs)"

definition throttle_ok :: "Throttle \<Rightarrow> bool" where
  "throttle_ok t = (distinct (map w_key (th_order t)) \<and> length (th_order t) \<le> throttleMaxSources)"

section \<open>Lemmas\<close>

lemma throttle_positive: "0 < throttle_limit t" "0 < throttle_window t"
  by (simp_all add: throttle_limit_def throttle_window_def DefaultLoginAttempts_def DefaultLoginWindow_def)

lemma makeRoom_suffix: "\<exists>n. makeRoom ws = drop n ws"
proof (induction ws)
  case (Cons w ws)
  then obtain n where "makeRoom ws = drop n ws" ..
  then show ?case by (auto intro: exI [of _ "Suc n"] exI [of _ 0])
qed simp

lemma makeRoom_length: "length (makeRoom ws) < throttleMaxSources"
  by (induction ws) (auto simp: throttleMaxSources_def)

lemma makeRoom_keeps: "length ws < throttleMaxSources \<Longrightarrow> makeRoom ws = ws"
  by (cases ws) simp_all

lemma makeRoom_distinct: "distinct (map w_key ws) \<Longrightarrow> distinct (map w_key (makeRoom ws))"
  using makeRoom_suffix [of ws] by (auto simp flip: drop_map)

lemma makeRoom_subset: "set (makeRoom ws) \<subseteq> set ws"
  using makeRoom_suffix [of ws] by (auto dest: in_set_dropD)

lemma Allow_config [simp]: "throttle_limit (snd (Allow now key t)) = throttle_limit t" "throttle_window (snd (Allow now key t)) = throttle_window t"
  by (simp_all add: Allow_def throttle_limit_def throttle_window_def case_prod_beta)

text \<open>The window an attempt is counted in.\<close>

definition window_of :: "string \<Rightarrow> Throttle \<Rightarrow> window option" where
  "window_of key t = find (\<lambda>w. w_key w = key) (th_order t)"

definition counted :: "instant \<Rightarrow> string \<Rightarrow> Throttle \<Rightarrow> window" where
  "counted now key t = (case window_of key t of
     Some w \<Rightarrow> if throttle_window t \<le> now - w_start w then w\<lparr>w_start := now, w_count := 1\<rparr> else w\<lparr>w_count := w_count w + 1\<rparr>
   | None \<Rightarrow> \<lparr>w_key = key, w_start = now, w_count = 1\<rparr>)"

lemma Allow_answer:
  "fst (Allow now key t) = (if throttle_limit t < int (w_count (counted now key t))
     then (False, w_start (counted now key t) + throttle_window t - now) else (True, 0))"
  by (simp add: Allow_def counted_def window_of_def Let_def split: option.split)

lemma Allow_order:
  "th_order (snd (Allow now key t)) = (case window_of key t of
     Some w \<Rightarrow> if throttle_window t \<le> now - w_start w then filter (\<lambda>x. w_key x \<noteq> key) (th_order t) @ [counted now key t]
       else map (\<lambda>x. if w_key x = key then counted now key t else x) (th_order t)
   | None \<Rightarrow> makeRoom (th_order t) @ [counted now key t])"
  by (simp add: Allow_def counted_def window_of_def Let_def split: option.split)

lemma counted_key [simp]: "w_key (counted now key t) = key"
  by (auto simp: counted_def window_of_def find_Some_iff split: option.split)

lemma window_of_NoneD: "window_of key t = None \<Longrightarrow> key \<notin> w_key ` set (th_order t)"
  by (auto simp: window_of_def find_None_iff)

lemma find_other_map: "(\<And>x. w_key (f x) = w_key x) \<Longrightarrow> (\<And>x. w_key x = k \<Longrightarrow> f x = x) \<Longrightarrow> find (\<lambda>w. w_key w = k) (map f ws) = find (\<lambda>w. w_key w = k) ws"
  by (induction ws) auto

lemma find_other_filter: "k \<noteq> key \<Longrightarrow> find (\<lambda>w. w_key w = k) (filter (\<lambda>x. w_key x \<noteq> key) ws) = find (\<lambda>w. w_key w = k) ws"
  by (induction ws) auto

lemma find_append_one: "find P (xs @ [y]) = (case find P xs of Some x \<Rightarrow> Some x | None \<Rightarrow> if P y then Some y else None)"
  by (induction xs) auto

lemma find_key_absent: "key \<notin> w_key ` set ws \<Longrightarrow> find (\<lambda>w. w_key w = key) ws = None"
  by (auto simp: find_None_iff)

lemma find_replaced:
  assumes "find (\<lambda>w. w_key w = key) ws = Some w" and "w_key v = key"
  shows "find (\<lambda>w. w_key w = key) (map (\<lambda>x. if w_key x = key then v else x) ws) = Some v"
  using assms by (induction ws) (auto split: if_splits)

text \<open>After an attempt its source has the window it was counted in.\<close>

lemma window_of_counted: "window_of key (snd (Allow now key t)) = Some (counted now key t)"
proof (cases "window_of key t")
  case None
  then have "key \<notin> w_key ` set (makeRoom (th_order t))" using window_of_NoneD makeRoom_subset by blast
  then show ?thesis using None by (simp add: window_of_def [of key "snd _"] Allow_order find_append_one find_key_absent)
next
  case (Some w)
  have absent: "find (\<lambda>w. w_key w = key) (filter (\<lambda>x. w_key x \<noteq> key) (th_order t)) = None" by (auto simp: find_None_iff)
  show ?thesis using Some find_replaced [OF Some [unfolded window_of_def], of "counted now key t"]
    by (simp add: window_of_def [of key "snd _"] Allow_order find_append_one absent)
qed

text \<open>A table with room loses no source.\<close>

lemma window_of_other:
  assumes "k \<noteq> key" and "window_of key t = None \<Longrightarrow> length (th_order t) < throttleMaxSources"
  shows "window_of k (snd (Allow now key t)) = window_of k t"
proof (cases "window_of key t")
  case None
  then show ?thesis using assms by (simp add: window_of_def [of k] Allow_order find_append_one makeRoom_keeps split: option.split)
next
  case (Some w)
  have "find (\<lambda>w. w_key w = k) (map (\<lambda>x. if w_key x = key then counted now key t else x) (th_order t)) = find (\<lambda>w. w_key w = k) (th_order t)"
    by (rule find_other_map) (use assms(1) in auto)
  then show ?thesis using Some assms(1)
    by (auto simp: window_of_def [of k] Allow_order find_append_one find_other_filter split: option.split)
qed

lemma map_key_replaced: "w_key v = key \<Longrightarrow> map (w_key \<circ> (\<lambda>x. if w_key x = key then v else x)) ws = map w_key ws"
  by (induction ws) auto

lemma Allow_ok: "throttle_ok t \<Longrightarrow> throttle_ok (snd (Allow now key t))"
proof -
  assume ok: "throttle_ok t"
  show ?thesis
  proof (cases "window_of key t")
    case None
    have "key \<notin> w_key ` set (makeRoom (th_order t))" using window_of_NoneD [OF None] makeRoom_subset by blast
    then show ?thesis using ok None makeRoom_length [of "th_order t"] makeRoom_distinct [of "th_order t"]
      by (simp add: throttle_ok_def Allow_order Suc_le_eq)
  next
    case (Some w)
    then have "w \<in> set (th_order t)" "w_key w = key" by (auto simp: window_of_def find_Some_iff)
    then have "length (filter (\<lambda>x. w_key x \<noteq> key) (th_order t)) < length (th_order t)" by (intro length_filter_less [of w]) simp_all
    then show ?thesis using ok Some
      by (auto simp: throttle_ok_def Allow_order map_key_replaced distinct_map_filter)
  qed
qed

lemma Allow_keys: "w_key ` set (th_order (snd (Allow now key t))) \<subseteq> insert key (w_key ` set (th_order t))"
  using makeRoom_subset [of "th_order t"] by (auto simp: Allow_order split: option.splits if_splits)

lemma room_left:
  assumes "throttle_ok t" and "finite K" and "card K \<le> throttleMaxSources" and "w_key ` set (th_order t) \<subseteq> K" and "key \<in> K" and "window_of key t = None"
  shows "length (th_order t) < throttleMaxSources"
proof -
  have "length (th_order t) = card (w_key ` set (th_order t))"
    using assms(1) by (metis throttle_ok_def distinct_card length_map set_map)
  also have "\<dots> < card K" using assms(2,4,5) window_of_NoneD [OF assms(6)] by (intro psubset_card_mono) auto
  finally show ?thesis using assms(3) by simp
qed

text \<open>What is left of a source's budget for the interval of one window's length from \<open>a\<close> on.\<close>

definition budget :: "instant \<Rightarrow> string \<Rightarrow> Throttle \<Rightarrow> nat" where
  "budget a key t = (let limit = nat (throttle_limit t) in case window_of key t of
     None \<Rightarrow> 2 * limit
   | Some w \<Rightarrow> if a + throttle_window t \<le> w_start w then 0 else if a \<le> w_start w then limit - w_count w
       else if a < w_start w + throttle_window t then (limit - w_count w) + limit else 2 * limit)"

lemma budget_after:
  "budget a key (snd (Allow now key t)) = (let w = counted now key t; limit = nat (throttle_limit t) in
     if a + throttle_window t \<le> w_start w then 0 else if a \<le> w_start w then limit - w_count w else if a < w_start w + throttle_window t then (limit - w_count w) + limit else 2 * limit)"
  by (simp add: budget_def window_of_counted Let_def)

lemma budget_step:
  assumes "\<And>w. window_of key t = Some w \<Longrightarrow> w_start w \<le> now"
  shows "(if fst (fst (Allow now key t)) \<and> a \<le> now \<and> now < a + throttle_window t then 1 else 0) + budget a key (snd (Allow now key t)) \<le> budget a key t"
proof -
  define L where "L = nat (throttle_limit t)"
  define W where "W = throttle_window t"
  define w where "w = counted now key t"
  have pos: "0 < L" "0 < W" using throttle_positive [of t] by (simp_all add: L_def W_def)
  have answer: "fst (fst (Allow now key t)) \<longleftrightarrow> w_count w \<le> L" using throttle_positive(1) [of t] by (auto simp: Allow_answer L_def w_def)
  have after: "budget a key (snd (Allow now key t)) = (if a + W \<le> w_start w then 0 else if a \<le> w_start w then L - w_count w else if a < w_start w + W then (L - w_count w) + L else 2 * L)"
    by (simp add: budget_after L_def W_def w_def Let_def)
  show ?thesis
  proof (cases "window_of key t")
    case None
    then have "w_start w = now" "w_count w = 1" "budget a key t = 2 * L" by (simp_all add: w_def counted_def budget_def L_def)
    then show ?thesis using pos unfolding answer after W_def [symmetric] by auto
  next
    case (Some v)
    then have before: "budget a key t = (if a + W \<le> w_start v then 0 else if a \<le> w_start v then L - w_count v else if a < w_start v + W then (L - w_count v) + L else 2 * L)"
      by (simp add: budget_def L_def W_def Let_def)
    have "w_start w = (if W \<le> now - w_start v then now else w_start v)" "w_count w = (if W \<le> now - w_start v then 1 else w_count v + 1)"
      using Some by (simp_all add: w_def counted_def W_def)
    then show ?thesis using pos assms [OF Some] unfolding answer after before W_def [symmetric] by auto
  qed
qed

lemma budget_other:
  assumes "key \<noteq> k" and "window_of k t = None \<Longrightarrow> length (th_order t) < throttleMaxSources"
  shows "budget a key (snd (Allow now k t)) = budget a key t"
  using window_of_other [OF assms] by (simp add: budget_def Let_def split: option.split)

lemma attempts_Cons:
  "fst (attempts ((now, key) # xs) t) = (now, key, fst (fst (Allow now key t))) # fst (attempts xs (snd (Allow now key t)))"
  "snd (attempts ((now, key) # xs) t) = snd (attempts xs (snd (Allow now key t)))"
  by (simp_all add: Let_def case_prod_beta)

declare attempts.simps(2) [simp del]

lemma attempts_ok: "throttle_ok t \<Longrightarrow> throttle_ok (snd (attempts xs t))"
  by (induction xs arbitrary: t) (auto simp: attempts_Cons Allow_ok)

lemma Allow_starts:
  assumes "\<forall>w\<in>set (th_order t). w_start w \<le> now"
  shows "\<forall>w\<in>set (th_order (snd (Allow now key t))). w_start w \<le> now"
proof -
  have "w_start (counted now key t) \<le> now"
    using assms by (auto simp: counted_def window_of_def find_Some_iff split: option.split)
  then show ?thesis using assms makeRoom_subset [of "th_order t"] by (auto simp: Allow_order split: option.splits if_splits)
qed

lemma admitted_bound:
  assumes "throttle_ok t" and "finite K" and "card K \<le> throttleMaxSources" and "w_key ` set (th_order t) \<subseteq> K" and "snd ` set xs \<subseteq> K"
    and "sorted (map fst xs)" and "\<forall>w\<in>set (th_order t). \<forall>x\<in>set xs. w_start w \<le> fst x"
  shows "admitted_within key a (throttle_window t) (fst (attempts xs t)) \<le> budget a key t"
  using assms
proof (induction xs arbitrary: t)
  case (Cons x xs)
  obtain now k where x: "x = (now, k)" by force
  have k: "k \<in> K" using Cons.prems(5) x by auto
  have sub: "w_key ` set (th_order (snd (Allow now k t))) \<subseteq> K" using Allow_keys [of now k t] Cons.prems(4) k by auto
  have started: "\<forall>w\<in>set (th_order t). w_start w \<le> now" using Cons.prems(7) x by auto
  have "\<forall>w\<in>set (th_order (snd (Allow now k t))). \<forall>y\<in>set xs. w_start w \<le> fst y"
    using Allow_starts [OF started, of k] Cons.prems(6) x by fastforce
  then have ih: "admitted_within key a (throttle_window t) (fst (attempts xs (snd (Allow now k t)))) \<le> budget a key (snd (Allow now k t))"
    using Cons.IH [OF Allow_ok [OF Cons.prems(1)] assms(2,3) sub] Cons.prems(5,6) by auto
  have room: "window_of k t = None \<Longrightarrow> length (th_order t) < throttleMaxSources"
    by (rule room_left [OF Cons.prems(1) assms(2,3) Cons.prems(4) k])
  have "w_start w \<le> now" if "window_of key t = Some w" for w
    using that started by (auto simp: window_of_def find_Some_iff)
  note step = budget_step [of key t now a, OF this]
  show ?case
  proof (cases "k = key")
    case True
    then show ?thesis using ih step unfolding x by (auto simp: attempts_Cons admitted_within_def)
  next
    case False
    then show ?thesis using ih budget_other [of key k t a now] room unfolding x by (auto simp: attempts_Cons admitted_within_def)
  qed
qed (simp add: admitted_within_def)

section \<open>Properties\<close>

text \<open>\<^bold>\<open>C25\<close>: The table of the login throttle never holds more than 4096 sources, each once, however many
  distinct sources arrive and whatever the clock does. While no more than 4096 sources have tried
  and the clock does not go back, at most twice the limit of attempts from any one source pass in any span of one window's
  length: a fixed window can be met at its end and at the start of the next, but not more.
\<close>

theorem throttle_brakes:
  assumes "th_order t = []"
  shows "throttle_ok (snd (attempts xs t)) \<and> Sources (snd (attempts xs t)) \<le> 4096 \<and>
    (card (snd ` set xs) \<le> 4096 \<and> sorted (map fst xs) \<longrightarrow> int (admitted_within key a (throttle_window t) (fst (attempts xs t))) \<le> 2 * throttle_limit t)"
proof -
  have ok: "throttle_ok t" using assms by (simp add: throttle_ok_def)
  have "budget a key t = 2 * nat (throttle_limit t)" using assms by (simp add: budget_def window_of_def)
  then show ?thesis
    using attempts_ok [OF ok, of xs] admitted_bound [OF ok, of "snd ` set xs" xs key a] assms throttle_positive(1) [of t]
    by (auto simp: throttle_ok_def Sources_def throttleMaxSources_def)
qed

theorem throttle_brakes_witness:
  "int (admitted_within ''10.0.0.1'' 0 (throttle_window \<lparr>th_limit = 2, th_window = 60, th_order = []\<rparr>)
     (fst (attempts [(50, ''10.0.0.1''), (51, ''10.0.0.1''), (52, ''10.0.0.1''), (53, ''10.0.0.1''), (54, ''10.0.0.1'')] \<lparr>th_limit = 2, th_window = 60, th_order = []\<rparr>))) \<le> 4"
  using throttle_brakes [of "\<lparr>th_limit = 2, th_window = 60, th_order = []\<rparr>"
      "[(50, ''10.0.0.1''), (51, ''10.0.0.1''), (52, ''10.0.0.1''), (53, ''10.0.0.1''), (54, ''10.0.0.1'')]" "''10.0.0.1''" 0]
  by (simp add: throttle_limit_def)

text \<open>A refused source is told a positive wait, within one window, and the instant the wait names opens a new window.\<close>

lemma refused_until_next_window:
  assumes "Allow now key t = ((False, d), t')" and "\<And>w. window_of key t = Some w \<Longrightarrow> w_start w \<le> now"
  shows "0 < d \<and> d \<le> throttle_window t \<and> d < retry_seconds d * 1000000000 \<and> fst (Allow (now + d) key t') = (True, 0)"
proof -
  let ?w = "counted now key t"
  have r: "throttle_limit t < int (w_count ?w)" "d = w_start ?w + throttle_window t - now" "t' = snd (Allow now key t)"
    using assms(1) Allow_answer [of now key t] by (auto split: if_splits)
  have l: "1 \<le> throttle_limit t" using throttle_positive(1) [of t] by simp
  then have s: "w_start ?w \<le> now" "now < w_start ?w + throttle_window t"
    using r(1) assms(2) throttle_positive(2) [of t] by (auto simp: counted_def split: option.splits if_splits)
  have "counted (now + d) key t' = ?w\<lparr>w_start := now + d, w_count := 1\<rparr>"
    using r(2) Allow_config(2) [of now key t] unfolding r(3) counted_def [of "now + d"] window_of_counted by simp
  moreover have "throttle_limit t' = throttle_limit t" using r(3) by simp
  ultimately have "fst (Allow (now + d) key t') = (True, 0)" using l by (simp add: Allow_answer)
  moreover have "d < retry_seconds d * 1000000000" if "0 < d" using that by (simp add: retry_seconds_def)
  ultimately show ?thesis using s r(2) by simp
qed

end
