(* ===== verification/Surface.thy ===== *)
theory Surface
  imports Operators Throttle
begin

text \<open>
  The operator surface, \<^verbatim>\<open>internal/api\<close>: problem documents, the router, the origin guard, the login
  throttle and the authentication middleware in the order \<^verbatim>\<open>Server.Surface\<close> composes them, and the
  endpoints of sessions, of the operator and of operator tokens. The other endpoints are the parameter
  \<open>rest\<close>, as is the state they work on, so what is shown of the middleware holds whatever they do.
  Reading a JSON document from a body, \<^verbatim>\<open>url.Parse\<close>, case folding of host names and the format of
  timestamps are parameters. A request is as \<^verbatim>\<open>net/http\<close> parsed it: its path, its header values, the
  empty text where a header is absent, its cookies and its query.
\<close>

section \<open>Requests and responses\<close>

definition APIPrefix :: string where "APIPrefix = ''/api/v1''"
definition SessionCookie :: string where "SessionCookie = ''innerwall_session''"

record Request =
  rq_method :: string
  rq_path :: string
  rq_host :: string
  rq_remote_addr :: string
  rq_header :: "string \<Rightarrow> string"
  rq_cookies :: "(string \<times> string) list"
  rq_query :: "(string, string list) gomap"
  rq_body :: string

record Finding =
  fi_path :: string
  fi_rule :: string
  fi_message :: string

record Problem =
  pb_type :: string
  pb_title :: string
  pb_status :: nat
  pb_detail :: string
  pb_errors :: "Finding list"
  pb_current_version :: string
  pb_expected :: "int option"
  pb_matched :: "int option"
  pb_last_seen_at :: "string option option"
  pb_retired_at :: string

definition problemTypeBase :: string where "problemTypeBase = ''urn:innerwall:problem:''"

definition plain_problem :: "string \<Rightarrow> string \<Rightarrow> nat \<Rightarrow> string \<Rightarrow> Problem" where
  "plain_problem kind title status detail = \<lparr>pb_type = problemTypeBase @ kind, pb_title = title, pb_status = status, pb_detail = detail,
     pb_errors = [], pb_current_version = [], pb_expected = None, pb_matched = None, pb_last_seen_at = None, pb_retired_at = []\<rparr>"

definition problemUnauthenticated :: Problem where
  "problemUnauthenticated = plain_problem ''unauthenticated'' ''Authentication required'' 401 []"
definition problemInternal :: Problem where
  "problemInternal = plain_problem ''internal'' ''Internal Server Error'' 500 []"
definition problemNotFound :: Problem where
  "problemNotFound = plain_problem ''not-found'' ''Not Found'' 404 []"

record Cookie =
  ck_name :: string
  ck_value :: string
  ck_path :: string
  ck_max_age :: int
  ck_http_only :: bool
  ck_secure :: bool
  ck_same_site_lax :: bool

record Me =
  me_display_name :: "string option"
  me_site :: string
  me_gateway_address :: "string option"
  me_version :: string

record operatorTokenJSON =
  otj_id :: string
  otj_prefix :: string
  otj_name :: string
  otj_state :: string
  otj_created_at :: string
  otj_expires_at :: "string option"
  otj_revoked_at :: "string option"
  otj_last_used_at :: "string option"

datatype doc = NoBody | EmptyObject | ProblemDoc Problem | MeDoc Me | OperatorTokensDoc "operatorTokenJSON list"
  | MintedOperatorTokenDoc operatorTokenJSON string | OtherDoc string

record Response =
  rs_status :: nat
  rs_headers :: "(string \<times> string) list"
  rs_cookies :: "Cookie list"
  rs_doc :: doc

text \<open>\<open>hs\<close> and \<open>cs\<close>: the headers and cookies set before.\<close>

definition writeProblem :: "(string \<times> string) list \<Rightarrow> Cookie list \<Rightarrow> Problem \<Rightarrow> Response" where
  "writeProblem hs cs p = \<lparr>rs_status = pb_status p, rs_headers = hs @ [(''Content-Type'', ''application/problem+json''), (''Cache-Control'', ''no-store'')],
     rs_cookies = cs, rs_doc = ProblemDoc p\<rparr>"

definition writeJSONStatus :: "(string \<times> string) list \<Rightarrow> Cookie list \<Rightarrow> nat \<Rightarrow> doc \<Rightarrow> Response" where
  "writeJSONStatus hs cs status d = \<lparr>rs_status = status, rs_headers = hs @ [(''Content-Type'', ''application/json''), (''Cache-Control'', ''no-store'')],
     rs_cookies = cs, rs_doc = d\<rparr>"

definition writeJSON :: "Cookie list \<Rightarrow> doc \<Rightarrow> Response" where
  "writeJSON cs d = writeJSONStatus [] cs 200 d"

section \<open>The router\<close>

datatype Endpoint = E_createSession | E_deleteSession | E_getMe | E_getFlowsRollup | E_getFlowGaps | E_getFlows | E_getWorkloads
   | E_getWorkloadCounts | E_getWorkload | E_getRenderedPolicy | E_getWorkloadLabels | E_putWorkloadLabels | E_resendSnapshot
   | E_retireWorkload | E_listRulesets | E_createRuleset | E_getRuleset | E_putRuleset | E_deleteRuleset | E_createRule
   | E_getRule | E_putRule | E_deleteRule | E_listServices | E_createService | E_getService | E_putService | E_deleteService
   | E_listAddressGroups | E_createAddressGroup | E_getAddressGroup | E_putAddressGroup | E_deleteAddressGroup
   | E_createModeChange | E_previewSelector | E_renderDryRun | E_listProvisioningTokens | E_mintProvisioningToken
   | E_revokeProvisioningToken | E_listOperatorTokens | E_mintOperatorToken | E_revokeOperatorToken

definition mount :: "(string \<times> string \<times> Endpoint) list" where
  "mount = map (\<lambda>(m, p, h). (m, APIPrefix @ p, h)) [
     (''POST'', ''/session'', E_createSession),
     (''DELETE'', ''/session'', E_deleteSession),
     (''GET'', ''/me'', E_getMe),
     (''GET'', ''/flows/rollup'', E_getFlowsRollup),
     (''GET'', ''/flows/gaps'', E_getFlowGaps),
     (''GET'', ''/flows'', E_getFlows),
     (''GET'', ''/workloads'', E_getWorkloads),
     (''GET'', ''/workloads/counts'', E_getWorkloadCounts),
     (''GET'', ''/workloads/{id}'', E_getWorkload),
     (''GET'', ''/workloads/{id}/rendered-policy'', E_getRenderedPolicy),
     (''GET'', ''/workloads/{id}/labels'', E_getWorkloadLabels),
     (''PUT'', ''/workloads/{id}/labels'', E_putWorkloadLabels),
     (''POST'', ''/workloads/{id}/resend-snapshot'', E_resendSnapshot),
     (''POST'', ''/workloads/{id}/retire'', E_retireWorkload),
     (''GET'', ''/rulesets'', E_listRulesets),
     (''POST'', ''/rulesets'', E_createRuleset),
     (''GET'', ''/rulesets/{id}'', E_getRuleset),
     (''PUT'', ''/rulesets/{id}'', E_putRuleset),
     (''DELETE'', ''/rulesets/{id}'', E_deleteRuleset),
     (''POST'', ''/rulesets/{id}/rules'', E_createRule),
     (''GET'', ''/rulesets/{id}/rules/{rule_id}'', E_getRule),
     (''PUT'', ''/rulesets/{id}/rules/{rule_id}'', E_putRule),
     (''DELETE'', ''/rulesets/{id}/rules/{rule_id}'', E_deleteRule),
     (''GET'', ''/services'', E_listServices),
     (''POST'', ''/services'', E_createService),
     (''GET'', ''/services/{id}'', E_getService),
     (''PUT'', ''/services/{id}'', E_putService),
     (''DELETE'', ''/services/{id}'', E_deleteService),
     (''GET'', ''/address-groups'', E_listAddressGroups),
     (''POST'', ''/address-groups'', E_createAddressGroup),
     (''GET'', ''/address-groups/{id}'', E_getAddressGroup),
     (''PUT'', ''/address-groups/{id}'', E_putAddressGroup),
     (''DELETE'', ''/address-groups/{id}'', E_deleteAddressGroup),
     (''POST'', ''/mode-changes'', E_createModeChange),
     (''POST'', ''/selectors/preview'', E_previewSelector),
     (''POST'', ''/policies/render-dryrun'', E_renderDryRun),
     (''GET'', ''/provisioning-tokens'', E_listProvisioningTokens),
     (''POST'', ''/provisioning-tokens'', E_mintProvisioningToken),
     (''DELETE'', ''/provisioning-tokens/{id}'', E_revokeProvisioningToken),
     (''GET'', ''/operator-tokens'', E_listOperatorTokens),
     (''POST'', ''/operator-tokens'', E_mintOperatorToken),
     (''DELETE'', ''/operator-tokens/{id}'', E_revokeOperatorToken)]"

record route =
  rt_pattern :: string
  rt_segments :: "string list"
  rt_methods :: "(string, Endpoint) gomap"

definition router_handle :: "string \<times> string \<times> Endpoint \<Rightarrow> route list \<Rightarrow> route list" where
  "router_handle x routes = (case x of (method, pattern, h) \<Rightarrow>
     if list_ex (\<lambda>rt. rt_pattern rt = pattern) routes
     then map (\<lambda>rt. if rt_pattern rt = pattern then rt\<lparr>rt_methods := AList.update method h (rt_methods rt)\<rparr> else rt) routes
     else routes @ [\<lparr>rt_pattern = pattern, rt_segments = split_on CHR ''/'' pattern, rt_methods = [(method, h)]\<rparr>])"

definition Surface_router :: "(string \<times> string \<times> Endpoint) list \<Rightarrow> route list" where
  "Surface_router routes = fold router_handle routes []"

definition is_param :: "string \<Rightarrow> bool" where
  "is_param s = (s \<noteq> [] \<and> hd s = CHR ''{'' \<and> List.last s = CHR ''}'')"

fun match_segments :: "string list \<Rightarrow> string list \<Rightarrow> (string, string) gomap \<Rightarrow> (string, string) gomap option" where
  "match_segments [] [] params = Some params"
| "match_segments (want # ws) (got # gs) params =
     (if is_param want then if got = [] then None else match_segments ws gs (AList.update (butlast (tl want)) got params)
      else if got \<noteq> want then None else match_segments ws gs params)"
| "match_segments _ _ params = None"

definition route_match :: "route \<Rightarrow> string \<Rightarrow> (string, string) gomap option" where
  "route_match rt path = match_segments (rt_segments rt) (split_on CHR ''/'' path) []"

definition literalness :: "route \<Rightarrow> nat" where
  "literalness rt = length (filter (\<lambda>s. \<not> starts_with ''{'' s) (rt_segments rt))"

definition better_route :: "string \<Rightarrow> route \<Rightarrow> (route \<times> (string, string) gomap) option \<Rightarrow> (route \<times> (string, string) gomap) option" where
  "better_route path rt best = (case route_match rt path of
     None \<Rightarrow> best
   | Some p \<Rightarrow> (case best of None \<Rightarrow> Some (rt, p) | Some (b, _) \<Rightarrow> if literalness b < literalness rt then Some (rt, p) else best))"

datatype routed = NoRoute | WrongMethod "string list" | Routed Endpoint "(string, string) gomap"

definition router_ServeHTTP :: "route list \<Rightarrow> string \<Rightarrow> string \<Rightarrow> routed" where
  "router_ServeHTTP routes method path = (case fold (better_route path) routes None of
     None \<Rightarrow> NoRoute
   | Some (rt, params) \<Rightarrow> (case map_of (rt_methods rt) method of
       Some h \<Rightarrow> Routed h params
     | None \<Rightarrow> WrongMethod (sort (map fst (rt_methods rt)))))"

definition RouteNames :: "(string \<times> string \<times> Endpoint) list \<Rightarrow> string list" where
  "RouteNames routes = sort (concat (map (\<lambda>rt. map (\<lambda>(m, h). m @ '' '' @ rt_pattern rt) (rt_methods rt)) (Surface_router routes)))"

section \<open>Handlers and what they meet\<close>

text \<open>A body read as one JSON document of the expected shape; \<open>MoreThanOne\<close>: another document follows it.\<close>

datatype 'a decoded = NotADocument | MoreThanOne | Document 'a

record env =
  en_sha :: "string \<Rightarrow> string"
  en_argon :: argon2
  en_ttl :: duration
  en_clock :: instant
  en_now :: instant
  en_found :: bool
  en_recorded :: bool
  en_named :: bool
  en_written :: bool
  en_raw :: "string option"
  en_fresh :: uuid
  en_site :: string
  en_gateway :: string
  en_version :: string
  en_timestamp :: "instant \<Rightarrow> string"
  en_url :: "string \<Rightarrow> (string \<times> string) option"
  en_fold :: "string \<Rightarrow> string \<Rightarrow> bool"
  en_uuid :: "string \<Rightarrow> uuid option"
  en_password_doc :: "string \<Rightarrow> string decoded"
  en_token_doc :: "string \<Rightarrow> (string \<times> int) decoded"

text \<open>What the request's context carries: the principal, the identifier of the session it authenticated with, and the path parameters.\<close>

record Context =
  cx_principal :: "Principal option"
  cx_session :: string
  cx_params :: "(string, string) gomap"

definition empty_context :: Context where
  "empty_context = \<lparr>cx_principal = None, cx_session = [], cx_params = []\<rparr>"

record 'w surface =
  sf_db :: operator_db
  sf_throttle :: Throttle
  sf_rest :: 'w

type_synonym 'w handler = "Context \<Rightarrow> Request \<Rightarrow> 'w surface \<Rightarrow> Response \<times> 'w surface"

section \<open>The origin guard\<close>

definition crossOrigin :: "env \<Rightarrow> Request \<Rightarrow> string \<times> bool" where
  "crossOrigin en r = (if rq_method r \<in> {''GET'', ''HEAD'', ''OPTIONS''} then ([], True)
     else let site = rq_header r ''Sec-Fetch-Site'' in
       if site \<notin> {[], ''same-origin'', ''none''} then (''request was made from a '' @ site @ '' site'', False)
       else let origin = rq_header r ''Origin'' in
         if origin = [] then ([], True)
         else case en_url en origin of
           None \<Rightarrow> (''request origin does not match this listener'', False)
         | Some (scheme, host) \<Rightarrow> if scheme \<noteq> ''https'' \<or> \<not> en_fold en host (rq_host r)
             then (''request origin does not match this listener'', False) else ([], True))"

definition CrossOriginGuard :: "env \<Rightarrow> 'w handler \<Rightarrow> 'w handler" where
  "CrossOriginGuard en next cx r st = (case crossOrigin en r of (reason, ok) \<Rightarrow>
     if \<not> ok then (writeProblem [] [] (plain_problem ''cross-origin'' ''Cross-origin request refused'' 403 reason), st)
     else next cx r st)"

section \<open>The throttle in front of the login\<close>

text \<open>\<^verbatim>\<open>net.SplitHostPort\<close>: the host part, when the address has that form.\<close>

definition SplitHost :: "string \<Rightarrow> string option" where
  "SplitHost s = (case cut_last CHR '':'' s of
     None \<Rightarrow> None
   | Some (before, port) \<Rightarrow>
      if starts_with ''['' s
      then (case cut CHR '']'' s of (inner, after, found) \<Rightarrow>
        if \<not> found \<or> after \<noteq> CHR '':'' # port then None
        else if CHR ''['' \<in> set (tl s) \<or> CHR '']'' \<in> set after then None else Some (tl inner))
      else if CHR '':'' \<in> set before \<or> CHR ''['' \<in> set s \<or> CHR '']'' \<in> set s then None
      else Some before)"

definition sourceAddress :: "Request \<Rightarrow> string" where
  "sourceAddress r = (case SplitHost (rq_remote_addr r) of None \<Rightarrow> rq_remote_addr r | Some host \<Rightarrow> host)"

definition Throttle_Middleware :: "env \<Rightarrow> 'w handler \<Rightarrow> 'w handler" where
  "Throttle_Middleware en next cx r st = (if rq_method r \<noteq> ''POST'' \<or> rq_path r \<noteq> APIPrefix @ ''/session'' then next cx r st
     else case Allow (en_clock en) (sourceAddress r) (sf_throttle st) of ((ok, retryAfter), t) \<Rightarrow>
       let st = st\<lparr>sf_throttle := t\<rparr> in
       if \<not> ok then (writeProblem [(''Retry-After'', show_int (retry_seconds retryAfter))] []
           (plain_problem ''too-many-attempts'' ''Too many login attempts'' 429 ''wait before trying again''), st)
       else next cx r st)"

section \<open>Authentication\<close>

definition publicRoutes :: "string list" where
  "publicRoutes = [''POST'' @ '' '' @ APIPrefix @ ''/session'']"

definition sessionCookie :: "string \<Rightarrow> duration \<Rightarrow> Cookie" where
  "sessionCookie k ttl = \<lparr>ck_name = SessionCookie, ck_value = k, ck_path = ''/'', ck_max_age = sgn ttl * (\<bar>ttl\<bar> div 1000000000),
     ck_http_only = True, ck_secure = True, ck_same_site_lax = True\<rparr>"

definition clearSessionCookie :: Cookie where
  "clearSessionCookie = (sessionCookie [] 0)\<lparr>ck_max_age := -1\<rparr>"

definition request_cookie :: "string \<Rightarrow> Request \<Rightarrow> string option" where
  "request_cookie name r = map_option snd (find (\<lambda>(n, v). n = name) (rq_cookies r))"

definition authenticator :: "env \<Rightarrow> Verifier list" where
  "authenticator en = NewAuthenticator (en_sha en) (en_argon en) (en_found en) (en_recorded en) (en_named en) (en_now en)"

text \<open>
  No credential is \<open>None\<close> for the error. The scheme is compared without regard to case, which for these
  letters is that of ASCII.
\<close>

definition authenticate_request :: "env \<Rightarrow> Request \<Rightarrow> operator_db \<Rightarrow> (operator_error option, Principal \<times> string) result \<times> operator_db" where
  "authenticate_request en r db = (let auth = rq_header r ''Authorization'' in
     if auth \<noteq> [] then
       (case cut CHR '' '' auth of (scheme, token, ok) \<Rightarrow>
         if \<not> ok \<or> map ascii_lower scheme \<noteq> ''bearer'' \<or> trim_space token = [] then (Inl (Some ErrTokenMalformed), db)
         else case Chain_Verify (authenticator en) \<lparr>cred_form = FormOperatorToken, cred_secret = trim_space token\<rparr> db of
             (Inl e, db) \<Rightarrow> (Inl (Some e), db)
           | (Inr p, db) \<Rightarrow> (Inr (p, []), db))
     else (case request_cookie SessionCookie r of
         None \<Rightarrow> (Inl None, db)
       | Some k \<Rightarrow> if k = [] then (Inl None, db)
           else case Chain_Verify (authenticator en) \<lparr>cred_form = FormSession, cred_secret = k\<rparr> db of
               (Inl e, db) \<Rightarrow> (Inl (Some e), db)
             | (Inr p, db) \<Rightarrow> (Inr (p, k), db)))"

definition bearer_challenge :: "string \<times> string" where
  "bearer_challenge = (''WWW-Authenticate'', ''Bearer realm='' @ dq @ ''innerwall'' @ dq)"

definition Auth_Middleware :: "env \<Rightarrow> 'w handler \<Rightarrow> 'w handler" where
  "Auth_Middleware en next cx r st = (if rq_method r @ '' '' @ rq_path r \<in> set publicRoutes then next cx r st
     else case authenticate_request en r (sf_db st) of
       (Inl e, db) \<Rightarrow> (writeProblem [bearer_challenge]
           (case request_cookie SessionCookie r of Some k \<Rightarrow> if k \<noteq> [] then [clearSessionCookie] else [] | None \<Rightarrow> []) problemUnauthenticated,
         st\<lparr>sf_db := db\<rparr>)
     | (Inr (p, k), db) \<Rightarrow> next (cx\<lparr>cx_principal := Some p, cx_session := if k \<noteq> [] then k else cx_session cx\<rparr>) r (st\<lparr>sf_db := db\<rparr>))"

definition EndSession :: "env \<Rightarrow> Context \<Rightarrow> operator_db \<Rightarrow> (operator_error, operator_db) result" where
  "EndSession en cx db = (if cx_session cx \<noteq> [] then SessionMinter_End (en_sha en) (en_written en) (cx_session cx) db else Inr db)"

section \<open>The endpoints of sessions and the operator\<close>

definition decodeJSON :: "'a decoded \<Rightarrow> (Problem, 'a) result" where
  "decodeJSON d = (case d of
     NotADocument \<Rightarrow> Inl (plain_problem ''invalid-request'' ''Invalid request body'' 400 ''the body is not a JSON document of the expected shape'')
   | MoreThanOne \<Rightarrow> Inl (plain_problem ''invalid-request'' ''Invalid request body'' 400 ''the body holds more than one document'')
   | Document x \<Rightarrow> Inr x)"

definition server_me :: "env \<Rightarrow> Principal option \<Rightarrow> Me" where
  "server_me en p = \<lparr>me_display_name = (case p of None \<Rightarrow> None | Some p \<Rightarrow> pr_display_name p), me_site = en_site en,
     me_gateway_address = (if en_gateway en = [] then None else Some (en_gateway en)), me_version = en_version en\<rparr>"

definition createSession :: "env \<Rightarrow> 'w handler" where
  "createSession en cx r st = (case decodeJSON (en_password_doc en (rq_body r)) of
     Inl p \<Rightarrow> (writeProblem [] [] p, st)
   | Inr password \<Rightarrow> (case Chain_Verify (authenticator en) \<lparr>cred_form = FormPassword, cred_secret = password\<rparr> (sf_db st) of
       (Inl ErrNoOperator, db) \<Rightarrow> (writeProblem [] [] (plain_problem ''no-password'' ''No operator password has been set'' 403
           ''no operator password has been set; run `innerwall operator set-password` on the control-plane host''), st\<lparr>sf_db := db\<rparr>)
     | (Inl ErrPasswordMismatch, db) \<Rightarrow> (writeProblem [bearer_challenge] []
           (plain_problem ''invalid-credentials'' ''Invalid credentials'' 401 ''the password is not correct''), st\<lparr>sf_db := db\<rparr>)
     | (Inl e, db) \<Rightarrow> (writeProblem [] [] problemInternal, st\<lparr>sf_db := db\<rparr>)
     | (Inr p, db) \<Rightarrow> (case SessionMinter_Mint (en_sha en) (en_ttl en) (en_raw en) (en_written en) (en_now en) db of
         Inl e \<Rightarrow> (writeProblem [] [] problemInternal, st\<lparr>sf_db := db\<rparr>)
       | Inr (sess, db) \<Rightarrow> (writeJSON [sessionCookie (ms_id sess) (ms_lifetime sess)] (MeDoc (server_me en (Some p))), st\<lparr>sf_db := db\<rparr>))))"

definition deleteSession :: "env \<Rightarrow> 'w handler" where
  "deleteSession en cx r st = (case EndSession en cx (sf_db st) of
     Inl e \<Rightarrow> (writeProblem [] [] problemInternal, st)
   | Inr db \<Rightarrow> (writeJSON [clearSessionCookie] EmptyObject, st\<lparr>sf_db := db\<rparr>))"

definition getMe :: "env \<Rightarrow> 'w handler" where
  "getMe en cx r st = (case cx_principal cx of
     None \<Rightarrow> (writeProblem [] [] problemUnauthenticated, st)
   | Some p \<Rightarrow> (writeJSON [] (MeDoc (server_me en (Some p))), st))"

section \<open>The endpoints of operator tokens\<close>

text \<open>\<^verbatim>\<open>time.Duration(in.TTLSeconds) * time.Second\<close>, in 64 bits.\<close>

definition operatorTokenInput_ttl :: "int \<Rightarrow> duration" where
  "operatorTokenInput_ttl seconds = sint (word_of_int (seconds * 1000000000) :: 64 word)"

definition tokenState :: "operator_error option \<Rightarrow> string" where
  "tokenState e = (case e of
     None \<Rightarrow> ''valid''
   | Some e \<Rightarrow> if e = ErrTokenRevoked then ''revoked'' else if e = ErrTokenExpired then ''expired'' else ''invalid'')"

definition operatorTokenJSONOf :: "env \<Rightarrow> OperatorToken \<Rightarrow> instant \<Rightarrow> operatorTokenJSON" where
  "operatorTokenJSONOf en t now = \<lparr>otj_id = ot_id t, otj_prefix = ot_prefix t, otj_name = ot_name t, otj_state = tokenState (OperatorToken_Check (Some t) now),
     otj_created_at = en_timestamp en (ot_created_at t), otj_expires_at = map_option (en_timestamp en) (ot_expires_at t),
     otj_revoked_at = map_option (en_timestamp en) (ot_revoked_at t), otj_last_used_at = map_option (en_timestamp en) (ot_last_used_at t)\<rparr>"

text \<open>What the operator domain's errors become here.\<close>

definition tokenProblem :: "operator_error \<Rightarrow> Problem" where
  "tokenProblem e = (if e = ErrTokenUnknown then problemNotFound
     else if e = ErrTokenRevoked then plain_problem ''already-revoked'' ''Conflict'' 409 ''the token is already revoked''
     else problemInternal)"

definition listOperatorTokens :: "env \<Rightarrow> 'w handler" where
  "listOperatorTokens en cx r st = (case ListTokens (en_found en) (sf_db st) of
     Inl e \<Rightarrow> (writeProblem [] [] (tokenProblem e), st)
   | Inr tokens \<Rightarrow> (writeJSON [] (OperatorTokensDoc (map (\<lambda>t. operatorTokenJSONOf en t (en_now en)) tokens)), st))"

definition mintOperatorToken :: "env \<Rightarrow> 'w handler" where
  "mintOperatorToken en cx r st = (case decodeJSON (en_token_doc en (rq_body r)) of
     Inl p \<Rightarrow> (writeProblem [] [] p, st)
   | Inr (name, seconds) \<Rightarrow> (case MintOperatorToken (en_sha en) (en_raw en) (en_fresh en) (en_written en) (en_now en) name (operatorTokenInput_ttl seconds) (sf_db st) of
       Inl e \<Rightarrow> (writeProblem [] [] (tokenProblem e), st)
     | Inr (plaintext, tok, db) \<Rightarrow> (writeJSONStatus [(''Location'', APIPrefix @ ''/operator-tokens/'' @ ot_id tok)] [] 201
         (MintedOperatorTokenDoc (operatorTokenJSONOf en tok (en_now en)) plaintext), st\<lparr>sf_db := db\<rparr>)))"

definition pathParam :: "Context \<Rightarrow> string \<Rightarrow> string" where
  "pathParam cx name = (case map_of (cx_params cx) name of None \<Rightarrow> [] | Some v \<Rightarrow> v)"

definition revokeOperatorToken :: "env \<Rightarrow> 'w handler" where
  "revokeOperatorToken en cx r st = (case en_uuid en (pathParam cx ''id'') of
     None \<Rightarrow> (writeProblem [] [] problemNotFound, st)
   | Some k \<Rightarrow> (case Service_RevokeToken (en_written en) k (en_now en) (sf_db st) of
       Inl e \<Rightarrow> (writeProblem [] [] (tokenProblem e), st)
     | Inr db \<Rightarrow> (\<lparr>rs_status = 204, rs_headers = [], rs_cookies = [], rs_doc = NoBody\<rparr>, st\<lparr>sf_db := db\<rparr>)))"

section \<open>The surface\<close>

definition endpoint :: "env \<Rightarrow> (Endpoint \<Rightarrow> 'w handler) \<Rightarrow> Endpoint \<Rightarrow> 'w handler" where
  "endpoint en rest h = (case h of
     E_createSession \<Rightarrow> createSession en
   | E_deleteSession \<Rightarrow> deleteSession en
   | E_getMe \<Rightarrow> getMe en
   | E_listOperatorTokens \<Rightarrow> listOperatorTokens en
   | E_mintOperatorToken \<Rightarrow> mintOperatorToken en
   | E_revokeOperatorToken \<Rightarrow> revokeOperatorToken en
   | _ \<Rightarrow> rest h)"

definition serve_routes :: "env \<Rightarrow> (Endpoint \<Rightarrow> 'w handler) \<Rightarrow> 'w handler" where
  "serve_routes en rest cx r st = (case router_ServeHTTP (Surface_router mount) (rq_method r) (rq_path r) of
     NoRoute \<Rightarrow> (writeProblem [] [] problemNotFound, st)
   | WrongMethod allowed \<Rightarrow> (writeProblem [(''Allow'', join '', '' allowed)] [] (plain_problem ''method-not-allowed'' ''Method Not Allowed'' 405 []), st)
   | Routed h params \<Rightarrow> endpoint en rest h (if params = [] then cx else cx\<lparr>cx_params := params\<rparr>) r st)"

definition middleware :: "env \<Rightarrow> ('w handler \<Rightarrow> 'w handler) list" where
  "middleware en = [CrossOriginGuard en, Throttle_Middleware en, Auth_Middleware en]"

text \<open>The routes behind the middleware, outermost first.\<close>

definition api_handler :: "env \<Rightarrow> (Endpoint \<Rightarrow> 'w handler) \<Rightarrow> Request \<Rightarrow> 'w surface \<Rightarrow> Response \<times> 'w surface" where
  "api_handler en rest = foldr (\<lambda>wrap next. wrap next) (middleware en) (serve_routes en rest) empty_context"

text \<open>
  The listener: the routes under the prefix and the console elsewhere. \<open>redirect\<close> is the standard
  multiplexer's own answer for a path it wants in another spelling.
\<close>

definition Surface_Handler :: "env \<Rightarrow> (Endpoint \<Rightarrow> 'w handler) \<Rightarrow> (Request \<Rightarrow> Response option) \<Rightarrow> (Request \<Rightarrow> Response) \<Rightarrow> Request \<Rightarrow> 'w surface \<Rightarrow> Response \<times> 'w surface" where
  "Surface_Handler en rest redirect console r st = (case redirect r of
     Some resp \<Rightarrow> (resp, st)
   | None \<Rightarrow> if starts_with (APIPrefix @ ''/'') (rq_path r) then api_handler en rest r st else (console r, st))"

section \<open>Routing does not depend on the order of registration\<close>

lemma Surface_router_mount_me: "router_ServeHTTP (Surface_router mount) ''GET'' (APIPrefix @ ''/me'') = Routed E_getMe []"
  by code_simp

lemma Surface_router_mount_login: "router_ServeHTTP (Surface_router mount) ''POST'' (APIPrefix @ ''/session'') = Routed E_createSession []"
  by code_simp

lemma Surface_router_mount_logout: "router_ServeHTTP (Surface_router mount) ''DELETE'' (APIPrefix @ ''/session'') = Routed E_deleteSession []"
  by code_simp

text \<open>Two patterns some path can match both of, segment by segment.\<close>

fun overlap :: "string list \<Rightarrow> string list \<Rightarrow> bool" where
  "overlap [] [] = True"
| "overlap (a # p) (b # q) = ((is_param a \<or> is_param b \<or> a = b) \<and> overlap p q)"
| "overlap [] (b # q) = False"
| "overlap (a # p) [] = False"

lemma match_segments_overlap:
  "match_segments p s ps = Some xs \<Longrightarrow> match_segments q s qs = Some ys \<Longrightarrow> overlap p q"
proof (induction p q arbitrary: s ps qs rule: overlap.induct)
  case (2 a p b q)
  then obtain g gs where "s = g # gs" by (cases s) auto
  with 2 show ?case by (auto split: if_splits)
next
  case (3 b q)
  then show ?case by (cases s) auto
next
  case (4 a p)
  then show ?case by (cases s) auto
qed simp

definition literal_count :: "string \<Rightarrow> nat" where
  "literal_count p = length (filter (\<lambda>s. \<not> starts_with ''{'' s) (split_on CHR ''/'' p))"

definition unambiguous :: "string list \<Rightarrow> bool" where
  "unambiguous ps = list_all (\<lambda>p. list_all (\<lambda>q. p = q \<or> \<not> overlap (split_on CHR ''/'' p) (split_on CHR ''/'' q) \<or> literal_count p \<noteq> literal_count q) ps) ps"

lemma mount_unambiguous: "unambiguous (remdups (map (fst \<circ> snd) mount))"
  by code_simp

text \<open>What registering a list of endpoints gives: one route per pattern, with the methods of that pattern.\<close>

definition routes_of :: "(string \<times> string \<times> Endpoint) list \<Rightarrow> route list \<Rightarrow> bool" where
  "routes_of ms R = (rt_pattern ` set R = (fst \<circ> snd) ` set ms \<and> (\<forall>rt\<in>set R. rt_segments rt = split_on CHR ''/'' (rt_pattern rt) \<and>
     gomap_ok (rt_methods rt) \<and> (\<forall>m h. map_of (rt_methods rt) m = Some h \<longleftrightarrow> (m, rt_pattern rt, h) \<in> set ms)))"

lemma router_handle_routes_of:
  assumes "routes_of ms R" and "\<forall>h. (m, p, h) \<notin> set ms"
  shows "routes_of ((m, p, h) # ms) (router_handle (m, p, h) R)"
proof (cases "list_ex (\<lambda>rt. rt_pattern rt = p) R")
  case True
  let ?f = "\<lambda>rt. if rt_pattern rt = p then rt\<lparr>rt_methods := AList.update m h (rt_methods rt)\<rparr> else rt"
  have R: "router_handle (m, p, h) R = map ?f R" using True by (simp add: router_handle_def)
  have "rt_pattern ` ?f ` set R = rt_pattern ` set R" unfolding image_image by (rule image_cong) simp_all
  moreover have "p \<in> (fst \<circ> snd) ` set ms" using True assms(1) by (force simp: list_ex_iff routes_of_def)
  ultimately show ?thesis using assms unfolding R routes_of_def by (auto simp: gomap_ok_update split: if_splits)
next
  case False
  then have R: "router_handle (m, p, h) R = R @ [\<lparr>rt_pattern = p, rt_segments = split_on CHR ''/'' p, rt_methods = [(m, h)]\<rparr>]"
    by (simp add: router_handle_def)
  have "p \<notin> rt_pattern ` set R" using False by (auto simp: list_ex_iff)
  then have "p \<notin> (fst \<circ> snd) ` set ms" using assms(1) by (simp add: routes_of_def)
  then have "\<forall>m' h'. (m', p, h') \<notin> set ms" by force
  then show ?thesis using assms(1) False unfolding R routes_of_def by (auto simp: gomap_ok_def list_ex_iff)
qed

lemma fold_router_handle:
  "routes_of ns R \<Longrightarrow> distinct (map (\<lambda>(m, p, h). (m, p)) (ms @ ns)) \<Longrightarrow> routes_of (rev ms @ ns) (fold router_handle ms R)"
proof (induction ms arbitrary: ns R)
  case (Cons x ms)
  obtain m p h where x: "x = (m, p, h)" by (cases x) auto
  have "routes_of ((m, p, h) # ns) (router_handle (m, p, h) R)"
    using Cons.prems unfolding x by (intro router_handle_routes_of) force+
  moreover have "distinct (map (\<lambda>(m, p, h). (m, p)) (ms @ (m, p, h) # ns))" using Cons.prems(2) by (auto simp: x)
  ultimately show ?case using Cons.IH by (simp add: x)
qed simp

lemma Surface_router_routes_of:
  assumes "distinct (map (\<lambda>(m, p, h). (m, p)) ms)"
  shows "routes_of ms (Surface_router ms)"
proof -
  have "routes_of [] []" by (simp add: routes_of_def)
  then have "routes_of (rev ms) (Surface_router ms)" using fold_router_handle [of "[]" "[]" ms] assms by (simp add: Surface_router_def)
  then show ?thesis by (simp add: routes_of_def)
qed

text \<open>The route taken matches, and no matching route has more literal segments.\<close>

definition best_of :: "string \<Rightarrow> route set \<Rightarrow> (route \<times> (string, string) gomap) option \<Rightarrow> bool" where
  "best_of path R best = (case best of
     None \<Rightarrow> \<forall>rt\<in>R. route_match rt path = None
   | Some (b, params) \<Rightarrow> b \<in> R \<and> route_match b path = Some params \<and> (\<forall>rt\<in>R. route_match rt path \<noteq> None \<longrightarrow> literalness rt \<le> literalness b))"

lemma better_route_best: "best_of path R best \<Longrightarrow> best_of path (insert rt R) (better_route path rt best)"
  by (auto simp: best_of_def better_route_def split: option.splits)

lemma fold_better_route: "best_of path R0 best \<Longrightarrow> best_of path (R0 \<union> set R) (fold (better_route path) R best)"
proof (induction R arbitrary: R0 best)
  case (Cons rt R)
  then show ?case using Cons.IH [OF better_route_best [OF Cons.prems]] by simp
qed simp

lemma taken_best: "best_of path (set R) (fold (better_route path) R None)"
  using fold_better_route [of path "{}" None R] by (simp add: best_of_def)

lemma routes_of_match:
  "routes_of ms R \<Longrightarrow> rt \<in> set R \<Longrightarrow> route_match rt path = match_segments (split_on CHR ''/'' (rt_pattern rt)) (split_on CHR ''/'' path) [] \<and>
     literalness rt = literal_count (rt_pattern rt)"
  by (simp add: routes_of_def route_match_def literalness_def literal_count_def)

lemma taken_pattern_unique:
  assumes "unambiguous ps" and "routes_of ms R" and "routes_of ms R'" and "(fst \<circ> snd) ` set ms \<subseteq> set ps"
    and "best_of path (set R) (Some (b, xs))" and "best_of path (set R') (Some (b', xs'))"
  shows "rt_pattern b = rt_pattern b'" and "xs = xs'"
proof -
  have in_R: "b \<in> set R" "b' \<in> set R'" using assms(5,6) by (simp_all add: best_of_def)
  then obtain c c' where c: "c \<in> set R" "rt_pattern c = rt_pattern b'" "c' \<in> set R'" "rt_pattern c' = rt_pattern b"
    using assms(2,3) unfolding routes_of_def by (metis (no_types, lifting) image_eqI image_iff)
  have m: "route_match b path = Some xs" "route_match b' path = Some xs'" using assms(5,6) by (simp_all add: best_of_def)
  then have "literalness c \<le> literalness b" "literalness c' \<le> literalness b'"
    using assms(5,6) c routes_of_match [OF assms(2)] routes_of_match [OF assms(3)] in_R by (auto simp: best_of_def)
  then have "literal_count (rt_pattern b) = literal_count (rt_pattern b')"
    using c routes_of_match [OF assms(2)] routes_of_match [OF assms(3)] in_R by auto
  moreover have "overlap (split_on CHR ''/'' (rt_pattern b)) (split_on CHR ''/'' (rt_pattern b'))"
    using m routes_of_match [OF assms(2) in_R(1)] routes_of_match [OF assms(3) in_R(2)] by (auto intro: match_segments_overlap)
  moreover have "rt_pattern b \<in> set ps" "rt_pattern b' \<in> set ps" using imageI [OF in_R(1), of rt_pattern] imageI [OF in_R(2), of rt_pattern] assms(2-4) unfolding routes_of_def by blast+
  ultimately show p: "rt_pattern b = rt_pattern b'" using assms(1) by (auto simp: unambiguous_def list_all_iff)
  show "xs = xs'" using m routes_of_match [OF assms(2) in_R(1)] routes_of_match [OF assms(3) in_R(2)] p by simp
qed

lemma methods_determined:
  assumes "routes_of ms R" and "routes_of ms R'" and "b \<in> set R" and "b' \<in> set R'" and "rt_pattern b = rt_pattern b'"
  shows "map_of (rt_methods b) = map_of (rt_methods b')" and "sort (map fst (rt_methods b)) = sort (map fst (rt_methods b'))"
proof -
  have m: "map_of (rt_methods b) m = Some h \<longleftrightarrow> map_of (rt_methods b') m = Some h" for m h
    using assms by (simp add: routes_of_def)
  then show eq: "map_of (rt_methods b) = map_of (rt_methods b')" by (metis (no_types, lifting) ext not_None_eq)
  have "set (map fst (rt_methods b)) = set (map fst (rt_methods b'))"
    using arg_cong [OF eq, of dom] by (simp add: dom_map_of_conv_image_fst)
  moreover have "distinct (map fst (rt_methods b))" "distinct (map fst (rt_methods b'))"
    using assms by (simp_all add: routes_of_def gomap_ok_def)
  ultimately show "sort (map fst (rt_methods b)) = sort (map fst (rt_methods b'))"
    by (intro sorted_distinct_set_unique) simp_all
qed

lemma router_determined:
  assumes "unambiguous ps" and "(fst \<circ> snd) ` set ms \<subseteq> set ps" and "routes_of ms R" and "routes_of ms R'"
  shows "router_ServeHTTP R method path = router_ServeHTTP R' method path"
proof -
  note b = taken_best [of path R] taken_best [of path R']
  have none: "fold (better_route path) R' None = None" if k: "fold (better_route path) R None = None" "routes_of ms R" "routes_of ms R'" for R R'
  proof (rule ccontr)
    assume "fold (better_route path) R' None \<noteq> None"
    then obtain rt xs where t: "fold (better_route path) R' None = Some (rt, xs)" by auto
    then have rt: "rt \<in> set R'" "route_match rt path = Some xs" using taken_best [of path R'] by (simp_all add: best_of_def)
    then obtain c where "c \<in> set R" "rt_pattern c = rt_pattern rt" using k(2,3) unfolding routes_of_def by (metis (no_types, lifting) image_eqI image_iff)
    then show False using rt taken_best [of path R] k(1) routes_of_match [OF k(2)] routes_of_match [OF k(3)] by (auto simp: best_of_def)
  qed
  show ?thesis
  proof (cases "fold (better_route path) R None")
    case None
    then show ?thesis using none [OF None assms(3,4)] by (simp add: router_ServeHTTP_def)
  next
    case (Some x)
    then obtain y where y: "fold (better_route path) R' None = Some y" using none [OF _ assms(4,3)] by fastforce
    obtain rt xs rt' xs' where e: "x = (rt, xs)" "y = (rt', xs')" by (cases x, cases y) auto
    have p: "rt_pattern rt = rt_pattern rt'" "xs = xs'"
      using taken_pattern_unique [OF assms(1,3,4,2)] b Some y e by metis+
    have "rt \<in> set R" "rt' \<in> set R'" using b Some y e by (simp_all add: best_of_def)
    then show ?thesis using methods_determined [OF assms(3,4) _ _ p(1)] p(2) Some y e by (simp add: router_ServeHTTP_def split: option.split)
  qed
qed

text \<open>Which endpoint a request reaches does not depend on the order the endpoints were registered in:
  for every method and path, any order gives the same endpoint and parameters, the same list of
  allowed methods, or not found. No two patterns of the surface that match the same path have equally
  many literal segments, so the most specific one is always determined.
\<close>

lemma registration_order_irrelevant:
  assumes "mset ms = mset mount"
  shows "router_ServeHTTP (Surface_router ms) method path = router_ServeHTTP (Surface_router mount) method path"
proof -
  have d: "distinct (map (\<lambda>(m, p, h). (m, p)) mount)" by code_simp
  then have d': "distinct (map (\<lambda>(m, p, h). (m, p)) ms)" using assms by (metis mset_eq_imp_distinct_iff mset_map)
  have s: "set ms = set mount" using assms by (rule mset_eq_setD)
  have "routes_of mount (Surface_router ms)" using Surface_router_routes_of [OF d'] unfolding routes_of_def s .
  then show ?thesis
    using router_determined [OF mount_unambiguous _ _ Surface_router_routes_of [OF d], of "Surface_router ms"] by simp
qed

section \<open>Who is served\<close>

lemma api_handler_chain:
  "api_handler en rest r st = CrossOriginGuard en (Throttle_Middleware en (Auth_Middleware en (serve_routes en rest))) empty_context r st"
  by (simp add: api_handler_def middleware_def)

definition login_request :: "Request \<Rightarrow> bool" where
  "login_request r = (rq_method r = ''POST'' \<and> rq_path r = APIPrefix @ ''/session'')"

lemma space_split: "CHR '' '' \<notin> set q \<Longrightarrow> CHR '' '' \<notin> set n \<Longrightarrow> m @ CHR '' '' # p = n @ CHR '' '' # q \<longleftrightarrow> m = n \<and> p = q"
proof
  assume "CHR '' '' \<notin> set q" "CHR '' '' \<notin> set n" "m @ CHR '' '' # p = n @ CHR '' '' # q"
  then show "m = n \<and> p = q"
    by (smt (verit) append_Cons_eq_iff append_eq_append_conv2 append_eq_Cons_conv in_set_conv_decomp)
qed simp

lemma public_iff: "rq_method r @ CHR '' '' # rq_path r \<in> set publicRoutes \<longleftrightarrow> login_request r"
  using space_split [of "APIPrefix @ ''/session''" "''POST''" "rq_method r" "rq_path r"]
  by (simp add: publicRoutes_def login_request_def APIPrefix_def)

text \<open>
  A request with a live credential: a bearer token that is in the table, neither revoked nor expired,
  or, without an authorization header, the cookie of a session in the table that has not expired.
\<close>

definition bearer_secret :: "Request \<Rightarrow> string option" where
  "bearer_secret r = (case cut CHR '' '' (rq_header r ''Authorization'') of (scheme, token, ok) \<Rightarrow>
     if ok \<and> map ascii_lower scheme = ''bearer'' \<and> trim_space token \<noteq> [] then Some (trim_space token) else None)"

definition live_token :: "env \<Rightarrow> string \<Rightarrow> operator_db \<Rightarrow> bool" where
  "live_token en secret db = (case HashOperatorToken (en_sha en) secret of Inl e \<Rightarrow> False | Inr h \<Rightarrow>
     (case token_row h db of None \<Rightarrow> False | Some t \<Rightarrow> OperatorToken_Check (Some t) (en_now en) = None))"

definition live_session :: "env \<Rightarrow> string \<Rightarrow> operator_db \<Rightarrow> bool" where
  "live_session en k db = (case HashSessionID (en_sha en) k of Inl e \<Rightarrow> False | Inr h \<Rightarrow>
     (case session_row h db of None \<Rightarrow> False | Some s \<Rightarrow> en_now en < ses_expires_at s))"

definition live_credential :: "env \<Rightarrow> Request \<Rightarrow> operator_db \<Rightarrow> bool" where
  "live_credential en r db = (if rq_header r ''Authorization'' \<noteq> []
     then (case bearer_secret r of None \<Rightarrow> False | Some secret \<Rightarrow> live_token en secret db)
     else (case request_cookie SessionCookie r of None \<Rightarrow> False | Some k \<Rightarrow> k \<noteq> [] \<and> live_session en k db))"

lemma ValidateToken_dead:
  assumes "\<not> live_token en secret db"
  shows "\<exists>e. ValidateToken (en_sha en) found recorded named (en_now en) secret db = (Inl e, db)"
  using assms by (auto simp: live_token_def ValidateToken_def FindOperatorTokenByHash_def token_row_def split: sum.splits option.splits if_splits)

lemma ValidateSession_dead:
  assumes "\<not> live_session en k db"
  shows "\<exists>e. ValidateSession (en_sha en) found named (en_now en) k db = Inl e"
  using assms by (auto simp: live_session_def ValidateSession_def GetSession_def session_row_def Session_Check_def split: sum.splits option.splits if_splits)

lemma verify_token: "Chain_Verify (authenticator en) \<lparr>cred_form = FormOperatorToken, cred_secret = k\<rparr> db
    = ValidateToken (en_sha en) (en_found en) (en_recorded en) (en_named en) (en_now en) k db"
  and verify_session: "Chain_Verify (authenticator en) \<lparr>cred_form = FormSession, cred_secret = k\<rparr> db
    = (ValidateSession (en_sha en) (en_found en) (en_named en) (en_now en) k db, db)"
  and verify_password: "Chain_Verify (authenticator en) \<lparr>cred_form = FormPassword, cred_secret = k\<rparr> db
    = (case VerifyPassword (en_argon en) (en_found en) k db of Some e \<Rightarrow> Inl e | None \<Rightarrow> principal_of (en_named en) db, db)"
  by (simp_all add: authenticator_def Chain_Verify_forms)

lemma authenticate_bearer:
  "rq_header r ''Authorization'' \<noteq> [] \<Longrightarrow> authenticate_request en r db = (case bearer_secret r of
     None \<Rightarrow> (Inl (Some ErrTokenMalformed), db)
   | Some secret \<Rightarrow> (case ValidateToken (en_sha en) (en_found en) (en_recorded en) (en_named en) (en_now en) secret db of
       (Inl e, db) \<Rightarrow> (Inl (Some e), db) | (Inr p, db) \<Rightarrow> (Inr (p, []), db)))"
  by (simp add: authenticate_request_def bearer_secret_def verify_token Let_def split: prod.split)

lemma authenticate_cookie:
  "rq_header r ''Authorization'' = [] \<Longrightarrow> authenticate_request en r db = (case request_cookie SessionCookie r of
     None \<Rightarrow> (Inl None, db)
   | Some k \<Rightarrow> if k = [] then (Inl None, db)
       else (case ValidateSession (en_sha en) (en_found en) (en_named en) (en_now en) k db of Inl e \<Rightarrow> Inl (Some e) | Inr p \<Rightarrow> Inr (p, k), db))"
  by (simp add: authenticate_request_def verify_session Let_def split: option.split sum.split)

lemma authenticate_dead:
  assumes "\<not> live_credential en r db"
  shows "\<exists>e. authenticate_request en r db = (Inl e, db)"
proof (cases "rq_header r ''Authorization'' = []")
  case True
  show ?thesis
  proof (cases "request_cookie SessionCookie r")
    case (Some k)
    show ?thesis
    proof (cases "k = []")
      case False
      then have "\<not> live_session en k db" using assms True Some by (simp add: live_credential_def)
      from ValidateSession_dead [OF this, of "en_found en" "en_named en"] show ?thesis using True Some False by (auto simp: authenticate_cookie)
    qed (use True Some in \<open>simp add: authenticate_cookie\<close>)
  qed (use True in \<open>simp add: authenticate_cookie\<close>)
next
  case False
  show ?thesis
  proof (cases "bearer_secret r")
    case (Some secret)
    then have "\<not> live_token en secret db" using assms False by (simp add: live_credential_def)
    from ValidateToken_dead [OF this, of "en_found en" "en_recorded en" "en_named en"] show ?thesis using False Some by (auto simp: authenticate_bearer)
  qed (use False in \<open>simp add: authenticate_bearer\<close>)
qed

text \<open>The database as a request leaves it: a bearer token's use is recorded.\<close>

definition credential_used :: "env \<Rightarrow> Request \<Rightarrow> operator_db \<Rightarrow> operator_db" where
  "credential_used en r db = (case (if rq_header r ''Authorization'' \<noteq> [] then bearer_secret r else None) of
     None \<Rightarrow> db
   | Some secret \<Rightarrow> (case token_row (en_sha en secret) db of None \<Rightarrow> db
       | Some t \<Rightarrow> db\<lparr>od_tokens := map (use_token_row (ot_id t) (en_now en)) (od_tokens db)\<rparr>))"

definition session_used :: "Request \<Rightarrow> string" where
  "session_used r = (if rq_header r ''Authorization'' \<noteq> [] then [] else case request_cookie SessionCookie r of None \<Rightarrow> [] | Some k \<Rightarrow> k)"

definition operator_principal :: "operator_db \<Rightarrow> Principal" where
  "operator_principal db = \<lparr>pr_display_name = Option.bind (od_operator db) op_display_name\<rparr>"

lemma principal_of_operator: "principal_of True db = Inr (operator_principal db)"
  by (simp add: principal_of_def GetOperator_def operator_principal_def split: option.split)

lemma HashOperatorToken_sha: "HashOperatorToken sha k = Inr h \<Longrightarrow> h = sha k"
  by (auto simp: HashOperatorToken_def split: if_splits option.splits)

lemma authenticate_live:
  assumes "live_credential en r db" and "en_found en" and "en_recorded en" and "en_named en"
  shows "authenticate_request en r db = (Inr (operator_principal db, session_used r), credential_used en r db)"
proof (cases "rq_header r ''Authorization'' = []")
  case True
  then obtain k where k: "request_cookie SessionCookie r = Some k" "k \<noteq> []" "live_session en k db"
    using assms(1) by (auto simp: live_credential_def split: option.splits)
  then obtain h s where h: "HashSessionID (en_sha en) k = Inr h" "session_row h db = Some s" "en_now en < ses_expires_at s"
    by (auto simp: live_session_def split: sum.splits option.splits)
  have "ValidateSession (en_sha en) True True (en_now en) k db = Inr (operator_principal db)"
    using ValidateSession_row [OF h(1), of True "en_now en" db] h(2,3) by (simp add: principal_of_operator)
  then show ?thesis using True k assms(2,4) by (simp add: authenticate_cookie session_used_def credential_used_def)
next
  case False
  then obtain k where k: "bearer_secret r = Some k" "live_token en k db"
    using assms(1) by (auto simp: live_credential_def split: option.splits)
  then obtain h t where h: "HashOperatorToken (en_sha en) k = Inr h" "token_row h db = Some t" "OperatorToken_Check (Some t) (en_now en) = None"
    by (auto simp: live_token_def split: sum.splits option.splits)
  then show ?thesis
    using False k assms(2-4) ValidateToken_row [OF h(1,2), of True "en_now en"] HashOperatorToken_sha [OF h(1)]
    by (simp add: authenticate_bearer session_used_def credential_used_def principal_of_operator)
qed

lemma guarded:
  assumes "\<not> login_request r"
  shows "api_handler en rest r st = (if snd (crossOrigin en r) then Auth_Middleware en (serve_routes en rest) empty_context r st
    else (writeProblem [] [] (plain_problem ''cross-origin'' ''Cross-origin request refused'' 403 (fst (crossOrigin en r))), st))"
proof -
  have "Throttle_Middleware en f cx r st = f cx r st" for f :: "'a handler" and cx st
    using assms by (simp add: Throttle_Middleware_def login_request_def)
  then show ?thesis by (simp add: api_handler_chain CrossOriginGuard_def case_prod_beta)
qed

lemma credential_refused:
  assumes "\<not> login_request r" and "\<not> live_credential en r (sf_db st)"
  shows "rs_status (fst (api_handler en rest r st)) \<in> {401, 403}" and "snd (api_handler en rest r st) = st"
    and "api_handler en rest r st = api_handler en rest' r st"
proof -
  obtain e where e: "authenticate_request en r (sf_db st) = (Inl e, sf_db st)" using authenticate_dead [OF assms(2)] by blast
  define cs where "cs = (case request_cookie SessionCookie r of Some k \<Rightarrow> if k \<noteq> [] then [clearSessionCookie] else [] | None \<Rightarrow> [])"
  have "Auth_Middleware en (serve_routes en rest) empty_context r st = (writeProblem [bearer_challenge] cs problemUnauthenticated, st)" for rest
    using e assms(1) by (simp add: Auth_Middleware_def public_iff cs_def)
  note refused = guarded [OF assms(1), of en _ st, unfolded this]
  show "rs_status (fst (api_handler en rest r st)) \<in> {401, 403}" and "snd (api_handler en rest r st) = st"
      and "api_handler en rest r st = api_handler en rest' r st"
    unfolding refused by (simp_all add: writeProblem_def plain_problem_def problemUnauthenticated_def)
qed

lemma credential_served:
  assumes "\<not> login_request r" and "live_credential en r (sf_db st)" and "snd (crossOrigin en r)" and "en_found en" and "en_recorded en" and "en_named en"
  shows "api_handler en rest r st = serve_routes en rest \<lparr>cx_principal = Some (operator_principal (sf_db st)), cx_session = session_used r, cx_params = []\<rparr>
    r (st\<lparr>sf_db := credential_used en r (sf_db st)\<rparr>)"
  using assms by (simp add: guarded Auth_Middleware_def public_iff authenticate_live empty_context_def)

text \<open>\<^bold>\<open>C24\<close>: Every request of the operator surface but the login needs a live credential. Without one the
  answer is 401 or, for a refused origin, 403; nothing changes, and no endpoint has any part in the
  answer. With one, and an origin that is let through, the routed endpoint is served as the one
  operator, whichever form the credential had, and the only trace is a bearer token's recorded use.
  The cookie counts only when there is no authorization header.
\<close>

theorem credential_required:
  assumes "\<not> login_request r"
  shows "(\<not> live_credential en r (sf_db st) \<longrightarrow>
      rs_status (fst (api_handler en rest r st)) \<in> {401, 403} \<and> snd (api_handler en rest r st) = st \<and>
      api_handler en rest r st = api_handler en rest' r st) \<and>
    (live_credential en r (sf_db st) \<and> snd (crossOrigin en r) \<and> en_found en \<and> en_recorded en \<and> en_named en \<longrightarrow>
      api_handler en rest r st = serve_routes en rest \<lparr>cx_principal = Some (operator_principal (sf_db st)), cx_session = session_used r, cx_params = []\<rparr>
        r (st\<lparr>sf_db := credential_used en r (sf_db st)\<rparr>))"
  using credential_refused [OF assms] credential_served [OF assms] by blast

definition demo_env :: env where
  "demo_env = \<lparr>en_sha = sample_sha, en_argon = sample_argon, en_ttl = 0, en_clock = 5, en_now = 5, en_found = True, en_recorded = True, en_named = True,
     en_written = True, en_raw = Some (sample_secret 98), en_fresh = ''k'', en_site = [], en_gateway = [], en_version = ''dev'', en_timestamp = show_int,
     en_url = (\<lambda>s. None), en_fold = (=), en_uuid = Some, en_password_doc = Document, en_token_doc = (\<lambda>s. Document (s, 0))\<rparr>"

definition demo_request :: "string \<Rightarrow> string \<Rightarrow> (string \<times> string) list \<Rightarrow> string \<Rightarrow> Request" where
  "demo_request method path cookies body = \<lparr>rq_method = method, rq_path = APIPrefix @ path, rq_host = ''console'', rq_remote_addr = ''10.0.0.1:443'',
     rq_header = (\<lambda>h. []), rq_cookies = cookies, rq_query = [], rq_body = body\<rparr>"

definition demo_surface :: "operator_db \<Rightarrow> unit surface" where
  "demo_surface db = \<lparr>sf_db = db, sf_throttle = \<lparr>th_limit = 0, th_window = 0, th_order = []\<rparr>, sf_rest = ()\<rparr>"

definition demo_rest :: "Endpoint \<Rightarrow> unit handler" where
  "demo_rest h cx r st = (writeJSON [] (OtherDoc []), st)"

theorem credential_required_witness:
  "\<not> login_request (demo_request ''DELETE'' ''/workloads'' [] []) \<and> \<not> live_credential demo_env (demo_request ''DELETE'' ''/workloads'' [] []) empty_operator_db \<and>
   snd (api_handler demo_env demo_rest (demo_request ''DELETE'' ''/workloads'' [] []) (demo_surface empty_operator_db)) = demo_surface empty_operator_db"
proof -
  have l: "\<not> login_request (demo_request ''DELETE'' ''/workloads'' [] [])" by (simp add: login_request_def demo_request_def)
  have c: "\<not> live_credential demo_env (demo_request ''DELETE'' ''/workloads'' [] []) (sf_db (demo_surface empty_operator_db))"
    by (simp add: live_credential_def demo_request_def request_cookie_def)
  show ?thesis using l c credential_required [OF l, of demo_env "demo_surface empty_operator_db" demo_rest demo_rest] by (simp add: demo_surface_def)
qed

section \<open>Logging in and out\<close>

lemma login_chain:
  assumes "login_request r"
  shows "api_handler en rest r st = (case crossOrigin en r of (reason, ok) \<Rightarrow>
     if \<not> ok then (writeProblem [] [] (plain_problem ''cross-origin'' ''Cross-origin request refused'' 403 reason), st)
     else case Allow (en_clock en) (sourceAddress r) (sf_throttle st) of ((ok, retryAfter), t) \<Rightarrow>
       if \<not> ok then (writeProblem [(''Retry-After'', show_int (retry_seconds retryAfter))] []
           (plain_problem ''too-many-attempts'' ''Too many login attempts'' 429 ''wait before trying again''), st\<lparr>sf_throttle := t\<rparr>)
       else createSession en empty_context r (st\<lparr>sf_throttle := t\<rparr>))"
proof -
  have m: "rq_method r = ''POST''" "rq_path r = APIPrefix @ ''/session''" using assms by (simp_all add: login_request_def)
  have "Auth_Middleware en (serve_routes en rest) empty_context r st = createSession en empty_context r st" for st
    using assms public_iff [of r] Surface_router_mount_login m by (simp add: Auth_Middleware_def serve_routes_def endpoint_def)
  then show ?thesis by (simp add: api_handler_chain CrossOriginGuard_def Throttle_Middleware_def m Let_def split: prod.split)
qed

definition password_accepted :: "env \<Rightarrow> Request \<Rightarrow> operator_db \<Rightarrow> bool" where
  "password_accepted en r db = (case en_password_doc en (rq_body r) of
     Document password \<Rightarrow> VerifyPassword (en_argon en) (en_found en) password db = None | _ \<Rightarrow> False)"

lemma createSession_refused:
  assumes "\<not> password_accepted en r (sf_db st)"
  shows "snd (createSession en cx r st) = st \<and> rs_cookies (fst (createSession en cx r st)) = []"
proof (cases "en_password_doc en (rq_body r)")
  case (Document password)
  then obtain e where "VerifyPassword (en_argon en) (en_found en) password (sf_db st) = Some e" using assms by (auto simp: password_accepted_def)
  then show ?thesis using Document by (cases e) (simp_all add: createSession_def decodeJSON_def verify_password writeProblem_def)
qed (simp_all add: createSession_def decodeJSON_def writeProblem_def)

text \<open>
  A login that sets a cookie or changes the operator's tables passed the origin guard and the
  throttle, which counted it, and presented the password that verifies against the stored hash.
  Where any of these fails, no cookie is set and the tables stay as they are.
\<close>

lemma login_gate:
  assumes "login_request r" and "rs_cookies (fst (api_handler en rest r st)) \<noteq> [] \<or> sf_db (snd (api_handler en rest r st)) \<noteq> sf_db st"
  shows "snd (crossOrigin en r) \<and> fst (fst (Allow (en_clock en) (sourceAddress r) (sf_throttle st))) \<and> password_accepted en r (sf_db st) \<and>
    sf_throttle (snd (api_handler en rest r st)) = snd (Allow (en_clock en) (sourceAddress r) (sf_throttle st))"
proof -
  obtain reason ok where o: "crossOrigin en r = (reason, ok)" by force
  obtain ok' d t where a: "Allow (en_clock en) (sourceAddress r) (sf_throttle st) = ((ok', d), t)" by (metis prod.collapse)
  have t: "sf_throttle (snd (createSession en empty_context r st')) = sf_throttle st'" for st' :: "'a surface"
    by (simp add: createSession_def split: sum.split prod.split operator_error.split)
  have "ok" "ok'" using assms(2) unfolding login_chain [OF assms(1)] o a by (auto simp: writeProblem_def split: if_splits)
  moreover have "password_accepted en r (sf_db st)"
  proof (rule ccontr)
    assume "\<not> password_accepted en r (sf_db st)"
    then show False using createSession_refused [of en r "st\<lparr>sf_throttle := t\<rparr>" empty_context] calculation assms(2)
      unfolding login_chain [OF assms(1)] o a by simp
  qed
  ultimately show ?thesis unfolding login_chain [OF assms(1)] o a by (simp add: t)
qed

definition demo_db :: operator_db where
  "demo_db = (case SetPassword sample_argon (Some ''salt'') True 0 ''correct horse'' None empty_operator_db of Inl e \<Rightarrow> empty_operator_db | Inr db \<Rightarrow> db)"

lemma demo_db_password: "VerifyPassword sample_argon True ''correct horse'' demo_db = None" "od_sessions demo_db = []" "od_tokens demo_db = []"
proof -
  obtain db where db: "SetPassword sample_argon (Some ''salt'') True 0 ''correct horse'' None empty_operator_db = Inr db"
      "od_sessions db = []" "od_tokens db = []" "map_option op_password_hash (od_operator db) = Some (case HashPassword sample_argon (Some ''salt'') ''correct horse'' of Inr e \<Rightarrow> e | Inl _ \<Rightarrow> [])"
    by (simp add: SetPassword_def MinPasswordLength_def HashPassword_def sample_argon_def SetOperator_def empty_operator_db_def)
  have e: "HashPassword sample_argon (Some ''salt'') ''correct horse'' = Inr (case HashPassword sample_argon (Some ''salt'') ''correct horse'' of Inr e \<Rightarrow> e | Inl _ \<Rightarrow> [])"
    by (simp add: HashPassword_def sample_argon_def)
  obtain k where k: "sample_argon ''correct horse'' ''salt'' argonTime argonMemory argonThreads argonKeyLen = Some k" "length k = argonKeyLen"
    by (simp add: sample_argon_def argonKeyLen_def)
  show "VerifyPassword sample_argon True ''correct horse'' demo_db = None"
    using VerifyPasswordHash_written [OF e k, of "''correct horse''"] k(1) db by (auto simp: demo_db_def VerifyPassword_def GetOperator_def)
  show "od_sessions demo_db = []" "od_tokens demo_db = []" using db by (simp_all add: demo_db_def)
qed

lemma demo_login:
  "login_request (demo_request ''POST'' ''/session'' [] ''correct horse'')" "snd (crossOrigin demo_env (demo_request ''POST'' ''/session'' [] ''correct horse''))"
  "fst (fst (Allow (en_clock demo_env) (sourceAddress (demo_request ''POST'' ''/session'' [] ''correct horse'')) (sf_throttle (demo_surface demo_db))))"
  by (simp_all add: login_request_def demo_request_def crossOrigin_def Allow_answer demo_surface_def counted_def window_of_def throttle_limit_def DefaultLoginAttempts_def)

lemma login_accepted:
  assumes "login_request r" and "snd (crossOrigin en r)" and "fst (fst (Allow (en_clock en) (sourceAddress r) (sf_throttle st)))"
    and "en_password_doc en (rq_body r) = Document password" and "VerifyPassword (en_argon en) (en_found en) password (sf_db st) = None"
    and "en_named en" and "CreateSession (en_sha en) (en_ttl en) (en_raw en) (en_written en) (en_now en) (sf_db st) = Inr (k, sess, db')"
  shows "api_handler en rest r st = (writeJSON [sessionCookie k (ses_expires_at sess - ses_created_at sess)] (MeDoc (server_me en (Some (operator_principal (sf_db st))))),
     st\<lparr>sf_throttle := snd (Allow (en_clock en) (sourceAddress r) (sf_throttle st)), sf_db := db'\<rparr>)"
proof -
  obtain d t where a: "Allow (en_clock en) (sourceAddress r) (sf_throttle st) = ((True, d), t)" using assms(3) by (metis prod.collapse)
  show ?thesis using assms(2,4-7) unfolding login_chain [OF assms(1)] a
    by (simp add: case_prod_beta createSession_def decodeJSON_def verify_password principal_of_operator SessionMinter_Mint_def)
qed

text \<open>A read of the operator, and a logout, by cookie alone.\<close>

definition by_cookie :: "string \<Rightarrow> Request \<Rightarrow> bool" where
  "by_cookie k r = (rq_header r ''Authorization'' = [] \<and> request_cookie SessionCookie r = Some k)"

lemma live_by_cookie: "by_cookie k r \<Longrightarrow> k \<noteq> [] \<Longrightarrow> live_credential en r db = live_session en k db"
  by (simp add: by_cookie_def live_credential_def)

text \<open>From login to logout. A login with the right password, let through by the guard and the throttle,
  is answered 200 with a session cookie of the fixed lifetime. Until that lifetime ends the cookie alone
  reads the operator; from then on, and after a logout with it, every request that presents it
  is refused with 401 or 403, except a new login.
\<close>

lemma login_to_logout:
  assumes "login_request r" and "snd (crossOrigin en r)" and "fst (fst (Allow (en_clock en) (sourceAddress r) (sf_throttle st)))"
    and "en_password_doc en (rq_body r) = Document password" and "VerifyPassword (en_argon en) True password (sf_db st) = None"
    and "en_found en" and "en_named en" and "en_raw en = Some raw" and "length raw = secretEntropyBytes"
    and "CreateSession (en_sha en) (en_ttl en) (Some raw) (en_written en) (en_now en) (sf_db st) = Inr (k, sess, db')" and "operator_db_ok (sf_db st)"
  shows "\<exists>st'. api_handler en rest r st = (writeJSON [sessionCookie k (sessionTTL (en_ttl en))] (MeDoc (server_me en (Some (operator_principal (sf_db st))))), st') \<and>
    (\<forall>en' r'. by_cookie k r' \<and> en_sha en' = en_sha en \<and> en_found en' \<and> en_recorded en' \<and> en_named en' \<longrightarrow>
       (rq_method r' = ''GET'' \<and> rq_path r' = APIPrefix @ ''/me'' \<and> en_now en' < en_now en + sessionTTL (en_ttl en) \<longrightarrow>
         api_handler en' rest r' st' = (writeJSON [] (MeDoc (server_me en' (Some (operator_principal (sf_db st'))))), st')) \<and>
       (\<not> login_request r' \<and> en_now en + sessionTTL (en_ttl en) \<le> en_now en' \<longrightarrow> rs_status (fst (api_handler en' rest r' st')) \<in> {401, 403}) \<and>
       (rq_method r' = ''DELETE'' \<and> rq_path r' = APIPrefix @ ''/session'' \<and> snd (crossOrigin en' r') \<and> en_written en' \<and> en_now en' < en_now en + sessionTTL (en_ttl en) \<longrightarrow>
         (\<exists>st2. api_handler en' rest r' st' = (writeJSON [clearSessionCookie] EmptyObject, st2) \<and>
           (\<forall>en2 r2. by_cookie k r2 \<and> en_sha en2 = en_sha en \<and> \<not> login_request r2 \<longrightarrow>
             rs_status (fst (api_handler en2 rest r2 st2)) \<in> {401, 403} \<and> snd (api_handler en2 rest r2 st2) = st2))))"
proof -
  define st' where "st' = st\<lparr>sf_throttle := snd (Allow (en_clock en) (sourceAddress r) (sf_throttle st)), sf_db := db'\<rparr>"
  note row = CreateSession_row [OF assms(10)]
  have life: "ses_expires_at sess - ses_created_at sess = sessionTTL (en_ttl en)"
    using assms(10) by (auto simp: CreateSession_def NewSessionID_def randomSecret_def Let_def)
  have k: "k \<noteq> []" "HashSessionID (en_sha en) k = Inr (en_sha en k)"
    using row(1) assms(9) HashSessionID_drawn [OF assms(9)] by (auto simp: secretEntropyBytes_def)
  have login: "api_handler en rest r st = (writeJSON [sessionCookie k (sessionTTL (en_ttl en))] (MeDoc (server_me en (Some (operator_principal (sf_db st))))), st')"
    using login_accepted [OF assms(1-4) _ assms(7), of k sess db' rest] assms(5,6,8,10) life by (simp add: st'_def)
  have live: "live_credential en' r' (sf_db st') \<longleftrightarrow> en_now en' < en_now en + sessionTTL (en_ttl en)" if "by_cookie k r'" "en_sha en' = en_sha en" for en' :: env and r' :: Request
    using that live_by_cookie [OF that(1) k(1)] k(2) row(3,4) by (simp add: live_session_def st'_def)
  have used: "session_used r' = k" "credential_used en' r' db = db" if "by_cookie k r'" for en' :: env and r' :: Request and db
    using that by (simp_all add: by_cookie_def session_used_def credential_used_def)
  show ?thesis
  proof (rule exI [of _ st'], intro conjI login allI impI; (elim conjE)?)
    fix en' :: env and r' :: Request
    assume p: "by_cookie k r'" "en_sha en' = en_sha en" "en_found en'" "en_recorded en'" "en_named en'"
    {
      assume q: "rq_method r' = ''GET''" "rq_path r' = APIPrefix @ ''/me''" "en_now en' < en_now en + sessionTTL (en_ttl en)"
      have "\<not> login_request r'" "snd (crossOrigin en' r')" using q(1) by (simp_all add: login_request_def crossOrigin_def)
      then show "api_handler en' rest r' st' = (writeJSON [] (MeDoc (server_me en' (Some (operator_principal (sf_db st'))))), st')"
        using credential_served [of r' en' st' rest] live [OF p(1,2)] p q used [OF p(1)] Surface_router_mount_me
        by (simp add: serve_routes_def endpoint_def getMe_def)
    }
    {
      assume "\<not> login_request r'" "en_now en + sessionTTL (en_ttl en) \<le> en_now en'"
      then show "rs_status (fst (api_handler en' rest r' st')) \<in> {401, 403}"
        using credential_refused(1) [of r' en' st' rest] live [OF p(1,2)] by simp
    }
    {
      assume q: "rq_method r' = ''DELETE''" "rq_path r' = APIPrefix @ ''/session''" "snd (crossOrigin en' r')" "en_written en'" "en_now en' < en_now en + sessionTTL (en_ttl en)"
      define st2 where "st2 = st'\<lparr>sf_db := db'\<lparr>od_sessions := filter (\<lambda>s. ses_id_hash s \<noteq> en_sha en k) (od_sessions db')\<rparr>\<rparr>"
      have nl: "\<not> login_request r'" using q(1) by (simp add: login_request_def)
      have "api_handler en' rest r' st' = (writeJSON [clearSessionCookie] EmptyObject, st2)"
        using credential_served [OF nl _ q(3) p(3-5), of st' rest] live [OF p(1,2)] p q used [OF p(1)] Surface_router_mount_logout k
        by (simp add: serve_routes_def endpoint_def deleteSession_def EndSession_def SessionMinter_End_def DeleteSession_def Store_DeleteSession_def st2_def st'_def)
      moreover have row_gone: "session_row (en_sha en k) (db'\<lparr>od_sessions := filter (\<lambda>s. ses_id_hash s \<noteq> en_sha en k) (od_sessions db')\<rparr>) = None"
        by (auto simp: session_row_def find_None_iff)
      have gone: "\<not> live_credential en2 r2 (sf_db st2)" if "by_cookie k r2" "en_sha en2 = en_sha en" for en2 :: env and r2 :: Request
        using live_by_cookie [OF that(1) k(1)] that(2) k(2) row_gone by (simp add: live_session_def st2_def)
      with calculation show "\<exists>st2. api_handler en' rest r' st' = (writeJSON [clearSessionCookie] EmptyObject, st2) \<and>
           (\<forall>en2 r2. by_cookie k r2 \<and> en_sha en2 = en_sha en \<and> \<not> login_request r2 \<longrightarrow>
             rs_status (fst (api_handler en2 rest r2 st2)) \<in> {401, 403} \<and> snd (api_handler en2 rest r2 st2) = st2)"
        using credential_refused [of _ _ st2 rest] by blast
    }
  qed
qed

definition demo_cookie :: string where "demo_cookie = b64_encode (sample_secret 98)"

lemma demo_session_create:
  "CreateSession sample_sha 0 (Some (sample_secret 98)) True 5 demo_db = Inr (demo_cookie,
     \<lparr>ses_id_hash = sample_sha demo_cookie, ses_created_at = 5, ses_expires_at = 5 + DefaultSessionTTL\<rparr>,
     demo_db\<lparr>od_sessions := [\<lparr>ses_id_hash = sample_sha demo_cookie, ses_created_at = 5, ses_expires_at = 5 + DefaultSessionTTL\<rparr>]\<rparr>)"
  by (simp add: CreateSession_def NewSessionID_def randomSecret_def Store_CreateSession_def Let_def demo_db_password sessionTTL_def demo_cookie_def)

section \<open>Lifetimes asked for over the surface\<close>

lemma operatorTokenInput_ttl_fits: "\<bar>seconds\<bar> \<le> 9223372036 \<Longrightarrow> operatorTokenInput_ttl seconds = seconds * 1000000000"
  unfolding operatorTokenInput_ttl_def UnixNano_def [symmetric] by (rule UnixNano_fits) (auto simp: nano_fits_def)

text \<open>\<^bold>\<open>C26\<close>: A token minted over the surface with a lifetime expires exactly that many seconds later as long
  as the lifetime fits 64 bits of nanoseconds, and one minted with none never does. Above that, the
  conversion wraps: a request for 9223372037 seconds, like a negative one, mints a token that does not
  expire at all, and one for 18446744074 seconds a token that lives for less than a third of a second.
\<close>

theorem minted_lifetime:
  assumes "MintOperatorToken sha raw fresh True now name (operatorTokenInput_ttl seconds) db = Inr (plaintext, tok, db')"
  shows "(0 < seconds \<and> seconds \<le> 9223372036 \<longrightarrow> ot_expires_at tok = Some (now + seconds * 1000000000)) \<and>
    (-9223372036 \<le> seconds \<and> seconds \<le> 0 \<longrightarrow> ot_expires_at tok = None) \<and>
    (seconds = 9223372037 \<longrightarrow> ot_expires_at tok = None) \<and> (seconds = 18446744074 \<longrightarrow> ot_expires_at tok = Some (now + 290448384))"
proof -
  have e: "ot_expires_at tok = (if 0 < operatorTokenInput_ttl seconds then Some (now + operatorTokenInput_ttl seconds) else None)"
    using assms by (auto simp: MintOperatorToken_def Let_def)
  have w: "operatorTokenInput_ttl 9223372037 = -9223372036709551616" "operatorTokenInput_ttl 18446744074 = 290448384"
    by (simp_all add: operatorTokenInput_ttl_def)
  have "\<bar>seconds\<bar> \<le> 9223372036 \<Longrightarrow> ot_expires_at tok = (if 0 < seconds then Some (now + seconds * 1000000000) else None)"
    using e operatorTokenInput_ttl_fits [of seconds] by simp
  then show ?thesis using e w by auto
qed

theorem minted_lifetime_witness:
  "\<exists>k t db'. MintOperatorToken sample_sha (Some (sample_secret 98)) ''k'' True 0 ''ci'' (operatorTokenInput_ttl 9223372037) empty_operator_db = Inr (k, t, db') \<and> ot_expires_at t = None"
proof -
  obtain k t db' where m: "MintOperatorToken sample_sha (Some (sample_secret 98)) ''k'' True 0 ''ci'' (operatorTokenInput_ttl 9223372037) empty_operator_db = Inr (k, t, db')"
    by (simp add: MintOperatorToken_def NewOperatorToken_def randomSecret_def CreateOperatorToken_def Let_def empty_operator_db_def)
  then show ?thesis using minted_lifetime [OF m] by auto
qed

end
