(* ===== verification/FlowQuery.thy ===== *)
theory FlowQuery
  imports FlowStore Paging
begin

text \<open>
  The read side of the flow store and its retention: \<^verbatim>\<open>internal/flowstore/groups.go\<close>,
  \<^verbatim>\<open>postgres_groups.go\<close>, \<^verbatim>\<open>retention.go\<close> and the reads of \<^verbatim>\<open>postgres.go\<close>, with the statements of
  \<^verbatim>\<open>internal/store/queries/flows.sql\<close> they name. A table is a list of rows with ids, in the order the
  database happens to scan it; where a statement leaves an order open, the order of the list decides,
  and the results hold for every list. A grouped rollup is exact over every group, also those beyond
  its limit; a pruning run ends and removes exactly what is older than its horizon.
\<close>

section \<open>Rows and statements\<close>

record WindowRow =
  wr_id :: int
  wr_workload :: uuid
  wr_start :: instant
  wr_end :: instant
  wr_record :: StoredRecord

record GapRow =
  gr_id :: int
  gr_workload :: uuid
  gr_received_at :: instant
  gr_gap :: StoredGap

record flow_db =
  fd_windows :: "WindowRow list"
  fd_gaps :: "GapRow list"

text \<open>An argument that is zero selects every value.\<close>

definition any_or :: "int \<Rightarrow> int \<Rightarrow> bool" where
  "any_or n m = (n = 0 \<or> m = n)"

text \<open>A row limit is converted to 32 bits; the database refuses a negative one.\<close>

definition limited :: "int \<Rightarrow> 'a list \<Rightarrow> (unit, 'a list) result" where
  "limited n rows = (let k = sint (word_of_int n :: 32 word) in if k < 0 then Inl () else Inr (take (nat k) rows))"

lemma limited_small: "0 \<le> n \<Longrightarrow> n < 2 ^ 31 \<Longrightarrow> limited n rows = Inr (take (nat n) rows)"
  by (simp add: limited_def sint_sbintrunc' signed_take_bit_int_eq_self)

definition newest_first :: "WindowRow \<Rightarrow> int \<times> int" where
  "newest_first r = (- wr_start r, - wr_id r)"

record WindowQuery =
  wq_workload :: uuid
  wq_since :: instant
  wq_until :: instant
  wq_decision :: PolicyDecision
  wq_limit :: int

definition ListWindows :: "bool \<Rightarrow> WindowQuery \<Rightarrow> flow_db \<Rightarrow> (unit, WindowRow list) result" where
  "ListWindows ok q db = (if \<not> ok then Inl () else limited (if wq_limit q \<le> 0 then 200 else wq_limit q)
     (sort_key newest_first (filter (\<lambda>r. wr_workload r = wq_workload q \<and> wq_since q \<le> wr_start r \<and> wr_start r < wq_until q \<and>
        any_or (PolicyDecision_number (wq_decision q)) (PolicyDecision_number (sr_decision (wr_record r)))) (fd_windows db))))"

record GapQuery =
  gpq_workloads :: "uuid list"
  gpq_since :: instant
  gpq_until :: instant
  gpq_limit :: int

text \<open>A gap \<open>[from, to)\<close> intersects \<open>[since, until)\<close>; an instantaneous one when its instant lies in it.\<close>

definition gap_intersects :: "instant \<Rightarrow> instant \<Rightarrow> StoredGap \<Rightarrow> bool" where
  "gap_intersects since until g = (sg_from g < until \<and> (since < sg_to g \<or> sg_from g = sg_to g \<and> since \<le> sg_from g))"

definition ListGaps :: "bool \<Rightarrow> GapQuery \<Rightarrow> flow_db \<Rightarrow> (unit, GapRow list) result" where
  "ListGaps ok q db = (if \<not> ok then Inl () else limited (if gpq_limit q \<le> 0 then 200 else gpq_limit q)
     (sort_key (\<lambda>r. (- sg_from (gr_gap r), - gr_id r))
       (filter (\<lambda>r. (gpq_workloads q = [] \<or> gr_workload r \<in> set (gpq_workloads q)) \<and> gap_intersects (gpq_since q) (gpq_until q) (gr_gap r)) (fd_gaps db))))"

section \<open>Groupings\<close>

definition GroupByRule :: string where "GroupByRule = ''rule''"
definition GroupByRulePeer :: string where "GroupByRulePeer = ''rule,peer''"
definition GroupBySrcDst :: string where "GroupBySrcDst = ''src,dst''"
definition GroupByDstService :: string where "GroupByDstService = ''dst,service''"
definition GroupByPeerService :: string where "GroupByPeerService = ''peer,service''"

definition GroupBys :: "string list" where
  "GroupBys = [GroupByRule, GroupByRulePeer, GroupBySrcDst, GroupByDstService, GroupByPeerService]"

lemmas group_by_defs = GroupByRule_def GroupByRulePeer_def GroupBySrcDst_def GroupByDstService_def GroupByPeerService_def

definition ParseGroupBy :: "string \<Rightarrow> string option" where
  "ParseGroupBy s = find (\<lambda>g. g = join '','' (map (\<lambda>p. to_lower (trim_space p)) (split_on CHR '','' s))) GroupBys"

definition GroupByNames :: string where
  "GroupByNames = join '' | '' GroupBys"

definition GroupBy_Keys :: "string \<Rightarrow> string list" where
  "GroupBy_Keys g = split_on CHR '','' g"

definition OrderByConnections :: string where "OrderByConnections = ''connections''"
definition OrderByRecency :: string where "OrderByRecency = ''recent''"

definition EndpointDst :: string where "EndpointDst = ''dst''"
definition EndpointEither :: string where "EndpointEither = ''either''"

definition ParseEndpoint :: "string \<Rightarrow> string option" where
  "ParseEndpoint s = (let e = to_lower (trim_space s) in if e = [] then Some EndpointDst
     else if e = EndpointDst \<or> e = EndpointEither then Some e else None)"

definition DefaultGroupLimit :: int where "DefaultGroupLimit = 200"
definition MaxGroupLimit :: int where "MaxGroupLimit = 1000"
definition DefaultPageLimit :: int where "DefaultPageLimit = 100"
definition MaxPageLimit :: int where "MaxPageLimit = 500"

definition boundedGroupLimit :: "int \<Rightarrow> int" where
  "boundedGroupLimit n = (if n \<le> 0 then DefaultGroupLimit else if n > MaxGroupLimit then MaxGroupLimit else n)"

definition boundedPageLimit :: "int \<Rightarrow> int" where
  "boundedPageLimit n = (if n \<le> 0 then DefaultPageLimit else if n > MaxPageLimit then MaxPageLimit else n)"

record GroupQuery =
  gq_group_by :: string
  gq_workloads :: "uuid list"
  gq_endpoint :: string
  gq_since :: instant
  gq_until :: instant
  gq_decision :: PolicyDecision
  gq_direction :: Direction
  gq_protocol :: Protocol
  gq_dst_port :: "16 word"
  gq_order :: string
  gq_limit :: int

record Group =
  grp_rule_id :: string
  grp_peer :: FlowPeer
  grp_workload :: uuid
  grp_dst_port :: "16 word"
  grp_protocol :: Protocol
  grp_workload_count :: int
  grp_flow_count :: int
  grp_connection_count :: "64 word"
  grp_byte_count :: "64 word"
  grp_first_seen :: instant
  grp_last_seen :: instant

record GroupResult =
  res_groups :: "Group list"
  res_effective_from :: instant
  res_effective_to :: instant
  res_group_count :: int
  res_flow_count :: int
  res_connection_count :: "64 word"
  res_byte_count :: "64 word"

definition Truncated :: "GroupResult \<Rightarrow> bool" where
  "Truncated r = (res_group_count r > int (length (res_groups r)))"

text \<open>The filter every rollup shares.\<close>

definition in_scope :: "uuid list \<Rightarrow> bool \<Rightarrow> WindowRow \<Rightarrow> bool" where
  "in_scope ids either r = (ids = [] \<or> wr_workload r \<in> set ids \<or>
     either \<and> fp_kind (sr_peer (wr_record r)) = FlowPeerWorkload \<and> fp_key (sr_peer (wr_record r)) \<in> set ids)"

definition service_selected :: "Protocol \<Rightarrow> 16 word \<Rightarrow> StoredRecord \<Rightarrow> bool" where
  "service_selected p port r = (Protocol_number p = 0 \<or> Protocol_number (sr_protocol r) = Protocol_number p \<and> sr_dst_port r = port)"

definition group_selects :: "GroupQuery \<Rightarrow> WindowRow \<Rightarrow> bool" where
  "group_selects q r = (in_scope (gq_workloads q) (gq_endpoint q = EndpointEither) r \<and> gq_since q \<le> wr_start r \<and> wr_start r < gq_until q \<and>
     any_or (PolicyDecision_number (gq_decision q)) (PolicyDecision_number (sr_decision (wr_record r))) \<and>
     any_or (Direction_number (gq_direction q)) (Direction_number (sr_direction (wr_record r))) \<and>
     service_selected (gq_protocol q) (gq_dst_port q) (wr_record r))"

text \<open>The columns of each grouping; a column a grouping does not have is the same for every row.\<close>

type_synonym group_key = "string \<times> int \<times> string \<times> uuid \<times> 16 word \<times> int"

definition by_rule :: "string \<Rightarrow> bool" where "by_rule g = (g = GroupByRule \<or> g = GroupByRulePeer)"
definition by_peer :: "string \<Rightarrow> bool" where "by_peer g = (g = GroupByRulePeer \<or> g = GroupBySrcDst \<or> g = GroupByPeerService)"
definition by_workload :: "string \<Rightarrow> bool" where "by_workload g = (g = GroupBySrcDst \<or> g = GroupByDstService)"
definition by_service :: "string \<Rightarrow> bool" where "by_service g = (g = GroupByDstService \<or> g = GroupByPeerService)"

definition group_columns :: "string \<Rightarrow> WindowRow \<Rightarrow> group_key" where
  "group_columns g r = (let s = wr_record r in
     (if by_rule g then sr_matched_rule_id s else [],
      if by_peer g then FlowPeerKind_number (fp_kind (sr_peer s)) else 0, if by_peer g then fp_key (sr_peer s) else [],
      if by_workload g then wr_workload r else [],
      if by_service g then sr_dst_port s else 0, if by_service g then Protocol_number (sr_protocol s) else 0))"

definition connection_sum :: "WindowRow list \<Rightarrow> int" where
  "connection_sum rs = sum_list (map (\<lambda>r. sint (sr_connection_count (wr_record r))) rs)"

definition byte_sum :: "WindowRow list \<Rightarrow> int" where
  "byte_sum rs = sum_list (map (\<lambda>r. sint (sr_byte_count (wr_record r))) rs)"

definition bigint :: "int \<Rightarrow> bool" where
  "bigint n = (- (2 ^ 63) \<le> n \<and> n < 2 ^ 63)"

definition unsigned_count :: "int \<Rightarrow> 64 word" where
  "unsigned_count n = (if n < 0 then 0 else word_of_int n)"

definition earliest :: "WindowRow list \<Rightarrow> instant" where
  "earliest rs = Min (set (map (\<lambda>r. sr_first_seen (wr_record r)) rs))"

definition latest :: "WindowRow list \<Rightarrow> instant" where
  "latest rs = Max (set (map (\<lambda>r. sr_last_seen (wr_record r)) rs))"

text \<open>The label snapshot of a peer is the one of its most recently seen record.\<close>

definition latest_labels :: "WindowRow list \<Rightarrow> (string, string) gomap" where
  "latest_labels rs = fp_labels (sr_peer (wr_record (hd (sort_key (\<lambda>r. - sr_last_seen (wr_record r)) rs))))"

definition group_row :: "string \<Rightarrow> WindowRow list \<Rightarrow> Group" where
  "group_row g rs = (let s = wr_record (hd rs) in
     \<lparr>grp_rule_id = (if by_rule g then sr_matched_rule_id s else []),
      grp_peer = (if by_peer g then \<lparr>fp_kind = fp_kind (sr_peer s), fp_key = fp_key (sr_peer s), fp_labels = latest_labels rs\<rparr>
        else \<lparr>fp_kind = FlowPeerUnknown, fp_key = [], fp_labels = []\<rparr>),
      grp_workload = (if by_workload g then wr_workload (hd rs) else uuid_Nil),
      grp_dst_port = (if by_service g then sr_dst_port s else 0), grp_protocol = (if by_service g then sr_protocol s else PROTOCOL_UNSPECIFIED),
      grp_workload_count = (if g = GroupByRule \<or> g = GroupByPeerService then int (card (set (map wr_workload rs))) else 0),
      grp_flow_count = int (length rs), grp_connection_count = unsigned_count (connection_sum rs), grp_byte_count = unsigned_count (byte_sum rs),
      grp_first_seen = earliest rs, grp_last_seen = latest rs\<rparr>)"

text \<open>\<^verbatim>\<open>GROUP BY\<close>, \<^verbatim>\<open>ORDER BY\<close> and \<^verbatim>\<open>LIMIT\<close>; text columns are compared under the database's collation.\<close>

definition grouped :: "string \<Rightarrow> WindowRow list \<Rightarrow> WindowRow list list" where
  "grouped g rows = map (\<lambda>k. filter (\<lambda>r. group_columns g r = k) rows) (remdups (map (group_columns g) rows))"

definition group_order :: "(string \<Rightarrow> string) \<Rightarrow> string \<Rightarrow> string \<Rightarrow> WindowRow list \<Rightarrow> int \<times> int \<times> group_key" where
  "group_order collate g order rs = (let (rule, kind, key, w, port, proto) = group_columns g (hd rs) in
     (if order = OrderByRecency then - latest rs else 0, - connection_sum rs, (collate rule, kind, collate key, w, port, proto)))"

definition sums_fit :: "WindowRow list list \<Rightarrow> bool" where
  "sums_fit gs = (list_all (\<lambda>rs. bigint (connection_sum rs) \<and> bigint (byte_sum rs)) gs \<and> bigint (connection_sum (concat gs)) \<and> bigint (byte_sum (concat gs)))"

datatype group_error = ErrUnknownGroupBy | RollupFailed

definition RollupGroups :: "bool \<Rightarrow> (string \<Rightarrow> string) \<Rightarrow> GroupQuery \<Rightarrow> flow_db \<Rightarrow> (group_error, GroupResult) result" where
  "RollupGroups ok collate q db = (let g = gq_group_by q in
     if g \<notin> set GroupBys then Inl ErrUnknownGroupBy
     else let rows = filter (group_selects q) (fd_windows db); gs = grouped g rows;
              order = (if gq_order q = [] then OrderByConnections else gq_order q);
              shown = take (nat (boundedGroupLimit (gq_limit q))) (sort_key (group_order collate g order) gs) in
       if \<not> ok \<or> \<not> sums_fit gs then Inl RollupFailed
       else if shown = [] then Inr \<lparr>res_groups = [], res_effective_from = zero_time, res_effective_to = zero_time, res_group_count = 0,
         res_flow_count = 0, res_connection_count = 0, res_byte_count = 0\<rparr>
       else Inr \<lparr>res_groups = map (group_row g) shown, res_effective_from = Min (set (map wr_start rows)), res_effective_to = Max (set (map wr_end rows)),
         res_group_count = int (length gs), res_flow_count = sum_list (map (\<lambda>rs. int (length rs)) gs),
         res_connection_count = unsigned_count (sum_list (map connection_sum gs)), res_byte_count = unsigned_count (sum_list (map byte_sum gs))\<rparr>)"

section \<open>One page of windows\<close>

record WindowCursor =
  wc_start :: instant
  wc_id :: int

record WindowPageQuery =
  wpq_workload :: uuid
  wpq_since :: instant
  wpq_until :: instant
  wpq_decision :: PolicyDecision
  wpq_direction :: Direction
  wpq_peer_key :: string
  wpq_protocol :: Protocol
  wpq_dst_port :: "16 word"
  wpq_before :: "WindowCursor option"
  wpq_limit :: int

text \<open>Where the first page starts: the second \<^verbatim>\<open>math.MaxInt32\<close>, in January 2038.\<close>

definition first_cursor :: WindowCursor where
  "first_cursor = \<lparr>wc_start = (2 ^ 31 - 1) * 1000000000, wc_id = 2 ^ 63 - 1\<rparr>"

definition page_selects :: "WindowPageQuery \<Rightarrow> WindowRow \<Rightarrow> bool" where
  "page_selects q r = (wr_workload r = wpq_workload q \<and> wpq_since q \<le> wr_start r \<and> wr_start r < wpq_until q \<and>
     any_or (PolicyDecision_number (wpq_decision q)) (PolicyDecision_number (sr_decision (wr_record r))) \<and>
     any_or (Direction_number (wpq_direction q)) (Direction_number (sr_direction (wr_record r))) \<and>
     (wpq_peer_key q = [] \<or> fp_key (sr_peer (wr_record r)) = wpq_peer_key q) \<and> service_selected (wpq_protocol q) (wpq_dst_port q) (wr_record r))"

definition after_cursor :: "WindowCursor \<Rightarrow> WindowRow \<Rightarrow> bool" where
  "after_cursor c r = (wr_start r < wc_start c \<or> wr_start r = wc_start c \<and> wr_id r < wc_id c)"

definition ListWindowPage :: "bool \<Rightarrow> WindowPageQuery \<Rightarrow> flow_db \<Rightarrow> (unit, WindowRow list) result" where
  "ListWindowPage ok q db = (let c = (case wpq_before q of None \<Rightarrow> first_cursor | Some c \<Rightarrow> c) in
     if \<not> ok then Inl () else limited (boundedPageLimit (wpq_limit q))
       (sort_key newest_first (filter (\<lambda>r. page_selects q r \<and> after_cursor c r) (fd_windows db))))"

section \<open>The rollup by peer and service, and the running totals\<close>

record RollupQuery =
  rq_workloads :: "uuid list"
  rq_since :: instant
  rq_until :: instant
  rq_decision :: PolicyDecision

record RollupRow =
  rr_peer_kind :: FlowPeerKind
  rr_peer_key :: string
  rr_dst_port :: "16 word"
  rr_protocol :: Protocol
  rr_decision :: PolicyDecision
  rr_workloads :: int
  rr_connection_count :: "64 word"
  rr_byte_count :: "64 word"
  rr_first_seen :: instant
  rr_last_seen :: instant

definition rollup_columns :: "WindowRow \<Rightarrow> int \<times> string \<times> 16 word \<times> int \<times> int" where
  "rollup_columns r = (let s = wr_record r in (FlowPeerKind_number (fp_kind (sr_peer s)), fp_key (sr_peer s), sr_dst_port s,
     Protocol_number (sr_protocol s), PolicyDecision_number (sr_decision s)))"

definition rollup_row :: "WindowRow list \<Rightarrow> RollupRow" where
  "rollup_row rs = (let s = wr_record (hd rs) in
     \<lparr>rr_peer_kind = fp_kind (sr_peer s), rr_peer_key = fp_key (sr_peer s), rr_dst_port = sr_dst_port s, rr_protocol = sr_protocol s,
      rr_decision = sr_decision s, rr_workloads = int (card (set (map wr_workload rs))),
      rr_connection_count = word_of_int (connection_sum rs), rr_byte_count = word_of_int (byte_sum rs),
      rr_first_seen = earliest rs, rr_last_seen = latest rs\<rparr>)"

definition Rollup :: "bool \<Rightarrow> (string \<Rightarrow> string) \<Rightarrow> RollupQuery \<Rightarrow> flow_db \<Rightarrow> (unit, RollupRow list) result" where
  "Rollup ok collate q db = (let rows = filter (\<lambda>r. wr_workload r \<in> set (rq_workloads q) \<and> rq_since q \<le> wr_start r \<and> wr_start r < rq_until q \<and>
         any_or (PolicyDecision_number (rq_decision q)) (PolicyDecision_number (sr_decision (wr_record r)))) (fd_windows db);
       gs = map (\<lambda>k. filter (\<lambda>r. rollup_columns r = k) rows) (remdups (map rollup_columns rows)) in
     if \<not> ok \<or> \<not> list_all (\<lambda>rs. bigint (connection_sum rs) \<and> bigint (byte_sum rs)) gs then Inl ()
     else Inr (map rollup_row (sort_key (\<lambda>rs. let (kind, key, port, proto, d) = rollup_columns (hd rs) in
       (- connection_sum rs, kind, collate key, port, proto, d)) gs)))"

definition ListTotals :: "bool \<Rightarrow> (string \<Rightarrow> string) \<Rightarrow> uuid \<Rightarrow> PolicyDecision \<Rightarrow> (uuid \<times> TotalsKey, Total) gomap \<Rightarrow> (unit, (TotalsKey \<times> Total) list) result" where
  "ListTotals ok collate w d ts = (if \<not> ok then Inl () else Inr (sort_key (\<lambda>(k, t). (- tot_last_seen t, FlowPeerKind_number (tk_peer_kind k),
       collate (tk_peer_key k), tk_dst_port k, Protocol_number (tk_protocol k), PolicyDecision_number (tk_decision k)))
     (map (\<lambda>((_, k), t). (k, t)) (filter (\<lambda>((v, k), t). v = w \<and> any_or (PolicyDecision_number d) (PolicyDecision_number (tk_decision k))) ts))))"

section \<open>Retention\<close>

definition pruneBatch :: nat where "pruneBatch = 5000"

text \<open>Delete at most \<open>n\<close> of the rows before the horizon, the oldest first.\<close>

definition delete_oldest :: "('a \<Rightarrow> int) \<Rightarrow> ('a \<Rightarrow> instant) \<Rightarrow> nat \<Rightarrow> instant \<Rightarrow> 'a list \<Rightarrow> 'a list" where
  "delete_oldest row_id at n horizon rows =
     (let victims = map row_id (take n (sort_key at (filter (\<lambda>r. at r < horizon) rows))) in filter (\<lambda>r. row_id r \<notin> set victims) rows)"

definition gap_end :: "GapRow \<Rightarrow> instant" where
  "gap_end r = sg_to (gr_gap r)"

text \<open>What a batch meets: the first statement that fails, the lock held by another replica, or none of these.\<close>

datatype batch_outcome = Batch_Fails | Lock_Elsewhere | Batch_Runs

definition prune_batch :: "batch_outcome \<Rightarrow> instant \<Rightarrow> flow_db \<Rightarrow> (unit, (nat \<times> nat \<times> flow_db) option) result" where
  "prune_batch outcome horizon db = (case outcome of Batch_Fails \<Rightarrow> Inl () | Lock_Elsewhere \<Rightarrow> Inr None
   | Batch_Runs \<Rightarrow>
       let ws = delete_oldest wr_id wr_start pruneBatch horizon (fd_windows db);
           gs = delete_oldest gr_id gap_end pruneBatch horizon (fd_gaps db)
       in Inr (Some (length (fd_windows db) - length ws, length (fd_gaps db) - length gs, db\<lparr>fd_windows := ws, fd_gaps := gs\<rparr>)))"

text \<open>A failed transaction is rolled back, so what it had deleted is still there. The result: the windows
  deleted, whether the run ran, whether it failed, and the tables it leaves. \<open>outcomes\<close> are those of
  the batches still to come.\<close>

lemma prune_batch_shrinks:
  assumes "prune_batch outcome horizon db = Inr (Some (w, g, db'))"
  shows "length (fd_windows db') + w = length (fd_windows db)" and "length (fd_gaps db') + g = length (fd_gaps db)"
  using assms by (auto simp: prune_batch_def delete_oldest_def Let_def split: batch_outcome.split_asm)

function PruneWindows :: "(nat \<Rightarrow> batch_outcome) \<Rightarrow> instant \<Rightarrow> nat \<Rightarrow> nat \<Rightarrow> flow_db \<Rightarrow> nat \<times> bool \<times> bool \<times> flow_db" where
  "PruneWindows outcomes horizon k deleted db = (case prune_batch (outcomes k) horizon db of
     Inl _ \<Rightarrow> (deleted, True, True, db)
   | Inr None \<Rightarrow> (deleted, 0 < deleted, False, db)
   | Inr (Some (windows, gaps, db')) \<Rightarrow>
       if windows < pruneBatch \<and> gaps < pruneBatch then (deleted + windows, True, False, db')
       else PruneWindows outcomes horizon (Suc k) (deleted + windows) db')"
  by pat_completeness auto
termination
proof (relation "measure (\<lambda>(_, _, _, _, db). length (fd_windows db) + length (fd_gaps db))")
  fix outcomes :: "nat \<Rightarrow> batch_outcome" and horizon :: instant and k deleted w g :: nat and db db' :: flow_db and x y z
  assume "prune_batch (outcomes k) horizon db = Inr x" "x = Some y" "(w, z) = y" "(g, db') = z" and full: "\<not> (w < pruneBatch \<and> g < pruneBatch)"
  then have "prune_batch (outcomes k) horizon db = Inr (Some (w, g, db'))" by simp
  from prune_batch_shrinks [OF this] full
  show "((outcomes, horizon, Suc k, deleted + w, db'), (outcomes, horizon, k, deleted, db)) \<in> measure (\<lambda>(_, _, _, _, db). length (fd_windows db) + length (fd_gaps db))"
    by (auto simp: pruneBatch_def)
qed simp

declare PruneWindows.simps [simp del]

record Retention =
  ret_horizon :: duration
  ret_interval :: duration

definition DefaultRetention :: duration where "DefaultRetention = 30 * 24 * 3600 * 1000000000"
definition DefaultRetentionInterval :: duration where "DefaultRetentionInterval = 3600 * 1000000000"

definition retention_horizon :: "Retention \<Rightarrow> duration" where
  "retention_horizon r = (if 0 < ret_horizon r then ret_horizon r else DefaultRetention)"

definition RunOnce :: "Retention \<Rightarrow> instant \<Rightarrow> (nat \<Rightarrow> batch_outcome) \<Rightarrow> flow_db \<Rightarrow> nat \<times> bool \<times> bool \<times> flow_db" where
  "RunOnce r now outcomes db = PruneWindows outcomes (now - retention_horizon r) 0 0 db"

text \<open>The additional pruners of a round: each fails or not, and the context may have ended when one
  fails. The result: how many were run.\<close>

fun run_pruners :: "(bool \<times> bool) list \<Rightarrow> nat" where
  "run_pruners [] = 0"
| "run_pruners ((fails, ended) # ps) = (if fails \<and> ended then 1 else Suc (run_pruners ps))"

text \<open>A round: the clock, the batches, whether the context has ended after a failure, the pruners, and
  whether it ends before the next tick.\<close>

record retention_round =
  rnd_now :: instant
  rnd_outcomes :: "nat \<Rightarrow> batch_outcome"
  rnd_ended_on_failure :: bool
  rnd_pruners :: "(bool \<times> bool) list"
  rnd_ended :: bool

fun Retention_Run :: "Retention \<Rightarrow> retention_round list \<Rightarrow> flow_db \<Rightarrow> flow_db" where
  "Retention_Run r [] db = db"
| "Retention_Run r (c # cs) db = (let (_, _, failed, db') = RunOnce r (rnd_now c) (rnd_outcomes c) db in
     if failed \<and> rnd_ended_on_failure c \<or> rnd_ended c then db' else Retention_Run r cs db')"

section \<open>What a batch deletes\<close>

lemma delete_oldest_subset: "set (delete_oldest row_id at n horizon rows) \<subseteq> set rows"
  by (auto simp: delete_oldest_def Let_def)

lemma distinct_delete_oldest: "distinct (map row_id rows) \<Longrightarrow> distinct (map row_id (delete_oldest row_id at n horizon rows))"
  by (simp add: delete_oldest_def Let_def distinct_map_filter)

lemma victim_aged:
  assumes "distinct (map row_id rows)" and "r \<in> set rows" and "row_id r \<in> row_id ` set (take n (sort_key at (filter (\<lambda>r. at r < horizon) rows)))"
  shows "at r < horizon"
proof -
  obtain v where "v \<in> set (take n (sort_key at (filter (\<lambda>r. at r < horizon) rows)))" "row_id v = row_id r" using assms(3) by auto
  then have "v \<in> set rows" "at v < horizon" "row_id v = row_id r" by (auto dest!: in_set_takeD)
  then show ?thesis using assms(1,2) by (auto simp: distinct_map dest: inj_onD)
qed

lemma delete_oldest_keeps:
  assumes "distinct (map row_id rows)"
  shows "filter (\<lambda>r. horizon \<le> at r) (delete_oldest row_id at n horizon rows) = filter (\<lambda>r. horizon \<le> at r) rows"
proof -
  define vs where "vs = row_id ` set (take n (sort_key at (filter (\<lambda>r. at r < horizon) rows)))"
  have "at r < horizon" if "r \<in> set rows" "row_id r \<in> vs" for r using victim_aged [OF assms that(1)] that(2) by (simp add: vs_def)
  then have "filter (\<lambda>r. row_id r \<notin> vs \<and> horizon \<le> at r) rows = filter (\<lambda>r. horizon \<le> at r) rows" by (intro filter_cong) (auto simp: not_le [symmetric])
  then show ?thesis by (simp add: delete_oldest_def vs_def)
qed

lemma delete_oldest_count:
  assumes "distinct (map row_id rows)"
  shows "length (delete_oldest row_id at n horizon rows) + min n (length (filter (\<lambda>r. at r < horizon) rows)) = length rows"
proof -
  define aged where "aged = filter (\<lambda>r. at r < horizon) rows"
  define vs where "vs = take n (sort_key at aged)"
  define gone where "gone = filter (\<lambda>r. row_id r \<in> row_id ` set vs) rows"
  have "distinct (map row_id (sort_key at aged))"
    using distinct_map_filter [OF assms, of "\<lambda>r. at r < horizon"] by (simp add: aged_def distinct_map)
  then have "distinct (map row_id vs)" by (metis vs_def distinct_take take_map)
  moreover have "distinct (map row_id gone)" using distinct_map_filter [OF assms] by (simp add: gone_def)
  moreover have "set vs \<subseteq> set rows" by (auto simp: vs_def aged_def dest!: in_set_takeD)
  then have "set (map row_id gone) = set (map row_id vs)" by (force simp: gone_def)
  ultimately have "length gone = length vs" by (metis distinct_card length_map)
  then show ?thesis using sum_length_filter_compl [of "\<lambda>r. row_id r \<in> row_id ` set vs" rows]
    by (simp add: delete_oldest_def Let_def gone_def vs_def aged_def min.commute)
qed

lemma delete_oldest_all:
  assumes "length (filter (\<lambda>r. at r < horizon) rows) \<le> n" and "distinct (map row_id rows)"
  shows "delete_oldest row_id at n horizon rows = filter (\<lambda>r. horizon \<le> at r) rows"
proof -
  have vs: "take n (sort_key at (filter (\<lambda>r. at r < horizon) rows)) = sort_key at (filter (\<lambda>r. at r < horizon) rows)" using assms(1) by simp
  have "row_id r \<in> row_id ` {r \<in> set rows. at r < horizon} \<longleftrightarrow> at r < horizon" if "r \<in> set rows" for r
    using that assms(2) by (auto simp: distinct_map dest: inj_onD)
  then have "filter (\<lambda>r. row_id r \<notin> row_id ` {r \<in> set rows. at r < horizon}) rows = filter (\<lambda>r. horizon \<le> at r) rows"
    by (intro filter_cong) (simp_all add: not_less)
  then show ?thesis by (simp add: delete_oldest_def vs)
qed

definition flow_keys_ok :: "flow_db \<Rightarrow> bool" where
  "flow_keys_ok db = (distinct (map wr_id (fd_windows db)) \<and> distinct (map gr_id (fd_gaps db)))"

definition kept :: "instant \<Rightarrow> flow_db \<Rightarrow> flow_db" where
  "kept horizon db = db\<lparr>fd_windows := filter (\<lambda>r. horizon \<le> wr_start r) (fd_windows db), fd_gaps := filter (\<lambda>r. horizon \<le> gap_end r) (fd_gaps db)\<rparr>"

lemma prune_batch_runs:
  assumes "flow_keys_ok db" and "prune_batch outcome horizon db = Inr (Some (w, g, db'))"
  shows "flow_keys_ok db'" and "kept horizon db' = kept horizon db"
    and "set (fd_windows db') \<subseteq> set (fd_windows db)" and "set (fd_gaps db') \<subseteq> set (fd_gaps db)"
    and "w < pruneBatch \<and> g < pruneBatch \<Longrightarrow> db' = kept horizon db"
proof -
  have db': "db' = db\<lparr>fd_windows := delete_oldest wr_id wr_start pruneBatch horizon (fd_windows db),
      fd_gaps := delete_oldest gr_id gap_end pruneBatch horizon (fd_gaps db)\<rparr>"
    using assms(2) by (auto simp: prune_batch_def Let_def split: batch_outcome.split_asm)
  show "flow_keys_ok db'" using assms(1) by (simp add: db' flow_keys_ok_def distinct_delete_oldest)
  show "kept horizon db' = kept horizon db" using assms(1) by (simp add: db' kept_def flow_keys_ok_def delete_oldest_keeps)
  show "set (fd_windows db') \<subseteq> set (fd_windows db)" "set (fd_gaps db') \<subseteq> set (fd_gaps db)" by (simp_all add: db' delete_oldest_subset)
  show "db' = kept horizon db" if "w < pruneBatch \<and> g < pruneBatch"
  proof -
    have "min pruneBatch (length (filter (\<lambda>r. wr_start r < horizon) (fd_windows db))) = w"
      using prune_batch_shrinks(1) [OF assms(2)] delete_oldest_count [of wr_id "fd_windows db" wr_start pruneBatch horizon] assms(1)
      by (simp add: db' flow_keys_ok_def)
    moreover have "min pruneBatch (length (filter (\<lambda>r. gap_end r < horizon) (fd_gaps db))) = g"
      using prune_batch_shrinks(2) [OF assms(2)] delete_oldest_count [of gr_id "fd_gaps db" gap_end pruneBatch horizon] assms(1)
      by (simp add: db' flow_keys_ok_def)
    ultimately show ?thesis using that assms(1) by (simp add: db' kept_def flow_keys_ok_def delete_oldest_all min_def split: if_split_asm)
  qed
qed

lemma PruneWindows_step:
  assumes "prune_batch (outcomes k) horizon db = Inr (Some (w, g, db'))"
  shows "PruneWindows outcomes horizon k n db = (if w < pruneBatch \<and> g < pruneBatch then (n + w, True, False, db')
    else PruneWindows outcomes horizon (Suc k) (n + w) db')"
  by (subst PruneWindows.simps) (simp only: assms sum.case option.case prod.case)

lemma PruneWindows_keeps:
  "flow_keys_ok db \<Longrightarrow> PruneWindows outcomes horizon k n db = (deleted, did, failed, db') \<Longrightarrow>
     kept horizon db' = kept horizon db \<and> set (fd_windows db') \<subseteq> set (fd_windows db) \<and> set (fd_gaps db') \<subseteq> set (fd_gaps db) \<and>
     deleted + length (fd_windows db') = n + length (fd_windows db)"
proof (induction outcomes horizon k n db rule: PruneWindows.induct)
  case (1 outcomes horizon k n db)
  consider (fails) e where "prune_batch (outcomes k) horizon db = Inl e" | (elsewhere) "prune_batch (outcomes k) horizon db = Inr None"
    | (runs) w g db1 where "prune_batch (outcomes k) horizon db = Inr (Some (w, g, db1))"
    by (cases "prune_batch (outcomes k) horizon db") (auto, metis not_None_eq prod_cases3)
  then show ?case
  proof cases
    case fails
    then show ?thesis using "1.prems"(2) by (simp add: PruneWindows.simps [of outcomes horizon k n db])
  next
    case elsewhere
    then show ?thesis using "1.prems"(2) by (simp add: PruneWindows.simps [of outcomes horizon k n db])
  next
    case runs
    note batch = prune_batch_runs [OF "1.prems"(1) runs] prune_batch_shrinks [OF runs]
    show ?thesis
    proof (cases "w < pruneBatch \<and> g < pruneBatch")
      case True
      then show ?thesis using batch "1.prems"(2) unfolding PruneWindows_step [of outcomes, OF runs] by simp
    next
      case False
      have "PruneWindows outcomes horizon (Suc k) (n + w) db1 = (deleted, did, failed, db')"
        using "1.prems"(2) unfolding PruneWindows_step [of outcomes, OF runs] if_not_P [OF False] .
      then show ?thesis using "1.IH" [OF runs refl refl refl False batch(1)] batch by auto
    qed
  qed
qed

lemma PruneWindows_all:
  "flow_keys_ok db \<Longrightarrow> \<forall>j. outcomes j = Batch_Runs \<Longrightarrow>
     PruneWindows outcomes horizon k n db = (n + length (filter (\<lambda>r. wr_start r < horizon) (fd_windows db)), True, False, kept horizon db)"
proof (induction outcomes horizon k n db rule: PruneWindows.induct)
  case (1 outcomes horizon k n db)
  obtain w g db1 where run: "prune_batch (outcomes k) horizon db = Inr (Some (w, g, db1))"
    using "1.prems"(2) by (simp add: prune_batch_def Let_def)
  note batch = prune_batch_runs [OF "1.prems"(1) run] prune_batch_shrinks [OF run]
  have count: "length (filter (\<lambda>r. wr_start r < horizon) (fd_windows d)) + length (fd_windows (kept horizon d)) = length (fd_windows d)" for d
    using sum_length_filter_compl [of "\<lambda>r. wr_start r < horizon" "fd_windows d"] by (simp add: kept_def not_less)
  show ?case
  proof (cases "w < pruneBatch \<and> g < pruneBatch")
    case True
    then show ?thesis using batch count [of db] unfolding PruneWindows_step [of outcomes, OF run] by simp
  next
    case False
    have "PruneWindows outcomes horizon (Suc k) (n + w) db1 =
        (n + w + length (filter (\<lambda>r. wr_start r < horizon) (fd_windows db1)), True, False, kept horizon db1)"
      using "1.IH" [OF run refl refl refl False batch(1) "1.prems"(2)] .
    moreover have "w + length (filter (\<lambda>r. wr_start r < horizon) (fd_windows db1)) = length (filter (\<lambda>r. wr_start r < horizon) (fd_windows db))"
      using batch(2,6) count [of db] count [of db1] by simp
    ultimately show ?thesis unfolding PruneWindows_step [of outcomes, OF run] if_not_P [OF False] by (simp add: batch(2) add.assoc)
  qed
qed

text \<open>A run that loses the lock after a batch that only deleted gaps says that it did not run.\<close>

lemma prune_of_gaps_unreported:
  assumes "flow_keys_ok db" and "outcomes 0 = Batch_Runs" and "outcomes (Suc 0) = Lock_Elsewhere"
    and "filter (\<lambda>r. wr_start r < horizon) (fd_windows db) = []" and "pruneBatch \<le> length (filter (\<lambda>r. gap_end r < horizon) (fd_gaps db))"
  shows "\<exists>db'. PruneWindows outcomes horizon 0 0 db = (0, False, False, db') \<and> length (fd_gaps db') + pruneBatch = length (fd_gaps db)"
proof -
  obtain w g db1 where run: "prune_batch (outcomes 0) horizon db = Inr (Some (w, g, db1))" using assms(2) by (simp add: prune_batch_def Let_def)
  then have db1: "fd_windows db1 = delete_oldest wr_id wr_start pruneBatch horizon (fd_windows db)"
      "fd_gaps db1 = delete_oldest gr_id gap_end pruneBatch horizon (fd_gaps db)"
    using assms(2) by (auto simp: prune_batch_def Let_def)
  have "w = 0" using prune_batch_shrinks(1) [OF run] delete_oldest_count [of wr_id "fd_windows db" wr_start pruneBatch horizon] assms(1,4)
    by (simp add: db1 flow_keys_ok_def)
  moreover have gaps: "length (fd_gaps db1) + pruneBatch = length (fd_gaps db)"
    using delete_oldest_count [of gr_id "fd_gaps db" gap_end pruneBatch horizon] assms(1,5) by (simp add: db1 flow_keys_ok_def)
  ultimately have "PruneWindows outcomes horizon 0 0 db = PruneWindows outcomes horizon (Suc 0) 0 db1"
    using prune_batch_shrinks(2) [OF run] PruneWindows_step [of outcomes, OF run, of 0] by simp
  also have "\<dots> = (0, False, False, db1)"
    by (subst PruneWindows.simps) (simp add: prune_batch_def assms(3))
  finally show ?thesis using gaps by blast
qed

section \<open>What a rollup adds up\<close>

lemma sum_list_classes:
  fixes f :: "'a \<Rightarrow> int"
  shows "distinct ks \<Longrightarrow> sum_list (map (\<lambda>k. sum_list (map f (filter (\<lambda>r. key r = k) rows))) ks) = sum_list (map f (filter (\<lambda>r. key r \<in> set ks) rows))"
proof (induction ks)
  case (Cons k ks)
  have "sum_list (map f (filter (\<lambda>r. key r = k) xs)) + sum_list (map f (filter (\<lambda>r. key r \<in> set ks) xs)) =
      sum_list (map f (filter (\<lambda>r. key r \<in> set (k # ks)) xs))" for xs
    using Cons.prems by (induction xs) auto
  then show ?case using Cons by simp
qed simp

lemma grouped_sums:
  fixes f :: "WindowRow \<Rightarrow> int"
  shows "sum_list (map (\<lambda>rs. sum_list (map f rs)) (grouped g rows)) = sum_list (map f rows)"
proof -
  have "filter (\<lambda>r. group_columns g r \<in> set (remdups (map (group_columns g) rows))) rows = rows" by (simp add: filter_id_conv)
  then show ?thesis using sum_list_classes [of "remdups (map (group_columns g) rows)" f "group_columns g" rows] by (simp add: grouped_def comp_def)
qed

lemma grouped_counts:
  "sum_list (map (\<lambda>rs. int (length rs)) (grouped g rows)) = int (length rows)"
  "sum_list (map connection_sum (grouped g rows)) = connection_sum rows"
  "sum_list (map byte_sum (grouped g rows)) = byte_sum rows"
  using grouped_sums [of "\<lambda>_. 1" g rows] grouped_sums [of "\<lambda>r. sint (sr_connection_count (wr_record r))" g rows]
    grouped_sums [of "\<lambda>r. sint (sr_byte_count (wr_record r))" g rows]
  by (simp_all add: connection_sum_def [abs_def] byte_sum_def [abs_def] sum_list_triv)

lemma length_grouped: "length (grouped g rows) = card (group_columns g ` set rows)"
  by (simp add: grouped_def length_remdups_card_conv)

definition group_rows :: "GroupQuery \<Rightarrow> flow_db \<Rightarrow> group_key \<Rightarrow> WindowRow list" where
  "group_rows q db k = filter (\<lambda>r. group_selects q r \<and> group_columns (gq_group_by q) r = k) (fd_windows db)"

lemma grouped_group_rows:
  "grouped (gq_group_by q) (filter (group_selects q) (fd_windows db)) =
     map (group_rows q db) (remdups (map (group_columns (gq_group_by q)) (filter (group_selects q) (fd_windows db))))"
  by (simp add: grouped_def group_rows_def)

lemma insort_key_map: "insort_key f (h k) (map h ks) = map h (insort_key (f \<circ> h) k ks)"
  by (induction ks) simp_all

lemma sort_key_map_keys: "sort_key f (map h ks) = map h (sort_key (f \<circ> h) ks)"
  by (induction ks) (simp_all add: insort_key_map comp_def)

lemma take_drop_sorted:
  assumes "x \<in> set (take n (sort_key f xs))" and "y \<in> set (drop n (sort_key f xs))"
  shows "f x \<le> f y"
  using assms sorted_sort_key [of f xs] sorted_append [of "map f (take n (sort_key f xs))" "map f (drop n (sort_key f xs))"]
  by (simp flip: map_append)

lemma unsigned_count_zero [simp]: "unsigned_count 0 = 0"
  by (simp add: unsigned_count_def)

lemma sort_key_Nil_iff: "sort_key f xs = [] \<longleftrightarrow> xs = []"
  using length_sort [of f xs] by (cases xs) auto

lemma rollup_counts:
  assumes "RollupGroups ok collate q db = Inr res" and rows: "rows = filter (group_selects q) (fd_windows db)"
  shows "res_group_count res = int (card (group_columns (gq_group_by q) ` set rows))" "res_flow_count res = int (length rows)"
    "res_connection_count res = unsigned_count (connection_sum rows)" "res_byte_count res = unsigned_count (byte_sum rows)"
proof -
  have "0 < nat (boundedGroupLimit (gq_limit q))" by (simp add: boundedGroupLimit_def DefaultGroupLimit_def MaxGroupLimit_def)
  moreover have "sort_key f (grouped g rows) = [] \<longleftrightarrow> rows = []" for f :: "WindowRow list \<Rightarrow> int \<times> int \<times> group_key" and g
    by (simp add: sort_key_Nil_iff grouped_def)
  ultimately show "res_group_count res = int (card (group_columns (gq_group_by q) ` set rows))" "res_flow_count res = int (length rows)"
      "res_connection_count res = unsigned_count (connection_sum rows)" "res_byte_count res = unsigned_count (byte_sum rows)"
    using assms(1) by (auto simp: RollupGroups_def Let_def grouped_counts length_grouped connection_sum_def byte_sum_def simp flip: rows split: if_split_asm)
qed

section \<open>Properties\<close>

text \<open>A rollup that succeeds counts the groups, records, connections and bytes of every row its filter
  selects, whatever its limit; it shows as many groups as the limit allows, each with the counters of
  exactly its own rows, and no group it leaves out comes before one it shows.\<close>

lemma rollup_is_exact:
  assumes "RollupGroups ok collate q db = Inr res"
  shows "let rows = filter (group_selects q) (fd_windows db); columns = group_columns (gq_group_by q) ` set rows;
      order = (if gq_order q = [] then OrderByConnections else gq_order q) in
    res_group_count res = int (card columns) \<and> res_flow_count res = int (length rows) \<and>
    res_connection_count res = unsigned_count (connection_sum rows) \<and> res_byte_count res = unsigned_count (byte_sum rows) \<and>
    (\<exists>keys. distinct keys \<and> set keys \<subseteq> columns \<and> length keys = min (nat (boundedGroupLimit (gq_limit q))) (card columns) \<and>
      res_groups res = map (\<lambda>k. group_row (gq_group_by q) (group_rows q db k)) keys \<and>
      (\<forall>k\<in>set keys. \<forall>k'\<in>columns - set keys. group_order collate (gq_group_by q) order (group_rows q db k) \<le>
         group_order collate (gq_group_by q) order (group_rows q db k')))"
proof -
  define rows where "rows = filter (group_selects q) (fd_windows db)"
  define order where "order = (if gq_order q = [] then OrderByConnections else gq_order q)"
  define n where "n = nat (boundedGroupLimit (gq_limit q))"
  define ks where "ks = sort_key (group_order collate (gq_group_by q) order \<circ> group_rows q db) (remdups (map (group_columns (gq_group_by q)) rows))"
  have n: "0 < n" by (simp add: n_def boundedGroupLimit_def DefaultGroupLimit_def MaxGroupLimit_def)
  have gs: "grouped (gq_group_by q) rows = map (group_rows q db) (remdups (map (group_columns (gq_group_by q)) rows))"
    unfolding rows_def by (rule grouped_group_rows)
  have shown: "take n (sort_key (group_order collate (gq_group_by q) order) (grouped (gq_group_by q) rows)) = map (group_rows q db) (take n ks)"
    by (simp add: gs ks_def sort_key_map_keys take_map)
  have ks: "distinct ks" "set ks = group_columns (gq_group_by q) ` set rows" "length ks = card (group_columns (gq_group_by q) ` set rows)"
    by (simp_all add: ks_def length_remdups_card_conv)
  have groups: "res_groups res = map (\<lambda>k. group_row (gq_group_by q) (group_rows q db k)) (take n ks)"
    using assms shown by (auto simp: RollupGroups_def Let_def simp flip: rows_def order_def n_def split: if_split_asm)
  note counts = rollup_counts [OF assms rows_def]
  have "k' \<in> set (drop n ks)" if "k' \<in> set ks - set (take n ks)" for k'
    using that by (metis DiffE Un_iff append_take_drop_id set_append)
  then have "group_order collate (gq_group_by q) order (group_rows q db k) \<le> group_order collate (gq_group_by q) order (group_rows q db k')"
    if "k \<in> set (take n ks)" "k' \<in> set ks - set (take n ks)" for k k'
    using that take_drop_sorted [of k n "group_order collate (gq_group_by q) order \<circ> group_rows q db" "remdups (map (group_columns (gq_group_by q)) rows)" k']
    by (simp add: ks_def)
  then show ?thesis unfolding Let_def rows_def [symmetric] order_def [symmetric] n_def [symmetric] ks(2) [symmetric]
    using counts groups ks by (intro conjI exI [of _ "take n ks"]) (auto dest: in_set_takeD simp: min.commute)
qed

definition demo_flow_record :: "FlowPeerKind \<Rightarrow> string \<Rightarrow> 64 word \<Rightarrow> instant \<Rightarrow> StoredRecord" where
  "demo_flow_record kind peer n seen = \<lparr>sr_peer = \<lparr>fp_kind = kind, fp_key = peer, fp_labels = []\<rparr>, sr_src_address = V4 0, sr_dst_address = V4 0,
     sr_dst_port = 443, sr_protocol = PROTOCOL_TCP, sr_direction = DIRECTION_INBOUND, sr_decision = POLICY_DECISION_ALLOWED,
     sr_matched_rule_id = ''r/tcp'', sr_connection_count = n, sr_byte_count = n * 100, sr_first_seen = seen, sr_last_seen = seen, sr_process_name = []\<rparr>"

definition demo_flow_db :: flow_db where
  "demo_flow_db = \<lparr>fd_windows = [
      \<lparr>wr_id = 1, wr_workload = ''w1'', wr_start = 0, wr_end = 60, wr_record = demo_flow_record FlowPeerWorkload ''w2'' 3 10\<rparr>,
      \<lparr>wr_id = 2, wr_workload = ''w2'', wr_start = 60, wr_end = 120, wr_record = demo_flow_record FlowPeerUnknown ''10.0.0.9'' 5 70\<rparr>,
      \<lparr>wr_id = 3, wr_workload = ''w1'', wr_start = 60, wr_end = 120, wr_record = demo_flow_record FlowPeerWorkload ''w2'' 4 80\<rparr>],
    fd_gaps = [\<lparr>gr_id = 1, gr_workload = ''w1'', gr_received_at = 70,
      gr_gap = \<lparr>sg_kind = EVIDENCE_GAP_KIND_BUFFER_OVERFLOW, sg_source = EVIDENCE_SOURCE_UNSPECIFIED, sg_from = 50, sg_to = 65, sg_count = None\<rparr>\<rparr>]\<rparr>"

definition demo_group_query :: GroupQuery where
  "demo_group_query = \<lparr>gq_group_by = GroupBySrcDst, gq_workloads = [], gq_endpoint = EndpointDst, gq_since = 0, gq_until = 200,
     gq_decision = POLICY_DECISION_UNSPECIFIED, gq_direction = DIRECTION_UNSPECIFIED, gq_protocol = PROTOCOL_UNSPECIFIED, gq_dst_port = 0,
     gq_order = [], gq_limit = 1\<rparr>"



end
