(* ===== verification/ReadModel.thy ===== *)
theory ReadModel
  imports FlowQuery Document RenderStore
begin

text \<open>
  The read models of \<^verbatim>\<open>internal/readmodel\<close>, with the reads of \<^verbatim>\<open>internal/store/readmodel.go\<close> and the
  statements of \<^verbatim>\<open>internal/store/queries/workloads.sql\<close> they name: the fleet in pages and counted, a
  workload as the console shows it, its rendered policy, its flows, rollups and gaps. What a read
  shows is tied to the tables: pages visit every row once, counts are exact or refused, and a scope
  is never widened.
\<close>

section \<open>What a read meets\<close>

text \<open>The tables: workload rows with the columns only reads use, policies with the instant they were
  rendered, authored objects and flow evidence.\<close>

record read_db =
  rb_workloads :: "Workload list"
  rb_renewed_at :: "(uuid, instant) gomap"
  rb_services :: "(uuid, ListeningService list) gomap"
  rb_policies :: "(uuid, WorkloadPolicy \<times> instant) gomap"
  rb_rulesets :: "Ruleset list"
  rb_groups :: "AddressGroup list"
  rb_flows :: flow_db

datatype read_stmt = Stmt_Page | Stmt_Children | Stmt_Counts | Stmt_Record | Stmt_LabelIndex | Stmt_Workloads | Stmt_Groups
  | Stmt_Rulesets | Stmt_Policy | Stmt_Windows | Stmt_Gaps | Stmt_Rollup

text \<open>The reader with its clock reading, the outcome of each statement, UUID parsing and the collation.\<close>

record read_env =
  re_now :: instant
  re_flow_window :: duration
  re_renewal_grace :: duration
  re_ok :: "read_stmt \<Rightarrow> bool"
  re_parse :: "string \<Rightarrow> uuid option"
  re_collate :: "string \<Rightarrow> string"
  re_db :: read_db

datatype read_error = ErrInvalidRange | ErrInvalidCursor | ErrWorkloadRequired | ErrUnknownLifecycle | Read_ErrUnknownGroupBy | ErrUnknownEndpoint
  | Read_ErrWorkloadUnknown | SelectorRefused Findings | UnknownSyncState | ReadFailed

definition renewalGrace :: "read_env \<Rightarrow> duration" where
  "renewalGrace e = (if 0 < re_renewal_grace e then re_renewal_grace e else DefaultRenewalGrace)"

record Range =
  range_from :: instant
  range_to :: instant

definition DefaultRange :: duration where "DefaultRange = 24 * 3600 * 1000000000"

definition resolveRange :: "read_env \<Rightarrow> instant \<Rightarrow> instant \<Rightarrow> (read_error, Range) result" where
  "resolveRange e from to = (let to = (if to = zero_time then re_now e else to);
       from = (if from = zero_time then to - DefaultRange else from)
     in if \<not> from < to then Inl ErrInvalidRange else Inr \<lparr>range_from = from, range_to = to\<rparr>)"

section \<open>Workloads\<close>

record WorkloadRecord =
  rec_workload :: Workload
  rec_last_renewed_at :: "instant option"
  rec_latest_version :: "64 word"
  rec_latest_rendered_at :: "instant option"
  rec_services :: "ListeningService list"
  rec_sync_rank :: int
  rec_seen_key :: instant

definition RetiredRank :: int where "RetiredRank = 5"

text \<open>The position keys of the fleet order, as the statement computes them.\<close>

definition sync_rank :: "Workload \<Rightarrow> int" where
  "sync_rank w = (if Retired w then RetiredRank else if w_owned_table w = OWNED_TABLE_STATE_ABSENT then 0
     else case w_sync_state w of SYNC_STATE_DEGRADED \<Rightarrow> 0 | SYNC_STATE_OFFLINE \<Rightarrow> 1 | SYNC_STATE_PENDING \<Rightarrow> 2 | SYNC_STATE_SYNCED \<Rightarrow> 3 | _ \<Rightarrow> 4)"

definition seen_key :: "Workload \<Rightarrow> instant" where
  "seen_key w = (case w_retired_at w of Some t \<Rightarrow> t | None \<Rightarrow> (case w_last_seen_at w of Some t \<Rightarrow> t | None \<Rightarrow> 0))"

definition workload_record :: "read_db \<Rightarrow> Workload \<Rightarrow> WorkloadRecord" where
  "workload_record db w = \<lparr>rec_workload = w, rec_last_renewed_at = map_of (rb_renewed_at db) (w_id w),
     rec_latest_version = (case map_of (rb_policies db) (w_id w) of None \<Rightarrow> 0 | Some (p, _) \<Rightarrow> version p),
     rec_latest_rendered_at = map_option snd (map_of (rb_policies db) (w_id w)),
     rec_services = (case map_of (rb_services db) (w_id w) of None \<Rightarrow> [] | Some ls \<Rightarrow> ls),
     rec_sync_rank = sync_rank w, rec_seen_key = seen_key w\<rparr>"

definition GetWorkloadRecord :: "read_env \<Rightarrow> uuid \<Rightarrow> (read_error, WorkloadRecord) result" where
  "GetWorkloadRecord e k = (if \<not> re_ok e Stmt_Record then Inl ReadFailed
     else case find (\<lambda>w. w_id w = k) (rb_workloads (re_db e)) of
       None \<Rightarrow> Inl Read_ErrWorkloadUnknown
     | Some w \<Rightarrow> if \<not> re_ok e Stmt_Children then Inl ReadFailed
         else Inr (workload_record (re_db e) w\<lparr>rec_sync_rank := 0, rec_seen_key := zero_time\<rparr>))"

definition ListWorkloadLabelIndex :: "read_db \<Rightarrow> (uuid, (string, string) gomap) gomap" where
  "ListWorkloadLabelIndex db = index_by w_id LabelMap (rb_workloads db)"

text \<open>The workloads a read covers, and whether a scope was given at all.\<close>

definition read_scope :: "read_env \<Rightarrow> uuid option \<Rightarrow> Selector \<Rightarrow> (read_error, uuid list \<times> bool) result" where
  "read_scope e w sel =
     bind_result (case w of None \<Rightarrow> Inr ([], False) | Some k \<Rightarrow> bind_result (GetWorkloadRecord e k) (\<lambda>_. Inr ([k], True))) (\<lambda>(ids, scoped).
       if sel = [] then Inr (ids, scoped)
       else case ValidateSelector sel of Some f \<Rightarrow> Inl (SelectorRefused f)
       | None \<Rightarrow> if \<not> re_ok e Stmt_LabelIndex then Inl ReadFailed
           else Inr (filter (\<lambda>k. w = None \<or> w = Some k) (MatchWorkloads sel (ListWorkloadLabelIndex (re_db e))), True))"

record WorkloadCursor =
  cur_rank :: int
  cur_seen :: instant
  cur_id :: uuid

record WorkloadPageQuery =
  pq_ids :: "uuid list"
  pq_mode :: EnforcementMode
  pq_sync_state :: SyncState
  pq_retired :: bool
  pq_after :: "WorkloadCursor option"
  pq_limit :: int

definition DefaultWorkloadPageLimit :: int where "DefaultWorkloadPageLimit = 100"
definition MaxWorkloadPageLimit :: int where "MaxWorkloadPageLimit = 500"

definition fleet_selects :: "WorkloadPageQuery \<Rightarrow> Workload \<Rightarrow> bool" where
  "fleet_selects q w = ((pq_ids q = [] \<or> w_id w \<in> set (pq_ids q)) \<and> (pq_mode q = ENFORCEMENT_MODE_UNSPECIFIED \<or> w_mode w = pq_mode q) \<and>
     (pq_sync_state q = SYNC_STATE_UNSPECIFIED \<or> w_sync_state w = pq_sync_state q) \<and> Retired w = pq_retired q)"

definition beyond_cursor :: "WorkloadCursor \<Rightarrow> Workload \<Rightarrow> bool" where
  "beyond_cursor c w = (cur_rank c < sync_rank w \<or> sync_rank w = cur_rank c \<and>
     (seen_key w < cur_seen c \<or> seen_key w = cur_seen c \<and> cur_id c < w_id w))"

definition fleet_order :: "WorkloadRecord \<Rightarrow> int \<times> int \<times> uuid" where
  "fleet_order r = (rec_sync_rank r, - rec_seen_key r, w_id (rec_workload r))"

definition ListWorkloadPage :: "read_env \<Rightarrow> WorkloadPageQuery \<Rightarrow> (read_error, WorkloadRecord list) result" where
  "ListWorkloadPage e q = (let db = re_db e;
       c = (case pq_after q of None \<Rightarrow> \<lparr>cur_rank = -1, cur_seen = zero_time, cur_id = uuid_Nil\<rparr> | Some c \<Rightarrow> c) in
     if \<not> re_ok e Stmt_Page then Inl ReadFailed
     else case limited (if pq_limit q \<le> 0 then DefaultWorkloadPageLimit else pq_limit q)
         (sort_key fleet_order (map (workload_record db) (filter (\<lambda>w. fleet_selects q w \<and> beyond_cursor c w) (rb_workloads db)))) of
       Inl _ \<Rightarrow> Inl ReadFailed
     | Inr rows \<Rightarrow> if rows \<noteq> [] \<and> \<not> re_ok e Stmt_Children then Inl ReadFailed else Inr rows)"

datatype CredentialState = CredentialRenews | CredentialRenewalFailed | CredentialExpired
datatype CredentialLifecycle = CredentialValid | CredentialInGrace | CredentialPastGrace

record CredentialStatus =
  cs_state :: CredentialState
  cs_lifecycle :: CredentialLifecycle
  cs_renewable_until :: instant
  cs_serial :: string
  cs_expires_at :: instant
  cs_last_renewed_at :: "instant option"
  cs_last_error :: string
  cs_last_late_renewal :: "LateRenewal option"
  cs_last_presented :: "PresentedCredential option"

definition credentialStatus :: "WorkloadRecord \<Rightarrow> instant \<Rightarrow> duration \<Rightarrow> CredentialStatus" where
  "credentialStatus r now grace = (let w = rec_workload r in
     \<lparr>cs_state = (if \<not> now < w_credential_expires_at w then CredentialExpired
        else if w_credential_renewal_error w \<noteq> [] then CredentialRenewalFailed else CredentialRenews),
      cs_lifecycle = (case StandingAt (w_credential_expires_at w) now grace of StandingValid \<Rightarrow> CredentialValid
        | StandingInGrace \<Rightarrow> CredentialInGrace | StandingPastGrace \<Rightarrow> CredentialPastGrace),
      cs_renewable_until = w_credential_expires_at w + grace, cs_serial = w_credential_serial w, cs_expires_at = w_credential_expires_at w,
      cs_last_renewed_at = rec_last_renewed_at r, cs_last_error = w_credential_renewal_error w,
      cs_last_late_renewal = w_late_renewal w, cs_last_presented = w_presented_credential w\<rparr>)"

definition TelemetryLiveWindows :: int where "TelemetryLiveWindows = 2"

definition telemetryLive :: "instant option \<Rightarrow> duration \<Rightarrow> instant \<Rightarrow> bool" where
  "telemetryLive reported window now = (0 < window \<and> (case reported of None \<Rightarrow> False | Some t \<Rightarrow> now - t \<le> TelemetryLiveWindows * window))"

record SyncStatus =
  ss_state :: SyncState
  ss_applied_version :: "64 word"
  ss_latest_version :: "64 word"
  ss_latest_rendered_at :: "instant option"
  ss_error :: string
  ss_last_snapshot_sent_at :: "instant option"
  ss_last_acked_at :: "instant option"
  ss_last_apply_failed_at :: "instant option"

record Health =
  h_last_seen_at :: "instant option"
  h_credential :: CredentialStatus
  h_dropped_flow_records :: "64 word"
  h_source_overruns :: "64 word"
  h_clock_skew :: "ClockSkew option"
  h_owned_table :: OwnedTableState
  h_owned_table_absent_since :: "instant option"
  h_last_flow_report_at :: "instant option"
  h_telemetry_live :: bool

datatype Lifecycle = LifecycleActive | LifecycleRetired

record WorkloadView =
  v_id :: uuid
  v_hostname :: string
  v_labels :: "Label list"
  v_mode :: EnforcementMode
  v_enrolled_at :: instant
  v_addresses :: "addr list"
  v_agent :: AgentInfo
  v_listening_services :: "ListeningService list"
  v_sync :: SyncStatus
  v_health :: Health
  v_lifecycle :: Lifecycle
  v_retired_at :: "instant option"

definition workload_view :: "read_env \<Rightarrow> WorkloadRecord \<Rightarrow> WorkloadView" where
  "workload_view e r = (let w = rec_workload r in
     \<lparr>v_id = w_id w, v_hostname = w_hostname w, v_labels = w_labels w, v_mode = w_mode w, v_enrolled_at = w_enrolled_at w,
      v_addresses = w_addresses w, v_agent = w_agent w, v_listening_services = rec_services r,
      v_sync = \<lparr>ss_state = w_sync_state w, ss_applied_version = w_applied_version w, ss_latest_version = rec_latest_version r,
        ss_latest_rendered_at = rec_latest_rendered_at r, ss_error = w_sync_error w, ss_last_snapshot_sent_at = w_last_snapshot_sent_at w,
        ss_last_acked_at = w_last_acked_at w, ss_last_apply_failed_at = w_last_apply_failed_at w\<rparr>,
      v_health = \<lparr>h_last_seen_at = w_last_seen_at w, h_credential = credentialStatus r (re_now e) (renewalGrace e),
        h_dropped_flow_records = w_dropped_flow_records w, h_source_overruns = w_source_overruns w, h_clock_skew = w_clock_skew w,
        h_owned_table = w_owned_table w, h_owned_table_absent_since = w_owned_table_absent_since w,
        h_last_flow_report_at = w_last_flow_report_at w, h_telemetry_live = telemetryLive (w_last_flow_report_at w) (re_flow_window e) (re_now e)\<rparr>,
      v_lifecycle = (if Retired w then LifecycleRetired else LifecycleActive), v_retired_at = w_retired_at w\<rparr>)"

definition GetWorkload_view :: "read_env \<Rightarrow> uuid \<Rightarrow> (read_error, WorkloadView) result" where
  "GetWorkload_view e k = bind_result (GetWorkloadRecord e k) (\<lambda>r. Inr (workload_view e r))"

record WorkloadsRequest =
  wq_selector :: Selector
  wq_mode :: EnforcementMode
  wq_sync_state :: SyncState
  wq_lifecycle :: string
  wq_cursor :: string
  wq_page_limit :: int

definition workloadsCursorKind :: string where "workloadsCursorKind = ''w1''"

definition encodeWorkloadCursor :: "WorkloadCursor \<Rightarrow> string" where
  "encodeWorkloadCursor c = encodeCursor [workloadsCursorKind, show_int (cur_rank c), show_int (UnixNano (cur_seen c)), cur_id c]"

definition decodeWorkloadCursor :: "(string \<Rightarrow> uuid option) \<Rightarrow> string \<Rightarrow> (read_error, WorkloadCursor option) result" where
  "decodeWorkloadCursor parse token = (if token = [] then Inr None
     else case decodeCursor token workloadsCursorKind 3 of None \<Rightarrow> Inl ErrInvalidCursor
     | Some parts \<Rightarrow> (case (parse_int 32 (parts ! 0), cursorTime (parts ! 1), cursorUUID parse (parts ! 2)) of
         (Some rank, Some seen, Some k) \<Rightarrow> Inr (Some \<lparr>cur_rank = rank, cur_seen = seen, cur_id = k\<rparr>)
       | _ \<Rightarrow> Inl ErrInvalidCursor))"

definition lifecycle_retired :: "string \<Rightarrow> (read_error, bool) result" where
  "lifecycle_retired s = (if s = [] \<or> s = ''active'' then Inr False else if s = ''retired'' then Inr True else Inl ErrUnknownLifecycle)"

definition workloads_limit :: "int \<Rightarrow> int" where
  "workloads_limit n = (let n = (if n \<le> 0 then DefaultWorkloadPageLimit else n) in if n > MaxWorkloadPageLimit then MaxWorkloadPageLimit else n)"

definition record_cursor :: "WorkloadRecord \<Rightarrow> string" where
  "record_cursor r = encodeWorkloadCursor \<lparr>cur_rank = rec_sync_rank r, cur_seen = rec_seen_key r, cur_id = w_id (rec_workload r)\<rparr>"

text \<open>One page of the fleet and the cursor of the next, empty on the last page.\<close>

definition ListWorkloads :: "WorkloadsRequest \<Rightarrow> read_env \<Rightarrow> (read_error, WorkloadView list \<times> string) result" where
  "ListWorkloads req e =
     bind_result (decodeWorkloadCursor (re_parse e) (wq_cursor req)) (\<lambda>after.
     bind_result (lifecycle_retired (wq_lifecycle req)) (\<lambda>retired.
     bind_result (read_scope e None (wq_selector req)) (\<lambda>(ids, scoped).
       if scoped \<and> ids = [] then Inr ([], [])
       else let limit = workloads_limit (wq_page_limit req) in
         bind_result (ListWorkloadPage e \<lparr>pq_ids = ids, pq_mode = wq_mode req, pq_sync_state = wq_sync_state req, pq_retired = retired,
             pq_after = after, pq_limit = limit + 1\<rparr>) (\<lambda>records.
           let more = (int (length records) > limit); shown = (if more then take (nat limit) records else records) in
           Inr (map (workload_view e) shown, if more then record_cursor (last shown) else [])))))"

section \<open>Counts\<close>

record StatusCount =
  sc_sync_state :: SyncState
  sc_removed :: bool
  sc_retired :: bool
  sc_workloads :: int

record WorkloadCounts =
  cnt_total :: int
  cnt_by_sync :: "(SyncState, int) gomap"
  cnt_removed :: int
  cnt_retired :: int

definition status_of :: "Workload \<Rightarrow> SyncState \<times> bool \<times> bool" where
  "status_of w = (w_sync_state w, w_owned_table w = OWNED_TABLE_STATE_ABSENT, Retired w)"

definition CountWorkloadsByStatus :: "read_db \<Rightarrow> StatusCount list" where
  "CountWorkloadsByStatus db = map (\<lambda>(st, removed, retired). \<lparr>sc_sync_state = st, sc_removed = removed, sc_retired = retired,
     sc_workloads = int (length (filter (\<lambda>w. status_of w = (st, removed, retired)) (rb_workloads db)))\<rparr>) (remdups (map status_of (rb_workloads db)))"

definition syncStates :: "SyncState list" where
  "syncStates = [SYNC_STATE_SYNCED, SYNC_STATE_PENDING, SYNC_STATE_DEGRADED, SYNC_STATE_OFFLINE]"

fun count_statuses :: "StatusCount list \<Rightarrow> WorkloadCounts \<Rightarrow> (read_error, WorkloadCounts) result" where
  "count_statuses [] out = Inr out"
| "count_statuses (c # cs) out = (if sc_workloads c = 0 then count_statuses cs out
     else if sc_retired c then count_statuses cs (out\<lparr>cnt_retired := cnt_retired out + sc_workloads c\<rparr>)
     else case map_of (cnt_by_sync out) (sc_sync_state c) of None \<Rightarrow> Inl UnknownSyncState
     | Some n \<Rightarrow> count_statuses cs ((if sc_removed c then out\<lparr>cnt_removed := cnt_removed out + sc_workloads c\<rparr>
           else out\<lparr>cnt_by_sync := AList.update (sc_sync_state c) (n + sc_workloads c) (cnt_by_sync out)\<rparr>)
         \<lparr>cnt_total := cnt_total out + sc_workloads c\<rparr>))"

definition CountWorkloads :: "read_env \<Rightarrow> (read_error, WorkloadCounts) result" where
  "CountWorkloads e = (if \<not> re_ok e Stmt_Counts then Inl ReadFailed
     else count_statuses (CountWorkloadsByStatus (re_db e))
       \<lparr>cnt_total = 0, cnt_by_sync = map (\<lambda>st. (st, 0)) syncStates, cnt_removed = 0, cnt_retired = 0\<rparr>)"

section \<open>The fleet, page by page\<close>

definition fleet_env_ok :: "read_env \<Rightarrow> bool" where
  "fleet_env_ok e = (re_ok e Stmt_Page \<and> re_ok e Stmt_Children \<and> re_ok e Stmt_LabelIndex \<and> distinct (map w_id (rb_workloads (re_db e))) \<and>
     (\<forall>w\<in>set (rb_workloads (re_db e)). re_parse e (w_id w) = Some (w_id w) \<and> CHR ''|'' \<notin> set (w_id w) \<and> nano_fits (seen_key w)))"

text \<open>A request the read answers: a known lifecycle and a selector within the label grammar.\<close>

definition fleet_request_ok :: "WorkloadsRequest \<Rightarrow> bool" where
  "fleet_request_ok req = ((wq_lifecycle req = [] \<or> wq_lifecycle req = ''active'' \<or> wq_lifecycle req = ''retired'') \<and>
     (wq_selector req = [] \<or> ValidateSelector (wq_selector req) = None))"

text \<open>The workloads a request asks for.\<close>

definition fleet_asked :: "WorkloadsRequest \<Rightarrow> Workload \<Rightarrow> bool" where
  "fleet_asked req w = ((wq_selector req = [] \<or> Matches (wq_selector req) (LabelMap w)) \<and>
     (wq_mode req = ENFORCEMENT_MODE_UNSPECIFIED \<or> w_mode w = wq_mode req) \<and>
     (wq_sync_state req = SYNC_STATE_UNSPECIFIED \<or> w_sync_state w = wq_sync_state req) \<and> Retired w = (wq_lifecycle req = ''retired''))"

definition fleet_matching :: "WorkloadsRequest \<Rightarrow> read_env \<Rightarrow> WorkloadRecord list" where
  "fleet_matching req e = map (workload_record (re_db e)) (filter (fleet_asked req) (rb_workloads (re_db e)))"

lemma match_index:
  assumes "distinct (map w_id ws)" and "w \<in> set ws"
  shows "w_id w \<in> set (MatchWorkloads sel (index_by w_id LabelMap ws)) \<longleftrightarrow> Matches sel (LabelMap w)"
proof -
  have "map_of (index_by w_id LabelMap ws) (w_id w) = Some (LabelMap w)" using index_by_Some_distinct [OF assms(1)] assms(2) by blast
  then have "(w_id w, l) \<in> set (index_by w_id LabelMap ws) \<longleftrightarrow> LabelMap w = l" for l by (simp only: gomap_in_iff [OF gomap_ok_index_by] option.inject)
  then have "(\<exists>l. (w_id w, l) \<in> set (index_by w_id LabelMap ws) \<and> Matches sel l) \<longleftrightarrow> Matches sel (LabelMap w)" by simp
  moreover have "w_id w \<in> set (MatchWorkloads sel (index_by w_id LabelMap ws)) \<longleftrightarrow> (\<exists>l. (w_id w, l) \<in> set (index_by w_id LabelMap ws) \<and> Matches sel l)"
    unfolding MatchWorkloads_def by (auto simp: image_iff)
  ultimately show ?thesis by simp
qed

lemma record_cursor_decodes:
  assumes "parse (w_id w) = Some (w_id w)" and "CHR ''|'' \<notin> set (w_id w)" and "nano_fits (seen_key w)"
  shows "decodeWorkloadCursor parse (record_cursor (workload_record db w)) = Inr (Some \<lparr>cur_rank = sync_rank w, cur_seen = seen_key w, cur_id = w_id w\<rparr>)"
proof -
  let ?parts = "[show_int (sync_rank w), show_int (seen_key w), w_id w]"
  have cursor: "record_cursor (workload_record db w) = encodeCursor (workloadsCursorKind # ?parts)"
    using assms(3) by (simp add: record_cursor_def encodeWorkloadCursor_def workload_record_def)
  have "decodeCursor (record_cursor (workload_record db w)) workloadsCursorKind 3 = Some ?parts"
    unfolding cursor using assms(2) by (intro decode_encodeCursor) (simp_all add: workloadsCursorKind_def)
  moreover have "parse_int 32 (show_int (sync_rank w)) = Some (sync_rank w)"
    by (intro parse_show_int) (simp_all add: sync_rank_def RetiredRank_def split: SyncState.split)
  moreover have "record_cursor (workload_record db w) \<noteq> []" unfolding cursor by (rule encodeCursor_not_Nil) (simp add: workloadsCursorKind_def)
  ultimately show ?thesis using assms(1,3) by (simp add: decodeWorkloadCursor_def cursorUUID_def)
qed

lemma beyond_cursor_order:
  "beyond_cursor \<lparr>cur_rank = sync_rank v, cur_seen = seen_key v, cur_id = w_id v\<rparr> w \<longleftrightarrow> fleet_order (workload_record db v) < fleet_order (workload_record db w)"
  by (auto simp: beyond_cursor_def fleet_order_def workload_record_def less_prod_def)

lemma beyond_first: "beyond_cursor \<lparr>cur_rank = -1, cur_seen = t, cur_id = k\<rparr> w"
  by (simp add: beyond_cursor_def sync_rank_def RetiredRank_def split: SyncState.split)

lemma workloads_limit_bounds: "0 < workloads_limit n" "workloads_limit n \<le> 500"
  by (simp_all add: workloads_limit_def DefaultWorkloadPageLimit_def MaxWorkloadPageLimit_def Let_def)

lemma ListWorkloads_page:
  assumes "fleet_env_ok e" and "fleet_request_ok req" and "decodeWorkloadCursor (re_parse e) token = Inr after"
    and c: "c = (case after of None \<Rightarrow> \<lparr>cur_rank = -1, cur_seen = zero_time, cur_id = uuid_Nil\<rparr> | Some c \<Rightarrow> c)"
  shows "ListWorkloads (req\<lparr>wq_cursor := token\<rparr>) e = Inr (page_of (nat (workloads_limit (wq_page_limit req))) record_cursor (workload_view e)
    (sort_key fleet_order (map (workload_record (re_db e)) (filter (\<lambda>w. fleet_asked req w \<and> beyond_cursor c w) (rb_workloads (re_db e))))))"
proof -
  let ?ws = "rb_workloads (re_db e)" and ?n = "workloads_limit (wq_page_limit req)"
  define ids where "ids = (if wq_selector req = [] then [] else MatchWorkloads (wq_selector req) (ListWorkloadLabelIndex (re_db e)))"
  have scope: "read_scope e None (wq_selector req) = Inr (ids, wq_selector req \<noteq> [])"
    using assms(1,2) by (auto simp: read_scope_def ids_def fleet_request_ok_def fleet_env_ok_def)
  have life: "lifecycle_retired (wq_lifecycle req) = Inr (wq_lifecycle req = ''retired'')"
    using assms(2) by (auto simp: lifecycle_retired_def fleet_request_ok_def)
  have sel: "w_id w \<in> set ids \<longleftrightarrow> Matches (wq_selector req) (LabelMap w)" if "wq_selector req \<noteq> []" "w \<in> set ?ws" for w
    using that assms(1) match_index [of ?ws w] by (simp add: ids_def ListWorkloadLabelIndex_def fleet_env_ok_def)
  show ?thesis
  proof (cases "wq_selector req \<noteq> [] \<and> ids = []")
    case True
    then have "filter (\<lambda>w. fleet_asked req w \<and> beyond_cursor c w) ?ws = []" using sel by (auto simp: filter_empty_conv fleet_asked_def)
    then show ?thesis using True assms(3) scope life by (simp add: ListWorkloads_def page_of_def)
  next
    case False
    define rows where "rows = sort_key fleet_order (map (workload_record (re_db e)) (filter (\<lambda>w. fleet_asked req w \<and> beyond_cursor c w) ?ws))"
    define q where "q = \<lparr>pq_ids = ids, pq_mode = wq_mode req, pq_sync_state = wq_sync_state req, pq_retired = (wq_lifecycle req = ''retired''),
      pq_after = after, pq_limit = ?n + 1\<rparr>"
    have "filter (\<lambda>w. fleet_selects q w \<and> beyond_cursor c w) ?ws = filter (\<lambda>w. fleet_asked req w \<and> beyond_cursor c w) ?ws"
      using sel False by (intro filter_cong) (auto simp: fleet_selects_def fleet_asked_def q_def ids_def)
    then have page: "ListWorkloadPage e q = Inr (take (nat ?n + 1) rows)"
      using assms(1) workloads_limit_bounds [of "wq_page_limit req"]
      by (simp add: ListWorkloadPage_def fleet_env_ok_def rows_def limited_small nat_add_distrib q_def Let_def flip: c)
    have n: "0 < nat ?n" using workloads_limit_bounds [of "wq_page_limit req"] by simp
    have less: "?n < int (length xs) \<longleftrightarrow> nat ?n < length xs" for xs :: "WorkloadRecord list" using workloads_limit_bounds [of "wq_page_limit req"] by linarith
    have "ListWorkloads (req\<lparr>wq_cursor := token\<rparr>) e = Inr (let records = take (nat ?n + 1) rows in
        (map (workload_view e) (if nat ?n < length records then take (nat ?n) records else records),
         if nat ?n < length records then record_cursor (last (take (nat ?n) records)) else []))"
      using False assms(3) scope life page unfolding q_def by (auto simp: ListWorkloads_def Let_def less)
    then show ?thesis unfolding Let_def page_of_probe [OF n refl] rows_def .
  qed
qed

interpretation fleet_pages: cursor_reads fleet_order "\<lambda>req e. fleet_env_ok e \<and> fleet_request_ok req" fleet_matching
  "\<lambda>req. nat (workloads_limit (wq_page_limit req))" record_cursor workload_view "\<lambda>req e token. ListWorkloads (req\<lparr>wq_cursor := token\<rparr>) e"
proof (unfold_locales, goal_cases)
  case (1 req)
  then show ?case using workloads_limit_bounds by simp
next
  case (2 req e)
  then have "distinct (map w_id (rb_workloads (re_db e)))" by (simp add: fleet_env_ok_def)
  then show ?case by (auto simp: fleet_matching_def distinct_map workload_record_def fleet_order_def comp_def inj_on_def distinct_filter)
next
  case (3 r)
  then show ?case by (simp add: record_cursor_def encodeWorkloadCursor_def workloadsCursorKind_def encodeCursor_not_Nil)
next
  case (4 req e)
  then show ?case using ListWorkloads_page [of e req "[]" None]
    by (simp add: decodeWorkloadCursor_def fleet_matching_def beyond_first)
next
  case (5 req e r)
  then obtain v where v: "v \<in> set (rb_workloads (re_db e))" "r = workload_record (re_db e) v" by (auto simp: fleet_matching_def)
  then have "decodeWorkloadCursor (re_parse e) (record_cursor r) = Inr (Some \<lparr>cur_rank = sync_rank v, cur_seen = seen_key v, cur_id = w_id v\<rparr>)"
    using 5 by (simp add: fleet_env_ok_def record_cursor_decodes)
  from ListWorkloads_page [OF conjunct1 [OF 5(1)] conjunct2 [OF 5(1)] this refl] show ?case
    by (simp add: fleet_matching_def filter_map comp_def v(2) beyond_cursor_order [of v _ "re_db e"] conj_commute)
qed

section \<open>Counting\<close>

definition status_sum :: "(StatusCount \<Rightarrow> bool) \<Rightarrow> StatusCount list \<Rightarrow> int" where
  "status_sum P cs = sum_list (map sc_workloads (filter P cs))"

lemma status_sum_simps [simp]: "status_sum P [] = 0" "status_sum P (c # cs) = (if P c then sc_workloads c else 0) + status_sum P cs"
  by (simp_all add: status_sum_def)

lemma count_statuses_Inr:
  "count_statuses cs out = Inr res \<Longrightarrow>
     cnt_retired res = cnt_retired out + status_sum sc_retired cs \<and>
     cnt_removed res = cnt_removed out + status_sum (\<lambda>c. \<not> sc_retired c \<and> sc_removed c) cs \<and>
     cnt_total res = cnt_total out + status_sum (\<lambda>c. \<not> sc_retired c) cs \<and>
     map_of (cnt_by_sync res) st = map_option (\<lambda>n. n + status_sum (\<lambda>c. \<not> sc_retired c \<and> \<not> sc_removed c \<and> sc_sync_state c = st) cs) (map_of (cnt_by_sync out) st)"
proof (induction cs arbitrary: out)
  case (Cons c cs)
  show ?case
  proof (cases "sc_workloads c = 0 \<or> sc_retired c")
    case True
    then show ?thesis using Cons.prems Cons.IH by (auto simp: option.map_comp comp_def split: if_split_asm)
  next
    case False
    then obtain n where n: "map_of (cnt_by_sync out) (sc_sync_state c) = Some n" using Cons.prems by (auto split: option.split_asm)
    show ?thesis using Cons.prems False n
      by (cases "sc_removed c") (auto dest!: Cons.IH simp: option.map_comp comp_def add.assoc)
  qed
qed (simp add: option.map_ident)

lemma count_statuses_Inl:
  "count_statuses cs out = Inl err \<Longrightarrow> err = UnknownSyncState \<and>
     (\<exists>c\<in>set cs. sc_workloads c \<noteq> 0 \<and> \<not> sc_retired c \<and> map_of (cnt_by_sync out) (sc_sync_state c) = None)"
proof (induction cs arbitrary: out)
  case (Cons c cs)
  show ?case
  proof (cases "sc_workloads c = 0 \<or> sc_retired c")
    case True
    then show ?thesis using Cons.prems Cons.IH by (force split: if_split_asm)
  next
    case False
    then show ?thesis using Cons.prems
      by (cases "map_of (cnt_by_sync out) (sc_sync_state c)"; cases "sc_removed c") (auto dest!: Cons.IH split: if_split_asm)
  qed
qed simp

lemma count_statuses_known:
  "count_statuses cs out = Inr res \<Longrightarrow> c \<in> set cs \<Longrightarrow> sc_workloads c \<noteq> 0 \<Longrightarrow> \<not> sc_retired c \<Longrightarrow> map_of (cnt_by_sync out) (sc_sync_state c) \<noteq> None"
proof (induction cs arbitrary: out)
  case (Cons d cs)
  show ?case
  proof (cases "sc_workloads d = 0 \<or> sc_retired d")
    case True
    then have "c \<in> set cs" "\<exists>n. count_statuses cs (out\<lparr>cnt_retired := n\<rparr>) = Inr res \<or> count_statuses cs out = Inr res"
      using Cons.prems by (auto split: if_split_asm)
    then show ?thesis using Cons.IH Cons.prems(3,4) by fastforce
  next
    case False
    then show ?thesis using Cons.prems
      by (cases "map_of (cnt_by_sync out) (sc_sync_state d)"; cases "sc_removed d") (auto dest!: Cons.IH split: if_split_asm)
  qed
qed simp

definition status_count :: "read_db \<Rightarrow> SyncState \<times> bool \<times> bool \<Rightarrow> StatusCount" where
  "status_count db s = (case s of (st, removed, retired) \<Rightarrow> \<lparr>sc_sync_state = st, sc_removed = removed, sc_retired = retired,
     sc_workloads = int (length (filter (\<lambda>w. status_of w = s) (rb_workloads db)))\<rparr>)"

lemma CountWorkloadsByStatus_eq: "CountWorkloadsByStatus db = map (status_count db) (remdups (map status_of (rb_workloads db)))"
  by (simp add: CountWorkloadsByStatus_def status_count_def case_prod_unfold)

lemma status_sum_rows:
  "status_sum P (CountWorkloadsByStatus db) = int (length (filter (\<lambda>w. P (status_count db (status_of w))) (rb_workloads db)))"
proof -
  let ?ss = "filter (\<lambda>s. P (status_count db s)) (remdups (map status_of (rb_workloads db)))"
  have "status_sum P (CountWorkloadsByStatus db) = sum_list (map (\<lambda>s. sum_list (map (\<lambda>_. 1) (filter (\<lambda>w. status_of w = s) (rb_workloads db)))) ?ss)"
    by (simp add: status_sum_def CountWorkloadsByStatus_eq filter_map comp_def sum_list_triv status_count_def case_prod_unfold)
  also have "\<dots> = sum_list (map (\<lambda>_. 1) (filter (\<lambda>w. status_of w \<in> set ?ss) (rb_workloads db)))" by (rule sum_list_classes) simp
  also have "filter (\<lambda>w. status_of w \<in> set ?ss) (rb_workloads db) = filter (\<lambda>w. P (status_count db (status_of w))) (rb_workloads db)"
    by (intro filter_cong) auto
  finally show ?thesis by (simp add: sum_list_triv)
qed

lemma status_count_fields [simp]:
  "sc_retired (status_count db (status_of w)) = Retired w"
  "sc_removed (status_count db (status_of w)) = (w_owned_table w = OWNED_TABLE_STATE_ABSENT)"
  "sc_sync_state (status_count db (status_of w)) = w_sync_state w"
  by (simp_all add: status_count_def status_of_def)

lemma status_count_nonzero: "w \<in> set (rb_workloads db) \<Longrightarrow> sc_workloads (status_count db (status_of w)) \<noteq> 0"
  by (auto simp: status_count_def case_prod_unfold filter_empty_conv)

section \<open>Properties of the fleet reads\<close>

definition fleet_count :: "(Workload \<Rightarrow> bool) \<Rightarrow> read_env \<Rightarrow> int" where
  "fleet_count P e = int (length (filter P (rb_workloads (re_db e))))"

text \<open>The counts of the fleet are exact, or the read is refused: the total is the active workloads,
  each of them in its sync state or, when its table is recorded absent, among the removed, the
  retired counted apart; an active workload in a state outside the four makes the read fail.\<close>

lemma workload_counts_exact:
  assumes "re_ok e Stmt_Counts"
  shows "case CountWorkloads e of
      Inl err \<Rightarrow> err = UnknownSyncState \<and> (\<exists>w\<in>set (rb_workloads (re_db e)). \<not> Retired w \<and> w_sync_state w \<notin> set syncStates)
    | Inr res \<Rightarrow> (\<forall>w\<in>set (rb_workloads (re_db e)). Retired w \<or> w_sync_state w \<in> set syncStates) \<and>
        cnt_total res = fleet_count (\<lambda>w. \<not> Retired w) e \<and> cnt_retired res = fleet_count Retired e \<and>
        cnt_removed res = fleet_count (\<lambda>w. \<not> Retired w \<and> w_owned_table w = OWNED_TABLE_STATE_ABSENT) e \<and>
        (\<forall>st\<in>set syncStates. map_of (cnt_by_sync res) st =
          Some (fleet_count (\<lambda>w. \<not> Retired w \<and> w_owned_table w \<noteq> OWNED_TABLE_STATE_ABSENT \<and> w_sync_state w = st) e))"
proof -
  define out where "out = \<lparr>cnt_total = 0, cnt_by_sync = map (\<lambda>st. (st, 0)) syncStates, cnt_removed = 0, cnt_retired = 0\<rparr>"
  have out: "map_of (cnt_by_sync out) st = (if st \<in> set syncStates then Some 0 else None)" "dom (map_of (cnt_by_sync out)) = set syncStates" for st
    by (auto simp: out_def syncStates_def)
  have run: "CountWorkloads e = count_statuses (CountWorkloadsByStatus (re_db e)) out" using assms by (simp add: CountWorkloads_def out_def)
  show ?thesis
  proof (cases "CountWorkloads e")
    case (Inl err)
    from count_statuses_Inl [OF this [unfolded run]] show ?thesis unfolding Inl by (auto simp: out CountWorkloadsByStatus_eq)
  next
    case (Inr res)
    have "Retired w \<or> w_sync_state w \<in> set syncStates" if "w \<in> set (rb_workloads (re_db e))" for w
      using count_statuses_known [OF Inr [unfolded run], of "status_count (re_db e) (status_of w)"] status_count_nonzero [OF that] that
      by (cases "Retired w") (simp_all add: out CountWorkloadsByStatus_eq split: if_split_asm)
    then show ?thesis unfolding Inr using count_statuses_Inr [OF Inr [unfolded run]]
      by (auto simp: out fleet_count_def status_sum_rows) (simp_all add: out_def)
  qed
qed

text \<open>The console's example: three workloads, one of them retired.\<close>

definition demo_fleet_workload :: "uuid \<Rightarrow> SyncState \<Rightarrow> instant option \<Rightarrow> instant option \<Rightarrow> Workload" where
  "demo_fleet_workload k st seen retired = demo_workload\<lparr>w_id := k, w_sync_state := st, w_last_seen_at := seen, w_retired_at := retired,
     w_owned_table := OWNED_TABLE_STATE_PRESENT\<rparr>"

definition demo_read_env :: read_env where
  "demo_read_env = \<lparr>re_now = 1000, re_flow_window = 60, re_renewal_grace = 0, re_ok = (\<lambda>_. True), re_parse = Some, re_collate = id,
     re_db = \<lparr>rb_workloads = [demo_fleet_workload ''w1'' SYNC_STATE_SYNCED (Some 900) None, demo_fleet_workload ''w2'' SYNC_STATE_OFFLINE (Some 10) None,
         demo_fleet_workload ''w3'' SYNC_STATE_SYNCED (Some 950) None, demo_fleet_workload ''w4'' SYNC_STATE_OFFLINE None (Some 500)],
       rb_renewed_at = [], rb_services = [], rb_policies = [], rb_rulesets = in_rulesets demo_inputs, rb_groups = [], rb_flows = demo_flow_db\<rparr>\<rparr>"

definition demo_fleet_request :: WorkloadsRequest where
  "demo_fleet_request = \<lparr>wq_selector = [], wq_mode = ENFORCEMENT_MODE_UNSPECIFIED, wq_sync_state = SYNC_STATE_UNSPECIFIED, wq_lifecycle = [],
     wq_cursor = [], wq_page_limit = 2\<rparr>"



text \<open>At the instant a credential expires the two judgements of it differ: the state says expired, the
  lifecycle valid. At every other instant they agree.\<close>

lemma credential_judgements:
  "(cs_state (credentialStatus r now grace) = CredentialExpired \<longleftrightarrow> cs_lifecycle (credentialStatus r now grace) \<noteq> CredentialValid) \<longleftrightarrow>
    now \<noteq> w_credential_expires_at (rec_workload r)"
  by (auto simp: credentialStatus_def StandingAt_def Let_def)

end
