(* ===== verification/ReadFlows.thy ===== *)
theory ReadFlows
  imports ReadModel
begin

text \<open>
  The reads of evidence and of rendered policies, \<^verbatim>\<open>flows.go\<close>, \<^verbatim>\<open>rollup.go\<close>, \<^verbatim>\<open>gaps.go\<close>, \<^verbatim>\<open>policy.go\<close>
  and \<^verbatim>\<open>names.go\<close> of \<^verbatim>\<open>internal/readmodel\<close>. Following the cursors of a workload's flows meets every
  window, as long as the page limit is below the store's own; a rollup under a selector covers the
  workloads the selector matches and no other.
\<close>

section \<open>Names\<close>

fun PolicyDecision_String :: "PolicyDecision \<Rightarrow> string" where
  "PolicyDecision_String POLICY_DECISION_UNSPECIFIED = ''POLICY_DECISION_UNSPECIFIED''"
| "PolicyDecision_String POLICY_DECISION_OBSERVED = ''POLICY_DECISION_OBSERVED''"
| "PolicyDecision_String POLICY_DECISION_ALLOWED = ''POLICY_DECISION_ALLOWED''"
| "PolicyDecision_String POLICY_DECISION_WOULD_BLOCK = ''POLICY_DECISION_WOULD_BLOCK''"
| "PolicyDecision_String POLICY_DECISION_BLOCKED = ''POLICY_DECISION_BLOCKED''"
| "PolicyDecision_String (POLICY_DECISION_OTHER n) = show_int n"

definition named_decisions :: "PolicyDecision list" where
  "named_decisions = [POLICY_DECISION_UNSPECIFIED, POLICY_DECISION_OBSERVED, POLICY_DECISION_ALLOWED, POLICY_DECISION_WOULD_BLOCK, POLICY_DECISION_BLOCKED]"

definition PolicyDecision_value :: "string \<Rightarrow> PolicyDecision option" where
  "PolicyDecision_value s = find (\<lambda>d. PolicyDecision_String d = s) named_decisions"

fun SyncState_String :: "SyncState \<Rightarrow> string" where
  "SyncState_String SYNC_STATE_UNSPECIFIED = ''SYNC_STATE_UNSPECIFIED''"
| "SyncState_String SYNC_STATE_SYNCED = ''SYNC_STATE_SYNCED''"
| "SyncState_String SYNC_STATE_PENDING = ''SYNC_STATE_PENDING''"
| "SyncState_String SYNC_STATE_DEGRADED = ''SYNC_STATE_DEGRADED''"
| "SyncState_String SYNC_STATE_OFFLINE = ''SYNC_STATE_OFFLINE''"
| "SyncState_String (SYNC_STATE_OTHER n) = show_int n"

definition SyncState_value :: "string \<Rightarrow> SyncState option" where
  "SyncState_value s = find (\<lambda>d. SyncState_String d = s) (SYNC_STATE_UNSPECIFIED # syncStates)"

definition ParseVerdict :: "string \<Rightarrow> PolicyDecision option" where
  "ParseVerdict s = (if s = [] then Some POLICY_DECISION_UNSPECIFIED
     else case PolicyDecision_value (''POLICY_DECISION_'' @ to_upper (map (\<lambda>c. if c = CHR ''-'' then CHR ''_'' else c) (trim_space s))) of
       None \<Rightarrow> None | Some v \<Rightarrow> if PolicyDecision_number v = 0 then None else Some v)"

definition VerdictName :: "PolicyDecision \<Rightarrow> string" where
  "VerdictName d = to_lower (trim_prefix ''POLICY_DECISION_'' (PolicyDecision_String d))"

definition ParseSyncState :: "string \<Rightarrow> SyncState option" where
  "ParseSyncState s = (if s = [] then Some SYNC_STATE_UNSPECIFIED
     else case SyncState_value (''SYNC_STATE_'' @ to_upper (trim_space s)) of
       None \<Rightarrow> None | Some v \<Rightarrow> if v = SYNC_STATE_UNSPECIFIED then None else Some v)"

definition SyncStateName :: "SyncState \<Rightarrow> string" where
  "SyncStateName s = to_lower (trim_prefix ''SYNC_STATE_'' (SyncState_String s))"

fun OwnedTableStateName :: "OwnedTableState \<Rightarrow> string" where
  "OwnedTableStateName OWNED_TABLE_STATE_PRESENT = ''present''"
| "OwnedTableStateName OWNED_TABLE_STATE_ABSENT = ''absent''"
| "OwnedTableStateName _ = ''unknown''"

fun GapKindName :: "EvidenceGapKind \<Rightarrow> string" where
  "GapKindName EVIDENCE_GAP_KIND_SOURCE_OVERRUN = ''source_overrun''"
| "GapKindName EVIDENCE_GAP_KIND_SOURCE_RESTART = ''source_restart''"
| "GapKindName EVIDENCE_GAP_KIND_BUFFER_OVERFLOW = ''buffer_overflow''"
| "GapKindName EVIDENCE_GAP_KIND_DUMP_TRUNCATED = ''dump_truncated''"
| "GapKindName EVIDENCE_GAP_KIND_WINDOW_OVERFLOW = ''window_overflow''"
| "GapKindName EVIDENCE_GAP_KIND_WINDOW_REJECTED = ''window_rejected''"
| "GapKindName EVIDENCE_GAP_KIND_TABLE_REMOVED = ''table_removed''"
| "GapKindName EVIDENCE_GAP_KIND_AGENT_SILENT = ''agent_silent''"
| "GapKindName _ = ''unknown''"

fun GapSourceName :: "EvidenceSource \<Rightarrow> string" where
  "GapSourceName EVIDENCE_SOURCE_CONNTRACK = ''conntrack''"
| "GapSourceName EVIDENCE_SOURCE_NFLOG = ''nflog''"
| "GapSourceName _ = []"

section \<open>Services and references\<close>

record FlowService =
  fsv_protocol :: Protocol
  fsv_port :: "16 word"

definition ParseService :: "string \<Rightarrow> FlowService option" where
  "ParseService s = (case cut CHR ''/'' (trim_space (to_lower s)) of (pn, pt, hasPort) \<Rightarrow>
     (case ParseProtocol pn of None \<Rightarrow> None
      | Some p \<Rightarrow> if p = PROTOCOL_ICMP
          then (if hasPort \<and> pt \<noteq> [] \<and> pt \<noteq> ''0'' then None else Some \<lparr>fsv_protocol = p, fsv_port = 0\<rparr>)
          else if \<not> hasPort then None
          else map_option (\<lambda>n. \<lparr>fsv_protocol = p, fsv_port = of_nat n\<rparr>) (parse_uint 16 pt)))"

definition Service_String :: "FlowService \<Rightarrow> string" where
  "Service_String s = (if fsv_protocol s = PROTOCOL_ICMP then ProtocolName (fsv_protocol s)
     else ProtocolName (fsv_protocol s) @ ''/'' @ show_dec (unat (fsv_port s)))"

record RuleRef =
  ref_id :: string
  ref_authored_rule_id :: string
  ref_protocol :: Protocol

definition ruleRef :: "string \<Rightarrow> RuleRef option" where
  "ruleRef k = (if k = [] then None else Some (case Provenance k of
     Inr (authored, proto) \<Rightarrow> \<lparr>ref_id = k, ref_authored_rule_id = authored, ref_protocol = proto\<rparr>
   | Inl _ \<Rightarrow> \<lparr>ref_id = k, ref_authored_rule_id = [], ref_protocol = PROTOCOL_UNSPECIFIED\<rparr>))"

record PeerRef =
  pr_kind :: FlowPeerKind
  pr_key :: string
  pr_name :: string
  pr_labels :: "(string, string) gomap"

record FlowWorkloadRef =
  fw_id :: uuid
  fw_hostname :: string
  fw_labels :: "(string, string) gomap"

record name_index =
  ni_workloads :: "(uuid, Workload) gomap"
  ni_groups :: "(uuid, string) gomap"

definition loadNames :: "read_env \<Rightarrow> (read_error, name_index) result" where
  "loadNames e = (if \<not> re_ok e Stmt_Workloads \<or> \<not> re_ok e Stmt_Groups then Inl ReadFailed
     else Inr \<lparr>ni_workloads = index_by w_id id (rb_workloads (re_db e)), ni_groups = index_by grp_id grp_name (rb_groups (re_db e))\<rparr>)"

definition names_peer :: "name_index \<Rightarrow> FlowPeer \<Rightarrow> PeerRef" where
  "names_peer n p = \<lparr>pr_kind = fp_kind p, pr_key = fp_key p,
     pr_name = (case fp_kind p of
         FlowPeerWorkload \<Rightarrow> (case map_of (ni_workloads n) (fp_key p) of Some w \<Rightarrow> w_hostname w | None \<Rightarrow> [])
       | FlowPeerAddressGroup \<Rightarrow> (case map_of (ni_groups n) (fp_key p) of Some g \<Rightarrow> g | None \<Rightarrow> [])
       | FlowPeerUnknown \<Rightarrow> []),
     pr_labels = fp_labels p\<rparr>"

definition workloadRef :: "Workload \<Rightarrow> FlowWorkloadRef" where
  "workloadRef w = \<lparr>fw_id = w_id w, fw_hostname = w_hostname w, fw_labels = LabelMap w\<rparr>"

definition names_workload :: "name_index \<Rightarrow> uuid \<Rightarrow> FlowWorkloadRef" where
  "names_workload n k = (case map_of (ni_workloads n) k of
     Some w \<Rightarrow> \<lparr>fw_id = k, fw_hostname = w_hostname w, fw_labels = LabelMap w\<rparr>
   | None \<Rightarrow> \<lparr>fw_id = k, fw_hostname = [], fw_labels = []\<rparr>)"

section \<open>Flows\<close>

record FlowsRequest =
  fq_workload :: uuid
  fq_from :: instant
  fq_to :: instant
  fq_verdict :: PolicyDecision
  fq_direction :: Direction
  fq_peer :: string
  fq_service :: "FlowService option"
  fq_cursor :: string
  fq_limit :: int

record Flow =
  fl_id :: int
  fl_window_start :: instant
  fl_window_end :: instant
  fl_peer :: PeerRef
  fl_src_address :: addr
  fl_dst_address :: addr
  fl_service :: FlowService
  fl_direction :: Direction
  fl_verdict :: PolicyDecision
  fl_rule :: "RuleRef option"
  fl_connection_count :: "64 word"
  fl_byte_count :: "64 word"
  fl_first_seen :: instant
  fl_last_seen :: instant
  fl_process_name :: string

record FlowsPage =
  fpg_workload :: FlowWorkloadRef
  fpg_range :: Range
  fpg_flows :: "Flow list"
  fpg_next_cursor :: string

definition flowsCursorKind :: string where "flowsCursorKind = ''f1''"

definition encodeFlowsCursor :: "WindowCursor \<Rightarrow> string" where
  "encodeFlowsCursor c = encodeCursor [flowsCursorKind, show_int (UnixNano (wc_start c)), show_int (wc_id c)]"

definition decodeFlowsCursor :: "string \<Rightarrow> (read_error, WindowCursor option) result" where
  "decodeFlowsCursor token = (if token = [] then Inr None
     else case decodeCursor token flowsCursorKind 2 of None \<Rightarrow> Inl ErrInvalidCursor
     | Some parts \<Rightarrow> (case (cursorTime (parts ! 0), parse_int 64 (parts ! 1)) of
         (Some start, Some k) \<Rightarrow> Inr (Some \<lparr>wc_start = start, wc_id = k\<rparr>)
       | _ \<Rightarrow> Inl ErrInvalidCursor))"

definition flow_view :: "name_index \<Rightarrow> WindowRow \<Rightarrow> Flow" where
  "flow_view n r = (let s = wr_record r in
     \<lparr>fl_id = wr_id r, fl_window_start = wr_start r, fl_window_end = wr_end r, fl_peer = names_peer n (sr_peer s),
      fl_src_address = sr_src_address s, fl_dst_address = sr_dst_address s,
      fl_service = \<lparr>fsv_protocol = sr_protocol s, fsv_port = sr_dst_port s\<rparr>, fl_direction = sr_direction s, fl_verdict = sr_decision s,
      fl_rule = ruleRef (sr_matched_rule_id s), fl_connection_count = sr_connection_count s, fl_byte_count = sr_byte_count s,
      fl_first_seen = sr_first_seen s, fl_last_seen = sr_last_seen s, fl_process_name = sr_process_name s\<rparr>)"

definition flows_limit :: "int \<Rightarrow> int" where
  "flows_limit n = (let n = (if n \<le> 0 then DefaultPageLimit else n) in if n > MaxPageLimit then MaxPageLimit else n)"

definition flows_query :: "FlowsRequest \<Rightarrow> Range \<Rightarrow> WindowCursor option \<Rightarrow> WindowPageQuery" where
  "flows_query req r before = \<lparr>wpq_workload = fq_workload req, wpq_since = range_from r, wpq_until = range_to r, wpq_decision = fq_verdict req,
     wpq_direction = fq_direction req, wpq_peer_key = fq_peer req,
     wpq_protocol = (case fq_service req of None \<Rightarrow> PROTOCOL_UNSPECIFIED | Some s \<Rightarrow> fsv_protocol s),
     wpq_dst_port = (case fq_service req of None \<Rightarrow> 0 | Some s \<Rightarrow> fsv_port s),
     wpq_before = before, wpq_limit = flows_limit (fq_limit req) + 1\<rparr>"

definition row_cursor :: "WindowRow \<Rightarrow> string" where
  "row_cursor r = encodeFlowsCursor \<lparr>wc_start = wr_start r, wc_id = wr_id r\<rparr>"

definition ListFlows :: "FlowsRequest \<Rightarrow> read_env \<Rightarrow> (read_error, FlowsPage) result" where
  "ListFlows req e = (if fq_workload req = uuid_Nil then Inl ErrWorkloadRequired
     else bind_result (resolveRange e (fq_from req) (fq_to req)) (\<lambda>r.
       bind_result (decodeFlowsCursor (fq_cursor req)) (\<lambda>before.
       bind_result (GetWorkloadRecord e (fq_workload req)) (\<lambda>rec.
         case ListWindowPage (re_ok e Stmt_Windows) (flows_query req r before) (rb_flows (re_db e)) of
           Inl _ \<Rightarrow> Inl ReadFailed
         | Inr rows \<Rightarrow> bind_result (loadNames e) (\<lambda>n.
             let limit = flows_limit (fq_limit req); more = (int (length rows) > limit); shown = (if more then take (nat limit) rows else rows) in
             Inr \<lparr>fpg_workload = workloadRef (rec_workload rec), fpg_range = r, fpg_flows = map (flow_view n) shown,
               fpg_next_cursor = (if more then row_cursor (last shown) else [])\<rparr>)))))"

section \<open>Gaps\<close>

record GapsRequest =
  gqr_from :: instant
  gqr_to :: instant
  gqr_workload :: "uuid option"
  gqr_selector :: Selector
  gqr_limit :: int

record GapView =
  gv_workload :: FlowWorkloadRef
  gv_kind :: EvidenceGapKind
  gv_source :: EvidenceSource
  gv_from :: instant
  gv_to :: instant
  gv_count :: "64 word option"

record GapsResult =
  gsr_range :: Range
  gsr_gaps :: "GapView list"
  gsr_truncated :: bool

definition DefaultGapLimit :: int where "DefaultGapLimit = 500"
definition MaxGapLimit :: int where "MaxGapLimit = 5000"

definition gap_view :: "name_index \<Rightarrow> GapRow \<Rightarrow> GapView" where
  "gap_view n g = \<lparr>gv_workload = names_workload n (gr_workload g), gv_kind = sg_kind (gr_gap g), gv_source = sg_source (gr_gap g),
     gv_from = sg_from (gr_gap g), gv_to = sg_to (gr_gap g), gv_count = sg_count (gr_gap g)\<rparr>"

definition Reader_Gaps :: "GapsRequest \<Rightarrow> read_env \<Rightarrow> (read_error, GapsResult) result" where
  "Reader_Gaps req e = bind_result (resolveRange e (gqr_from req) (gqr_to req)) (\<lambda>r.
     bind_result (read_scope e (gqr_workload req) (gqr_selector req)) (\<lambda>(ids, scoped).
       if scoped \<and> ids = [] then Inr \<lparr>gsr_range = r, gsr_gaps = [], gsr_truncated = False\<rparr>
       else let limit = min (if gqr_limit req \<le> 0 then DefaultGapLimit else gqr_limit req) MaxGapLimit in
         case ListGaps (re_ok e Stmt_Gaps) \<lparr>gpq_workloads = ids, gpq_since = range_from r, gpq_until = range_to r, gpq_limit = limit + 1\<rparr> (rb_flows (re_db e)) of
           Inl _ \<Rightarrow> Inl ReadFailed
         | Inr rows \<Rightarrow> let more = (int (length rows) > limit); shown = (if more then take (nat limit) rows else rows) in
             if shown = [] then Inr \<lparr>gsr_range = r, gsr_gaps = [], gsr_truncated = more\<rparr>
             else bind_result (loadNames e) (\<lambda>n. Inr \<lparr>gsr_range = r, gsr_gaps = map (gap_view n) shown, gsr_truncated = more\<rparr>)))"

section \<open>Rollups\<close>

record RollupRequest =
  ro_from :: instant
  ro_to :: instant
  ro_group_by :: string
  ro_verdict :: PolicyDecision
  ro_direction :: Direction
  ro_workload :: "uuid option"
  ro_selector :: Selector
  ro_endpoint :: string
  ro_service :: "FlowService option"
  ro_order :: string
  ro_limit :: int

record Counters =
  ct_flow_count :: int
  ct_connection_count :: "64 word"
  ct_byte_count :: "64 word"

record GroupKeys =
  gk_rule :: "RuleRef option"
  gk_peer :: "PeerRef option"
  gk_src :: "PeerRef option"
  gk_dst :: "FlowWorkloadRef option"
  gk_service :: "FlowService option"

record RollupGroup =
  rg_keys :: GroupKeys
  rg_counters :: Counters
  rg_workload_count :: "int option"
  rg_first_seen :: instant
  rg_last_seen :: instant

record RollupResult =
  ru_range :: Range
  ru_effective :: "(instant \<times> instant) option"
  ru_group_by :: string
  ru_groups :: "RollupGroup list"
  ru_group_count :: int
  ru_truncated :: bool
  ru_totals :: Counters

definition group_keys :: "name_index \<Rightarrow> string \<Rightarrow> Group \<Rightarrow> GroupKeys" where
  "group_keys n g x = (let none = \<lparr>gk_rule = None, gk_peer = None, gk_src = None, gk_dst = None, gk_service = None\<rparr>;
       peer = names_peer n (grp_peer x); dst = names_workload n (grp_workload x);
       service = \<lparr>fsv_protocol = grp_protocol x, fsv_port = grp_dst_port x\<rparr>
     in if g = GroupByRule then none\<lparr>gk_rule := ruleRef (grp_rule_id x)\<rparr>
        else if g = GroupByRulePeer then none\<lparr>gk_rule := ruleRef (grp_rule_id x), gk_peer := Some peer\<rparr>
        else if g = GroupBySrcDst then none\<lparr>gk_src := Some peer, gk_dst := Some dst\<rparr>
        else if g = GroupByDstService then none\<lparr>gk_dst := Some dst, gk_service := Some service\<rparr>
        else if g = GroupByPeerService then none\<lparr>gk_peer := Some peer, gk_service := Some service\<rparr> else none)"

definition rollup_group :: "name_index \<Rightarrow> string \<Rightarrow> Group \<Rightarrow> RollupGroup" where
  "rollup_group n g x = \<lparr>rg_keys = group_keys n g x,
     rg_counters = \<lparr>ct_flow_count = grp_flow_count x, ct_connection_count = grp_connection_count x, ct_byte_count = grp_byte_count x\<rparr>,
     rg_workload_count = (if g = GroupByRule \<or> g = GroupByPeerService then Some (grp_workload_count x) else None),
     rg_first_seen = grp_first_seen x, rg_last_seen = grp_last_seen x\<rparr>"

definition rollup_query :: "RollupRequest \<Rightarrow> uuid list \<Rightarrow> string \<Rightarrow> Range \<Rightarrow> GroupQuery" where
  "rollup_query req ids endpoint r = \<lparr>gq_group_by = ro_group_by req, gq_workloads = ids, gq_endpoint = endpoint,
     gq_since = range_from r, gq_until = range_to r, gq_decision = ro_verdict req, gq_direction = ro_direction req,
     gq_protocol = (case ro_service req of None \<Rightarrow> PROTOCOL_UNSPECIFIED | Some s \<Rightarrow> fsv_protocol s),
     gq_dst_port = (case ro_service req of None \<Rightarrow> 0 | Some s \<Rightarrow> fsv_port s), gq_order = ro_order req, gq_limit = ro_limit req\<rparr>"

definition Reader_Rollup :: "RollupRequest \<Rightarrow> read_env \<Rightarrow> (read_error, RollupResult) result" where
  "Reader_Rollup req e = (case ParseGroupBy (ro_group_by req) of None \<Rightarrow> Inl Read_ErrUnknownGroupBy | Some _ \<Rightarrow>
     (case ParseEndpoint (ro_endpoint req) of None \<Rightarrow> Inl ErrUnknownEndpoint | Some endpoint \<Rightarrow>
     bind_result (resolveRange e (ro_from req) (ro_to req)) (\<lambda>r.
     bind_result (read_scope e (ro_workload req) (ro_selector req)) (\<lambda>(ids, scoped).
       let zero = \<lparr>ct_flow_count = 0, ct_connection_count = 0, ct_byte_count = 0\<rparr> in
       if scoped \<and> ids = [] then Inr \<lparr>ru_range = r, ru_effective = None, ru_group_by = ro_group_by req, ru_groups = [], ru_group_count = 0,
         ru_truncated = False, ru_totals = zero\<rparr>
       else case RollupGroups (re_ok e Stmt_Rollup) (re_collate e) (rollup_query req ids endpoint r) (rb_flows (re_db e)) of
         Inl ErrUnknownGroupBy \<Rightarrow> Inl Read_ErrUnknownGroupBy
       | Inl RollupFailed \<Rightarrow> Inl ReadFailed
       | Inr res \<Rightarrow> bind_result (loadNames e) (\<lambda>n.
           Inr \<lparr>ru_range = r, ru_effective = (if res_groups res \<noteq> [] then Some (res_effective_from res, res_effective_to res) else None),
             ru_group_by = ro_group_by req, ru_groups = map (rollup_group n (ro_group_by req)) (res_groups res), ru_group_count = res_group_count res,
             ru_truncated = Truncated res,
             ru_totals = \<lparr>ct_flow_count = res_flow_count res, ct_connection_count = res_connection_count res, ct_byte_count = res_byte_count res\<rparr>\<rparr>)))))"

section \<open>Rendered policies\<close>

record RulesetRef =
  rsr_id :: uuid
  rsr_name :: string

record RenderedRule =
  rdr_id :: string
  rdr_authored_rule_id :: string
  rdr_ruleset :: "RulesetRef option"
  rdr_description :: string
  rdr_created_at :: "instant option"
  rdr_updated_at :: "instant option"
  rdr_protocol :: Protocol
  rdr_ports :: "PortRange list"
  rdr_peer_cidrs :: "string list"
  rdr_verdict :: PolicyDecision

record RenderedPolicyView =
  rpv_workload :: FlowWorkloadRef
  rpv_version :: "64 word"
  rpv_mode :: EnforcementMode
  rpv_rendered_at :: "instant option"
  rpv_terminal_verdict :: PolicyDecision
  rpv_rules :: "RenderedRule list"

fun TerminalVerdict :: "EnforcementMode \<Rightarrow> PolicyDecision" where
  "TerminalVerdict ENFORCEMENT_MODE_SIMULATION = POLICY_DECISION_WOULD_BLOCK"
| "TerminalVerdict ENFORCEMENT_MODE_ENFORCED = POLICY_DECISION_BLOCKED"
| "TerminalVerdict _ = POLICY_DECISION_OBSERVED"

text \<open>The authored rule of an id with its ruleset; a later one of the same id replaces an earlier one.\<close>

definition authored_index :: "Ruleset list \<Rightarrow> (uuid, Rule \<times> Ruleset) gomap" where
  "authored_index rss = index_by (\<lambda>(r, rs). rl_id r) id (concat (map (\<lambda>rs. map (\<lambda>r. (r, rs)) (rs_rules rs)) rss))"

definition rendered_rule :: "(uuid, Rule \<times> Ruleset) gomap \<Rightarrow> ResolvedRule \<Rightarrow> RenderedRule" where
  "rendered_rule authored rr = (let base = \<lparr>rdr_id = rule_id rr, rdr_authored_rule_id = [], rdr_ruleset = None, rdr_description = [],
       rdr_created_at = None, rdr_updated_at = None, rdr_protocol = protocol rr, rdr_ports = ports rr, rdr_peer_cidrs = peer_cidrs rr,
       rdr_verdict = POLICY_DECISION_ALLOWED\<rparr> in
     case Provenance (rule_id rr) of Inl _ \<Rightarrow> base
     | Inr (k, _) \<Rightarrow> (case map_of authored k of None \<Rightarrow> base\<lparr>rdr_authored_rule_id := k\<rparr>
         | Some (r, rs) \<Rightarrow> base\<lparr>rdr_authored_rule_id := k, rdr_ruleset := Some \<lparr>rsr_id = rs_id rs, rsr_name = rs_name rs\<rparr>,
             rdr_description := rl_description r, rdr_created_at := Some (rl_created_at r), rdr_updated_at := Some (rl_updated_at r)\<rparr>))"

definition RenderedPolicy :: "read_env \<Rightarrow> uuid \<Rightarrow> (read_error, RenderedPolicyView) result" where
  "RenderedPolicy e k = bind_result (GetWorkloadRecord e k) (\<lambda>rec.
     let w = rec_workload rec; out = \<lparr>rpv_workload = workloadRef w, rpv_version = 0, rpv_mode = w_mode w, rpv_rendered_at = rec_latest_rendered_at rec,
       rpv_terminal_verdict = TerminalVerdict (w_mode w), rpv_rules = []\<rparr> in
     if \<not> re_ok e Stmt_Policy then Inl ReadFailed
     else case map_of (rb_policies (re_db e)) k of None \<Rightarrow> Inr out
     | Some (p, _) \<Rightarrow> let p = Canonical (Some p) in
         if \<not> re_ok e Stmt_Rulesets then Inl ReadFailed
         else Inr (out\<lparr>rpv_version := version p, rpv_mode := mode p, rpv_terminal_verdict := TerminalVerdict (mode p),
           rpv_rules := map (rendered_rule (authored_index (rb_rulesets (re_db e)))) (inbound_rules p)\<rparr>))"

section \<open>Names read back\<close>

lemma enum_names:
  "VerdictName POLICY_DECISION_OBSERVED = ''observed''"
  "VerdictName POLICY_DECISION_ALLOWED = ''allowed''"
  "VerdictName POLICY_DECISION_WOULD_BLOCK = ''would_block''"
  "VerdictName POLICY_DECISION_BLOCKED = ''blocked''"
  "SyncStateName SYNC_STATE_SYNCED = ''synced''"
  "SyncStateName SYNC_STATE_PENDING = ''pending''"
  "SyncStateName SYNC_STATE_DEGRADED = ''degraded''"
  "SyncStateName SYNC_STATE_OFFLINE = ''offline''"
  by (simp_all add: VerdictName_def SyncStateName_def trim_prefix_def starts_with_def case_eval)

lemma enum_trimmed:
  "trim_space ''observed'' = ''observed''"
  "trim_space ''allowed'' = ''allowed''"
  "trim_space ''would_block'' = ''would_block''"
  "trim_space ''blocked'' = ''blocked''"
  "trim_space ''synced'' = ''synced''"
  "trim_space ''pending'' = ''pending''"
  "trim_space ''degraded'' = ''degraded''"
  "trim_space ''offline'' = ''offline''"
  by (simp_all add: trim_space_printable printable_def)

lemma enum_uppered:
  "to_upper ''observed'' = ''OBSERVED''"
  "to_upper ''allowed'' = ''ALLOWED''"
  "to_upper ''would_block'' = ''WOULD_BLOCK''"
  "to_upper ''blocked'' = ''BLOCKED''"
  "to_upper ''synced'' = ''SYNCED''"
  "to_upper ''pending'' = ''PENDING''"
  "to_upper ''degraded'' = ''DEGRADED''"
  "to_upper ''offline'' = ''OFFLINE''"
  by (simp_all add: case_eval)

lemma enum_values:
  "PolicyDecision_value ''POLICY_DECISION_OBSERVED'' = Some POLICY_DECISION_OBSERVED"
  "PolicyDecision_value ''POLICY_DECISION_ALLOWED'' = Some POLICY_DECISION_ALLOWED"
  "PolicyDecision_value ''POLICY_DECISION_WOULD_BLOCK'' = Some POLICY_DECISION_WOULD_BLOCK"
  "PolicyDecision_value ''POLICY_DECISION_BLOCKED'' = Some POLICY_DECISION_BLOCKED"
  "SyncState_value ''SYNC_STATE_SYNCED'' = Some SYNC_STATE_SYNCED"
  "SyncState_value ''SYNC_STATE_PENDING'' = Some SYNC_STATE_PENDING"
  "SyncState_value ''SYNC_STATE_DEGRADED'' = Some SYNC_STATE_DEGRADED"
  "SyncState_value ''SYNC_STATE_OFFLINE'' = Some SYNC_STATE_OFFLINE"
  by (simp_all add: PolicyDecision_value_def SyncState_value_def named_decisions_def syncStates_def)

lemma verdict_roundtrip: "d \<in> set named_decisions \<Longrightarrow> d \<noteq> POLICY_DECISION_UNSPECIFIED \<Longrightarrow> ParseVerdict (VerdictName d) = Some d"
  unfolding named_decisions_def by (auto simp: enum_names ParseVerdict_def enum_trimmed enum_uppered enum_values)

lemma sync_state_roundtrip: "st \<in> set syncStates \<Longrightarrow> ParseSyncState (SyncStateName st) = Some st"
  unfolding syncStates_def by (auto simp: enum_names ParseSyncState_def enum_trimmed enum_uppered enum_values)

text \<open>The verdict the console shows for what no rule admits is the one the agent records.\<close>

lemma terminal_verdict_agrees: "TerminalVerdict m = TerminalDecision_of m"
  by (cases m) simp_all

section \<open>Flows, page by page\<close>

definition flow_read_ok :: "read_env \<Rightarrow> bool" where
  "flow_read_ok e = (re_ok e Stmt_Record \<and> re_ok e Stmt_Children \<and> re_ok e Stmt_Windows \<and> re_ok e Stmt_Workloads \<and> re_ok e Stmt_Groups)"

text \<open>Rows have ids of their own, and start before the position the first page starts at.\<close>

definition flow_rows_ok :: "read_env \<Rightarrow> bool" where
  "flow_rows_ok e = (distinct (map wr_id (fd_windows (rb_flows (re_db e)))) \<and>
     (\<forall>r\<in>set (fd_windows (rb_flows (re_db e))). nano_fits (wr_start r) \<and> bigint (wr_id r) \<and> after_cursor first_cursor r))"

definition flow_request_ok :: "FlowsRequest \<Rightarrow> read_env \<Rightarrow> bool" where
  "flow_request_ok req e = (fq_workload req \<noteq> uuid_Nil \<and> fq_workload req \<in> w_id ` set (rb_workloads (re_db e)) \<and>
     (case resolveRange e (fq_from req) (fq_to req) of Inl _ \<Rightarrow> False | Inr _ \<Rightarrow> True))"

definition flow_range :: "FlowsRequest \<Rightarrow> read_env \<Rightarrow> Range" where
  "flow_range req e = projr (resolveRange e (fq_from req) (fq_to req))"

definition flow_matching :: "FlowsRequest \<Rightarrow> read_env \<Rightarrow> WindowRow list" where
  "flow_matching req e = filter (page_selects (flows_query req (flow_range req e) None)) (fd_windows (rb_flows (re_db e)))"

definition env_names :: "read_env \<Rightarrow> name_index" where
  "env_names e = \<lparr>ni_workloads = index_by w_id id (rb_workloads (re_db e)), ni_groups = index_by grp_id grp_name (rb_groups (re_db e))\<rparr>"

lemma flows_limit_bounds: "0 < flows_limit n" "flows_limit n \<le> 500"
  by (simp_all add: flows_limit_def DefaultPageLimit_def MaxPageLimit_def Let_def)

lemma page_selects_before: "page_selects (flows_query req r before) = page_selects (flows_query req r None)"
  by (simp add: page_selects_def [abs_def] flows_query_def)

text \<open>What the store returns for a page: one row more than the page holds, unless the limit is its own maximum.\<close>

definition fetched :: "FlowsRequest \<Rightarrow> nat" where
  "fetched req = nat (min (flows_limit (fq_limit req) + 1) 500)"

lemma ListFlows_page:
  assumes "flow_read_ok e" and "flow_request_ok req e" and "decodeFlowsCursor token = Inr before"
    and c: "c = (case before of None \<Rightarrow> first_cursor | Some c \<Rightarrow> c)"
    and rows: "rows = take (fetched req) (sort_key newest_first (filter (after_cursor c) (flow_matching req e)))"
  shows "\<exists>page. ListFlows (req\<lparr>fq_cursor := token\<rparr>) e = Inr page \<and> fpg_range page = flow_range req e \<and>
    (fpg_flows page, fpg_next_cursor page) = (let n = nat (flows_limit (fq_limit req)) in
      (map (flow_view (env_names e)) (if n < length rows then take n rows else rows), if n < length rows then row_cursor (last (take n rows)) else []))"
proof -
  let ?n = "flows_limit (fq_limit req)"
  obtain r where r: "resolveRange e (fq_from req) (fq_to req) = Inr r" "flow_range req e = r"
    using assms(2) by (auto simp: flow_request_ok_def flow_range_def split: sum.split_asm)
  obtain w where w: "find (\<lambda>w. w_id w = fq_workload req) (rb_workloads (re_db e)) = Some w"
    using assms(2) by (cases "find (\<lambda>w. w_id w = fq_workload req) (rb_workloads (re_db e))") (auto simp: flow_request_ok_def find_None_iff)
  obtain rec where rec: "GetWorkloadRecord e (fq_workload req) = Inr rec" using assms(1) w by (simp add: GetWorkloadRecord_def flow_read_ok_def)
  have lim: "boundedPageLimit (?n + 1) = int (fetched req)"
    using flows_limit_bounds [of "fq_limit req"] by (simp add: boundedPageLimit_def fetched_def MaxPageLimit_def min_def)
  have "int (fetched req) < 2 ^ 31" using flows_limit_bounds [of "fq_limit req"] by (simp add: fetched_def)
  then have take: "limited (int (fetched req)) xs = Inr (take (fetched req) xs)" for xs :: "WindowRow list" by (simp add: limited_small)
  have sel: "filter (\<lambda>x. page_selects (flows_query req r before) x \<and> after_cursor c x) (fd_windows (rb_flows (re_db e))) = filter (after_cursor c) (flow_matching req e)"
    by (simp add: flow_matching_def page_selects_before [of req r before] r(2))
  have q: "wpq_before (flows_query req r before) = before" "wpq_limit (flows_query req r before) = ?n + 1" by (simp_all add: flows_query_def)
  have page: "ListWindowPage (re_ok e Stmt_Windows) (flows_query req r before) (rb_flows (re_db e)) = Inr rows"
    using assms(1) unfolding ListWindowPage_def q c [symmetric] Let_def lim sel take rows by (simp add: flow_read_ok_def)
  have names: "loadNames e = Inr (env_names e)" using assms(1) by (simp add: loadNames_def flow_read_ok_def env_names_def)
  have less: "?n < int (length xs) \<longleftrightarrow> nat ?n < length xs" for xs :: "WindowRow list" using flows_limit_bounds [of "fq_limit req"] by linarith
  have "flows_query (req\<lparr>fq_cursor := token\<rparr>) r before = flows_query req r before" by (simp add: flows_query_def)
  then show ?thesis using assms(2,3) r rec page names by (simp add: ListFlows_def flow_request_ok_def less Let_def)
qed

lemma row_cursor_decodes:
  assumes "nano_fits (wr_start r)" and "bigint (wr_id r)"
  shows "decodeFlowsCursor (row_cursor r) = Inr (Some \<lparr>wc_start = wr_start r, wc_id = wr_id r\<rparr>)"
proof -
  let ?parts = "[show_int (wr_start r), show_int (wr_id r)]"
  have cursor: "row_cursor r = encodeCursor (flowsCursorKind # ?parts)"
    using assms(1) by (simp add: row_cursor_def encodeFlowsCursor_def)
  have "decodeCursor (row_cursor r) flowsCursorKind 2 = Some ?parts"
    unfolding cursor by (intro decode_encodeCursor) (simp_all add: flowsCursorKind_def)
  moreover have "parse_int 64 (show_int (wr_id r)) = Some (wr_id r)" using assms(2) by (intro parse_show_int) (simp_all add: bigint_def)
  moreover have "row_cursor r \<noteq> []" unfolding cursor by (rule encodeCursor_not_Nil) (simp add: flowsCursorKind_def)
  ultimately show ?thesis using assms(1) by (simp add: decodeFlowsCursor_def)
qed

lemma after_cursor_order: "after_cursor \<lparr>wc_start = wr_start r, wc_id = wr_id r\<rparr> = (\<lambda>s. newest_first r < newest_first s)"
  by (intro ext) (auto simp: after_cursor_def newest_first_def less_prod_def)

definition flows_read :: "FlowsRequest \<Rightarrow> read_env \<Rightarrow> string \<Rightarrow> (read_error, Flow list \<times> string) result" where
  "flows_read req e token = bind_result (ListFlows (req\<lparr>fq_cursor := token\<rparr>) e) (\<lambda>page. Inr (fpg_flows page, fpg_next_cursor page))"

lemma flows_read_page:
  assumes "flow_read_ok e" and "flow_request_ok req e" and "flows_limit (fq_limit req) < 500" and "decodeFlowsCursor token = Inr before"
    and "c = (case before of None \<Rightarrow> first_cursor | Some c \<Rightarrow> c)"
  shows "flows_read req e token = Inr (page_of (nat (flows_limit (fq_limit req))) row_cursor (flow_view (env_names e))
    (sort_key newest_first (filter (after_cursor c) (flow_matching req e))))"
proof -
  let ?n = "nat (flows_limit (fq_limit req))" and ?rows = "sort_key newest_first (filter (after_cursor c) (flow_matching req e))"
  have n: "0 < ?n" and f: "fetched req = ?n + 1" using flows_limit_bounds [of "fq_limit req"] assms(3) by (simp_all add: fetched_def nat_add_distrib)
  obtain page where "ListFlows (req\<lparr>fq_cursor := token\<rparr>) e = Inr page" "(fpg_flows page, fpg_next_cursor page) = page_of ?n row_cursor (flow_view (env_names e)) ?rows"
    using ListFlows_page [OF assms(1,2,4,5) refl] page_of_probe [OF n refl, of "flow_view (env_names e)" ?rows row_cursor] unfolding f Let_def by auto
  then show ?thesis by (simp add: flows_read_def)
qed

lemma first_cursor_all:
  assumes "flow_rows_ok e"
  shows "filter (after_cursor first_cursor) (flow_matching req e) = flow_matching req e"
  using assms unfolding flow_matching_def filter_filter flow_rows_ok_def by (intro filter_cong) auto

interpretation flow_pages: cursor_reads newest_first
  "\<lambda>req e. flow_read_ok e \<and> flow_rows_ok e \<and> flow_request_ok req e \<and> flows_limit (fq_limit req) < 500" flow_matching
  "\<lambda>req. nat (flows_limit (fq_limit req))" row_cursor "\<lambda>e. flow_view (env_names e)" flows_read
proof (unfold_locales, goal_cases)
  case (1 req)
  then show ?case using flows_limit_bounds by simp
next
  case (2 req e)
  then have "distinct (map wr_id (fd_windows (rb_flows (re_db e))))" by (simp add: flow_rows_ok_def)
  then show ?case by (auto simp: flow_matching_def distinct_map inj_on_def newest_first_def)
next
  case (3 r)
  then show ?case by (simp add: row_cursor_def encodeFlowsCursor_def flowsCursorKind_def encodeCursor_not_Nil)
next
  case (4 req e)
  then show ?case using flows_read_page [of e req "[]" None] by (simp add: decodeFlowsCursor_def first_cursor_all)
next
  case (5 req e r)
  have "nano_fits (wr_start r)" "bigint (wr_id r)" using 5 by (simp_all add: flow_matching_def flow_rows_ok_def)
  from flows_read_page [OF _ _ _ row_cursor_decodes [OF this] refl] 5 show ?case by (simp add: after_cursor_order)
qed

section \<open>Properties\<close>

text \<open>A client that follows the cursors of a workload's flows with a page limit below 500 is done after as
  many pages as the matching windows fill, and has then met every window of the range it asked for
  exactly once, the newest first.\<close>

lemma flow_pages_complete:
  assumes "flow_read_ok e" and "flow_rows_ok e" and "flow_request_ok req e" and "flows_limit (fq_limit req) < 500"
    and "0 < n" and "length (flow_matching req e) \<le> n * nat (flows_limit (fq_limit req))"
  shows "follow n (\<lambda>token. bind_result (ListFlows (req\<lparr>fq_cursor := token\<rparr>) e) (\<lambda>page. Inr (fpg_flows page, fpg_next_cursor page))) [] =
    Some (Inr (map (flow_view (env_names e)) (sort_key newest_first (flow_matching req e))))"
  using flow_pages.follow_all [of e req n] assms by (simp add: flows_read_def [abs_def])

definition demo_flows_request :: "int \<Rightarrow> FlowsRequest" where
  "demo_flows_request n = \<lparr>fq_workload = ''w1'', fq_from = -10, fq_to = 1000, fq_verdict = POLICY_DECISION_UNSPECIFIED, fq_direction = DIRECTION_UNSPECIFIED,
     fq_peer = [], fq_service = None, fq_cursor = [], fq_limit = n\<rparr>"

lemma demo_flow_reads: "flow_read_ok demo_read_env" "flow_rows_ok demo_read_env" "flow_request_ok (demo_flows_request n) demo_read_env"
proof -
  show "flow_read_ok demo_read_env" by code_simp
  show "flow_rows_ok demo_read_env"
    by (simp add: flow_rows_ok_def demo_read_env_def demo_flow_db_def nano_fits_def bigint_def after_cursor_def first_cursor_def)
  show "flow_request_ok (demo_flows_request n) demo_read_env"
    by (simp add: flow_request_ok_def demo_flows_request_def demo_read_env_def demo_fleet_workload_def uuid_Nil_def resolveRange_def zero_time_def Let_def)
qed

text \<open>\<^bold>\<open>C20\<close>: asked for pages of 500 or more, the flows read never issues a cursor: the store caps the row that would tell
  whether a next page exists, so whatever lies beyond the newest 500 windows cannot be reached.\<close>

theorem flow_pages_end_at_500:
  assumes "flow_read_ok e" and "flow_rows_ok e" and "flow_request_ok req e" and "500 \<le> fq_limit req"
  shows "\<exists>page. ListFlows (req\<lparr>fq_cursor := []\<rparr>) e = Inr page \<and> fpg_next_cursor page = [] \<and>
    fpg_flows page = map (flow_view (env_names e)) (take 500 (sort_key newest_first (flow_matching req e)))"
proof -
  have n: "flows_limit (fq_limit req) = 500" using assms(4) by (simp add: flows_limit_def MaxPageLimit_def Let_def)
  then show ?thesis using ListFlows_page [OF assms(1,3), of "[]" None first_cursor, OF _ _ refl]
    by (auto simp: decodeFlowsCursor_def fetched_def Let_def first_cursor_all [OF assms(2)] split: if_split_asm)
qed

theorem flow_pages_end_at_500_witness:
  "\<exists>page. ListFlows (demo_flows_request 500\<lparr>fq_cursor := []\<rparr>) demo_read_env = Inr page \<and> fpg_next_cursor page = [] \<and> map fl_id (fpg_flows page) = [3, 1]"
proof -
  have rows: "map wr_id (sort_key newest_first (flow_matching (demo_flows_request 500) demo_read_env)) = [3, 1]" by code_simp
  then have "length (sort_key newest_first (flow_matching (demo_flows_request 500) demo_read_env)) = 2" by (metis length_map list.size(3,4) One_nat_def Suc_1 add.commute plus_1_eq_Suc)
  then show ?thesis using flow_pages_end_at_500 [OF demo_flow_reads, of 500] rows by (auto simp: demo_flows_request_def comp_def flow_view_def Let_def)
qed

section \<open>Scopes\<close>

lemma in_MatchWorkloads:
  assumes "distinct (map w_id ws)"
  shows "k \<in> set (MatchWorkloads sel (index_by w_id LabelMap ws)) \<longleftrightarrow> (\<exists>w\<in>set ws. w_id w = k \<and> Matches sel (LabelMap w))"
proof -
  have "k \<in> w_id ` set ws" if k: "k \<in> set (MatchWorkloads sel (index_by w_id LabelMap ws))"
  proof -
    obtain l where "(k, l) \<in> set (index_by w_id LabelMap ws)" using k by (auto simp: MatchWorkloads_def)
    then have "map_of (index_by w_id LabelMap ws) k = Some l" by (simp add: gomap_in_iff)
    then show ?thesis using index_by_SomeD [of w_id LabelMap ws k l] by auto
  qed
  then show ?thesis using match_index [OF assms] by auto
qed

text \<open>What a request's scope covers: the workload it names, if it names one, and those its selector matches, if it has one.\<close>

definition covers :: "read_env \<Rightarrow> uuid option \<Rightarrow> Selector \<Rightarrow> uuid \<Rightarrow> bool" where
  "covers e w sel k = ((w = None \<or> w = Some k) \<and> (sel = [] \<or> (\<exists>v\<in>set (rb_workloads (re_db e)). w_id v = k \<and> Matches sel (LabelMap v))))"

lemma read_scope_covers:
  assumes "distinct (map w_id (rb_workloads (re_db e)))" and "read_scope e w sel = Inr (ids, scoped)"
  shows "scoped \<longleftrightarrow> w \<noteq> None \<or> sel \<noteq> []" and "if scoped then (\<forall>k. k \<in> set ids \<longleftrightarrow> covers e w sel k) else ids = [] \<and> (\<forall>k. covers e w sel k)"
proof -
  have "(scoped \<longleftrightarrow> w \<noteq> None \<or> sel \<noteq> []) \<and> (if scoped then (\<forall>k. k \<in> set ids \<longleftrightarrow> covers e w sel k) else ids = [] \<and> (\<forall>k. covers e w sel k))"
  proof (cases "sel = []")
    case True
    then show ?thesis using assms(2) by (auto simp: read_scope_def covers_def split: option.split_asm)
  next
    case False
    then have "ids = filter (\<lambda>k. w = None \<or> w = Some k) (MatchWorkloads sel (ListWorkloadLabelIndex (re_db e)))" "scoped"
      using assms(2) by (auto simp: read_scope_def split: option.split_asm if_split_asm)
    then show ?thesis using False by (auto simp: covers_def ListWorkloadLabelIndex_def in_MatchWorkloads [OF assms(1)])
  qed
  then show "scoped \<longleftrightarrow> w \<noteq> None \<or> sel \<noteq> []" "if scoped then (\<forall>k. k \<in> set ids \<longleftrightarrow> covers e w sel k) else ids = [] \<and> (\<forall>k. covers e w sel k)"
    by blast+
qed

definition rollup_asked :: "RollupRequest \<Rightarrow> read_env \<Rightarrow> WindowRow \<Rightarrow> bool" where
  "rollup_asked req e r = (case resolveRange e (ro_from req) (ro_to req) of Inl _ \<Rightarrow> False | Inr rg \<Rightarrow>
     range_from rg \<le> wr_start r \<and> wr_start r < range_to rg \<and>
     any_or (PolicyDecision_number (ro_verdict req)) (PolicyDecision_number (sr_decision (wr_record r))) \<and>
     any_or (Direction_number (ro_direction req)) (Direction_number (sr_direction (wr_record r))) \<and>
     (case ro_service req of None \<Rightarrow> True | Some s \<Rightarrow> service_selected (fsv_protocol s) (fsv_port s) (wr_record r)))"

text \<open>A record is seen by a rollup through its reporter or, when either end is asked for, its source.\<close>

definition rollup_sees :: "RollupRequest \<Rightarrow> read_env \<Rightarrow> WindowRow \<Rightarrow> bool" where
  "rollup_sees req e r = (covers e (ro_workload req) (ro_selector req) (wr_workload r) \<or>
     ParseEndpoint (ro_endpoint req) = Some EndpointEither \<and> fp_kind (sr_peer (wr_record r)) = FlowPeerWorkload \<and>
     covers e (ro_workload req) (ro_selector req) (fp_key (sr_peer (wr_record r))))"

lemma group_by_trimmed:
  "trim_space ''rule'' = ''rule''" "trim_space ''peer'' = ''peer''" "trim_space ''src'' = ''src''" "trim_space ''dst'' = ''dst''" "trim_space ''service'' = ''service''"
  by (simp_all add: trim_space_printable printable_def)

lemma group_by_lowered:
  "to_lower ''rule'' = ''rule''" "to_lower ''peer'' = ''peer''" "to_lower ''src'' = ''src''" "to_lower ''dst'' = ''dst''" "to_lower ''service'' = ''service''"
  by (simp_all add: case_eval)

lemma group_by_joined:
  "list_all (\<lambda>g. join '','' (map (\<lambda>p. to_lower (trim_space p)) (split_on CHR '','' g)) = g) GroupBys"
  by (simp add: GroupBys_def group_by_defs group_by_trimmed group_by_lowered)

lemma find_self: "g \<in> set gs \<Longrightarrow> find (\<lambda>x. x = g) gs = Some g"
  by (induction gs) auto

lemma group_by_names: "g \<in> set GroupBys \<Longrightarrow> ParseGroupBy g = Some g"
  using group_by_joined by (simp add: ParseGroupBy_def list_all_iff find_self)

section \<open>Properties of scopes and shown policies\<close>

text \<open>\<^bold>\<open>C21\<close>: a rollup counts exactly the records in range whose reporting workload, or source where either end is
  asked for, is in the scope of the request: the workload it names and the workloads its selector
  matches now. A selector that matches none counts nothing, not everything.\<close>

theorem rollup_scope_exact:
  assumes "distinct (map w_id (rb_workloads (re_db e)))" and "Reader_Rollup req e = Inr out"
  shows "ct_flow_count (ru_totals out) = int (length (filter (\<lambda>r. rollup_sees req e r \<and> rollup_asked req e r) (fd_windows (rb_flows (re_db e)))))"
proof -
  obtain endpoint rg ids scoped where parts: "ParseEndpoint (ro_endpoint req) = Some endpoint" "resolveRange e (ro_from req) (ro_to req) = Inr rg"
      "read_scope e (ro_workload req) (ro_selector req) = Inr (ids, scoped)"
    using assms(2) by (auto simp: Reader_Rollup_def split: option.split_asm prod.split_asm)
  note scope = read_scope_covers [OF assms(1) parts(3)]
  let ?q = "rollup_query req ids endpoint rg"
  show ?thesis
  proof (cases "scoped \<and> ids = []")
    case True
    then have "\<not> rollup_sees req e r" for r using scope(2) by (auto simp: rollup_sees_def)
    moreover have "ct_flow_count (ru_totals out) = 0"
      using assms(2) True parts by (auto simp: Reader_Rollup_def Let_def split: option.split_asm)
    ultimately show ?thesis by simp
  next
    case False
    obtain res where res: "RollupGroups (re_ok e Stmt_Rollup) (re_collate e) ?q (rb_flows (re_db e)) = Inr res" "ct_flow_count (ru_totals out) = res_flow_count res"
      using assms(2) False parts by (cases "RollupGroups (re_ok e Stmt_Rollup) (re_collate e) ?q (rb_flows (re_db e))")
        (auto simp: Reader_Rollup_def Let_def split: option.split_asm group_error.split_asm)
    have sees: "in_scope ids (endpoint = EndpointEither) r \<longleftrightarrow> rollup_sees req e r" for r
      using scope(2) False parts(1) by (cases scoped) (simp_all add: in_scope_def rollup_sees_def)
    have "service_selected (gq_protocol ?q) (gq_dst_port ?q) s \<longleftrightarrow>
        (case ro_service req of None \<Rightarrow> True | Some f \<Rightarrow> service_selected (fsv_protocol f) (fsv_port f) s)" for s
      by (cases "ro_service req") (simp_all add: rollup_query_def service_selected_def)
    then have "group_selects ?q r \<longleftrightarrow> rollup_sees req e r \<and> rollup_asked req e r" for r
      using parts(2) sees [of r] by (simp add: group_selects_def rollup_asked_def) (simp add: rollup_query_def)
    then have "group_selects ?q = (\<lambda>r. rollup_sees req e r \<and> rollup_asked req e r)" by blast
    then show ?thesis using rollup_counts(2) [OF res(1) refl] res(2) by simp
  qed
qed

definition demo_rollup_request :: "Selector \<Rightarrow> RollupRequest" where
  "demo_rollup_request sel = \<lparr>ro_from = -10, ro_to = 1000, ro_group_by = GroupBySrcDst, ro_verdict = POLICY_DECISION_UNSPECIFIED,
     ro_direction = DIRECTION_UNSPECIFIED, ro_workload = Some ''w1'', ro_selector = sel, ro_endpoint = [], ro_service = None, ro_order = [], ro_limit = 0\<rparr>"

text \<open>The selector matches no workload, so the rollup counts none of the three records.\<close>

theorem rollup_scope_exact_witness:
  "\<exists>out. Reader_Rollup (demo_rollup_request [(''app'', [''web''])]) demo_read_env = Inr out \<and> ct_flow_count (ru_totals out) = 0"
proof -
  let ?sel = "[(''app'', [''web''])]"
  have ok: "distinct (map w_id (rb_workloads (re_db demo_read_env)))" by code_simp
  have sel: "ValidateSelector ?sel = None" by code_simp
  have "MatchWorkloads ?sel (ListWorkloadLabelIndex (re_db demo_read_env)) = []" by code_simp
  moreover have "case GetWorkloadRecord demo_read_env ''w1'' of Inl _ \<Rightarrow> False | Inr _ \<Rightarrow> True" by code_simp
  then obtain rec where "GetWorkloadRecord demo_read_env ''w1'' = Inr rec" by (auto split: sum.split_asm)
  ultimately have scope: "read_scope demo_read_env (Some ''w1'') ?sel = Inr ([], True)" using sel by (simp add: read_scope_def) (simp add: demo_read_env_def)
  have "ParseEndpoint [] = Some EndpointDst" by code_simp
  moreover have "resolveRange demo_read_env (-10) 1000 = Inr \<lparr>range_from = -10, range_to = 1000\<rparr>" by code_simp
  ultimately obtain out where out: "Reader_Rollup (demo_rollup_request ?sel) demo_read_env = Inr out"
    using scope group_by_names [of GroupBySrcDst] by (simp add: Reader_Rollup_def demo_rollup_request_def GroupBys_def Let_def)
  have "list_all (\<lambda>v. \<not> Matches ?sel (LabelMap v)) (rb_workloads (re_db demo_read_env))" by code_simp
  then have "\<not> rollup_sees (demo_rollup_request ?sel) demo_read_env r" for r by (simp add: rollup_sees_def covers_def demo_rollup_request_def list_all_iff)
  then have "filter (\<lambda>r. rollup_sees (demo_rollup_request ?sel) demo_read_env r \<and> rollup_asked (demo_rollup_request ?sel) demo_read_env r)
      (fd_windows (rb_flows (re_db demo_read_env))) = []" by simp
  then show ?thesis using rollup_scope_exact [OF ok out] out by simp
qed

section \<open>The policy shown\<close>

lemma rendered_rule_match:
  "rdr_id (rendered_rule authored r) = rule_id r \<and> rdr_peer_cidrs (rendered_rule authored r) = peer_cidrs r \<and>
   rdr_protocol (rendered_rule authored r) = protocol r \<and> rdr_ports (rendered_rule authored r) = ports r"
  by (simp add: rendered_rule_def Let_def split: sum.split prod.split option.split)

text \<open>The rendered policy the console shows permits exactly the traffic the persisted one permits, at the version the
  agent is served, with the verdict the agent gives to what no rule admits.\<close>

lemma shown_policy_permits:
  assumes "RenderedPolicy e k = Inr out" and "map_of (rb_policies (re_db e)) k = Some (p, t)" and "distinct (map rule_id (inbound_rules p))"
  shows "rpv_version out = version p" and "rpv_terminal_verdict out = TerminalDecision_of (mode p)"
    and "permits p a pr n \<longleftrightarrow> (\<exists>r\<in>set (rpv_rules out).
      rule_permits a pr n \<lparr>rule_id = rdr_id r, peer_cidrs = rdr_peer_cidrs r, protocol = rdr_protocol r, ports = rdr_ports r\<rparr>)"
proof -
  have out: "rpv_version out = version (Canonical (Some p))" "rpv_terminal_verdict out = TerminalVerdict (mode (Canonical (Some p)))"
    "rpv_rules out = map (rendered_rule (authored_index (rb_rulesets (re_db e)))) (inbound_rules (Canonical (Some p)))"
    using assms(1,2) by (auto simp: RenderedPolicy_def Let_def split: if_split_asm)
  then show "rpv_version out = version p" "rpv_terminal_verdict out = TerminalDecision_of (mode p)" by (simp_all add: terminal_verdict_agrees)
  have "permits p a pr n \<longleftrightarrow> (\<exists>r\<in>set (inbound_rules (Canonical (Some p))). rule_permits a pr n r)"
    using permits_Canonical [OF assms(3)] by (simp add: permits_def list_ex_iff)
  then show "permits p a pr n \<longleftrightarrow> (\<exists>r\<in>set (rpv_rules out).
      rule_permits a pr n \<lparr>rule_id = rdr_id r, peer_cidrs = rdr_peer_cidrs r, protocol = rdr_protocol r, ports = rdr_ports r\<rparr>)"
    by (simp only: out(3) set_map bex_simps rule_permits_def) (simp add: rendered_rule_match)
qed

section \<open>Services read back\<close>

lemma to_lower_fixed: "\<forall>c\<in>set s. (of_char c :: nat) < 128 \<and> ascii_lower c = c \<Longrightarrow> to_lower s = s"
  by (induction s) (simp_all add: to_lower_ascii)

lemma dec_lower: "is_dec c \<Longrightarrow> (of_char c :: nat) < 128 \<and> ascii_lower c = c"
  by (auto simp: is_dec_def ascii_lower_def)

lemma service_text:
  assumes "\<forall>c\<in>set name. printable c \<and> (of_char c :: nat) < 128 \<and> ascii_lower c = c"
  shows "trim_space (to_lower (name @ ''/'' @ show_dec n)) = name @ ''/'' @ show_dec n"
proof -
  have "to_lower (name @ ''/'' @ show_dec n) = name @ ''/'' @ show_dec n"
    using assms show_dec_is_dec by (intro to_lower_fixed) (auto simp: dec_lower, auto simp: ascii_lower_def)
  moreover have "trim_space (name @ ''/'' @ show_dec n) = name @ ''/'' @ show_dec n"
    using assms by (intro trim_space_printable) (auto simp: is_dec_is_hex is_hex_printable dest: show_dec_is_dec, simp add: printable_def)
  ultimately show ?thesis by simp
qed

lemma service_roundtrip:
  assumes "named_protocol (fsv_protocol s)" and "fsv_protocol s = PROTOCOL_ICMP \<Longrightarrow> fsv_port s = 0"
  shows "ParseService (Service_String s) = Some s"
proof (cases "fsv_protocol s = PROTOCOL_ICMP")
  case True
  have "trim_space (to_lower ''icmp'') = ''icmp''" by (simp add: case_eval trim_space_printable printable_def)
  then show ?thesis using True assms(2) by (simp add: ParseService_def Service_String_def document_names parse_names)
next
  case False
  then obtain name where name: "ProtocolName (fsv_protocol s) = name" "name = ''tcp'' \<or> name = ''udp''" "ParseProtocol name = Some (fsv_protocol s)"
    using assms(1) ParseProtocol_name [OF assms(1)] by (cases "fsv_protocol s") (auto simp: document_names)
  have chars: "\<forall>c\<in>set name. printable c \<and> (of_char c :: nat) < 128 \<and> ascii_lower c = c" "CHR ''/'' \<notin> set name"
    using name(2) by (auto simp: printable_def ascii_lower_def)
  have "unat (fsv_port s) < 2 ^ 16" using unsigned_less [of "fsv_port s"] by simp
  then show ?thesis using False name(3) chars(2) unfolding ParseService_def Service_String_def name(1)
    by (simp add: service_text [OF chars(1), simplified])
qed

end
