(* ===== verification/ReadEndpoints.thy ===== *)
theory ReadEndpoints
  imports Surface ReadFlows
begin

text \<open>
  The read endpoints of the operator surface, \<^verbatim>\<open>internal/api/reads.go\<close>, and their query parameters,
  \<^verbatim>\<open>internal/api/params.go\<close>: each reads its parameters, calls one function of the read model and answers
  with what it returns; the JSON shape of the answer is not modelled. \<^verbatim>\<open>time.Parse\<close>, UUID parsing and the
  texts of errors are parameters. A handler that dereferences a nil pointer panics, which is an answer
  of its own here.
\<close>

section \<open>Query parameters\<close>

text \<open>A parameter that could not be read: its name and the reason.\<close>

datatype read_failure = ParamError string string | ReadError read_error

record read_texts =
  rt_time :: "string \<Rightarrow> instant option"
  rt_uuid :: "string \<Rightarrow> uuid option"
  rt_message :: "ValidationError \<Rightarrow> string"
  rt_error :: "read_error \<Rightarrow> string"

definition q_get :: "Request \<Rightarrow> string \<Rightarrow> string" where
  "q_get r name = (case map_of (rq_query r) name of Some (v # vs) \<Rightarrow> v | _ \<Rightarrow> [])"

definition q_has :: "Request \<Rightarrow> string \<Rightarrow> bool" where
  "q_has r name = (q_get r name \<noteq> [])"

definition q_text :: "Request \<Rightarrow> string \<Rightarrow> string" where
  "q_text r name = trim_space (q_get r name)"

definition param_or :: "string \<Rightarrow> string \<Rightarrow> 'a option \<Rightarrow> (read_failure, 'a) result" where
  "param_or name reason v = (case v of None \<Rightarrow> Inl (ParamError name reason) | Some x \<Rightarrow> Inr x)"

definition q_timestamp :: "read_texts \<Rightarrow> Request \<Rightarrow> string \<Rightarrow> (read_failure, instant) result" where
  "q_timestamp tx r name = (let s = q_text r name in
     if s = [] then Inr zero_time else param_or name ''not an RFC 3339 timestamp'' (rt_time tx s))"

definition q_verdict :: "Request \<Rightarrow> string \<Rightarrow> (read_failure, PolicyDecision) result" where
  "q_verdict r name = param_or name ''one of observed, allowed, would_block, blocked'' (ParseVerdict (q_text r name))"

definition q_direction :: "Request \<Rightarrow> string \<Rightarrow> (read_failure, Direction) result" where
  "q_direction r name = param_or name ''one of inbound, outbound'' (ParseDirection (q_text r name))"

definition q_mode :: "Request \<Rightarrow> string \<Rightarrow> (read_failure, EnforcementMode) result" where
  "q_mode r name = (let s = q_text r name in
     if s = [] then Inr ENFORCEMENT_MODE_UNSPECIFIED else param_or name ''one of visibility, simulation, enforced'' (ParseMode s))"

definition q_syncState :: "Request \<Rightarrow> string \<Rightarrow> (read_failure, SyncState) result" where
  "q_syncState r name = param_or name ''one of synced, pending, degraded, offline'' (ParseSyncState (q_text r name))"

definition q_lifecycle :: "Request \<Rightarrow> string \<Rightarrow> (read_failure, string) result" where
  "q_lifecycle r name = (let l = q_text r name in
     if l \<in> {[], ''active'', ''retired''} then Inr l else Inl (ParamError name ''one of active, retired''))"

definition q_workloadID :: "read_texts \<Rightarrow> Request \<Rightarrow> string \<Rightarrow> (read_failure, uuid option) result" where
  "q_workloadID tx r name = (let s = q_text r name in
     if s = [] then Inr None
     else case ParseWorkloadID (rt_uuid tx) s of Inl e \<Rightarrow> Inl (ParamError name ''not a workload id'') | Inr k \<Rightarrow> Inr (Some k))"

definition q_service :: "Request \<Rightarrow> string \<Rightarrow> (read_failure, FlowService option) result" where
  "q_service r name = (let s = q_text r name in
     if s = [] then Inr None
     else param_or name ''<protocol>/<port> such as tcp/5432, or icmp'' (map_option Some (ParseService s)))"

definition q_groupBy :: "Request \<Rightarrow> string \<Rightarrow> (read_failure, string) result" where
  "q_groupBy r name = param_or name (''one of '' @ GroupByNames) (ParseGroupBy (q_text r name))"

definition q_endpoint :: "Request \<Rightarrow> string \<Rightarrow> (read_failure, string) result" where
  "q_endpoint r name = param_or name ''one of dst, either'' (ParseEndpoint (q_text r name))"

definition q_order :: "Request \<Rightarrow> string \<Rightarrow> (read_failure, string) result" where
  "q_order r name = (let s = q_text r name in
     if s = [] then Inr OrderByConnections
     else if s = OrderByConnections \<or> s = OrderByRecency then Inr s
     else Inl (ParamError name ''one of connections, recent''))"

text \<open>Repeated \<^verbatim>\<open>key=value\<close> pairs: a key given more than once collects its values.\<close>

fun selector_of :: "string list \<Rightarrow> Selector \<Rightarrow> Selector option" where
  "selector_of [] sel = Some sel"
| "selector_of (s # ss) sel = (case cut CHR ''='' (trim_space s) of (k, v, ok) \<Rightarrow>
     if \<not> ok \<or> k = [] then None
     else selector_of ss (AList.update k ((case map_of sel k of None \<Rightarrow> [] | Some vs \<Rightarrow> vs) @ [v]) sel))"

definition q_selector :: "Request \<Rightarrow> string \<Rightarrow> (read_failure, Selector) result" where
  "q_selector r name = param_or name ''key=value'' (selector_of (case map_of (rq_query r) name of None \<Rightarrow> [] | Some vs \<Rightarrow> vs) [])"

definition q_limit :: "Request \<Rightarrow> string \<Rightarrow> (read_failure, int) result" where
  "q_limit r name = (let s = q_text r name in
     if s = [] then Inr 0
     else case parse_int 64 s of
       None \<Rightarrow> Inl (ParamError name ''a positive integer'')
     | Some n \<Rightarrow> if n \<le> 0 then Inl (ParamError name ''a positive integer'') else Inr n)"

definition invalidParameter :: "string \<Rightarrow> string \<Rightarrow> Problem" where
  "invalidParameter name reason = plain_problem ''invalid-parameter'' ''Invalid parameter'' 400 (''parameter '' @ name @ '': '' @ reason)"

definition readProblem :: "read_texts \<Rightarrow> read_failure \<Rightarrow> Problem" where
  "readProblem tx e = (case e of
     ParamError name reason \<Rightarrow> invalidParameter name reason
   | ReadError (SelectorRefused f) \<Rightarrow> invalidParameter ''label'' (join ''; '' (map (rt_message tx) (f_errors f)))
   | ReadError Read_ErrWorkloadUnknown \<Rightarrow> problemNotFound
   | ReadError ErrInvalidCursor \<Rightarrow> invalidParameter ''cursor'' ''not a cursor this endpoint issued''
   | ReadError ErrInvalidRange \<Rightarrow> invalidParameter ''to'' ''must be after from''
   | ReadError ErrWorkloadRequired \<Rightarrow> invalidParameter ''workload'' ''required; this endpoint has no unbounded form''
   | ReadError Read_ErrUnknownGroupBy \<Rightarrow> plain_problem ''invalid-parameter'' ''Invalid parameter'' 400 (rt_error tx Read_ErrUnknownGroupBy)
   | ReadError ErrUnknownEndpoint \<Rightarrow> plain_problem ''invalid-parameter'' ''Invalid parameter'' 400 (rt_error tx ErrUnknownEndpoint)
   | ReadError _ \<Rightarrow> problemInternal)"

section \<open>The endpoints\<close>

datatype 'd read_answer = Panics | Refused Problem | Answered 'd

definition answer :: "read_texts \<Rightarrow> (read_failure, 'd) result \<Rightarrow> 'd read_answer" where
  "answer tx m = (case m of Inl e \<Rightarrow> Refused (readProblem tx e) | Inr d \<Rightarrow> Answered d)"

definition read_with :: "(read_error, 'd) result \<Rightarrow> (read_failure, 'd) result" where
  "read_with m = (case m of Inl e \<Rightarrow> Inl (ReadError e) | Inr d \<Rightarrow> Inr d)"

definition rollup_request :: "read_texts \<Rightarrow> Request \<Rightarrow> (read_failure, RollupRequest) result" where
  "rollup_request tx r =
     bind_result (q_groupBy r ''group_by'') (\<lambda>groupBy.
     bind_result (q_timestamp tx r ''from'') (\<lambda>from.
     bind_result (q_timestamp tx r ''to'') (\<lambda>to.
     bind_result (q_verdict r ''verdict'') (\<lambda>verdict.
     bind_result (q_direction r ''direction'') (\<lambda>dir.
     bind_result (q_workloadID tx r ''workload'') (\<lambda>workload.
     bind_result (q_selector r ''label'') (\<lambda>sel.
     bind_result (q_endpoint r ''endpoint'') (\<lambda>ep.
     bind_result (q_service r ''service'') (\<lambda>svc.
     bind_result (q_order r ''order'') (\<lambda>order.
     bind_result (q_limit r ''limit'') (\<lambda>limit.
       Inr \<lparr>ro_from = from, ro_to = to, ro_group_by = groupBy, ro_verdict = verdict, ro_direction = dir, ro_workload = workload, ro_selector = sel,
         ro_endpoint = ep, ro_service = svc, ro_order = order, ro_limit = limit\<rparr>)))))))))))"

definition getFlowsRollup :: "read_texts \<Rightarrow> read_env \<Rightarrow> Request \<Rightarrow> RollupResult read_answer" where
  "getFlowsRollup tx e r = answer tx (bind_result (rollup_request tx r) (\<lambda>req. read_with (Reader_Rollup req e)))"

definition getFlowGaps :: "read_texts \<Rightarrow> read_env \<Rightarrow> Request \<Rightarrow> GapsResult read_answer" where
  "getFlowGaps tx e r = answer tx (
     bind_result (q_timestamp tx r ''from'') (\<lambda>from.
     bind_result (q_timestamp tx r ''to'') (\<lambda>to.
     bind_result (q_workloadID tx r ''workload'') (\<lambda>workload.
     bind_result (q_selector r ''label'') (\<lambda>sel.
     bind_result (q_limit r ''limit'') (\<lambda>limit.
       read_with (Reader_Gaps \<lparr>gqr_from = from, gqr_to = to, gqr_workload = workload, gqr_selector = sel, gqr_limit = limit\<rparr> e)))))))"

definition flows_request :: "read_texts \<Rightarrow> Request \<Rightarrow> uuid \<Rightarrow> (read_failure, FlowsRequest) result" where
  "flows_request tx r k =
     bind_result (q_timestamp tx r ''from'') (\<lambda>from.
     bind_result (q_timestamp tx r ''to'') (\<lambda>to.
     bind_result (q_verdict r ''verdict'') (\<lambda>verdict.
     bind_result (q_direction r ''direction'') (\<lambda>dir.
     bind_result (q_service r ''service'') (\<lambda>svc.
     bind_result (q_limit r ''limit'') (\<lambda>limit.
       Inr \<lparr>fq_workload = k, fq_from = from, fq_to = to, fq_verdict = verdict, fq_direction = dir, fq_peer = q_text r ''peer'', fq_service = svc,
         fq_cursor = q_text r ''cursor'', fq_limit = limit\<rparr>))))))"

text \<open>The parameter must be there, before white space is trimmed; the id read from it is dereferenced.\<close>

definition getFlows :: "read_texts \<Rightarrow> read_env \<Rightarrow> Request \<Rightarrow> FlowsPage read_answer" where
  "getFlows tx e r = (if \<not> q_has r ''workload'' then Refused (invalidParameter ''workload'' ''required; this endpoint has no unbounded form'')
     else case q_workloadID tx r ''workload'' of
       Inl e \<Rightarrow> Refused (readProblem tx e)
     | Inr None \<Rightarrow> Panics
     | Inr (Some k) \<Rightarrow> answer tx (bind_result (flows_request tx r k) (\<lambda>req. read_with (ListFlows req e))))"

definition getWorkloads :: "read_texts \<Rightarrow> read_env \<Rightarrow> Request \<Rightarrow> (WorkloadView list \<times> string) read_answer" where
  "getWorkloads tx e r = answer tx (
     bind_result (q_selector r ''label'') (\<lambda>sel.
     bind_result (q_mode r ''mode'') (\<lambda>m.
     bind_result (q_syncState r ''sync_state'') (\<lambda>state.
     bind_result (q_lifecycle r ''lifecycle'') (\<lambda>life.
     bind_result (q_limit r ''limit'') (\<lambda>limit.
       read_with (ListWorkloads \<lparr>wq_selector = sel, wq_mode = m, wq_sync_state = state, wq_lifecycle = life, wq_cursor = q_text r ''cursor'',
         wq_page_limit = limit\<rparr> e)))))))"

definition getWorkloadCounts :: "read_texts \<Rightarrow> read_env \<Rightarrow> WorkloadCounts read_answer" where
  "getWorkloadCounts tx e = answer tx (read_with (CountWorkloads e))"

definition pathWorkloadID :: "read_texts \<Rightarrow> Context \<Rightarrow> uuid option" where
  "pathWorkloadID tx cx = (case ParseWorkloadID (rt_uuid tx) (pathParam cx ''id'') of Inl e \<Rightarrow> None | Inr k \<Rightarrow> Some k)"

definition getWorkload :: "read_texts \<Rightarrow> read_env \<Rightarrow> Context \<Rightarrow> WorkloadView read_answer" where
  "getWorkload tx e cx = (case pathWorkloadID tx cx of
     None \<Rightarrow> Refused problemNotFound
   | Some k \<Rightarrow> answer tx (read_with (GetWorkload_view e k)))"

definition getRenderedPolicy :: "read_texts \<Rightarrow> read_env \<Rightarrow> Context \<Rightarrow> RenderedPolicyView read_answer" where
  "getRenderedPolicy tx e cx = (case pathWorkloadID tx cx of
     None \<Rightarrow> Refused problemNotFound
   | Some k \<Rightarrow> answer tx (read_with (RenderedPolicy e k)))"

section \<open>What the endpoints do with their parameters\<close>

lemma getFlows_panics:
  "getFlows tx e r = Panics \<longleftrightarrow> q_get r ''workload'' \<noteq> [] \<and> trim_space (q_get r ''workload'') = []"
  by (auto simp: getFlows_def q_has_def q_workloadID_def q_text_def Let_def answer_def split: sum.splits option.splits)

text \<open>\<^bold>\<open>C29\<close>: The flows endpoint panics exactly on a workload parameter of white space only: it asks whether the
  parameter is there before trimming it, and dereferences the id that reading it did not give. On
  every other request it answers.\<close>

theorem flows_endpoint_panics:
  "getFlows tx e r = Panics \<longleftrightarrow> q_get r ''workload'' \<noteq> [] \<and> trim_space (q_get r ''workload'') = []"
  by (rule getFlows_panics)

lemma blank_workload_panics:
  "getFlows tx e \<lparr>rq_method = ''GET'', rq_path = APIPrefix @ ''/flows'', rq_host = [], rq_remote_addr = [], rq_header = (\<lambda>h. []), rq_cookies = [],
     rq_query = [(''workload'', ['' ''])], rq_body = []\<rparr> = Panics"
proof -
  have "trim_left '' '' = ''''"
    unfolding trim_left_def by (subst trim_seqs.simps) (simp add: space_seqs_def starts_with_def char_of_def bit_0 trim_seqs.simps)
  then have "trim_space '' '' = ''''" by (simp add: trim_space_def trim_right_def trim_seqs_id starts_with_def)
  then show ?thesis by (simp add: getFlows_panics q_get_def)
qed

text \<open>A label scope given as parameters: each key with the values given for it, in order.\<close>

definition label_pairs :: "string list \<Rightarrow> (string \<times> string) list" where
  "label_pairs ss = map (\<lambda>s. case cut CHR ''='' (trim_space s) of (k, v, ok) \<Rightarrow> (k, v)) ss"

lemma selector_of_values:
  "selector_of ss sel = Some out \<Longrightarrow>
     map_of out k = (let vs = (case map_of sel k of None \<Rightarrow> [] | Some vs \<Rightarrow> vs) @ map snd (filter (\<lambda>p. fst p = k) (label_pairs ss)) in
       if vs = [] \<and> map_of sel k = None then None else Some vs)"
proof (induction ss sel rule: selector_of.induct)
  case (1 sel)
  then show ?case by (auto simp: label_pairs_def split: option.split)
next
  case (2 s ss sel)
  obtain k' v ok where c: "cut CHR ''='' (trim_space s) = (k', v, ok)" by (metis prod.exhaust)
  then have ok: "ok" "k' \<noteq> []" using "2.prems" by (auto split: if_splits)
  then have s: "selector_of ss (AList.update k' ((case map_of sel k' of None \<Rightarrow> [] | Some vs \<Rightarrow> vs) @ [v]) sel) = Some out" using "2.prems" c by simp
  have p: "label_pairs (s # ss) = (k', v) # label_pairs ss" by (simp add: label_pairs_def c)
  show ?case using "2.IH" [OF c [symmetric] refl _ s] ok unfolding p by (auto simp: Let_def split: option.splits)
qed

end
