(* ===== verification/WriteEndpoints.thy ===== *)
theory WriteEndpoints
  imports ReadEndpoints Fleet Document
begin

text \<open>
  The write endpoints of the operator surface, \<^verbatim>\<open>internal/api/writes.go\<close> and \<^verbatim>\<open>writes_encode.go\<close>:
  conditional requests, what a domain error becomes, and the handlers of rulesets, rules, services,
  address groups, workload labels, mode changes, previews, dry runs and provisioning tokens, over the
  domain functions of \<open>Authoring\<close>, \<open>Fleet\<close> and \<open>Enroll\<close>. An answer is a refusal with its problem document, an
  empty success, or a status with headers and a document. The JSON reading of a body, the
  format of timestamps, the texts of errors and UUID parsing are parameters. The results: a
  conditional write that has any effect named the version the resource holds, or the empty one; a
  version read can be written with; of two writes against one version the second is refused.
\<close>

section \<open>Inputs and documents\<close>

record serviceDocJSON =
  sj_id :: string
  sj_name :: string
  sj_entries :: "EntryDoc list"
  sj_version :: string
  sj_created_at :: string
  sj_updated_at :: string

record addressGroupJSON =
  gj_id :: string
  gj_name :: string
  gj_cidrs :: "string list"
  gj_version :: string
  gj_created_at :: string
  gj_updated_at :: string

record modeChangeInput =
  mi_selector :: "Selector option"
  mi_workload_ids :: "string list"
  mi_target_mode :: string
  mi_expected :: "int option"

record renderedRuleDeltaJSON =
  rj_id :: string
  rj_protocol :: string
  rj_ports :: "PortRange list"
  rj_peer_cidrs :: "string list"

record workloadDiffJSON =
  dj_workload :: WorkloadRef
  dj_version :: "64 word"
  dj_mode :: "(string \<times> string) option"
  dj_added :: "renderedRuleDeltaJSON list"
  dj_removed :: "renderedRuleDeltaJSON list"
  dj_changed :: "(renderedRuleDeltaJSON \<times> renderedRuleDeltaJSON) list"

record provisioningTokenJSON =
  pj_id :: string
  pj_prefix :: "string option"
  pj_name :: string
  pj_labels :: "(string, string) gomap"
  pj_state :: string
  pj_created_at :: string
  pj_expires_at :: string
  pj_revoked_at :: "string option"
  pj_use_count :: nat
  pj_last_used_at :: "string option"

datatype write_doc = RulesetsDocs "RulesetDoc list" string | RulesetDocument RulesetDoc | RuleDocument RuleDoc
  | ServicesDocs "serviceDocJSON list" | ServiceDocument serviceDocJSON | GroupsDocs "addressGroupJSON list" | GroupDocument addressGroupJSON
  | LabelsDocument "(string, string) gomap" string | ResendDocument "string option"
  | RetirementDocument string string nat "(string \<times> string) option" | ModeChangeDocument string nat int
  | PreviewDocument "WorkloadRef list" nat | DryRunDocument string bool "workloadDiffJSON list"
  | ProvisioningTokensDocs "provisioningTokenJSON list" | MintedProvisioningTokenDocument provisioningTokenJSON string

datatype write_answer = Refuse Problem | NoContent | Reply nat "(string \<times> string) list" write_doc

text \<open>
  What one request meets: the environments of the domain's operations, whether each read around them
  succeeds (the name index, the references, the ruleset before and after a rule's write, the answer's
  own read), the readings of the body, and the texts. \<open>we_text\<close> is an admission error's own text,
  \<open>we_error\<close> a store error's.
\<close>

record write_env =
  we_authoring :: authoring_env
  we_fleet :: fleet_env
  we_renders :: fleet_env
  we_reads :: read_env
  we_services_ok :: bool
  we_groups_ok :: bool
  we_refs_ok :: bool
  we_existing_ok :: bool
  we_again_ok :: bool
  we_seen_ok :: bool
  we_respond_ok :: bool
  we_dry_ids :: "nat \<Rightarrow> uuid"
  we_dry_rule_ids :: "nat \<Rightarrow> nat \<Rightarrow> uuid"
  we_uuid :: "string \<Rightarrow> uuid option"
  we_timestamp :: "instant \<Rightarrow> string"
  we_text :: "mode_finding \<Rightarrow> string"
  we_detail :: "detail \<Rightarrow> string"
  we_error :: "authored_error \<Rightarrow> string"
  we_read_texts :: read_texts
  we_ruleset_doc :: "string \<Rightarrow> RulesetDoc decoded"
  we_rule_doc :: "string \<Rightarrow> RuleDoc decoded"
  we_service_doc :: "string \<Rightarrow> ServiceDoc decoded"
  we_group_doc :: "string \<Rightarrow> (string \<times> string list) decoded"
  we_labels_doc :: "string \<Rightarrow> (string, string) gomap decoded"
  we_mode_doc :: "string \<Rightarrow> modeChangeInput decoded"
  we_selector_doc :: "string \<Rightarrow> Selector decoded"
  we_dryrun_doc :: "string \<Rightarrow> (string \<times> RulesetDoc list) decoded"

type_synonym write_handler = "Context \<Rightarrow> Request \<Rightarrow> fleet_state \<Rightarrow> write_answer \<times> fleet_state"

section \<open>Conditional requests\<close>

definition trim_quotes :: "string \<Rightarrow> string" where
  "trim_quotes s = rev (dropWhile (\<lambda>c. c = CHR 0x22) (rev (dropWhile (\<lambda>c. c = CHR 0x22) s)))"

definition ifMatch :: "Request \<Rightarrow> (Problem, string) result" where
  "ifMatch r = (let raw = trim_space (rq_header r ''If-Match'') in
     if raw = [] \<or> raw = ''*'' then Inl (plain_problem ''precondition-required'' ''Precondition required'' 428
         ''this write requires If-Match with the resource version a read returned'')
     else if starts_with ''W/'' raw then Inr raw
     else Inr (trim_quotes raw))"

definition versionTag :: "string \<Rightarrow> string" where
  "versionTag v = dq @ v @ dq"

section \<open>What an error becomes\<close>

definition ruleNames :: "admission_error \<Rightarrow> string" where
  "ruleNames e = (case e of
     ErrDirectionOutbound \<Rightarrow> ''direction-outbound'' | ErrDirectionUnspecified \<Rightarrow> ''direction-required'' | ErrBadDirection \<Rightarrow> ''direction''
   | ErrEmptySelector \<Rightarrow> ''selector-empty'' | ErrEmptyLabelKey \<Rightarrow> ''label-key-required'' | ErrBadLabelKey \<Rightarrow> ''label-key''
   | ErrBadLabelValue \<Rightarrow> ''label-value'' | ErrDuplicateLabelKey \<Rightarrow> ''label-key-duplicate'' | ErrEmptyLabelValues \<Rightarrow> ''label-values-required''
   | ErrBadPortRange \<Rightarrow> ''port-range'' | ErrBadPortSpec \<Rightarrow> ''port-spec'' | ErrPortsOnPortless \<Rightarrow> ''ports-on-portless-protocol''
   | ErrBadProtocol \<Rightarrow> ''protocol'' | ErrBadCIDR \<Rightarrow> ''cidr'' | ErrUnknownService \<Rightarrow> ''service-unknown''
   | ErrUnknownAddressGroup \<Rightarrow> ''address-group-unknown'' | ErrBadPeer \<Rightarrow> ''peer-shape'' | ErrNoPeers \<Rightarrow> ''peers-required''
   | ErrNoServices \<Rightarrow> ''services-required'' | ErrNoEntries \<Rightarrow> ''entries-required'' | ErrNoCIDRs \<Rightarrow> ''cidrs-required''
   | ErrEmptyName \<Rightarrow> ''name-required'' | ErrBadID \<Rightarrow> ''id'' | ErrDuplicateRule \<Rightarrow> ''rule-id-duplicate'')"

text \<open>The fleet's own errors have no name there.\<close>

definition ValidationError_Rule :: "mode_finding \<Rightarrow> string" where
  "ValidationError_Rule e = (case e of Admission a \<Rightarrow> ruleNames a | _ \<Rightarrow> ''invalid'')"

definition ValidationError_Message :: "write_env \<Rightarrow> fleet_finding \<Rightarrow> string" where
  "ValidationError_Message en f = (let msg = trim_prefix ''policy: '' (we_text en (ff_err f)); detail = we_detail en (ff_detail f) in
     if detail \<noteq> [] then msg @ '' ('' @ detail @ '')'' else msg)"

definition findings_of :: "Findings \<Rightarrow> fleet_finding list" where
  "findings_of f = map (\<lambda>e. \<lparr>ff_path = ve_path e, ff_err = Admission (ve_err e), ff_detail = ve_detail e\<rparr>) (f_errors f)"

definition validationProblem :: "write_env \<Rightarrow> fleet_finding list \<Rightarrow> Problem" where
  "validationProblem en fs = (plain_problem ''validation'' ''Validation failed'' 400 ''the request was refused by admission; see errors'')
     \<lparr>pb_errors := map (\<lambda>e. \<lparr>fi_path = ff_path e, fi_rule = ValidationError_Rule (ff_err e), fi_message = ValidationError_Message en e\<rparr>) fs\<rparr>"

definition finding :: "string \<Rightarrow> string \<Rightarrow> string \<Rightarrow> Problem" where
  "finding path rule message = (plain_problem ''validation'' ''Validation failed'' 400 ''the request was refused; see errors'')
     \<lparr>pb_errors := [\<lparr>fi_path = path, fi_rule = rule, fi_message = message\<rparr>]\<rparr>"

datatype domain_error = OfAuthoring authoring_error | OfFleet fleet_error | OfEnroll enroll_error

definition authored_problem :: "write_env \<Rightarrow> authored_error \<Rightarrow> Problem" where
  "authored_problem en e = (case e of
     VersionMismatch v \<Rightarrow> (plain_problem ''precondition-failed'' ''Precondition failed'' 412
         ''the resource has changed since it was read; re-read it and retry with its current version'')\<lparr>pb_current_version := v\<rparr>
   | ErrRulesetUnknown \<Rightarrow> problemNotFound | ErrRuleUnknown \<Rightarrow> problemNotFound | ErrServiceUnknown \<Rightarrow> problemNotFound
   | ErrAddressGroupUnknown \<Rightarrow> problemNotFound
   | ErrDuplicateName _ \<Rightarrow> plain_problem ''duplicate-name'' ''Conflict'' 409 (trim_prefix ''policy: '' (we_error en e))
   | ErrDuplicateRuleID _ \<Rightarrow> plain_problem ''duplicate-name'' ''Conflict'' 409 (trim_prefix ''policy: '' (we_error en e))
   | ErrInUse _ \<Rightarrow> plain_problem ''in-use'' ''Conflict'' 409 ''the object is referenced by a rule and cannot be deleted''
   | _ \<Rightarrow> problemInternal)"

definition fleet_problem :: "write_env \<Rightarrow> fleet_error \<Rightarrow> Problem" where
  "fleet_problem en e = (case e of
     LabelsRejected f \<Rightarrow> validationProblem en (findings_of f)
   | BadRequest fs \<Rightarrow> validationProblem en fs
   | LabelsVersionError v \<Rightarrow> (plain_problem ''precondition-failed'' ''Precondition failed'' 412
         ''the labels have changed since they were read; re-read them and retry with their current version'')\<lparr>pb_current_version := v\<rparr>
   | MatchCountError x m \<Rightarrow> (plain_problem ''match-count-mismatch'' ''Match count mismatch'' 409
         ''the selection resolved to a different number of workloads than expected; preview it again'')\<lparr>pb_expected := Some x, pb_matched := Some m\<rparr>
   | AgentOffline t \<Rightarrow> (plain_problem ''agent-offline'' ''Agent offline'' 409 (''the workload's agent is offline as the control plane last recorded it, '' @
         ''so no reconnect was directed; it receives a fresh snapshot whenever it next connects''))\<lparr>pb_last_seen_at := Some (map_option (we_timestamp en) t)\<rparr>
   | FleetRetired k t \<Rightarrow> (plain_problem ''workload-retired'' ''Workload retired'' 409 (''the workload was retired; retirement is one way, '' @
         ''its attributes stay as they stood, and its host returns only by enrolling again as a new workload''))\<lparr>pb_retired_at := we_timestamp en t\<rparr>
   | ErrNoPrincipal \<Rightarrow> problemUnauthenticated
   | FleetUnknown \<Rightarrow> problemNotFound
   | _ \<Rightarrow> problemInternal)"

definition writeProblemFor :: "write_env \<Rightarrow> domain_error \<Rightarrow> Problem" where
  "writeProblemFor en e = (case e of
     OfAuthoring (NotAdmitted f) \<Rightarrow> validationProblem en (findings_of f)
   | OfAuthoring (StoreRefused a) \<Rightarrow> authored_problem en a
   | OfAuthoring RenderFailed \<Rightarrow> problemInternal
   | OfFleet a \<Rightarrow> fleet_problem en a
   | OfEnroll (LabelsInvalid f) \<Rightarrow> validationProblem en (findings_of f)
   | OfEnroll a \<Rightarrow> if a = enroll_error.ErrTokenUnknown then problemNotFound
       else if a = enroll_error.ErrTokenRevoked then plain_problem ''already-revoked'' ''Conflict'' 409 ''the token is already revoked''
       else problemInternal)"

definition pathUUID :: "write_env \<Rightarrow> Context \<Rightarrow> string \<Rightarrow> (Problem, uuid) result" where
  "pathUUID en cx name = (case we_uuid en (pathParam cx name) of None \<Rightarrow> Inl problemNotFound | Some k \<Rightarrow> Inr k)"

text \<open>A step that may have answered already: its refusal, or the rest of the handler.\<close>

definition guard :: "(Problem, 'a) result \<Rightarrow> ('a \<Rightarrow> write_answer \<times> 's) \<Rightarrow> 's \<Rightarrow> write_answer \<times> 's" where
  "guard m k st = (case m of Inl p \<Rightarrow> (Refuse p, st) | Inr x \<Rightarrow> k x)"

text \<open>A domain operation on the authored tables, and its outcome.\<close>

definition authoring :: "write_env \<Rightarrow> (estate \<Rightarrow> (authoring_error, 'a) result \<times> estate) \<Rightarrow> ('a \<Rightarrow> fleet_state \<Rightarrow> write_answer) \<Rightarrow> fleet_state \<Rightarrow> write_answer \<times> fleet_state" where
  "authoring en f k st = (case f (fs_estate st) of
     (Inl e, es) \<Rightarrow> (Refuse (writeProblemFor en (OfAuthoring e)), st\<lparr>fs_estate := es\<rparr>)
   | (Inr x, es) \<Rightarrow> let st = st\<lparr>fs_estate := es\<rparr> in (k x st, st))"

abbreviation authored :: "fleet_state \<Rightarrow> authored_db" where
  "authored st \<equiv> es_authored (fs_estate st)"

abbreviation collate :: "write_env \<Rightarrow> string \<Rightarrow> string" where
  "collate en \<equiv> ae_collate (we_authoring en)"

definition server_names :: "write_env \<Rightarrow> fleet_state \<Rightarrow> (Problem, Names) result" where
  "server_names en st = (if \<not> we_services_ok en \<or> \<not> we_groups_ok en then Inl (writeProblemFor en (OfAuthoring (StoreRefused AuthoredStoreError)))
     else Inr (NewNames (ListServices (collate en) (authored st)) (ListAddressGroups (collate en) (authored st))))"

definition refs_read :: "write_env \<Rightarrow> fleet_state \<Rightarrow> (authored_error, References) result" where
  "refs_read en st = (if we_refs_ok en then Inr (refs_of (authored st)) else Inl AuthoredStoreError)"

section \<open>Rulesets\<close>

definition no_names :: Names where
  "no_names = \<lparr>service_by_name = [], service_name = [], group_by_name = [], group_name = []\<rparr>"

definition rulesetJSON :: "write_env \<Rightarrow> Ruleset \<Rightarrow> RulesetDoc" where
  "rulesetJSON en rs = (let doc = RulesetToDoc (we_timestamp en) rs no_names in
     doc\<lparr>rsd_scope := (case rsd_scope doc of None \<Rightarrow> Some [] | Some s \<Rightarrow> Some s)\<rparr>)"

definition authoredRuleJSON :: "write_env \<Rightarrow> Rule \<Rightarrow> RuleDoc" where
  "authoredRuleJSON en r = RuleToDoc (we_timestamp en) r no_names"

definition listRulesets :: "write_env \<Rightarrow> write_handler" where
  "listRulesets en cx r st = (case AuthoringState (we_fleet en) st of
     Inl e \<Rightarrow> (Refuse (writeProblemFor en (OfFleet e)), st)
   | Inr (rss, v) \<Rightarrow> (Reply 200 [] (RulesetsDocs (map (rulesetJSON en) rss) v), st))"

definition decodeRuleset :: "write_env \<Rightarrow> Request \<Rightarrow> fleet_state \<Rightarrow> (Problem, Ruleset) result" where
  "decodeRuleset en r st = bind_result (decodeJSON (we_ruleset_doc en (rq_body r))) (\<lambda>doc.
     bind_result (server_names en st) (\<lambda>names. Inr (RulesetFromDoc (we_uuid en) doc names)))"

definition with_location :: "nat \<Rightarrow> string \<Rightarrow> string \<Rightarrow> (string \<times> string) list" where
  "with_location status tag path = (''ETag'', tag) # (if status = 201 then [(''Location'', APIPrefix @ path)] else [])"

definition respondRuleset :: "write_env \<Rightarrow> uuid \<Rightarrow> nat \<Rightarrow> fleet_state \<Rightarrow> write_answer" where
  "respondRuleset en k status st = (case GetRuleset (we_respond_ok en) k (authored st) of
     Inl e \<Rightarrow> Refuse (writeProblemFor en (OfAuthoring (StoreRefused e)))
   | Inr rs \<Rightarrow> Reply status (with_location status (versionTag (FormatVersion (rs_version rs))) (''/rulesets/'' @ rs_id rs)) (RulesetDocument (rulesetJSON en rs)))"

definition createRuleset :: "write_env \<Rightarrow> write_handler" where
  "createRuleset en cx r st = guard (decodeRuleset en r st) (\<lambda>rs.
     authoring en (Authoring_CreateRuleset (we_authoring en) (refs_read en st) (rs\<lparr>rs_id := uuid_Nil\<rparr>))
       (\<lambda>rs'. respondRuleset en (rs_id rs') 201) st) st"

definition getRuleset :: "write_env \<Rightarrow> write_handler" where
  "getRuleset en cx r st = guard (pathUUID en cx ''id'') (\<lambda>k. (respondRuleset en k 200 st, st)) st"

definition putRuleset :: "write_env \<Rightarrow> write_handler" where
  "putRuleset en cx r st = guard (pathUUID en cx ''id'') (\<lambda>k. guard (ifMatch r) (\<lambda>version. guard (decodeRuleset en r st) (\<lambda>rs.
     authoring en (Authoring_UpdateRuleset (we_authoring en) (refs_read en st) (GetRuleset (we_existing_ok en) k (authored st)) (rs\<lparr>rs_id := k\<rparr>) version)
       (\<lambda>_. respondRuleset en k 200) st) st) st) st"

definition deleteRuleset :: "write_env \<Rightarrow> write_handler" where
  "deleteRuleset en cx r st = guard (pathUUID en cx ''id'') (\<lambda>k. guard (ifMatch r) (\<lambda>version.
     authoring en (Authoring_DeleteRuleset (we_authoring en) k version) (\<lambda>_ _. NoContent) st) st) st"

section \<open>Rules\<close>

definition decodeRule :: "write_env \<Rightarrow> Request \<Rightarrow> fleet_state \<Rightarrow> (Problem, Rule) result" where
  "decodeRule en r st = bind_result (decodeJSON (we_rule_doc en (rq_body r))) (\<lambda>doc.
     bind_result (server_names en st) (\<lambda>names. Inr (RuleFromDoc (we_uuid en) doc names)))"

definition respondRule :: "write_env \<Rightarrow> uuid \<Rightarrow> uuid \<Rightarrow> nat \<Rightarrow> fleet_state \<Rightarrow> write_answer" where
  "respondRule en k j status st = (case GetRuleset (we_respond_ok en) k (authored st) of
     Inl e \<Rightarrow> Refuse (writeProblemFor en (OfAuthoring (StoreRefused e)))
   | Inr rs \<Rightarrow> (case find (\<lambda>x. rl_id x = j) (rs_rules rs) of
       None \<Rightarrow> Refuse problemNotFound
     | Some x \<Rightarrow> Reply status (with_location status (versionTag (FormatVersion (rl_version x))) (''/rulesets/'' @ rs_id rs @ ''/rules/'' @ j))
         (RuleDocument (authoredRuleJSON en x))))"

text \<open>The three reads of the ruleset around a rule's write: at its start, before the ruleset's write, and after a refusal.\<close>

definition rule_reads :: "write_env \<Rightarrow> uuid \<Rightarrow> fleet_state
    \<Rightarrow> ((authored_error, Ruleset) result \<Rightarrow> (authored_error, Ruleset) result \<Rightarrow> (authored_error, Ruleset) result \<Rightarrow> 'a) \<Rightarrow> 'a" where
  "rule_reads en k st f = f (GetRuleset (we_existing_ok en) k (authored st)) (GetRuleset (we_again_ok en) k (authored st)) (GetRuleset (we_seen_ok en) k (authored st))"

definition createRule :: "write_env \<Rightarrow> write_handler" where
  "createRule en cx r st = guard (pathUUID en cx ''id'') (\<lambda>k. guard (decodeRule en r st) (\<lambda>rule.
     authoring en (rule_reads en k st (CreateRule (we_authoring en) (refs_read en st)) (rule\<lparr>rl_id := uuid_Nil\<rparr>))
       (\<lambda>x. respondRule en k (case x of None \<Rightarrow> uuid_Nil | Some rule \<Rightarrow> rl_id rule) 201) st) st) st"

definition getRule :: "write_env \<Rightarrow> write_handler" where
  "getRule en cx r st = guard (pathUUID en cx ''id'') (\<lambda>k. guard (pathUUID en cx ''rule_id'') (\<lambda>j. (respondRule en k j 200 st, st)) st) st"

definition putRule :: "write_env \<Rightarrow> write_handler" where
  "putRule en cx r st = guard (pathUUID en cx ''id'') (\<lambda>k. guard (pathUUID en cx ''rule_id'') (\<lambda>j. guard (ifMatch r) (\<lambda>version.
     guard (decodeRule en r st) (\<lambda>rule.
       authoring en (rule_reads en k st (UpdateRule (we_authoring en) (refs_read en st)) (rule\<lparr>rl_id := j\<rparr>) version)
         (\<lambda>_. respondRule en k j 200) st) st) st) st) st"

definition deleteRule :: "write_env \<Rightarrow> write_handler" where
  "deleteRule en cx r st = guard (pathUUID en cx ''id'') (\<lambda>k. guard (pathUUID en cx ''rule_id'') (\<lambda>j. guard (ifMatch r) (\<lambda>version.
     authoring en (rule_reads en k st (DeleteRule (we_authoring en) (refs_read en st)) j version) (\<lambda>_ _. NoContent) st) st) st) st"

section \<open>Services and address groups\<close>

definition GetService :: "bool \<Rightarrow> uuid \<Rightarrow> authored_db \<Rightarrow> (authored_error, Service) result" where
  "GetService ok k db = (if \<not> ok then Inl AuthoredStoreError
     else case row_of svc_id k (ad_services db) of None \<Rightarrow> Inl ErrServiceUnknown | Some s \<Rightarrow> Inr s)"

definition GetAddressGroup :: "bool \<Rightarrow> uuid \<Rightarrow> authored_db \<Rightarrow> (authored_error, AddressGroup) result" where
  "GetAddressGroup ok k db = (if \<not> ok then Inl AuthoredStoreError
     else case row_of grp_id k (ad_groups db) of None \<Rightarrow> Inl ErrAddressGroupUnknown | Some g \<Rightarrow> Inr g)"

definition serviceJSONOf :: "write_env \<Rightarrow> Service \<Rightarrow> serviceDocJSON" where
  "serviceJSONOf en s = \<lparr>sj_id = svc_id s, sj_name = svc_name s, sj_entries = map entryToDoc (svc_entries s), sj_version = FormatVersion (svc_version s),
     sj_created_at = we_timestamp en (svc_created_at s), sj_updated_at = we_timestamp en (svc_updated_at s)\<rparr>"

definition addressGroupJSONOf :: "write_env \<Rightarrow> AddressGroup \<Rightarrow> addressGroupJSON" where
  "addressGroupJSONOf en g = \<lparr>gj_id = grp_id g, gj_name = grp_name g, gj_cidrs = grp_cidrs g, gj_version = FormatVersion (grp_version g),
     gj_created_at = we_timestamp en (grp_created_at g), gj_updated_at = we_timestamp en (grp_updated_at g)\<rparr>"

definition listServices :: "write_env \<Rightarrow> write_handler" where
  "listServices en cx r st = (if \<not> we_services_ok en then (Refuse (writeProblemFor en (OfAuthoring (StoreRefused AuthoredStoreError))), st)
     else (Reply 200 [] (ServicesDocs (map (serviceJSONOf en) (ListServices (collate en) (authored st)))), st))"

definition decodeService :: "write_env \<Rightarrow> Request \<Rightarrow> (Problem, Service) result" where
  "decodeService en r = bind_result (decodeJSON (we_service_doc en (rq_body r))) (\<lambda>doc. Inr (ServiceFromDoc doc))"

definition respondService :: "write_env \<Rightarrow> uuid \<Rightarrow> nat \<Rightarrow> fleet_state \<Rightarrow> write_answer" where
  "respondService en k status st = (case GetService (we_respond_ok en) k (authored st) of
     Inl e \<Rightarrow> Refuse (writeProblemFor en (OfAuthoring (StoreRefused e)))
   | Inr s \<Rightarrow> Reply status (with_location status (versionTag (FormatVersion (svc_version s))) (''/services/'' @ svc_id s)) (ServiceDocument (serviceJSONOf en s)))"

definition createService :: "write_env \<Rightarrow> write_handler" where
  "createService en cx r st = guard (decodeService en r) (\<lambda>s.
     authoring en (Authoring_CreateService (we_authoring en) s) (\<lambda>s'. respondService en (svc_id s') 201) st) st"

definition getService :: "write_env \<Rightarrow> write_handler" where
  "getService en cx r st = guard (pathUUID en cx ''id'') (\<lambda>k. (respondService en k 200 st, st)) st"

definition putService :: "write_env \<Rightarrow> write_handler" where
  "putService en cx r st = guard (pathUUID en cx ''id'') (\<lambda>k. guard (ifMatch r) (\<lambda>version. guard (decodeService en r) (\<lambda>s.
     authoring en (Authoring_UpdateService (we_authoring en) (s\<lparr>svc_id := k\<rparr>) version) (\<lambda>_. respondService en k 200) st) st) st) st"

definition deleteService :: "write_env \<Rightarrow> write_handler" where
  "deleteService en cx r st = guard (pathUUID en cx ''id'') (\<lambda>k. guard (ifMatch r) (\<lambda>version.
     authoring en (Authoring_DeleteService (we_authoring en) k version) (\<lambda>_ _. NoContent) st) st) st"

definition addressGroupInput_group :: "string \<times> string list \<Rightarrow> AddressGroup" where
  "addressGroupInput_group doc = (case doc of (name, cidrs) \<Rightarrow>
     \<lparr>grp_id = uuid_Nil, grp_name = name, grp_cidrs = cidrs, grp_created_at = zero_time, grp_updated_at = zero_time, grp_version = 0\<rparr>)"

definition listAddressGroups :: "write_env \<Rightarrow> write_handler" where
  "listAddressGroups en cx r st = (if \<not> we_groups_ok en then (Refuse (writeProblemFor en (OfAuthoring (StoreRefused AuthoredStoreError))), st)
     else (Reply 200 [] (GroupsDocs (map (addressGroupJSONOf en) (ListAddressGroups (collate en) (authored st)))), st))"

definition respondAddressGroup :: "write_env \<Rightarrow> uuid \<Rightarrow> nat \<Rightarrow> fleet_state \<Rightarrow> write_answer" where
  "respondAddressGroup en k status st = (case GetAddressGroup (we_respond_ok en) k (authored st) of
     Inl e \<Rightarrow> Refuse (writeProblemFor en (OfAuthoring (StoreRefused e)))
   | Inr g \<Rightarrow> Reply status (with_location status (versionTag (FormatVersion (grp_version g))) (''/address-groups/'' @ grp_id g)) (GroupDocument (addressGroupJSONOf en g)))"

definition createAddressGroup :: "write_env \<Rightarrow> write_handler" where
  "createAddressGroup en cx r st = guard (decodeJSON (we_group_doc en (rq_body r))) (\<lambda>doc.
     authoring en (Authoring_CreateAddressGroup (we_authoring en) (addressGroupInput_group doc)) (\<lambda>g. respondAddressGroup en (grp_id g) 201) st) st"

definition getAddressGroup :: "write_env \<Rightarrow> write_handler" where
  "getAddressGroup en cx r st = guard (pathUUID en cx ''id'') (\<lambda>k. (respondAddressGroup en k 200 st, st)) st"

definition putAddressGroup :: "write_env \<Rightarrow> write_handler" where
  "putAddressGroup en cx r st = guard (pathUUID en cx ''id'') (\<lambda>k. guard (ifMatch r) (\<lambda>version. guard (decodeJSON (we_group_doc en (rq_body r))) (\<lambda>doc.
     authoring en (Authoring_UpdateAddressGroup (we_authoring en) ((addressGroupInput_group doc)\<lparr>grp_id := k\<rparr>) version)
       (\<lambda>_. respondAddressGroup en k 200) st) st) st) st"

definition deleteAddressGroup :: "write_env \<Rightarrow> write_handler" where
  "deleteAddressGroup en cx r st = guard (pathUUID en cx ''id'') (\<lambda>k. guard (ifMatch r) (\<lambda>version.
     authoring en (Authoring_DeleteAddressGroup (we_authoring en) k version) (\<lambda>_ _. NoContent) st) st) st"

section \<open>The fleet\<close>

text \<open>A domain operation on the fleet, and its outcome.\<close>

definition fleet_op :: "write_env \<Rightarrow> (fleet_error, 'a) result \<times> fleet_state \<Rightarrow> ('a \<Rightarrow> fleet_state \<Rightarrow> write_answer) \<Rightarrow> write_answer \<times> fleet_state" where
  "fleet_op en res k = (case res of
     (Inl e, st) \<Rightarrow> (Refuse (writeProblemFor en (OfFleet e)), st)
   | (Inr x, st) \<Rightarrow> (k x st, st))"

definition path_workload :: "write_env \<Rightarrow> Context \<Rightarrow> (Problem, uuid) result" where
  "path_workload en cx = (case pathWorkloadID (we_read_texts en) cx of None \<Rightarrow> Inl problemNotFound | Some k \<Rightarrow> Inr k)"

definition sortedKeys :: "(string, string) gomap \<Rightarrow> string list" where
  "sortedKeys m = sort (map fst m)"

definition labelsInput_labels :: "(string, string) gomap \<Rightarrow> Label list" where
  "labelsInput_labels m = map (\<lambda>k. \<lparr>label_key = k, label_value = (case map_of m k of None \<Rightarrow> [] | Some v \<Rightarrow> v)\<rparr>) (sortedKeys m)"

definition labelMap :: "Label list \<Rightarrow> (string, string) gomap" where
  "labelMap ls = index_by label_key label_value ls"

text \<open>The read model on the tables as they stand.\<close>

definition reads_of :: "write_env \<Rightarrow> fleet_state \<Rightarrow> read_env" where
  "reads_of en st = (we_reads en)\<lparr>re_db := (re_db (we_reads en))\<lparr>rb_workloads := es_workloads (fs_estate st)\<rparr>\<rparr>"

definition respondLabels :: "write_env \<Rightarrow> uuid \<Rightarrow> fleet_state \<Rightarrow> write_answer" where
  "respondLabels en k st = (case GetWorkload_view (reads_of en st) k of
     Inl e \<Rightarrow> Refuse (readProblem (we_read_texts en) (ReadError e))
   | Inr w \<Rightarrow> let v = LabelsVersion (fe_digest (we_fleet en)) (v_labels w) in
       Reply 200 [(''ETag'', versionTag v)] (LabelsDocument (labelMap (v_labels w)) v))"

definition getWorkloadLabels :: "write_env \<Rightarrow> write_handler" where
  "getWorkloadLabels en cx r st = guard (path_workload en cx) (\<lambda>k. (respondLabels en k st, st)) st"

definition putWorkloadLabels :: "write_env \<Rightarrow> write_handler" where
  "putWorkloadLabels en cx r st = guard (path_workload en cx) (\<lambda>k. guard (ifMatch r) (\<lambda>version. guard (decodeJSON (we_labels_doc en (rq_body r))) (\<lambda>doc.
     fleet_op en (SetLabels (we_fleet en) (we_renders en) k (labelsInput_labels doc) version st) (\<lambda>_. respondLabels en k)) st) st) st"

definition resendSnapshot :: "write_env \<Rightarrow> write_handler" where
  "resendSnapshot en cx r st = guard (path_workload en cx) (\<lambda>k.
     fleet_op en (RequestReconnect (we_fleet en) k st) (\<lambda>t _. Reply 200 [] (ResendDocument (map_option (we_timestamp en) t)))) st"

definition retirementJSON :: "write_env \<Rightarrow> Retirement \<Rightarrow> write_doc" where
  "retirementJSON en x = RetirementDocument (ret_id x) (we_timestamp en (ret_at x)) (length (rep_changed (ret_rendered x)))
     (map_option (\<lambda>g. (we_timestamp en (sg_from g), we_timestamp en (sg_to g))) (ret_closed x))"

definition retireWorkload :: "write_env \<Rightarrow> write_handler" where
  "retireWorkload en cx r st = guard (path_workload en cx) (\<lambda>k.
     fleet_op en (Retire (we_fleet en) (cx_principal cx \<noteq> None) k st) (\<lambda>x _. Reply 200 [] (retirementJSON en x))) st"

fun mode_ids :: "write_env \<Rightarrow> (nat \<times> string) list \<Rightarrow> (Problem, uuid list) result" where
  "mode_ids en [] = Inr []"
| "mode_ids en ((i, s) # xs) = (case ParseWorkloadID (rt_uuid (we_read_texts en)) s of
     Inl e \<Rightarrow> Inl (finding (index_path ''workload_ids'' i) ''id'' ''not a workload id'')
   | Inr k \<Rightarrow> bind_result (mode_ids en xs) (\<lambda>ks. Inr (k # ks)))"

definition modeChangeInput_request :: "write_env \<Rightarrow> modeChangeInput \<Rightarrow> (Problem, ModeChangeRequest) result" where
  "modeChangeInput_request en doc = bind_result (mode_ids en (enumerate 0 (mi_workload_ids doc))) (\<lambda>ids.
     Inr \<lparr>mr_selector = mi_selector doc, mr_ids = ids,
       mr_target = (if mi_target_mode doc = [] then ENFORCEMENT_MODE_UNSPECIFIED
         else case ParseMode (mi_target_mode doc) of None \<Rightarrow> ENFORCEMENT_MODE_UNSPECIFIED | Some m \<Rightarrow> m),
       mr_expected = (case mi_expected doc of None \<Rightarrow> 0 | Some n \<Rightarrow> n)\<rparr>)"

definition createModeChange :: "write_env \<Rightarrow> write_handler" where
  "createModeChange en cx r st = guard (decodeJSON (we_mode_doc en (rq_body r))) (\<lambda>doc. guard (modeChangeInput_request en doc) (\<lambda>req.
     fleet_op en (ChangeMode (we_fleet en) req (mi_expected doc \<noteq> None) st)
       (\<lambda>x _. Reply 200 [] (ModeChangeDocument (mres_id x) (mres_matched x) (mres_updated x)))) st) st"

definition previewSelector :: "write_env \<Rightarrow> write_handler" where
  "previewSelector en cx r st = guard (decodeJSON (we_selector_doc en (rq_body r))) (\<lambda>sel.
     fleet_op en (PreviewSelector (fe_listed (we_fleet en)) sel st, st) (\<lambda>refs _. Reply 200 [] (PreviewDocument refs (length refs)))) st"

definition renderedRuleDeltaJSONOf :: "ResolvedRule \<Rightarrow> renderedRuleDeltaJSON" where
  "renderedRuleDeltaJSONOf x = \<lparr>rj_id = rule_id x, rj_protocol = ProtocolName (protocol x), rj_ports = ports x, rj_peer_cidrs = peer_cidrs x\<rparr>"

definition dryRunJSON :: "DryRunResult \<Rightarrow> Workload list \<Rightarrow> write_doc" where
  "dryRunJSON res workloads = (let byID = index_by w_id (\<lambda>w. w) workloads in
     DryRunDocument (dr_version res) (dr_stale res) (map (\<lambda>d. \<lparr>dj_workload = (case map_of byID (wd_id d) of
           None \<Rightarrow> \<lparr>ref_id = wd_id d, ref_hostname = [], ref_labels = []\<rparr>
         | Some w \<Rightarrow> \<lparr>ref_id = wd_id d, ref_hostname = w_hostname w, ref_labels = LabelMap w\<rparr>),
       dj_version = wd_version d, dj_mode = map_option (\<lambda>(a, b). (ModeName a, ModeName b)) (wd_mode d),
       dj_added = map renderedRuleDeltaJSONOf (wd_added d), dj_removed = map renderedRuleDeltaJSONOf (wd_removed d),
       dj_changed = map (\<lambda>(a, b). (renderedRuleDeltaJSONOf a, renderedRuleDeltaJSONOf b)) (wd_changed d)\<rparr>) (dr_workloads res)))"

definition renderDryRun :: "write_env \<Rightarrow> write_handler" where
  "renderDryRun en cx r st = guard (decodeJSON (we_dryrun_doc en (rq_body r))) (\<lambda>(version, docs). guard (server_names en st) (\<lambda>names.
     fleet_op en (fleet_DryRun (we_fleet en) (we_dry_ids en) (we_dry_rule_ids en) (map (\<lambda>d. RulesetFromDoc (we_uuid en) d names) docs) version st, st)
       (\<lambda>res st. if re_ok (we_reads en) Stmt_Workloads then Reply 200 [] (dryRunJSON res (es_workloads (fs_estate st)))
         else Refuse (writeProblemFor en (OfFleet FleetStoreError)))) st) st"

section \<open>Provisioning tokens\<close>

definition Enroll_ListTokens :: "bool \<Rightarrow> enroll_db \<Rightarrow> (enroll_error, Token list) result" where
  "Enroll_ListTokens ok db = (if \<not> ok then Inl EnrollFailed else Inr (sort_key (\<lambda>t. (- tok_created_at t, tok_id t)) (db_tokens db)))"

definition provisioningTokenState :: "enroll_error option \<Rightarrow> string" where
  "provisioningTokenState e = (case e of
     None \<Rightarrow> ''valid''
   | Some e \<Rightarrow> if e = enroll_error.ErrTokenRevoked then ''revoked'' else if e = enroll_error.ErrTokenExpired then ''expired'' else ''invalid'')"

definition provisioningTokenJSONOf :: "write_env \<Rightarrow> Token \<Rightarrow> instant \<Rightarrow> provisioningTokenJSON" where
  "provisioningTokenJSONOf en t now = \<lparr>pj_id = tok_id t, pj_prefix = tok_prefix t, pj_name = tok_name t, pj_labels = labelMap (tok_labels t),
     pj_state = provisioningTokenState (Token_Check (Some t) now), pj_created_at = we_timestamp en (tok_created_at t),
     pj_expires_at = we_timestamp en (tok_expires_at t), pj_revoked_at = map_option (we_timestamp en) (tok_revoked_at t),
     pj_use_count = tok_use_count t, pj_last_used_at = map_option (we_timestamp en) (tok_last_used_at t)\<rparr>"

text \<open>What the token operations meet, beside the above: the hash, the drawn bytes, a fresh id, the clocks and the statements' outcome.\<close>

record token_env =
  te_sha :: "string \<Rightarrow> string"
  te_raw :: "nat list option"
  te_fresh :: uuid
  te_ok :: bool
  te_now :: instant
  te_doc :: "string \<Rightarrow> (string \<times> (string, string) gomap \<times> int) decoded"

definition enroll_op :: "write_env \<Rightarrow> (enroll_error, 'a) result \<Rightarrow> enroll_db \<Rightarrow> ('a \<Rightarrow> write_answer \<times> enroll_db) \<Rightarrow> write_answer \<times> enroll_db" where
  "enroll_op en m db k = (case m of Inl e \<Rightarrow> (Refuse (writeProblemFor en (OfEnroll e)), db) | Inr x \<Rightarrow> k x)"

definition listProvisioningTokens :: "write_env \<Rightarrow> token_env \<Rightarrow> enroll_db \<Rightarrow> write_answer \<times> enroll_db" where
  "listProvisioningTokens en te db = enroll_op en (Enroll_ListTokens (te_ok te) db) db (\<lambda>tokens.
     (Reply 200 [] (ProvisioningTokensDocs (map (\<lambda>t. provisioningTokenJSONOf en t (te_now te)) tokens)), db))"

definition provisioningTokenInput_ttl :: "int \<Rightarrow> duration" where
  "provisioningTokenInput_ttl seconds = sint (word_of_int (seconds * 1000000000) :: 64 word)"

definition mintProvisioningToken :: "write_env \<Rightarrow> token_env \<Rightarrow> Request \<Rightarrow> enroll_db \<Rightarrow> write_answer \<times> enroll_db" where
  "mintProvisioningToken en te r db = guard (decodeJSON (te_doc te (rq_body r))) (\<lambda>(name, labels, seconds).
     enroll_op en (MintToken (te_sha te) (te_raw te) (te_fresh te) (te_ok te) (te_now te) name (labelsInput_labels labels) (provisioningTokenInput_ttl seconds) db) db
       (\<lambda>(plaintext, tok, db'). (Reply 201 [(''Location'', APIPrefix @ ''/provisioning-tokens/'' @ tok_id tok)]
          (MintedProvisioningTokenDocument (provisioningTokenJSONOf en tok (te_now te)) plaintext), db'))) db"

definition revokeProvisioningToken :: "write_env \<Rightarrow> token_env \<Rightarrow> Context \<Rightarrow> enroll_db \<Rightarrow> write_answer \<times> enroll_db" where
  "revokeProvisioningToken en te cx db = guard (pathUUID en cx ''id'') (\<lambda>k.
     enroll_op en (RevokeToken (te_ok te) k (te_now te) db) db (\<lambda>db'. (NoContent, db'))) db"

section \<open>The routes of the write endpoints\<close>

definition write_endpoint :: "write_env \<Rightarrow> Endpoint \<Rightarrow> write_handler option" where
  "write_endpoint en h = map_of [
     (E_getWorkloadLabels, getWorkloadLabels en), (E_putWorkloadLabels, putWorkloadLabels en), (E_resendSnapshot, resendSnapshot en),
     (E_retireWorkload, retireWorkload en), (E_listRulesets, listRulesets en), (E_createRuleset, createRuleset en),
     (E_getRuleset, getRuleset en), (E_putRuleset, putRuleset en), (E_deleteRuleset, deleteRuleset en), (E_createRule, createRule en),
     (E_getRule, getRule en), (E_putRule, putRule en), (E_deleteRule, deleteRule en), (E_listServices, listServices en),
     (E_createService, createService en), (E_getService, getService en), (E_putService, putService en), (E_deleteService, deleteService en),
     (E_listAddressGroups, listAddressGroups en), (E_createAddressGroup, createAddressGroup en), (E_getAddressGroup, getAddressGroup en),
     (E_putAddressGroup, putAddressGroup en), (E_deleteAddressGroup, deleteAddressGroup en), (E_createModeChange, createModeChange en),
     (E_previewSelector, previewSelector en), (E_renderDryRun, renderDryRun en)] h"

section \<open>Conditional writes\<close>

text \<open>A request that had an effect: it was answered with a success, or it changed something.\<close>

definition effective :: "write_answer \<Rightarrow> 's \<Rightarrow> 's \<Rightarrow> bool" where
  "effective a st st' = ((\<forall>p. a \<noteq> Refuse p) \<or> st' \<noteq> st)"

lemma guard_effective:
  assumes "guard m k st = (a, st')" and "effective a st st'"
  shows "\<exists>x. m = Inr x \<and> k x = (a, st')"
  using assms by (auto simp: guard_def effective_def split: sum.split_asm)

definition took_effect :: "('e, 'a) result \<times> 's \<Rightarrow> 's \<Rightarrow> 's \<Rightarrow> bool" where
  "took_effect res st st' = (snd res = st' \<and> (st' \<noteq> st \<or> (\<exists>x. fst res = Inr x)))"

lemma authoring_effective:
  assumes "authoring en f k st = (a, st')" and "effective a st st'"
  shows "took_effect (f (fs_estate st)) (fs_estate st) (fs_estate st')"
  using assms by (auto simp: authoring_def effective_def took_effect_def Let_def split: prod.split_asm sum.split_asm)

lemma fleet_op_effective:
  assumes "fleet_op en res k = (a, st')" and "effective a st st'"
  shows "took_effect res st st'"
  using assms by (auto simp: fleet_op_def effective_def took_effect_def split: prod.split_asm sum.split_asm)

text \<open>The row \<open>k\<close> was there at an expected version, and is gone or at another version after.\<close>

definition bumps :: "('a \<Rightarrow> uuid) \<Rightarrow> ('a \<Rightarrow> int) \<Rightarrow> uuid \<Rightarrow> string \<Rightarrow> 'a list \<Rightarrow> 'a list \<Rightarrow> bool" where
  "bumps idf ver k v rows rows' = (\<exists>row. row_of idf k rows = Some row \<and> expected v (ver row) \<and>
     (\<forall>row'. row_of idf k rows' = Some row' \<longrightarrow> ver row' \<noteq> ver row))"

lemma then_render_effect:
  assumes "took_effect (then_render env r es) es es'"
  shows "\<exists>x db. r = Inr (x, db) \<and> es_authored es' = db"
proof (cases r)
  case (Inl e)
  with assms show ?thesis by (auto simp: took_effect_def then_render_def)
next
  case (Inr p)
  obtain res where "then_render env r es = (res, es')" using assms by (cases "then_render env r es") (simp add: took_effect_def)
  from then_render_authored [OF this] Inr show ?thesis by (cases p) auto
qed

lemma UpdateService_bumps: "UpdateService ok s v db = Inr (n, db') \<Longrightarrow> bumps svc_id svc_version (svc_id s) v (ad_services db) (ad_services db')"
  by (auto simp: UpdateService_Inr bumps_def row_of_set_row stored_service_def)

lemma DeleteService_bumps: "DeleteService ok k v db = Inr db' \<Longrightarrow> bumps svc_id svc_version k v (ad_services db) (ad_services db')"
  by (auto simp: DeleteService_def bumps_def row_of_drop_row split: if_split_asm option.split_asm)

lemma UpdateAddressGroup_bumps: "UpdateAddressGroup ck ok g v db = Inr (n, db') \<Longrightarrow> bumps grp_id grp_version (grp_id g) v (ad_groups db) (ad_groups db')"
  by (auto simp: UpdateAddressGroup_Inr bumps_def row_of_set_row stored_group_def)

lemma DeleteAddressGroup_bumps: "DeleteAddressGroup ok k v db = Inr db' \<Longrightarrow> bumps grp_id grp_version k v (ad_groups db) (ad_groups db')"
  by (auto simp: DeleteAddressGroup_def bumps_def row_of_drop_row split: if_split_asm option.split_asm)

lemma UpdateRuleset_bumps: "UpdateRuleset ok rs v db = Inr (n, db') \<Longrightarrow> bumps rs_id rs_version (rs_id rs) v (ad_rulesets db) (ad_rulesets db')"
  by (auto simp: UpdateRuleset_Inr bumps_def row_of_set_row)

lemma DeleteRuleset_bumps: "DeleteRuleset ok k v db = Inr db' \<Longrightarrow> bumps rs_id rs_version k v (ad_rulesets db) (ad_rulesets db')"
  by (auto simp: DeleteRuleset_def bumps_def row_of_drop_row split: if_split_asm option.split_asm)

lemma create_effect:
  assumes "took_effect (then_render env (bind_result r (\<lambda>db. Inr (x, db))) es) es es'"
  shows "\<exists>db. r = Inr db \<and> es_authored es' = db"
  using then_render_effect [OF assms] by (auto split: sum.split_asm)

lemma update_effect:
  assumes "took_effect (then_render env (bind_result r (\<lambda>(v, db). Inr (f v, db))) es) es es'"
  shows "\<exists>v db. r = Inr (v, db) \<and> es_authored es' = db"
  using then_render_effect [OF assms] by (auto split: sum.split_asm)

lemma refusal_no_effect: "\<not> took_effect (Inl e, st) st st'"
  by (auto simp: took_effect_def)

lemma UpdateService_effect_bumps:
  assumes "took_effect (Authoring_UpdateService env s v es) es es'"
  shows "bumps svc_id svc_version (svc_id s) v (ad_services (es_authored es)) (ad_services (es_authored es'))"
proof (cases "ValidateService s")
  case None
  from update_effect [OF assms [unfolded Authoring_UpdateService_def None option.case Let_def]] show ?thesis
    using UpdateService_bumps by fastforce
qed (use assms in \<open>simp add: Authoring_UpdateService_def refusal_no_effect\<close>)

lemma UpdateAddressGroup_effect_bumps:
  assumes "took_effect (Authoring_UpdateAddressGroup env g v es) es es'"
  shows "bumps grp_id grp_version (grp_id g) v (ad_groups (es_authored es)) (ad_groups (es_authored es'))"
proof (cases "ValidateAddressGroup g")
  case None
  from update_effect [OF assms [unfolded Authoring_UpdateAddressGroup_def None option.case Let_def]] show ?thesis
    using UpdateAddressGroup_bumps by fastforce
qed (use assms in \<open>simp add: Authoring_UpdateAddressGroup_def refusal_no_effect\<close>)

lemma delete_effect_bumps:
  "took_effect (Authoring_DeleteService env k v es) es es' \<Longrightarrow> bumps svc_id svc_version k v (ad_services (es_authored es)) (ad_services (es_authored es'))"
  "took_effect (Authoring_DeleteAddressGroup env k v es) es es' \<Longrightarrow> bumps grp_id grp_version k v (ad_groups (es_authored es)) (ad_groups (es_authored es'))"
  "took_effect (Authoring_DeleteRuleset env k v es) es es' \<Longrightarrow> bumps rs_id rs_version k v (ad_rulesets (es_authored es)) (ad_rulesets (es_authored es'))"
  unfolding Authoring_DeleteService_def Authoring_DeleteAddressGroup_def Authoring_DeleteRuleset_def
  by (drule create_effect, blast intro: DeleteService_bumps DeleteAddressGroup_bumps DeleteRuleset_bumps)+

lemma UpdateRuleset_effect_bumps:
  assumes "took_effect (Authoring_UpdateRuleset env refs existing rs v es) es es'"
  shows "bumps rs_id rs_version (rs_id rs) v (ad_rulesets (es_authored es)) (ad_rulesets (es_authored es'))"
proof -
  obtain res where r: "Authoring_UpdateRuleset env refs existing rs v es = (res, es')"
    using assms by (cases "Authoring_UpdateRuleset env refs existing rs v es") (simp add: took_effect_def)
  then show ?thesis
  proof (cases rule: Authoring_UpdateRuleset_cases)
    case (refused e)
    with assms r show ?thesis by (simp add: refusal_no_effect)
  next
    case (written refs' old)
    let ?rs = "carryRuleProvenance old (assignRuleIDs (ae_rule_ids env) rs) (ae_now env)\<lparr>rs_created_at := rs_created_at old, rs_updated_at := ae_now env\<rparr>"
    from update_effect [OF assms [unfolded r, folded written(4)]]
    obtain n db where "UpdateRuleset (ae_write_ok env) ?rs v (es_authored es) = Inr (n, db)" "es_authored es' = db" by blast
    then show ?thesis using UpdateRuleset_bumps by (fastforce simp: carryRuleProvenance_def assignRuleIDs_def)
  qed
qed

text \<open>The version the resource named by the request's path holds.\<close>

definition held_row :: "(authored_db \<Rightarrow> 'a list) \<Rightarrow> ('a \<Rightarrow> uuid) \<Rightarrow> ('a \<Rightarrow> int) \<Rightarrow> write_env \<Rightarrow> Context \<Rightarrow> fleet_state \<Rightarrow> string option" where
  "held_row rows idf ver en cx st = (case we_uuid en (pathParam cx ''id'') of
     None \<Rightarrow> None | Some k \<Rightarrow> map_option (\<lambda>x. FormatVersion (ver x)) (row_of idf k (rows (authored st))))"

definition held_rule :: "write_env \<Rightarrow> Context \<Rightarrow> fleet_state \<Rightarrow> string option" where
  "held_rule en cx st = (case (we_uuid en (pathParam cx ''id''), we_uuid en (pathParam cx ''rule_id'')) of
     (Some k, Some j) \<Rightarrow> (case row_of rs_id k (ad_rulesets (authored st)) of
       None \<Rightarrow> None | Some rs \<Rightarrow> map_option (\<lambda>i. FormatVersion (rl_version (rs_rules rs ! i))) (index_of j (rs_rules rs)))
   | _ \<Rightarrow> None)"

definition held_labels :: "write_env \<Rightarrow> Context \<Rightarrow> fleet_state \<Rightarrow> string option" where
  "held_labels en cx st = (case path_workload en cx of
     Inl _ \<Rightarrow> None | Inr k \<Rightarrow> map_option (\<lambda>w. LabelsVersion (fe_digest (we_fleet en)) (w_labels w)) (find_row k st))"

locale conditional =
  fixes handle :: "write_env \<Rightarrow> write_handler" and held :: "write_env \<Rightarrow> Context \<Rightarrow> fleet_state \<Rightarrow> string option"
  assumes guarded: "handle en cx r st = (a, st') \<Longrightarrow> effective a st st' \<Longrightarrow> \<exists>t v. ifMatch r = Inr t \<and> held en cx st = Some v \<and> (t = v \<or> t = [])"
begin

lemma stale_refused:
  assumes "ifMatch r = Inr t" and "t \<noteq> []" and "held en cx st \<noteq> Some t"
  shows "\<exists>p. handle en cx r st = (Refuse p, st)"
proof -
  obtain a st' where h: "handle en cx r st = (a, st')" by (cases "handle en cx r st")
  have "\<not> effective a st st'" using guarded [OF h] assms by auto
  then show ?thesis using h by (auto simp: effective_def)
qed

end

locale advancing = conditional +
  assumes moves: "handle en cx r st = (a, st') \<Longrightarrow> effective a st st' \<Longrightarrow> held en cx st' \<noteq> held en cx st"
    and held_env: "we_uuid en = we_uuid en' \<Longrightarrow> held en cx st = held en' cx st"
begin

lemma second_refused:
  assumes "handle en cx r st = (a, st')" and "effective a st st'" and "ifMatch r = Inr t" and "t \<noteq> []"
    and "conditional other held" and "ifMatch r' = Inr t" and "we_uuid en' = we_uuid en"
  shows "\<exists>p. other en' cx r' st' = (Refuse p, st')"
proof -
  have "held en cx st = Some t" using guarded [OF assms(1,2)] assms(3,4) by auto
  then have "held en' cx st' \<noteq> Some t" using moves [OF assms(1,2)] held_env [OF assms(7)] by metis
  then show ?thesis by (rule conditional.stale_refused [OF assms(5,6,4)])
qed

end

lemma bumps_held:
  assumes "bumps idf ver k t (rows (authored st)) (rows (authored st'))" and "we_uuid en (pathParam cx ''id'') = Some k"
  shows "\<exists>v. held_row rows idf ver en cx st = Some v \<and> (t = v \<or> t = []) \<and> held_row rows idf ver en cx st' \<noteq> Some v"
  using assms by (auto simp: bumps_def held_row_def expected_def FormatVersion_def show_int_inj)

text \<open>A handler whose effects, with the path and the version it named, moved the row on.\<close>

lemma advancing_row:
  assumes "\<And>en cx r st a st'. hdl en cx r st = (a, st') \<Longrightarrow> effective a st st' \<Longrightarrow>
      \<exists>k t. we_uuid en (pathParam cx ''id'') = Some k \<and> ifMatch r = Inr t \<and> bumps idf ver k t (rows (authored st)) (rows (authored st'))"
  shows "advancing hdl (held_row rows idf ver)"
proof
  fix en cx r st a st'
  assume h: "hdl en cx r st = (a, st')" "effective a st st'"
  from assms [OF h] obtain k t where kt: "we_uuid en (pathParam cx ''id'') = Some k" "ifMatch r = Inr t"
    "bumps idf ver k t (rows (authored st)) (rows (authored st'))" by blast
  note b = bumps_held [of idf ver, OF kt(3,1)]
  from b kt(2) show "\<exists>t v. ifMatch r = Inr t \<and> held_row rows idf ver en cx st = Some v \<and> (t = v \<or> t = [])" by blast
  from b show "held_row rows idf ver en cx st' \<noteq> held_row rows idf ver en cx st" by auto
qed (simp add: held_row_def)

lemma pathUUID_Inr: "pathUUID en cx name = Inr k \<longleftrightarrow> we_uuid en (pathParam cx name) = Some k"
  by (simp add: pathUUID_def split: option.split)

interpretation put_ruleset: advancing putRuleset "held_row ad_rulesets rs_id rs_version"
proof (rule advancing_row)
  fix en cx r st a st'
  assume h: "putRuleset en cx r st = (a, st')" "effective a st st'"
  from h obtain k t rs where kt: "we_uuid en (pathParam cx ''id'') = Some k" "ifMatch r = Inr t" and
    w: "authoring en (Authoring_UpdateRuleset (we_authoring en) (refs_read en st) (GetRuleset (we_existing_ok en) k (authored st)) (rs\<lparr>rs_id := k\<rparr>) t)
      (\<lambda>_. respondRuleset en k 200) st = (a, st')"
    unfolding putRuleset_def by (auto simp: pathUUID_Inr dest!: guard_effective)
  show "\<exists>k t. we_uuid en (pathParam cx ''id'') = Some k \<and> ifMatch r = Inr t \<and> bumps rs_id rs_version k t (ad_rulesets (authored st)) (ad_rulesets (authored st'))"
    using kt UpdateRuleset_effect_bumps [OF authoring_effective [OF w h(2)]] by auto
qed

interpretation delete_ruleset: advancing deleteRuleset "held_row ad_rulesets rs_id rs_version"
proof (rule advancing_row)
  fix en cx r st a st'
  assume h: "deleteRuleset en cx r st = (a, st')" "effective a st st'"
  from h obtain k t where kt: "we_uuid en (pathParam cx ''id'') = Some k" "ifMatch r = Inr t" and
    w: "authoring en (Authoring_DeleteRuleset (we_authoring en) k t) (\<lambda>_ _. NoContent) st = (a, st')"
    unfolding deleteRuleset_def by (auto simp: pathUUID_Inr dest!: guard_effective)
  show "\<exists>k t. we_uuid en (pathParam cx ''id'') = Some k \<and> ifMatch r = Inr t \<and> bumps rs_id rs_version k t (ad_rulesets (authored st)) (ad_rulesets (authored st'))"
    using kt delete_effect_bumps(3) [OF authoring_effective [OF w h(2)]] by auto
qed

interpretation put_service: advancing putService "held_row ad_services svc_id svc_version"
proof (rule advancing_row)
  fix en cx r st a st'
  assume h: "putService en cx r st = (a, st')" "effective a st st'"
  from h obtain k t s where kt: "we_uuid en (pathParam cx ''id'') = Some k" "ifMatch r = Inr t" and
    w: "authoring en (Authoring_UpdateService (we_authoring en) (s\<lparr>svc_id := k\<rparr>) t) (\<lambda>_. respondService en k 200) st = (a, st')"
    unfolding putService_def by (auto simp: pathUUID_Inr dest!: guard_effective)
  show "\<exists>k t. we_uuid en (pathParam cx ''id'') = Some k \<and> ifMatch r = Inr t \<and> bumps svc_id svc_version k t (ad_services (authored st)) (ad_services (authored st'))"
    using kt UpdateService_effect_bumps [OF authoring_effective [OF w h(2)]] by auto
qed

interpretation delete_service: advancing deleteService "held_row ad_services svc_id svc_version"
proof (rule advancing_row)
  fix en cx r st a st'
  assume h: "deleteService en cx r st = (a, st')" "effective a st st'"
  from h obtain k t where kt: "we_uuid en (pathParam cx ''id'') = Some k" "ifMatch r = Inr t" and
    w: "authoring en (Authoring_DeleteService (we_authoring en) k t) (\<lambda>_ _. NoContent) st = (a, st')"
    unfolding deleteService_def by (auto simp: pathUUID_Inr dest!: guard_effective)
  show "\<exists>k t. we_uuid en (pathParam cx ''id'') = Some k \<and> ifMatch r = Inr t \<and> bumps svc_id svc_version k t (ad_services (authored st)) (ad_services (authored st'))"
    using kt delete_effect_bumps(1) [OF authoring_effective [OF w h(2)]] by auto
qed

interpretation put_group: advancing putAddressGroup "held_row ad_groups grp_id grp_version"
proof (rule advancing_row)
  fix en cx r st a st'
  assume h: "putAddressGroup en cx r st = (a, st')" "effective a st st'"
  from h obtain k t doc where kt: "we_uuid en (pathParam cx ''id'') = Some k" "ifMatch r = Inr t" and
    w: "authoring en (Authoring_UpdateAddressGroup (we_authoring en) ((addressGroupInput_group doc)\<lparr>grp_id := k\<rparr>) t) (\<lambda>_. respondAddressGroup en k 200) st = (a, st')"
    unfolding putAddressGroup_def by (auto simp: pathUUID_Inr dest!: guard_effective)
  show "\<exists>k t. we_uuid en (pathParam cx ''id'') = Some k \<and> ifMatch r = Inr t \<and> bumps grp_id grp_version k t (ad_groups (authored st)) (ad_groups (authored st'))"
    using kt UpdateAddressGroup_effect_bumps [OF authoring_effective [OF w h(2)]] by auto
qed

interpretation delete_group: advancing deleteAddressGroup "held_row ad_groups grp_id grp_version"
proof (rule advancing_row)
  fix en cx r st a st'
  assume h: "deleteAddressGroup en cx r st = (a, st')" "effective a st st'"
  from h obtain k t where kt: "we_uuid en (pathParam cx ''id'') = Some k" "ifMatch r = Inr t" and
    w: "authoring en (Authoring_DeleteAddressGroup (we_authoring en) k t) (\<lambda>_ _. NoContent) st = (a, st')"
    unfolding deleteAddressGroup_def by (auto simp: pathUUID_Inr dest!: guard_effective)
  show "\<exists>k t. we_uuid en (pathParam cx ''id'') = Some k \<and> ifMatch r = Inr t \<and> bumps grp_id grp_version k t (ad_groups (authored st)) (ad_groups (authored st'))"
    using kt delete_effect_bumps(2) [OF authoring_effective [OF w h(2)]] by auto
qed

text \<open>A rule's write refuses a stale version of the rule before it writes its ruleset.\<close>

lemma rule_effect_held:
  assumes "took_effect (rule_reads en k st (UpdateRule env refs) (rule\<lparr>rl_id := j\<rparr>) t es) es es' \<or>
      took_effect (rule_reads en k st (DeleteRule env refs) j t es) es es'"
    and "we_uuid en (pathParam cx ''id'') = Some k" and "we_uuid en (pathParam cx ''rule_id'') = Some j"
  shows "\<exists>v. held_rule en cx st = Some v \<and> (t = v \<or> t = [])"
proof (cases "GetRuleset (we_seen_ok en) k (authored st)")
  case (Inl e)
  then show ?thesis using assms(1) by (auto simp: rule_reads_def UpdateRule_def DeleteRule_def refusal_no_effect)
next
  case (Inr rs)
  then have row: "row_of rs_id k (ad_rulesets (authored st)) = Some rs" by (auto simp: GetRuleset_def split: if_split_asm option.split_asm)
  then show ?thesis using assms Inr
    by (cases "index_of j (rs_rules rs)")
       (auto simp: rule_reads_def UpdateRule_def DeleteRule_def refusal_no_effect Let_def held_rule_def split: if_split_asm)
qed

interpretation put_rule: conditional putRule held_rule
proof
  fix en cx r st a st'
  assume h: "putRule en cx r st = (a, st')" "effective a st st'"
  from h obtain k j t rule where kt: "we_uuid en (pathParam cx ''id'') = Some k" "we_uuid en (pathParam cx ''rule_id'') = Some j" "ifMatch r = Inr t" and
    w: "authoring en (rule_reads en k st (UpdateRule (we_authoring en) (refs_read en st)) (rule\<lparr>rl_id := j\<rparr>) t) (\<lambda>_. respondRule en k j 200) st = (a, st')"
    unfolding putRule_def by (auto simp: pathUUID_Inr dest!: guard_effective)
  show "\<exists>t v. ifMatch r = Inr t \<and> held_rule en cx st = Some v \<and> (t = v \<or> t = [])"
    using rule_effect_held [OF disjI1 [OF authoring_effective [OF w h(2)]] kt(1,2)] kt(3) by blast
qed

interpretation delete_rule: conditional deleteRule held_rule
proof
  fix en cx r st a st'
  assume h: "deleteRule en cx r st = (a, st')" "effective a st st'"
  from h obtain k j t where kt: "we_uuid en (pathParam cx ''id'') = Some k" "we_uuid en (pathParam cx ''rule_id'') = Some j" "ifMatch r = Inr t" and
    w: "authoring en (rule_reads en k st (DeleteRule (we_authoring en) (refs_read en st)) j t) (\<lambda>_ _. NoContent) st = (a, st')"
    unfolding deleteRule_def by (auto simp: pathUUID_Inr dest!: guard_effective)
  show "\<exists>t v. ifMatch r = Inr t \<and> held_rule en cx st = Some v \<and> (t = v \<or> t = [])"
    using rule_effect_held [OF disjI2 [OF authoring_effective [OF w h(2)]] kt(1,2)] kt(3) by blast
qed

lemma SetLabels_effect:
  assumes "took_effect (SetLabels env renders k labels t st) st st'"
  shows "\<exists>w. find_row k st = Some w \<and> (t = LabelsVersion (fe_digest env) (w_labels w) \<or> t = [])"
proof (cases "ReplaceWorkloadLabels env k labels t st")
  case (Inl e)
  then show ?thesis using assms by (auto simp: SetLabels_def refusal_no_effect split: option.split_asm)
next
  case (Inr st1)
  then show ?thesis by (auto simp: ReplaceWorkloadLabels_def split: if_split_asm option.split_asm)
qed

interpretation put_labels: conditional putWorkloadLabels held_labels
proof
  fix en cx r st a st'
  assume h: "putWorkloadLabels en cx r st = (a, st')" "effective a st st'"
  from h obtain k t doc where kt: "path_workload en cx = Inr k" "ifMatch r = Inr t" and
    w: "fleet_op en (SetLabels (we_fleet en) (we_renders en) k (labelsInput_labels doc) t st) (\<lambda>_. respondLabels en k) = (a, st')"
    unfolding putWorkloadLabels_def by (auto dest!: guard_effective)
  show "\<exists>t v. ifMatch r = Inr t \<and> held_labels en cx st = Some v \<and> (t = v \<or> t = [])"
    using SetLabels_effect [OF fleet_op_effective [OF w h(2)]] kt by (auto simp: held_labels_def)
qed

text \<open>The conditional endpoints by the resource they write, with the version each is conditioned on.\<close>

definition conditional_endpoints :: "Endpoint list" where
  "conditional_endpoints = [E_putRuleset, E_deleteRuleset, E_putRule, E_deleteRule, E_putService, E_deleteService, E_putAddressGroup,
     E_deleteAddressGroup, E_putWorkloadLabels]"

definition resource_version :: "write_env \<Rightarrow> Endpoint \<Rightarrow> Context \<Rightarrow> fleet_state \<Rightarrow> string option" where
  "resource_version en h = (if h \<in> {E_putRuleset, E_deleteRuleset} then held_row ad_rulesets rs_id rs_version en
     else if h \<in> {E_putRule, E_deleteRule} then held_rule en
     else if h \<in> {E_putService, E_deleteService} then held_row ad_services svc_id svc_version en
     else if h \<in> {E_putAddressGroup, E_deleteAddressGroup} then held_row ad_groups grp_id grp_version en
     else held_labels en)"

lemma endpoint_conditional: "h \<in> set conditional_endpoints \<Longrightarrow> conditional (\<lambda>en. the (write_endpoint en h)) (\<lambda>en. resource_version en h)"
  unfolding conditional_endpoints_def set_simps by (elim insertE emptyE)
    (simp_all add: write_endpoint_def resource_version_def put_ruleset.conditional_axioms delete_ruleset.conditional_axioms put_rule.conditional_axioms
      delete_rule.conditional_axioms put_service.conditional_axioms delete_service.conditional_axioms put_group.conditional_axioms
      delete_group.conditional_axioms put_labels.conditional_axioms)

lemma endpoint_advancing:
  "h \<in> {E_putRuleset, E_deleteRuleset, E_putService, E_deleteService, E_putAddressGroup, E_deleteAddressGroup} \<Longrightarrow>
     advancing (\<lambda>en. the (write_endpoint en h)) (\<lambda>en. resource_version en h)"
  by (elim insertE emptyE) (simp_all add: write_endpoint_def resource_version_def put_ruleset.advancing_axioms
      delete_ruleset.advancing_axioms put_service.advancing_axioms
      delete_service.advancing_axioms put_group.advancing_axioms
      delete_group.advancing_axioms)

text \<open>\<^bold>\<open>C27\<close>: A conditional write that has any effect, be it a success or a change behind a failure, carried an If-Match, and
  the version it named is the one the resource holds, or is empty.\<close>

theorem conditional_writes:
  assumes "h \<in> set conditional_endpoints" and "write_endpoint en h = Some f" and "f cx r st = (a, st')" and "(\<forall>p. a \<noteq> Refuse p) \<or> st' \<noteq> st"
  shows "\<exists>t v. ifMatch r = Inr t \<and> resource_version en h cx st = Some v \<and> (t = v \<or> t = [])"
proof -
  have e: "effective a st st'" using assms(4) by (simp add: effective_def)
  have "the (write_endpoint en h) cx r st = (a, st')" using assms(2,3) by simp
  from conditional.guarded [OF endpoint_conditional [OF assms(1)] this e] show ?thesis .
qed

text \<open>Two clients that write a ruleset, a service or an address group against one version: once the first write
  had an effect the second, whether it replaces or deletes, is refused and changes nothing.\<close>

lemma second_write_refused:
  assumes "F \<in> {{E_putRuleset, E_deleteRuleset}, {E_putService, E_deleteService}, {E_putAddressGroup, E_deleteAddressGroup}}"
    and "h \<in> F" and "h' \<in> F" and "write_endpoint en h = Some f" and "write_endpoint en' h' = Some f'" and "we_uuid en' = we_uuid en"
    and "f cx r st = (a, st')" and "(\<forall>p. a \<noteq> Refuse p) \<or> st' \<noteq> st" and "ifMatch r = Inr t" and "t \<noteq> []" and "ifMatch r' = Inr t"
  shows "\<exists>p. f' cx r' st' = (Refuse p, st')"
proof -
  have e: "effective a st st'" using assms(8) by (simp add: effective_def)
  have F: "h \<in> {E_putRuleset, E_deleteRuleset, E_putService, E_deleteService, E_putAddressGroup, E_deleteAddressGroup}"
      "h' \<in> set conditional_endpoints" "(\<lambda>en. resource_version en h') = (\<lambda>en. resource_version en h)"
    using assms(1-3) by (auto simp: conditional_endpoints_def resource_version_def)
  have f: "the (write_endpoint en h) cx r st = (a, st')" "the (write_endpoint en' h') = f'" using assms(4,5,7) by simp_all
  from advancing.second_refused [OF endpoint_advancing [OF F(1)] f(1) e assms(9,10) endpoint_conditional [OF F(2), unfolded F(3)] assms(11,6)]
  show ?thesis unfolding f(2) .
qed

section \<open>Tags\<close>

lemma trim_quotes_quoted: "CHR 0x22 \<notin> set s \<Longrightarrow> trim_quotes (versionTag s) = s"
proof -
  assume s: "CHR 0x22 \<notin> set s"
  have d: "dropWhile (\<lambda>c. c = CHR 0x22) xs = xs" if "CHR 0x22 \<notin> set xs" for xs :: string using that by (cases xs) auto
  show ?thesis
  proof (cases s)
    case Nil
    then show ?thesis by (simp add: trim_quotes_def versionTag_def dq_def)
  next
    case (Cons a xs)
    then have "dropWhile (\<lambda>c. c = CHR 0x22) (s @ dq) = s @ dq" using s by auto
    then show ?thesis using d [of "rev s"] s by (simp add: trim_quotes_def versionTag_def dq_def)
  qed
qed

lemma version_chars: "c \<in> set (show_int n) \<Longrightarrow> is_dec c \<or> c = CHR ''-''"
  by (auto simp: show_int_def show_dec_is_dec split: if_split_asm)

text \<open>The tag of a version reads as that version.\<close>

lemma ifMatch_versionTag:
  assumes "rq_header r ''If-Match'' = versionTag (FormatVersion v)"
  shows "ifMatch r = Inr (FormatVersion v)"
proof -
  have c: "is_dec c \<or> c = CHR ''-''" if "c \<in> set (FormatVersion v)" for c using that by (simp add: FormatVersion_def version_chars)
  have "\<forall>c\<in>set (versionTag (FormatVersion v)). printable c"
    using c is_hex_printable [OF is_dec_is_hex] by (fastforce simp: versionTag_def dq_def printable_def)
  then have t: "trim_space (versionTag (FormatVersion v)) = versionTag (FormatVersion v)" by (rule trim_space_printable)
  have "CHR 0x22 \<notin> set (FormatVersion v)" using c [of "CHR 0x22"] by (auto simp: is_dec_def)
  from trim_quotes_quoted [OF this] t show ?thesis using assms
    by (simp add: ifMatch_def Let_def) (simp add: versionTag_def dq_def starts_with_def)
qed

lemma FormatVersion_nonempty: "FormatVersion v \<noteq> []"
  using show_int_inj [of v] by (auto simp: FormatVersion_def show_int_def)

lemma deleteRuleset_succeeds:
  assumes "ifMatch r = Inr t" and "held_row ad_rulesets rs_id rs_version en cx st = Some v" and "t = v \<or> t = []"
    and "ae_write_ok (we_authoring en)" and "ae_load_ok (we_authoring en)" and "ae_save (we_authoring en) = (\<lambda>_. None)"
  shows "\<exists>st'. deleteRuleset en cx r st = (NoContent, st') \<and> held_row ad_rulesets rs_id rs_version en cx st' = None"
proof -
  obtain k row where k: "we_uuid en (pathParam cx ''id'') = Some k" "row_of rs_id k (ad_rulesets (authored st)) = Some row" "v = FormatVersion (rs_version row)"
    using assms(2) by (auto simp: held_row_def split: option.split_asm)
  let ?db = "(authored st)\<lparr>ad_rulesets := drop_row rs_id k (ad_rulesets (authored st))\<rparr>"
  have d: "DeleteRuleset (ae_write_ok (we_authoring en)) k t (authored st) = Inr ?db"
    using assms(3,4) k(2,3) by (auto simp: DeleteRuleset_def expected_def)
  obtain pol where "authoring_render (we_authoring en) ((fs_estate st)\<lparr>es_authored := ?db\<rparr>) = (True, (fs_estate st)\<lparr>es_authored := ?db, es_policies := pol\<rparr>)"
    using authoring_render_succeeds [OF assms(5,6)] by blast
  then show ?thesis using d k(1) assms(1)
    by (auto simp: deleteRuleset_def guard_def pathUUID_def authoring_def Authoring_DeleteRuleset_def then_render_def held_row_def row_of_drop_row Let_def)
qed

text \<open>The entity tag a read of a ruleset returned, sent back as If-Match while the ruleset is as it was read, deletes it; the
  next read does not find it.\<close>

lemma version_read_deletes:
  assumes "getRuleset en cx r st = (Reply status hs d, st1)" and "map_of hs ''ETag'' = Some (rq_header r' ''If-Match'')"
    and "we_uuid en' = we_uuid en" and "ae_write_ok (we_authoring en')" and "ae_load_ok (we_authoring en')" and "ae_save (we_authoring en') = (\<lambda>_. None)"
  shows "\<exists>st'. deleteRuleset en' cx r' st = (NoContent, st') \<and> getRuleset en cx r st' = (Refuse problemNotFound, st')"
proof -
  obtain k row where k: "we_uuid en (pathParam cx ''id'') = Some k" "we_respond_ok en" "row_of rs_id k (ad_rulesets (authored st)) = Some row"
    "rq_header r' ''If-Match'' = versionTag (FormatVersion (rs_version row))"
    using assms(1,2) by (auto simp: getRuleset_def guard_def pathUUID_def respondRuleset_def GetRuleset_def with_location_def
        split: option.split_asm if_split_asm sum.split_asm)
  have held: "held_row ad_rulesets rs_id rs_version en' cx st = Some (FormatVersion (rs_version row))" using k(1,3) assms(3) by (simp add: held_row_def)
  from deleteRuleset_succeeds [OF ifMatch_versionTag [OF k(4)] held _ assms(4-6)] obtain st' where
    st': "deleteRuleset en' cx r' st = (NoContent, st')" "held_row ad_rulesets rs_id rs_version en' cx st' = None" by blast
  then have "row_of rs_id k (ad_rulesets (authored st')) = None" using k(1) assms(3) by (simp add: held_row_def)
  then have "getRuleset en cx r st' = (Refuse problemNotFound, st')" using k(1,2)
    by (simp add: getRuleset_def guard_def pathUUID_def respondRuleset_def GetRuleset_def writeProblemFor_def authored_problem_def)
  with st'(1) show ?thesis by blast
qed

lemma trim_quotes_replicate: "trim_quotes (replicate n (CHR 0x22)) = []"
  by (simp add: trim_quotes_def)

text \<open>\<^bold>\<open>C28\<close>: An If-Match of quotes only, which as an entity tag is an empty version no ruleset ever held, is taken for a write without
  a condition: it deletes the ruleset whatever version that is at.\<close>

theorem empty_tag_deletes_any_version:
  assumes "trim_space (rq_header r ''If-Match'') = replicate (Suc n) (CHR 0x22)" and "held_row ad_rulesets rs_id rs_version en cx st = Some v"
    and "ae_write_ok (we_authoring en)" and "ae_load_ok (we_authoring en)" and "ae_save (we_authoring en) = (\<lambda>_. None)"
  shows "v \<noteq> [] \<and> (\<exists>st'. deleteRuleset en cx r st = (NoContent, st') \<and> held_row ad_rulesets rs_id rs_version en cx st' = None)"
proof -
  have "ifMatch r = Inr []" using assms(1) trim_quotes_replicate [of "Suc n"] by (simp add: ifMatch_def starts_with_def)
  moreover have "v \<noteq> []" using assms(2) FormatVersion_nonempty by (auto simp: held_row_def split: option.split_asm)
  ultimately show ?thesis using deleteRuleset_succeeds [OF _ assms(2) _ assms(3-5)] by blast
qed

section \<open>Witnesses\<close>

definition demo_write_env :: write_env where
  "demo_write_env = \<lparr>we_authoring = demo_authoring_env, we_fleet = demo_fleet_env, we_renders = demo_fleet_env, we_reads = demo_read_env,
     we_services_ok = True, we_groups_ok = True, we_refs_ok = True, we_existing_ok = True, we_again_ok = True, we_seen_ok = True, we_respond_ok = True,
     we_dry_ids = (\<lambda>_. uuid_Nil), we_dry_rule_ids = (\<lambda>_ _. uuid_Nil), we_uuid = Some, we_timestamp = show_int,
     we_text = (\<lambda>_. []), we_detail = (\<lambda>_. []), we_error = (\<lambda>_. []),
     we_read_texts = \<lparr>rt_time = (\<lambda>_. None), rt_uuid = Some, rt_message = (\<lambda>_. []), rt_error = (\<lambda>_. [])\<rparr>,
     we_ruleset_doc = (\<lambda>_. NotADocument), we_rule_doc = (\<lambda>_. NotADocument), we_service_doc = (\<lambda>_. NotADocument), we_group_doc = (\<lambda>_. NotADocument),
     we_labels_doc = (\<lambda>_. NotADocument), we_mode_doc = (\<lambda>_. NotADocument), we_selector_doc = (\<lambda>_. NotADocument), we_dryrun_doc = (\<lambda>_. NotADocument)\<rparr>"

text \<open>One ruleset at version 3, and a request for it with the given If-Match.\<close>

definition demo_write_state :: fleet_state where
  "demo_write_state = demo_fleet\<lparr>fs_estate := demo_estate\<lparr>es_authored := no_authored\<lparr>ad_rulesets := [demo_ruleset\<lparr>rs_id := ''r1'', rs_version := 3\<rparr>]\<rparr>\<rparr>\<rparr>"

definition demo_write_context :: Context where
  "demo_write_context = \<lparr>cx_principal = None, cx_session = [], cx_params = [(''id'', ''r1'')]\<rparr>"

definition demo_write_request :: "string \<Rightarrow> Request" where
  "demo_write_request tag = \<lparr>rq_method = ''DELETE'', rq_path = APIPrefix @ ''/rulesets/r1'', rq_host = [], rq_remote_addr = [],
     rq_header = (\<lambda>h. if h = ''If-Match'' then tag else []), rq_cookies = [], rq_query = [], rq_body = []\<rparr>"

lemma demo_write:
  "we_uuid demo_write_env = Some" "we_respond_ok demo_write_env" "ae_write_ok (we_authoring demo_write_env)"
  "ae_load_ok (we_authoring demo_write_env)" "ae_save (we_authoring demo_write_env) = (\<lambda>_. None)"
  "held_row ad_rulesets rs_id rs_version demo_write_env demo_write_context demo_write_state = Some (FormatVersion 3)"
  "rq_header (demo_write_request tag) ''If-Match'' = tag"
  by (simp_all add: demo_write_env_def demo_authoring_env_def held_row_def demo_write_state_def demo_write_context_def pathParam_def row_of_def
      demo_write_request_def)

lemma demo_write_deletes:
  "\<exists>st'. deleteRuleset demo_write_env demo_write_context (demo_write_request (versionTag (FormatVersion 3))) demo_write_state = (NoContent, st')"
  using deleteRuleset_succeeds [OF ifMatch_versionTag [OF demo_write(7)] demo_write(6) _ demo_write(3-5)] by blast

lemma demo_delete_endpoint: "write_endpoint demo_write_env E_deleteRuleset = Some (deleteRuleset demo_write_env)"
  by (simp add: write_endpoint_def)

theorem conditional_writes_witness:
  "\<exists>a st'. deleteRuleset demo_write_env demo_write_context (demo_write_request (versionTag (FormatVersion 3))) demo_write_state = (a, st') \<and> (\<forall>p. a \<noteq> Refuse p) \<and>
     (\<exists>t v. ifMatch (demo_write_request (versionTag (FormatVersion 3))) = Inr t \<and>
       resource_version demo_write_env E_deleteRuleset demo_write_context demo_write_state = Some v \<and> (t = v \<or> t = []))"
proof -
  obtain st' where d: "deleteRuleset demo_write_env demo_write_context (demo_write_request (versionTag (FormatVersion 3))) demo_write_state = (NoContent, st')"
    using demo_write_deletes by blast
  have "E_deleteRuleset \<in> set conditional_endpoints" by (simp add: conditional_endpoints_def)
  from conditional_writes [OF this demo_delete_endpoint d] d show ?thesis by auto
qed

theorem empty_tag_deletes_any_version_witness:
  "\<exists>st'. deleteRuleset demo_write_env demo_write_context (demo_write_request (dq @ dq)) demo_write_state = (NoContent, st') \<and>
     held_row ad_rulesets rs_id rs_version demo_write_env demo_write_context st' = None"
proof -
  have "trim_space (dq @ dq) = replicate (Suc 1) (CHR 0x22)" using trim_space_printable [of "dq @ dq"] by (simp add: dq_def printable_def)
  then have "trim_space (rq_header (demo_write_request (dq @ dq)) ''If-Match'') = replicate (Suc 1) (CHR 0x22)" by (simp only: demo_write)
  from empty_tag_deletes_any_version [OF this demo_write(6,3-5)] show ?thesis by blast
qed

end
