(* ===== verification/AgentCredential.thy ===== *)
theory AgentCredential
  imports AgentSync Enroll "HOL-Library.Log_Nat"
begin

text \<open>
  The agent's credential, \<^verbatim>\<open>internal/agent/credential\<close>: the state directory with its key, certificate and
  bundle, what an enrollment or a renewal is answered with, the credential a daemon holds, and the
  renewer, which renews it before it expires and keeps trying after. A certificate is text; reading it,
  pairing it with a key and verifying it against a bundle are parameters, as are the two clocks, the
  random source, the control plane's answer and the outcome of each file operation. The renewal
  point is computed in double precision, and is so here. The results: the point leaves a third of the lifetime, no wait
  passes the expiry, a crash never leaves a renewed directory unreadable, a directory enrolled
  again is never written, and a late agent is renewed within the grace.
\<close>

section \<open>Double precision\<close>

text \<open>A natural number rounded to a significand of 53 bits, ties to even, as a significand and an exponent of two.\<close>

definition double_round :: "nat \<Rightarrow> nat \<times> nat" where
  "double_round n = (let e = floorlog 2 n - 53; q = n div 2 ^ e; r = n mod 2 ^ e in
     (if 2 * r < 2 ^ e \<or> 2 * r = 2 ^ e \<and> even q then q else q + 1, e))"

text \<open>
  The double nearest to two thirds is \<open>third2 / 2\<^sup>5\<^sup>3\<close>, and that nearest to a twelfth \<open>third2 / 2\<^sup>5\<^sup>6\<close>. A
  duration as a double times the fraction \<open>third2 / 2 ^ s\<close>, truncated to a duration.
\<close>

definition third2 :: nat where "third2 = 6004799503160661"

definition float_fraction :: "nat \<Rightarrow> duration \<Rightarrow> duration" where
  "float_fraction s d = (case double_round (nat d) of (m, e) \<Rightarrow> case double_round (m * third2) of (p, f) \<Rightarrow> int (p * 2 ^ (e + f) div 2 ^ s))"

definition RenewFraction :: "duration \<Rightarrow> duration" where "RenewFraction = float_fraction 53"
definition RenewJitterFraction :: "duration \<Rightarrow> duration" where "RenewJitterFraction = float_fraction 56"

definition RenewAt :: "(nat \<Rightarrow> nat) \<Rightarrow> instant \<Rightarrow> instant \<Rightarrow> instant" where
  "RenewAt rng notBefore notAfter = (let lifetime = notAfter - notBefore in
     if lifetime \<le> 0 then notAfter
     else let point = notBefore + RenewFraction lifetime; window = RenewJitterFraction lifetime in
       if 0 < window then point - int (rng (nat window)) else point)"

section \<open>The state directory\<close>

datatype cred_file = KeyFile | CertFile | BundleFile

type_synonym state_dir = "cred_file \<Rightarrow> file_state"

text \<open>
  \<open>cl_key\<close> reads a private key from its file, \<open>cl_pem\<close> writes one, \<open>cl_pair\<close> pairs a certificate with the text of a
  key, \<open>cl_parse\<close> reads a certificate, \<open>cl_public\<close> the key it is for, \<open>cl_verify\<close> verifies it against a bundle, and \<open>cl_uuid\<close> parses a UUID.
\<close>

record credential_lib =
  cl_key :: "string \<Rightarrow> string option"
  cl_pem :: "string \<Rightarrow> string"
  cl_pair :: "string \<Rightarrow> string \<Rightarrow> Certificate option"
  cl_parse :: "string \<Rightarrow> Certificate option"
  cl_public :: "string \<Rightarrow> string option"
  cl_verify :: "string \<Rightarrow> string \<Rightarrow> bool"
  cl_uuid :: "string \<Rightarrow> uuid option"

datatype cred_error = ErrNotEnrolled | ErrHoldsCredential | ErrReenrolled | BadKey | BadPair | NoRead cred_file | NoWrite cred_file durable_step
  | NoDirectory | CallFailed | BadResponse

text \<open>A temporary file beside the path, written, synced and renamed; the directory is not synced.\<close>

definition writeAtomic :: "(durable_step \<Rightarrow> bool) \<Rightarrow> string \<Rightarrow> file_state \<Rightarrow> (durable_step, unit) result \<times> file_state" where
  "writeAtomic fails data f =
     (if fails CreateTemp then (Inl CreateTemp, f)
      else if fails Chmod then (Inl Chmod, f)
      else if fails Write then (Inl Write, f)
      else if fails SyncFile then (Inl SyncFile, f)
      else if fails CloseTemp then (Inl CloseTemp, f)
      else if fails Rename then (Inl Rename, f)
      else (Inr (), f\<lparr>f_content := Some data, f_crash := Some data # f_crash f\<rparr>))"

definition write_file :: "(cred_file \<Rightarrow> durable_step \<Rightarrow> bool) \<Rightarrow> cred_file \<Rightarrow> string \<Rightarrow> state_dir \<Rightarrow> (cred_error, unit) result \<times> state_dir" where
  "write_file fails x data dir = (case writeAtomic (fails x) data (dir x) of
     (Inl e, f) \<Rightarrow> (Inl (NoWrite x e), dir(x := f)) | (Inr _, f) \<Rightarrow> (Inr (), dir(x := f)))"

text \<open>One write after another, up to the first that fails.\<close>

definition then_write :: "(cred_error, unit) result \<times> state_dir \<Rightarrow> (state_dir \<Rightarrow> (cred_error, unit) result \<times> state_dir) \<Rightarrow> (cred_error, unit) result \<times> state_dir" where
  "then_write r k = (case r of (Inl e, dir) \<Rightarrow> (Inl e, dir) | (Inr _, dir) \<Rightarrow> k dir)"

definition Store_Save :: "credential_lib \<Rightarrow> bool \<Rightarrow> (cred_file \<Rightarrow> durable_step \<Rightarrow> bool) \<Rightarrow> string \<Rightarrow> string \<Rightarrow> string \<Rightarrow> state_dir
    \<Rightarrow> (cred_error, unit) result \<times> state_dir" where
  "Store_Save lib made fails key cert bundle dir = (if \<not> made then (Inl NoDirectory, dir)
     else then_write (write_file fails KeyFile (cl_pem lib key) dir) (\<lambda>dir.
       then_write (write_file fails BundleFile bundle dir) (write_file fails CertFile cert)))"

definition ReplaceCertificate :: "(cred_file \<Rightarrow> durable_step \<Rightarrow> bool) \<Rightarrow> string \<Rightarrow> string \<Rightarrow> state_dir \<Rightarrow> (cred_error, unit) result \<times> state_dir" where
  "ReplaceCertificate fails cert bundle dir =
     then_write (if bundle \<noteq> [] then write_file fails BundleFile bundle dir else (Inr (), dir)) (write_file fails CertFile cert)"

text \<open>\<open>reads\<close> says a file that is there can be read.\<close>

definition Store_LoadKey :: "credential_lib \<Rightarrow> (cred_file \<Rightarrow> bool) \<Rightarrow> state_dir \<Rightarrow> (cred_error, string) result" where
  "Store_LoadKey lib reads dir = (case f_content (dir KeyFile) of
     None \<Rightarrow> Inl ErrNotEnrolled
   | Some pem \<Rightarrow> if \<not> reads KeyFile then Inl (NoRead KeyFile)
       else case cl_key lib pem of None \<Rightarrow> Inl BadKey | Some k \<Rightarrow> Inr k)"

record Loaded =
  ld_cert :: string
  ld_leaf :: Certificate
  ld_bundle :: string

definition read_file :: "(cred_file \<Rightarrow> bool) \<Rightarrow> state_dir \<Rightarrow> cred_file \<Rightarrow> (cred_error, string) result" where
  "read_file reads dir x = (case f_content (dir x) of None \<Rightarrow> Inl (NoRead x) | Some s \<Rightarrow> if reads x then Inr s else Inl (NoRead x))"

definition Store_Load_credential :: "credential_lib \<Rightarrow> (cred_file \<Rightarrow> bool) \<Rightarrow> state_dir \<Rightarrow> (cred_error, Loaded) result" where
  "Store_Load_credential lib reads dir = (if f_content (dir CertFile) = None then Inl ErrNotEnrolled
     else bind_result (read_file reads dir CertFile) (\<lambda>cert.
       bind_result (read_file reads dir KeyFile) (\<lambda>key.
       case cl_pair lib cert key of
         None \<Rightarrow> Inl BadPair
       | Some leaf \<Rightarrow> bind_result (read_file reads dir BundleFile) (\<lambda>bundle. Inr \<lparr>ld_cert = cert, ld_leaf = leaf, ld_bundle = bundle\<rparr>))))"

definition Enrollable :: "credential_lib \<Rightarrow> (cred_file \<Rightarrow> bool) \<Rightarrow> instant \<Rightarrow> state_dir \<Rightarrow> (cred_error, Certificate option) result" where
  "Enrollable lib reads now dir = (case Store_LoadKey lib reads dir of
     Inl ErrNotEnrolled \<Rightarrow> Inr None
   | Inl e \<Rightarrow> Inl ErrHoldsCredential
   | Inr k \<Rightarrow> (case Store_Load_credential lib reads dir of
       Inl e \<Rightarrow> Inl ErrHoldsCredential
     | Inr c \<Rightarrow> if now < cert_not_after (ld_leaf c) then Inl ErrHoldsCredential else Inr (Some (ld_leaf c))))"

section \<open>What the control plane's answers must be\<close>

text \<open>An answer to \<^verbatim>\<open>Enroll\<close>: the workload id, the certificate and the bundle.\<close>

definition verifyAgainst :: "credential_lib \<Rightarrow> string \<Rightarrow> string \<Rightarrow> (cred_error, unit) result" where
  "verifyAgainst lib cert bundle = (if cl_verify lib cert bundle then Inr () else Inl BadResponse)"

definition parseCert :: "credential_lib \<Rightarrow> string \<Rightarrow> (cred_error, Certificate) result" where
  "parseCert lib pem = (case cl_parse lib pem of None \<Rightarrow> Inl BadResponse | Some c \<Rightarrow> Inr c)"

definition cert_identity :: "credential_lib \<Rightarrow> Certificate \<Rightarrow> (cred_error, uuid) result" where
  "cert_identity lib c = (case FromCertificate (cl_uuid lib) (Some c) of Inl _ \<Rightarrow> Inl BadResponse | Inr k \<Rightarrow> Inr k)"

definition Client_Enroll :: "credential_lib \<Rightarrow> (string \<times> string \<times> string) option \<Rightarrow> (cred_error, uuid \<times> string \<times> string) result" where
  "Client_Enroll lib resp = (case resp of
     None \<Rightarrow> Inl CallFailed
   | Some (named, cert, bundle) \<Rightarrow> bind_result (parseCert lib cert) (\<lambda>c. bind_result (cert_identity lib c) (\<lambda>k.
       if named \<noteq> k then Inl BadResponse else bind_result (verifyAgainst lib cert bundle) (\<lambda>_. Inr (k, cert, bundle)))))"

definition Client_Renew :: "credential_lib \<Rightarrow> string \<Rightarrow> (string \<times> string) option \<Rightarrow> (cred_error, uuid \<times> string \<times> string) result" where
  "Client_Renew lib key resp = (case resp of
     None \<Rightarrow> Inl CallFailed
   | Some (cert, bundle) \<Rightarrow> bind_result (parseCert lib cert) (\<lambda>c. bind_result (cert_identity lib c) (\<lambda>k.
       if cl_public lib cert \<noteq> Some key then Inl BadResponse else bind_result (verifyAgainst lib cert bundle) (\<lambda>_. Inr (k, cert, bundle)))))"

section \<open>The holder\<close>

record Holder =
  ho_key :: string
  ho_leaf :: Certificate
  ho_cert :: string
  ho_trust :: string

definition LoadHolder :: "credential_lib \<Rightarrow> (cred_file \<Rightarrow> bool) \<Rightarrow> state_dir \<Rightarrow> (cred_error, Holder) result" where
  "LoadHolder lib reads dir = bind_result (Store_Load_credential lib reads dir) (\<lambda>c. bind_result (Store_LoadKey lib reads dir) (\<lambda>k.
     Inr \<lparr>ho_key = k, ho_leaf = ld_leaf c, ho_cert = ld_cert c, ho_trust = ld_bundle c\<rparr>))"

definition checkStoredKey :: "credential_lib \<Rightarrow> (cred_file \<Rightarrow> bool) \<Rightarrow> Holder \<Rightarrow> state_dir \<Rightarrow> (cred_error, unit) result" where
  "checkStoredKey lib reads h dir = (case Store_LoadKey lib reads dir of
     Inl ErrNotEnrolled \<Rightarrow> Inl ErrReenrolled
   | Inl e \<Rightarrow> Inl e
   | Inr k \<Rightarrow> if k \<noteq> ho_key h then Inl ErrReenrolled else Inr ())"

definition Holder_Replace :: "credential_lib \<Rightarrow> (cred_file \<Rightarrow> bool) \<Rightarrow> (cred_file \<Rightarrow> durable_step \<Rightarrow> bool) \<Rightarrow> string \<Rightarrow> string \<Rightarrow> Holder \<Rightarrow> state_dir
    \<Rightarrow> (cred_error, Holder) result \<times> state_dir" where
  "Holder_Replace lib reads fails cert bundle h dir = (case cl_pair lib cert (cl_pem lib (ho_key h)) of
     None \<Rightarrow> (Inl BadPair, dir)
   | Some leaf \<Rightarrow> (case checkStoredKey lib reads h dir of
       Inl e \<Rightarrow> (Inl e, dir)
     | Inr _ \<Rightarrow> (case ReplaceCertificate fails cert bundle dir of
         (Inl e, dir) \<Rightarrow> (Inl e, dir)
       | (Inr _, dir) \<Rightarrow> (Inr (h\<lparr>ho_leaf := leaf, ho_cert := cert, ho_trust := if bundle \<noteq> [] then bundle else ho_trust h\<rparr>), dir))))"

section \<open>The renewer\<close>

record lifeClock =
  lc_obtained :: duration
  lc_age_then :: duration

definition lifeClock_age :: "lifeClock \<Rightarrow> duration \<Rightarrow> duration" where
  "lifeClock_age c elapsed = lc_age_then c + (elapsed - lc_obtained c)"

definition newLifeClock :: "Certificate \<Rightarrow> instant \<Rightarrow> duration \<Rightarrow> lifeClock" where
  "newLifeClock leaf now elapsed = \<lparr>lc_obtained = elapsed, lc_age_then = max 0 (now - cert_not_before leaf)\<rparr>"

definition ExpiredRetryCap :: "64 word" where "ExpiredRetryCap = 300000000000"

definition backoff :: "(nat \<Rightarrow> nat) \<Rightarrow> nat \<Rightarrow> 64 word \<Rightarrow> 64 word \<Rightarrow> duration" where
  "backoff rng attempt base limit = (let ceiling = push_bit (min attempt 20) base;
     ceiling = (if sint limit < sint ceiling \<or> sint ceiling \<le> 0 then limit else ceiling)
   in int (rng (nat (sint ceiling))))"

record Renewer =
  rn_holder :: Holder
  rn_dir :: state_dir
  rn_attempt :: nat
  rn_clock :: lifeClock
  rn_last_error :: "(bool \<times> cred_error) option"

record renew_config =
  rc_retry_base :: "64 word"
  rc_retry_cap :: "64 word"

definition retry_base :: "renew_config \<Rightarrow> 64 word" where
  "retry_base cfg = (if sint (rc_retry_base cfg) \<le> 0 then 60000000000 else rc_retry_base cfg)"

definition retry_cap :: "renew_config \<Rightarrow> 64 word" where
  "retry_cap cfg = (if sint (rc_retry_cap cfg) \<le> 0 then 3600000000000 else rc_retry_cap cfg)"

definition expired_cap :: "renew_config \<Rightarrow> 64 word" where
  "expired_cap cfg = (if sint (retry_cap cfg) \<le> sint ExpiredRetryCap then retry_cap cfg else ExpiredRetryCap)"

abbreviation lifetime_of :: "Certificate \<Rightarrow> duration" where
  "lifetime_of leaf \<equiv> cert_not_after leaf - cert_not_before leaf"

definition cred_expired :: "Certificate \<Rightarrow> instant \<Rightarrow> duration \<Rightarrow> bool" where
  "cred_expired leaf now age = (\<not> now < cert_not_after leaf \<or> lifetime_of leaf \<le> age)"

definition renew_wait :: "renew_config \<Rightarrow> (nat \<Rightarrow> nat) \<Rightarrow> Certificate \<Rightarrow> nat \<Rightarrow> instant \<Rightarrow> duration \<Rightarrow> duration" where
  "renew_wait cfg rng leaf attempt now age =
     (if cred_expired leaf now age then if 0 < attempt then backoff rng attempt (retry_base cfg) (expired_cap cfg) else 0
      else if attempt = 0 then
        let point = RenewAt rng (cert_not_before leaf) (cert_not_after leaf); byWall = point - now; byMonotonic = point - cert_not_before leaf - age in
        max (if byMonotonic < byWall then byMonotonic else byWall) 0
      else min (min (backoff rng attempt (retry_base cfg) (retry_cap cfg)) (cert_not_after leaf - now)) (lifetime_of leaf - age))"

text \<open>
  What one turn of the loop meets: the clocks and the draws, whether the daemon is stopped while it waits, what others did to the
  directory while it waited and while it called, the control plane's answer, the reads and writes of the directory, and the clocks after.
\<close>

record renew_turn =
  rt_now :: instant
  rt_elapsed :: duration
  rt_rng :: "nat \<Rightarrow> nat"
  rt_stopped :: bool
  rt_waited :: "state_dir \<Rightarrow> state_dir"
  rt_called :: "state_dir \<Rightarrow> state_dir"
  rt_answer :: "(string \<times> string) option"
  rt_reads_before :: "cred_file \<Rightarrow> bool"
  rt_reads :: "cred_file \<Rightarrow> bool"
  rt_fails :: "cred_file \<Rightarrow> durable_step \<Rightarrow> bool"
  rt_now_after :: instant
  rt_elapsed_after :: duration

datatype renew_end = Stopped | Reenrolled

definition Renewer_turn :: "credential_lib \<Rightarrow> renew_turn \<Rightarrow> Renewer \<Rightarrow> renew_end option \<times> Renewer" where
  "Renewer_turn lib t st = (if rt_stopped t then (Some Stopped, st)
     else let h = rn_holder st; leaf = ho_leaf h; expired = cred_expired leaf (rt_now t) (lifeClock_age (rn_clock st) (rt_elapsed t));
       st = st\<lparr>rn_dir := rt_waited t (rn_dir st)\<rparr> in
     if checkStoredKey lib (rt_reads_before t) h (rn_dir st) = Inl ErrReenrolled then (Some Reenrolled, st)
     else let st = st\<lparr>rn_dir := rt_called t (rn_dir st)\<rparr> in
     case (case Client_Renew lib (ho_key h) (rt_answer t) of
         Inl e \<Rightarrow> (Inl e, rn_dir st)
       | Inr (k, cert, bundle) \<Rightarrow> Holder_Replace lib (rt_reads t) (rt_fails t) cert bundle h (rn_dir st)) of
       (Inl ErrReenrolled, dir) \<Rightarrow> (Some Reenrolled, st\<lparr>rn_dir := dir\<rparr>)
     | (Inl e, dir) \<Rightarrow> (None, st\<lparr>rn_dir := dir, rn_attempt := rn_attempt st + 1, rn_last_error := Some (expired, e)\<rparr>)
     | (Inr h', dir) \<Rightarrow> (None, st\<lparr>rn_holder := h', rn_dir := dir, rn_attempt := 0, rn_last_error := None,
         rn_clock := newLifeClock (ho_leaf h') (rt_now_after t) (rt_elapsed_after t)\<rparr>))"

fun Renewer_Run :: "credential_lib \<Rightarrow> renew_turn list \<Rightarrow> Renewer \<Rightarrow> renew_end option \<times> Renewer" where
  "Renewer_Run lib [] st = (None, st)"
| "Renewer_Run lib (t # ts) st = (case Renewer_turn lib t st of (Some e, st) \<Rightarrow> (Some e, st) | (None, st) \<Rightarrow> Renewer_Run lib ts st)"

definition Renewer_start :: "Holder \<Rightarrow> state_dir \<Rightarrow> instant \<Rightarrow> duration \<Rightarrow> Renewer" where
  "Renewer_start h dir now elapsed = \<lparr>rn_holder = h, rn_dir = dir, rn_attempt = 0, rn_clock = newLifeClock (ho_leaf h) now elapsed, rn_last_error = None\<rparr>"

section \<open>The renewal point\<close>

lemma double_round_bounds:
  assumes "double_round n = (m, e)"
  shows "2 * (m * 2 ^ e) \<le> 2 * n + 2 ^ e" and "2 * n \<le> 2 * (m * 2 ^ e) + 2 ^ e"
proof -
  have n: "n = n div 2 ^ e * 2 ^ e + n mod 2 ^ e" by (rule div_mult_mod_eq [symmetric])
  have r: "n mod 2 ^ e < 2 ^ e" by simp
  have e: "e = floorlog 2 n - 53" and m: "m = n div 2 ^ e \<and> 2 * (n mod 2 ^ e) \<le> 2 ^ e \<or> m = n div 2 ^ e + 1 \<and> 2 ^ e \<le> 2 * (n mod 2 ^ e)"
    using assms by (auto simp: double_round_def Let_def split: if_split_asm)
  obtain a where a: "a = n div 2 ^ e * 2 ^ e" by blast
  have m': "m * 2 ^ e = a \<and> 2 * (n mod 2 ^ e) \<le> 2 ^ e \<or> m * 2 ^ e = a + 2 ^ e \<and> 2 ^ e \<le> 2 * (n mod 2 ^ e)"
    using m unfolding a by (elim disjE conjE) (simp_all add: add_mult_distrib)
  show "2 * (m * 2 ^ e) \<le> 2 * n + 2 ^ e" and "2 * n \<le> 2 * (m * 2 ^ e) + 2 ^ e" using m' n [folded a] r by linarith+
qed

lemma double_round_small: "n < 2 ^ 53 \<Longrightarrow> double_round n = (n, 0)"
  by (simp add: double_round_def Let_def floorlog_le_iff)

lemma double_round_exponent: "n < 2 ^ w \<Longrightarrow> snd (double_round n) \<le> w - 53"
  using floorlog_leI [of n 2 w] by (simp add: double_round_def Let_def)

text \<open>Below 52 bits of nanoseconds, which is 52 days, the product is off by less than a quarter of the unit the fractions need.\<close>

lemma float_fraction_bounds:
  assumes "0 < d" and "d < 2 ^ 52"
  shows "\<exists>x::nat. float_fraction s d = int (x div 2 ^ s) \<and> x \<le> nat d * third2 + 2 ^ 51 \<and> nat d * third2 \<le> x + 2 ^ 51"
proof -
  have d: "nat d < 2 ^ 52" using assms by (simp add: nat_less_iff)
  then have m: "double_round (nat d) = (nat d, 0)" by (intro double_round_small) simp
  obtain p f where pf: "double_round (nat d * third2) = (p, f)" by (cases "double_round (nat d * third2)")
  have "nat d * third2 < 2 ^ 52 * 2 ^ 53" using d by (intro mult_strict_mono) (simp_all add: third2_def)
  then have "f \<le> 52" using double_round_exponent [of "nat d * third2" 105] pf by simp
  then have f: "(2::nat) ^ f \<le> 2 ^ 52" by (intro power_increasing) simp_all
  note b = double_round_bounds [OF pf]
  have "2 * (p * 2 ^ f) \<le> 2 * (nat d * third2) + 2 ^ 52" "2 * (nat d * third2) \<le> 2 * (p * 2 ^ f) + 2 ^ 52" using b f by linarith+
  then have "p * 2 ^ f \<le> nat d * third2 + 2 ^ 51" "nat d * third2 \<le> p * 2 ^ f + 2 ^ 51" by simp_all
  then show ?thesis using m pf by (intro exI [of _ "p * 2 ^ f"]) (simp add: float_fraction_def)
qed

lemma RenewFraction_bounds:
  assumes "0 < d" and "d < 2 ^ 52"
  shows "3 * RenewFraction d \<le> 2 * d" and "2 * d \<le> 3 * RenewFraction d + 4"
proof -
  obtain x where x: "RenewFraction d = int (x div 2 ^ 53)" "x \<le> nat d * third2 + 2 ^ 51" "nat d * third2 \<le> x + 2 ^ 51"
    using float_fraction_bounds [OF assms, of 53] unfolding RenewFraction_def by blast
  have q: "x div 2 ^ 53 * 2 ^ 53 \<le> x" "x < x div 2 ^ 53 * 2 ^ 53 + 2 ^ 53" using dividend_less_div_times [of "2 ^ 53" x] by simp_all
  have d: "int (nat d) = d" "nat d < 2 ^ 52" using assms by (simp_all add: nat_less_iff)
  have t: "3 * third2 = 2 ^ 54 - 1" by (simp add: third2_def)
  have "3 * (x div 2 ^ 53) \<le> 2 * nat d" using q(1) x(2) d(2) by (simp add: third2_def)
  then show "3 * RenewFraction d \<le> 2 * d" using x(1) d(1) by linarith
  have "2 * nat d \<le> 3 * (x div 2 ^ 53) + 4" using q(2) x(3) d(2) by (simp add: third2_def)
  then show "2 * d \<le> 3 * RenewFraction d + 4" using x(1) d(1) by linarith
qed

lemma RenewJitterFraction_bounds:
  assumes "0 < d" and "d < 2 ^ 52"
  shows "12 * RenewJitterFraction d \<le> d" and "0 \<le> RenewJitterFraction d"
proof -
  obtain x where x: "RenewJitterFraction d = int (x div 2 ^ 56)" "x \<le> nat d * third2 + 2 ^ 51"
    using float_fraction_bounds [OF assms, of 56] unfolding RenewJitterFraction_def by blast
  have q: "x div 2 ^ 56 * 2 ^ 56 \<le> x" by simp
  have d: "int (nat d) = d" "nat d < 2 ^ 52" using assms by (simp_all add: nat_less_iff)
  have "12 * (x div 2 ^ 56) \<le> nat d" using q x(2) d(2) by (simp add: third2_def)
  then show "12 * RenewJitterFraction d \<le> d" using x(1) d(1) by linarith
  show "0 \<le> RenewJitterFraction d" using x(1) by simp
qed

lemma RenewAt_bounds:
  assumes "notBefore < notAfter" and "notAfter - notBefore < 2 ^ 52" and "\<And>n. 0 < n \<Longrightarrow> rng n < n"
  shows "3 * (RenewAt rng notBefore notAfter - notBefore) \<le> 2 * (notAfter - notBefore)"
    and "7 * (notAfter - notBefore) \<le> 12 * (RenewAt rng notBefore notAfter - notBefore) + 16"
proof -
  define d where "d = notAfter - notBefore"
  let ?d = d let ?p = "RenewFraction d" let ?w = "RenewJitterFraction d"
  have d: "0 < d" "d < 2 ^ 52" using assms(1,2) by (simp_all add: d_def)
  note p = RenewFraction_bounds [OF d] and w = RenewJitterFraction_bounds [OF d]
  have "\<exists>j. RenewAt rng notBefore notAfter = notBefore + ?p - j \<and> 0 \<le> j \<and> j \<le> ?w"
  proof (cases "0 < ?w")
    case True
    then have "rng (nat ?w) < nat ?w" by (intro assms(3)) simp
    then show ?thesis using True d by (intro exI [of _ "int (rng (nat ?w))"]) (simp add: RenewAt_def Let_def flip: d_def)
  next
    case False
    then show ?thesis using d w(2) by (intro exI [of _ 0]) (simp add: RenewAt_def Let_def flip: d_def)
  qed
  then obtain j where j: "RenewAt rng notBefore notAfter = notBefore + ?p - j" "0 \<le> j" "j \<le> ?w" by blast
  show "3 * (RenewAt rng notBefore notAfter - notBefore) \<le> 2 * (notAfter - notBefore)" using j p(1) unfolding d_def [symmetric] by simp
  show "7 * (notAfter - notBefore) \<le> 12 * (RenewAt rng notBefore notAfter - notBefore) + 16" using j p(2) w(1) unfolding d_def [symmetric] by simp
qed

section \<open>Waits\<close>

lemma backoff_bounds:
  assumes "0 < sint limit" and "\<And>n. 0 < n \<Longrightarrow> rng n < n"
  shows "0 \<le> backoff rng attempt base limit" and "backoff rng attempt base limit < sint limit"
proof -
  let ?c = "sint (backoff_ceiling attempt base limit)"
  have b: "backoff rng attempt base limit = int (rng (nat ?c))" by (simp add: backoff_def backoff_ceiling_def Let_def)
  have c: "0 < ?c" "?c \<le> sint limit" using backoff_ceiling_bounds [OF assms(1)] by blast+
  then have "rng (nat ?c) < nat ?c" by (intro assms(2)) simp
  with b c show "0 \<le> backoff rng attempt base limit" "backoff rng attempt base limit < sint limit" by linarith+
qed

lemma caps: "0 < sint (retry_cap cfg)" "0 < sint (expired_cap cfg)" "sint (expired_cap cfg) \<le> 300000000000"
  by (auto simp: retry_cap_def expired_cap_def ExpiredRetryCap_def)

lemma renew_wait_nonneg:
  assumes "\<And>n. 0 < n \<Longrightarrow> rng n < n"
  shows "0 \<le> renew_wait cfg rng leaf attempt now age"
  using backoff_bounds(1) [OF caps(1) assms] backoff_bounds(1) [OF caps(2) assms] by (auto simp: renew_wait_def cred_expired_def Let_def)

text \<open>\<^bold>\<open>C12\<close>: When the renewer waits. The first attempt of a credential is never later, by the wall clock or by elapsed time, than two
  thirds of its lifetime, rounding included, unless that is past already; after a failed attempt the next is before the expiry; and of an
  expired credential the next attempt is at most five minutes away.\<close>

theorem renewal_in_time:
  assumes "cert_not_before leaf < cert_not_after leaf" and "lifetime_of leaf < 2 ^ 52" and "\<And>n. 0 < n \<Longrightarrow> rng n < n"
    and "w = renew_wait cfg rng leaf attempt now age"
  shows "0 \<le> w \<and>
    (cred_expired leaf now age \<longrightarrow> w < 5 * 60 * 1000000000) \<and>
    (\<not> cred_expired leaf now age \<and> attempt = 0 \<longrightarrow> w = 0 \<or>
      3 * (now + w - cert_not_before leaf) \<le> 2 * lifetime_of leaf \<and> 3 * (age + w) \<le> 2 * lifetime_of leaf) \<and>
    (\<not> cred_expired leaf now age \<and> 0 < attempt \<longrightarrow> now + w \<le> cert_not_after leaf \<and> age + w \<le> lifetime_of leaf)"
proof (intro conjI impI)
  show "0 \<le> w" unfolding assms(4) by (rule renew_wait_nonneg [OF assms(3)])
  show "w < 5 * 60 * 1000000000" if "cred_expired leaf now age"
    using that backoff_bounds(2) [OF caps(2) [of cfg] assms(3), of attempt "retry_base cfg"] caps(3) [of cfg]
    by (simp add: assms(4) renew_wait_def)
  show "w = 0 \<or> 3 * (now + w - cert_not_before leaf) \<le> 2 * lifetime_of leaf \<and> 3 * (age + w) \<le> 2 * lifetime_of leaf"
    if c: "\<not> cred_expired leaf now age \<and> attempt = 0"
  proof (cases "w = 0")
    case False
    let ?p = "RenewAt rng (cert_not_before leaf) (cert_not_after leaf)"
    have "w \<le> ?p - now" "w \<le> ?p - cert_not_before leaf - age"
      using c False by (auto simp: assms(4) renew_wait_def Let_def max_def split: if_split_asm)
    moreover have "3 * (?p - cert_not_before leaf) \<le> 2 * lifetime_of leaf" by (rule RenewAt_bounds(1)) (use assms(1-3) in auto)
    ultimately show ?thesis by (intro disjI2 conjI) simp_all
  qed simp
  show "now + w \<le> cert_not_after leaf" "age + w \<le> lifetime_of leaf" if "\<not> cred_expired leaf now age \<and> 0 < attempt"
    using that by (auto simp: assms(4) renew_wait_def)
qed

section \<open>The directory\<close>

text \<open>What is relied on of keys: writing one and reading it back gives it, and pairing depends on the key alone.\<close>

definition lib_ok :: "credential_lib \<Rightarrow> bool" where
  "lib_ok lib = ((\<forall>k. cl_key lib (cl_pem lib k) = Some k) \<and> (\<forall>c p k. cl_key lib p = Some k \<longrightarrow> cl_pair lib c p = cl_pair lib c (cl_pem lib k)))"

text \<open>A directory after a crash: each file is one of those a crash may leave.\<close>

definition crash_leaves :: "state_dir \<Rightarrow> state_dir \<Rightarrow> bool" where
  "crash_leaves dir dir' = (\<forall>x. f_content (dir' x) \<in> set (f_crash (dir x)))"

text \<open>Whatever a crash leaves of the directory, it holds the key \<open>k\<close>, a certificate for it, and a bundle.\<close>

definition crash_safe :: "credential_lib \<Rightarrow> string \<Rightarrow> state_dir \<Rightarrow> bool" where
  "crash_safe lib k dir = ((\<forall>x. f_content (dir x) \<in> set (f_crash (dir x))) \<and>
     (\<forall>p\<in>set (f_crash (dir KeyFile)). \<exists>pem. p = Some pem \<and> cl_key lib pem = Some k) \<and>
     (\<forall>c\<in>set (f_crash (dir CertFile)). \<exists>cert. c = Some cert \<and> cl_pair lib cert (cl_pem lib k) \<noteq> None) \<and>
     None \<notin> set (f_crash (dir BundleFile)))"

lemma writeAtomic_file:
  assumes "writeAtomic fails data f = (r, f')"
  shows "f' = f \<or> f' = f\<lparr>f_content := Some data, f_crash := Some data # f_crash f\<rparr>"
  using assms by (auto simp: writeAtomic_def split: if_split_asm)

lemma write_file_dir:
  assumes "write_file fails x data dir = (r, dir')"
  shows "dir' = dir \<or> dir' = dir(x := (dir x)\<lparr>f_content := Some data, f_crash := Some data # f_crash (dir x)\<rparr>)"
  using assms writeAtomic_file by (auto simp: write_file_def split: prod.split_asm sum.split_asm) (metis fun_upd_triv)+

lemma ReplaceCertificate_files:
  assumes "ReplaceCertificate fails cert bundle dir = (r, dir')"
  shows "dir' KeyFile = dir KeyFile \<and> (dir' CertFile = dir CertFile \<or> f_content (dir' CertFile) = Some cert)"
proof -
  obtain r1 d1 where b: "(if bundle \<noteq> [] then write_file fails BundleFile bundle dir else (Inr (), dir)) = (r1, d1)" by fastforce
  then have d1: "d1 KeyFile = dir KeyFile" "d1 CertFile = dir CertFile" by (auto split: if_split_asm dest!: write_file_dir)
  show ?thesis
  proof (cases r1)
    case (Inl e)
    then show ?thesis using assms b d1 by (simp add: ReplaceCertificate_def then_write_def)
  next
    case (Inr u)
    then have "write_file fails CertFile cert d1 = (r, dir')" using assms b by (simp add: ReplaceCertificate_def then_write_def)
    from write_file_dir [OF this] show ?thesis using d1 by auto
  qed
qed

lemma ReplaceCertificate_safe:
  assumes "ReplaceCertificate fails cert bundle dir = (r, dir')" and "crash_safe lib k dir" and "cl_pair lib cert (cl_pem lib k) \<noteq> None"
  shows "crash_safe lib k dir'"
proof -
  obtain r1 d1 where b: "(if bundle \<noteq> [] then write_file fails BundleFile bundle dir else (Inr (), dir)) = (r1, d1)" by fastforce
  have s1: "crash_safe lib k d1" using b assms(2) by (auto simp: crash_safe_def split: if_split_asm dest!: write_file_dir)
  show ?thesis
  proof (cases r1)
    case (Inl e)
    then show ?thesis using assms(1) b s1 by (simp add: ReplaceCertificate_def then_write_def)
  next
    case (Inr u)
    then have "write_file fails CertFile cert d1 = (r, dir')" using assms(1) b by (simp add: ReplaceCertificate_def then_write_def)
    from write_file_dir [OF this] show ?thesis using s1 assms(3) by (auto simp: crash_safe_def)
  qed
qed

lemma crash_safe_loads:
  assumes "lib_ok lib" and "crash_safe lib k dir" and "crash_leaves dir dir'"
  shows "\<exists>h. LoadHolder lib (\<lambda>_. True) dir' = Inr h \<and> ho_key h = k \<and> cl_pair lib (ho_cert h) (cl_pem lib k) = Some (ho_leaf h)"
proof -
  have c: "f_content (dir' x) \<in> set (f_crash (dir x))" for x using assms(3) by (simp add: crash_leaves_def)
  obtain pem where key: "f_content (dir' KeyFile) = Some pem" "cl_key lib pem = Some k" using c [of KeyFile] assms(2) unfolding crash_safe_def by blast
  obtain cert where cert: "f_content (dir' CertFile) = Some cert" "cl_pair lib cert (cl_pem lib k) \<noteq> None"
    using c [of CertFile] assms(2) unfolding crash_safe_def by blast
  note p = key cert
  have "f_content (dir' BundleFile) \<noteq> None" using c [of BundleFile] assms(2) unfolding crash_safe_def by metis
  then obtain bun where b: "f_content (dir' BundleFile) = Some bun" by blast
  obtain leaf where leaf: "cl_pair lib cert (cl_pem lib k) = Some leaf" using p(4) by blast
  moreover have "cl_pair lib cert pem = cl_pair lib cert (cl_pem lib k)" using assms(1) p(2) unfolding lib_ok_def by blast
  ultimately have leaf': "cl_pair lib cert pem = Some leaf" by simp
  show ?thesis using p b leaf leaf' by (simp add: LoadHolder_def Store_Load_credential_def Store_LoadKey_def read_file_def)
qed

lemma crash_safe_key:
  assumes "crash_safe lib k dir"
  shows "Store_LoadKey lib reads dir = Inr k \<or> Store_LoadKey lib reads dir = Inl (NoRead KeyFile)"
proof -
  obtain pem where "f_content (dir KeyFile) = Some pem" "cl_key lib pem = Some k" using assms unfolding crash_safe_def by blast
  then show ?thesis by (simp add: Store_LoadKey_def)
qed

lemma write_file_Inr:
  "write_file fails x data dir = (Inr (), dir') \<Longrightarrow> dir' = dir(x := (dir x)\<lparr>f_content := Some data, f_crash := Some data # f_crash (dir x)\<rparr>)"
  by (auto simp: write_file_def writeAtomic_def split: prod.split_asm sum.split_asm if_split_asm)

lemma then_write_Inr: "then_write r f = (Inr (), dir') \<longleftrightarrow> (\<exists>dir. r = (Inr (), dir) \<and> f dir = (Inr (), dir'))"
  by (auto simp: then_write_def split: prod.split sum.split)

text \<open>A saved enrollment loads as it was saved, and is not enrolled over before it expires.\<close>

lemma saved_enrollment_loads:
  assumes "lib_ok lib" and "cl_pair lib cert (cl_pem lib key) = Some leaf" and "Store_Save lib made fails key cert bun dir = (Inr (), dir')"
  shows "LoadHolder lib (\<lambda>_. True) dir' = Inr \<lparr>ho_key = key, ho_leaf = leaf, ho_cert = cert, ho_trust = bun\<rparr>"
    and "Enrollable lib (\<lambda>_. True) now dir' = (if now < cert_not_after leaf then Inl ErrHoldsCredential else Inr (Some leaf))"
proof -
  have k: "cl_key lib (cl_pem lib key) = Some key" using assms(1) by (simp add: lib_ok_def)
  have c: "f_content (dir' KeyFile) = Some (cl_pem lib key)" "f_content (dir' BundleFile) = Some bun" "f_content (dir' CertFile) = Some cert"
    using assms(3) by (auto simp: Store_Save_def then_write_Inr dest!: write_file_Inr split: if_split_asm)
  show "LoadHolder lib (\<lambda>_. True) dir' = Inr \<lparr>ho_key = key, ho_leaf = leaf, ho_cert = cert, ho_trust = bun\<rparr>"
    and "Enrollable lib (\<lambda>_. True) now dir' = (if now < cert_not_after leaf then Inl ErrHoldsCredential else Inr (Some leaf))"
    using assms(2) c k by (simp_all add: LoadHolder_def Enrollable_def Store_Load_credential_def Store_LoadKey_def read_file_def)
qed

section \<open>Runs\<close>

text \<open>What a turn did: it ended the run, it failed, or it replaced the certificate.\<close>

lemma Renewer_turn_cases:
  assumes "Renewer_turn lib t st = (e, st')"
  obtains (stopped) "e = Some Stopped" "st' = st"
  | (early) "e = Some Reenrolled" "st' = st\<lparr>rn_dir := rt_waited t (rn_dir st)\<rparr>"
      "checkStoredKey lib (rt_reads_before t) (rn_holder st) (rt_waited t (rn_dir st)) = Inl ErrReenrolled"
  | (refused) f where "Client_Renew lib (ho_key (rn_holder st)) (rt_answer t) = Inl f" "rn_dir st' = rt_called t (rt_waited t (rn_dir st))"
      "rn_holder st' = rn_holder st" "e = None \<or> e = Some Reenrolled \<and> f = ErrReenrolled"
  | (replaced) k cert bun r where "Client_Renew lib (ho_key (rn_holder st)) (rt_answer t) = Inr (k, cert, bun)"
      "Holder_Replace lib (rt_reads t) (rt_fails t) cert bun (rn_holder st) (rt_called t (rt_waited t (rn_dir st))) = (r, rn_dir st')"
      "rn_holder st' = (case r of Inl _ \<Rightarrow> rn_holder st | Inr h \<Rightarrow> h)" "e = (if r = Inl ErrReenrolled then Some Reenrolled else None)"
proof (cases "rt_stopped t \<or> checkStoredKey lib (rt_reads_before t) (rn_holder st) (rt_waited t (rn_dir st)) = Inl ErrReenrolled")
  case True
  then show ?thesis using assms stopped early by (auto simp: Renewer_turn_def Let_def split: if_split_asm)
next
  case False
  show ?thesis
  proof (cases "Client_Renew lib (ho_key (rn_holder st)) (rt_answer t)")
    case (Inl f)
    then show ?thesis using assms False by (intro refused [OF Inl]) (auto simp: Renewer_turn_def Let_def split: cred_error.split_asm)
  next
    case (Inr x)
    obtain k cert bun where x: "x = (k, cert, bun)" by (cases x)
    obtain r dir where r: "Holder_Replace lib (rt_reads t) (rt_fails t) cert bun (rn_holder st) (rt_called t (rt_waited t (rn_dir st))) = (r, dir)"
      by fastforce
    then show ?thesis using assms False Inr x
      by (intro replaced [of k cert bun r]) (auto simp: Renewer_turn_def Let_def split: cred_error.split_asm sum.split_asm cred_error.split sum.split)
  qed
qed

lemma Client_Renew_never_reenrolled: "Client_Renew lib key resp \<noteq> Inl ErrReenrolled"
  by (auto simp: Client_Renew_def parseCert_def cert_identity_def verifyAgainst_def split: option.split prod.split sum.split)

lemma checkStoredKey_Inr: "checkStoredKey lib reads h dir = Inr u \<longleftrightarrow> Store_LoadKey lib reads dir = Inr (ho_key h)"
  by (auto simp: checkStoredKey_def split: sum.split cred_error.split)

lemma Holder_Replace_cases:
  assumes "Holder_Replace lib reads fails cert bun h dir = (r, dir')"
  obtains (unwritten) f where "r = Inl f" "dir' = dir"
  | (written) leaf r' where "cl_pair lib cert (cl_pem lib (ho_key h)) = Some leaf" "Store_LoadKey lib reads dir = Inr (ho_key h)"
      "ReplaceCertificate fails cert bun dir = (r', dir')"
      "r = (case r' of Inl f \<Rightarrow> Inl f | Inr _ \<Rightarrow> Inr (h\<lparr>ho_leaf := leaf, ho_cert := cert, ho_trust := if bun \<noteq> [] then bun else ho_trust h\<rparr>))"
proof (cases "\<exists>leaf. cl_pair lib cert (cl_pem lib (ho_key h)) = Some leaf \<and> checkStoredKey lib reads h dir = Inr ()")
  case True
  then obtain leaf where l: "cl_pair lib cert (cl_pem lib (ho_key h)) = Some leaf" "checkStoredKey lib reads h dir = Inr ()" by blast
  obtain r' d where r': "ReplaceCertificate fails cert bun dir = (r', d)" by fastforce
  show ?thesis using assms l r' by (intro written [of leaf r']) (auto simp: Holder_Replace_def checkStoredKey_Inr split: sum.split_asm)
next
  case False
  then show ?thesis using assms unwritten by (auto simp: Holder_Replace_def split: option.split_asm sum.split_asm)
qed

lemma write_errors:
  "ReplaceCertificate fails cert bun dir = (Inl f, dir') \<Longrightarrow> f \<noteq> ErrReenrolled"
  by (auto simp: ReplaceCertificate_def then_write_def write_file_def split: if_split_asm prod.split_asm sum.split_asm)

text \<open>The renewer against a host that is enrolled again underneath it. It never touches the key file, and writes to the directory at all only while the
  directory holds its own key, a certificate that pairs with that key; when it finds another key, or none, it ends, and leaves the directory as it
  found it.\<close>

lemma renewer_spares_new_identity:
  assumes "Renewer_turn lib t st = (e, st')" and "found = rt_called t (rt_waited t (rn_dir st))"
  shows "((e = Some Stopped \<and> rn_dir st' = rn_dir st \<or> e = Some Reenrolled \<and> rn_dir st' = rt_waited t (rn_dir st) \<or> rn_dir st' = found) \<or>
      Store_LoadKey lib (rt_reads t) found = Inr (ho_key (rn_holder st)) \<and> rn_dir st' KeyFile = found KeyFile \<and>
      (\<exists>cert. cl_pair lib cert (cl_pem lib (ho_key (rn_holder st))) \<noteq> None \<and>
        (rn_dir st' CertFile = found CertFile \<or> f_content (rn_dir st' CertFile) = Some cert))) \<and>
    (\<not> rt_stopped t \<and> checkStoredKey lib (rt_reads_before t) (rn_holder st) (rt_waited t (rn_dir st)) = Inl ErrReenrolled \<longrightarrow>
      e = Some Reenrolled \<and> rn_dir st' = rt_waited t (rn_dir st))"
proof
  show "(e = Some Stopped \<and> rn_dir st' = rn_dir st \<or> e = Some Reenrolled \<and> rn_dir st' = rt_waited t (rn_dir st) \<or> rn_dir st' = found) \<or>
      Store_LoadKey lib (rt_reads t) found = Inr (ho_key (rn_holder st)) \<and> rn_dir st' KeyFile = found KeyFile \<and>
      (\<exists>cert. cl_pair lib cert (cl_pem lib (ho_key (rn_holder st))) \<noteq> None \<and>
        (rn_dir st' CertFile = found CertFile \<or> f_content (rn_dir st' CertFile) = Some cert))"
    using assms(1)
  proof (cases rule: Renewer_turn_cases)
    case (replaced k cert bun r)
    from replaced(2) [folded assms(2)] show ?thesis
    proof (cases rule: Holder_Replace_cases)
      case (written leaf r')
      then show ?thesis using ReplaceCertificate_files [OF written(3)] by blast
    qed simp
  qed (simp_all add: assms(2))
qed (use assms(1) in \<open>auto simp: Renewer_turn_def Let_def\<close>)

text \<open>Nobody else writes to the directory.\<close>

definition undisturbed :: "renew_turn \<Rightarrow> bool" where
  "undisturbed t = (\<forall>dir. rt_waited t dir = dir \<and> rt_called t dir = dir)"

lemma undisturbed_not_reenrolled:
  assumes "crash_safe lib k dir" and "ho_key h = k"
  shows "checkStoredKey lib reads h dir \<noteq> Inl ErrReenrolled"
  using crash_safe_key [OF assms(1), of reads] assms(2) by (auto simp: checkStoredKey_def)

lemma Holder_Replace_undisturbed:
  assumes "Holder_Replace lib reads fails cert bun h dir = (r, dir')" and "crash_safe lib k dir" and "ho_key h = k"
  shows "crash_safe lib k dir' \<and> r \<noteq> Inl ErrReenrolled \<and> (\<forall>h'. r = Inr h' \<longrightarrow> ho_key h' = k)"
proof (cases "cl_pair lib cert (cl_pem lib k)")
  case None
  then show ?thesis using assms by (auto simp: Holder_Replace_def)
next
  case (Some leaf)
  show ?thesis
  proof (cases "checkStoredKey lib reads h dir")
    case (Inl e)
    then show ?thesis using assms Some undisturbed_not_reenrolled [OF assms(2,3), of reads] by (auto simp: Holder_Replace_def)
  next
    case (Inr u)
    obtain r' d where r': "ReplaceCertificate fails cert bun dir = (r', d)" by fastforce
    have "crash_safe lib k d" by (rule ReplaceCertificate_safe [OF r' assms(2)]) (use Some in simp)
    moreover have "r' \<noteq> Inl ErrReenrolled" using r' write_errors by blast
    ultimately show ?thesis using assms Some Inr r' by (auto simp: Holder_Replace_def split: sum.split_asm)
  qed
qed

lemma Renewer_turn_undisturbed:
  assumes "Renewer_turn lib t st = (e, st')" and "undisturbed t" and "crash_safe lib k (rn_dir st)" and "ho_key (rn_holder st) = k"
  shows "crash_safe lib k (rn_dir st') \<and> ho_key (rn_holder st') = k \<and> e \<noteq> Some Reenrolled"
  using assms(1)
proof (cases rule: Renewer_turn_cases)
  case early
  then show ?thesis using assms(2) undisturbed_not_reenrolled [OF assms(3,4)] by (simp add: undisturbed_def)
next
  case (refused f)
  then show ?thesis using assms(2-4) Client_Renew_never_reenrolled [of lib "ho_key (rn_holder st)" "rt_answer t"] by (auto simp: undisturbed_def)
next
  case (replaced j cert bun r)
  from Holder_Replace_undisturbed [OF replaced(2)] assms(2-4) have "crash_safe lib k (rn_dir st') \<and> r \<noteq> Inl ErrReenrolled \<and> (\<forall>h'. r = Inr h' \<longrightarrow> ho_key h' = k)"
    by (simp add: undisturbed_def)
  then show ?thesis using replaced(3,4) assms(4) by (cases r) auto
qed (use assms in simp_all)

lemma Renewer_Run_undisturbed:
  assumes "Renewer_Run lib ts st = (e, st')" and "list_all undisturbed ts" and "crash_safe lib k (rn_dir st)" and "ho_key (rn_holder st) = k"
  shows "crash_safe lib k (rn_dir st') \<and> ho_key (rn_holder st') = k \<and> e \<noteq> Some Reenrolled"
  using assms
proof (induction ts arbitrary: st)
  case (Cons t ts)
  obtain e1 st1 where t: "Renewer_turn lib t st = (e1, st1)" by fastforce
  from Renewer_turn_undisturbed [OF t] Cons.prems have "crash_safe lib k (rn_dir st1) \<and> ho_key (rn_holder st1) = k \<and> e1 \<noteq> Some Reenrolled" by simp
  then show ?case using Cons.IH [of st1] Cons.prems t by (cases e1) auto
qed simp

text \<open>\<^bold>\<open>C11\<close>: However many renewals a daemon ran, and whichever of their reads, calls and writes failed, a crash leaves a directory from which the restarted
  daemon loads a certificate that pairs with its key; and a directory nobody else wrote to is never taken for one enrolled again.\<close>

theorem renewals_survive_crash:
  assumes "lib_ok lib" and "crash_safe lib (ho_key h) dir" and "list_all undisturbed ts"
    and "Renewer_Run lib ts (Renewer_start h dir now elapsed) = (e, st)" and "crash_leaves (rn_dir st) dir'"
  shows "e \<noteq> Some Reenrolled \<and>
    (\<exists>h'. LoadHolder lib (\<lambda>_. True) dir' = Inr h' \<and> ho_key h' = ho_key h \<and> cl_pair lib (ho_cert h') (cl_pem lib (ho_key h)) = Some (ho_leaf h'))"
proof -
  have r: "crash_safe lib (ho_key h) (rn_dir st) \<and> e \<noteq> Some Reenrolled"
    using Renewer_Run_undisturbed [OF assms(4,3), of "ho_key h"] assms(2) by (simp add: Renewer_start_def)
  then show ?thesis using crash_safe_loads [OF assms(1) _ assms(5)] by blast
qed

section \<open>Renewal within the grace\<close>

lemma writeAtomic_succeeds: "(\<And>s. \<not> fails s) \<Longrightarrow> writeAtomic fails data f = (Inr (), f\<lparr>f_content := Some data, f_crash := Some data # f_crash f\<rparr>)"
  by (simp add: writeAtomic_def)

lemma ReplaceCertificate_succeeds:
  assumes "\<And>x s. \<not> fails x s"
  shows "\<exists>dir'. ReplaceCertificate fails cert bun dir = (Inr (), dir') \<and> f_content (dir' CertFile) = Some cert"
  using assms by (auto simp: ReplaceCertificate_def then_write_def write_file_def writeAtomic_succeeds)

lemma Renew_within_grace:
  assumes "presentedFrom \<le> admitted" and "admitted \<le> presentedUntil \<or> truncate_second (admitted - presentedUntil) \<le> Grace cfg"
    and "GetWorkload True k db = Inr w" and "ew_retired_at w = None" and "issue parse au cfg k csr = Inr cred"
  shows "\<exists>late db'. Renew (\<lambda>db. db) parse au cfg True True admitted now k presentedFrom presentedUntil csr db = (Inr (cred\<lparr>cr_late_by := late\<rparr>), db')"
proof -
  have a: "AdmitCredential cfg admitted presentedFrom presentedUntil True = None" using assms(1,2) by (auto simp: AdmitCredential_def StandingAt_def)
  have "find (\<lambda>w. ew_id w = k) (db_workloads db) = Some w" using assms(3) by (auto simp: GetWorkload_def split: option.split_asm)
  then obtain db' where "RecordRenewal True k (cr_serial cred) (cr_expires_at cred) now
      (if presentedUntil < now then Some \<lparr>late_renewed_at = now, late_expired_at = presentedUntil\<rparr> else None) db = Inr db'"
    using assms(4) by (auto simp: RecordRenewal_def)
  then show ?thesis using a assms(3-5)
    by (intro exI [of _ "if presentedUntil < now then now - presentedUntil else cr_late_by cred"] exI [of _ db'])
       (cases "presentedUntil < now"; simp add: Renew_def Let_def)
qed

text \<open>\<^bold>\<open>C13\<close>: An agent that was cut off past its expiry is renewed within the grace: when its request reaches the control plane while the lateness, in whole
  seconds, is within the grace and the workload is not retired, and the certificate issued over its key is taken back to it, the turn leaves it holding that
  certificate, on disk as in memory, with nothing left to report.\<close>

theorem renewed_within_grace:
  assumes "cert_not_before (ho_leaf (rn_holder st)) \<le> admitted"
    and "admitted \<le> cert_not_after (ho_leaf (rn_holder st)) \<or> truncate_second (admitted - cert_not_after (ho_leaf (rn_holder st))) \<le> Grace cfg"
    and "GetWorkload True k db = Inr w" and "ew_retired_at w = None" and "issue (cl_uuid lib) au cfg k csr = Inr cred"
    and "crash_safe lib (ho_key (rn_holder st)) (rn_dir st)" and "undisturbed t" and "\<not> rt_stopped t"
    and "\<forall>x. rt_reads t x" and "\<forall>x s. \<not> rt_fails t x s"
    and "cl_parse lib = au_decode au" and "cl_public lib (cr_certificate_pem cred) = Some (ho_key (rn_holder st))"
    and "cl_verify lib (cr_certificate_pem cred) (cr_bundle_pem cred)" and "cl_pair lib (cr_certificate_pem cred) (cl_pem lib (ho_key (rn_holder st))) = Some leaf"
  shows "\<exists>answer db' st'. Renew (\<lambda>db. db) (cl_uuid lib) au cfg True True admitted now k (cert_not_before (ho_leaf (rn_holder st))) (cert_not_after (ho_leaf (rn_holder st))) csr db
        = (Inr answer, db') \<and>
      Renewer_turn lib (t\<lparr>rt_answer := Some (cr_certificate_pem answer, cr_bundle_pem answer)\<rparr>) st = (None, st') \<and>
      ho_leaf (rn_holder st') = leaf \<and> ho_cert (rn_holder st') = cr_certificate_pem cred \<and> f_content (rn_dir st' CertFile) = Some (cr_certificate_pem cred) \<and>
      rn_attempt st' = 0 \<and> rn_last_error st' = None"
proof -
  let ?h = "rn_holder st" let ?cert = "cr_certificate_pem cred"
  obtain late db' where r: "Renew (\<lambda>db. db) (cl_uuid lib) au cfg True True admitted now k (cert_not_before (ho_leaf ?h)) (cert_not_after (ho_leaf ?h)) csr db
      = (Inr (cred\<lparr>cr_late_by := late\<rparr>), db')" using Renew_within_grace [OF assms(1-5)] by blast
  obtain c where c: "cl_parse lib ?cert = Some c" "FromCertificate (cl_uuid lib) (Some c) = Inr k"
    using assms(5,11) by (auto simp: issue_def split: option.split_asm if_split_asm)
  have client: "Client_Renew lib (ho_key ?h) (Some (?cert, cr_bundle_pem cred)) = Inr (k, ?cert, cr_bundle_pem cred)"
    using c assms(12,13) by (simp add: Client_Renew_def parseCert_def cert_identity_def verifyAgainst_def)
  have key: "checkStoredKey lib (rt_reads t) ?h (rn_dir st) = Inr ()"
    using crash_safe_key [OF assms(6), of "rt_reads t"] assms(9) by (auto simp: checkStoredKey_Inr Store_LoadKey_def split: option.split_asm if_split_asm)
  obtain dir' where d: "ReplaceCertificate (rt_fails t) ?cert (cr_bundle_pem cred) (rn_dir st) = (Inr (), dir')" "f_content (dir' CertFile) = Some ?cert"
    using ReplaceCertificate_succeeds assms(10) by blast
  have "checkStoredKey lib (rt_reads_before t) ?h (rn_dir st) \<noteq> Inl ErrReenrolled" by (rule undisturbed_not_reenrolled [OF assms(6)]) simp
  then have "\<exists>st'. Renewer_turn lib (t\<lparr>rt_answer := Some (?cert, cr_bundle_pem cred)\<rparr>) st = (None, st') \<and> ho_leaf (rn_holder st') = leaf \<and>
      ho_cert (rn_holder st') = ?cert \<and> f_content (rn_dir st' CertFile) = Some ?cert \<and> rn_attempt st' = 0 \<and> rn_last_error st' = None"
    using assms(7,8,14) client key d by (simp add: Renewer_turn_def Let_def undisturbed_def Holder_Replace_def)
  then show ?thesis using r by (intro exI [of _ "cred\<lparr>cr_late_by := late\<rparr>"] exI [of _ db']) simp
qed

section \<open>Witnesses\<close>

definition demo_cert :: Certificate where
  "demo_cert = \<lparr>cert_serial = 255, cert_uris = [WorkloadID_URI demo_uuid], cert_not_before = 0, cert_not_after = 100\<rparr>"

definition demo_lib :: credential_lib where
  "demo_lib = \<lparr>cl_key = Some, cl_pem = (\<lambda>k. k), cl_pair = (\<lambda>_ _. Some demo_cert), cl_parse = au_decode demo_authority, cl_public = (\<lambda>_. Some ''key''),
     cl_verify = (\<lambda>_ _. True), cl_uuid = Some\<rparr>"

definition demo_dir :: state_dir where
  "demo_dir = (\<lambda>x. case x of KeyFile \<Rightarrow> \<lparr>f_content = Some ''key'', f_crash = [Some ''key'']\<rparr>
     | CertFile \<Rightarrow> \<lparr>f_content = Some ''cert'', f_crash = [Some ''cert'']\<rparr> | BundleFile \<Rightarrow> \<lparr>f_content = Some ''trust'', f_crash = [Some ''trust'']\<rparr>)"

definition demo_holder :: Holder where
  "demo_holder = \<lparr>ho_key = ''key'', ho_leaf = demo_cert, ho_cert = ''cert'', ho_trust = ''trust''\<rparr>"

definition demo_turn :: renew_turn where
  "demo_turn = \<lparr>rt_now = 150, rt_elapsed = 0, rt_rng = (\<lambda>_. 0), rt_stopped = False, rt_waited = (\<lambda>d. d), rt_called = (\<lambda>d. d), rt_answer = Some (''pem'', ''bundle''),
     rt_reads_before = (\<lambda>_. True), rt_reads = (\<lambda>_. True), rt_fails = (\<lambda>_ _. False), rt_now_after = 151, rt_elapsed_after = 1\<rparr>"

lemma demo_lib_ok: "lib_ok demo_lib" "crash_safe demo_lib ''key'' demo_dir" "undisturbed demo_turn" "ho_key demo_holder = ''key''"
proof -
  show "crash_safe demo_lib ''key'' demo_dir" unfolding crash_safe_def
    by (intro conjI allI) (auto simp: demo_lib_def demo_dir_def split: cred_file.split)
qed (auto simp: lib_ok_def demo_lib_def undisturbed_def demo_turn_def demo_holder_def)

theorem renewal_in_time_witness:
  "\<exists>w. w = renew_wait \<lparr>rc_retry_base = 0, rc_retry_cap = 0\<rparr> (\<lambda>_. 0) (demo_cert\<lparr>cert_not_after := 86400000000000\<rparr>) 0 5 5 \<and> 0 \<le> w \<and>
     (w = 0 \<or> 3 * (5 + w) \<le> 2 * 86400000000000)"
proof -
  let ?leaf = "demo_cert\<lparr>cert_not_after := 86400000000000\<rparr>"
  have l: "cert_not_before ?leaf < cert_not_after ?leaf" "lifetime_of ?leaf < 2 ^ 52" "\<not> cred_expired ?leaf 5 5"
    by (simp_all add: demo_cert_def cred_expired_def)
  have r: "\<And>n::nat. 0 < n \<Longrightarrow> (\<lambda>_. 0) n < n" by simp
  from renewal_in_time [OF l(1,2) r refl, of "\<lparr>rc_retry_base = 0, rc_retry_cap = 0\<rparr>" 0 5 5] l(3) show ?thesis by (simp add: demo_cert_def)
qed

lemma demo_facts: "cl_parse demo_lib = au_decode demo_authority" "cl_public demo_lib c = Some ''key''" "cl_verify demo_lib c b" "cl_pair demo_lib c k = Some demo_cert"
  "cl_uuid demo_lib = Some" "\<not> rt_stopped demo_turn" "rt_reads demo_turn x" "\<not> rt_fails demo_turn x s" "ho_leaf demo_holder = demo_cert"
  "cert_not_before demo_cert = 0" "cert_not_after demo_cert = 100" "rn_holder (Renewer_start h d n m) = h" "rn_dir (Renewer_start h d n m) = d"
  by (simp_all add: demo_lib_def demo_turn_def demo_holder_def demo_cert_def Renewer_start_def)

theorem renewals_survive_crash_witness:
  "\<exists>e st h'. Renewer_Run demo_lib [demo_turn] (Renewer_start demo_holder demo_dir 150 0) = (e, st) \<and> e \<noteq> Some Reenrolled \<and>
     LoadHolder demo_lib (\<lambda>_. True) (rn_dir st) = Inr h' \<and> ho_key h' = ''key''"
proof -
  obtain e st where r: "Renewer_Run demo_lib [demo_turn] (Renewer_start demo_holder demo_dir 150 0) = (e, st)" by (cases "Renewer_Run demo_lib [demo_turn] (Renewer_start demo_holder demo_dir 150 0)")
  have "crash_safe demo_lib ''key'' (rn_dir st)" using Renewer_Run_undisturbed [OF r, of "''key''"] demo_lib_ok by (simp add: demo_facts)
  then have "crash_leaves (rn_dir st) (rn_dir st)" by (simp add: crash_safe_def crash_leaves_def)
  from renewals_survive_crash [OF demo_lib_ok(1) _ _ r this] demo_lib_ok r show ?thesis by auto
qed

theorem renewed_within_grace_witness:
  "\<exists>answer db' st'. Renew (\<lambda>db. db) Some demo_authority demo_config True True 150 150 demo_uuid 0 100 []
       \<lparr>db_tokens = [], db_workloads = [\<lparr>ew_id = demo_uuid, ew_token_id = ''t'', ew_hostname = [], ew_labels = [], ew_enrolled_at = 0, ew_credential_serial = [],
         ew_credential_expires_at = 100, ew_last_renewed_at = None, ew_late_renewal = None, ew_retired_at = None\<rparr>]\<rparr> = (Inr answer, db') \<and>
     Renewer_turn demo_lib (demo_turn\<lparr>rt_answer := Some (cr_certificate_pem answer, cr_bundle_pem answer)\<rparr>) (Renewer_start demo_holder demo_dir 150 0) = (None, st') \<and>
     ho_cert (rn_holder st') = ''pem''"
proof -
  let ?st = "Renewer_start demo_holder demo_dir 150 0"
  let ?w = "\<lparr>ew_id = demo_uuid, ew_token_id = ''t'', ew_hostname = [], ew_labels = [], ew_enrolled_at = 0, ew_credential_serial = [],
         ew_credential_expires_at = 100, ew_last_renewed_at = None, ew_late_renewal = None, ew_retired_at = None\<rparr>"
  have i: "issue (cl_uuid demo_lib) demo_authority demo_config demo_uuid [] = Inr \<lparr>cr_certificate_pem = ''pem'', cr_bundle_pem = ''bundle'',
      cr_serial = CredentialSerial demo_cert, cr_expires_at = 100, cr_late_by = 0\<rparr>"
    by (simp add: issue_def demo_authority_def demo_lib_def FromCertificate_Inr demo_uuid_def nil_uuid_def demo_cert_def)
  have g: "GetWorkload True demo_uuid \<lparr>db_tokens = [], db_workloads = [?w]\<rparr> = Inr ?w" by (simp add: GetWorkload_def)
  have "truncate_second 50 \<le> Grace demo_config" by (simp add: truncate_second_def Grace_def demo_config_def DefaultRenewalGrace_def)
  then show ?thesis
    using renewed_within_grace [of ?st 150 demo_config demo_uuid _ ?w demo_lib demo_authority "[]" _ demo_turn demo_cert 150, OF _ _ g _ i] demo_lib_ok
    by (auto simp add: demo_facts)
qed

end
