(* ===== verification/KernelSources.thy ===== *)
theory KernelSources
  imports Aggregate NftStore Registry
begin

text \<open>
  Where the agent's observations come from: the connection tracking source,
  \<^verbatim>\<open>internal/agent/collect/conntrack/conntrack_linux.go\<close>, and the packet log source,
  \<^verbatim>\<open>internal/agent/collect/nflog\<close>. The netlink libraries deliver flows, events, dumps and payloads; a
  subscription consumes the messages its loop received, in the order it received them, so every
  interleaving of events with the dump is a list. The results: a subscription that loses nothing
  counts every inbound connection exactly once, whichever of its sightings is read first, and
  adds its bytes when it closes; an overrun is evidenced up to the next subscribe; and reading a
  logged packet never goes out of bounds.
\<close>

section \<open>Flows and events\<close>

text \<open>What the source uses of a tracked flow; an address that is not there is the invalid one.\<close>

record ct_flow =
  cf_id :: "32 word"
  cf_src :: "addr option"
  cf_dst :: "addr option"
  cf_proto :: "8 word"
  cf_dst_port :: "16 word"
  cf_mark :: "32 word"
  cf_bytes_orig :: "64 word"
  cf_bytes_reply :: "64 word"

datatype ct_event_type = EventUnknown | EventNew | EventUpdate | EventDestroy | EventExpNew | EventExpDestroy | EventOther

record ct_event =
  ce_type :: ct_event_type
  ce_flow :: "ct_flow option"

record ct_source =
  cs_classify :: "(32 word \<Rightarrow> PolicyDecision \<times> string) option"
  cs_dump_max :: int
  cs_local :: "addr set"

definition dumpMax :: "ct_source \<Rightarrow> nat" where
  "dumpMax s = (if 0 < cs_dump_max s then nat (cs_dump_max s) else DefaultBufferRecords)"

definition isLocal :: "ct_source \<Rightarrow> addr \<Rightarrow> bool" where
  "isLocal s a = (a \<in> cs_local s)"

definition refreshLocal :: "addr list \<Rightarrow> ct_source \<Rightarrow> ct_source" where
  "refreshLocal addrs s = s\<lparr>cs_local := set (map unmap addrs)\<rparr>"

text \<open>An interface address is printed with its prefix length, or without.\<close>

definition interfaceAddresses :: "string list option \<Rightarrow> addr list" where
  "interfaceAddresses printed = (case printed of None \<Rightarrow> []
   | Some ss \<Rightarrow> List.map_filter (\<lambda>s. case parse_prefix s of Some p \<Rightarrow> Some (prefix_addr p) | None \<Rightarrow> parse_addr s) ss)"

fun kernel_protocol :: "8 word \<Rightarrow> 16 word \<Rightarrow> (Protocol \<times> 16 word) option" where
  "kernel_protocol n port = (if n = 6 then Some (PROTOCOL_TCP, port) else if n = 17 then Some (PROTOCOL_UDP, port)
     else if n = 1 \<or> n = 58 then Some (PROTOCOL_ICMP, 0) else None)"

definition inbound :: "ct_source \<Rightarrow> ct_flow \<Rightarrow> instant \<Rightarrow> Observation option" where
  "inbound s f now = (case (map_option unmap (cf_src f), map_option unmap (cf_dst f)) of
     (Some src, Some dst) \<Rightarrow>
       if IsLoopback src \<or> IsLoopback dst \<or> \<not> isLocal s dst then None
       else (case kernel_protocol (cf_proto f) (cf_dst_port f) of None \<Rightarrow> None
         | Some (proto, port) \<Rightarrow> let (d, rule) = (case cs_classify s of Some classify \<Rightarrow> classify (cf_mark f) | None \<Rightarrow> (POLICY_DECISION_OBSERVED, [])) in
             Some \<lparr>ob_at = now, ob_src = src, ob_dst = dst, ob_dst_port = port, ob_protocol = proto, ob_decision = d, ob_rule_id = rule,
               ob_connections = 0, ob_bytes = 0, ob_process_name = []\<rparr>)
   | _ \<Rightarrow> None)"

section \<open>Sightings\<close>

record sightings =
  si_max :: nat
  si_seen :: "32 word set"
  si_dumping :: bool
  si_closed :: "32 word set"
  si_truncated :: bool
  si_full :: bool

definition newSightings :: "nat \<Rightarrow> sightings" where
  "newSightings m = \<lparr>si_max = m, si_seen = {}, si_dumping = True, si_closed = {}, si_truncated = False, si_full = False\<rparr>"

definition sight :: "32 word \<Rightarrow> sightings \<Rightarrow> bool \<times> sightings" where
  "sight x t = (if si_max t \<le> card (si_seen t) then (\<not> si_full t, t\<lparr>si_full := True\<rparr>) else (False, t\<lparr>si_seen := insert x (si_seen t)\<rparr>))"

definition forget :: "32 word \<Rightarrow> sightings \<Rightarrow> bool \<times> sightings" where
  "forget x t = (x \<in> si_seen t, t\<lparr>si_seen := si_seen t - {x}\<rparr>)"

abbreviation truncated_gap :: "instant \<Rightarrow> instant \<Rightarrow> 64 word \<Rightarrow> Gap" where
  "truncated_gap subscribed now n \<equiv> \<lparr>gap_kind = GapDumpTruncated, gap_source = GapConntrack, gap_from = subscribed, gap_to = now, gap_count = n, gap_has_count = True\<rparr>"

abbreviation would_block :: "Observation \<Rightarrow> bool" where
  "would_block ob \<equiv> ob_decision ob = POLICY_DECISION_WOULD_BLOCK"

definition observe :: "ct_source \<Rightarrow> ct_event \<Rightarrow> instant \<Rightarrow> instant \<Rightarrow> sightings \<times> Gaps option \<Rightarrow> Observation option \<times> sightings \<times> Gaps option" where
  "observe s ev now subscribed = (\<lambda>(t, g). case ce_flow ev of None \<Rightarrow> (None, t, g)
   | Some f \<Rightarrow> (case inbound s f now of None \<Rightarrow> (None, t, g)
     | Some ob \<Rightarrow> (case ce_type ev of
         EventNew \<Rightarrow>
           if would_block ob \<or> cf_id f \<in> si_seen t then (None, t, g)
           else (Some (ob\<lparr>ob_connections := 1\<rparr>), snd (sight (cf_id f) t), g)
       | EventDestroy \<Rightarrow>
           let ob = ob\<lparr>ob_bytes := cf_bytes_orig f + cf_bytes_reply f\<rparr>;
               t = (if si_dumping t then t\<lparr>si_closed := insert (cf_id f) (si_closed t)\<rparr> else t) in
           if would_block ob then (Some ob, t, g)
           else (case forget (cf_id f) t of
               (True, t) \<Rightarrow> (Some ob, t, g)
             | (False, t) \<Rightarrow> (Some (ob\<lparr>ob_connections := 1\<rparr>), t,
                 if \<not> si_dumping t \<and> si_truncated t then Gaps_Record (truncated_gap subscribed now 0) g else g))
       | _ \<Rightarrow> (None, t, g))))"

definition fold_flow :: "ct_source \<Rightarrow> instant \<Rightarrow> ct_flow \<Rightarrow> sightings \<Rightarrow> Observation list \<times> sightings" where
  "fold_flow s subscribed f t = (case inbound s f subscribed of None \<Rightarrow> ([], t)
   | Some ob \<Rightarrow> if cf_id f \<in> si_seen t \<or> cf_id f \<in> si_closed t \<or> would_block ob then ([], t)
       else ([ob\<lparr>ob_connections := 1\<rparr>], snd (sight (cf_id f) t)))"

fun fold_flows :: "ct_source \<Rightarrow> instant \<Rightarrow> ct_flow list \<Rightarrow> sightings \<Rightarrow> Observation list \<times> sightings" where
  "fold_flows s subscribed [] t = ([], t)"
| "fold_flows s subscribed (f # fs) t = (case fold_flow s subscribed f t of (obs, t) \<Rightarrow> case fold_flows s subscribed fs t of (obs', t) \<Rightarrow> (obs @ obs', t))"

definition fold_dump :: "ct_source \<Rightarrow> ct_flow list \<Rightarrow> instant \<Rightarrow> instant \<Rightarrow> sightings \<times> Gaps option \<Rightarrow> Observation list \<times> sightings \<times> Gaps option" where
  "fold_dump s flows subscribed now = (\<lambda>(t, g). let skipped = length flows - si_max t in
     case fold_flows s subscribed (take (si_max t) flows) t of (obs, t) \<Rightarrow>
       (obs, t\<lparr>si_dumping := False, si_closed := {}, si_truncated := (si_truncated t \<or> 0 < skipped)\<rparr>,
        if 0 < skipped then Gaps_Record (truncated_gap subscribed now (of_nat skipped)) g else g))"

section \<open>A subscription\<close>

text \<open>
  What the loop receives: the end of the context, a failure of the stream, which may be the kernel's report of an
  overrun, the refresh of the host's addresses, an event with the instant it was read, and the dump, or its failure,
  with the instant it was folded. The channel of the dump is read once; nothing is received from it after.
\<close>

datatype sub_msg = CtxDone | StreamFailed bool | Refreshed "addr list" | EventRead ct_event instant | DumpRead "ct_flow list option" instant

datatype sub_end = SubDone | SubOverrun | SubFailed

record subscription =
  sb_source :: ct_source
  sb_sightings :: sightings
  sb_last :: instant
  sb_gaps :: "Gaps option"
  sb_emitted :: "Observation list"

definition sub_step :: "instant \<Rightarrow> sub_msg \<Rightarrow> subscription \<Rightarrow> sub_end option \<times> subscription" where
  "sub_step subscribed m st = (case m of
     CtxDone \<Rightarrow> (Some SubDone, st)
   | StreamFailed True \<Rightarrow> (Some SubOverrun, st\<lparr>sb_gaps := Gaps_Open GapConntrack GapSourceOverrun (sb_last st) (Gaps_Overrun (sb_gaps st))\<rparr>)
   | StreamFailed False \<Rightarrow> (Some SubFailed, st)
   | Refreshed addrs \<Rightarrow> (None, st\<lparr>sb_source := refreshLocal addrs (sb_source st)\<rparr>)
   | EventRead ev now \<Rightarrow> (case observe (sb_source st) ev now subscribed (sb_sightings st, sb_gaps st) of (ob, t, g) \<Rightarrow>
       (None, st\<lparr>sb_last := now, sb_sightings := t, sb_gaps := g, sb_emitted := sb_emitted st @ (case ob of None \<Rightarrow> [] | Some ob \<Rightarrow> [ob])\<rparr>))
   | DumpRead flows now \<Rightarrow> if \<not> si_dumping (sb_sightings st) then (None, st)
       else (case flows of
           None \<Rightarrow> (Some SubFailed, st\<lparr>sb_gaps := Gaps_Open GapConntrack GapSourceRestart subscribed (sb_gaps st)\<rparr>)
         | Some flows \<Rightarrow> (case fold_dump (sb_source st) flows subscribed now (sb_sightings st, sb_gaps st) of (obs, t, g) \<Rightarrow>
             (None, st\<lparr>sb_sightings := t, sb_gaps := g, sb_emitted := sb_emitted st @ obs\<rparr>))))"

fun sub_loop :: "instant \<Rightarrow> sub_msg list \<Rightarrow> subscription \<Rightarrow> sub_end option \<times> subscription" where
  "sub_loop subscribed [] st = (None, st)"
| "sub_loop subscribed (m # ms) st = (case sub_step subscribed m st of (Some e, st) \<Rightarrow> (Some e, st) | (None, st) \<Rightarrow> sub_loop subscribed ms st)"

text \<open>What one subscribe meets: whether the socket opens and the listen succeeds, when it does, and what the loop then receives.\<close>

record sub_env =
  se_opens :: bool
  se_listens :: bool
  se_subscribed :: instant
  se_messages :: "sub_msg list"

definition sub_start :: "ct_source \<Rightarrow> instant \<Rightarrow> Gaps option \<Rightarrow> subscription" where
  "sub_start s subscribed g = \<lparr>sb_source = s, sb_sightings = newSightings (dumpMax s), sb_last = subscribed, sb_gaps = Gaps_Close GapConntrack subscribed g, sb_emitted = []\<rparr>"

definition subscribe :: "sub_env \<Rightarrow> ct_source \<times> Gaps option \<Rightarrow> sub_end option \<times> Observation list \<times> ct_source \<times> Gaps option" where
  "subscribe env = (\<lambda>(s, g). if \<not> se_opens env \<or> \<not> se_listens env then (Some SubFailed, [], s, g)
     else case sub_loop (se_subscribed env) (se_messages env) (sub_start s (se_subscribed env) g) of
       (e, st) \<Rightarrow> (e, sb_emitted st, sb_source st, sb_gaps st))"

fun ct_subscribes :: "sub_env list \<Rightarrow> ct_source \<times> Gaps option \<Rightarrow> sub_end option \<times> Observation list \<times> ct_source \<times> Gaps option" where
  "ct_subscribes [] (s, g) = (None, [], s, g)"
| "ct_subscribes (env # envs) (s, g) = (case subscribe env (s, g) of
     (Some SubOverrun, obs, s, g) \<Rightarrow> (case ct_subscribes envs (s, g) of (e, obs', s, g) \<Rightarrow> (e, obs @ obs', s, g))
   | (e, obs, s, g) \<Rightarrow> (e, obs, s, g))"

definition Source_Run :: "addr list \<Rightarrow> sub_env list \<Rightarrow> ct_source \<times> Gaps option \<Rightarrow> sub_end option \<times> Observation list \<times> ct_source \<times> Gaps option" where
  "Source_Run addrs envs = (\<lambda>(s, g). ct_subscribes envs (refreshLocal addrs s, g))"

section \<open>Logged packets\<close>

text \<open>Reading bytes; \<open>None\<close> is an access out of range, which panics.\<close>

definition byte_at :: "nat \<Rightarrow> 8 word list \<Rightarrow> 8 word option" where
  "byte_at i bs = (if i < length bs then Some (bs ! i) else None)"

definition bytes_at :: "nat \<Rightarrow> nat \<Rightarrow> 8 word list \<Rightarrow> 8 word list option" where
  "bytes_at i j bs = (if i \<le> j \<and> j \<le> length bs then Some (take (j - i) (drop i bs)) else None)"

text \<open>Bytes in network order.\<close>

definition big_endian :: "8 word list \<Rightarrow> 'a::len word" where
  "big_endian = foldl (\<lambda>n b. n * 256 + ucast b) 0"

record Packet =
  pk_src :: addr
  pk_dst :: addr
  pk_dst_port :: "16 word"
  pk_protocol :: Protocol
  pk_length :: "64 word"

datatype parse_error = ErrUnparseable | OutOfRange

abbreviation or_panic :: "'a option \<Rightarrow> ('a \<Rightarrow> (parse_error, 'b) result) \<Rightarrow> (parse_error, 'b) result" where
  "or_panic x f \<equiv> (case x of None \<Rightarrow> Inl OutOfRange | Some v \<Rightarrow> f v)"

text \<open>The network header: the packet without its transport, the number of the transport protocol, and what follows the header.\<close>

definition parse_v4_packet :: "8 word list \<Rightarrow> (parse_error, Packet \<times> 8 word \<times> 8 word list) result" where
  "parse_v4_packet payload = (if length payload < 20 then Inl ErrUnparseable
     else or_panic (byte_at 0 payload) (\<lambda>b0. let ihl = unat (b0 AND 0x0f) * 4 in
       if ihl < 20 \<or> length payload < ihl then Inl ErrUnparseable
       else or_panic (byte_at 9 payload) (\<lambda>proto. or_panic (bytes_at 12 16 payload) (\<lambda>src. or_panic (bytes_at 16 20 payload) (\<lambda>dst.
         or_panic (bytes_at 2 4 payload) (\<lambda>len. or_panic (bytes_at ihl (length payload) payload) (\<lambda>l4.
           Inr (\<lparr>pk_src = V4 (big_endian src), pk_dst = V4 (big_endian dst), pk_dst_port = 0, pk_protocol = PROTOCOL_UNSPECIFIED,
             pk_length = ucast (big_endian len :: 16 word)\<rparr>, proto, l4))))))))"

definition parse_v6_packet :: "8 word list \<Rightarrow> (parse_error, Packet \<times> 8 word \<times> 8 word list) result" where
  "parse_v6_packet payload = (if length payload < 40 then Inl ErrUnparseable
     else or_panic (byte_at 6 payload) (\<lambda>proto. or_panic (bytes_at 8 24 payload) (\<lambda>src. or_panic (bytes_at 24 40 payload) (\<lambda>dst.
         or_panic (bytes_at 4 6 payload) (\<lambda>len. or_panic (bytes_at 40 (length payload) payload) (\<lambda>l4.
           Inr (\<lparr>pk_src = V6 (big_endian src) [], pk_dst = V6 (big_endian dst) [], pk_dst_port = 0, pk_protocol = PROTOCOL_UNSPECIFIED,
             pk_length = 40 + ucast (big_endian len :: 16 word)\<rparr>, proto, l4)))))))"

definition parse_transport :: "Packet \<times> 8 word \<times> 8 word list \<Rightarrow> (parse_error, Packet) result" where
  "parse_transport = (\<lambda>(p, proto, l4). case kernel_protocol proto 0 of None \<Rightarrow> Inl ErrUnparseable
   | Some (pr, _) \<Rightarrow> let p = p\<lparr>pk_protocol := pr\<rparr> in
     if pr = PROTOCOL_ICMP then Inr p
     else if length l4 < 4 then Inl ErrUnparseable
     else or_panic (bytes_at 2 4 l4) (\<lambda>port. Inr (p\<lparr>pk_dst_port := big_endian port\<rparr>)))"

definition Parse :: "8 word list \<Rightarrow> (parse_error, Packet) result" where
  "Parse payload = (if length payload < 1 then Inl ErrUnparseable
     else or_panic (byte_at 0 payload) (\<lambda>b0. let v = drop_bit 4 b0 in
       (case (if v = 4 then parse_v4_packet payload else if v = 6 then parse_v6_packet payload else Inl ErrUnparseable) of
          Inl e \<Rightarrow> Inl e | Inr h \<Rightarrow> parse_transport h)))"

definition nflog_classify :: "(unit \<Rightarrow> PolicyDecision) option \<Rightarrow> 8 word list \<Rightarrow> instant \<Rightarrow> Observation option" where
  "nflog_classify decide payload now = (let decision = (case decide of None \<Rightarrow> POLICY_DECISION_UNSPECIFIED | Some d \<Rightarrow> d ()) in
     if decision \<noteq> POLICY_DECISION_BLOCKED \<and> decision \<noteq> POLICY_DECISION_WOULD_BLOCK then None
     else (case Parse payload of Inl _ \<Rightarrow> None
       | Inr p \<Rightarrow> Some \<lparr>ob_at = now, ob_src = unmap (pk_src p), ob_dst = unmap (pk_dst p), ob_dst_port = pk_dst_port p, ob_protocol = pk_protocol p,
           ob_decision = decision, ob_rule_id = [], ob_connections = 1, ob_bytes = pk_length p, ob_process_name = []\<rparr>))"

definition overran :: "bool \<Rightarrow> instant \<Rightarrow> instant \<Rightarrow> Gaps option \<Rightarrow> bool \<times> Gaps option" where
  "overran enobufs last_read now g = (if \<not> enobufs then (False, g)
     else (True, Gaps_Record \<lparr>gap_kind = GapSourceOverrun, gap_source = GapNflog, gap_from = last_read, gap_to = now, gap_count = 0, gap_has_count = False\<rparr> (Gaps_Overrun g)))"

text \<open>
  What a log subscription meets: a packet with the decision of the installed mode, a failure with the two readings of the clock, the
  registration's return, and the end of the context. After a failure it does not recover from, the library reads no more.
\<close>

datatype nflog_msg = Logged "(unit \<Rightarrow> PolicyDecision) option" "8 word list option" instant | SocketFailed bool bool instant instant | Registered instant | NflogDone

record nflog_state =
  nf_last :: instant
  nf_gaps :: "Gaps option"
  nf_emitted :: "Observation list"

definition nflog_step :: "nflog_msg \<Rightarrow> nflog_state \<Rightarrow> sub_end option \<times> nflog_state" where
  "nflog_step m st = (case m of
     Logged decide payload now \<Rightarrow> (None, st\<lparr>nf_last := now, nf_emitted := nf_emitted st @
       (case payload of None \<Rightarrow> [] | Some bs \<Rightarrow> (case nflog_classify decide bs now of None \<Rightarrow> [] | Some ob \<Rightarrow> [ob]))\<rparr>)
   | SocketFailed enobufs ended now now' \<Rightarrow> if ended then (Some SubFailed, st)
       else (case overran enobufs (nf_last st) now (nf_gaps st) of
           (True, g) \<Rightarrow> (None, st\<lparr>nf_gaps := g, nf_last := now'\<rparr>)
         | (False, g) \<Rightarrow> (Some SubFailed, st))
   | Registered t \<Rightarrow> (None, st\<lparr>nf_gaps := Gaps_Close GapNflog t (nf_gaps st)\<rparr>)
   | NflogDone \<Rightarrow> (Some SubDone, st))"

fun nflog_loop :: "nflog_msg list \<Rightarrow> nflog_state \<Rightarrow> sub_end option \<times> nflog_state" where
  "nflog_loop [] st = (None, st)"
| "nflog_loop (m # ms) st = (case nflog_step m st of (Some e, st) \<Rightarrow> (Some e, st) | (None, st) \<Rightarrow> nflog_loop ms st)"

definition nflog_Run :: "bool \<Rightarrow> bool \<Rightarrow> instant \<Rightarrow> nflog_msg list \<Rightarrow> Gaps option \<Rightarrow> sub_end option \<times> Observation list \<times> Gaps option" where
  "nflog_Run opens registers start ms g = (if \<not> opens \<or> \<not> registers then (Some SubFailed, [], g)
     else case nflog_loop ms \<lparr>nf_last = start, nf_gaps = g, nf_emitted = []\<rparr> of (e, st) \<Rightarrow> (e, nf_emitted st, nf_gaps st))"

section \<open>Every connection once\<close>

text \<open>
  The history of a subscription: what was open when it began, the events it read, and what is open after them. An event
  opens a connection that is not open or closes one that is; \<open>kx\<close> gives the key a connection is counted under, if it is inbound.
\<close>

abbreviation blocked_key :: "Key \<Rightarrow> bool" where
  "blocked_key k \<equiv> key_decision k = POLICY_DECISION_WOULD_BLOCK"

definition countable_id :: "(32 word \<Rightarrow> Key option) \<Rightarrow> 32 word \<Rightarrow> bool" where
  "countable_id kx x = (case kx x of None \<Rightarrow> False | Some k \<Rightarrow> \<not> blocked_key k)"

definition conn_key :: "ct_source \<Rightarrow> ct_flow \<Rightarrow> Key option" where
  "conn_key s f = map_option key_of (inbound s f 0)"

abbreviation event_id :: "ct_event \<Rightarrow> 32 word" where
  "event_id ev \<equiv> cf_id (the (ce_flow ev))"

definition live_step :: "32 word set \<Rightarrow> ct_event \<Rightarrow> 32 word set" where
  "live_step L ev = (if ce_type ev = EventNew then insert (event_id ev) L else L - {event_id ev})"

definition live_after :: "32 word set \<Rightarrow> ct_event list \<Rightarrow> 32 word set" where
  "live_after = foldl live_step"

definition event_ok :: "ct_source \<Rightarrow> (32 word \<Rightarrow> Key option) \<Rightarrow> 32 word set \<Rightarrow> ct_event \<Rightarrow> bool" where
  "event_ok s kx L ev = (case ce_flow ev of None \<Rightarrow> False
   | Some f \<Rightarrow> conn_key s f = kx (cf_id f) \<and> (ce_type ev = EventNew \<and> cf_id f \<notin> L \<or> ce_type ev = EventDestroy \<and> cf_id f \<in> L))"

fun events_ok :: "ct_source \<Rightarrow> (32 word \<Rightarrow> Key option) \<Rightarrow> 32 word set \<Rightarrow> ct_event list \<Rightarrow> bool" where
  "events_ok s kx L [] = True"
| "events_ok s kx L (ev # evs) = (event_ok s kx L ev \<and> events_ok s kx (live_step L ev) evs)"

definition newly_opened :: "(32 word \<Rightarrow> Key option) \<Rightarrow> Key \<Rightarrow> ct_event list \<Rightarrow> nat" where
  "newly_opened kx k evs = length (filter (\<lambda>ev. ce_type ev = EventNew \<and> kx (event_id ev) = Some k \<and> \<not> blocked_key k) evs)"

definition having_key :: "(32 word \<Rightarrow> Key option) \<Rightarrow> Key \<Rightarrow> 32 word set \<Rightarrow> nat" where
  "having_key kx k S = card {x \<in> S. kx x = Some k \<and> \<not> blocked_key k}"

definition closing_bytes :: "(32 word \<Rightarrow> Key option) \<Rightarrow> Key \<Rightarrow> ct_event list \<Rightarrow> 64 word" where
  "closing_bytes kx k evs = sum_list (map (\<lambda>ev. cf_bytes_orig (the (ce_flow ev)) + cf_bytes_reply (the (ce_flow ev)))
     (filter (\<lambda>ev. ce_type ev = EventDestroy \<and> kx (event_id ev) = Some k) evs))"

definition connections_of :: "Key \<Rightarrow> Observation list \<Rightarrow> 64 word" where
  "connections_of k obs = sum_list (map ob_connections (filter (\<lambda>ob. key_of ob = k) obs))"

definition bytes_of :: "Key \<Rightarrow> Observation list \<Rightarrow> 64 word" where
  "bytes_of k obs = sum_list (map ob_bytes (filter (\<lambda>ob. key_of ob = k) obs))"

lemma connections_of_simps [simp]:
  "connections_of k [] = 0" "connections_of k (ob # obs) = (if key_of ob = k then ob_connections ob else 0) + connections_of k obs"
  "connections_of k (obs @ obs') = connections_of k obs + connections_of k obs'"
  by (simp_all add: connections_of_def)

lemma bytes_of_simps [simp]:
  "bytes_of k [] = 0" "bytes_of k (ob # obs) = (if key_of ob = k then ob_bytes ob else 0) + bytes_of k obs"
  "bytes_of k (obs @ obs') = bytes_of k obs + bytes_of k obs'"
  by (simp_all add: bytes_of_def)

lemma having_key_empty [simp]: "having_key kx k {} = 0"
  by (simp add: having_key_def)

lemma having_key_insert:
  assumes "finite S" and "x \<notin> S"
  shows "having_key kx k (insert x S) = having_key kx k S + (if kx x = Some k \<and> \<not> blocked_key k then 1 else 0)"
proof -
  have "{y \<in> insert x S. kx y = Some k \<and> \<not> blocked_key k} =
      (if kx x = Some k \<and> \<not> blocked_key k then insert x else id) {y \<in> S. kx y = Some k \<and> \<not> blocked_key k}" by auto
  then show ?thesis using assms by (simp add: having_key_def)
qed

lemma having_key_remove:
  assumes "finite S" and "x \<in> S"
  shows "having_key kx k S = having_key kx k (S - {x}) + (if kx x = Some k \<and> \<not> blocked_key k then 1 else 0)"
  using having_key_insert [of "S - {x}" x kx k] assms by (simp add: insert_absorb)

lemma inbound_key:
  assumes "inbound s f now = Some ob"
  shows "conn_key s f = Some (key_of ob)" and "ob_connections ob = 0" and "ob_bytes ob = 0"
  using assms by (auto simp: conn_key_def inbound_def key_of_def split: option.split_asm if_split_asm prod.splits)

lemma inbound_none: "inbound s f now = None \<longleftrightarrow> conn_key s f = None"
  by (auto simp: conn_key_def inbound_def split: option.split prod.splits)

lemma key_of_counts [simp]: "key_of (ob\<lparr>ob_connections := c\<rparr>) = key_of ob" "key_of (ob\<lparr>ob_bytes := b\<rparr>) = key_of ob"
  by (simp_all add: key_of_def)

lemma key_of_decision: "ob_decision ob = key_decision (key_of ob)"
  by (simp add: key_of_def)

abbreviation ob_list :: "Observation option \<Rightarrow> Observation list" where
  "ob_list r \<equiv> (case r of None \<Rightarrow> [] | Some ob \<Rightarrow> [ob])"

abbreviation event_bytes :: "ct_event \<Rightarrow> 64 word" where
  "event_bytes ev \<equiv> cf_bytes_orig (the (ce_flow ev)) + cf_bytes_reply (the (ce_flow ev))"

lemma sight_room: "card (si_seen t) < si_max t \<Longrightarrow> snd (sight x t) = t\<lparr>si_seen := insert x (si_seen t)\<rparr>"
  by (simp add: sight_def)

lemma observe_ok:
  assumes "event_ok s kx L ev" and "observe s ev now subscribed (t, g) = (r, t', g')"
    and "event_id ev \<notin> si_seen t \<Longrightarrow> card (si_seen t) < si_max t"
  shows "si_max t' = si_max t \<and> si_dumping t' = si_dumping t \<and>
    si_seen t' = (if countable_id kx (event_id ev) then live_step (si_seen t) ev else si_seen t) \<and>
    si_closed t' = (if ce_type ev = EventDestroy \<and> si_dumping t \<and> kx (event_id ev) \<noteq> None then insert (event_id ev) (si_closed t) else si_closed t) \<and>
    connections_of k (ob_list r) = (if kx (event_id ev) = Some k \<and> \<not> blocked_key k \<and> event_id ev \<notin> si_seen t then 1 else 0) \<and>
    bytes_of k (ob_list r) = (if kx (event_id ev) = Some k \<and> ce_type ev = EventDestroy then event_bytes ev else 0)"
proof -
  obtain f where f: "ce_flow ev = Some f" "conn_key s f = kx (cf_id f)" "ce_type ev = EventNew \<or> ce_type ev = EventDestroy"
    using assms(1) by (auto simp: event_ok_def split: option.split_asm)
  show ?thesis
  proof (cases "inbound s f now")
    case None
    then have "kx (cf_id f) = None" using f(2) inbound_none by simp
    then show ?thesis using assms(2) f None by (auto simp: observe_def countable_id_def)
  next
    case (Some ob)
    note ob = inbound_key [OF Some]
    have k: "kx (cf_id f) = Some (key_of ob)" using ob(1) f(2) by simp
    show ?thesis
    proof (cases "ce_type ev = EventNew")
      case True
      then show ?thesis using assms(2,3) f Some ob(2,3) k
        by (auto simp: observe_def key_of_decision countable_id_def live_step_def sight_room insert_absorb split: if_split_asm)
    next
      case False
      then have "ce_type ev = EventDestroy" using f(3) by simp
      then show ?thesis using assms(2) f Some ob(2,3) k
        by (auto simp: observe_def key_of_decision countable_id_def live_step_def forget_def Let_def split: if_split_asm bool.split_asm prod.split_asm)
    qed
  qed
qed

lemma fold_flow_ok:
  assumes "conn_key s f = kx (cf_id f)" and "fold_flow s subscribed f t = (obs, t')" and "finite (si_seen t)"
    and "cf_id f \<notin> si_seen t \<Longrightarrow> card (si_seen t) < si_max t"
  shows "si_max t' = si_max t \<and> si_dumping t' = si_dumping t \<and> si_closed t' = si_closed t \<and>
    si_seen t' = si_seen t \<union> {x. x = cf_id f \<and> countable_id kx x \<and> x \<notin> si_closed t} \<and>
    connections_of k obs + of_nat (having_key kx k (si_seen t)) = of_nat (having_key kx k (si_seen t')) \<and>
    bytes_of k obs = 0"
proof (cases "inbound s f subscribed")
  case None
  then have "kx (cf_id f) = None" using assms(1) inbound_none by simp
  then show ?thesis using assms(2) None by (auto simp: fold_flow_def countable_id_def)
next
  case (Some ob)
  note ob = inbound_key [OF Some]
  then show ?thesis using assms Some
    by (auto simp: fold_flow_def key_of_decision countable_id_def sight_room having_key_insert split: if_split_asm)
qed

lemma fold_flows_ok:
  assumes "\<forall>f \<in> set fs. conn_key s f = kx (cf_id f) \<and> cf_id f \<in> U" and "fold_flows s subscribed fs t = (obs, t')"
    and "finite U" and "card U \<le> si_max t" and "si_seen t \<subseteq> U"
  shows "si_max t' = si_max t \<and> si_dumping t' = si_dumping t \<and> si_closed t' = si_closed t \<and>
    si_seen t' = si_seen t \<union> {x \<in> cf_id ` set fs. countable_id kx x \<and> x \<notin> si_closed t} \<and>
    connections_of k obs + of_nat (having_key kx k (si_seen t)) = of_nat (having_key kx k (si_seen t')) \<and>
    bytes_of k obs = 0"
  using assms
proof (induction fs arbitrary: t obs)
  case (Cons f fs)
  obtain o1 t1 o2 where s: "fold_flow s subscribed f t = (o1, t1)" "fold_flows s subscribed fs t1 = (o2, t')" "obs = o1 @ o2"
    using Cons.prems(2) by (auto split: prod.split_asm)
  have fin: "finite (si_seen t)" using Cons.prems(3,5) finite_subset by blast
  have "card (si_seen t) < si_max t" if "cf_id f \<notin> si_seen t"
    using psubset_card_mono [OF Cons.prems(3), of "si_seen t"] Cons.prems(1,4,5) that by fastforce
  then have one: "si_max t1 = si_max t \<and> si_dumping t1 = si_dumping t \<and> si_closed t1 = si_closed t \<and>
      si_seen t1 = si_seen t \<union> {x. x = cf_id f \<and> countable_id kx x \<and> x \<notin> si_closed t} \<and>
      connections_of k o1 + of_nat (having_key kx k (si_seen t)) = of_nat (having_key kx k (si_seen t1)) \<and>
      bytes_of k o1 = 0"
    using fold_flow_ok [OF _ s(1) fin] Cons.prems(1) by simp
  moreover have "si_seen t1 \<subseteq> U" using one Cons.prems(1,5) by auto
  ultimately have two: "si_max t' = si_max t1 \<and> si_dumping t' = si_dumping t1 \<and> si_closed t' = si_closed t1 \<and>
      si_seen t' = si_seen t1 \<union> {x \<in> cf_id ` set fs. countable_id kx x \<and> x \<notin> si_closed t1} \<and>
      connections_of k o2 + of_nat (having_key kx k (si_seen t1)) = of_nat (having_key kx k (si_seen t')) \<and>
      bytes_of k o2 = 0"
    using Cons.IH [OF _ s(2) Cons.prems(3)] Cons.prems(1,4) by simp
  note one5 = one [THEN conjunct2, THEN conjunct2, THEN conjunct2, THEN conjunct2]
  note two5 = two [THEN conjunct2, THEN conjunct2, THEN conjunct2, THEN conjunct2]
  have "si_seen t' = si_seen t \<union> {x \<in> cf_id ` set (f # fs). countable_id kx x \<and> x \<notin> si_closed t}" using one two by auto
  moreover have "connections_of k obs + of_nat (having_key kx k (si_seen t)) = of_nat (having_key kx k (si_seen t'))"
    using conjunct1 [OF two5] unfolding conjunct1 [OF one5, symmetric] s(3) by (simp add: add.commute add.left_commute)
  ultimately show ?case using one two s(3) by simp
qed simp

text \<open>
  What a subscription that lost nothing knows. A connection an event was read of is tracked exactly while it is open. Before the dump no other is,
  and those that closed are remembered; after it the others tracked are those it listed. The connections counted, with those open and not
  tracked, are those open at the start, those opened since and those tracked and not open.
\<close>

definition event_ids :: "ct_event list \<Rightarrow> 32 word set" where
  "event_ids evs = event_id ` set evs"

definition agrees :: "(32 word \<Rightarrow> Key option) \<Rightarrow> 32 word set \<Rightarrow> 32 word set option \<Rightarrow> ct_event list \<Rightarrow> sightings \<Rightarrow> bool" where
  "agrees kx L D evs t = ((\<forall>x \<in> si_seen t. countable_id kx x) \<and>
     (\<forall>x \<in> event_ids evs. countable_id kx x \<longrightarrow> (x \<in> si_seen t \<longleftrightarrow> x \<in> L)) \<and>
     (case D of
        None \<Rightarrow> si_dumping t \<and> si_seen t \<union> si_closed t \<subseteq> event_ids evs \<and> (\<forall>x \<in> event_ids evs. countable_id kx x \<and> x \<notin> L \<longrightarrow> x \<in> si_closed t)
      | Some D \<Rightarrow> \<not> si_dumping t \<and> (\<forall>x. x \<notin> event_ids evs \<and> countable_id kx x \<longrightarrow> (x \<in> si_seen t \<longleftrightarrow> x \<in> D))))"

definition balanced :: "(32 word \<Rightarrow> Key option) \<Rightarrow> 32 word set \<Rightarrow> 32 word set \<Rightarrow> ct_event list \<Rightarrow> sightings \<Rightarrow> Observation list \<Rightarrow> bool" where
  "balanced kx L0 L evs t obs = (\<forall>k. bytes_of k obs = closing_bytes kx k evs \<and>
     connections_of k obs + of_nat (having_key kx k L) = of_nat (having_key kx k L0) + of_nat (newly_opened kx k evs) + of_nat (having_key kx k (si_seen t)))"

lemma event_ids_snoc [simp]: "event_ids [] = {}" "event_ids (evs @ [ev]) = insert (event_id ev) (event_ids evs)"
  by (simp_all add: event_ids_def)

lemma newly_opened_snoc [simp]:
  "newly_opened kx k [] = 0" "newly_opened kx k (evs @ [ev]) = newly_opened kx k evs + (if ce_type ev = EventNew \<and> kx (event_id ev) = Some k \<and> \<not> blocked_key k then 1 else 0)"
  by (simp_all add: newly_opened_def)

lemma closing_bytes_snoc [simp]:
  "closing_bytes kx k [] = 0" "closing_bytes kx k (evs @ [ev]) = closing_bytes kx k evs + (if ce_type ev = EventDestroy \<and> kx (event_id ev) = Some k then event_bytes ev else 0)"
  by (simp_all add: closing_bytes_def)

lemma live_step_key:
  assumes "finite S"
  shows "having_key kx k (live_step S ev) + (if kx (event_id ev) = Some k \<and> \<not> blocked_key k \<and> ce_type ev \<noteq> EventNew \<and> event_id ev \<in> S then 1 else 0) =
    having_key kx k S + (if kx (event_id ev) = Some k \<and> \<not> blocked_key k \<and> ce_type ev = EventNew \<and> event_id ev \<notin> S then 1 else 0)"
proof (cases "event_id ev \<in> S")
  case True
  show ?thesis
  proof (cases "ce_type ev = EventNew")
    case new: True
    then have "live_step S ev = S" using True by (simp add: live_step_def insert_absorb)
    then show ?thesis using new True by simp
  next
    case False
    then show ?thesis by (simp only: having_key_remove [OF assms True, of kx k]) (simp add: live_step_def True)
  qed
next
  case False
  then show ?thesis using having_key_insert [OF assms False, of kx k] by (simp add: live_step_def)
qed

lemma event_agrees:
  assumes "agrees kx L D evs t" and "event_ok s kx L ev" and "observe s ev now subscribed (t, g) = (r, t', g')"
    and "event_id ev \<notin> si_seen t \<Longrightarrow> card (si_seen t) < si_max t"
  shows "agrees kx (live_step L ev) D (evs @ [ev]) t'"
proof -
  let ?x = "event_id ev"
  have e: "ce_type ev = EventNew \<or> ce_type ev = EventDestroy" using assms(2) by (auto simp: event_ok_def split: option.split_asm)
  note ob = observe_ok [OF assms(2-4)]
  have "\<forall>x \<in> si_seen t'. countable_id kx x" using ob assms(1) e by (auto simp: agrees_def live_step_def)
  moreover have "x \<in> si_seen t' \<longleftrightarrow> x \<in> live_step L ev" if "x \<in> event_ids (evs @ [ev])" "countable_id kx x" for x
    using ob assms(1) that by (auto simp: agrees_def live_step_def)
  moreover have "case D of
        None \<Rightarrow> si_dumping t' \<and> si_seen t' \<union> si_closed t' \<subseteq> event_ids (evs @ [ev]) \<and>
          (\<forall>x \<in> event_ids (evs @ [ev]). countable_id kx x \<and> x \<notin> live_step L ev \<longrightarrow> x \<in> si_closed t')
      | Some D \<Rightarrow> \<not> si_dumping t' \<and> (\<forall>x. x \<notin> event_ids (evs @ [ev]) \<and> countable_id kx x \<longrightarrow> (x \<in> si_seen t' \<longleftrightarrow> x \<in> D))"
  proof (cases D)
    case None
    have old: "si_dumping t" "si_seen t \<subseteq> event_ids evs" "si_closed t \<subseteq> event_ids evs"
      "\<And>x. x \<in> event_ids evs \<Longrightarrow> countable_id kx x \<Longrightarrow> x \<notin> L \<Longrightarrow> x \<in> si_closed t" using None assms(1) by (auto simp: agrees_def)
    have step: "live_step S ev \<subseteq> insert ?x S" for S by (auto simp: live_step_def)
    have "si_seen t' \<subseteq> insert ?x (event_ids evs)" using ob old(2) step [of "si_seen t"] by (auto split: if_split_asm)
    moreover have closed: "si_closed t \<subseteq> si_closed t'" "si_closed t' \<subseteq> insert ?x (event_ids evs)" using ob old(3) by (auto split: if_split_asm)
    moreover have "x \<in> si_closed t'" if "x \<in> insert ?x (event_ids evs)" "countable_id kx x" "x \<notin> live_step L ev" for x
    proof (cases "x = ?x")
      case True
      then have "ce_type ev = EventDestroy" using e that(3) by (auto simp: live_step_def)
      then show ?thesis using True ob old(1) that(2) by (auto simp: countable_id_def split: option.split_asm)
    next
      case False
      then show ?thesis using old(4) that closed(1) by (auto simp: live_step_def split: if_split_asm)
    qed
    ultimately show ?thesis using None ob old(1) by simp
  next
    case (Some D')
    then show ?thesis using ob assms(1) by (auto simp: agrees_def live_step_def)
  qed
  ultimately show ?thesis by (simp add: agrees_def)
qed

lemma of_nat_balance: "a + c = b + d \<Longrightarrow> (of_nat a :: 'a::len word) = of_nat b + of_nat d - of_nat c"
  by (metis add_diff_cancel_right' of_nat_add)

lemma event_balanced:
  assumes "balanced kx L0 L evs t obs" and "event_ok s kx L ev" and "observe s ev now subscribed (t, g) = (r, t', g')"
    and "event_id ev \<notin> si_seen t \<Longrightarrow> card (si_seen t) < si_max t" and "finite L" and "finite (si_seen t)"
  shows "balanced kx L0 (live_step L ev) (evs @ [ev]) t' (obs @ ob_list r)"
  unfolding balanced_def
proof (intro allI conjI)
  fix k
  let ?x = "event_id ev" let ?c = "kx ?x = Some k \<and> \<not> blocked_key k"
  have e: "ce_type ev = EventNew \<and> ?x \<notin> L \<or> ce_type ev = EventDestroy \<and> ?x \<in> L" using assms(2) by (auto simp: event_ok_def split: option.split_asm)
  note ob = observe_ok [OF assms(2-4), of k]
  show "bytes_of k (obs @ ob_list r) = closing_bytes kx k (evs @ [ev])" using ob assms(1) by (simp add: balanced_def)
  have seen: "having_key kx k (si_seen t') + (if ?c \<and> ce_type ev = EventDestroy \<and> ?x \<in> si_seen t then 1 else 0) =
      having_key kx k (si_seen t) + (if ?c \<and> ce_type ev = EventNew \<and> ?x \<notin> si_seen t then 1 else 0)"
  proof (cases "countable_id kx ?x")
    case True
    then have "si_seen t' = live_step (si_seen t) ev" using ob by simp
    then show ?thesis using live_step_key [OF assms(6), of kx k ev] e by auto
  next
    case False
    then show ?thesis using ob by (auto simp: countable_id_def)
  qed
  have live: "having_key kx k (live_step L ev) + (if ?c \<and> ce_type ev = EventDestroy then 1 else 0) =
      having_key kx k L + (if ?c \<and> ce_type ev = EventNew then 1 else 0)"
    using live_step_key [OF assms(5), of kx k ev] e by auto
  have "connections_of k obs + of_nat (having_key kx k L) = of_nat (having_key kx k L0) + of_nat (newly_opened kx k evs) + of_nat (having_key kx k (si_seen t))"
    using assms(1) by (simp add: balanced_def)
  then show "connections_of k (obs @ ob_list r) + of_nat (having_key kx k (live_step L ev)) =
      of_nat (having_key kx k L0) + of_nat (newly_opened kx k (evs @ [ev])) + of_nat (having_key kx k (si_seen t'))"
    unfolding of_nat_balance [OF seen] of_nat_balance [OF live]
    using ob e by (auto simp: algebra_simps)
qed

lemma dump_tracks:
  assumes "agrees kx L None evs t" and "balanced kx L0 L evs t obs" and "fold_dump s flows subscribed now (t, g) = (obs', t', g')"
    and "\<forall>f \<in> set flows. conn_key s f = kx (cf_id f) \<and> cf_id f \<in> U" and "length flows \<le> si_max t" and "card U \<le> si_max t" and "si_seen t \<subseteq> U"
  shows "agrees kx L (Some (cf_id ` set flows)) evs t' \<and> balanced kx L0 L evs t' (obs @ obs') \<and> si_max t' = si_max t \<and> si_seen t' \<subseteq> U"
proof -
  obtain t1 where f: "fold_flows s subscribed flows t = (obs', t1)" and t': "si_max t' = si_max t1" "si_seen t' = si_seen t1" "\<not> si_dumping t'"
    using assms(3,5) by (auto simp: fold_dump_def Let_def split: prod.split_asm)
  note fo = fold_flows_ok [OF assms(4) f finite_class.finite assms(6,7)]
  have seen: "si_seen t' = si_seen t \<union> {x \<in> cf_id ` set flows. countable_id kx x \<and> x \<notin> si_closed t}" using fo [of undefined] t'(2) by simp
  have "agrees kx L (Some (cf_id ` set flows)) evs t'" using assms(1) seen t'(3) by (auto simp: agrees_def)
  moreover have "balanced kx L0 L evs t' (obs @ obs')"
    unfolding balanced_def
  proof (intro allI conjI)
    fix k
    have a: "of_nat (having_key kx k (si_seen t')) = connections_of k obs' + of_nat (having_key kx k (si_seen t))" using fo [of k] t'(2) by simp
    have b: "connections_of k obs + of_nat (having_key kx k L) = of_nat (having_key kx k L0) + of_nat (newly_opened kx k evs) + of_nat (having_key kx k (si_seen t))"
      using assms(2) by (simp add: balanced_def)
    have "connections_of k (obs @ obs') + of_nat (having_key kx k L) = connections_of k obs' + (connections_of k obs + of_nat (having_key kx k L))"
      by (simp add: ac_simps)
    then show "connections_of k (obs @ obs') + of_nat (having_key kx k L) = of_nat (having_key kx k L0) + of_nat (newly_opened kx k evs) + of_nat (having_key kx k (si_seen t'))"
      unfolding a b by (simp add: ac_simps)
    show "bytes_of k (obs @ obs') = closing_bytes kx k evs" using assms(2) fo [of k] by (simp add: balanced_def)
  qed
  moreover have "si_seen t' \<subseteq> U" using seen assms(4,7) by auto
  ultimately show ?thesis using fo [of undefined] t'(1) by simp
qed

section \<open>A subscription that loses nothing\<close>

fun events_of :: "sub_msg list \<Rightarrow> ct_event list" where
  "events_of [] = []"
| "events_of (EventRead ev now # ms) = ev # events_of ms"
| "events_of (_ # ms) = events_of ms"

lemma events_of_append [simp]: "events_of (ms @ ms') = events_of ms @ events_of ms'"
  by (induction ms rule: events_of.induct) simp_all

text \<open>Reading on: an event, or a refresh that found the addresses it had.\<close>

fun quiet :: "ct_source \<Rightarrow> sub_msg \<Rightarrow> bool" where
  "quiet s (EventRead ev now) = True"
| "quiet s (Refreshed addrs) = (set (map unmap addrs) = cs_local s)"
| "quiet s _ = False"

definition following :: "(32 word \<Rightarrow> Key option) \<Rightarrow> ct_source \<Rightarrow> 32 word set \<Rightarrow> 32 word set \<Rightarrow> 32 word set option \<Rightarrow> ct_event list \<Rightarrow> subscription \<Rightarrow> bool" where
  "following kx s L U D evs st = (sb_source st = s \<and> card U \<le> si_max (sb_sightings st) \<and> si_seen (sb_sightings st) \<subseteq> U \<and>
     si_max (sb_sightings st) = dumpMax s \<and>
     agrees kx (live_after L evs) D evs (sb_sightings st) \<and> balanced kx L (live_after L evs) evs (sb_sightings st) (sb_emitted st))"

lemma following_step:
  assumes "following kx s L U D evs st" and "quiet s m" and "events_ok s kx (live_after L evs) (events_of [m])" and "event_ids (events_of [m]) \<subseteq> U"
    and "sub_step subscribed m st = (e, st')"
  shows "e = None \<and> following kx s L U D (evs @ events_of [m]) st'"
proof (cases m)
  case (Refreshed addrs)
  then show ?thesis using assms by (auto simp: sub_step_def refreshLocal_def following_def)
next
  case (EventRead ev now)
  let ?t = "sb_sightings st"
  obtain r t' g' where ob: "observe s ev now subscribed (?t, sb_gaps st) = (r, t', g')" by (metis prod_cases3)
  have ok: "event_ok s kx (live_after L evs) ev" using assms(3) EventRead by simp
  have x: "event_id ev \<in> U" using assms(4) EventRead by (simp add: event_ids_def)
  have st: "sb_source st = s" "card U \<le> si_max ?t" "si_seen ?t \<subseteq> U" using assms(1) by (auto simp: following_def)
  have room: "card (si_seen ?t) < si_max ?t" if "event_id ev \<notin> si_seen ?t"
    using psubset_card_mono [of U "si_seen ?t"] st(2,3) x that by fastforce
  note os = observe_ok [OF ok ob room, of undefined]
  have "si_seen t' \<subseteq> U" using os st(3) x by (auto simp: live_step_def split: if_split_asm)
  moreover have "agrees kx (live_step (live_after L evs) ev) D (evs @ [ev]) t'" by (rule event_agrees [OF _ ok ob room]) (use assms(1) in \<open>auto simp: following_def\<close>)
  moreover have "balanced kx L (live_step (live_after L evs) ev) (evs @ [ev]) t' (sb_emitted st @ ob_list r)"
    by (rule event_balanced [OF _ ok ob room]) (use assms(1) in \<open>auto simp: following_def\<close>)
  ultimately show ?thesis using assms(1,5) EventRead ob os st(1) by (auto simp: following_def sub_step_def live_after_def)
qed (use assms(2) in auto)

lemma events_ok_append [simp]: "events_ok s kx L (evs @ evs') = (events_ok s kx L evs \<and> events_ok s kx (live_after L evs) evs')"
  by (induction evs arbitrary: L) (auto simp: live_after_def)

lemma event_ids_append [simp]: "event_ids (evs @ evs') = event_ids evs \<union> event_ids evs'"
  by (auto simp: event_ids_def)

lemma following_loop:
  assumes "following kx s L U D evs st" and "list_all (quiet s) ms" and "events_ok s kx (live_after L evs) (events_of ms)" and "event_ids (events_of ms) \<subseteq> U"
    and "sub_loop subscribed ms st = (e, st')"
  shows "e = None \<and> following kx s L U D (evs @ events_of ms) st'"
  using assms
proof (induction ms arbitrary: evs st)
  case (Cons m ms)
  obtain e1 st1 where s: "sub_step subscribed m st = (e1, st1)" by fastforce
  have ms: "events_of (m # ms) = events_of [m] @ events_of ms" using events_of_append [of "[m]" ms] by simp
  have one: "e1 = None \<and> following kx s L U D (evs @ events_of [m]) st1"
    using following_step [OF Cons.prems(1) _ _ _ s] Cons.prems(2-4) unfolding ms by simp
  have "events_ok s kx (live_after L (evs @ events_of [m])) (events_of ms)" using Cons.prems(3) unfolding ms by (simp add: live_after_def)
  then show ?case using Cons.IH [of "evs @ events_of [m]" st1] one s Cons.prems(2,4,5) unfolding ms by simp
qed simp

lemma following_dump:
  assumes "following kx s L U None evs st" and "\<forall>f \<in> set flows. conn_key s f = kx (cf_id f) \<and> cf_id f \<in> U" and "length flows \<le> dumpMax s"
  shows "\<exists>st'. sub_step subscribed (DumpRead (Some flows) now) st = (None, st') \<and> following kx s L U (Some (cf_id ` set flows)) evs st'"
proof -
  let ?t = "sb_sightings st"
  have f: "sb_source st = s" "card U \<le> si_max ?t" "si_seen ?t \<subseteq> U" "si_max ?t = dumpMax s" "agrees kx (live_after L evs) None evs ?t"
    "balanced kx L (live_after L evs) evs ?t (sb_emitted st)" using assms(1) by (simp_all add: following_def)
  obtain obs t' g' where d: "fold_dump s flows subscribed now (?t, sb_gaps st) = (obs, t', g')" by (metis prod_cases3)
  have len: "length flows \<le> si_max ?t" using assms(3) f(4) by simp
  note dt = dump_tracks [OF f(5,6) d assms(2) len f(2,3)]
  have "si_dumping ?t" using f(5) by (simp add: agrees_def)
  then show ?thesis using d dt f by (simp add: sub_step_def following_def)
qed

lemma sub_loop_append:
  "sub_loop subscribed (ms @ ms') st = (case sub_loop subscribed ms st of (Some e, st) \<Rightarrow> (Some e, st) | (None, st) \<Rightarrow> sub_loop subscribed ms' st)"
  by (induction ms arbitrary: st) (auto split: prod.split option.split)

lemma live_after_untouched: "x \<notin> event_ids evs \<Longrightarrow> x \<in> live_after L evs \<longleftrightarrow> x \<in> L"
  by (induction evs arbitrary: L) (auto simp: live_after_def live_step_def event_ids_def)

lemma following_whole:
  assumes "following kx s L U (Some D) evs st" and "\<forall>x. x \<notin> event_ids evs \<longrightarrow> (x \<in> D \<longleftrightarrow> x \<in> L)"
  shows "connections_of k (sb_emitted st) = of_nat (having_key kx k L + newly_opened kx k evs) \<and> bytes_of k (sb_emitted st) = closing_bytes kx k evs"
proof -
  have ag: "agrees kx (live_after L evs) (Some D) evs (sb_sightings st)" using assms(1) by (simp add: following_def)
  have "x \<in> si_seen (sb_sightings st) \<longleftrightarrow> x \<in> live_after L evs" if "countable_id kx x" for x
  proof (cases "x \<in> event_ids evs")
    case True
    then show ?thesis using ag that unfolding agrees_def by blast
  next
    case False
    then have "x \<in> si_seen (sb_sightings st) \<longleftrightarrow> x \<in> D" using ag that unfolding agrees_def by simp
    then show ?thesis using assms(2) False live_after_untouched by simp
  qed
  moreover have "countable_id kx x" if "kx x = Some k" "\<not> blocked_key k" for x using that by (simp add: countable_id_def)
  ultimately have "{x \<in> si_seen (sb_sightings st). kx x = Some k \<and> \<not> blocked_key k} = {x \<in> live_after L evs. kx x = Some k \<and> \<not> blocked_key k}"
    by blast
  then have seen: "having_key kx k (si_seen (sb_sightings st)) = having_key kx k (live_after L evs)" by (simp add: having_key_def)
  have "balanced kx L (live_after L evs) evs (sb_sightings st) (sb_emitted st)" using assms(1) by (simp add: following_def)
  then have "connections_of k (sb_emitted st) + of_nat (having_key kx k (live_after L evs)) =
      of_nat (having_key kx k L) + of_nat (newly_opened kx k evs) + of_nat (having_key kx k (si_seen (sb_sightings st)))"
    and "bytes_of k (sb_emitted st) = closing_bytes kx k evs" unfolding balanced_def by blast+
  then show ?thesis unfolding seen by simp
qed

text \<open>\<^bold>\<open>C8\<close>: Every connection is counted once. A subscription reads events that open and close connections, and at any point among them the dump, which lists what neither opened
  nor closed meanwhile exactly when it was open, and of the rest whatever it caught. As long as the table fits the bound, the observations of each
  key count one connection for each open when it subscribed and each opened since, and carry the bytes of each that closed; of a key the log path
  counts, they carry the bytes only.\<close>

theorem every_connection_once:
  assumes "se_opens env" and "se_listens env" and "se_messages env = ms @ DumpRead (Some flows) now # ms'" and "evs = events_of (ms @ ms')"
    and "list_all (quiet s) (ms @ ms')" and "events_ok s kx L evs"
    and "\<forall>f \<in> set flows. conn_key s f = kx (cf_id f)" and "\<forall>x. x \<notin> event_ids evs \<longrightarrow> (x \<in> cf_id ` set flows \<longleftrightarrow> x \<in> L)"
    and "length flows \<le> dumpMax s" and "card (L \<union> event_ids evs) \<le> dumpMax s"
    and "subscribe env (s, g) = (e, obs, s', g')"
  shows "e = None \<and> s' = s \<and> connections_of k obs = of_nat (having_key kx k L + newly_opened kx k evs) \<and> bytes_of k obs = closing_bytes kx k evs"
proof -
  let ?U = "L \<union> event_ids evs" let ?sub = "se_subscribed env"
  let ?start = "sub_start s ?sub g"
  obtain e1 st1 where l1: "sub_loop ?sub ms ?start = (e1, st1)" by fastforce
  have start: "following kx s L ?U None [] ?start"
    using assms(10) by (simp add: following_def sub_start_def newSightings_def agrees_def balanced_def live_after_def)
  have evs: "events_ok s kx (live_after L []) (events_of ms)" "events_ok s kx (live_after L (events_of ms)) (events_of ms')"
    using assms(4,6) by (auto simp: live_after_def)
  have one: "e1 = None \<and> following kx s L ?U None (events_of ms) st1"
    using following_loop [OF start _ evs(1) _ l1] assms(4,5) by auto
  have "\<forall>f \<in> set flows. conn_key s f = kx (cf_id f) \<and> cf_id f \<in> ?U" using assms(7,8) by blast
  then obtain st2 where dump: "sub_step ?sub (DumpRead (Some flows) now) st1 = (None, st2)" and two: "following kx s L ?U (Some (cf_id ` set flows)) (events_of ms) st2"
    using following_dump [OF conjunct2 [OF one] _ assms(9)] by blast
  obtain e3 st3 where l3: "sub_loop ?sub ms' st2 = (e3, st3)" by fastforce
  have three: "e3 = None \<and> following kx s L ?U (Some (cf_id ` set flows)) evs st3"
    using following_loop [OF two _ evs(2) _ l3] assms(4,5) by auto
  have "sub_loop ?sub (se_messages env) ?start = (e3, st3)" using l1 one dump l3 by (simp add: assms(3) sub_loop_append)
  then have "e = e3 \<and> obs = sb_emitted st3 \<and> s' = sb_source st3" using assms(1,2,11) by (simp add: subscribe_def)
  then show ?thesis using three following_whole [of kx s L ?U "cf_id ` set flows" evs st3 k] assms(8) by (simp add: following_def)
qed

definition inbound_demo :: "32 word \<Rightarrow> ct_flow" where
  "inbound_demo x = \<lparr>cf_id = x, cf_src = Some (V4 0x0a000002), cf_dst = Some (V4 0x0a000001), cf_proto = 6, cf_dst_port = 443, cf_mark = 0,
     cf_bytes_orig = 100, cf_bytes_reply = 50\<rparr>"

definition source_demo :: ct_source where
  "source_demo = \<lparr>cs_classify = None, cs_dump_max = 0, cs_local = {V4 0x0a000001}\<rparr>"

definition key_demo :: Key where
  "key_demo = \<lparr>key_src = V4 0x0a000002, key_dst = V4 0x0a000001, key_dst_port = 443, key_protocol = PROTOCOL_TCP, key_decision = POLICY_DECISION_OBSERVED, key_rule_id = []\<rparr>"

definition opens_demo :: ct_event where "opens_demo = \<lparr>ce_type = EventNew, ce_flow = Some (inbound_demo 2)\<rparr>"
definition closes_demo :: ct_event where "closes_demo = \<lparr>ce_type = EventDestroy, ce_flow = Some (inbound_demo 1)\<rparr>"

text \<open>The second connection opens after the listen and is in the dump, which is read before its event; the first closes.\<close>

definition raced_demo :: sub_env where
  "raced_demo = \<lparr>se_opens = True, se_listens = True, se_subscribed = 10,
     se_messages = [DumpRead (Some [inbound_demo 1, inbound_demo 2]) 12, EventRead opens_demo 13, EventRead closes_demo 14]\<rparr>"

lemma conn_key_demo: "conn_key source_demo (inbound_demo x) = Some key_demo"
  by (simp add: conn_key_def inbound_def inbound_demo_def source_demo_def key_demo_def isLocal_def key_of_def v4_in_def)

theorem every_connection_once_witness:
  "connections_of key_demo (fst (snd (subscribe raced_demo (source_demo, None)))) = 2 \<and> bytes_of key_demo (fst (snd (subscribe raced_demo (source_demo, None)))) = 150"
proof -
  let ?evs = "[opens_demo, closes_demo]"
  obtain e obs s' g' where r: "subscribe raced_demo (source_demo, None) = (e, obs, s', g')" by (metis prod_cases4)
  have ids: "event_ids ?evs = {1, 2}" by (auto simp: event_ids_def opens_demo_def closes_demo_def inbound_demo_def)
  have max: "dumpMax source_demo = 50000" by (simp add: dumpMax_def source_demo_def DefaultBufferRecords_def)
  have "connections_of key_demo obs = of_nat (having_key (\<lambda>x. Some key_demo) key_demo {1} + newly_opened (\<lambda>x. Some key_demo) key_demo ?evs) \<and>
      bytes_of key_demo obs = closing_bytes (\<lambda>x. Some key_demo) key_demo ?evs"
    using every_connection_once [of raced_demo "[]" "[inbound_demo 1, inbound_demo 2]" 12 "[EventRead opens_demo 13, EventRead closes_demo 14]" ?evs source_demo
        "\<lambda>x. Some key_demo" "{1}" None e obs s' g' key_demo] r ids max
    by (simp add: raced_demo_def event_ok_def live_step_def opens_demo_def closes_demo_def conn_key_demo) (simp add: inbound_demo_def)
  then show ?thesis using r
    by (simp add: having_key_def newly_opened_def closing_bytes_def opens_demo_def closes_demo_def inbound_demo_def key_demo_def)
qed

section \<open>Losses and packets\<close>

text \<open>An overrun is counted, and the interval from the last event read to the next subscribe is a gap.\<close>

lemma overrun_evidenced:
  assumes "sub_step subscribed (StreamFailed True) st = (e, st')" and "sb_gaps st = Some g" and "map_of (gs_open g) GapConntrack = None"
  shows "e = Some SubOverrun \<and> (\<exists>g'. sb_gaps (sub_start s t (sb_gaps st')) = Some g' \<and> gs_overruns g' = gs_overruns g + 1 \<and>
    gs_pending g' = add_pending (gaps_capacity g) \<lparr>gap_kind = GapSourceOverrun, gap_source = GapConntrack, gap_from = sb_last st, gap_to = t, gap_count = 0, gap_has_count = False\<rparr> (gs_pending g))"
  using assms by (auto simp: sub_step_def sub_start_def Gaps_Open_def Gaps_Overrun_def Gaps_Close_def open_gap_def add_gap_def gaps_capacity_def update_conv')

text \<open>Reading a logged packet never goes out of range, whatever its bytes.\<close>

lemma Parse_in_range: "Parse payload \<noteq> Inl OutOfRange"
proof -
  have "parse_v4_packet payload \<noteq> Inl OutOfRange" by (auto simp: parse_v4_packet_def byte_at_def bytes_at_def Let_def)
  moreover have "parse_v6_packet payload \<noteq> Inl OutOfRange" by (auto simp: parse_v6_packet_def byte_at_def bytes_at_def)
  moreover have "parse_transport h \<noteq> Inl OutOfRange" for h by (auto simp: parse_transport_def bytes_at_def Let_def split: option.split prod.split)
  ultimately show ?thesis by (auto simp: Parse_def byte_at_def Let_def split: sum.split)
qed

text \<open>A packet is reported only under a mode that judges it, as one attempt.\<close>

lemma nflog_observations:
  assumes "nflog_classify decide payload now = Some ob"
  shows "ob_connections ob = 1" and "ob_decision ob \<in> {POLICY_DECISION_BLOCKED, POLICY_DECISION_WOULD_BLOCK}" and "unmap (ob_src ob) = ob_src ob"
  using assms by (auto simp: nflog_classify_def Let_def split: sum.split_asm if_split_asm)

end
