(* ===== verification/Spec2Isabelle.thy ===== *)
theory Spec2Isabelle
  imports Convergence Fleet Document WriteEndpoints AgentCredential KernelSources
begin

text \<open>
  A verification development for Innerwall, a control plane for host firewalls. Operators author
  label-based rules; the control plane renders one policy per workload and keeps it versioned;
  agents hold a stream to it, receive the policy as a snapshot and then as deltas, install it in the
  kernel's firewall, and report the connections they saw, with the intervals they could not see.

  \<^bold>\<open>How the parts interact.\<close> Authored objects are admitted by the validators of
  \<^verbatim>\<open>internal/policy\<close> and read, with the workload registry, by the compiler (\<^verbatim>\<open>internal/compiler\<close>), which
  renders, numbers and persists the policies and announces what changed. The gateway
  (\<^verbatim>\<open>internal/gateway\<close>) admits callers by certificate, enrolls and renews them through
  \<^verbatim>\<open>internal/enroll\<close>, and drives each agent's stream: it sends deltas computed by \<^verbatim>\<open>internal/rendered\<close>
  and writes what the agent answers into the workload's row. The agent (\<^verbatim>\<open>internal/agent\<close>) applies
  updates with the same \<^verbatim>\<open>internal/rendered\<close> code, persists them, allocates connection marks, runs one
  nftables script, attributes observed connections to rules by their mark, aggregates them into
  windows and ships the windows. Ingestion (\<^verbatim>\<open>internal/ingest\<close>) validates and resolves them into the
  flow store (\<^verbatim>\<open>internal/flowstore\<close>).

  \<^bold>\<open>Foundations.\<close>
  \<^item> \<open>Prelude\<close>: results for Go's value and error pairs, Go maps as association lists, the
    sort-and-compact idiom, shared lemmas and collections.
  \<^item> \<open>GoText\<close>, \<open>Netip\<close>: what the program uses of \<^verbatim>\<open>strings\<close>, \<^verbatim>\<open>strconv\<close> and \<^verbatim>\<open>net/netip\<close>, with the
    print and parse round trips of addresses and prefixes.
  \<^item> \<open>Wire\<close>: the enumerations and messages of \<^verbatim>\<open>internal/gen/innerwall/v1\<close>; enumerations are open.

  \<^bold>\<open>Policy, from authoring to the row.\<close>
  \<^item> \<open>Rendered\<close> is \<^verbatim>\<open>rendered.go\<close> and \<^verbatim>\<open>ruleid.go\<close>: canonical forms, \<^verbatim>\<open>Diff\<close>, \<^verbatim>\<open>Delta\<close>, \<^verbatim>\<open>Apply\<close>. A delta
    applied to its base is the canonical target; each refusal is characterised.
  \<^item> \<open>PolicyModel\<close> is \<^verbatim>\<open>model.go\<close>, \<^verbatim>\<open>labels.go\<close>, \<^verbatim>\<open>validate.go\<close>, \<^verbatim>\<open>version.go\<close> of \<^verbatim>\<open>internal/policy\<close>: each
    validator accepts exactly what a predicate describes.
  \<^item> \<open>Registry\<close> is \<^verbatim>\<open>internal/registry\<close>: the workload record and its addresses.
  \<^item> \<open>Compiler\<close> is \<^verbatim>\<open>render.go\<close>, \<^verbatim>\<open>plan.go\<close>, \<^verbatim>\<open>engine.go\<close>, \<^verbatim>\<open>dryrun.go\<close>: a rendered policy permits exactly what
    the rules in scope say; renders converge, are idempotent and atomic.
  \<^item> \<open>AuthoredStore\<close> is \<^verbatim>\<open>internal/store/policy.go\<close>, the tables of authored objects and what a read makes
    of their rows; \<open>Authoring\<close> is \<^verbatim>\<open>internal/policy/service.go\<close>, the authoring service: the tables stay
    admissible under every operation, a mutation that succeeds is in force, and no edit is lost.
  \<^item> \<open>Document\<close> is \<^verbatim>\<open>document.go\<close>: rulesets as documents; writing and reading one is a round trip, and what
    a document gets wrong is reported at admission.
  \<^item> \<open>RenderStore\<close> is \<^verbatim>\<open>internal/store/render.go\<close>: policies as encoded rows and the notification channel;
    a render over rows refines the one over policies, and listeners read what it announces.
  \<^item> \<open>Fleet\<close> is \<^verbatim>\<open>internal/fleet\<close> with \<^verbatim>\<open>internal/store/fleet.go\<close>: labels, mode changes, retirement,
    reconnects and dry runs, each with its transaction: mode changes flip exactly what they select,
    retirement is final, a dry run predicts the render.
  \<^item> \<open>GatewaySync\<close> is the handlers of \<^verbatim>\<open>internal/gateway/sync.go\<close> and the row writes of
    \<^verbatim>\<open>internal/store/registry.go\<close>; \<open>Convergence\<close> composes a session, the channel and the agent's store
    into a step relation and proves that a synced row is right and that a quiet stream has converged.
  \<^item> \<open>Enroll\<close> is \<^verbatim>\<open>internal/identity\<close>, \<^verbatim>\<open>internal/enroll\<close> and the tables of \<^verbatim>\<open>internal/store/store.go\<close>;
    \<open>GatewayAuth\<close> the interceptor, the enrollment handlers and the ends of streams: who is admitted,
    exactly, and that a retired workload finds every door shut.

  \<^bold>\<open>The agent.\<close>
  \<^item> \<open>Enforce\<close> is \<^verbatim>\<open>internal/agent/enforce\<close>: the contract of a policy store as the locale \<open>policy_store\<close>,
    interpreted by the in-memory store and, in \<open>NftStore\<close>, by the nftables one; durable writes as the
    sequence of steps that may fail; the presence tracker as a step relation.
  \<^item> \<open>Marks\<close> is \<^verbatim>\<open>allocator.go\<close>, \<open>Nft\<close> \<^verbatim>\<open>render.go\<close> and \<^verbatim>\<open>delta.go\<close> as text, \<open>NftStore\<close> \<^verbatim>\<open>store.go\<close> and
    \<^verbatim>\<open>runner.go\<close>: the kernel only sees what is on disk, and attribution survives applies, crashes and
    restarts.
  \<^item> \<open>AgentSync\<close> is \<^verbatim>\<open>internal/agent/sync/daemon.go\<close>: acknowledgements are true, waits are bounded.
  \<^item> \<open>AgentCredential\<close> is \<^verbatim>\<open>internal/agent/credential\<close>: renewal falls due well before the expiry, a crash leaves a
    directory that loads, and a late agent is renewed within the grace.
  \<^item> \<open>KernelSources\<close> is \<^verbatim>\<open>internal/agent/collect/conntrack\<close> and \<^verbatim>\<open>internal/agent/collect/nflog\<close>: every connection is counted
    once, however the dump of the table falls among the events, and reading a packet stays in range.
  \<^item> \<open>Gaps\<close>, \<open>Aggregate\<close>, \<open>Delivery\<close> are \<^verbatim>\<open>internal/agent/collect\<close>: windows add up exactly, no loss is
    forgotten, and every record is accounted for.

  \<^bold>\<open>Flow evidence on the control plane.\<close> \<open>FlowStore\<close> is the write side of \<^verbatim>\<open>internal/flowstore\<close>: the running
  totals are the sums of the rows. \<open>Ingest\<close> is \<^verbatim>\<open>internal/ingest\<close> and \<^verbatim>\<open>internal/gateway/flows.go\<close>: what an
  agent makes of its observations is accepted. \<open>FlowQuery\<close> is its read side and retention: rollups are exact
  over every group, and a pruning run ends with exactly what is older than its horizon gone.

  \<^bold>\<open>What operators see and do.\<close> Operators reach the control plane over HTTP (\<^verbatim>\<open>internal/api\<close>): a request passes
  the origin guard, the login throttle and authentication, is routed, and its handler decodes it, calls
  one function of the domain and answers.
  \<^item> \<open>Paging\<close> holds base 64, cursors and the locale \<open>cursor_reads\<close>, the contract of a read
    that continues after a position, interpreted by the fleet list and the flow list. \<open>ReadModel\<close> and
    \<open>ReadFlows\<close> are \<^verbatim>\<open>internal/readmodel\<close> with \<^verbatim>\<open>internal/store/readmodel.go\<close>: following cursors meets every
    row once and ends, counts are exact or refused, and a scope is never widened.
  \<^item> \<open>Operators\<close> is \<^verbatim>\<open>internal/operator\<close>, \<^verbatim>\<open>internal/authn\<close> and \<^verbatim>\<open>internal/store/operator.go\<close>: passwords, sessions and
    tokens over every history of operations; a credential admits from when it is issued until it
    expires or is taken back, and never again.
  \<^item> \<open>Throttle\<close> is \<^verbatim>\<open>throttle.go\<close>: within a bounded number of sources, no source has more than twice its
    limit of attempts in any span of a window.
  \<^item> \<open>Surface\<close> is \<^verbatim>\<open>server.go\<close>, \<^verbatim>\<open>auth.go\<close>, \<^verbatim>\<open>csrf.go\<close>, \<^verbatim>\<open>problem.go\<close> and the endpoints of sessions and operator
    tokens: the router serves the same whatever the order of registration, and no endpoint but the login
    runs without a credential that verifies.
  \<^item> \<open>ReadEndpoints\<close> is \<^verbatim>\<open>params.go\<close> and \<^verbatim>\<open>reads.go\<close>; \<open>WriteEndpoints\<close> is \<^verbatim>\<open>writes.go\<close> and \<^verbatim>\<open>writes_encode.go\<close>, with the
    locales \<open>conditional\<close>, an endpoint whose effects are conditioned on the version a resource holds, and
    \<open>advancing\<close>, one whose effects also move that version on, interpreted by every conditional endpoint.

  \<^bold>\<open>Conventions and bounds.\<close> No definition uses fuel: loops recurse over the data they consume, and a
  loop driven by events (the reconnect loop, a session, a report stream) consumes the list of events
  it met. A handler is one atomic step; where the code takes a lock for less than a handler, the steps
  of \<open>Convergence\<close> are the locked sections. Instants and durations are integers in nanoseconds, without
  the monotonic reading a Go time may carry; counters, versions and marks keep their width and wrap.
  What lies outside the repository is an argument of the definitions that use it: SHA-256, protobuf and
  JSON encodings, UUID parsing, randomness, X.509 verification, the certificate authority, the outcome
  of each database statement, file-system call and nft run. Hypotheses on such arguments are the
  documented ones, such as that a decoder reads back what its encoder wrote.
  A UUID is the text it prints as. The SQL behind a store method is modelled by its effect on the rows.

  \<^bold>\<open>Not modelled.\<close> Logging and the prose of error messages; generated protobuf, gRPC and sqlc code
  beyond the message types; the JSON shapes of the answers of the read endpoints (\<^verbatim>\<open>encode.go\<close>), the console
  files and the TLS configuration; the agent's inventory, which reads the host; the
  netlink libraries; key handling of the certificate authority; the commands under \<^verbatim>\<open>cmd\<close>, which parse
  flags and call the functions modelled here; and the in-memory stores that exist for tests.
\<close>

end
